(* ===== verification/Prelude.thy ===== *)
theory Prelude
  imports Main "HOL-Library.Word" "HOL-Library.Finite_Map" "HOL-Library.Sublist"
begin

text \<open>
  Shared vocabulary of the development: the named collections the component proofs are
  driven by, the machine-integer conventions, and the generic lemmas on finite maps, lists
  and words that more than one component uses.

  Conventions. A Rust \<open>Option\<close> is \<open>option\<close>, a \<open>String\<close> is \<open>string\<close>, a
  \<open>HashMap\<close> is an \<open>fmap\<close> (finite by type; where the code iterates over one, the
  unspecified iteration order is an explicit list argument). Millisecond time stamps are
  \<open>nat\<close>, so that \<open>saturating_sub\<close> is the truncating subtraction of HOL. Boot epochs
  are \<open>64 word\<close>, because the code mixes and masks their bits.
\<close>

named_theorems own_ops \<open>the coordinator's operations, unfolded\<close>
named_theorems lifecycle_intros \<open>introduction rules of the abstract lifecycle\<close>

type_synonym u64 = "64 word"

text \<open>The largest values of the saturating counters.\<close>

definition u32_max :: nat where
  "u32_max = 4294967295"

definition saturating_add_u32 :: "nat \<Rightarrow> nat \<Rightarrow> nat" where
  "saturating_add_u32 a b = min (a + b) u32_max"

lemma saturating_add_u32_pos [simp]: "0 < saturating_add_u32 n (Suc 0)"
  by (simp add: saturating_add_u32_def u32_max_def)

lemma saturating_add_u32_le: "a \<le> u32_max \<Longrightarrow> saturating_add_u32 a b \<le> u32_max"
  by (simp add: saturating_add_u32_def)

lemma saturating_add_u32_exact: "a < u32_max \<Longrightarrow> saturating_add_u32 a (Suc 0) = Suc a"
  by (simp add: saturating_add_u32_def)

section \<open>Machine integers\<close>

definition usize_max :: nat where "usize_max = 2 ^ 64 - 1"
definition u128_max :: nat where "u128_max = 2 ^ 128 - 1"

definition saturating :: "nat \<Rightarrow> nat \<Rightarrow> nat" where
  "saturating hi n = min n hi"

definition checked_add :: "nat \<Rightarrow> nat \<Rightarrow> nat \<Rightarrow> nat option" where
  "checked_add hi a b = (if a + b \<le> hi then Some (a + b) else None)"

definition checked_sub :: "nat \<Rightarrow> nat \<Rightarrow> nat option" where
  "checked_sub a b = (if b \<le> a then Some (a - b) else None)"

section \<open>Finite maps\<close>

lemma fmdom_insert_card:
  assumes "x \<in> A" and "finite A" and "x \<notin> V"
  shows "card (A - insert x V) < card (A - V)"
proof -
  have "A - insert x V \<subset> A - V" using assms by blast
  then show ?thesis using assms(2) by (meson finite_Diff psubset_card_mono)
qed

section \<open>Lists\<close>

lemma remove1_snoc_fresh [simp]: "x \<notin> set xs \<Longrightarrow> remove1 x (xs @ [x]) = xs"
  by (induction xs) auto

lemma suffix_append_both: "suffix xs ys \<Longrightarrow> suffix (xs @ zs) (ys @ zs)"
  by (auto simp: suffix_def)

lemma suffix_drop_append: "suffix (drop n xs) xs"
  by (metis append_take_drop_id suffixI)

text \<open>The last \<open>n\<close> elements, what a bounded window keeps.\<close>

definition newest :: "nat \<Rightarrow> 'a list \<Rightarrow> 'a list" where
  "newest n xs = drop (length xs - n) xs"

lemma newest_short: "length xs \<le> n \<Longrightarrow> newest n xs = xs"
  by (simp add: newest_def)

lemma newest_length: "length (newest n xs) \<le> n"
  by (simp add: newest_def)

lemma newest_append: "newest n (newest n xs @ ys) = newest n (xs @ ys)"
  by (cases "length xs \<le> n") (simp_all add: newest_def add.commute)

lemma filter_upto_above: "filter (\<lambda>q. s < q) [a .. b] = [max (s + 1) a .. b]"
  for a b s :: int
  by (rule sorted_distinct_set_unique) (auto intro: sorted_wrt_filter)

lemma upto_from_eq:
  fixes b s :: int
  shows "([max (s + 1) (b - int n + 1) .. b] = [s + 1 .. b]) = (\<not> s < b - int n)"
proof
  assume eq: "[max (s + 1) (b - int n + 1) .. b] = [s + 1 .. b]"
  show "\<not> s < b - int n"
  proof
    assume "s < b - int n"
    then have "s + 1 \<in> set [s + 1 .. b]" by simp
    then have "s + 1 \<in> set [max (s + 1) (b - int n + 1) .. b]" by (simp only: eq)
    then show False using \<open>s < b - int n\<close> by simp
  qed
qed (simp add: max_def)

lemma upto_append_int:
  "[s .. s + int n - 1] @ [s + int n .. s + int n + int k - 1] = [s .. s + int n + int k - 1]"
proof (induction k)
  case (Suc k)
  have "[s + int n .. s + int n + int (Suc k) - 1] = [s + int n .. s + int n + int k - 1] @ [s + int n + int k]"
    "[s .. s + int n + int (Suc k) - 1] = [s .. s + int n + int k - 1] @ [s + int n + int k]"
    by (subst upto_rec2; simp add: algebra_simps)+
  then show ?case using Suc by simp
qed simp

lemma map_shift_upt: "map (\<lambda>i. i + l) [a ..< b] = [a + l ..< b + l]"
  by (induction b) auto

lemma sum_list_filter_le:
  fixes f :: "'a \<Rightarrow> nat"
  shows "sum_list (map f (filter P xs)) \<le> sum_list (map f xs)"
  by (induction xs) auto

section \<open>Words\<close>

text \<open>
  A right xor-shift is injective: where two inputs collide, their difference equals its own
  shift, and a word that equals its own non-trivial right shift is zero.
\<close>

lemma drop_bit_fixpoint_zero:
  fixes d :: u64
  assumes "0 < k" and "d = drop_bit k d"
  shows "d = 0"
proof -
  have step: "bit d n = bit d (n + k)" for n
    by (subst assms(2)) (simp add: bit_drop_bit_eq add.commute)
  have "bit d n = bit d (n + j * k)" for n j
  proof (induction j)
    case (Suc j)
    then show ?case using step [of "n + j * k"] by (simp add: ac_simps)
  qed simp
  moreover have "\<not> bit d (n + 64 * k)" for n
    using bit_imp_le_length [of d "n + 64 * k"] assms(1) by auto
  ultimately have "\<not> bit d n" for n by blast
  then show ?thesis by (simp add: bit_eq_iff)
qed

lemma xorshift_inj:
  fixes x y :: u64
  assumes "0 < k" and "xor x (drop_bit k x) = xor y (drop_bit k y)"
  shows "x = y"
proof -
  have "bit (xor x y) n = bit (drop_bit k (xor x y)) n" for n
    using arg_cong [OF assms(2), of "\<lambda>w. bit w n"] by (auto simp: bit_xor_iff bit_drop_bit_eq)
  then have "xor x y = drop_bit k (xor x y)" by (simp add: bit_eq_iff)
  then have "xor x y = 0" by (rule drop_bit_fixpoint_zero [OF assms(1)])
  then show ?thesis by (simp add: bit_eq_iff bit_xor_iff)
qed

lemma mult_unit_inj:
  fixes x y c i :: u64
  assumes "c * i = 1" and "x * c = y * c"
  shows "x = y"
proof -
  have "x * (c * i) = y * (c * i)" using assms(2) by (metis mult.assoc)
  then show ?thesis using assms(1) by simp
qed

end
