(* ===== verification/Own_Types.thy ===== *)
theory Own_Types
  imports Prelude
begin

unbundle bit_operations_syntax

text \<open>
  The data model of the runtime-ownership coordinator (crates/freshell-ownership/src/lib.rs):
  kinds, keys, owner identities, the seven ownership states, the outcome types of the
  operations, the per-key record and the registry, the projections the operations use, and
  the mint of the boot epoch.
\<close>

section \<open>Identities and fences\<close>

definition OWNERSHIP_RETRY_AFTER_MS :: nat where
  "OWNERSHIP_RETRY_AFTER_MS = 1000"

datatype RuntimeOwnerKind = Terminal | FreshAgent

record ObservedFence =
  of_epoch :: u64
  of_generation :: nat

record SessionKey =
  sk_provider :: string
  sk_session_id :: string

definition SessionKey_new :: "string \<Rightarrow> string \<Rightarrow> SessionKey" where
  "SessionKey_new provider session_id = \<lparr>sk_provider = provider, sk_session_id = session_id\<rparr>"

record OwnerIdentity =
  ow_kind :: RuntimeOwnerKind
  ow_terminal_id :: "string option"
  ow_live_session_key :: "string option"
  ow_pid :: "nat option"
  ow_ownership_id :: "string option"

fun kind_wire :: "RuntimeOwnerKind \<Rightarrow> string" where
  "kind_wire Terminal = ''terminal''"
| "kind_wire FreshAgent = ''fresh-agent''"

datatype FenceReason = WatcherFailed | PlatformLimited | ClearedUnverified | StaleStart | StaleStop

fun wire_str :: "FenceReason \<Rightarrow> string" where
  "wire_str WatcherFailed = ''watcher-failed''"
| "wire_str PlatformLimited = ''platform-limited''"
| "wire_str ClearedUnverified = ''cleared-unverified''"
| "wire_str StaleStop = ''stale-stop''"
| "wire_str StaleStart = ''stale-start''"

section \<open>The ownership state\<close>

text \<open>
  The arguments follow the order of the source's fields:
  \<^item> \<open>Starting kind operation_id generation initiator since_ms\<close>
  \<^item> \<open>Live owner generation since_ms\<close>
  \<^item> \<open>Handoff prior to_kind operation_id generation initiator since_ms\<close>
  \<^item> \<open>Stopping owner prior_generation operation_id generation initiator since_ms\<close>
  \<^item> \<open>Fenced prior reason operation_id generation initiator since_ms\<close>
  \<^item> \<open>Aliased to generation\<close>
\<close>

datatype OwnershipState =
    Vacant
  | Starting RuntimeOwnerKind string nat string nat
  | Live OwnerIdentity nat nat
  | Handoff "(OwnerIdentity \<times> nat) option" RuntimeOwnerKind string nat string nat
  | Stopping "OwnerIdentity option" "nat option" string nat string nat
  | Fenced "(OwnerIdentity \<times> nat) option" FenceReason string nat string nat
  | Aliased string nat

fun state_initiator :: "OwnershipState \<Rightarrow> string option" where
  "state_initiator (Starting kind op gen init since) = Some init"
| "state_initiator (Handoff prior to_kind op gen init since) = Some init"
| "state_initiator (Stopping owner prior_gen op gen init since) = Some init"
| "state_initiator (Fenced prior reason op gen init since) = Some init"
| "state_initiator (Aliased to_id gen) = None"
| "state_initiator _ = None"

fun state_kind :: "OwnershipState \<Rightarrow> RuntimeOwnerKind option" where
  "state_kind Vacant = None"
| "state_kind (Aliased to_id gen) = None"
| "state_kind (Starting kind op gen init since) = Some kind"
| "state_kind (Live owner gen since) = Some (ow_kind owner)"
| "state_kind (Handoff prior to_kind op gen init since) = Some to_kind"
| "state_kind (Stopping owner prior_gen op gen init since) = map_option ow_kind owner"
| "state_kind (Fenced prior reason op gen init since) = map_option (\<lambda>(owner, _). ow_kind owner) prior"

fun operation_id :: "OwnershipState \<Rightarrow> string option" where
  "operation_id Vacant = None"
| "operation_id (Live owner gen since) = None"
| "operation_id (Aliased to_id gen) = None"
| "operation_id (Starting kind op gen init since) = Some op"
| "operation_id (Handoff prior to_kind op gen init since) = Some op"
| "operation_id (Stopping owner prior_gen op gen init since) = Some op"
| "operation_id (Fenced prior reason op gen init since) = Some op"

fun state_since_ms :: "OwnershipState \<Rightarrow> nat option" where
  "state_since_ms Vacant = None"
| "state_since_ms (Aliased to_id gen) = None"
| "state_since_ms (Live owner gen since) = Some since"
| "state_since_ms (Starting kind op gen init since) = Some since"
| "state_since_ms (Handoff prior to_kind op gen init since) = Some since"
| "state_since_ms (Stopping owner prior_gen op gen init since) = Some since"
| "state_since_ms (Fenced prior reason op gen init since) = Some since"

fun prior_owner :: "OwnershipState \<Rightarrow> (OwnerIdentity \<times> nat) option" where
  "prior_owner (Handoff prior to_kind op gen init since) = prior"
| "prior_owner _ = None"

section \<open>Outcomes\<close>

text \<open>
  A variant name that several outcome enums share carries the enum's name as a prefix.
\<close>

datatype BeginOutcome =
    Granted nat
  | AdoptLive OwnerIdentity nat
  | OwnedByOtherKind OwnerIdentity nat
  | Blocked OwnershipState nat
  | Begin_StaleGeneration u64 nat

datatype CommitOutcome =
    Committed
  | Commit_StaleGeneration nat
  | Commit_ForeignOperation

datatype AbortStopOutcome =
    Aborted
  | Abort_StaleGeneration nat
  | Abort_ForeignOperation

datatype FailVacantReason = NoPrior | PriorNotLive

datatype FailOutcome =
    Fail_Released
  | RestoredPriorOwner
  | Fail_Vacant FailVacantReason
  | Fail_ForeignOperation

datatype FenceOutcome = Fence_Fenced | Fence_ForeignOperation

datatype AcknowledgedStartOutcome =
    Ack_Granted nat
  | Ack_StaleObservation u64 nat
  | LostRace OwnershipState

datatype ForceReleaseOutcome =
    Force_Released
  | NotPlatformLimited OwnershipState
  | Force_StaleObservation u64 nat

datatype StopOutcome =
    Stop_Granted nat
  | NotLive OwnershipState
  | BlockedHandoff OwnershipState nat
  | StaleClaim u64 nat OwnershipState

record OwnershipSnapshot =
  snap_epoch :: u64
  snap_generation :: nat
  snap_state :: OwnershipState

record ReleaseClaim =
  rc_operation_id :: string
  rc_generation :: nat
  rc_runtime :: "OwnerIdentity option"

record StopClaim =
  sc_expected_kind :: RuntimeOwnerKind
  sc_expected_runtime :: "OwnerIdentity option"
  sc_observed :: ObservedFence

section \<open>Records and the registry\<close>

text \<open>
  The abort closure and the settle future a start registers are opaque to this crate: it
  stores them and hands them back, so the model keeps a handle for each. The settlement
  flags are shared \<open>AtomicBool\<close>s that the registering lane sets from outside; the model
  keeps the flag's address, and an operation that loads a flag takes the current contents
  of that memory as an argument.
\<close>

type_synonym handle = nat
type_synonym flag_addr = nat
type_synonym flag_memory = "nat \<Rightarrow> bool"

record SessionRecord =
  rec_generation :: nat
  rec_state :: OwnershipState
  rec_cancellation :: "handle option"
  rec_settle :: "handle option"
  rec_settle_fired :: "flag_addr option"
  rec_stop_settled :: "flag_addr option"
  rec_partial_runtime :: "OwnerIdentity option"
  rec_in_flight_attaches :: nat
  rec_armed_attach_ops :: "string list"

definition SessionRecord_default :: SessionRecord where
  "SessionRecord_default =
     \<lparr>rec_generation = 0, rec_state = Vacant, rec_cancellation = None, rec_settle = None,
      rec_settle_fired = None, rec_stop_settled = None, rec_partial_runtime = None,
      rec_in_flight_attaches = 0, rec_armed_attach_ops = []\<rparr>"

record RuntimeOwnershipRegistry =
  reg_epoch :: u64
  reg_inner :: "(SessionKey, SessionRecord) fmap"

definition with_epoch :: "u64 \<Rightarrow> RuntimeOwnershipRegistry" where
  "with_epoch epoch = \<lparr>reg_epoch = epoch, reg_inner = fmempty\<rparr>"

definition boot_epoch :: "RuntimeOwnershipRegistry \<Rightarrow> u64" where
  "boot_epoch reg = reg_epoch reg"

record RecoveredStart =
  rs_provider :: string
  rs_session_id :: string
  rs_operation_id :: string
  rs_generation :: nat
  rs_kind :: RuntimeOwnerKind
  rs_initiator :: string
  rs_since_ms :: nat
  rs_cancellation :: "handle option"
  rs_settle :: "handle option"
  rs_partial_runtime :: "OwnerIdentity option"

record StaleStopping =
  ss_provider :: string
  ss_session_id :: string
  ss_operation_id :: string
  ss_generation :: nat
  ss_prior :: "(OwnerIdentity \<times> nat) option"
  ss_initiator :: string
  ss_since_ms :: nat

record StaleStartFence =
  sf_provider :: string
  sf_session_id :: string
  sf_operation_id :: string
  sf_generation :: nat
  sf_prior_pid :: "nat option"
  sf_initiator :: string
  sf_prior_kind :: "RuntimeOwnerKind option"
  sf_settle_concluded :: "bool option"
  sf_reason :: FenceReason
  sf_prior_terminal_id :: "string option"
  sf_since_ms :: nat

datatype ReplayOwnerState =
  Replay_Live | Replay_Fenced | Replay_Starting | Replay_Handoff | Replay_Stopping

record RuntimeOwnerReplayRecord =
  rr_provider :: string
  rr_session_id :: string
  rr_epoch :: u64
  rr_generation :: nat
  rr_owner_kind :: string
  rr_terminal_id :: "string option"
  rr_state :: ReplayOwnerState
  rr_reason :: "string option"
  rr_alias_of :: "string option"

section \<open>Helpers of the operations\<close>

text \<open>The record of a key, and the registry with a key's record written.\<close>

definition get_record :: "RuntimeOwnershipRegistry \<Rightarrow> SessionKey \<Rightarrow> SessionRecord option" where
  "get_record reg key = fmlookup (reg_inner reg) key"

definition put_record :: "SessionKey \<Rightarrow> SessionRecord \<Rightarrow> RuntimeOwnershipRegistry \<Rightarrow> RuntimeOwnershipRegistry" where
  "put_record key r reg = reg\<lparr>reg_inner := fmupd key r (reg_inner reg)\<rparr>"

definition runtime_matches :: "OwnerIdentity \<Rightarrow> ReleaseClaim \<Rightarrow> bool" where
  "runtime_matches owner claim =
     (case rc_runtime claim of
        None \<Rightarrow> False
      | Some runtime \<Rightarrow>
          ow_kind owner = ow_kind runtime
          \<and> ow_terminal_id owner = ow_terminal_id runtime
          \<and> ow_live_session_key owner = ow_live_session_key runtime
          \<and> ow_pid owner = ow_pid runtime
          \<and> ow_ownership_id owner = Some (rc_operation_id claim))"

definition snapshot_generation :: "SessionRecord \<Rightarrow> nat" where
  "snapshot_generation r =
     (case rec_state r of
        Live owner generation since \<Rightarrow> generation
      | _ \<Rightarrow> rec_generation r)"

lemma get_put_record [simp]:
  "get_record (put_record k r reg) k' = (if k' = k then Some r else get_record reg k')"
  by (simp add: get_record_def put_record_def)

lemma put_record_epoch [simp]: "reg_epoch (put_record k r reg) = reg_epoch reg"
  by (simp add: put_record_def)

lemma get_record_with_epoch [simp]: "get_record (with_epoch e) k = None"
  by (simp add: get_record_def with_epoch_def)

lemma with_epoch_epoch [simp]: "reg_epoch (with_epoch e) = e"
  by (simp add: with_epoch_def)

lemma registry_eqI:
  assumes "reg_epoch a = reg_epoch b" and "\<And>k. get_record a k = get_record b k"
  shows "a = (b :: RuntimeOwnershipRegistry)"
  using assms by (cases a, cases b) (auto simp: get_record_def intro: fmap_ext)

lemma SessionKey_new_eq [simp]:
  "(SessionKey_new p s = SessionKey_new p' s') = (p = p' \<and> s = s')"
  by (simp add: SessionKey_new_def)

lemma SessionKey_new_sel [simp]:
  "sk_provider (SessionKey_new p s) = p" "sk_session_id (SessionKey_new p s) = s"
  by (simp_all add: SessionKey_new_def)

lemma SessionRecord_default_sel [simp]:
  "rec_generation SessionRecord_default = 0"
  "rec_state SessionRecord_default = Vacant"
  "rec_cancellation SessionRecord_default = None"
  "rec_settle SessionRecord_default = None"
  "rec_settle_fired SessionRecord_default = None"
  "rec_stop_settled SessionRecord_default = None"
  "rec_partial_runtime SessionRecord_default = None"
  "rec_in_flight_attaches SessionRecord_default = 0"
  "rec_armed_attach_ops SessionRecord_default = []"
  by (simp_all add: SessionRecord_default_def)

section \<open>The boot epoch\<close>

text \<open>
  \<open>boot_process\<close> holds the two process-wide statics: the once-initialised seed and the
  mint counter. The wall clock is an argument: \<open>None\<close> when the clock stands before the
  Unix epoch (\<open>duration_since\<close> fails), else the nanoseconds since it, cut to 64 bits.
\<close>

record boot_process =
  BOOT_SEED_NS :: "u64 option"
  NEXT_MINT :: u64

definition boot_process_start :: boot_process where
  "boot_process_start = \<lparr>BOOT_SEED_NS = None, NEXT_MINT = 1\<rparr>"

definition EPOCH_JSON_SAFE_MASK :: u64 where
  "EPOCH_JSON_SAFE_MASK = push_bit 53 1 - 1"

definition now_epoch_ns :: "nat option \<Rightarrow> u64" where
  "now_epoch_ns system_now = (case system_now of None \<Rightarrow> 0 | Some ns \<Rightarrow> word_of_nat ns)"

definition now_epoch_ms :: "nat option \<Rightarrow> u64" where
  "now_epoch_ms system_now = now_epoch_ns system_now div 1000000"

definition mix_boot_epoch :: "u64 \<Rightarrow> u64 \<Rightarrow> u64" where
  "mix_boot_epoch seed mint =
     (let z = word_rotl 32 seed XOR mint;
          z = z + 0x9E3779B97F4A7C15;
          z = (z XOR drop_bit 30 z) * 0xBF58476D1CE4E5B9;
          z = (z XOR drop_bit 27 z) * 0x94D049BB133111EB
      in z XOR drop_bit 31 z)"

definition default_boot_epoch :: "nat option \<Rightarrow> boot_process \<Rightarrow> u64 \<times> boot_process" where
  "default_boot_epoch system_now p =
     (let seed = (case BOOT_SEED_NS p of None \<Rightarrow> now_epoch_ns system_now | Some s \<Rightarrow> s);
          mint = NEXT_MINT p
      in (mix_boot_epoch seed mint AND EPOCH_JSON_SAFE_MASK,
          p\<lparr>BOOT_SEED_NS := Some seed, NEXT_MINT := mint + 1\<rparr>))"

definition registry_new :: "nat option \<Rightarrow> boot_process \<Rightarrow> RuntimeOwnershipRegistry \<times> boot_process" where
  "registry_new system_now p =
     (let (epoch, p') = default_boot_epoch system_now p in (with_epoch epoch, p'))"

text \<open>The splitmix64 finalizer is injective in the mint counter for a fixed seed, so two
  registries minted in one process get distinct epochs before the JSON-safety mask.\<close>

theorem mix_boot_epoch_inj_mint:
  "(mix_boot_epoch seed m = mix_boot_epoch seed m') = (m = m')"
proof
  assume eq: "mix_boot_epoch seed m = mix_boot_epoch seed m'"
  have u1: "(0xBF58476D1CE4E5B9 :: u64) * 0x96DE1B173F119089 = 1" by simp
  have u2: "(0x94D049BB133111EB :: u64) * 0x319642B2D24D8EC3 = 1" by simp
  from eq have "word_rotl 32 seed XOR m = word_rotl 32 seed XOR m'"
    unfolding mix_boot_epoch_def Let_def
    by (auto dest!: xorshift_inj [rotated] mult_unit_inj [OF u1] mult_unit_inj [OF u2])
  then show "m = m'" by (auto simp: bit_eq_iff bit_xor_iff)
qed simp

lemma epoch_mask_bound: "unat (w AND EPOCH_JSON_SAFE_MASK) < 2 ^ 53"
proof -
  have "EPOCH_JSON_SAFE_MASK = mask 53"
    by (simp add: EPOCH_JSON_SAFE_MASK_def mask_eq_exp_minus_1)
  moreover have "unat (w AND mask 53) < 2 ^ 53"
    by (simp only: take_bit_eq_mask [symmetric] unsigned_take_bit_eq take_bit_nat_less_exp)
  ultimately show ?thesis by metis
qed

lemma masked_epochs_collide:
  "\<exists>m m'. m \<noteq> m' \<and> mix_boot_epoch seed m AND EPOCH_JSON_SAFE_MASK = mix_boot_epoch seed m' AND EPOCH_JSON_SAFE_MASK"
proof (rule ccontr)
  let ?f = "\<lambda>m. unat (mix_boot_epoch seed m AND EPOCH_JSON_SAFE_MASK)"
  assume "\<not> ?thesis"
  then have "inj ?f" by (auto simp: inj_def word_unat_eq_iff [symmetric])
  moreover have "range ?f \<subseteq> {..< 2 ^ 53}" using epoch_mask_bound by auto
  ultimately have "card (UNIV :: u64 set) \<le> 2 ^ 53"
    using card_image [of ?f UNIV] card_mono [of "{..< 2 ^ 53 :: nat}" "range ?f"] by simp
  then show False by (simp add: card_word)
qed

text \<open>Every default epoch lies in the range of integers that an IEEE double, and so every
  browser client, represents exactly; the mask that ensures it costs the uniqueness of the mix, so
  for every seed two mints of one process share their epoch.\<close>

theorem default_boot_epoch_json_safe:
  "unat (fst (default_boot_epoch system_now p)) < 2 ^ 53
   \<and> (\<exists>m m'. m \<noteq> m' \<and>
        fst (default_boot_epoch system_now (p\<lparr>NEXT_MINT := m\<rparr>))
        = fst (default_boot_epoch system_now (p\<lparr>NEXT_MINT := m'\<rparr>)))"
  using epoch_mask_bound masked_epochs_collide by (simp add: default_boot_epoch_def Let_def)

end
