(* ===== verification/Own_Begin.thy ===== *)
theory Own_Begin
  imports Own_Types
begin

text \<open>
  The operations that open a lifecycle transition or an attach window on a key: the start and
  handoff claims, the acknowledged start over a cleared-unverified fence, and the attach and
  adopt guards with their release (crates/freshell-ownership/src/lib.rs). Every operation runs
  under the registry's mutex, so each is one atomic function of the registry; it returns its
  typed outcome and the registry after it. Log events are not modelled.
\<close>

section \<open>Shared pieces\<close>

text \<open>The fence baseline of a key: what a snapshot of the key reports, 0 without a record.\<close>

definition current_generation :: "RuntimeOwnershipRegistry \<Rightarrow> SessionKey \<Rightarrow> nat" where
  "current_generation reg key =
     (case get_record reg key of None \<Rightarrow> 0 | Some r \<Rightarrow> snapshot_generation r)"

definition fence_is_stale :: "RuntimeOwnershipRegistry \<Rightarrow> SessionKey \<Rightarrow> ObservedFence option \<Rightarrow> bool" where
  "fence_is_stale reg key observed =
     (case observed of
        None \<Rightarrow> False
      | Some fence \<Rightarrow> of_epoch fence \<noteq> reg_epoch reg \<or> of_generation fence < current_generation reg key)"

definition entry_or_default :: "RuntimeOwnershipRegistry \<Rightarrow> SessionKey \<Rightarrow> SessionRecord" where
  "entry_or_default reg key =
     (case get_record reg key of None \<Rightarrow> SessionRecord_default | Some r \<Rightarrow> r)"

section \<open>Starting a runtime\<close>

definition begin_start_inner ::
  "RuntimeOwnershipRegistry \<Rightarrow> string \<Rightarrow> string \<Rightarrow> RuntimeOwnerKind \<Rightarrow> string \<Rightarrow> ObservedFence option
   \<Rightarrow> string \<Rightarrow> nat \<Rightarrow> string option \<Rightarrow> BeginOutcome \<times> RuntimeOwnershipRegistry" where
  "begin_start_inner reg provider session_id kind op observed initiator now_ms attach_window_op =
     (let key = SessionKey_new provider session_id in
      if fence_is_stale reg key observed
      then (Begin_StaleGeneration (reg_epoch reg) (current_generation reg key), reg)
      else
        (let r = entry_or_default reg key;
             reg = put_record key r reg in
         case rec_state r of
           Aliased to_id generation \<Rightarrow>
             (Blocked (Aliased to_id generation) OWNERSHIP_RETRY_AFTER_MS, reg)
         | Vacant \<Rightarrow>
             if 0 < rec_in_flight_attaches r
                \<and> \<not> (case attach_window_op of
                      None \<Rightarrow> False
                    | Some window_op \<Rightarrow> window_op \<in> set (rec_armed_attach_ops r))
             then (Blocked (rec_state r) OWNERSHIP_RETRY_AFTER_MS, reg)
             else
               (let generation = rec_generation r + 1 in
                (Granted generation,
                 put_record key
                   (r\<lparr>rec_cancellation := None, rec_settle := None, rec_settle_fired := None,
                      rec_partial_runtime := None, rec_generation := generation,
                      rec_state := Starting kind op generation initiator now_ms\<rparr>) reg))
         | Starting held_kind held_op generation _ _ \<Rightarrow>
             if held_kind = kind \<and> held_op = op then (Granted generation, reg)
             else (Blocked (rec_state r) OWNERSHIP_RETRY_AFTER_MS, reg)
         | Handoff _ to_kind ho_op generation _ _ \<Rightarrow>
             if to_kind = kind \<and> ho_op = op then (Granted generation, reg)
             else (Blocked (rec_state r) OWNERSHIP_RETRY_AFTER_MS, reg)
         | Live owner generation _ \<Rightarrow>
             if ow_kind owner = kind then (AdoptLive owner generation, reg)
             else (OwnedByOtherKind owner generation, reg)
         | state \<Rightarrow> (Blocked state OWNERSHIP_RETRY_AFTER_MS, reg)))"

definition begin_start ::
  "RuntimeOwnershipRegistry \<Rightarrow> string \<Rightarrow> string \<Rightarrow> RuntimeOwnerKind \<Rightarrow> string \<Rightarrow> ObservedFence option
   \<Rightarrow> string \<Rightarrow> nat \<Rightarrow> BeginOutcome \<times> RuntimeOwnershipRegistry" where
  "begin_start reg provider session_id kind op observed initiator now_ms =
     begin_start_inner reg provider session_id kind op observed initiator now_ms None"

definition begin_start_under_attach_window ::
  "RuntimeOwnershipRegistry \<Rightarrow> string \<Rightarrow> string \<Rightarrow> RuntimeOwnerKind \<Rightarrow> string \<Rightarrow> ObservedFence option
   \<Rightarrow> string \<Rightarrow> nat \<Rightarrow> string \<Rightarrow> BeginOutcome \<times> RuntimeOwnershipRegistry" where
  "begin_start_under_attach_window reg provider session_id kind op observed initiator now_ms window_op =
     begin_start_inner reg provider session_id kind op observed initiator now_ms (Some window_op)"

section \<open>Beginning a handoff\<close>

definition begin_handoff ::
  "RuntimeOwnershipRegistry \<Rightarrow> string \<Rightarrow> string \<Rightarrow> RuntimeOwnerKind \<Rightarrow> string \<Rightarrow> ObservedFence option
   \<Rightarrow> string \<Rightarrow> nat \<Rightarrow> BeginOutcome \<times> RuntimeOwnershipRegistry" where
  "begin_handoff reg provider session_id to_kind op observed initiator now_ms =
     (let key = SessionKey_new provider session_id in
      if fence_is_stale reg key observed
      then (Begin_StaleGeneration (reg_epoch reg) (current_generation reg key), reg)
      else
        (let r = entry_or_default reg key;
             reg = put_record key r reg in
         case rec_state r of
           Aliased to_id generation \<Rightarrow>
             (Blocked (Aliased to_id generation) OWNERSHIP_RETRY_AFTER_MS, reg)
         | Vacant \<Rightarrow>
             if 0 < rec_in_flight_attaches r
             then (Blocked (rec_state r) OWNERSHIP_RETRY_AFTER_MS, reg)
             else
               (let generation = rec_generation r + 1 in
                (Granted generation,
                 put_record key
                   (r\<lparr>rec_generation := generation,
                      rec_state := Handoff None to_kind op generation initiator now_ms\<rparr>) reg))
         | Live owner live_generation _ \<Rightarrow>
             if 0 < rec_in_flight_attaches r
             then (Blocked (rec_state r) OWNERSHIP_RETRY_AFTER_MS, reg)
             else
               (let generation = rec_generation r + 1 in
                (Granted generation,
                 put_record key
                   (r\<lparr>rec_generation := generation,
                      rec_state := Handoff (Some (owner, live_generation)) to_kind op generation
                                     initiator now_ms\<rparr>) reg))
         | state \<Rightarrow> (Blocked state OWNERSHIP_RETRY_AFTER_MS, reg)))"

definition begin_handoff_acknowledged_cleared_unverified ::
  "RuntimeOwnershipRegistry \<Rightarrow> string \<Rightarrow> string \<Rightarrow> RuntimeOwnerKind \<Rightarrow> string \<Rightarrow> ObservedFence
   \<Rightarrow> string \<Rightarrow> nat \<Rightarrow> AcknowledgedStartOutcome \<times> RuntimeOwnershipRegistry" where
  "begin_handoff_acknowledged_cleared_unverified reg provider session_id to_kind op observed initiator now_ms =
     (let key = SessionKey_new provider session_id in
      case get_record reg key of
        None \<Rightarrow> (LostRace Vacant, reg)
      | Some r \<Rightarrow>
          if of_epoch observed \<noteq> reg_epoch reg \<or> of_generation observed \<noteq> snapshot_generation r
          then (Ack_StaleObservation (reg_epoch reg) (snapshot_generation r), reg)
          else
            (case rec_state r of
               Fenced prior ClearedUnverified _ _ _ _ \<Rightarrow>
                 (let generation = rec_generation r + 1 in
                  (Ack_Granted generation,
                   put_record key
                     (r\<lparr>rec_generation := generation,
                        rec_state := Handoff prior to_kind op generation initiator now_ms\<rparr>) reg))
             | state \<Rightarrow> (LostRace state, reg)))"

section \<open>Attach and adopt guards\<close>

record AttachGuard =
  ag_provider :: string
  ag_session_id :: string
  ag_operation_id :: string
  ag_generation :: nat
  ag_disarmed :: bool
  ag_armed_at_ms :: nat
  ag_initiator :: string

datatype AttachGuardOutcome =
    Armed AttachGuard
  | Guard_Refused OwnershipState nat
  | Guard_StaleGeneration u64 nat

definition new_guard :: "string \<Rightarrow> string \<Rightarrow> string \<Rightarrow> nat \<Rightarrow> nat \<Rightarrow> string \<Rightarrow> AttachGuard" where
  "new_guard provider session_id op generation clock_ms initiator =
     \<lparr>ag_provider = provider, ag_session_id = session_id, ag_operation_id = op,
      ag_generation = generation, ag_disarmed = False, ag_armed_at_ms = clock_ms,
      ag_initiator = initiator\<rparr>"

text \<open>Arming counts the window and records whose it is.\<close>

definition arm_window :: "string \<Rightarrow> SessionRecord \<Rightarrow> SessionRecord" where
  "arm_window op r =
     r\<lparr>rec_in_flight_attaches := saturating_add_u32 (rec_in_flight_attaches r) 1,
       rec_armed_attach_ops := rec_armed_attach_ops r @ [op]\<rparr>"

definition begin_attach_guard ::
  "RuntimeOwnershipRegistry \<Rightarrow> string \<Rightarrow> string \<Rightarrow> string \<Rightarrow> nat option \<Rightarrow> string \<Rightarrow> nat
   \<Rightarrow> AttachGuardOutcome \<times> RuntimeOwnershipRegistry" where
  "begin_attach_guard reg provider session_id op observed_generation initiator clock_ms =
     (let key = SessionKey_new provider session_id in
      case get_record reg key of
        None \<Rightarrow> (Guard_Refused Vacant 0, reg)
      | Some r \<Rightarrow>
          (case rec_state r of
             Live _ _ _ \<Rightarrow>
               (let generation = snapshot_generation r in
                if (case observed_generation of None \<Rightarrow> False | Some observed \<Rightarrow> observed < generation)
                then (Guard_StaleGeneration (reg_epoch reg) generation, reg)
                else
                  (Armed (new_guard provider session_id op generation clock_ms initiator),
                   put_record key (arm_window op r) reg))
           | state \<Rightarrow> (Guard_Refused state (snapshot_generation r), reg)))"

definition identity_mismatch :: "OwnerIdentity \<Rightarrow> OwnerIdentity \<Rightarrow> bool" where
  "identity_mismatch expected current =
     ((case ow_terminal_id expected of None \<Rightarrow> False | Some tid \<Rightarrow> ow_terminal_id current \<noteq> Some tid)
      \<or> (case ow_live_session_key expected of None \<Rightarrow> False | Some k \<Rightarrow> ow_live_session_key current \<noteq> Some k)
      \<or> (case ow_pid expected of None \<Rightarrow> False | Some pid \<Rightarrow> ow_pid current \<noteq> Some pid))"

definition begin_adopt_guard ::
  "RuntimeOwnershipRegistry \<Rightarrow> string \<Rightarrow> string \<Rightarrow> string \<Rightarrow> OwnerIdentity \<Rightarrow> ObservedFence \<Rightarrow> string
   \<Rightarrow> nat \<Rightarrow> AttachGuardOutcome \<times> RuntimeOwnershipRegistry" where
  "begin_adopt_guard reg provider session_id op expected observed initiator clock_ms =
     (let key = SessionKey_new provider session_id in
      if of_epoch observed \<noteq> reg_epoch reg
      then (Guard_StaleGeneration (reg_epoch reg) 0, reg)
      else
        (case get_record reg key of
           None \<Rightarrow> (Guard_Refused Vacant 0, reg)
         | Some r \<Rightarrow>
             (case rec_state r of
                Live current_owner generation _ \<Rightarrow>
                  if of_generation observed \<noteq> generation
                  then (Guard_StaleGeneration (reg_epoch reg) generation, reg)
                  else if ow_kind current_owner \<noteq> ow_kind expected
                          \<or> identity_mismatch expected current_owner
                  then (Guard_Refused (rec_state r) generation, reg)
                  else
                    (Armed (new_guard provider session_id op generation clock_ms initiator),
                     put_record key (arm_window op r) reg)
              | state \<Rightarrow> (Guard_Refused state (snapshot_generation r), reg))))"

text \<open>
  Closing a window: the count goes down (saturating) and the first entry with the guard's
  operation id leaves the list. The guard's flag makes disarm and drop close it once.
\<close>

definition close_window :: "string \<Rightarrow> SessionRecord \<Rightarrow> SessionRecord" where
  "close_window op r =
     r\<lparr>rec_in_flight_attaches := rec_in_flight_attaches r - 1,
       rec_armed_attach_ops := remove1 op (rec_armed_attach_ops r)\<rparr>"

definition release_window :: "AttachGuard \<Rightarrow> RuntimeOwnershipRegistry \<Rightarrow> RuntimeOwnershipRegistry" where
  "release_window g reg =
     (let key = SessionKey_new (ag_provider g) (ag_session_id g) in
      case get_record reg key of
        None \<Rightarrow> reg
      | Some r \<Rightarrow> put_record key (close_window (ag_operation_id g) r) reg)"

definition guard_disarm :: "AttachGuard \<Rightarrow> RuntimeOwnershipRegistry \<Rightarrow> AttachGuard \<times> RuntimeOwnershipRegistry" where
  "guard_disarm g reg =
     (g\<lparr>ag_disarmed := True\<rparr>, if ag_disarmed g then reg else release_window g reg)"

definition guard_drop :: "AttachGuard \<Rightarrow> RuntimeOwnershipRegistry \<Rightarrow> RuntimeOwnershipRegistry" where
  "guard_drop g reg = (if ag_disarmed g then reg else release_window g reg)"

lemmas begin_ops [own_ops] =
  begin_start_inner_def begin_start_def begin_start_under_attach_window_def begin_handoff_def
  begin_handoff_acknowledged_cleared_unverified_def begin_attach_guard_def begin_adopt_guard_def
  release_window_def guard_disarm_def guard_drop_def

lemma arm_window_sel [simp]:
  "rec_state (arm_window op r) = rec_state r"
  "rec_generation (arm_window op r) = rec_generation r"
  "rec_in_flight_attaches (arm_window op r) = saturating_add_u32 (rec_in_flight_attaches r) 1"
  "rec_armed_attach_ops (arm_window op r) = rec_armed_attach_ops r @ [op]"
  by (simp_all add: arm_window_def)

lemma close_window_sel [simp]:
  "rec_state (close_window op r) = rec_state r"
  "rec_generation (close_window op r) = rec_generation r"
  "rec_in_flight_attaches (close_window op r) = rec_in_flight_attaches r - 1"
  "rec_armed_attach_ops (close_window op r) = remove1 op (rec_armed_attach_ops r)"
  by (simp_all add: close_window_def)

lemma put_record_same: "get_record reg k = Some r \<Longrightarrow> put_record k r reg = reg"
  by (rule registry_eqI) auto

lemma put_record_twice [simp]: "put_record k r (put_record k r' reg) = put_record k r reg"
  by (rule registry_eqI) auto

end
