(* ===== verification/Own_Commit.thy ===== *)
theory Own_Commit
  imports Own_Begin
begin

text \<open>
  Committing a claim, the four re-keying moves, and alias resolution
  (crates/freshell-ownership/src/lib.rs). Where an operation stamps the commit time it reads the
  wall clock: that reading is the argument \<open>clock_ms\<close>.
\<close>

section \<open>Committing\<close>

definition stamp_ownership :: "string \<Rightarrow> OwnerIdentity \<Rightarrow> OwnerIdentity" where
  "stamp_ownership op owner =
     (if ow_ownership_id owner = None then owner\<lparr>ow_ownership_id := Some op\<rparr> else owner)"

definition commit_live ::
  "RuntimeOwnershipRegistry \<Rightarrow> string \<Rightarrow> string \<Rightarrow> string \<Rightarrow> nat \<Rightarrow> OwnerIdentity \<Rightarrow> nat
   \<Rightarrow> CommitOutcome \<times> RuntimeOwnershipRegistry" where
  "commit_live reg provider session_id op generation owner clock_ms =
     (let key = SessionKey_new provider session_id in
      case get_record reg key of
        None \<Rightarrow> (Commit_ForeignOperation, reg)
      | Some r \<Rightarrow>
          if generation \<noteq> rec_generation r
          then (Commit_StaleGeneration (rec_generation r), reg)
          else if (case rec_state r of
                     Starting _ held_op _ _ _ \<Rightarrow> held_op = op
                   | Handoff _ to_kind held_op _ _ _ \<Rightarrow> held_op = op \<and> to_kind = ow_kind owner
                   | _ \<Rightarrow> False)
          then (Committed,
                put_record key
                  (r\<lparr>rec_state := Live (stamp_ownership op owner) generation clock_ms\<rparr>) reg)
          else (Commit_ForeignOperation, reg))"

text \<open>A record that holds a live owner and nothing else.\<close>

definition live_record :: "nat \<Rightarrow> OwnerIdentity \<Rightarrow> nat \<Rightarrow> SessionRecord" where
  "live_record generation owner clock_ms =
     SessionRecord_default\<lparr>rec_generation := generation, rec_state := Live owner generation clock_ms\<rparr>"

definition commit_live_rekey ::
  "RuntimeOwnershipRegistry \<Rightarrow> string \<Rightarrow> string \<Rightarrow> string \<Rightarrow> string \<Rightarrow> nat \<Rightarrow> OwnerIdentity \<Rightarrow> nat
   \<Rightarrow> CommitOutcome \<times> RuntimeOwnershipRegistry" where
  "commit_live_rekey reg provider old_session_id new_session_id op generation owner clock_ms =
     (let old_key = SessionKey_new provider old_session_id;
          new_key = SessionKey_new provider new_session_id in
      case get_record reg old_key of
        None \<Rightarrow> (Commit_ForeignOperation, reg)
      | Some r \<Rightarrow>
          if generation \<noteq> rec_generation r
          then (Commit_StaleGeneration (rec_generation r), reg)
          else if \<not> (case rec_state r of Starting _ held_op _ _ _ \<Rightarrow> held_op = op | _ \<Rightarrow> False)
          then (Commit_ForeignOperation, reg)
          else if get_record reg new_key \<noteq> None
          then (Commit_ForeignOperation, reg)
          else
            (Committed,
             put_record new_key (live_record generation (stamp_ownership op owner) clock_ms)
               (put_record old_key (r\<lparr>rec_state := Aliased new_session_id generation\<rparr>) reg)))"

definition rekey_starting ::
  "RuntimeOwnershipRegistry \<Rightarrow> string \<Rightarrow> string \<Rightarrow> string \<Rightarrow> string \<Rightarrow> nat
   \<Rightarrow> CommitOutcome \<times> RuntimeOwnershipRegistry" where
  "rekey_starting reg provider old_session_id new_session_id op generation =
     (let old_key = SessionKey_new provider old_session_id;
          new_key = SessionKey_new provider new_session_id in
      case get_record reg old_key of
        None \<Rightarrow> (Commit_ForeignOperation, reg)
      | Some r \<Rightarrow>
          if generation \<noteq> rec_generation r
          then (Commit_StaleGeneration (rec_generation r), reg)
          else if \<not> (case rec_state r of Starting _ held_op _ _ _ \<Rightarrow> held_op = op | _ \<Rightarrow> False)
          then (Commit_ForeignOperation, reg)
          else if get_record reg new_key \<noteq> None
          then (Commit_ForeignOperation, reg)
          else
            (Committed,
             put_record new_key r
               (put_record old_key
                  (SessionRecord_default\<lparr>rec_generation := rec_generation r,
                     rec_state := Aliased new_session_id generation\<rparr>) reg)))"

definition rekey_live ::
  "RuntimeOwnershipRegistry \<Rightarrow> string \<Rightarrow> string \<Rightarrow> string \<Rightarrow> string \<Rightarrow> OwnerIdentity \<Rightarrow> nat
   \<Rightarrow> CommitOutcome \<times> RuntimeOwnershipRegistry" where
  "rekey_live reg provider old_session_id new_session_id expected_live_session_key new_owner clock_ms =
     (let old_key = SessionKey_new provider old_session_id;
          new_key = SessionKey_new provider new_session_id in
      case get_record reg old_key of
        None \<Rightarrow> (Commit_ForeignOperation, reg)
      | Some r \<Rightarrow>
          (case rec_state r of
             Live owner _ _ \<Rightarrow>
               if ow_kind owner \<noteq> ow_kind new_owner
                  \<or> ow_live_session_key owner \<noteq> Some expected_live_session_key
               then (Commit_ForeignOperation, reg)
               else if get_record reg new_key \<noteq> None
               then (Commit_ForeignOperation, reg)
               else
                 (let generation = rec_generation r + 1 in
                  (Committed,
                   put_record new_key (live_record generation new_owner clock_ms)
                     (put_record old_key
                        (r\<lparr>rec_generation := generation,
                           rec_state := Aliased new_session_id generation\<rparr>) reg)))
           | _ \<Rightarrow> (Commit_ForeignOperation, reg)))"

definition commit_live_rekey_from_terminal ::
  "RuntimeOwnershipRegistry \<Rightarrow> string \<Rightarrow> string \<Rightarrow> string \<Rightarrow> nat \<Rightarrow> string \<Rightarrow> string \<Rightarrow> OwnerIdentity
   \<Rightarrow> nat \<Rightarrow> CommitOutcome \<times> RuntimeOwnershipRegistry" where
  "commit_live_rekey_from_terminal reg provider new_session_id op generation old_session_id
     expected_terminal_id owner clock_ms =
     (let new_key = SessionKey_new provider new_session_id;
          old_key = SessionKey_new provider old_session_id in
      case get_record reg new_key of
        None \<Rightarrow> (Commit_ForeignOperation, reg)
      | Some r \<Rightarrow>
          if \<not> (case rec_state r of
                   Starting _ starting_op starting_gen _ _ \<Rightarrow> starting_op = op \<and> starting_gen = generation
                 | _ \<Rightarrow> False)
          then (Commit_ForeignOperation, reg)
          else
            (case get_record reg old_key of
               None \<Rightarrow> (Commit_ForeignOperation, reg)
             | Some old \<Rightarrow>
                 (case rec_state old of
                    Live old_owner old_generation _ \<Rightarrow>
                      if ow_kind old_owner = Terminal
                         \<and> ow_terminal_id old_owner = Some expected_terminal_id
                      then
                        (let aliased_generation = old_generation + 1 in
                         (Committed,
                          put_record old_key
                            (old\<lparr>rec_generation := aliased_generation,
                                 rec_state := Aliased new_session_id aliased_generation\<rparr>)
                            (put_record new_key
                               (r\<lparr>rec_state := Live owner generation clock_ms\<rparr>) reg)))
                      else (Commit_ForeignOperation, reg)
                  | _ \<Rightarrow> (Commit_ForeignOperation, reg))))"

definition alias_vacant_key ::
  "RuntimeOwnershipRegistry \<Rightarrow> string \<Rightarrow> string \<Rightarrow> string \<Rightarrow> CommitOutcome \<times> RuntimeOwnershipRegistry" where
  "alias_vacant_key reg provider from_session_id to_session_id =
     (let from_key = SessionKey_new provider from_session_id;
          to_key = SessionKey_new provider to_session_id in
      if get_record reg from_key \<noteq> None then (Commit_ForeignOperation, reg)
      else
        (case get_record reg to_key of
           None \<Rightarrow> (Commit_ForeignOperation, reg)
         | Some to_record \<Rightarrow>
             (Committed,
              put_record from_key
                (SessionRecord_default\<lparr>rec_generation := rec_generation to_record,
                   rec_state := Aliased to_session_id (rec_generation to_record)\<rparr>) reg)))"

section \<open>Alias resolution\<close>

text \<open>The next hop of the walk: where a key's record is an alias, the id it names.\<close>

definition aliased_to :: "RuntimeOwnershipRegistry \<Rightarrow> string \<Rightarrow> string \<Rightarrow> string option" where
  "aliased_to reg provider session_id =
     (case get_record reg (SessionKey_new provider session_id) of
        None \<Rightarrow> None
      | Some r \<Rightarrow> (case rec_state r of Aliased to_id _ \<Rightarrow> Some to_id | _ \<Rightarrow> None))"

text \<open>The session ids of a provider that hold a record: what bounds the walk.\<close>

definition recorded_ids :: "RuntimeOwnershipRegistry \<Rightarrow> string \<Rightarrow> string set" where
  "recorded_ids reg provider = {s. SessionKey_new provider s \<in> fset (fmdom (reg_inner reg))}"

lemma finite_recorded_ids: "finite (recorded_ids reg provider)"
proof -
  have "recorded_ids reg provider \<subseteq> sk_session_id ` fset (fmdom (reg_inner reg))"
    by (force simp: recorded_ids_def)
  then show ?thesis by (rule finite_subset) simp
qed

lemma aliased_to_recorded: "aliased_to reg provider s = Some t \<Longrightarrow> s \<in> recorded_ids reg provider"
  by (auto simp: aliased_to_def recorded_ids_def get_record_def fmlookup_dom_iff split: option.splits)

function resolve_walk :: "RuntimeOwnershipRegistry \<Rightarrow> string \<Rightarrow> string list \<Rightarrow> string \<Rightarrow> string" where
  "resolve_walk reg provider visited current =
     (if current \<in> set visited then current
      else case aliased_to reg provider current of
             None \<Rightarrow> current
           | Some next \<Rightarrow> resolve_walk reg provider (current # visited) next)"
  by pat_completeness auto
termination
proof (relation "measure (\<lambda>(reg, provider, visited, current).
         card (recorded_ids reg provider - set visited))")
  fix reg provider visited current "next"
  assume "current \<notin> set visited" and "aliased_to reg provider current = Some next"
  then have "card (recorded_ids reg provider - insert current (set visited))
             < card (recorded_ids reg provider - set visited)"
    using fmdom_insert_card [OF aliased_to_recorded finite_recorded_ids] by blast
  then show "((reg, provider, current # visited, next), (reg, provider, visited, current))
        \<in> measure (\<lambda>(reg, provider, visited, current).
             card (recorded_ids reg provider - set visited))"
    by simp
qed simp

declare resolve_walk.simps [simp del]

definition resolve_canonical :: "RuntimeOwnershipRegistry \<Rightarrow> string \<Rightarrow> string \<Rightarrow> string" where
  "resolve_canonical reg provider session_id = resolve_walk reg provider [] session_id"

lemmas commit_ops [own_ops] =
  commit_live_def commit_live_rekey_def rekey_starting_def rekey_live_def
  commit_live_rekey_from_terminal_def alias_vacant_key_def

lemma live_record_sel [simp]:
  "rec_state (live_record g owner c) = Live owner g c"
  "rec_generation (live_record g owner c) = g"
  "rec_in_flight_attaches (live_record g owner c) = 0"
  "rec_armed_attach_ops (live_record g owner c) = []"
  by (simp_all add: live_record_def)

lemma stamp_ownership_sel [simp]:
  "ow_kind (stamp_ownership op owner) = ow_kind owner"
  "ow_terminal_id (stamp_ownership op owner) = ow_terminal_id owner"
  "ow_live_session_key (stamp_ownership op owner) = ow_live_session_key owner"
  "ow_pid (stamp_ownership op owner) = ow_pid owner"
  by (simp_all add: stamp_ownership_def)

end
