(* ===== verification/Own_Stop.thy ===== *)
theory Own_Stop
  imports Own_Commit
begin

text \<open>
  The operations that end a claim or an owner: the typed failure of an in-flight operation, the
  fences over an unconfirmed death and their release, the stop protocol, and the exit watcher's
  and the lanes' fenced releases (crates/freshell-ownership/src/lib.rs).
\<close>

section \<open>Failing an operation\<close>

definition fail ::
  "RuntimeOwnershipRegistry \<Rightarrow> string \<Rightarrow> string \<Rightarrow> string \<Rightarrow> nat \<Rightarrow> bool \<Rightarrow> nat
   \<Rightarrow> FailOutcome \<times> RuntimeOwnershipRegistry" where
  "fail reg provider session_id op generation prior_confirmed_live clock_ms =
     (let key = SessionKey_new provider session_id in
      case get_record reg key of
        None \<Rightarrow> (Fail_ForeignOperation, reg)
      | Some r \<Rightarrow>
          if generation \<noteq> rec_generation r then (Fail_ForeignOperation, reg)
          else
            (case rec_state r of
               Starting _ held_op _ _ _ \<Rightarrow>
                 if held_op = op
                 then (Fail_Released, put_record key (r\<lparr>rec_state := Vacant\<rparr>) reg)
                 else (Fail_ForeignOperation, reg)
             | Handoff prior _ held_op _ _ _ \<Rightarrow>
                 if held_op = op then
                   (case prior of
                      Some (owner, _) \<Rightarrow>
                        if prior_confirmed_live
                        then (RestoredPriorOwner,
                              put_record key
                                (r\<lparr>rec_state := Live owner (rec_generation r) clock_ms\<rparr>) reg)
                        else (Fail_Vacant PriorNotLive, put_record key (r\<lparr>rec_state := Vacant\<rparr>) reg)
                    | None \<Rightarrow> (Fail_Vacant NoPrior, put_record key (r\<lparr>rec_state := Vacant\<rparr>) reg))
                 else (Fail_ForeignOperation, reg)
             | _ \<Rightarrow> (Fail_ForeignOperation, reg)))"

section \<open>Fences over an unconfirmed death\<close>

definition fence_unconfirmed_handoff_with_prior ::
  "RuntimeOwnershipRegistry \<Rightarrow> string \<Rightarrow> string \<Rightarrow> string \<Rightarrow> nat \<Rightarrow> FenceReason
   \<Rightarrow> (OwnerIdentity \<times> nat) option \<Rightarrow> nat \<Rightarrow> FenceOutcome \<times> RuntimeOwnershipRegistry" where
  "fence_unconfirmed_handoff_with_prior reg provider session_id op generation reason unconfirmed clock_ms =
     (let key = SessionKey_new provider session_id in
      case get_record reg key of
        None \<Rightarrow> (Fence_ForeignOperation, reg)
      | Some r \<Rightarrow>
          if generation \<noteq> rec_generation r then (Fence_ForeignOperation, reg)
          else
            (case rec_state r of
               Handoff prior _ held_op _ init _ \<Rightarrow>
                 if held_op = op
                 then (Fence_Fenced,
                       put_record key
                         (r\<lparr>rec_state := Fenced (case unconfirmed of None \<Rightarrow> prior | Some u \<Rightarrow> Some u)
                              reason held_op generation init clock_ms\<rparr>) reg)
                 else (Fence_ForeignOperation, reg)
             | _ \<Rightarrow> (Fence_ForeignOperation, reg)))"

definition fence_unconfirmed_handoff ::
  "RuntimeOwnershipRegistry \<Rightarrow> string \<Rightarrow> string \<Rightarrow> string \<Rightarrow> nat \<Rightarrow> FenceReason \<Rightarrow> nat
   \<Rightarrow> FenceOutcome \<times> RuntimeOwnershipRegistry" where
  "fence_unconfirmed_handoff reg provider session_id op generation reason clock_ms =
     fence_unconfirmed_handoff_with_prior reg provider session_id op generation reason None clock_ms"

definition fence_unconfirmed_stop ::
  "RuntimeOwnershipRegistry \<Rightarrow> string \<Rightarrow> string \<Rightarrow> string \<Rightarrow> nat \<Rightarrow> FenceReason \<Rightarrow> nat
   \<Rightarrow> FenceOutcome \<times> RuntimeOwnershipRegistry" where
  "fence_unconfirmed_stop reg provider session_id op generation reason clock_ms =
     (let key = SessionKey_new provider session_id in
      case get_record reg key of
        None \<Rightarrow> (Fence_ForeignOperation, reg)
      | Some r \<Rightarrow>
          if generation \<noteq> rec_generation r then (Fence_ForeignOperation, reg)
          else
            (case rec_state r of
               Stopping owner prior_generation held_op _ init _ \<Rightarrow>
                 if held_op = op
                 then (Fence_Fenced,
                       put_record key
                         (r\<lparr>rec_state :=
                              Fenced (map_option (\<lambda>o'. (o', case prior_generation of
                                                             None \<Rightarrow> generation - 1
                                                           | Some pg \<Rightarrow> pg)) owner)
                                reason held_op generation init clock_ms\<rparr>) reg)
                 else (Fence_ForeignOperation, reg)
             | _ \<Rightarrow> (Fence_ForeignOperation, reg)))"

definition fence_unconfirmed_live ::
  "RuntimeOwnershipRegistry \<Rightarrow> string \<Rightarrow> string \<Rightarrow> string \<Rightarrow> nat \<Rightarrow> OwnerIdentity \<Rightarrow> FenceReason \<Rightarrow> nat
   \<Rightarrow> FenceOutcome \<times> RuntimeOwnershipRegistry" where
  "fence_unconfirmed_live reg provider session_id op generation expected_runtime reason clock_ms =
     (let key = SessionKey_new provider session_id in
      case get_record reg key of
        None \<Rightarrow> (Fence_ForeignOperation, reg)
      | Some r \<Rightarrow>
          if generation \<noteq> rec_generation r then (Fence_ForeignOperation, reg)
          else
            (case rec_state r of
               Live owner live_generation _ \<Rightarrow>
                 if live_generation = generation
                    \<and> ow_kind owner = ow_kind expected_runtime
                    \<and> ow_terminal_id owner = ow_terminal_id expected_runtime
                    \<and> ow_live_session_key owner = ow_live_session_key expected_runtime
                    \<and> ow_pid owner = ow_pid expected_runtime
                    \<and> ow_ownership_id owner = Some op
                 then (Fence_Fenced,
                       put_record key
                         (r\<lparr>rec_state := Fenced (Some (owner, generation)) reason op generation
                              (case state_initiator (rec_state r) of None \<Rightarrow> [] | Some i \<Rightarrow> i)
                              clock_ms\<rparr>) reg)
                 else (Fence_ForeignOperation, reg)
             | _ \<Rightarrow> (Fence_ForeignOperation, reg)))"

definition release_fenced ::
  "RuntimeOwnershipRegistry \<Rightarrow> string \<Rightarrow> string \<Rightarrow> string \<Rightarrow> nat \<Rightarrow> CommitOutcome \<times> RuntimeOwnershipRegistry" where
  "release_fenced reg provider session_id op generation =
     (let key = SessionKey_new provider session_id in
      case get_record reg key of
        None \<Rightarrow> (Commit_ForeignOperation, reg)
      | Some r \<Rightarrow>
          if generation \<noteq> rec_generation r
          then (Commit_StaleGeneration (rec_generation r), reg)
          else
            (case rec_state r of
               Fenced _ _ held_op _ _ _ \<Rightarrow>
                 if held_op = op
                 then (Committed, put_record key (r\<lparr>rec_state := Vacant\<rparr>) reg)
                 else (Commit_ForeignOperation, reg)
             | _ \<Rightarrow> (Commit_ForeignOperation, reg)))"

definition force_release_platform_limited ::
  "RuntimeOwnershipRegistry \<Rightarrow> string \<Rightarrow> string \<Rightarrow> ObservedFence \<Rightarrow> string \<Rightarrow> nat
   \<Rightarrow> ForceReleaseOutcome \<times> RuntimeOwnershipRegistry" where
  "force_release_platform_limited reg provider session_id observed initiator clock_ms =
     (let key = SessionKey_new provider session_id in
      case get_record reg key of
        None \<Rightarrow> (NotPlatformLimited Vacant, reg)
      | Some r \<Rightarrow>
          if of_epoch observed \<noteq> reg_epoch reg \<or> of_generation observed \<noteq> snapshot_generation r
          then (Force_StaleObservation (reg_epoch reg) (snapshot_generation r), reg)
          else
            (case rec_state r of
               Fenced prior reason held_op _ _ _ \<Rightarrow>
                 if reason = PlatformLimited \<or> reason = StaleStart \<or> reason = StaleStop
                 then (Force_Released,
                       put_record key
                         (r\<lparr>rec_state := Fenced prior ClearedUnverified held_op (rec_generation r)
                              initiator clock_ms\<rparr>) reg)
                 else (NotPlatformLimited (rec_state r), reg)
             | state \<Rightarrow> (NotPlatformLimited state, reg)))"

section \<open>Stopping an owner\<close>

definition stop_identity_mismatch :: "StopClaim \<Rightarrow> OwnerIdentity \<Rightarrow> bool" where
  "stop_identity_mismatch claim owner =
     (sc_expected_kind claim \<noteq> ow_kind owner
      \<or> (case sc_expected_runtime claim of
           None \<Rightarrow> False
         | Some expected \<Rightarrow>
             ow_kind expected \<noteq> ow_kind owner
             \<or> ow_terminal_id expected \<noteq> ow_terminal_id owner
             \<or> ow_live_session_key expected \<noteq> ow_live_session_key owner
             \<or> ow_pid expected \<noteq> ow_pid owner))"

definition begin_stop ::
  "RuntimeOwnershipRegistry \<Rightarrow> string \<Rightarrow> string \<Rightarrow> string \<Rightarrow> StopClaim \<Rightarrow> string \<Rightarrow> nat
   \<Rightarrow> StopOutcome \<times> RuntimeOwnershipRegistry" where
  "begin_stop reg provider session_id op claim initiator now_ms =
     (let key = SessionKey_new provider session_id in
      case get_record reg key of
        None \<Rightarrow> (NotLive Vacant, reg)
      | Some r \<Rightarrow>
          (case rec_state r of
             Live owner generation _ \<Rightarrow>
               if 0 < rec_in_flight_attaches r
               then (BlockedHandoff (rec_state r) OWNERSHIP_RETRY_AFTER_MS, reg)
               else if of_epoch (sc_observed claim) \<noteq> reg_epoch reg
                       \<or> of_generation (sc_observed claim) \<noteq> generation
                       \<or> stop_identity_mismatch claim owner
               then (StaleClaim (reg_epoch reg) generation (rec_state r), reg)
               else
                 (let stop_generation = rec_generation r + 1 in
                  (Stop_Granted stop_generation,
                   put_record key
                     (r\<lparr>rec_generation := stop_generation,
                        rec_state := Stopping (Some owner) (Some generation) op stop_generation
                                       initiator now_ms\<rparr>) reg))
           | Handoff _ _ _ _ _ _ \<Rightarrow> (BlockedHandoff (rec_state r) OWNERSHIP_RETRY_AFTER_MS, reg)
           | state \<Rightarrow> (NotLive state, reg)))"

definition commit_stop ::
  "RuntimeOwnershipRegistry \<Rightarrow> string \<Rightarrow> string \<Rightarrow> string \<Rightarrow> nat \<Rightarrow> CommitOutcome \<times> RuntimeOwnershipRegistry" where
  "commit_stop reg provider session_id op generation =
     (let key = SessionKey_new provider session_id in
      case get_record reg key of
        None \<Rightarrow> (Commit_ForeignOperation, reg)
      | Some r \<Rightarrow>
          if generation \<noteq> rec_generation r
          then (Commit_StaleGeneration (rec_generation r), reg)
          else
            (case rec_state r of
               Stopping _ _ held_op _ _ _ \<Rightarrow>
                 if held_op = op
                 then (Committed, put_record key (r\<lparr>rec_state := Vacant\<rparr>) reg)
                 else (Commit_ForeignOperation, reg)
             | _ \<Rightarrow> (Commit_ForeignOperation, reg)))"

definition abort_stop ::
  "RuntimeOwnershipRegistry \<Rightarrow> string \<Rightarrow> string \<Rightarrow> string \<Rightarrow> nat \<Rightarrow> nat
   \<Rightarrow> AbortStopOutcome \<times> RuntimeOwnershipRegistry" where
  "abort_stop reg provider session_id op generation clock_ms =
     (let key = SessionKey_new provider session_id in
      case get_record reg key of
        None \<Rightarrow> (Abort_ForeignOperation, reg)
      | Some r \<Rightarrow>
          if generation \<noteq> rec_generation r
          then (Abort_StaleGeneration (rec_generation r), reg)
          else
            (case rec_state r of
               Stopping (Some owner) (Some prior_generation) held_op _ _ _ \<Rightarrow>
                 if held_op = op
                 then (Aborted,
                       put_record key (r\<lparr>rec_state := Live owner prior_generation clock_ms\<rparr>) reg)
                 else (Abort_ForeignOperation, reg)
             | _ \<Rightarrow> (Abort_ForeignOperation, reg)))"

section \<open>Fenced releases\<close>

definition release ::
  "RuntimeOwnershipRegistry \<Rightarrow> string \<Rightarrow> string \<Rightarrow> ReleaseClaim \<Rightarrow> bool \<times> RuntimeOwnershipRegistry" where
  "release reg provider session_id claim =
     (let key = SessionKey_new provider session_id in
      case get_record reg key of
        None \<Rightarrow> (False, reg)
      | Some r \<Rightarrow>
          (case rec_state r of
             Live owner generation _ \<Rightarrow>
               if runtime_matches owner claim \<and> generation = rc_generation claim
               then (True, put_record key (r\<lparr>rec_state := Vacant\<rparr>) reg)
               else (False, reg)
           | _ \<Rightarrow> (False, reg)))"

definition force_release_matched :: "OwnershipState \<Rightarrow> ReleaseClaim \<Rightarrow> bool" where
  "force_release_matched state claim =
     (case state of
        Handoff _ _ _ _ _ _ \<Rightarrow> False
      | Live owner generation _ \<Rightarrow> runtime_matches owner claim \<and> generation = rc_generation claim
      | Stopping owner _ op generation _ _ \<Rightarrow>
          op = rc_operation_id claim \<and> generation = rc_generation claim
          \<and> (case owner of
               None \<Rightarrow> rc_runtime claim = None
             | Some o' \<Rightarrow> runtime_matches o' claim)
      | Starting _ op generation _ _ \<Rightarrow>
          op = rc_operation_id claim \<and> generation = rc_generation claim \<and> rc_runtime claim = None
      | Fenced _ _ _ _ _ _ \<Rightarrow> False
      | Vacant \<Rightarrow> False
      | Aliased _ _ \<Rightarrow> False)"

definition force_release_for_confirmed_kill ::
  "RuntimeOwnershipRegistry \<Rightarrow> string \<Rightarrow> string \<Rightarrow> ReleaseClaim \<Rightarrow> RuntimeOwnershipRegistry" where
  "force_release_for_confirmed_kill reg provider session_id claim =
     (let key = SessionKey_new provider session_id in
      case get_record reg key of
        None \<Rightarrow> reg
      | Some r \<Rightarrow>
          if force_release_matched (rec_state r) claim
          then put_record key (r\<lparr>rec_state := Vacant\<rparr>) reg
          else reg)"

lemmas stop_ops [own_ops] =
  fail_def fence_unconfirmed_handoff_def fence_unconfirmed_handoff_with_prior_def
  fence_unconfirmed_stop_def fence_unconfirmed_live_def release_fenced_def
  force_release_platform_limited_def begin_stop_def commit_stop_def abort_stop_def release_def
  force_release_for_confirmed_kill_def

end
