(* ===== verification/Own_Sweep.thy ===== *)
theory Own_Sweep
  imports Own_Stop
begin

text \<open>
  The watchdog side of the coordinator: the registrations an in-flight operation leaves on its
  record, the two stale sweeps, the enumeration of probe-recoverable fences, and the read-only
  projections for snapshots and the reconnect replay (crates/freshell-ownership/src/lib.rs).

  The sweeps iterate over a \<open>HashMap\<close>, whose order is unspecified: the order is the
  argument \<open>order\<close>, a list of keys. The settlement flags are read from the flag memory at the
  time of the sweep.
\<close>

section \<open>Registrations\<close>

definition register_start_cancellation ::
  "RuntimeOwnershipRegistry \<Rightarrow> string \<Rightarrow> string \<Rightarrow> string \<Rightarrow> nat \<Rightarrow> handle \<Rightarrow> handle \<Rightarrow> flag_addr option
   \<Rightarrow> bool \<times> RuntimeOwnershipRegistry" where
  "register_start_cancellation reg provider session_id op generation abort settle settle_fired =
     (let key = SessionKey_new provider session_id in
      case get_record reg key of
        None \<Rightarrow> (False, reg)
      | Some r \<Rightarrow>
          (case rec_state r of
             Starting _ held_op gen _ _ \<Rightarrow>
               if held_op = op \<and> gen = generation
               then (True, put_record key
                             (r\<lparr>rec_cancellation := Some abort, rec_settle := Some settle,
                                rec_settle_fired := settle_fired\<rparr>) reg)
               else (False, reg)
           | _ \<Rightarrow> (False, reg)))"

definition register_stop_settlement ::
  "RuntimeOwnershipRegistry \<Rightarrow> string \<Rightarrow> string \<Rightarrow> string \<Rightarrow> nat \<Rightarrow> flag_addr
   \<Rightarrow> bool \<times> RuntimeOwnershipRegistry" where
  "register_stop_settlement reg provider session_id op generation flag =
     (let key = SessionKey_new provider session_id in
      case get_record reg key of
        None \<Rightarrow> (False, reg)
      | Some r \<Rightarrow>
          (case rec_state r of
             Stopping _ _ held_op gen _ _ \<Rightarrow>
               if held_op = op \<and> gen = generation
               then (True, put_record key (r\<lparr>rec_stop_settled := Some flag\<rparr>) reg)
               else (False, reg)
           | _ \<Rightarrow> (False, reg)))"

definition register_partial_runtime ::
  "RuntimeOwnershipRegistry \<Rightarrow> string \<Rightarrow> string \<Rightarrow> string \<Rightarrow> nat \<Rightarrow> OwnerIdentity
   \<Rightarrow> RuntimeOwnershipRegistry" where
  "register_partial_runtime reg provider session_id op generation owner =
     (let key = SessionKey_new provider session_id in
      case get_record reg key of
        None \<Rightarrow> reg
      | Some r \<Rightarrow>
          (case rec_state r of
             Starting _ held_op gen _ _ \<Rightarrow>
               if held_op = op \<and> gen = generation
               then put_record key (r\<lparr>rec_partial_runtime := Some owner\<rparr>) reg
               else reg
           | _ \<Rightarrow> reg))"

section \<open>The stale sweeps\<close>

text \<open>A registered flag that has not fired: the operation's handler is still running.\<close>

definition handler_running :: "flag_memory \<Rightarrow> flag_addr option \<Rightarrow> bool" where
  "handler_running flags flag = (case flag of None \<Rightarrow> False | Some f \<Rightarrow> \<not> flags f)"

fun recover_stoppings_loop ::
  "nat \<Rightarrow> nat \<Rightarrow> flag_memory \<Rightarrow> SessionKey list \<Rightarrow> RuntimeOwnershipRegistry
   \<Rightarrow> StaleStopping list \<times> RuntimeOwnershipRegistry" where
  "recover_stoppings_loop now_ms max_age_ms flags [] reg = ([], reg)"
| "recover_stoppings_loop now_ms max_age_ms flags (key # keys) reg =
     (case get_record reg key of
        None \<Rightarrow> recover_stoppings_loop now_ms max_age_ms flags keys reg
      | Some r \<Rightarrow>
          (case rec_state r of
             Stopping owner prior_generation op generation initiator since_ms \<Rightarrow>
               if now_ms - since_ms < max_age_ms \<or> handler_running flags (rec_stop_settled r)
               then recover_stoppings_loop now_ms max_age_ms flags keys reg
               else
                 (let prior = map_option (\<lambda>o'. (o', case prior_generation of
                                                       None \<Rightarrow> generation
                                                     | Some pg \<Rightarrow> pg)) owner;
                      stale = \<lparr>ss_provider = sk_provider key, ss_session_id = sk_session_id key,
                               ss_operation_id = op, ss_generation = generation, ss_prior = prior,
                               ss_initiator = initiator, ss_since_ms = since_ms\<rparr>;
                      (out, reg') = recover_stoppings_loop now_ms max_age_ms flags keys
                        (put_record key
                           (r\<lparr>rec_state := Fenced prior StaleStop op generation initiator since_ms\<rparr>) reg)
                  in (stale # out, reg'))
           | _ \<Rightarrow> recover_stoppings_loop now_ms max_age_ms flags keys reg))"

definition recover_stale_stoppings ::
  "RuntimeOwnershipRegistry \<Rightarrow> nat \<Rightarrow> nat \<Rightarrow> flag_memory \<Rightarrow> SessionKey list
   \<Rightarrow> StaleStopping list \<times> RuntimeOwnershipRegistry" where
  "recover_stale_stoppings reg now_ms max_age_ms flags order =
     recover_stoppings_loop now_ms max_age_ms flags order reg"

fun recover_starts_loop ::
  "nat \<Rightarrow> nat \<Rightarrow> flag_memory \<Rightarrow> SessionKey list \<Rightarrow> RuntimeOwnershipRegistry
   \<Rightarrow> RecoveredStart list \<times> RuntimeOwnershipRegistry" where
  "recover_starts_loop now_ms max_age_ms flags [] reg = ([], reg)"
| "recover_starts_loop now_ms max_age_ms flags (key # keys) reg =
     (case get_record reg key of
        None \<Rightarrow> recover_starts_loop now_ms max_age_ms flags keys reg
      | Some r \<Rightarrow>
          (case rec_state r of
             Starting kind op generation initiator since_ms \<Rightarrow>
               if max_age_ms \<le> now_ms - since_ms \<and> \<not> handler_running flags (rec_settle_fired r)
               then
                 (let recovered = \<lparr>rs_provider = sk_provider key, rs_session_id = sk_session_id key,
                        rs_operation_id = op, rs_generation = generation, rs_kind = kind,
                        rs_initiator = initiator, rs_since_ms = since_ms,
                        rs_cancellation = rec_cancellation r, rs_settle = rec_settle r,
                        rs_partial_runtime = rec_partial_runtime r\<rparr>;
                      (out, reg') = recover_starts_loop now_ms max_age_ms flags keys
                        (put_record key
                           (r\<lparr>rec_cancellation := None, rec_settle := None,
                              rec_partial_runtime := None,
                              rec_state := Stopping (rec_partial_runtime r) None op generation
                                             initiator since_ms\<rparr>) reg)
                  in (recovered # out, reg'))
               else recover_starts_loop now_ms max_age_ms flags keys reg
           | _ \<Rightarrow> recover_starts_loop now_ms max_age_ms flags keys reg))"

definition recover_stale_starts ::
  "RuntimeOwnershipRegistry \<Rightarrow> nat \<Rightarrow> nat \<Rightarrow> flag_memory \<Rightarrow> SessionKey list
   \<Rightarrow> RecoveredStart list \<times> RuntimeOwnershipRegistry" where
  "recover_stale_starts reg now_ms max_age_ms flags order =
     recover_starts_loop now_ms max_age_ms flags order reg"

definition stale_fence_of :: "flag_memory \<Rightarrow> SessionKey \<Rightarrow> SessionRecord \<Rightarrow> StaleStartFence option" where
  "stale_fence_of flags key r =
     (case rec_state r of
        Fenced prior reason op generation initiator since_ms \<Rightarrow>
          if reason = StaleStart \<or> reason = StaleStop
          then Some \<lparr>sf_provider = sk_provider key, sf_session_id = sk_session_id key,
                     sf_operation_id = op, sf_generation = generation,
                     sf_prior_pid = (case prior of None \<Rightarrow> None | Some (owner, _) \<Rightarrow> ow_pid owner),
                     sf_initiator = initiator,
                     sf_prior_kind = map_option (\<lambda>(owner, _). ow_kind owner) prior,
                     sf_settle_concluded =
                       (if reason = StaleStart then map_option flags (rec_settle_fired r)
                        else map_option flags (rec_stop_settled r)),
                     sf_reason = reason,
                     sf_prior_terminal_id =
                       (case prior of None \<Rightarrow> None | Some (owner, _) \<Rightarrow> ow_terminal_id owner),
                     sf_since_ms = since_ms\<rparr>
          else None
      | _ \<Rightarrow> None)"

definition stale_start_fences ::
  "RuntimeOwnershipRegistry \<Rightarrow> flag_memory \<Rightarrow> SessionKey list \<Rightarrow> StaleStartFence list" where
  "stale_start_fences reg flags order =
     List.map_filter (\<lambda>key. case get_record reg key of
                              None \<Rightarrow> None
                            | Some r \<Rightarrow> stale_fence_of flags key r) order"

section \<open>Snapshots and the reconnect replay\<close>

definition observe :: "RuntimeOwnershipRegistry \<Rightarrow> string \<Rightarrow> string \<Rightarrow> OwnershipSnapshot" where
  "observe reg provider session_id =
     (case get_record reg (SessionKey_new provider session_id) of
        Some r \<Rightarrow> \<lparr>snap_epoch = reg_epoch reg, snap_generation = snapshot_generation r,
                   snap_state = rec_state r\<rparr>
      | None \<Rightarrow> \<lparr>snap_epoch = reg_epoch reg, snap_generation = 0, snap_state = Vacant\<rparr>)"

fun replay_fields_for ::
  "OwnershipState \<Rightarrow> string \<times> string option \<times> ReplayOwnerState \<times> string option" where
  "replay_fields_for Vacant = (''vacant'', None, Replay_Live, None)"
| "replay_fields_for (Aliased to_id gen) = (''vacant'', None, Replay_Live, None)"
| "replay_fields_for (Live owner gen since) =
     (kind_wire (ow_kind owner), ow_terminal_id owner, Replay_Live, None)"
| "replay_fields_for (Starting kind op gen init since) = (kind_wire kind, None, Replay_Starting, None)"
| "replay_fields_for (Handoff prior to_kind op gen init since) =
     (kind_wire to_kind, None, Replay_Handoff, None)"
| "replay_fields_for (Stopping (Some owner) prior_gen op gen init since) =
     (kind_wire (ow_kind owner), ow_terminal_id owner, Replay_Stopping, None)"
| "replay_fields_for (Stopping None prior_gen op gen init since) =
     (''vacant'', None, Replay_Stopping, None)"
| "replay_fields_for (Fenced (Some (owner, pg)) reason op gen init since) =
     (kind_wire (ow_kind owner), ow_terminal_id owner, Replay_Fenced, Some (wire_str reason))"
| "replay_fields_for (Fenced None reason op gen init since) =
     (''vacant'', None, Replay_Fenced, Some (wire_str reason))"

definition resolve_canonical_locked :: "RuntimeOwnershipRegistry \<Rightarrow> string \<Rightarrow> string \<Rightarrow> string" where
  "resolve_canonical_locked reg provider session_id = resolve_walk reg provider [] session_id"

definition replay_record :: "RuntimeOwnershipRegistry \<Rightarrow> SessionKey \<Rightarrow> SessionRecord \<Rightarrow> RuntimeOwnerReplayRecord" where
  "replay_record reg key r =
     (let (alias_of, (owner_kind, terminal_id, replay_state, reason), generation) =
        (case rec_state r of
           Aliased to_id _ \<Rightarrow>
             (let canonical = resolve_canonical_locked reg (sk_provider key) to_id in
              case get_record reg (SessionKey_new (sk_provider key) canonical) of
                Some resolved \<Rightarrow>
                  (Some canonical, replay_fields_for (rec_state resolved), snapshot_generation resolved)
              | None \<Rightarrow>
                  (Some canonical, (''vacant'', None, Replay_Live, None), snapshot_generation r))
         | _ \<Rightarrow> (None, replay_fields_for (rec_state r), snapshot_generation r))
      in \<lparr>rr_provider = sk_provider key, rr_session_id = sk_session_id key,
          rr_epoch = reg_epoch reg, rr_generation = generation, rr_owner_kind = owner_kind,
          rr_terminal_id = terminal_id, rr_state = replay_state, rr_reason = reason,
          rr_alias_of = alias_of\<rparr>)"

definition snapshot_records ::
  "RuntimeOwnershipRegistry \<Rightarrow> SessionKey list \<Rightarrow> RuntimeOwnerReplayRecord list" where
  "snapshot_records reg order =
     List.map_filter (\<lambda>key. map_option (replay_record reg key) (get_record reg key)) order"

lemmas register_ops [own_ops] =
  register_start_cancellation_def register_stop_settlement_def register_partial_runtime_def

end
