(* ===== verification/Own_Ticket.thy ===== *)
theory Own_Ticket
  imports Own_Sweep
begin

text \<open>
  The RAII guard of a granted claim, \<open>OperationTicket\<close> (crates/freshell-ownership/src/lib.rs):
  dropping it without disarming runs the typed failure for its claim. A panic inside that
  failure (a poisoned mutex) is caught by the code and only logged; the model has no poisoning.
\<close>

record OperationTicket =
  tk_provider :: string
  tk_session_id :: string
  tk_operation_id :: string
  tk_kind :: RuntimeOwnerKind
  tk_generation :: nat
  tk_initiator :: string
  tk_disarmed :: bool

definition OperationTicket_new ::
  "string \<Rightarrow> string \<Rightarrow> string \<Rightarrow> RuntimeOwnerKind \<Rightarrow> nat \<Rightarrow> string \<Rightarrow> OperationTicket" where
  "OperationTicket_new provider session_id op kind generation initiator =
     \<lparr>tk_provider = provider, tk_session_id = session_id, tk_operation_id = op, tk_kind = kind,
      tk_generation = generation, tk_initiator = initiator, tk_disarmed = False\<rparr>"

definition ticket_disarm :: "OperationTicket \<Rightarrow> OperationTicket" where
  "ticket_disarm t = t\<lparr>tk_disarmed := True\<rparr>"

definition rekey_session_id :: "OperationTicket \<Rightarrow> string \<Rightarrow> OperationTicket" where
  "rekey_session_id t new_session_id = t\<lparr>tk_session_id := new_session_id\<rparr>"

definition ticket_drop ::
  "OperationTicket \<Rightarrow> RuntimeOwnershipRegistry \<Rightarrow> nat \<Rightarrow> RuntimeOwnershipRegistry" where
  "ticket_drop t reg clock_ms =
     (if tk_disarmed t then reg
      else snd (fail reg (tk_provider t) (tk_session_id t) (tk_operation_id t) (tk_generation t)
                  False clock_ms))"

end
