(* ===== verification/Own_Lifecycle.thy ===== *)
theory Own_Lifecycle
  imports Own_Ticket
begin

text \<open>
  The abstract specification of the coordinator: the lifecycle of one key as a step relation on
  its generation and its ownership state, with the actor whose step it is. Then the refinement:
  every operation moves every key either not at all or along an edge of the lifecycle. The
  system theorems are read off the lifecycle, once, instead of off two dozen operations.
\<close>

section \<open>The lifecycle of one key\<close>

text \<open>
  An \<open>Operation\<close> is a lifecycle request, a watcher or a confirmed probe that names its
  operation id; a \<open>Rekey\<close> is one of an operation's moves that leave an alias behind; a \<open>Rebind\<close>
  is the identity rebind that moves a terminal's writer to the key its operation claimed; the \<open>Watchdog\<close> is the periodic sweep; the \<open>Operator\<close> is the
  acknowledged force-clear.
\<close>

datatype actor = Operation string | Rekey string | Rebind string | Watchdog | Operator

fun actor_operation :: "actor \<Rightarrow> string option" where
  "actor_operation (Operation op) = Some op"
| "actor_operation (Rekey op) = Some op"
| "actor_operation (Rebind op) = Some op"
| "actor_operation Watchdog = None"
| "actor_operation Operator = None"

type_synonym life = "nat \<times> OwnershipState"

inductive lifecycle :: "actor \<Rightarrow> life \<Rightarrow> life \<Rightarrow> bool" where
  start: "lifecycle (Operation op) (g, Vacant) (Suc g, Starting kind op (Suc g) init t)"
| take_vacant: "lifecycle (Operation op) (g, Vacant) (Suc g, Handoff None kind op (Suc g) init t)"
| take_live: "lifecycle (Operation op) (g, Live owner lg s)
     (Suc g, Handoff (Some (owner, lg)) kind op (Suc g) init t)"
| take_acknowledged: "lifecycle (Operation op) (g, Fenced prior ClearedUnverified fop fg fi fs)
     (Suc g, Handoff prior kind op (Suc g) init t)"
| commit_start: "lifecycle (Operation op) (g, Starting kind op sg init s) (g, Live owner g t)"
| commit_rebind: "lifecycle (Rebind op) (g, Starting kind op sg init s) (g, Live owner g t)"
| commit_handoff: "ow_kind owner = kind \<Longrightarrow>
     lifecycle (Operation op) (g, Handoff prior kind op hg init s) (g, Live owner g t)"
| fail_start: "lifecycle (Operation op) (g, Starting kind op sg init s) (g, Vacant)"
| fail_handoff: "lifecycle (Operation op) (g, Handoff prior kind op hg init s) (g, Vacant)"
| restore_prior: "lifecycle (Operation op) (g, Handoff (Some (owner, lg)) kind op hg init s) (g, Live owner g t)"
| fence_handoff: "lifecycle (Operation op) (g, Handoff prior kind op hg init s)
     (g, Fenced prior' reason op g init t)"
| fence_stop: "prior = map_option (\<lambda>o'. (o', case pg of None \<Rightarrow> g - 1 | Some n \<Rightarrow> n)) owner \<Longrightarrow>
     lifecycle (Operation op) (g, Stopping owner pg op sg init s) (g, Fenced prior reason op g init t)"
| fence_live: "ow_ownership_id owner = Some op \<Longrightarrow>
     lifecycle (Operation op) (g, Live owner g s) (g, Fenced (Some (owner, g)) reason op g [] t)"
| confirm_death: "lifecycle (Operation op) (g, Fenced prior reason op fg init s) (g, Vacant)"
| force_clear: "reason \<in> {PlatformLimited, StaleStart, StaleStop} \<Longrightarrow>
     lifecycle Operator (g, Fenced prior reason op fg fi fs) (g, Fenced prior ClearedUnverified op g init t)"
| stop: "lifecycle (Operation op) (g, Live owner lg s)
     (Suc g, Stopping (Some owner) (Some lg) op (Suc g) init t)"
| commit_stop: "lifecycle (Operation op) (g, Stopping owner pg op sg init s) (g, Vacant)"
| abort_stop: "lifecycle (Operation op) (g, Stopping (Some owner) (Some pg) op sg init s) (g, Live owner pg t)"
| released: "ow_ownership_id owner = Some op \<Longrightarrow>
     lifecycle (Operation op) (g, Live owner lg s) (g, Vacant)"
| sweep_start: "lifecycle Watchdog (g, Starting kind op sg init s) (g, Stopping partial None op sg init s)"
| sweep_stop: "prior = map_option (\<lambda>o'. (o', case pg of None \<Rightarrow> sg | Some n \<Rightarrow> n)) owner \<Longrightarrow>
     lifecycle Watchdog (g, Stopping owner pg op sg init s) (g, Fenced prior StaleStop op sg init s)"
| alias_start: "lifecycle (Rekey op) (g, Starting kind op sg init s) (g, Aliased to_id g)"
| alias_live: "lifecycle (Rekey op) (g, Live owner lg s) (Suc g, Aliased to_id (Suc g))"
| alias_terminal: "ow_kind owner = Terminal \<Longrightarrow>
     lifecycle (Rebind op) (g, Live owner lg s) (Suc lg, Aliased to_id (Suc lg))"
| arrive_live: "lifecycle (Rekey op) (0, Vacant) (g, Live owner g t)"
| arrive_starting: "lifecycle (Rekey op) (0, Vacant) (g, Starting kind op g init s)"
| arrive_alias: "lifecycle (Rekey op) (0, Vacant) (g, Aliased to_id g)"

lemmas [lifecycle_intros] = lifecycle.intros

inductive_cases from_aliased: "lifecycle a (g, Aliased to_id ag) v"
inductive_cases from_vacant: "lifecycle a (g, Vacant) v"
inductive_cases from_fenced: "lifecycle a (g, Fenced prior reason op fg init s) v"
inductive_cases from_starting: "lifecycle a (g, Starting kind op sg init s) v"
inductive_cases from_handoff: "lifecycle a (g, Handoff prior kind op hg init s) v"
inductive_cases from_stopping: "lifecycle a (g, Stopping owner pg op sg init s) v"
inductive_cases from_live: "lifecycle a (g, Live owner lg s) v"

section \<open>What a registry says of a key\<close>

text \<open>A key without a record is vacant at generation 0, as the operations and snapshots treat it.\<close>

definition life :: "RuntimeOwnershipRegistry \<Rightarrow> SessionKey \<Rightarrow> life" where
  "life reg key = (rec_generation (entry_or_default reg key), rec_state (entry_or_default reg key))"

text \<open>
  Every state but \<open>Live\<close> carries the record's own generation; a live owner's generation, and
  the one a stop remembers, may lie below it.
\<close>

fun wf_life :: "life \<Rightarrow> bool" where
  "wf_life (g, Vacant) = True"
| "wf_life (g, Starting kind op sg init s) = (sg = g)"
| "wf_life (g, Live owner lg s) = (lg \<le> g)"
| "wf_life (g, Handoff prior kind op hg init s) = (hg = g)"
| "wf_life (g, Stopping owner pg op sg init s) = (sg = g \<and> (case pg of None \<Rightarrow> True | Some n \<Rightarrow> n \<le> g))"
| "wf_life (g, Fenced prior reason op fg init s) = (fg = g)"
| "wf_life (g, Aliased to_id ag) = (ag = g)"

lemma lifecycle_wf: "lifecycle a v v' \<Longrightarrow> wf_life v \<Longrightarrow> wf_life v'"
  by (induction rule: lifecycle.induct) auto

lemma life_put [simp]:
  "life (put_record k r reg) k' = (if k' = k then (rec_generation r, rec_state r) else life reg k')"
  by (simp add: life_def entry_or_default_def)

lemma entry_or_default_put [simp]:
  "entry_or_default (put_record k r reg) k' = (if k' = k then r else entry_or_default reg k')"
  by (simp add: entry_or_default_def)

lemma life_with_epoch [simp]: "life (with_epoch e) k = (0, Vacant)"
  by (simp add: life_def entry_or_default_def)

lemma life_Some: "get_record reg k = Some r \<Longrightarrow> life reg k = (rec_generation r, rec_state r)"
  by (simp add: life_def entry_or_default_def)

lemma life_None: "get_record reg k = None \<Longrightarrow> life reg k = (0, Vacant)"
  by (simp add: life_def entry_or_default_def)

lemma life_entry:
  "life reg k = (rec_generation (entry_or_default reg k), rec_state (entry_or_default reg k))"
  by (simp add: life_def)

section \<open>Every operation refines the lifecycle\<close>

text \<open>
  The relation each operation is shown to respect, at every key: an edge of the lifecycle or no
  move, a generation at most one above some generation of the registry before, and no record lost.
\<close>

definition conforms :: "actor \<Rightarrow> RuntimeOwnershipRegistry \<Rightarrow> RuntimeOwnershipRegistry \<Rightarrow> bool" where
  "conforms a reg reg' =
     (reg_epoch reg' = reg_epoch reg
      \<and> (\<forall>k. life reg' k = life reg k \<or> lifecycle a (life reg k) (life reg' k))
      \<and> (\<forall>k. \<exists>j. fst (life reg' k) \<le> Suc (fst (life reg j)))
      \<and> (\<forall>k. get_record reg k \<noteq> None \<longrightarrow> get_record reg' k \<noteq> None))"

lemma conforms_refl [simp]: "conforms a reg reg"
  by (auto simp: conforms_def intro: le_SucI)

lemma conforms_put_from:
  assumes "life reg k = (rec_generation r, rec_state r) \<or> lifecycle a (life reg k) (rec_generation r, rec_state r)"
    and "rec_generation r \<le> Suc (fst (life reg j))"
  shows "conforms a reg (put_record k r reg)"
  using assms by (auto simp: conforms_def intro: le_SucI)

lemma conforms_put:
  assumes "life reg k = (rec_generation r, rec_state r) \<or> lifecycle a (life reg k) (rec_generation r, rec_state r)"
    and "rec_generation r \<le> Suc (fst (life reg k))"
  shows "conforms a reg (put_record k r reg)"
  using assms by (rule conforms_put_from)

lemma conforms_put_entry [simp]: "conforms a reg (put_record k (entry_or_default reg k) reg)"
  by (rule conforms_put) (simp_all add: life_entry)

lemma begin_start_inner_conforms:
  "conforms (Operation op) reg (snd (begin_start_inner reg p s kind op observed init now w))"
  by (auto simp: begin_start_inner_def Let_def life_entry
      intro!: conforms_put lifecycle_intros split: OwnershipState.splits)

lemma begin_handoff_conforms:
  "conforms (Operation op) reg (snd (begin_handoff reg p s kind op observed init now))"
  by (auto simp: begin_handoff_def Let_def life_entry
      intro!: conforms_put lifecycle_intros split: OwnershipState.splits)

lemma begin_acknowledged_conforms:
  "conforms (Operation op) reg
     (snd (begin_handoff_acknowledged_cleared_unverified reg p s kind op observed init now))"
  by (auto simp: begin_handoff_acknowledged_cleared_unverified_def Let_def life_Some
      intro!: conforms_put lifecycle_intros split: option.splits OwnershipState.splits FenceReason.splits)

lemma begin_attach_guard_conforms:
  "conforms a reg (snd (begin_attach_guard reg p s op observed init c))"
  by (auto simp: begin_attach_guard_def Let_def life_Some
      intro!: conforms_put split: option.splits OwnershipState.splits)

lemma begin_adopt_guard_conforms:
  "conforms a reg (snd (begin_adopt_guard reg p s op expected observed init c))"
  by (auto simp: begin_adopt_guard_def Let_def life_Some
      intro!: conforms_put split: option.splits OwnershipState.splits)

lemma release_window_conforms: "conforms a reg (release_window g reg)"
  by (auto simp: release_window_def Let_def life_Some intro!: conforms_put split: option.splits)

lemma commit_live_conforms:
  "conforms (Operation op) reg (snd (commit_live reg p s op g owner c))"
  by (auto simp: commit_live_def Let_def life_Some
      intro!: conforms_put lifecycle_intros split: option.splits OwnershipState.splits)

text \<open>The four re-keying moves write two keys; the second write finds a key the first left alone.\<close>

lemma conforms_put2:
  assumes "k \<noteq> k'"
    and "life reg k = (rec_generation r, rec_state r) \<or> lifecycle a (life reg k) (rec_generation r, rec_state r)"
    and "life reg k' = (rec_generation r', rec_state r') \<or> lifecycle a (life reg k') (rec_generation r', rec_state r')"
    and "rec_generation r \<le> Suc (fst (life reg k))"
    and "rec_generation r' \<le> Suc (fst (life reg k)) \<or> rec_generation r' \<le> Suc (fst (life reg k'))"
  shows "conforms a reg (put_record k' r' (put_record k r reg))"
  using assms by (auto simp: conforms_def intro: le_SucI)

definition registry_wf :: "RuntimeOwnershipRegistry \<Rightarrow> bool" where
  "registry_wf reg = (\<forall>k. wf_life (life reg k))"

lemma conforms_wf: "conforms a reg reg' \<Longrightarrow> registry_wf reg \<Longrightarrow> registry_wf reg'"
  unfolding conforms_def registry_wf_def by (metis lifecycle_wf)

lemma commit_live_rekey_conforms:
  "conforms (Rekey op) reg (snd (commit_live_rekey reg p old new op g owner c))"
  by (auto simp: commit_live_rekey_def Let_def life_Some life_None
      intro!: conforms_put2 lifecycle_intros split: option.splits OwnershipState.splits)

lemma rekey_starting_conforms:
  assumes "registry_wf reg"
  shows "conforms (Rekey op) reg (snd (rekey_starting reg p old new op g))"
proof -
  have "sg = rec_generation r"
    if "get_record reg k = Some r" and "rec_state r = Starting kind o' sg i t" for k r kind o' sg i t
    using assms that by (auto simp: registry_wf_def life_Some dest!: spec [of _ k])
  then show ?thesis
    by (auto simp: rekey_starting_def Let_def life_Some life_None
        intro!: conforms_put2 lifecycle_intros split: option.splits OwnershipState.splits)
qed

lemma rekey_live_conforms:
  "conforms (Rekey op) reg (snd (rekey_live reg p old new expected owner c))"
  by (auto simp: rekey_live_def Let_def life_Some life_None
      intro!: conforms_put2 lifecycle_intros split: option.splits OwnershipState.splits)

lemma commit_live_rekey_from_terminal_conforms:
  assumes "registry_wf reg"
  shows "conforms (Rebind op) reg
    (snd (commit_live_rekey_from_terminal reg p new op g old tid owner c))"
proof -
  have "sg = rec_generation r"
    if "get_record reg k = Some r" and "rec_state r = Starting kind o' sg i t" for k r kind o' sg i t
    using assms that by (auto simp: registry_wf_def life_Some dest!: spec [of _ k])
  moreover have "lg \<le> rec_generation r"
    if "get_record reg k = Some r" and "rec_state r = Live owner lg t" for k r owner lg t
    using assms that by (auto simp: registry_wf_def life_Some dest!: spec [of _ k])
  ultimately show ?thesis
    by (auto simp: commit_live_rekey_from_terminal_def Let_def life_Some
        intro!: conforms_put2 lifecycle_intros split: option.splits OwnershipState.splits)
qed

lemma alias_vacant_key_conforms:
  "conforms (Rekey op) reg (snd (alias_vacant_key reg p from_id to_id))"
proof (cases "get_record reg (SessionKey_new p to_id)")
  case (Some r)
  then show ?thesis
    by (auto simp: alias_vacant_key_def Let_def life_None life_Some
        intro!: conforms_put_from [where j = "SessionKey_new p to_id"] lifecycle_intros)
qed (simp add: alias_vacant_key_def Let_def)

lemma fail_conforms: "conforms (Operation op) reg (snd (fail reg p s op g live c))"
  by (auto simp: fail_def Let_def life_Some
      intro!: conforms_put lifecycle_intros split: option.splits OwnershipState.splits)

lemma fence_unconfirmed_handoff_conforms:
  "conforms (Operation op) reg
     (snd (fence_unconfirmed_handoff_with_prior reg p s op g reason unconfirmed c))"
  by (auto simp: fence_unconfirmed_handoff_with_prior_def Let_def life_Some
      intro!: conforms_put lifecycle_intros split: option.splits OwnershipState.splits)

lemma fence_unconfirmed_stop_conforms:
  "conforms (Operation op) reg (snd (fence_unconfirmed_stop reg p s op g reason c))"
  by (auto simp: fence_unconfirmed_stop_def Let_def life_Some
      intro!: conforms_put lifecycle_intros split: option.splits OwnershipState.splits)

lemma fence_unconfirmed_live_conforms:
  "conforms (Operation op) reg (snd (fence_unconfirmed_live reg p s op g expected reason c))"
  by (auto simp: fence_unconfirmed_live_def Let_def life_Some
      intro!: conforms_put lifecycle_intros split: option.splits OwnershipState.splits)

lemma release_fenced_conforms:
  "conforms (Operation op) reg (snd (release_fenced reg p s op g))"
  by (auto simp: release_fenced_def Let_def life_Some
      intro!: conforms_put lifecycle_intros split: option.splits OwnershipState.splits)

lemma force_release_platform_limited_conforms:
  "conforms Operator reg (snd (force_release_platform_limited reg p s observed init c))"
  by (auto simp: force_release_platform_limited_def Let_def life_Some
      intro!: conforms_put lifecycle_intros split: option.splits OwnershipState.splits)

lemma begin_stop_conforms:
  "conforms (Operation op) reg (snd (begin_stop reg p s op claim init now))"
  by (auto simp: begin_stop_def Let_def life_Some
      intro!: conforms_put lifecycle_intros split: option.splits OwnershipState.splits)

lemma commit_stop_conforms: "conforms (Operation op) reg (snd (commit_stop reg p s op g))"
  by (auto simp: commit_stop_def Let_def life_Some
      intro!: conforms_put lifecycle_intros split: option.splits OwnershipState.splits)

lemma abort_stop_conforms: "conforms (Operation op) reg (snd (abort_stop reg p s op g c))"
  by (auto simp: abort_stop_def Let_def life_Some
      intro!: conforms_put lifecycle_intros split: option.splits OwnershipState.splits)

lemma runtime_matches_ownership:
  "runtime_matches owner claim \<Longrightarrow> ow_ownership_id owner = Some (rc_operation_id claim)"
  by (auto simp: runtime_matches_def split: option.splits)

lemma release_conforms:
  "conforms (Operation (rc_operation_id claim)) reg (snd (release reg p s claim))"
  by (auto simp: release_def Let_def life_Some runtime_matches_ownership
      intro!: conforms_put lifecycle_intros split: option.splits OwnershipState.splits)

lemma force_release_for_confirmed_kill_conforms:
  "conforms (Operation (rc_operation_id claim)) reg (force_release_for_confirmed_kill reg p s claim)"
  by (auto simp: force_release_for_confirmed_kill_def force_release_matched_def Let_def life_Some
        runtime_matches_ownership
      intro!: conforms_put lifecycle_intros split: option.splits OwnershipState.splits)

lemma register_start_cancellation_conforms:
  "conforms a reg (snd (register_start_cancellation reg p s op g abort settle flag))"
  by (auto simp: register_start_cancellation_def Let_def life_Some
      intro!: conforms_put split: option.splits OwnershipState.splits)

lemma register_stop_settlement_conforms:
  "conforms a reg (snd (register_stop_settlement reg p s op g flag))"
  by (auto simp: register_stop_settlement_def Let_def life_Some
      intro!: conforms_put split: option.splits OwnershipState.splits)

lemma register_partial_runtime_conforms:
  "conforms a reg (register_partial_runtime reg p s op g owner)"
  by (auto simp: register_partial_runtime_def Let_def life_Some
      intro!: conforms_put split: option.splits OwnershipState.splits)

end
