(* ===== verification/Machine.thy ===== *)
theory Machine
  imports Prelude
begin

text \<open>
  The interface between a component's transition relation and the claims made about whole runs
  of it. A machine keeps a family of entries; every transition moves every entry not at all or
  along an edge of the entry's own specification. What holds of the edges then holds of runs:
  preserved predicates, monotone measures, and entries that only certain actors can move.
\<close>

inductive run_of :: "('s \<Rightarrow> 'a \<Rightarrow> 's \<Rightarrow> bool) \<Rightarrow> 's \<Rightarrow> 'a list \<Rightarrow> 's \<Rightarrow> bool" for step where
  run_nil: "run_of step s [] s"
| run_cons: "step s a s' \<Longrightarrow> run_of step s' as s'' \<Longrightarrow> run_of step s (a # as) s''"

inductive_simps run_of_Nil [simp]: "run_of step s [] s'"
inductive_cases run_of_ConsE: "run_of step s (a # as) s'"

lemma run_single: "step s a s' \<Longrightarrow> run_of step s [a] s'"
  by (blast intro: run_of.intros)

lemma run_of_append:
  "run_of step s as s' \<Longrightarrow> run_of step s' bs s'' \<Longrightarrow> run_of step s (as @ bs) s''"
  by (induction rule: run_of.induct) (auto intro: run_of.intros)

locale keyed_machine =
  fixes initial :: "'s \<Rightarrow> bool"
    and step :: "'s \<Rightarrow> 'a \<Rightarrow> 's \<Rightarrow> bool"
    and view :: "'s \<Rightarrow> 'k \<Rightarrow> 'v"
    and edge :: "'a \<Rightarrow> 'v \<Rightarrow> 'v \<Rightarrow> bool"
    and wf :: "'v \<Rightarrow> bool"
  assumes initial_wf: "initial s \<Longrightarrow> wf (view s k)"
    and step_edge: "step s a s' \<Longrightarrow> (\<And>j. wf (view s j)) \<Longrightarrow>
      view s' k = view s k \<or> edge a (view s k) (view s' k)"
    and edge_wf: "edge a v v' \<Longrightarrow> wf v \<Longrightarrow> wf v'"
begin

lemma step_wf: "step s a s' \<Longrightarrow> (\<And>j. wf (view s j)) \<Longrightarrow> wf (view s' k)"
  using step_edge edge_wf by metis

lemma run_wf: "run_of step s as s' \<Longrightarrow> (\<And>j. wf (view s j)) \<Longrightarrow> wf (view s' k)"
proof (induction arbitrary: k rule: run_of.induct)
  case (run_cons s a s' as s'')
  then show ?case using step_wf by metis
qed simp

lemma reachable_wf: "initial s \<Longrightarrow> run_of step s as s' \<Longrightarrow> wf (view s' k)"
  using run_wf initial_wf by metis

text \<open>A predicate on an entry that no edge of the run's actors leaves holds to the end.\<close>

lemma run_invariant:
  assumes "run_of step s as s'"
    and "\<And>j. wf (view s j)"
    and "\<And>a v v'. a \<in> set as \<Longrightarrow> edge a v v' \<Longrightarrow> wf v \<Longrightarrow> P v \<Longrightarrow> P v'"
    and "P (view s k)"
  shows "P (view s' k)"
  using assms
proof (induction rule: run_of.induct)
  case (run_cons s a s' as s'')
  have wf': "wf (view s' j)" for j using step_wf [OF run_cons.hyps(1) run_cons.prems(1)] .
  have "P (view s' k)"
    using step_edge [OF run_cons.hyps(1) run_cons.prems(1), of k] run_cons.prems by auto
  then show ?case using run_cons.IH [OF wf'] run_cons.prems(2) by auto
qed simp

text \<open>A measure of the entries that no edge of the run's actors decreases only grows.\<close>

lemma run_monotone:
  fixes f :: "'v \<Rightarrow> nat"
  assumes "run_of step s as s'"
    and "\<And>j. wf (view s j)"
    and "\<And>a v v'. a \<in> set as \<Longrightarrow> edge a v v' \<Longrightarrow> wf v \<Longrightarrow> f v \<le> f v'"
  shows "f (view s k) \<le> f (view s' k)"
  using run_invariant [OF assms(1,2), where P = "\<lambda>v. f (view s k) \<le> f v" and k = k]
    assms(3) by (meson order_refl order_trans)

text \<open>An entry in a class that a run enters from outside was moved there by one edge of it.\<close>

lemma run_enters:
  assumes "run_of step s as s'"
    and "\<And>j. wf (view s j)"
    and "\<not> P (view s k)" and "P (view s' k)"
  shows "\<exists>a \<in> set as. \<exists>v v'. edge a v v' \<and> wf v \<and> \<not> P v \<and> P v'"
proof (rule ccontr)
  assume "\<not> ?thesis"
  then have "\<not> P (view s' k)"
    using run_invariant [OF assms(1,2), where P = "\<lambda>v. \<not> P v" and k = k] assms(3) by blast
  with assms(4) show False by simp
qed

end

end
