(* ===== verification/Own_System.thy ===== *)
theory Own_System
  imports Own_Lifecycle Machine
begin

text \<open>
  The coordinator as a system: one transition per operation, whoever calls it and in whatever
  order, starting from an empty registry. The pointwise effect of the two sweeps is stated first,
  because a sweep moves many keys in one transition.
\<close>

section \<open>The sweeps, key by key\<close>

definition start_due :: "nat \<Rightarrow> nat \<Rightarrow> flag_memory \<Rightarrow> SessionRecord \<Rightarrow> bool" where
  "start_due now max_age flags r =
     (case rec_state r of
        Starting _ _ _ _ since \<Rightarrow> max_age \<le> now - since \<and> \<not> handler_running flags (rec_settle_fired r)
      | _ \<Rightarrow> False)"

definition swept_start :: "nat \<Rightarrow> nat \<Rightarrow> flag_memory \<Rightarrow> SessionRecord \<Rightarrow> SessionRecord" where
  "swept_start now max_age flags r =
     (if start_due now max_age flags r
      then r\<lparr>rec_cancellation := None, rec_settle := None, rec_partial_runtime := None,
             rec_state := (case rec_state r of
                             Starting _ op g init since \<Rightarrow>
                               Stopping (rec_partial_runtime r) None op g init since
                           | st \<Rightarrow> st)\<rparr>
      else r)"

definition stop_due :: "nat \<Rightarrow> nat \<Rightarrow> flag_memory \<Rightarrow> SessionRecord \<Rightarrow> bool" where
  "stop_due now max_age flags r =
     (case rec_state r of
        Stopping _ _ _ _ _ since \<Rightarrow> max_age \<le> now - since \<and> \<not> handler_running flags (rec_stop_settled r)
      | _ \<Rightarrow> False)"

definition swept_stop :: "nat \<Rightarrow> nat \<Rightarrow> flag_memory \<Rightarrow> SessionRecord \<Rightarrow> SessionRecord" where
  "swept_stop now max_age flags r =
     (if stop_due now max_age flags r
      then r\<lparr>rec_state := (case rec_state r of
               Stopping owner pg op g init since \<Rightarrow>
                 Fenced (map_option (\<lambda>o'. (o', case pg of None \<Rightarrow> g | Some n \<Rightarrow> n)) owner)
                   StaleStop op g init since
             | st \<Rightarrow> st)\<rparr>
      else r)"

lemma swept_start_idem [simp]:
  "swept_start now max_age flags (swept_start now max_age flags r) = swept_start now max_age flags r"
  by (auto simp: swept_start_def start_due_def split: OwnershipState.splits)

lemma swept_stop_idem [simp]:
  "swept_stop now max_age flags (swept_stop now max_age flags r) = swept_stop now max_age flags r"
  by (auto simp: swept_stop_def stop_due_def split: OwnershipState.splits)

lemma starts_loop_Cons:
  "snd (recover_starts_loop now max_age flags (key # keys) reg) =
     snd (recover_starts_loop now max_age flags keys
       (case get_record reg key of
          None \<Rightarrow> reg
        | Some r \<Rightarrow> put_record key (swept_start now max_age flags r) reg))"
  by (auto simp: swept_start_def start_due_def put_record_same Let_def
      split: option.splits OwnershipState.splits prod.splits)

lemma stoppings_loop_Cons:
  "snd (recover_stoppings_loop now max_age flags (key # keys) reg) =
     snd (recover_stoppings_loop now max_age flags keys
       (case get_record reg key of
          None \<Rightarrow> reg
        | Some r \<Rightarrow> put_record key (swept_stop now max_age flags r) reg))"
  by (auto simp: swept_stop_def stop_due_def put_record_same Let_def not_le
      split: option.splits OwnershipState.splits prod.splits)

lemma starts_loop_epoch: "reg_epoch (snd (recover_starts_loop now max_age flags order reg)) = reg_epoch reg"
  by (induction order arbitrary: reg)
     (simp_all add: starts_loop_Cons del: recover_starts_loop.simps(2) split: option.splits)

lemma stoppings_loop_epoch:
  "reg_epoch (snd (recover_stoppings_loop now max_age flags order reg)) = reg_epoch reg"
  by (induction order arbitrary: reg)
     (simp_all add: stoppings_loop_Cons del: recover_stoppings_loop.simps(2) split: option.splits)

lemma starts_loop_record:
  "get_record (snd (recover_starts_loop now max_age flags order reg)) k =
     (if k \<in> set order then map_option (swept_start now max_age flags) (get_record reg k)
      else get_record reg k)"
proof (induction order arbitrary: reg)
  case (Cons key keys)
  then show ?case
    by (cases "get_record reg key")
       (auto simp: starts_loop_Cons option.map_comp o_def simp del: recover_starts_loop.simps(2))
qed simp

lemma stoppings_loop_record:
  "get_record (snd (recover_stoppings_loop now max_age flags order reg)) k =
     (if k \<in> set order then map_option (swept_stop now max_age flags) (get_record reg k)
      else get_record reg k)"
proof (induction order arbitrary: reg)
  case (Cons key keys)
  then show ?case
    by (cases "get_record reg key")
       (auto simp: stoppings_loop_Cons option.map_comp o_def simp del: recover_stoppings_loop.simps(2))
qed simp

lemma swept_start_life:
  "(rec_generation (swept_start now max_age flags r), rec_state (swept_start now max_age flags r)) =
     (rec_generation r, rec_state r)
   \<or> lifecycle Watchdog (rec_generation r, rec_state r)
       (rec_generation (swept_start now max_age flags r), rec_state (swept_start now max_age flags r))"
  by (auto simp: swept_start_def start_due_def intro: lifecycle_intros split: OwnershipState.splits)

lemma swept_stop_life:
  "(rec_generation (swept_stop now max_age flags r), rec_state (swept_stop now max_age flags r)) =
     (rec_generation r, rec_state r)
   \<or> lifecycle Watchdog (rec_generation r, rec_state r)
       (rec_generation (swept_stop now max_age flags r), rec_state (swept_stop now max_age flags r))"
  by (auto simp: swept_stop_def stop_due_def intro!: lifecycle_intros split: OwnershipState.splits)

lemma recover_stale_starts_conforms:
  "conforms Watchdog reg (snd (recover_stale_starts reg now max_age flags order))"
  unfolding conforms_def recover_stale_starts_def
proof (intro conjI allI)
  fix k
  show "\<exists>j. fst (life (snd (recover_starts_loop now max_age flags order reg)) k) \<le> Suc (fst (life reg j))"
    by (rule exI [of _ k], cases "get_record reg k")
       (auto simp: life_def entry_or_default_def starts_loop_record swept_start_def)
  show "get_record reg k \<noteq> None \<longrightarrow> get_record (snd (recover_starts_loop now max_age flags order reg)) k \<noteq> None"
    by (simp add: starts_loop_record)
  show "life (snd (recover_starts_loop now max_age flags order reg)) k = life reg k
      \<or> lifecycle Watchdog (life reg k) (life (snd (recover_starts_loop now max_age flags order reg)) k)"
    using swept_start_life
    by (cases "get_record reg k") (auto simp: life_def entry_or_default_def starts_loop_record)
qed (rule starts_loop_epoch)

lemma recover_stale_stoppings_conforms:
  "conforms Watchdog reg (snd (recover_stale_stoppings reg now max_age flags order))"
  unfolding conforms_def recover_stale_stoppings_def
proof (intro conjI allI)
  fix k
  show "\<exists>j. fst (life (snd (recover_stoppings_loop now max_age flags order reg)) k) \<le> Suc (fst (life reg j))"
    by (rule exI [of _ k], cases "get_record reg k")
       (auto simp: life_def entry_or_default_def stoppings_loop_record swept_stop_def)
  show "get_record reg k \<noteq> None \<longrightarrow> get_record (snd (recover_stoppings_loop now max_age flags order reg)) k \<noteq> None"
    by (simp add: stoppings_loop_record)
  show "life (snd (recover_stoppings_loop now max_age flags order reg)) k = life reg k
      \<or> lifecycle Watchdog (life reg k) (life (snd (recover_stoppings_loop now max_age flags order reg)) k)"
    using swept_stop_life
    by (cases "get_record reg k") (auto simp: life_def entry_or_default_def stoppings_loop_record)
qed (rule stoppings_loop_epoch)

section \<open>Transitions of the coordinator\<close>

inductive own_step :: "RuntimeOwnershipRegistry \<Rightarrow> actor \<Rightarrow> RuntimeOwnershipRegistry \<Rightarrow> bool" where
  begin_start: "own_step reg (Operation op) (snd (begin_start reg p s kind op observed init now))"
| begin_start_window: "own_step reg (Operation op)
     (snd (begin_start_under_attach_window reg p s kind op observed init now window_op))"
| begin_handoff: "own_step reg (Operation op) (snd (begin_handoff reg p s kind op observed init now))"
| begin_acknowledged: "own_step reg (Operation op)
     (snd (begin_handoff_acknowledged_cleared_unverified reg p s kind op fence init now))"
| attach_guard: "own_step reg (Operation op) (snd (begin_attach_guard reg p s op seen init clock))"
| adopt_guard: "own_step reg (Operation op) (snd (begin_adopt_guard reg p s op expected fence init clock))"
| guard_release: "own_step reg (Operation (ag_operation_id g)) (release_window g reg)"
| commit_live: "own_step reg (Operation op) (snd (commit_live reg p s op gen owner clock))"
| commit_live_rekey: "own_step reg (Rekey op) (snd (commit_live_rekey reg p s s' op gen owner clock))"
| rekey_starting: "own_step reg (Rekey op) (snd (rekey_starting reg p s s' op gen))"
| rekey_live: "own_step reg (Rekey op) (snd (rekey_live reg p s s' expected_key owner clock))"
| rebind: "own_step reg (Rebind op)
     (snd (commit_live_rekey_from_terminal reg p s' op gen s terminal_id owner clock))"
| alias_vacant_key: "own_step reg (Rekey op) (snd (alias_vacant_key reg p s s'))"
| fail: "own_step reg (Operation op) (snd (fail reg p s op gen prior_live clock))"
| fence_handoff: "own_step reg (Operation op)
     (snd (fence_unconfirmed_handoff_with_prior reg p s op gen reason unconfirmed clock))"
| fence_stop: "own_step reg (Operation op) (snd (fence_unconfirmed_stop reg p s op gen reason clock))"
| fence_live: "own_step reg (Operation op) (snd (fence_unconfirmed_live reg p s op gen expected reason clock))"
| release_fenced: "own_step reg (Operation op) (snd (release_fenced reg p s op gen))"
| force_clear: "own_step reg Operator (snd (force_release_platform_limited reg p s fence init clock))"
| begin_stop: "own_step reg (Operation op) (snd (begin_stop reg p s op claim init now))"
| commit_stop: "own_step reg (Operation op) (snd (commit_stop reg p s op gen))"
| abort_stop: "own_step reg (Operation op) (snd (abort_stop reg p s op gen clock))"
| release: "own_step reg (Operation (rc_operation_id rclaim)) (snd (release reg p s rclaim))"
| confirmed_kill: "own_step reg (Operation (rc_operation_id rclaim))
     (force_release_for_confirmed_kill reg p s rclaim)"
| register_cancellation: "own_step reg (Operation op)
     (snd (register_start_cancellation reg p s op gen abort settle flag))"
| register_settlement: "own_step reg (Operation op) (snd (register_stop_settlement reg p s op gen stop_flag))"
| register_runtime: "own_step reg (Operation op) (register_partial_runtime reg p s op gen owner)"
| sweep_starts: "own_step reg Watchdog (snd (recover_stale_starts reg now max_age flags order))"
| sweep_stoppings: "own_step reg Watchdog (snd (recover_stale_stoppings reg now max_age flags order))"

lemmas conforms_ops =
  begin_start_inner_conforms begin_handoff_conforms begin_acknowledged_conforms
  begin_attach_guard_conforms begin_adopt_guard_conforms release_window_conforms
  commit_live_conforms commit_live_rekey_conforms rekey_starting_conforms rekey_live_conforms
  commit_live_rekey_from_terminal_conforms alias_vacant_key_conforms fail_conforms
  fence_unconfirmed_handoff_conforms fence_unconfirmed_stop_conforms fence_unconfirmed_live_conforms
  release_fenced_conforms force_release_platform_limited_conforms begin_stop_conforms
  commit_stop_conforms abort_stop_conforms release_conforms
  force_release_for_confirmed_kill_conforms register_start_cancellation_conforms
  register_stop_settlement_conforms register_partial_runtime_conforms
  recover_stale_starts_conforms recover_stale_stoppings_conforms

lemma own_step_conforms: "own_step reg a reg' \<Longrightarrow> registry_wf reg \<Longrightarrow> conforms a reg reg'"
  by (induction rule: own_step.induct)
     (simp_all add: begin_start_def begin_start_under_attach_window_def conforms_ops)

definition fresh_registry :: "RuntimeOwnershipRegistry \<Rightarrow> bool" where
  "fresh_registry reg = (\<exists>epoch. reg = with_epoch epoch)"

interpretation own: keyed_machine fresh_registry own_step life lifecycle wf_life
proof unfold_locales
  fix reg reg' :: RuntimeOwnershipRegistry and a k
  assume "own_step reg a reg'" and "\<And>j. wf_life (life reg j)"
  then have "conforms a reg reg'" by (auto simp: registry_wf_def intro: own_step_conforms)
  then show "life reg' k = life reg k \<or> lifecycle a (life reg k) (life reg' k)"
    by (simp add: conforms_def)
qed (auto simp: fresh_registry_def intro: lifecycle_wf)

lemmas own_run_single = run_single [where step = own_step]
lemmas own_run_cons = run_cons [where step = own_step]

text \<open>The registries a boot can reach: any sequence of transitions from an empty one.\<close>

definition own_reachable :: "RuntimeOwnershipRegistry \<Rightarrow> bool" where
  "own_reachable reg = (\<exists>epoch as. run_of own_step (with_epoch epoch) as reg)"

lemma own_reachable_wf: "own_reachable reg \<Longrightarrow> wf_life (life reg k)"
  unfolding own_reachable_def using own.reachable_wf fresh_registry_def by blast

lemma own_reachable_init: "own_reachable (with_epoch e)"
  unfolding own_reachable_def by (blast intro: run_of.intros)

lemma own_reachable_step: "own_reachable reg \<Longrightarrow> own_step reg a reg' \<Longrightarrow> own_reachable reg'"
  unfolding own_reachable_def by (blast intro: run_of_append run_of.intros)

lemma own_reachable_run: "own_reachable reg \<Longrightarrow> run_of own_step reg as reg' \<Longrightarrow> own_reachable reg'"
  unfolding own_reachable_def by (blast intro: run_of_append)

section \<open>A concrete session\<close>

text \<open>
  One terminal session, started and committed from an empty registry, for the closed instances of
  the theorems: its key, its owner, and the registry before the start, after it and once live.
\<close>

definition demo_key :: SessionKey where
  "demo_key = SessionKey_new ''claude'' ''s1''"

definition demo_owner :: OwnerIdentity where
  "demo_owner = \<lparr>ow_kind = Terminal, ow_terminal_id = Some ''t1'', ow_live_session_key = None,
                 ow_pid = Some 41, ow_ownership_id = Some ''op-a''\<rparr>"

definition demo_started :: RuntimeOwnershipRegistry where
  "demo_started = snd (begin_start (with_epoch 7) ''claude'' ''s1'' Terminal ''op-a'' None ''ui'' 5)"

definition demo_live :: RuntimeOwnershipRegistry where
  "demo_live = snd (commit_live demo_started ''claude'' ''s1'' ''op-a'' 1 demo_owner 9)"

definition demo_claim :: StopClaim where
  "demo_claim = \<lparr>sc_expected_kind = Terminal, sc_expected_runtime = Some demo_owner,
                 sc_observed = \<lparr>of_epoch = 7, of_generation = 1\<rparr>\<rparr>"

definition demo_stopping :: RuntimeOwnershipRegistry where
  "demo_stopping = snd (begin_stop demo_live ''claude'' ''s1'' ''op-s'' demo_claim ''ui'' 20)"

lemma demo_owner_sel [simp]:
  "ow_kind demo_owner = Terminal" "ow_terminal_id demo_owner = Some ''t1''"
  "ow_live_session_key demo_owner = None" "ow_pid demo_owner = Some 41"
  "ow_ownership_id demo_owner = Some ''op-a''" "stamp_ownership op demo_owner = demo_owner"
  by (simp_all add: demo_owner_def stamp_ownership_def)

lemma demo_claim_sel [simp]:
  "sc_expected_kind demo_claim = Terminal" "sc_expected_runtime demo_claim = Some demo_owner"
  "of_epoch (sc_observed demo_claim) = 7" "of_generation (sc_observed demo_claim) = 1"
  by (simp_all add: demo_claim_def)

lemma demo_started_eq:
  "demo_started = put_record demo_key
     (SessionRecord_default\<lparr>rec_generation := 1, rec_state := Starting Terminal ''op-a'' 1 ''ui'' 5\<rparr>)
     (with_epoch 7)"
  by (simp add: demo_started_def demo_key_def own_ops fence_is_stale_def entry_or_default_def
      SessionRecord_default_def)

lemma demo_live_eq:
  "demo_live = put_record demo_key
     (SessionRecord_default\<lparr>rec_generation := 1, rec_state := Live demo_owner 1 9\<rparr>) (with_epoch 7)"
  by (simp add: demo_live_def demo_started_eq demo_key_def commit_live_def)

lemma demo_stopping_eq:
  "demo_stopping = put_record demo_key
     (SessionRecord_default\<lparr>rec_generation := 2,
        rec_state := Stopping (Some demo_owner) (Some 1) ''op-s'' 2 ''ui'' 20\<rparr>) (with_epoch 7)"
  by (simp add: demo_stopping_def demo_live_eq demo_key_def begin_stop_def stop_identity_mismatch_def
      numeral_2_eq_2)

lemmas demo_eqs = demo_started_eq demo_live_eq demo_stopping_eq

lemma demo_started_reachable: "own_reachable demo_started"
  unfolding demo_started_def by (rule own_reachable_step [OF own_reachable_init own_step.begin_start])

lemma demo_commit_step: "own_step demo_started (Operation ''op-a'') demo_live"
  unfolding demo_live_def by (rule own_step.commit_live)

lemma demo_stop_step: "own_step demo_live (Operation ''op-s'') demo_stopping"
  unfolding demo_stopping_def by (rule own_step.begin_stop)

lemma demo_live_reachable: "own_reachable demo_live"
  by (rule own_reachable_step [OF demo_started_reachable demo_commit_step])

lemma demo_stopping_reachable: "own_reachable demo_stopping"
  by (rule own_reachable_step [OF demo_live_reachable demo_stop_step])

lemma demo_lives [simp]:
  "life demo_started demo_key = (1, Starting Terminal ''op-a'' 1 ''ui'' 5)"
  "life demo_live demo_key = (1, Live demo_owner 1 9)"
  "life demo_stopping demo_key = (2, Stopping (Some demo_owner) (Some 1) ''op-s'' 2 ''ui'' 20)"
  by (simp_all add: demo_eqs)

end
