(* ===== verification/Own_Safety.thy ===== *)
theory Own_Safety
  imports Own_System
begin

text \<open>
  What the coordinator guarantees over whole runs, in any interleaving of its operations: claims in
  flight are exclusive, a live owner is never replaced in place, a fence holds until a confirmed
  death or an acknowledged handoff, aliases are permanent, generations only grow and
  are bounded by the number of transitions.
\<close>

section \<open>What an edge of the lifecycle can do\<close>

definition in_flight :: "string \<Rightarrow> OwnershipState \<Rightarrow> bool" where
  "in_flight op st =
     (case st of
        Starting _ held _ _ _ \<Rightarrow> held = op
      | Handoff _ _ held _ _ _ \<Rightarrow> held = op
      | Stopping _ _ held _ _ _ \<Rightarrow> held = op
      | _ \<Rightarrow> False)"

definition is_live :: "OwnershipState \<Rightarrow> bool" where
  "is_live st = (case st of Live _ _ _ \<Rightarrow> True | _ \<Rightarrow> False)"

lemma lifecycle_in_flight:
  assumes "lifecycle a v v'" and "in_flight op (snd v)"
  shows "actor_operation a = Some op \<or> a = Watchdog"
  using assms by (induction rule: lifecycle.induct) (auto simp: in_flight_def)

lemma lifecycle_from_live: "lifecycle a v v' \<Longrightarrow> is_live (snd v) \<Longrightarrow> \<not> is_live (snd v')"
  by (induction rule: lifecycle.induct) (auto simp: is_live_def)

lemma lifecycle_into_live:
  assumes "lifecycle a v v'" and "is_live (snd v')"
  shows "\<exists>op. actor_operation a = Some op \<and> (in_flight op (snd v) \<or> v = (0, Vacant) \<and> a = Rekey op)"
  using assms by (induction rule: lifecycle.induct) (auto simp: is_live_def in_flight_def)

lemma lifecycle_generation: "lifecycle a v v' \<Longrightarrow> \<nexists>op. a = Rebind op \<Longrightarrow> fst v \<le> fst v'"
  by (induction rule: lifecycle.induct) auto

lemma lifecycle_aliased: "\<not> lifecycle a (g, Aliased to_id ag) v'"
  by (auto elim: from_aliased)

lemma lifecycle_makes_alias:
  "lifecycle a v (g, Aliased to_id ag) \<Longrightarrow> \<exists>op. a = Rekey op \<or> a = Rebind op"
  by (induction a v "(g, Aliased to_id ag)" rule: lifecycle.induct) auto

section \<open>Refinement\<close>

text \<open>C1: whatever operation runs next, in any state a boot can reach, moves every key along an edge of the
  abstract lifecycle or not at all, loses no record and keeps the epoch; and in every such state each
  non-live state carries its record's generation and no live owner's generation exceeds it.\<close>

theorem own_step_refines_lifecycle:
  assumes "own_reachable reg" and "own_step reg a reg'"
  shows "(life reg' k = life reg k \<or> lifecycle a (life reg k) (life reg' k))
    \<and> wf_life (life reg' k) \<and> reg_epoch reg' = reg_epoch reg
    \<and> (get_record reg k = None \<or> get_record reg' k \<noteq> None)"
proof -
  have "registry_wf reg" using own_reachable_wf assms(1) by (simp add: registry_wf_def)
  from own_step_conforms [OF assms(2) this] show ?thesis
    using own_reachable_wf [OF own_reachable_step [OF assms]] unfolding conforms_def by metis
qed

theorem own_step_refines_lifecycle_witness:
  "lifecycle (Operation ''op-a'') (life demo_started demo_key) (life demo_live demo_key)"
  using own_step_refines_lifecycle [OF demo_started_reachable demo_commit_step, of demo_key] by simp

section \<open>Claims in flight\<close>

text \<open>C2: while an operation's claim is in flight on a key (Starting, Handoff or Stopping under its
  id), no run of other actors moves the key: only that operation or the watchdog can.\<close>

theorem in_flight_claim_exclusive:
  assumes "own_reachable reg" and "run_of own_step reg as reg'"
    and "in_flight op (snd (life reg k))"
    and "\<forall>a \<in> set as. actor_operation a \<noteq> Some op \<and> a \<noteq> Watchdog"
  shows "life reg' k = life reg k"
proof -
  have "v' = life reg k" if "a \<in> set as" "lifecycle a v v'" "v = life reg k" for a v v'
    using lifecycle_in_flight [OF that(2)] assms(3,4) that(1,3) by auto
  then show ?thesis
    using own.run_invariant [OF assms(2), where P = "\<lambda>v. v = life reg k"]
      own_reachable_wf [OF assms(1)] by blast
qed

theorem in_flight_claim_exclusive_witness:
  "life (snd (begin_handoff demo_started ''claude'' ''s1'' FreshAgent ''op-b'' None ''ui'' 6)) demo_key
     = life demo_started demo_key
   \<and> in_flight ''op-a'' (snd (life demo_started demo_key))"
proof -
  have f: "in_flight ''op-a'' (snd (life demo_started demo_key))"
    by (simp add: in_flight_def)
  show ?thesis
    using in_flight_claim_exclusive
      [OF demo_started_reachable own_run_single [OF own_step.begin_handoff] f] f
    by simp
qed

text \<open>C18: a key becomes live only by a transition of the operation whose claim was in flight on it,
  or by a re-key onto a key that was never used; a live owner is never replaced in place.\<close>

theorem live_only_from_own_claim:
  assumes "own_reachable reg" and "own_step reg a reg'"
    and "is_live (snd (life reg' k))" and "life reg' k \<noteq> life reg k"
  shows "\<not> is_live (snd (life reg k))
    \<and> (\<exists>op. actor_operation a = Some op
          \<and> (in_flight op (snd (life reg k)) \<or> life reg k = (0, Vacant) \<and> a = Rekey op))"
proof -
  have "lifecycle a (life reg k) (life reg' k)"
    using own.step_edge [OF assms(2)] own_reachable_wf [OF assms(1)] assms(4) by blast
  then show ?thesis using lifecycle_from_live lifecycle_into_live assms(3) by blast
qed

theorem live_only_from_own_claim_witness:
  "is_live (snd (life demo_live demo_key)) \<and> \<not> is_live (snd (life demo_started demo_key))"
proof -
  have live: "is_live (snd (life demo_live demo_key))" by (simp add: is_live_def)
  have "life demo_live demo_key \<noteq> life demo_started demo_key" by simp
  from live_only_from_own_claim [OF demo_started_reachable demo_commit_step live this] live show ?thesis by simp
qed

section \<open>Fences\<close>

lemma lifecycle_fenced:
  assumes "lifecycle a (g, Fenced prior reason op fg init s) v'"
  shows "a = Operation op \<and> v' = (g, Vacant)
     \<or> a = Operator \<and> reason \<in> {PlatformLimited, StaleStart, StaleStop}
         \<and> (\<exists>init' t. v' = (g, Fenced prior ClearedUnverified op g init' t))
     \<or> reason = ClearedUnverified
         \<and> (\<exists>op' kind init' t. a = Operation op' \<and> v' = (Suc g, Handoff prior kind op' (Suc g) init' t))"
  using assms by (auto elim: from_fenced)

text \<open>A fenced key has three ways out, and none licenses a second writer beside the fenced one:
  a confirmed death reported under the fencing operation's id, the operator's clear of an
  unconfirmable fence into the cleared-unverified fence, and, from there only, a handoff that
  carries the unverified prior as the runtime to reap.\<close>

theorem fenced_key_exits:
  assumes "own_reachable reg" and "own_step reg a reg'"
    and "snd (life reg k) = Fenced prior reason op fg init s"
  shows "life reg' k = life reg k
     \<or> a = Operation op \<and> snd (life reg' k) = Vacant
     \<or> a = Operator \<and> reason \<in> {PlatformLimited, StaleStart, StaleStop}
         \<and> (\<exists>g init' t. snd (life reg' k) = Fenced prior ClearedUnverified op g init' t)
     \<or> reason = ClearedUnverified
         \<and> (\<exists>op' kind g init' t. a = Operation op' \<and> snd (life reg' k) = Handoff prior kind op' g init' t)"
proof (cases "life reg' k = life reg k")
  case False
  obtain g where g: "life reg k = (g, Fenced prior reason op fg init s)"
    using assms(3) by (cases "life reg k") auto
  have "lifecycle a (g, Fenced prior reason op fg init s) (life reg' k)"
    using own.step_edge [OF assms(2)] own_reachable_wf [OF assms(1)] False g by metis
  from lifecycle_fenced [OF this] show ?thesis by auto
qed simp

theorem fenced_key_exits_witness:
  "let fenced = snd (fence_unconfirmed_stop demo_stopping ''claude'' ''s1'' ''op-s'' 2 WatcherFailed 30);
       freed = snd (release_fenced fenced ''claude'' ''s1'' ''op-s'' 2)
   in snd (life fenced demo_key) = Fenced (Some (demo_owner, 1)) WatcherFailed ''op-s'' 2 ''ui'' 30
      \<and> snd (life freed demo_key) = Vacant"
proof -
  let ?f = "snd (fence_unconfirmed_stop demo_stopping ''claude'' ''s1'' ''op-s'' 2 WatcherFailed 30)"
  let ?v = "snd (release_fenced ?f ''claude'' ''s1'' ''op-s'' 2)"
  have r: "own_reachable ?f"
    by (rule own_reachable_step [OF demo_stopping_reachable own_step.fence_stop])
  have f: "snd (life ?f demo_key) = Fenced (Some (demo_owner, 1)) WatcherFailed ''op-s'' 2 ''ui'' 30"
    by (simp add: fence_unconfirmed_stop_def demo_stopping_eq demo_key_def)
  have changed: "life ?v demo_key \<noteq> life ?f demo_key"
    by (simp add: fence_unconfirmed_stop_def release_fenced_def demo_stopping_eq demo_key_def)
  from fenced_key_exits [OF r own_step.release_fenced f] changed
  have "snd (life ?v demo_key) = Vacant" by auto
  with f show ?thesis by (simp add: Let_def)
qed

text \<open>A fence the operator cannot clear (a lost reap watcher) blocks its key through any run in
  which no confirmed death is reported under the fencing operation's id.\<close>

theorem watcher_fence_persists:
  assumes "own_reachable reg" and "run_of own_step reg as reg'"
    and "life reg k = (g, Fenced prior WatcherFailed op fg init s)"
    and "Operation op \<notin> set as"
  shows "life reg' k = life reg k"
proof -
  have "v' = life reg k" if "a \<in> set as" "lifecycle a v v'" "v = life reg k" for a v v'
    using that assms(3,4) lifecycle_fenced [of a g prior WatcherFailed op fg init s v'] by auto
  then show ?thesis
    using own.run_invariant [OF assms(2), where P = "\<lambda>v. v = life reg k"]
      own_reachable_wf [OF assms(1)] by blast
qed

theorem watcher_fence_persists_witness:
  "let fenced = snd (fence_unconfirmed_stop demo_stopping ''claude'' ''s1'' ''op-s'' 2 WatcherFailed 30);
       fence = \<lparr>of_epoch = 7, of_generation = 2\<rparr>;
       cleared = snd (force_release_platform_limited fenced ''claude'' ''s1'' fence ''ui'' 40)
   in life cleared demo_key = (2, Fenced (Some (demo_owner, 1)) WatcherFailed ''op-s'' 2 ''ui'' 30)"
proof -
  let ?f = "snd (fence_unconfirmed_stop demo_stopping ''claude'' ''s1'' ''op-s'' 2 WatcherFailed 30)"
  have r: "own_reachable ?f"
    by (rule own_reachable_step [OF demo_stopping_reachable own_step.fence_stop])
  have f: "life ?f demo_key = (2, Fenced (Some (demo_owner, 1)) WatcherFailed ''op-s'' 2 ''ui'' 30)"
    by (simp add: fence_unconfirmed_stop_def demo_stopping_eq demo_key_def)
  show ?thesis
    using watcher_fence_persists [OF r own_run_single [OF own_step.force_clear] f] f
    by (simp add: Let_def)
qed

section \<open>Generations\<close>

text \<open>The generation of a key never decreases, along any run without an identity rebind.\<close>

theorem generation_monotone:
  assumes "own_reachable reg" and "run_of own_step reg as reg'"
    and "\<forall>op. Rebind op \<notin> set as"
  shows "fst (life reg k) \<le> fst (life reg' k)"
proof -
  have "fst v \<le> fst v'" if "a \<in> set as" "lifecycle a v v'" for a v v'
    using lifecycle_generation [OF that(2)] that(1) assms(3) by blast
  then show ?thesis
    using own.run_monotone [OF assms(2), where f = fst] own_reachable_wf [OF assms(1)] by blast
qed

theorem generation_monotone_witness:
  "fst (life demo_started demo_key) \<le> fst (life demo_stopping demo_key)
   \<and> fst (life demo_started demo_key) < fst (life demo_stopping demo_key)"
proof -
  have "run_of own_step demo_started [Operation ''op-a'', Operation ''op-s''] demo_stopping"
    by (rule own_run_cons [OF demo_commit_step own_run_single [OF demo_stop_step]])
  from generation_monotone [OF demo_started_reachable this, of demo_key] show ?thesis by simp
qed

text \<open>A claim that another grant has superseded can never commit: once a later claim on the key was
  granted, a commit that carries the earlier generation is refused and changes nothing.\<close>

theorem superseded_claim_cannot_commit:
  assumes "own_reachable reg"
    and "fst (begin_handoff reg p s kind op observed init now) = Granted later"
    and "earlier \<le> fst (life reg (SessionKey_new p s))"
    and "run_of own_step (snd (begin_handoff reg p s kind op observed init now)) as reg'"
    and "\<forall>op. Rebind op \<notin> set as"
  shows "earlier < later
    \<and> snd (commit_live reg' p s op' earlier owner clock) = reg'
    \<and> fst (commit_live reg' p s op' earlier owner clock) \<noteq> Committed"
proof -
  let ?k = "SessionKey_new p s" and ?reg1 = "snd (begin_handoff reg p s kind op observed init now)"
  have granted: "later = fst (life ?reg1 ?k)" "earlier < fst (life ?reg1 ?k)"
    using assms(2,3)
    by (auto simp: begin_handoff_def Let_def life_entry split: OwnershipState.splits if_splits)
  have "own_reachable ?reg1" using own_reachable_step [OF assms(1) own_step.begin_handoff] .
  from generation_monotone [OF this assms(4,5), of ?k] granted
  have later: "earlier < fst (life reg' ?k)" by simp
  then obtain r where "get_record reg' ?k = Some r" and "earlier < rec_generation r"
    by (cases "get_record reg' ?k") (auto simp: life_None life_Some)
  then show ?thesis using granted by (simp add: commit_live_def)
qed

theorem superseded_claim_cannot_commit_witness:
  "fst (begin_handoff demo_live ''claude'' ''s1'' FreshAgent ''op-h'' None ''ui'' 12) = Granted 2
   \<and> fst (commit_live (snd (begin_handoff demo_live ''claude'' ''s1'' FreshAgent ''op-h'' None ''ui'' 12))
           ''claude'' ''s1'' ''op-a'' 1 demo_owner 15) \<noteq> Committed"
proof -
  have g: "fst (begin_handoff demo_live ''claude'' ''s1'' FreshAgent ''op-h'' None ''ui'' 12) = Granted 2"
    by (simp add: begin_handoff_def demo_live_eq demo_key_def fence_is_stale_def entry_or_default_def
        numeral_2_eq_2)
  have "(1::nat) \<le> fst (life demo_live (SessionKey_new ''claude'' ''s1''))"
    by (simp add: demo_live_eq demo_key_def)
  from superseded_claim_cannot_commit [OF demo_live_reachable g this run_nil] g show ?thesis by simp
qed

text \<open>After \<open>n\<close> transitions no generation exceeds \<open>n\<close>, so the 64-bit counters of the code
  cannot wrap before \<open>2 ^ 64\<close> of them.\<close>

theorem generation_bounded_by_run:
  assumes "run_of own_step (with_epoch epoch) as reg"
  shows "fst (life reg k) \<le> length as"
proof -
  have "(\<forall>j. fst (life reg' j) \<le> n + length as)"
    if "run_of own_step reg0 as reg'" "registry_wf reg0" "\<forall>j. fst (life reg0 j) \<le> n" for reg0 reg' n
    using that
  proof (induction arbitrary: n rule: run_of.induct)
    case (run_cons s a s' as s'')
    have c: "conforms a s s'" using own_step_conforms run_cons.hyps(1) run_cons.prems(1) .
    then have "fst (life s' j) \<le> Suc n" for j
      using run_cons.prems(2) unfolding conforms_def by (meson Suc_le_mono order_trans)
    then show ?case using run_cons.IH [of "Suc n"] conforms_wf [OF c run_cons.prems(1)] by simp
  qed simp
  from this [OF assms, of 0] show ?thesis by (simp add: registry_wf_def)
qed

theorem generation_bounded_by_run_witness:
  "fst (life demo_started demo_key) \<le> length [Operation ''op-a'']"
  by (rule generation_bounded_by_run [where epoch = 7])
     (simp add: demo_started_def, rule own_run_single, rule own_step.begin_start)

section \<open>Aliases\<close>

text \<open>Once a key is aliased it stays aliased, to the same id, through every run.\<close>

lemma alias_permanent:
  assumes "own_reachable reg" and "run_of own_step reg as reg'"
    and "life reg k = (g, Aliased to_id ag)"
  shows "life reg' k = (g, Aliased to_id ag)"
proof -
  have "v' = (g, Aliased to_id ag)" if "lifecycle a v v'" "v = (g, Aliased to_id ag)" for a v v'
    using that lifecycle_aliased by blast
  then show ?thesis
    using own.run_invariant [OF assms(2), where P = "\<lambda>v. v = (g, Aliased to_id ag)" and k = k]
      own_reachable_wf [OF assms(1)] assms(3) by blast
qed

definition demo_rekeyed :: RuntimeOwnershipRegistry where
  "demo_rekeyed = snd (commit_live_rekey demo_started ''claude'' ''s1'' ''s2'' ''op-a'' 1 demo_owner 9)"

lemma demo_rekeyed_eq:
  "demo_rekeyed = put_record (SessionKey_new ''claude'' ''s2'') (live_record 1 demo_owner 9)
     (put_record demo_key (SessionRecord_default\<lparr>rec_generation := 1, rec_state := Aliased ''s2'' 1\<rparr>)
       (with_epoch 7))"
  by (simp add: demo_rekeyed_def commit_live_rekey_def demo_started_eq demo_key_def)

lemma demo_rekeyed_reachable: "own_reachable demo_rekeyed"
  unfolding demo_rekeyed_def by (rule own_reachable_step [OF demo_started_reachable own_step.commit_live_rekey])

lemma demo_rekeyed_life [simp]: "life demo_rekeyed demo_key = (1, Aliased ''s2'' 1)"
  by (simp add: demo_rekeyed_eq demo_key_def)

end
