(* ===== verification/Own_Alias.thy ===== *)
theory Own_Alias
  imports Own_Safety
begin

text \<open>
  The aliases that the re-keying moves leave behind: in every reachable registry they form an acyclic
  graph whose targets hold records, so the fixpoint walk of \<open>resolve_canonical\<close> never needs its
  visited guard and ends on the one key that holds the truth.
\<close>

definition alias_edges :: "RuntimeOwnershipRegistry \<Rightarrow> string \<Rightarrow> (string \<times> string) set" where
  "alias_edges reg p = {(s, t). aliased_to reg p s = Some t}"

definition alias_wf :: "RuntimeOwnershipRegistry \<Rightarrow> bool" where
  "alias_wf reg = (\<forall>p. acyclic (alias_edges reg p)
     \<and> (\<forall>s t. aliased_to reg p s = Some t \<longrightarrow> get_record reg (SessionKey_new p t) \<noteq> None))"

lemma aliased_to_life:
  "aliased_to reg p s = (case snd (life reg (SessionKey_new p s)) of Aliased t _ \<Rightarrow> Some t | _ \<Rightarrow> None)"
  by (cases "get_record reg (SessionKey_new p s)")
     (auto simp: aliased_to_def life_None life_Some split: OwnershipState.splits)

lemma aliased_to_put [simp]:
  "aliased_to (put_record k r reg) p s =
     (if SessionKey_new p s = k then (case rec_state r of Aliased t _ \<Rightarrow> Some t | _ \<Rightarrow> None)
      else aliased_to reg p s)"
  by (simp add: aliased_to_def)

section \<open>One transition\<close>

text \<open>A transition that adds one alias, from a key that had none, without closing a cycle.\<close>

definition alias_added ::
  "RuntimeOwnershipRegistry \<Rightarrow> RuntimeOwnershipRegistry \<Rightarrow> string \<Rightarrow> string \<Rightarrow> string \<Rightarrow> bool" where
  "alias_added reg reg' p old new =
     ((\<forall>p' s'. aliased_to reg' p' s' = (if p' = p \<and> s' = old then Some new else aliased_to reg p' s'))
      \<and> old \<noteq> new \<and> aliased_to reg p old = None
      \<and> (aliased_to reg p new = None \<or> get_record reg (SessionKey_new p old) = None)
      \<and> get_record reg' (SessionKey_new p new) \<noteq> None)"

lemma alias_added_wf:
  assumes added: "alias_added reg reg' p old new" and wf: "alias_wf reg"
    and kept: "\<And>k. get_record reg k \<noteq> None \<Longrightarrow> get_record reg' k \<noteq> None"
  shows "alias_wf reg'"
proof -
  have edges: "alias_edges reg' q = (if q = p then insert (old, new) (alias_edges reg q) else alias_edges reg q)" for q
    using added by (auto simp: alias_edges_def alias_added_def split: if_splits)
  have "(new, old) \<notin> (alias_edges reg p)\<^sup>*"
  proof
    assume path: "(new, old) \<in> (alias_edges reg p)\<^sup>*"
    have "old \<noteq> new" using added by (simp add: alias_added_def)
    with path obtain x y where "(new, x) \<in> alias_edges reg p" and "(y, old) \<in> alias_edges reg p"
      by (metis converse_rtranclE rtranclE)
    then have "aliased_to reg p new \<noteq> None" and "aliased_to reg p y = Some old"
      by (auto simp: alias_edges_def)
    then show False using added wf unfolding alias_added_def alias_wf_def by metis
  qed
  then have "acyclic (alias_edges reg' q)" for q
    using wf edges by (simp add: alias_wf_def acyclic_insert)
  moreover have "get_record reg' (SessionKey_new q t) \<noteq> None" if "aliased_to reg' q s = Some t" for q s t
    using that added wf kept by (auto simp: alias_added_def alias_wf_def split: if_splits)
  ultimately show ?thesis by (simp add: alias_wf_def)
qed

lemma alias_same_wf:
  assumes "\<And>p s. aliased_to reg' p s = aliased_to reg p s" and "alias_wf reg"
    and "\<And>k. get_record reg k \<noteq> None \<Longrightarrow> get_record reg' k \<noteq> None"
  shows "alias_wf reg'"
  using assms by (simp add: alias_wf_def alias_edges_def)

lemma other_actor_keeps_aliases:
  assumes "conforms a reg reg'" and "\<nexists>op. a = Rekey op \<or> a = Rebind op"
  shows "aliased_to reg' p s = aliased_to reg p s"
proof (cases "life reg' (SessionKey_new p s) = life reg (SessionKey_new p s)")
  case False
  then have edge: "lifecycle a (life reg (SessionKey_new p s)) (life reg' (SessionKey_new p s))"
    using assms(1) by (auto simp: conforms_def)
  have "\<not> (\<exists>t g. snd (life reg (SessionKey_new p s)) = Aliased t g)"
    using edge lifecycle_aliased by (metis prod.collapse)
  moreover have "\<not> (\<exists>t g. snd (life reg' (SessionKey_new p s)) = Aliased t g)"
    using edge assms(2) lifecycle_makes_alias by (metis prod.collapse)
  ultimately show ?thesis by (auto simp: aliased_to_life split: OwnershipState.splits)
qed (simp add: aliased_to_life)

definition alias_move :: "RuntimeOwnershipRegistry \<Rightarrow> RuntimeOwnershipRegistry \<Rightarrow> bool" where
  "alias_move reg reg' =
     ((\<forall>p s. aliased_to reg' p s = aliased_to reg p s) \<or> (\<exists>p old new. alias_added reg reg' p old new))"

lemma alias_moveI: "alias_added reg reg' p old new \<Longrightarrow> alias_move reg reg'"
  by (auto simp: alias_move_def)

lemma alias_move_refl [simp]: "alias_move reg reg"
  by (simp add: alias_move_def)

lemma commit_live_rekey_alias_move: "alias_move reg (snd (commit_live_rekey reg p old new op g owner c))"
  by (auto simp: commit_live_rekey_def Let_def alias_added_def aliased_to_def
      intro!: alias_moveI [of _ _ p old new] split: option.splits OwnershipState.splits)

lemma rekey_starting_alias_move: "alias_move reg (snd (rekey_starting reg p old new op g))"
  by (auto simp: rekey_starting_def Let_def alias_added_def aliased_to_def
      intro!: alias_moveI [of _ _ p old new] split: option.splits OwnershipState.splits)

lemma rekey_live_alias_move: "alias_move reg (snd (rekey_live reg p old new expected owner c))"
  by (auto simp: rekey_live_def Let_def alias_added_def aliased_to_def
      intro!: alias_moveI [of _ _ p old new] split: option.splits OwnershipState.splits)

lemma rebind_alias_move:
  "alias_move reg (snd (commit_live_rekey_from_terminal reg p new op g old tid owner c))"
  by (auto simp: commit_live_rekey_from_terminal_def Let_def alias_added_def aliased_to_def
      intro!: alias_moveI [of _ _ p old new] split: option.splits OwnershipState.splits)

lemma alias_vacant_key_alias_move: "alias_move reg (snd (alias_vacant_key reg p old new))"
  by (auto simp: alias_vacant_key_def Let_def alias_added_def aliased_to_def
      intro!: alias_moveI [of _ _ p old new] split: option.splits)

lemmas alias_moves =
  commit_live_rekey_alias_move rekey_starting_alias_move rekey_live_alias_move rebind_alias_move
  alias_vacant_key_alias_move

lemma own_step_alias_move:
  "own_step reg a reg' \<Longrightarrow> (\<exists>op. a = Rekey op \<or> a = Rebind op) \<Longrightarrow> alias_move reg reg'"
  by (induction rule: own_step.induct) (auto intro: alias_moves)

lemma own_step_alias_wf:
  assumes "own_step reg a reg'" and "registry_wf reg" and "alias_wf reg"
  shows "alias_wf reg'"
proof -
  have c: "conforms a reg reg'" using own_step_conforms assms(1,2) .
  then have kept: "\<And>k. get_record reg k \<noteq> None \<Longrightarrow> get_record reg' k \<noteq> None"
    by (simp add: conforms_def)
  show ?thesis
  proof (cases "\<exists>op. a = Rekey op \<or> a = Rebind op")
    case True
    then show ?thesis
      using own_step_alias_move [OF assms(1)] alias_added_wf [OF _ assms(3) kept]
        alias_same_wf [OF _ assms(3) kept] unfolding alias_move_def by metis
  next
    case False
    then show ?thesis
      using alias_same_wf [OF _ assms(3) kept] other_actor_keeps_aliases [OF c] by metis
  qed
qed

section \<open>Runs and resolution\<close>

lemma own_reachable_alias_wf:
  assumes "own_reachable reg"
  shows "alias_wf reg"
proof -
  obtain e as where "run_of own_step (with_epoch e) as reg"
    using assms by (auto simp: own_reachable_def)
  moreover have "alias_wf (with_epoch e)"
    by (simp add: alias_wf_def alias_edges_def aliased_to_def acyclic_def)
  moreover have "alias_wf reg'"
    if "run_of own_step reg0 as reg'" "registry_wf reg0" "alias_wf reg0" for reg0 reg'
    using that
  proof (induction rule: run_of.induct)
    case (run_cons s a s' as s'')
    then show ?case using own_step_alias_wf conforms_wf own_step_conforms by metis
  qed
  ultimately show ?thesis by (simp add: registry_wf_def)
qed

lemma resolve_walk_lands:
  assumes "acyclic (alias_edges reg p)" and "\<forall>v \<in> set visited. (v, cur) \<in> (alias_edges reg p)\<^sup>+"
  shows "aliased_to reg p (resolve_walk reg p visited cur) = None
    \<and> (cur, resolve_walk reg p visited cur) \<in> (alias_edges reg p)\<^sup>*"
  using assms
proof (induction reg p visited cur rule: resolve_walk.induct)
  case (1 reg p visited cur)
  have fresh: "cur \<notin> set visited" using "1.prems" by (auto simp: acyclic_def)
  show ?case
  proof (cases "aliased_to reg p cur")
    case None
    then show ?thesis using fresh by (simp add: resolve_walk.simps [of reg p visited cur])
  next
    case (Some t)
    then have e: "(cur, t) \<in> alias_edges reg p" by (simp add: alias_edges_def)
    have "\<forall>v \<in> set (cur # visited). (v, t) \<in> (alias_edges reg p)\<^sup>+"
      using e "1.prems"(2) by (auto intro: trancl_into_trancl)
    from "1.IH" [OF fresh Some "1.prems"(1) this] e Some fresh
    show ?thesis by (auto simp: resolve_walk.simps [of reg p visited cur])
  qed
qed

lemma resolve_canonical_end:
  assumes "alias_wf reg"
  shows "aliased_to reg p (resolve_canonical reg p s) = None"
    and "(s, resolve_canonical reg p s) \<in> (alias_edges reg p)\<^sup>*"
proof -
  have "acyclic (alias_edges reg p)" using assms by (simp add: alias_wf_def)
  from resolve_walk_lands [OF this, of "[]" s]
  show "aliased_to reg p (resolve_canonical reg p s) = None"
    and "(s, resolve_canonical reg p s) \<in> (alias_edges reg p)\<^sup>*"
    by (simp_all add: resolve_canonical_def)
qed

text \<open>Aliases are a function, so there is only one end to a chain.\<close>

lemma alias_end_unique:
  assumes "(s, x) \<in> (alias_edges reg p)\<^sup>*" and "aliased_to reg p x = None"
    and "(s, y) \<in> (alias_edges reg p)\<^sup>*" and "aliased_to reg p y = None"
  shows "x = y"
proof -
  have "single_valued (alias_edges reg p)" by (auto simp: single_valued_def alias_edges_def)
  then have "(x, y) \<in> (alias_edges reg p)\<^sup>* \<or> (y, x) \<in> (alias_edges reg p)\<^sup>*"
    using single_valued_confluent assms(1,3) by metis
  moreover have "z' = z" if "(z, z') \<in> (alias_edges reg p)\<^sup>*" "aliased_to reg p z = None" for z z'
    using that by (auto simp: alias_edges_def elim: converse_rtranclE)
  ultimately show ?thesis using assms(2,4) by metis
qed

lemma resolve_canonical_hop:
  assumes "alias_wf reg" and "aliased_to reg p s = Some t"
  shows "resolve_canonical reg p s = resolve_canonical reg p t"
proof -
  have "(s, t) \<in> alias_edges reg p" using assms(2) by (simp add: alias_edges_def)
  then have "(s, resolve_canonical reg p t) \<in> (alias_edges reg p)\<^sup>*"
    using resolve_canonical_end(2) [OF assms(1)] by (rule converse_rtrancl_into_rtrancl)
  then show ?thesis using alias_end_unique resolve_canonical_end [OF assms(1)] by metis
qed

lemma resolve_canonical_target:
  assumes "alias_wf reg" and "get_record reg (SessionKey_new p s) \<noteq> None"
  shows "get_record reg (SessionKey_new p (resolve_canonical reg p s)) \<noteq> None"
  using resolve_canonical_end(2) [OF assms(1), of s p]
proof (cases rule: rtranclE)
  case base
  then show ?thesis using assms(2) by metis
next
  case (step y)
  then show ?thesis using assms(1) by (auto simp: alias_wf_def alias_edges_def)
qed

text \<open>C33: in every reachable registry the aliases are acyclic and the canonical id is the end of the
  alias chain: reached from the wire id by following aliases, itself no alias, and holding a record
  whenever the wire id holds one.\<close>

theorem resolve_canonical_lands:
  assumes "own_reachable reg"
  shows "acyclic (alias_edges reg p)
    \<and> aliased_to reg p (resolve_canonical reg p s) = None
    \<and> (s, resolve_canonical reg p s) \<in> (alias_edges reg p)\<^sup>*
    \<and> (get_record reg (SessionKey_new p s) = None \<or>
        get_record reg (SessionKey_new p (resolve_canonical reg p s)) \<noteq> None)"
proof -
  have wf: "alias_wf reg" using own_reachable_alias_wf assms .
  then have "acyclic (alias_edges reg p)" by (simp add: alias_wf_def)
  then show ?thesis using resolve_canonical_end [OF wf] resolve_canonical_target [OF wf] by blast
qed

theorem resolve_canonical_lands_witness:
  "acyclic (alias_edges demo_rekeyed ''claude'')
   \<and> resolve_canonical demo_rekeyed ''claude'' ''s1'' = ''s2''"
proof -
  have "resolve_canonical demo_rekeyed ''claude'' ''s1'' = ''s2''"
    by (simp add: resolve_canonical_def resolve_walk.simps aliased_to_def demo_rekeyed_eq demo_key_def)
  then show ?thesis using resolve_canonical_lands [OF demo_rekeyed_reachable, of "''claude''"] by blast
qed

text \<open>The moment a start commits under the durable id, the old id resolves to the new one, and the
  new one is the only key of the two that names the writer.\<close>

theorem commit_live_rekey_moves_writer:
  assumes "own_reachable reg"
    and "fst (commit_live_rekey reg p old new op g owner clock) = Committed"
  shows "let reg' = snd (commit_live_rekey reg p old new op g owner clock) in
     resolve_canonical reg' p old = new
     \<and> life reg' (SessionKey_new p old) = (g, Aliased new g)
     \<and> life reg' (SessionKey_new p new) = (g, Live (stamp_ownership op owner) g clock)
     \<and> (\<forall>k. k \<noteq> SessionKey_new p old \<longrightarrow> k \<noteq> SessionKey_new p new \<longrightarrow> get_record reg' k = get_record reg k)"
proof -
  let ?reg' = "snd (commit_live_rekey reg p old new op g owner clock)"
  have shape: "old \<noteq> new \<and> life ?reg' (SessionKey_new p old) = (g, Aliased new g)
     \<and> life ?reg' (SessionKey_new p new) = (g, Live (stamp_ownership op owner) g clock)
     \<and> (\<forall>k. k \<noteq> SessionKey_new p old \<longrightarrow> k \<noteq> SessionKey_new p new \<longrightarrow> get_record ?reg' k = get_record reg k)"
    using assms(2)
    by (auto simp: commit_live_rekey_def Let_def split: option.splits OwnershipState.splits if_splits)
  then have "aliased_to ?reg' p old = Some new" "aliased_to ?reg' p new = None"
    by (simp_all add: aliased_to_life)
  then have "resolve_canonical ?reg' p old = new"
    using shape by (simp add: resolve_canonical_def resolve_walk.simps)
  then show ?thesis using shape by (simp add: Let_def)
qed

theorem commit_live_rekey_moves_writer_witness:
  "resolve_canonical demo_rekeyed ''claude'' ''s1'' = ''s2''
   \<and> life demo_rekeyed (SessionKey_new ''claude'' ''s2'') = (1, Live demo_owner 1 9)"
proof -
  have "fst (commit_live_rekey demo_started ''claude'' ''s1'' ''s2'' ''op-a'' 1 demo_owner 9) = Committed"
    by (simp add: commit_live_rekey_def demo_started_eq demo_key_def)
  from commit_live_rekey_moves_writer [OF demo_started_reachable this, folded demo_rekeyed_def]
  show ?thesis by (simp add: Let_def)
qed

end
