(* ===== verification/Own_Claims.thy ===== *)
theory Own_Claims
  imports Own_Alias
begin

text \<open>
  What each operation grants, refuses and leaves behind: the fences, the claims and their failure, the
  attach windows, and the operation ticket.
\<close>

section \<open>Fences\<close>

text \<open>Where a key stands at or above a generation: its own, its live owner's, and the one an
  aborted stop would restore.\<close>

fun settled_above :: "nat \<Rightarrow> life \<Rightarrow> bool" where
  "settled_above n (g, Live owner lg s) = (n \<le> g \<and> n \<le> lg)"
| "settled_above n (g, Stopping owner (Some pg) op sg init s) = (n \<le> g \<and> n \<le> pg)"
| "settled_above n (g, st) = (n \<le> g)"

lemma settled_above_generation: "settled_above n v \<Longrightarrow> n \<le> fst v"
  by (induction n v rule: settled_above.induct) auto

lemma settled_above_step:
  "lifecycle a v v' \<Longrightarrow> settled_above n v \<Longrightarrow> 0 < n \<Longrightarrow> settled_above n v'"
  by (induction rule: lifecycle.induct) (auto dest: settled_above_generation)

lemma settled_above_current:
  assumes "settled_above n (life reg key)" and "0 < n"
  shows "n \<le> current_generation reg key"
  using assms
  by (cases "get_record reg key"; cases "snd (life reg key)")
     (auto simp: life_None life_Some current_generation_def snapshot_generation_def
       dest: settled_above_generation)

lemma stale_fence_refused:
  assumes "fence_is_stale reg (SessionKey_new p s) observed"
  shows "begin_start_inner reg p s kind op observed init now w =
      (Begin_StaleGeneration (reg_epoch reg) (current_generation reg (SessionKey_new p s)), reg)"
    and "begin_handoff reg p s kind op observed init now =
      (Begin_StaleGeneration (reg_epoch reg) (current_generation reg (SessionKey_new p s)), reg)"
  using assms by (simp_all add: begin_start_inner_def begin_handoff_def)

lemma begin_handoff_granted_life:
  assumes "fst (begin_handoff reg p s kind op observed init now) = Granted n"
  shows "\<exists>prior. life (snd (begin_handoff reg p s kind op observed init now)) (SessionKey_new p s)
      = (n, Handoff prior kind op n init now) \<and> 0 < n"
  using assms
  by (auto simp: begin_handoff_def Let_def life_entry split: OwnershipState.splits if_splits)

text \<open>C31: a granted handoff outdates every fence taken before it, for good: whatever happens to the key
  afterwards (commit, failure, restored owner, aborted stops, re-keys), a start or a handoff that
  presents a generation below the grant's is refused as stale and changes nothing.\<close>

theorem granted_handoff_outdates_fences:
  assumes "own_reachable reg"
    and "fst (begin_handoff reg p s kind op observed init now) = Granted n"
    and "run_of own_step (snd (begin_handoff reg p s kind op observed init now)) as reg'"
    and "of_generation old_fence < n"
  shows "let stale = Begin_StaleGeneration (reg_epoch reg')
                       (current_generation reg' (SessionKey_new p s))
     in begin_start reg' p s kind' op' (Some old_fence) init' now' = (stale, reg')
        \<and> begin_handoff reg' p s kind' op' (Some old_fence) init' now' = (stale, reg')"
proof -
  let ?k = "SessionKey_new p s" and ?reg1 = "snd (begin_handoff reg p s kind op observed init now)"
  have "own_reachable ?reg1" using own_reachable_step [OF assms(1) own_step.begin_handoff] .
  moreover have "settled_above n (life ?reg1 ?k)" and "0 < n"
    using begin_handoff_granted_life [OF assms(2)] by auto
  ultimately have "settled_above n (life reg' ?k)"
    using own.run_invariant [OF assms(3), where P = "settled_above n" and k = ?k]
      own_reachable_wf settled_above_step by blast
  then have "n \<le> current_generation reg' ?k" using settled_above_current \<open>0 < n\<close> by blast
  then have "fence_is_stale reg' ?k (Some old_fence)"
    using assms(4) by (simp add: fence_is_stale_def)
  then show ?thesis by (simp add: stale_fence_refused begin_start_def Let_def)
qed

theorem granted_handoff_outdates_fences_witness:
  "fst (begin_start (snd (begin_handoff demo_live ''claude'' ''s1'' FreshAgent ''op-h'' None ''ui'' 12))
     ''claude'' ''s1'' Terminal ''op-z'' (Some \<lparr>of_epoch = 7, of_generation = 1\<rparr>) ''ui'' 13)
   = Begin_StaleGeneration 7 2"
proof -
  let ?reg1 = "snd (begin_handoff demo_live ''claude'' ''s1'' FreshAgent ''op-h'' None ''ui'' 12)"
  have g: "fst (begin_handoff demo_live ''claude'' ''s1'' FreshAgent ''op-h'' None ''ui'' 12) = Granted 2"
    by (simp add: begin_handoff_def demo_live_eq demo_key_def fence_is_stale_def entry_or_default_def
        numeral_2_eq_2)
  have "reg_epoch ?reg1 = 7 \<and> current_generation ?reg1 (SessionKey_new ''claude'' ''s1'') = 2"
    by (simp add: begin_handoff_def demo_live_eq demo_key_def fence_is_stale_def entry_or_default_def
        current_generation_def snapshot_generation_def numeral_2_eq_2)
  with granted_handoff_outdates_fences [OF demo_live_reachable g run_nil,
      of "\<lparr>of_epoch = 7, of_generation = 1\<rparr>"]
  show ?thesis by (simp add: Let_def)
qed

text \<open>The fence that a snapshot of a key reports is accepted by a start and a handoff on the
  unchanged registry, and matches a live owner exactly, as an adopt guard requires.\<close>

theorem observed_fence_accepted:
  "let snap = observe reg p s;
       fence = \<lparr>of_epoch = snap_epoch snap, of_generation = snap_generation snap\<rparr>
   in \<not> fence_is_stale reg (SessionKey_new p s) (Some fence)
      \<and> snap_state snap = snd (life reg (SessionKey_new p s))
      \<and> (case snap_state snap of
           Live owner g since \<Rightarrow>
             fst (begin_adopt_guard reg p s op owner fence init now) = Armed (new_guard p s op g now init)
         | _ \<Rightarrow> True)"
  by (auto simp: observe_def Let_def fence_is_stale_def current_generation_def snapshot_generation_def
      life_None life_Some begin_adopt_guard_def identity_mismatch_def
      split: option.splits OwnershipState.splits)

section \<open>Claims\<close>

text \<open>While a claim is in flight on a key, every other operation's start, handoff and stop on it is
  refused, and the refusal leaves the key where it was; no caller is told to adopt an owner.\<close>

theorem in_flight_claim_blocks_others:
  assumes "in_flight op (snd (life reg (SessionKey_new p s)))" and "op' \<noteq> op"
  shows "(\<exists>g st retry. fst (begin_start reg p s kind op' observed init now)
            \<in> {Begin_StaleGeneration (reg_epoch reg) g, Blocked st retry})
    \<and> (\<exists>g st retry. fst (begin_handoff reg p s kind op' observed init now)
            \<in> {Begin_StaleGeneration (reg_epoch reg) g, Blocked st retry})
    \<and> (\<exists>st retry. fst (begin_stop reg p s op' claim init now) \<in> {NotLive st, BlockedHandoff st retry})
    \<and> snd (begin_start reg p s kind op' observed init now) = reg
    \<and> snd (begin_handoff reg p s kind op' observed init now) = reg
    \<and> snd (begin_stop reg p s op' claim init now) = reg"
proof -
  obtain r where r: "get_record reg (SessionKey_new p s) = Some r"
    using assms(1) by (cases "get_record reg (SessionKey_new p s)") (auto simp: life_None in_flight_def)
  show ?thesis
    using assms r
    by (auto simp: life_Some in_flight_def begin_start_def begin_start_inner_def begin_handoff_def
        begin_stop_def entry_or_default_def put_record_same Let_def split: OwnershipState.splits)
qed

theorem in_flight_claim_blocks_others_witness:
  "\<exists>g st retry. fst (begin_start demo_started ''claude'' ''s1'' Terminal ''op-b'' None ''ui'' 6)
     \<in> {Begin_StaleGeneration 7 g, Blocked st retry}"
proof -
  have "in_flight ''op-a'' (snd (life demo_started (SessionKey_new ''claude'' ''s1'')))"
    by (simp add: demo_started_eq demo_key_def in_flight_def)
  from in_flight_claim_blocks_others [OF this, of "''op-b''"]
  show ?thesis by (simp add: demo_started_eq)
qed

text \<open>The operation that holds an in-flight start can repeat its request: it gets its own claim
  back, at the same generation, and the registry is as before.\<close>

lemma begin_start_idempotent:
  assumes "fst (begin_start reg p s kind op observed init now) = Granted g"
  shows "begin_start (snd (begin_start reg p s kind op observed init now)) p s kind op None init' now'
    = (Granted g, snd (begin_start reg p s kind op observed init now))"
  using assms
  by (auto simp: begin_start_def begin_start_inner_def Let_def fence_is_stale_def
      split: OwnershipState.splits if_splits)

text \<open>A handoff that fails gives the key back to the prior owner only when the caller confirmed that
  owner live, at the handoff's generation; in every other failure the key is vacant.\<close>

theorem failed_handoff_outcome:
  assumes "fst (begin_handoff reg p s kind op observed init now) = Granted n"
  shows "let handed = snd (begin_handoff reg p s kind op observed init now);
             prior = (case snd (life reg (SessionKey_new p s)) of Live owner g t \<Rightarrow> Some owner | _ \<Rightarrow> None)
         in life (snd (fail handed p s op n live clock)) (SessionKey_new p s) =
              (n, case prior of Some owner \<Rightarrow> if live then Live owner n clock else Vacant
                  | None \<Rightarrow> Vacant)
            \<and> fst (fail handed p s op n live clock) =
                (case prior of Some owner \<Rightarrow> if live then RestoredPriorOwner else Fail_Vacant PriorNotLive
                 | None \<Rightarrow> Fail_Vacant NoPrior)"
  using assms
  by (auto simp: begin_handoff_def fail_def Let_def life_entry split: OwnershipState.splits if_splits)

theorem failed_handoff_outcome_witness:
  "life (snd (fail (snd (begin_handoff demo_live ''claude'' ''s1'' FreshAgent ''op-h'' None ''ui'' 12))
     ''claude'' ''s1'' ''op-h'' 2 True 14)) demo_key = (2, Live demo_owner 2 14)"
proof -
  have g: "fst (begin_handoff demo_live ''claude'' ''s1'' FreshAgent ''op-h'' None ''ui'' 12) = Granted 2"
    by (simp add: begin_handoff_def demo_live_eq demo_key_def fence_is_stale_def entry_or_default_def
        numeral_2_eq_2)
  from failed_handoff_outcome [OF g, of True 14] show ?thesis
    by (simp add: Let_def demo_key_def [symmetric])
qed

text \<open>A granted stop has two ends. A commit vacates the key; an abort gives it back to the same
  owner at the generation its holders know, so a stop claim minted before the aborted one is honoured
  again. Whichever comes first, the other is refused without effect.\<close>

theorem stop_has_one_end:
  assumes "fst (begin_stop reg p s op claim init now) = Stop_Granted g"
  shows "\<exists>owner lg since. life reg (SessionKey_new p s) = (g - 1, Live owner lg since) \<and> 0 < g
    \<and> (let stopping = snd (begin_stop reg p s op claim init now);
           committed = snd (commit_stop stopping p s op g);
           aborted = snd (abort_stop stopping p s op g clock)
       in life committed (SessionKey_new p s) = (g, Vacant)
          \<and> life aborted (SessionKey_new p s) = (g, Live owner lg clock)
          \<and> abort_stop committed p s op g clock' = (Abort_ForeignOperation, committed)
          \<and> commit_stop aborted p s op g = (Commit_ForeignOperation, aborted)
          \<and> fst (begin_stop aborted p s op' claim init' now') = Stop_Granted (Suc g))"
proof -
  let ?k = "SessionKey_new p s"
  obtain r where r: "get_record reg ?k = Some r"
    using assms by (cases "get_record reg ?k") (auto simp: begin_stop_def)
  then obtain owner lg since where live: "rec_state r = Live owner lg since"
    using assms by (auto simp: begin_stop_def Let_def split: OwnershipState.splits)
  from assms r live show ?thesis
    by (auto simp: begin_stop_def commit_stop_def abort_stop_def Let_def life_Some split: if_splits)
qed

theorem stop_has_one_end_witness:
  "life (snd (abort_stop demo_stopping ''claude'' ''s1'' ''op-s'' 2 25)) demo_key = (2, Live demo_owner 1 25)"
proof -
  have g: "fst (begin_stop demo_live ''claude'' ''s1'' ''op-s'' demo_claim ''ui'' 20) = Stop_Granted 2"
    by (simp add: begin_stop_def demo_live_eq demo_key_def stop_identity_mismatch_def numeral_2_eq_2)
  from stop_has_one_end [OF g, of 25] show ?thesis
    by (simp add: Let_def demo_key_def [symmetric] demo_stopping_def [symmetric])
qed

text \<open>C35: no refusal writes: each operation that ends, moves, fences or releases a claim either reports
  success or returns the registry it was given.\<close>

theorem refusals_change_nothing:
  "(fst (commit_live reg p s op g owner c) = Committed \<or> snd (commit_live reg p s op g owner c) = reg)
   \<and> (fst (commit_live_rekey reg p s s' op g owner c) = Committed
        \<or> snd (commit_live_rekey reg p s s' op g owner c) = reg)
   \<and> (fst (rekey_starting reg p s s' op g) = Committed \<or> snd (rekey_starting reg p s s' op g) = reg)
   \<and> (fst (rekey_live reg p s s' lk owner c) = Committed \<or> snd (rekey_live reg p s s' lk owner c) = reg)
   \<and> (fst (commit_live_rekey_from_terminal reg p s op g s' tid owner c) = Committed
        \<or> snd (commit_live_rekey_from_terminal reg p s op g s' tid owner c) = reg)
   \<and> (fst (alias_vacant_key reg p s s') = Committed \<or> snd (alias_vacant_key reg p s s') = reg)
   \<and> (fst (release_fenced reg p s op g) = Committed \<or> snd (release_fenced reg p s op g) = reg)
   \<and> (fst (commit_stop reg p s op g) = Committed \<or> snd (commit_stop reg p s op g) = reg)
   \<and> (fst (abort_stop reg p s op g c) = Aborted \<or> snd (abort_stop reg p s op g c) = reg)
   \<and> (fst (fail reg p s op g live c) = Fail_ForeignOperation \<longleftrightarrow>
        snd (fail reg p s op g live c) = reg)
   \<and> (fst (fence_unconfirmed_handoff_with_prior reg p s op g reason u c) = Fence_Fenced
        \<or> snd (fence_unconfirmed_handoff_with_prior reg p s op g reason u c) = reg)
   \<and> (fst (fence_unconfirmed_stop reg p s op g reason c) = Fence_Fenced
        \<or> snd (fence_unconfirmed_stop reg p s op g reason c) = reg)
   \<and> (fst (fence_unconfirmed_live reg p s op g owner reason c) = Fence_Fenced
        \<or> snd (fence_unconfirmed_live reg p s op g owner reason c) = reg)
   \<and> (fst (force_release_platform_limited reg p s fence init c) = Force_Released
        \<or> snd (force_release_platform_limited reg p s fence init c) = reg)
   \<and> (fst (release reg p s claim) \<or> snd (release reg p s claim) = reg)"
proof -
  have changed: "put_record k r' reg \<noteq> reg" if "get_record reg k = Some r" "rec_state r' \<noteq> rec_state r" for k r r'
    using that get_put_record [of k r' reg k] by (metis option.inject)
  have "fst (fail reg p s op g live c) = Fail_ForeignOperation \<longleftrightarrow> snd (fail reg p s op g live c) = reg"
    by (auto simp: fail_def Let_def changed split: option.splits OwnershipState.splits)
  then show ?thesis
    by (intro conjI)
       (auto simp: commit_ops release_fenced_def commit_stop_def abort_stop_def release_def
          fence_unconfirmed_handoff_with_prior_def fence_unconfirmed_stop_def fence_unconfirmed_live_def
          force_release_platform_limited_def Let_def split: option.splits OwnershipState.splits)
qed

section \<open>Attach windows\<close>

text \<open>An armed attach window holds its live owner in place: until it closes, no handoff and no stop
  is granted on the key. Closing it restores the record, and a second close does nothing.\<close>

theorem attach_window_holds_owner:
  assumes "fst (begin_attach_guard reg p s op seen init clock) = Armed guard"
    and "get_record reg (SessionKey_new p s) = Some r"
    and "rec_in_flight_attaches r < u32_max" and "op \<notin> set (rec_armed_attach_ops r)"
  shows "let armed = snd (begin_attach_guard reg p s op seen init clock);
             closed = guard_disarm guard armed
         in fst (begin_handoff armed p s kind op' None init' now) = Blocked (rec_state r) OWNERSHIP_RETRY_AFTER_MS
            \<and> fst (begin_stop armed p s op' claim init' now) = BlockedHandoff (rec_state r) OWNERSHIP_RETRY_AFTER_MS
            \<and> snd closed = reg
            \<and> guard_drop (fst closed) (snd closed) = reg"
proof -
  let ?k = "SessionKey_new p s" and ?armed = "snd (begin_attach_guard reg p s op seen init clock)"
  obtain owner g since where live: "rec_state r = Live owner g since"
    using assms(1,2) by (auto simp: begin_attach_guard_def split: OwnershipState.splits)
  have armed: "?armed = put_record ?k (arm_window op r) reg"
    and guard: "guard = new_guard p s op g clock init"
    using assms(1,2) live
    by (auto simp: begin_attach_guard_def snapshot_generation_def Let_def split: if_splits)
  have "close_window op (arm_window op r) = r"
    using assms(3,4) by (simp add: close_window_def arm_window_def saturating_add_u32_exact)
  then have "snd (guard_disarm guard ?armed) = reg"
    using assms(2) by (simp add: guard_disarm_def release_window_def guard armed new_guard_def put_record_same)
  moreover have "guard_drop (fst (guard_disarm guard ?armed)) reg = reg"
    by (simp add: guard_disarm_def guard_drop_def)
  ultimately show ?thesis
    using live by (simp add: armed begin_handoff_def begin_stop_def fence_is_stale_def
        entry_or_default_def Let_def)
qed

theorem attach_window_holds_owner_witness:
  "fst (begin_stop (snd (begin_attach_guard demo_live ''claude'' ''s1'' ''op-w'' None ''ui'' 11))
     ''claude'' ''s1'' ''op-s'' demo_claim ''ui'' 12)
   = BlockedHandoff (Live demo_owner 1 9) OWNERSHIP_RETRY_AFTER_MS"
proof -
  let ?r = "SessionRecord_default\<lparr>rec_generation := 1, rec_state := Live demo_owner 1 9\<rparr>"
  have r: "get_record demo_live (SessionKey_new ''claude'' ''s1'') = Some ?r"
    by (simp add: demo_live_eq demo_key_def)
  have g: "fst (begin_attach_guard demo_live ''claude'' ''s1'' ''op-w'' None ''ui'' 11)
     = Armed (new_guard ''claude'' ''s1'' ''op-w'' 1 11 ''ui'')"
    by (simp add: begin_attach_guard_def r snapshot_generation_def)
  have "rec_in_flight_attaches ?r < u32_max" "''op-w'' \<notin> set (rec_armed_attach_ops ?r)"
    by (simp_all add: u32_max_def)
  from attach_window_holds_owner [OF g r this, of Terminal "''op-s''" "''ui''" 12 demo_claim]
  show ?thesis by (simp add: Let_def)
qed

text \<open>On a vacant key a start is granted exactly when no attach window is open or the caller names
  an open window's own operation; every other window blocks it.\<close>

theorem vacant_start_granted_iff:
  assumes "snd (life reg (SessionKey_new p s)) = Vacant"
  shows "(fst (begin_start_inner reg p s kind op None init now window_op)
            = Granted (Suc (fst (life reg (SessionKey_new p s)))))
     = (rec_in_flight_attaches (entry_or_default reg (SessionKey_new p s)) = 0
        \<or> (\<exists>w. window_op = Some w
              \<and> w \<in> set (rec_armed_attach_ops (entry_or_default reg (SessionKey_new p s)))))"
  using assms
  by (auto simp: begin_start_inner_def fence_is_stale_def Let_def life_entry split: option.splits)

theorem vacant_start_granted_iff_witness:
  "fst (begin_start_inner (with_epoch 7) ''claude'' ''s1'' Terminal ''op-a'' None ''ui'' 5 None) = Granted 1"
  using vacant_start_granted_iff [of "with_epoch 7" "''claude''" "''s1''" Terminal "''op-a''" "''ui''" 5 None]
  by (simp add: entry_or_default_def)

section \<open>The operation ticket\<close>

lemma begin_start_granted_life:
  assumes "registry_wf reg" and "fst (begin_start reg p s kind op observed init now) = Granted g"
  shows "(\<exists>i t. life (snd (begin_start reg p s kind op observed init now)) (SessionKey_new p s)
             = (g, Starting kind op g i t))
       \<or> (\<exists>prior i t. life (snd (begin_start reg p s kind op observed init now)) (SessionKey_new p s)
             = (g, Handoff prior kind op g i t))"
proof -
  have "wf_life (life reg (SessionKey_new p s))" using assms(1) by (simp add: registry_wf_def)
  then show ?thesis
    using assms(2)
    by (auto simp: begin_start_def begin_start_inner_def Let_def life_entry
        split: OwnershipState.splits if_splits)
qed

lemma ticket_drop_in_flight:
  assumes "life reg (SessionKey_new p s) = (g, st)"
    and "st = Starting kind op g i t \<or> st = Handoff prior kind op g i t"
    and "\<not> tk_disarmed ticket" and "tk_provider ticket = p" and "tk_session_id ticket = s"
    and "tk_operation_id ticket = op" and "tk_generation ticket = g"
  shows "life (ticket_drop ticket reg c) (SessionKey_new p s) = (g, Vacant)"
proof -
  obtain r where "get_record reg (SessionKey_new p s) = Some r"
    using assms(1,2) by (cases "get_record reg (SessionKey_new p s)") (auto simp: life_None)
  then show ?thesis
    using assms by (auto simp: ticket_drop_def fail_def Let_def life_Some split: option.splits)
qed

lemma ticket_drop_settled:
  assumes "\<not> in_flight (tk_operation_id ticket) (snd (life reg (SessionKey_new (tk_provider ticket) (tk_session_id ticket))))"
  shows "ticket_drop ticket reg c = reg"
  using assms
  by (auto simp: ticket_drop_def fail_def Let_def life_Some in_flight_def split: option.splits OwnershipState.splits)

text \<open>A granted start whose ticket is dropped releases its key, on every path: the key is vacant at
  the claim's generation; dropping again, dropping a disarmed ticket and dropping it after the
  claim was committed change nothing.\<close>

theorem ticket_drop_releases_claim:
  assumes "own_reachable reg"
    and "fst (begin_start reg p s kind op observed init now) = Granted g"
  shows "let started = snd (begin_start reg p s kind op observed init now);
             ticket = OperationTicket_new p s op kind g init;
             dropped = ticket_drop ticket started clock;
             committed = snd (commit_live started p s op g owner clock)
         in life dropped (SessionKey_new p s) = (g, Vacant)
            \<and> ticket_drop ticket dropped clock' = dropped
            \<and> ticket_drop (ticket_disarm ticket) started clock = started
            \<and> (fst (commit_live started p s op g owner clock) \<noteq> Committed
               \<or> ticket_drop ticket committed clock' = committed)"
proof -
  let ?started = "snd (begin_start reg p s kind op observed init now)"
  let ?ticket = "OperationTicket_new p s op kind g init"
  have "registry_wf reg" using assms(1) own_reachable_wf by (simp add: registry_wf_def)
  then obtain st prior i t where "life ?started (SessionKey_new p s) = (g, st)"
    and "st = Starting kind op g i t \<or> st = Handoff prior kind op g i t"
    using begin_start_granted_life [OF _ assms(2)] by blast
  then have dropped: "life (ticket_drop ?ticket ?started clock) (SessionKey_new p s) = (g, Vacant)"
    by (rule ticket_drop_in_flight) (simp_all add: OperationTicket_new_def)
  then have "ticket_drop ?ticket (ticket_drop ?ticket ?started clock) clock'
      = ticket_drop ?ticket ?started clock"
    by (intro ticket_drop_settled) (simp add: OperationTicket_new_def in_flight_def)
  moreover have "ticket_drop ?ticket (snd (commit_live ?started p s op g owner clock)) clock'
      = snd (commit_live ?started p s op g owner clock)"
    if "fst (commit_live ?started p s op g owner clock) = Committed"
    using that
    by (intro ticket_drop_settled)
       (auto simp: OperationTicket_new_def in_flight_def commit_live_def Let_def
         split: option.splits if_splits)
  ultimately show ?thesis using dropped by (auto simp: Let_def ticket_drop_def ticket_disarm_def)
qed

theorem ticket_drop_releases_claim_witness:
  "life (ticket_drop (OperationTicket_new ''claude'' ''s1'' ''op-a'' Terminal 1 ''ui'') demo_started 8) demo_key
   = (1, Vacant)"
proof -
  have "fst (begin_start (with_epoch 7) ''claude'' ''s1'' Terminal ''op-a'' None ''ui'' 5) = Granted 1"
    by (simp add: begin_start_def begin_start_inner_def fence_is_stale_def entry_or_default_def)
  from ticket_drop_releases_claim [OF own_reachable_init this, of 8]
  show ?thesis by (simp add: Let_def demo_started_def demo_key_def)
qed

end
