(* ===== verification/Own_Recovery.thy ===== *)
theory Own_Recovery
  imports Own_Claims
begin

text \<open>
  What happens when an operation does not end by itself: the watchdog's sweeps and the way back from a
  stale start, the moves of an in-flight claim, the replay a reconnecting client is sent, and the
  corners where the code departs from its documentation.
\<close>

section \<open>The sweeps\<close>

definition start_report :: "SessionKey \<Rightarrow> SessionRecord \<Rightarrow> RecoveredStart list" where
  "start_report key r =
     (case rec_state r of
        Starting kind op g init since \<Rightarrow>
          [\<lparr>rs_provider = sk_provider key, rs_session_id = sk_session_id key, rs_operation_id = op,
            rs_generation = g, rs_kind = kind, rs_initiator = init, rs_since_ms = since,
            rs_cancellation = rec_cancellation r, rs_settle = rec_settle r,
            rs_partial_runtime = rec_partial_runtime r\<rparr>]
      | _ \<Rightarrow> [])"

definition sweep_reports ::
  "nat \<Rightarrow> nat \<Rightarrow> flag_memory \<Rightarrow> RuntimeOwnershipRegistry \<Rightarrow> SessionKey \<Rightarrow> RecoveredStart list" where
  "sweep_reports now max_age flags reg key =
     (case get_record reg key of
        None \<Rightarrow> []
      | Some r \<Rightarrow> if start_due now max_age flags r then start_report key r else [])"

lemma starts_loop_Cons_reports:
  "fst (recover_starts_loop now max_age flags (key # keys) reg) =
     sweep_reports now max_age flags reg key
     @ fst (recover_starts_loop now max_age flags keys
         (case get_record reg key of
            None \<Rightarrow> reg
          | Some r \<Rightarrow> put_record key (swept_start now max_age flags r) reg))"
  by (auto simp: sweep_reports_def start_report_def swept_start_def start_due_def put_record_same Let_def
      split: option.splits OwnershipState.splits prod.splits)

lemma starts_loop_reports:
  "distinct order \<Longrightarrow> fst (recover_starts_loop now max_age flags order reg) =
     concat (map (sweep_reports now max_age flags reg) order)"
proof (induction order arbitrary: reg)
  case (Cons key keys)
  have "concat (map (sweep_reports now max_age flags (put_record key r reg)) keys)
      = concat (map (sweep_reports now max_age flags reg) keys)" for r
    using Cons.prems by (intro arg_cong [where f = concat] map_cong) (auto simp: sweep_reports_def)
  then show ?case
    using Cons by (simp add: starts_loop_Cons_reports del: recover_starts_loop.simps(2) split: option.splits)
qed simp

text \<open>The sweep of stale starts does the same whatever order the map is iterated in: it parks
  exactly the starts that are over age and have no handler still running, reports exactly those,
  and leaves every other record as it was.\<close>

theorem sweep_starts_exact:
  assumes "distinct order" and "set order = fset (fmdom (reg_inner reg))"
  shows "get_record (snd (recover_stale_starts reg now max_age flags order)) key
       = map_option (\<lambda>r. if start_due now max_age flags r
                         then r\<lparr>rec_cancellation := None, rec_settle := None, rec_partial_runtime := None,
                                rec_state := (case rec_state r of
                                   Starting _ op g init since \<Rightarrow>
                                     Stopping (rec_partial_runtime r) None op g init since
                                 | st \<Rightarrow> st)\<rparr>
                         else r) (get_record reg key)
    \<and> (r \<in> set (fst (recover_stale_starts reg now max_age flags order))) =
        (\<exists>key s. get_record reg key = Some s \<and> start_due now max_age flags s \<and> r \<in> set (start_report key s))"
proof
  have mem: "get_record reg key \<noteq> None \<longleftrightarrow> key \<in> set order" for key
    using assms(2) by (auto simp: get_record_def fmlookup_dom_iff)
  from this [of key] show "get_record (snd (recover_stale_starts reg now max_age flags order)) key
       = map_option (\<lambda>r. if start_due now max_age flags r
                         then r\<lparr>rec_cancellation := None, rec_settle := None, rec_partial_runtime := None,
                                rec_state := (case rec_state r of
                                   Starting _ op g init since \<Rightarrow>
                                     Stopping (rec_partial_runtime r) None op g init since
                                 | st \<Rightarrow> st)\<rparr>
                         else r) (get_record reg key)"
    by (cases "get_record reg key")
       (auto simp: recover_stale_starts_def starts_loop_record swept_start_def)
  have "(r \<in> set (fst (recover_stale_starts reg now max_age flags order))) =
      (\<exists>key \<in> set order. r \<in> set (sweep_reports now max_age flags reg key))"
    by (simp add: recover_stale_starts_def starts_loop_reports assms(1))
  also have "\<dots> = (\<exists>key s. get_record reg key = Some s \<and> start_due now max_age flags s
      \<and> r \<in> set (start_report key s))"
  proof
    assume "\<exists>key \<in> set order. r \<in> set (sweep_reports now max_age flags reg key)"
    then show "\<exists>key s. get_record reg key = Some s \<and> start_due now max_age flags s
        \<and> r \<in> set (start_report key s)"
      by (auto simp: sweep_reports_def split: option.splits if_splits) metis
  next
    assume "\<exists>key s. get_record reg key = Some s \<and> start_due now max_age flags s
        \<and> r \<in> set (start_report key s)"
    then obtain key s where "get_record reg key = Some s" "start_due now max_age flags s"
        "r \<in> set (start_report key s)" by blast
    then show "\<exists>key \<in> set order. r \<in> set (sweep_reports now max_age flags reg key)"
      using mem [of key] by (intro bexI [of _ key]) (simp_all add: sweep_reports_def)
  qed
  finally show "(r \<in> set (fst (recover_stale_starts reg now max_age flags order))) =
      (\<exists>key s. get_record reg key = Some s \<and> start_due now max_age flags s
        \<and> r \<in> set (start_report key s))" .
qed

theorem sweep_starts_exact_witness:
  "get_record (snd (recover_stale_starts demo_started 50 30 (\<lambda>f. False) [demo_key])) demo_key =
     Some (SessionRecord_default\<lparr>rec_generation := 1, rec_state := Stopping None None ''op-a'' 1 ''ui'' 5\<rparr>)"
proof -
  have "set [demo_key] = fset (fmdom (reg_inner demo_started))"
    by (simp add: demo_started_eq put_record_def with_epoch_def)
  from conjunct1 [OF sweep_starts_exact [OF _ this, of 50 30 "\<lambda>f. False" demo_key undefined]]
  show ?thesis
    by (simp add: demo_started_eq start_due_def handler_running_def SessionRecord_default_def)
qed

text \<open>Neither the watchdog nor the operator's clear ever frees a key on its own: through any run of
  the two, a key that was neither vacant nor live stays neither.\<close>

theorem unattended_key_never_freed:
  assumes "own_reachable reg" and "run_of own_step reg as reg'"
    and "\<forall>a \<in> set as. actor_operation a = None"
    and "snd (life reg k) \<noteq> Vacant" and "\<not> is_live (snd (life reg k))"
  shows "snd (life reg' k) \<noteq> Vacant \<and> \<not> is_live (snd (life reg' k))"
proof -
  have "snd v' \<noteq> Vacant \<and> \<not> is_live (snd v')"
    if "lifecycle a v v'" "actor_operation a = None" "snd v \<noteq> Vacant \<and> \<not> is_live (snd v)" for a v v'
    using that by (induction rule: lifecycle.induct) (auto simp: is_live_def)
  then show ?thesis
    using own.run_invariant [OF assms(2), where P = "\<lambda>v. snd v \<noteq> Vacant \<and> \<not> is_live (snd v)" and k = k]
      own_reachable_wf [OF assms(1)] assms(3-5) by blast
qed

theorem unattended_key_never_freed_witness:
  "snd (life (snd (recover_stale_starts demo_started 50 30 (\<lambda>f. False) [demo_key])) demo_key) \<noteq> Vacant"
proof -
  have "snd (life demo_started demo_key) \<noteq> Vacant" "\<not> is_live (snd (life demo_started demo_key))"
    by (simp_all add: is_live_def)
  from unattended_key_never_freed [OF demo_started_reachable own_run_single [OF own_step.sweep_starts] _ this]
  show ?thesis by simp
qed

text \<open>A start that hangs never strands its key: the first sweep parks it, a later sweep fences it,
  the operator's clear with the observed fence is accepted, and then an acknowledged handoff is
  granted; the parked runtime is the one the handoff is told to reap.\<close>

theorem stale_start_recoverable:
  assumes "get_record reg (SessionKey_new p s) = Some r"
    and "rec_state r = Starting kind op g init since" and "g = rec_generation r"
    and "start_due now max_age flags r"
    and "SessionKey_new p s \<in> set order" and "SessionKey_new p s \<in> set order'"
    and "max_age' \<le> now' - since" and "\<not> handler_running flags' (rec_stop_settled r)"
  shows "let fenced = snd (recover_stale_stoppings (snd (recover_stale_starts reg now max_age flags order))
                             now' max_age' flags' order');
             seen = observe fenced p s;
             fence = \<lparr>of_epoch = snap_epoch seen, of_generation = snap_generation seen\<rparr>;
             cleared = force_release_platform_limited fenced p s fence init' clock;
             granted = begin_handoff_acknowledged_cleared_unverified (snd cleared) p s kind' op' fence init'' clock'
         in fst cleared = Force_Released
            \<and> fst granted = Ack_Granted (Suc g)
            \<and> life (snd granted) (SessionKey_new p s) =
                (Suc g, Handoff (map_option (\<lambda>owner. (owner, g)) (rec_partial_runtime r))
                          kind' op' (Suc g) init'' clock')"
proof -
  let ?k = "SessionKey_new p s"
  let ?parked = "snd (recover_stale_starts reg now max_age flags order)"
  let ?fenced = "snd (recover_stale_stoppings ?parked now' max_age' flags' order')"
  obtain f where f: "get_record ?fenced ?k = Some f" "rec_generation f = g"
    and st: "rec_state f = Fenced (map_option (\<lambda>owner. (owner, g)) (rec_partial_runtime r))
               StaleStop op g init since"
    using assms
    by (auto simp: recover_stale_stoppings_def stoppings_loop_record recover_stale_starts_def
        starts_loop_record swept_start_def swept_stop_def stop_due_def)
  have "reg_epoch ?fenced = reg_epoch reg"
    by (simp add: recover_stale_stoppings_def stoppings_loop_epoch recover_stale_starts_def starts_loop_epoch)
  with f st show ?thesis
    by (simp add: observe_def Let_def snapshot_generation_def force_release_platform_limited_def
        begin_handoff_acknowledged_cleared_unverified_def)
qed

theorem stale_start_recoverable_witness:
  "let fenced = snd (recover_stale_stoppings (snd (recover_stale_starts demo_started 50 30 (\<lambda>f. False) [demo_key]))
                       80 30 (\<lambda>f. False) [demo_key])
   in fst (force_release_platform_limited fenced ''claude'' ''s1''
             \<lparr>of_epoch = 7, of_generation = 1\<rparr> ''ui'' 90) = Force_Released"
proof -
  let ?r = "SessionRecord_default\<lparr>rec_generation := 1, rec_state := Starting Terminal ''op-a'' 1 ''ui'' 5\<rparr>"
  have r: "get_record demo_started (SessionKey_new ''claude'' ''s1'') = Some ?r"
    by (simp add: demo_started_eq demo_key_def)
  have facts: "rec_state ?r = Starting Terminal ''op-a'' 1 ''ui'' 5" "1 = rec_generation ?r"
    "start_due 50 30 (\<lambda>f. False) ?r" "SessionKey_new ''claude'' ''s1'' \<in> set [demo_key]"
    "\<not> handler_running (\<lambda>f. False) (rec_stop_settled ?r)" "(30::nat) \<le> 80 - 5"
    by (simp_all add: start_due_def handler_running_def demo_key_def)
  have "observe (snd (recover_stale_stoppings (snd (recover_stale_starts demo_started 50 30 (\<lambda>f. False) [demo_key]))
                       80 30 (\<lambda>f. False) [demo_key])) ''claude'' ''s1''
     = \<lparr>snap_epoch = 7, snap_generation = 1, snap_state = Fenced None StaleStop ''op-a'' 1 ''ui'' 5\<rparr>"
    by (simp add: observe_def recover_stale_stoppings_def recover_stale_starts_def demo_started_eq demo_key_def
        handler_running_def snapshot_generation_def)
  with stale_start_recoverable [OF r facts(1,2,3,4,4,6,5), of "''ui''" 90]
  show ?thesis by (simp add: Let_def)
qed

section \<open>Moving a claim in flight\<close>

text \<open>Re-keying an in-flight start moves the whole claim: every witness the operation registered
  travels to the canonical key, the claim commits there and no longer under the provisional id, and
  the re-keyed ticket releases it there while the old ticket releases nothing.\<close>

theorem rekey_starting_moves_claim:
  assumes "own_reachable reg" and "fst (rekey_starting reg p old new op g) = Committed"
  shows "let reg' = snd (rekey_starting reg p old new op g);
             ticket = OperationTicket_new p old op kind g init
         in get_record reg' (SessionKey_new p new) = get_record reg (SessionKey_new p old)
            \<and> life reg' (SessionKey_new p old) = (g, Aliased new g)
            \<and> fst (commit_live reg' p new op g owner clock) = Committed
            \<and> commit_live reg' p old op g owner clock = (Commit_ForeignOperation, reg')
            \<and> life (ticket_drop (rekey_session_id ticket new) reg' clock) (SessionKey_new p new) = (g, Vacant)
            \<and> ticket_drop ticket reg' clock = reg'"
proof -
  let ?old = "SessionKey_new p old" and ?new = "SessionKey_new p new"
  obtain r kind' sg i t where r: "get_record reg ?old = Some r" "g = rec_generation r"
    and st: "rec_state r = Starting kind' op sg i t" and fresh: "get_record reg ?new = None"
    using assms(2)
    by (auto simp: rekey_starting_def Let_def split: option.splits OwnershipState.splits if_splits)
  have "wf_life (life reg ?old)" using own_reachable_wf [OF assms(1)] .
  then have "sg = g" using r st by (simp add: life_Some)
  have "new \<noteq> old" using r(1) fresh by auto
  then show ?thesis
    using r st fresh \<open>sg = g\<close>
    by (simp add: rekey_starting_def commit_live_def Let_def ticket_drop_def rekey_session_id_def
        OperationTicket_new_def fail_def)
qed

theorem rekey_starting_moves_claim_witness:
  "fst (commit_live (snd (rekey_starting demo_started ''claude'' ''s1'' ''s2'' ''op-a'' 1))
     ''claude'' ''s2'' ''op-a'' 1 demo_owner 9) = Committed"
proof -
  have "fst (rekey_starting demo_started ''claude'' ''s1'' ''s2'' ''op-a'' 1) = Committed"
    by (simp add: rekey_starting_def demo_started_eq demo_key_def)
  from rekey_starting_moves_claim [OF demo_started_reachable this] show ?thesis by (simp add: Let_def)
qed

section \<open>The reconnect replay\<close>

text \<open>A reconnecting client is told the truth of the canonical key under every old id: an alias
  replays its canonical record's owner, state, reason and generation, and names the canonical id.\<close>

theorem alias_replays_canonical:
  assumes "own_reachable reg"
    and "get_record reg (SessionKey_new p s) = Some r" and "rec_state r = Aliased to_id ag"
  shows "\<exists>target. get_record reg (SessionKey_new p (resolve_canonical reg p s)) = Some target
    \<and> (let replayed = replay_record reg (SessionKey_new p s) r;
           truth = replay_record reg (SessionKey_new p (resolve_canonical reg p s)) target
       in rr_alias_of replayed = Some (resolve_canonical reg p s)
          \<and> rr_alias_of truth = None
          \<and> rr_owner_kind replayed = rr_owner_kind truth \<and> rr_state replayed = rr_state truth
          \<and> rr_terminal_id replayed = rr_terminal_id truth \<and> rr_reason replayed = rr_reason truth
          \<and> rr_generation replayed = rr_generation truth \<and> rr_epoch replayed = rr_epoch truth)"
proof -
  have wf: "alias_wf reg" using own_reachable_alias_wf assms(1) .
  have hop: "aliased_to reg p s = Some to_id" using assms(2,3) by (simp add: aliased_to_def)
  have same: "resolve_walk reg p [] to_id = resolve_canonical reg p s"
    using resolve_canonical_hop [OF wf hop] by (simp add: resolve_canonical_def)
  obtain target where target: "get_record reg (SessionKey_new p (resolve_canonical reg p s)) = Some target"
    and "aliased_to reg p (resolve_canonical reg p s) = None"
    using resolve_canonical_target [OF wf] resolve_canonical_end(1) [OF wf] assms(2) by fastforce
  then have "\<not> (\<exists>t g. rec_state target = Aliased t g)" by (auto simp: aliased_to_def)
  then show ?thesis
    using assms(2,3) target same
    by (cases "rec_state target"; cases "replay_fields_for (rec_state target)")
       (simp_all add: replay_record_def resolve_canonical_locked_def Let_def)
qed

theorem alias_replays_canonical_witness:
  "\<exists>target. get_record demo_rekeyed (SessionKey_new ''claude'' (resolve_canonical demo_rekeyed ''claude'' ''s1''))
     = Some target"
proof -
  have r: "get_record demo_rekeyed (SessionKey_new ''claude'' ''s1'') =
      Some (SessionRecord_default\<lparr>rec_generation := 1, rec_state := Aliased ''s2'' 1\<rparr>)"
    by (simp add: demo_rekeyed_eq demo_key_def)
  from alias_replays_canonical [OF demo_rekeyed_reachable r] show ?thesis by auto
qed

section \<open>Where the code departs from its documentation\<close>

text \<open>The counter of a key can go backwards. An identity rebind writes the alias one above the live
  owner's generation, which aborted stops leave below the key's own: after two of them the record
  drops from 3 to 2, although the crate's documentation calls the counter monotonic.\<close>

theorem rebind_rolls_generation_back:
  "\<exists>reg op reg' k. own_reachable reg \<and> own_step reg (Rebind op) reg'
     \<and> fst (life reg' k) < fst (life reg k)"
proof -
  define aborted where "aborted = snd (abort_stop demo_stopping ''claude'' ''s1'' ''op-s'' 2 25)"
  define again where "again = snd (begin_stop aborted ''claude'' ''s1'' ''op-t'' demo_claim ''ui'' 30)"
  define restored where "restored = snd (abort_stop again ''claude'' ''s1'' ''op-t'' 3 35)"
  define claimed where "claimed = snd (begin_start restored ''claude'' ''s2'' Terminal ''op-r'' None ''ui'' 40)"
  define moved where
    "moved = snd (commit_live_rekey_from_terminal claimed ''claude'' ''s2'' ''op-r'' 1 ''s1'' ''t1'' demo_owner 45)"
  have aborted: "aborted = put_record demo_key
      (SessionRecord_default\<lparr>rec_generation := 2, rec_state := Live demo_owner 1 25\<rparr>) (with_epoch 7)"
    by (simp add: aborted_def abort_stop_def demo_stopping_eq demo_key_def)
  have again: "again = put_record demo_key
      (SessionRecord_default\<lparr>rec_generation := 3,
         rec_state := Stopping (Some demo_owner) (Some 1) ''op-t'' 3 ''ui'' 30\<rparr>) (with_epoch 7)"
    by (simp add: again_def aborted begin_stop_def stop_identity_mismatch_def demo_key_def
        numeral_2_eq_2 numeral_3_eq_3)
  have restored: "restored = put_record demo_key
      (SessionRecord_default\<lparr>rec_generation := 3, rec_state := Live demo_owner 1 35\<rparr>) (with_epoch 7)"
    by (simp add: restored_def abort_stop_def again demo_key_def)
  have claimed: "claimed = put_record (SessionKey_new ''claude'' ''s2'')
      (SessionRecord_default\<lparr>rec_generation := 1, rec_state := Starting Terminal ''op-r'' 1 ''ui'' 40\<rparr>) restored"
    by (simp add: claimed_def restored begin_start_def begin_start_inner_def fence_is_stale_def
        entry_or_default_def demo_key_def SessionRecord_default_def)
  have "life moved demo_key = (2, Aliased ''s2'' 2)"
    by (simp add: moved_def commit_live_rekey_from_terminal_def Let_def claimed restored demo_key_def
        numeral_2_eq_2)
  moreover have "own_reachable claimed"
    unfolding claimed_def restored_def again_def aborted_def
    by (intro own_reachable_step [OF _ own_step.begin_start] own_reachable_step [OF _ own_step.abort_stop]
        own_reachable_step [OF _ own_step.begin_stop] demo_stopping_reachable)
  moreover have "own_step claimed (Rebind ''op-r'') moved"
    unfolding moved_def by (rule own_step.rebind)
  moreover have "fst (life claimed demo_key) = 3"
    by (simp add: claimed restored demo_key_def)
  ultimately show ?thesis by (intro exI [of _ claimed] exI [of _ "''op-r''"] exI [of _ moved] exI [of _ demo_key]) simp
qed

text \<open>An owner that an aborted stop restored can no longer be fenced when it exits unconfirmed: the
  fence demands that the caller's generation equals both the record's and the live owner's, which
  the abort left apart, so it is refused for every caller.\<close>

theorem aborted_stop_cannot_be_fenced:
  assumes "own_reachable reg" and "fst (begin_stop reg p s op claim init now) = Stop_Granted g"
  shows "let aborted = snd (abort_stop (snd (begin_stop reg p s op claim init now)) p s op g clock)
         in fence_unconfirmed_live aborted p s op' g' expected reason clock' = (Fence_ForeignOperation, aborted)"
proof -
  let ?k = "SessionKey_new p s"
  obtain r where r: "get_record reg ?k = Some r"
    using assms(2) by (cases "get_record reg ?k") (auto simp: begin_stop_def)
  then obtain owner lg since where live: "rec_state r = Live owner lg since"
    using assms(2) by (auto simp: begin_stop_def Let_def split: OwnershipState.splits)
  have "wf_life (life reg ?k)" using own_reachable_wf [OF assms(1)] .
  then have "lg \<le> rec_generation r" using r live by (simp add: life_Some)
  with assms(2) r live show ?thesis
    by (auto simp: begin_stop_def abort_stop_def fence_unconfirmed_live_def Let_def split: if_splits)
qed

theorem aborted_stop_cannot_be_fenced_witness:
  "fst (fence_unconfirmed_live (snd (abort_stop demo_stopping ''claude'' ''s1'' ''op-s'' 2 25))
     ''claude'' ''s1'' ''op-a'' 1 demo_owner WatcherFailed 30) = Fence_ForeignOperation"
proof -
  have g: "fst (begin_stop demo_live ''claude'' ''s1'' ''op-s'' demo_claim ''ui'' 20) = Stop_Granted 2"
    by (simp add: begin_stop_def demo_live_eq demo_key_def stop_identity_mismatch_def numeral_2_eq_2)
  from aborted_stop_cannot_be_fenced [OF demo_live_reachable g] show ?thesis
    by (simp add: Let_def demo_stopping_def)
qed

text \<open>A confirmed kill releases a live owner or a zombie start, never a handoff, a fence or an alias.
  A key an operation is stopping it releases only if that operation is also the one that committed
  the owner: the claim has to carry one id for both.\<close>

theorem confirmed_kill_scope:
  "force_release_for_confirmed_kill reg p s claim = reg
   \<or> (case life reg (SessionKey_new p s) of
        (g, Live owner lg since) \<Rightarrow> runtime_matches owner claim \<and> lg = rc_generation claim
      | (g, Starting kind op sg init since) \<Rightarrow> op = rc_operation_id claim \<and> sg = rc_generation claim
      | (g, Stopping (Some owner) pg op sg init since) \<Rightarrow>
          runtime_matches owner claim \<and> sg = rc_generation claim \<and> ow_ownership_id owner = Some op
      | (g, Stopping None pg op sg init since) \<Rightarrow> op = rc_operation_id claim \<and> rc_runtime claim = None
      | _ \<Rightarrow> False)
     \<and> snd (life (force_release_for_confirmed_kill reg p s claim) (SessionKey_new p s)) = Vacant"
proof (cases "get_record reg (SessionKey_new p s)")
  case (Some r)
  then show ?thesis
    by (cases "rec_state r")
       (auto simp: force_release_for_confirmed_kill_def force_release_matched_def Let_def life_Some
         runtime_matches_ownership split: option.splits)
qed (simp add: force_release_for_confirmed_kill_def)

end
