(* ===== verification/Text_Units.thy ===== *)
theory Text_Units
  imports Prelude
begin

text \<open>
  Text as the terminal buffers measure it. A Rust \<open>String\<close> of terminal output is the list of its
  Unicode scalar values; its two sizes are the number of UTF-8 bytes (\<open>String::len\<close>) and of UTF-16
  code units (\<open>utf16_len\<close>). The encoder and the strict decoder of UTF-8 stand for
  \<open>str::as_bytes\<close> and \<open>str::from_utf8\<close> of the Rust standard library. Bytes are naturals below 256.
\<close>

type_synonym utext = "nat list"
type_synonym bytes = "nat list"

definition is_scalar :: "nat \<Rightarrow> bool" where
  "is_scalar c = (c < 0xD800 \<or> 0xDFFF < c \<and> c \<le> 0x10FFFF)"

definition valid_text :: "utext \<Rightarrow> bool" where
  "valid_text t = list_all is_scalar t"

text \<open>A name of ASCII characters, as text.\<close>

definition ascii :: "string \<Rightarrow> utext" where
  "ascii t = map of_char t"

section \<open>Sizes\<close>

definition len_utf8 :: "nat \<Rightarrow> nat" where
  "len_utf8 c = (if c < 0x80 then 1 else if c < 0x800 then 2 else if c < 0x10000 then 3 else 4)"

definition len_utf16 :: "nat \<Rightarrow> nat" where
  "len_utf16 c = (if c < 0x10000 then 1 else 2)"

definition byte_len :: "utext \<Rightarrow> nat" where
  "byte_len t = sum_list (map len_utf8 t)"

definition utf16_len :: "utext \<Rightarrow> nat" where
  "utf16_len t = sum_list (map len_utf16 t)"

lemma byte_len_simps [simp]:
  "byte_len [] = 0" "byte_len (c # t) = len_utf8 c + byte_len t"
  "byte_len (s @ t) = byte_len s + byte_len t"
  by (simp_all add: byte_len_def)

lemma utf16_len_simps [simp]:
  "utf16_len [] = 0" "utf16_len (c # t) = len_utf16 c + utf16_len t"
  "utf16_len (s @ t) = utf16_len s + utf16_len t"
  by (simp_all add: utf16_len_def)

lemma len_pos [simp]: "0 < len_utf8 c" "0 < len_utf16 c"
  by (simp_all add: len_utf8_def len_utf16_def)

lemma byte_len_zero [simp]: "(byte_len t = 0) = (t = [])"
  by (cases t) simp_all

lemma utf16_len_zero [simp]: "(utf16_len t = 0) = (t = [])"
  by (cases t) simp_all

section \<open>UTF-8\<close>

definition encode_char :: "nat \<Rightarrow> bytes" where
  "encode_char c =
     (if c < 0x80 then [c]
      else if c < 0x800 then [0xC0 + c div 64, 0x80 + c mod 64]
      else if c < 0x10000 then [0xE0 + c div 4096, 0x80 + c div 64 mod 64, 0x80 + c mod 64]
      else [0xF0 + c div 262144, 0x80 + c div 4096 mod 64, 0x80 + c div 64 mod 64, 0x80 + c mod 64])"

definition as_bytes :: "utext \<Rightarrow> bytes" where
  "as_bytes t = concat (map encode_char t)"

definition is_continuation :: "nat \<Rightarrow> bool" where
  "is_continuation b = (0x80 \<le> b \<and> b < 0xC0)"

text \<open>
  One scalar value off the front, with the checks of a strict decoder: the lead byte, the
  continuation bytes, no overlong form, no surrogate, nothing above the last scalar value.
\<close>

fun decode_char :: "bytes \<Rightarrow> (nat \<times> bytes) option" where
  "decode_char [] = None"
| "decode_char (b # bs) =
     (if b < 0x80 then Some (b, bs)
      else if 0xC2 \<le> b \<and> b < 0xE0 then
        (case bs of
           b1 # rest \<Rightarrow>
             if is_continuation b1 then Some ((b - 0xC0) * 64 + (b1 - 0x80), rest) else None
         | _ \<Rightarrow> None)
      else if 0xE0 \<le> b \<and> b < 0xF0 then
        (case bs of
           b1 # b2 # rest \<Rightarrow>
             (let c = (b - 0xE0) * 4096 + (b1 - 0x80) * 64 + (b2 - 0x80) in
              if is_continuation b1 \<and> is_continuation b2 \<and> 0x800 \<le> c \<and> is_scalar c
              then Some (c, rest) else None)
         | _ \<Rightarrow> None)
      else if 0xF0 \<le> b \<and> b < 0xF5 then
        (case bs of
           b1 # b2 # b3 # rest \<Rightarrow>
             (let c = (b - 0xF0) * 262144 + (b1 - 0x80) * 4096 + (b2 - 0x80) * 64 + (b3 - 0x80) in
              if is_continuation b1 \<and> is_continuation b2 \<and> is_continuation b3
                 \<and> 0x10000 \<le> c \<and> is_scalar c
              then Some (c, rest) else None)
         | _ \<Rightarrow> None)
      else None)"

lemma decode_char_shorter: "decode_char bs = Some (c, rest) \<Longrightarrow> length rest < length bs"
  by (cases bs) (auto simp: Let_def split: if_splits list.splits)

function from_utf8 :: "bytes \<Rightarrow> utext option" where
  "from_utf8 bs =
     (if bs = [] then Some []
      else case decode_char bs of
             None \<Rightarrow> None
           | Some (c, rest) \<Rightarrow> map_option (\<lambda>t. c # t) (from_utf8 rest))"
  by pat_completeness auto
termination
  by (relation "measure length") (auto dest: decode_char_shorter)

declare from_utf8.simps [simp del]

lemma from_utf8_Nil [simp]: "from_utf8 [] = Some []"
  by (simp add: from_utf8.simps)

lemma as_bytes_simps [simp]:
  "as_bytes [] = []" "as_bytes (c # t) = encode_char c @ as_bytes t"
  "as_bytes (s @ t) = as_bytes s @ as_bytes t"
  by (simp_all add: as_bytes_def)

lemma length_encode_char [simp]: "length (encode_char c) = len_utf8 c"
  by (simp add: encode_char_def len_utf8_def)

lemma length_as_bytes [simp]: "length (as_bytes t) = byte_len t"
  by (induction t) simp_all

lemma valid_text_simps [simp]:
  "valid_text []" "valid_text (c # t) = (is_scalar c \<and> valid_text t)"
  "valid_text (s @ t) = (valid_text s \<and> valid_text t)"
  by (simp_all add: valid_text_def)

text \<open>The three six-bit steps that an encoded value is split into, put together again.\<close>

lemma base64_digits:
  fixes c :: nat
  shows "c div 64 * 64 + c mod 64 = c"
    and "c div 4096 * 4096 + (c div 64 mod 64 * 64 + c mod 64) = c"
    and "c div 262144 * 262144 + (c div 4096 mod 64 * 4096 + (c div 64 mod 64 * 64 + c mod 64)) = c"
proof -
  have d2: "c div 4096 = c div 64 div 64" and d3: "c div 262144 = c div 64 div 64 div 64"
    by (simp_all add: div_mult2_eq [symmetric])
  note digits = div_mult_mod_eq [of c 64] div_mult_mod_eq [of "c div 64" 64]
    div_mult_mod_eq [of "c div 64 div 64" 64]
  show "c div 64 * 64 + c mod 64 = c" using digits by linarith
  show "c div 4096 * 4096 + (c div 64 mod 64 * 64 + c mod 64) = c"
    unfolding d2 using digits by linarith
  show "c div 262144 * 262144 + (c div 4096 mod 64 * 4096 + (c div 64 mod 64 * 64 + c mod 64)) = c"
    unfolding d2 d3 using digits by linarith
qed

lemma lead_bounds:
  fixes c :: nat
  shows "128 \<le> c \<Longrightarrow> 2 \<le> c div 64" and "c < 2048 \<Longrightarrow> c div 64 < 32"
    and "c < 65536 \<Longrightarrow> c div 4096 < 16" and "c \<le> 1114111 \<Longrightarrow> c div 262144 < 5"
  using div_le_mono [of 128 c 64] by (simp_all add: less_mult_imp_div_less)

lemma decode_encode_char:
  assumes "is_scalar c"
  shows "decode_char (encode_char c @ bs) = Some (c, bs)"
proof -
  have "c \<le> 1114111" using assms by (auto simp: is_scalar_def)
  then consider "c < 128" | "128 \<le> c" "c < 2048" | "2048 \<le> c" "c < 65536" | "65536 \<le> c" "c \<le> 1114111"
    by linarith
  then show ?thesis
  proof cases
    case 1
    then show ?thesis by (simp add: encode_char_def)
  next
    case 2
    then show ?thesis
      using lead_bounds(1,2) [of c] base64_digits(1) [of c]
      by (simp add: encode_char_def is_continuation_def)
  next
    case 3
    then show ?thesis
      using lead_bounds(3) [of c] base64_digits(2) [of c] assms
      by (simp add: encode_char_def is_continuation_def Let_def add.assoc)
  next
    case 4
    then show ?thesis
      using lead_bounds(4) [of c] base64_digits(3) [of c] assms
      by (simp add: encode_char_def is_continuation_def Let_def add.assoc)
  qed
qed

lemma from_utf8_as_bytes: "valid_text t \<Longrightarrow> from_utf8 (as_bytes t) = Some t"
proof (induction t)
  case (Cons c t)
  then have "decode_char (encode_char c @ as_bytes t) = Some (c, as_bytes t)"
    by (simp add: decode_encode_char)
  moreover have "encode_char c \<noteq> []" by (simp add: encode_char_def)
  ultimately show ?case using Cons by (simp add: from_utf8.simps [of "encode_char c @ as_bytes t"])
qed simp

text \<open>A byte sequence that starts inside a character does not decode.\<close>

lemma encode_char_tail:
  assumes "0 < n" and "n < len_utf8 c"
  shows "\<exists>b bs. drop n (encode_char c) = b # bs \<and> is_continuation b"
proof -
  have "n = 1 \<or> n = 2 \<or> n = 3" using assms by (auto simp: len_utf8_def split: if_splits)
  then show ?thesis
    using assms(2) by (elim disjE) (auto simp: encode_char_def len_utf8_def is_continuation_def split: if_splits)
qed

lemma from_utf8_inside:
  assumes "0 < n" and "n < len_utf8 c"
  shows "from_utf8 (drop n (encode_char c) @ rest) = None"
proof -
  obtain b bs where "drop n (encode_char c) = b # bs" and "is_continuation b"
    using encode_char_tail [OF assms] by blast
  then show ?thesis by (simp add: from_utf8.simps [of "b # bs @ rest"] is_continuation_def)
qed

section \<open>Numbers\<close>

text \<open>\<open>to_string\<close> of an unsigned number.\<close>

fun decimal :: "nat \<Rightarrow> utext" where
  "decimal n = (if n < 10 then [0x30 + n] else decimal (n div 10) @ [0x30 + n mod 10])"

declare decimal.simps [simp del]

definition is_digit :: "nat \<Rightarrow> bool" where
  "is_digit c = (0x30 \<le> c \<and> c \<le> 0x39)"

definition digits_value :: "utext \<Rightarrow> nat" where
  "digits_value ds = foldl (\<lambda>n d. 10 * n + (d - 0x30)) 0 ds"

lemma digits_value_snoc: "digits_value (ds @ [d]) = 10 * digits_value ds + (d - 0x30)"
  by (simp add: digits_value_def)

lemma decimal_digits: "list_all is_digit (decimal n) \<and> decimal n \<noteq> [] \<and> digits_value (decimal n) = n"
proof (induction n rule: decimal.induct)
  case (1 n)
  show ?case
  proof (cases "n < 10")
    case True
    then show ?thesis by (simp add: decimal.simps [of n] is_digit_def digits_value_def)
  next
    case False
    have "n mod 10 < 10" by simp
    then have "48 + n mod 10 \<le> 57" by linarith
    then show ?thesis
      using "1.IH" [OF False] False by (simp add: decimal.simps [of n] digits_value_snoc is_digit_def)
  qed
qed

text \<open>The number of its digits.\<close>

lemma decimal_width: "length (decimal n) \<le> Suc k \<longleftrightarrow> n < 10 ^ Suc k"
proof (induction k arbitrary: n)
  case 0
  have "decimal (n div 10) \<noteq> []" using decimal_digits by blast
  then show ?case by (auto simp: decimal.simps [of n])
next
  case (Suc k)
  have "n < 10 ^ Suc (Suc k) \<longleftrightarrow> n div 10 < 10 ^ Suc k"
    by (simp add: less_mult_imp_div_less div_less_iff_less_mult mult.commute)
  then show ?case using Suc.IH [of "n div 10"] by (auto simp: decimal.simps [of n])
qed

section \<open>Words and numbers of a line\<close>

text \<open>\<open>char::is_whitespace\<close>: the Unicode property White_Space.\<close>

definition is_whitespace :: "nat \<Rightarrow> bool" where
  "is_whitespace c =
     (0x09 \<le> c \<and> c \<le> 0x0d \<or> c = 0x20 \<or> c = 0x85 \<or> c = 0xa0 \<or> c = 0x1680 \<or> 0x2000 \<le> c \<and> c \<le> 0x200a
      \<or> c = 0x2028 \<or> c = 0x2029 \<or> c = 0x202f \<or> c = 0x205f \<or> c = 0x3000)"

text \<open>\<open>str::split_whitespace\<close>, the maximal runs without white space.\<close>

fun words_from :: "utext \<Rightarrow> utext \<Rightarrow> utext list" where
  "words_from w [] = (if w = [] then [] else [w])"
| "words_from w (c # cs) =
     (if is_whitespace c then (if w = [] then words_from [] cs else w # words_from [] cs)
      else words_from (w @ [c]) cs)"

definition split_whitespace :: "utext \<Rightarrow> utext list" where
  "split_whitespace t = words_from [] t"

text \<open>Parsing an unsigned integer no larger than \<open>hi\<close>: digits, after an optional plus sign.\<close>

definition parse_unsigned :: "nat \<Rightarrow> utext \<Rightarrow> nat option" where
  "parse_unsigned hi t =
     (let ds = (case t of c # cs \<Rightarrow> if c = 0x2b then cs else t | [] \<Rightarrow> []) in
      if ds \<noteq> [] \<and> list_all is_digit ds \<and> digits_value ds \<le> hi then Some (digits_value ds) else None)"

lemma parse_unsigned_decimal:
  assumes "n \<le> hi"
  shows "parse_unsigned hi (decimal n) = Some n"
proof -
  obtain c cs where d: "decimal n = c # cs" using decimal_digits [of n] by (cases "decimal n") auto
  then have "c \<noteq> 0x2b" using decimal_digits [of n] by (auto simp: is_digit_def)
  with d have "(case decimal n of c # cs \<Rightarrow> if c = 0x2b then cs else decimal n | [] \<Rightarrow> []) = decimal n" by simp
  then show ?thesis using decimal_digits [of n] assms unfolding parse_unsigned_def Let_def by presburger
qed

lemma words_from_word:
  "list_all (\<lambda>c. \<not> is_whitespace c) v \<Longrightarrow> words_from w (v @ cs) = words_from (w @ v) cs"
  by (induction v arbitrary: w) auto

text \<open>Words joined by single spaces are the words again.\<close>

fun join_spaces :: "utext list \<Rightarrow> utext" where
  "join_spaces [] = []"
| "join_spaces (w # ws) = w @ (if ws = [] then [] else 0x20 # join_spaces ws)"

definition plain_word :: "utext \<Rightarrow> bool" where
  "plain_word w = (w \<noteq> [] \<and> list_all (\<lambda>c. \<not> is_whitespace c) w)"

lemma split_join: "list_all plain_word ws \<Longrightarrow> split_whitespace (join_spaces ws) = ws"
proof (induction ws)
  case (Cons w ws)
  have space: "is_whitespace 0x20" by (simp add: is_whitespace_def)
  show ?case
    using Cons space words_from_word [of w "[]" "0x20 # join_spaces ws"] words_from_word [of w "[]" "[]"]
    by (auto simp: split_whitespace_def plain_word_def)
qed (simp add: split_whitespace_def)

lemma split_leading_space: "split_whitespace (0x20 # t) = split_whitespace t"
  by (simp add: split_whitespace_def is_whitespace_def)

lemma decimal_digits_plain: "plain_word (decimal n)"
  using decimal_digits [of n] by (auto simp: plain_word_def is_whitespace_def is_digit_def list_all_iff)

end
