(* ===== verification/Log_Buffer.thy ===== *)
theory Log_Buffer
  imports Text_Units
begin

text \<open>
  The contract that the terminal's two output buffers share, the byte-measured replay and the
  character-measured scrollback: an append keeps the newest end of the output that fits the cap. What
  a broker relies on over a whole stream of output is proved from that contract alone.
\<close>

locale log_buffer =
  fixes wf :: "'b \<Rightarrow> bool"
    and put :: "'x \<Rightarrow> 'b \<Rightarrow> 'b"
    and payload :: "'x \<Rightarrow> utext"
    and contents :: "'b \<Rightarrow> utext"
    and weight :: "utext \<Rightarrow> nat"
    and cap :: "'b \<Rightarrow> nat"
  assumes put_wf: "wf b \<Longrightarrow> wf (put x b)"
    and put_cap: "cap (put x b) = cap b"
    and put_suffix: "wf b \<Longrightarrow> suffix (contents (put x b)) (contents b @ payload x)"
    and put_exact: "wf b \<Longrightarrow> weight (contents b @ payload x) \<le> cap b \<Longrightarrow>
      contents (put x b) = contents b @ payload x"
    and bounded: "wf b \<Longrightarrow> weight (contents b) \<le> cap b"
    and weight_append: "weight (s @ t) = weight s + weight t"
begin

lemma puts_wf: "wf b \<Longrightarrow> wf (fold put xs b)"
  by (induction xs arbitrary: b) (simp_all add: put_wf)

lemma puts_cap: "cap (fold put xs b) = cap b"
  by (induction xs arbitrary: b) (simp_all add: put_cap)

text \<open>What is kept of a stream is its newest end, and no more of it than the cap.\<close>

lemma puts_suffix: "wf b \<Longrightarrow> suffix (contents (fold put xs b)) (contents b @ concat (map payload xs))"
proof (induction xs arbitrary: b)
  case (Cons x xs)
  have "suffix (contents (put x b) @ concat (map payload xs)) (contents b @ payload x @ concat (map payload xs))"
    using suffix_append_both [OF put_suffix [OF Cons.prems]] by simp
  from suffix_order.trans [OF Cons.IH [OF put_wf [OF Cons.prems]] this] show ?case by simp
qed simp

lemma puts_bounded: "wf b \<Longrightarrow> weight (contents (fold put xs b)) \<le> cap b"
  using bounded [OF puts_wf, of b xs] by (simp add: puts_cap)

text \<open>Nothing is lost while the stream fits.\<close>

lemma puts_exact:
  "wf b \<Longrightarrow> weight (contents b @ concat (map payload xs)) \<le> cap b \<Longrightarrow>
     contents (fold put xs b) = contents b @ concat (map payload xs)"
proof (induction xs arbitrary: b)
  case (Cons x xs)
  have "contents (put x b) = contents b @ payload x"
    using Cons.prems by (intro put_exact) (simp_all add: weight_append)
  then show ?case using Cons.IH [OF put_wf [OF Cons.prems(1)]] Cons.prems(2) by (simp add: put_cap)
qed simp

end

end
