(* ===== verification/Replay_Ring.thy ===== *)
theory Replay_Ring
  imports Log_Buffer
begin

text \<open>
  The sequenced replay buffer of a terminal's output, \<open>ReplayDeque\<close> and \<open>ReplayRing\<close>
  (crates/freshell-terminal/src/replay_ring.rs): every appended fragment is one frame with the next
  sequence number, whole frames are evicted from the front to stay within the byte budget, and a
  client that reconnects asks for the frames after the last one it saw.

  Sequence numbers are \<open>i64\<close> in the code and \<open>int\<close> here: they count appends from 1, so they stay in
  range for \<open>2 ^ 63 - 1\<close> of them. The wall clock is the argument \<open>clock_ms\<close>.
\<close>

section \<open>Frames\<close>

definition DEFAULT_STREAM_ID :: string where
  "DEFAULT_STREAM_ID = ''stream-1''"

definition DEFAULT_TERMINAL_REPLAY_RING_MAX_BYTES :: nat where
  "DEFAULT_TERMINAL_REPLAY_RING_MAX_BYTES = 1024 * 1024"

definition COMPACT_MIN_EVICTED_FRAMES :: nat where
  "COMPACT_MIN_EVICTED_FRAMES = 1024"

definition i64_max :: int where
  "i64_max = 2 ^ 63 - 1"

record ReplayFrame =
  fr_seq_start :: int
  fr_seq_end :: int
  fr_data :: utext
  fr_bytes :: nat
  fr_at :: nat
  fr_stream_id :: string
  fr_barrier :: bool

record ReplayFrameInput =
  in_data :: utext
  in_stream_id :: "string option"
  in_barrier :: bool
  in_at :: "nat option"

record ReplaySince =
  since_frames :: "ReplayFrame list"
  since_missed :: "int option"

definition normalize_max_bytes :: "int \<Rightarrow> nat" where
  "normalize_max_bytes max_bytes = (if 0 < max_bytes then nat max_bytes else 0)"

section \<open>The deque\<close>

record ReplayDeque =
  rd_frames :: "ReplayFrame list"
  rd_start_index :: nat
  rd_retained_bytes :: nat
  rd_next_seq :: int
  rd_head :: int
  rd_max_bytes :: nat
  rd_retention_loss_pending :: bool

definition deque_new :: "int \<Rightarrow> ReplayDeque" where
  "deque_new max_bytes =
     \<lparr>rd_frames = [], rd_start_index = 0, rd_retained_bytes = 0, rd_next_seq = 1, rd_head = 0,
      rd_max_bytes = normalize_max_bytes max_bytes, rd_retention_loss_pending = False\<rparr>"

definition retained_count :: "ReplayDeque \<Rightarrow> nat" where
  "retained_count d = length (rd_frames d) - rd_start_index d"

definition first_frame :: "ReplayDeque \<Rightarrow> ReplayFrame option" where
  "first_frame d = (if 0 < retained_count d then Some (rd_frames d ! rd_start_index d) else None)"

definition compact_if_needed :: "ReplayDeque \<Rightarrow> ReplayDeque" where
  "compact_if_needed d =
     (if rd_start_index d = 0 then d
      else
        (let retained = retained_count d in
         if retained = 0 then d\<lparr>rd_frames := [], rd_start_index := 0\<rparr>
         else if rd_start_index d < COMPACT_MIN_EVICTED_FRAMES \<or> rd_start_index d < retained then d
         else d\<lparr>rd_frames := drop (rd_start_index d) (rd_frames d), rd_start_index := 0\<rparr>))"

function evict_loop :: "ReplayDeque \<Rightarrow> ReplayDeque" where
  "evict_loop d =
     (if rd_max_bytes d < rd_retained_bytes d \<and> 0 < retained_count d
      then
        (let removed_bytes = fr_bytes (rd_frames d ! rd_start_index d) in
         evict_loop
           (d\<lparr>rd_start_index := rd_start_index d + 1,
              rd_retained_bytes := rd_retained_bytes d - removed_bytes,
              rd_retention_loss_pending := True\<rparr>))
      else d)"
  by pat_completeness auto
termination
  by (relation "measure retained_count") (auto simp: retained_count_def)

declare evict_loop.simps [simp del]

definition evict_if_needed :: "ReplayDeque \<Rightarrow> ReplayDeque" where
  "evict_if_needed d = compact_if_needed (evict_loop d)"

definition deque_set_max_bytes :: "int \<Rightarrow> ReplayDeque \<Rightarrow> ReplayDeque" where
  "deque_set_max_bytes next_max_bytes d =
     (let normalized = normalize_max_bytes next_max_bytes in
      if normalized = rd_max_bytes d then d
      else evict_if_needed (d\<lparr>rd_max_bytes := normalized\<rparr>))"

definition deque_append :: "ReplayFrameInput \<Rightarrow> nat \<Rightarrow> ReplayDeque \<Rightarrow> ReplayFrame \<times> ReplayDeque" where
  "deque_append input clock_ms d =
     (let seq = rd_next_seq d;
          bytes = byte_len (in_data input);
          frame = \<lparr>fr_seq_start = seq, fr_seq_end = seq, fr_data = in_data input, fr_bytes = bytes,
                   fr_at = (case in_at input of None \<Rightarrow> clock_ms | Some at \<Rightarrow> at),
                   fr_stream_id = (case in_stream_id input of None \<Rightarrow> DEFAULT_STREAM_ID | Some s \<Rightarrow> s),
                   fr_barrier = in_barrier input\<rparr>
      in (frame,
          evict_if_needed
            (d\<lparr>rd_next_seq := seq + 1, rd_head := seq, rd_frames := rd_frames d @ [frame],
               rd_retained_bytes := rd_retained_bytes d + bytes\<rparr>)))"

definition deque_consume_retention_loss :: "ReplayDeque \<Rightarrow> bool \<times> ReplayDeque" where
  "deque_consume_retention_loss d =
     (rd_retention_loss_pending d, d\<lparr>rd_retention_loss_pending := False\<rparr>)"

definition deque_tail_seq :: "ReplayDeque \<Rightarrow> int" where
  "deque_tail_seq d = (case first_frame d of Some f \<Rightarrow> fr_seq_start f | None \<Rightarrow> rd_head d + 1)"

definition normalize_since_seq :: "int option \<Rightarrow> int" where
  "normalize_since_seq since_seq = (case since_seq of None \<Rightarrow> 0 | Some v \<Rightarrow> v)"

definition missed_from_seq :: "ReplayDeque \<Rightarrow> int \<Rightarrow> int option" where
  "missed_from_seq d since =
     (case first_frame d of
        None \<Rightarrow> if since < rd_head d then Some (since + 1) else None
      | Some f \<Rightarrow> if since < fr_seq_start f - 1 then Some (since + 1) else None)"

function index_after_loop :: "ReplayFrame list \<Rightarrow> int \<Rightarrow> nat \<Rightarrow> nat \<Rightarrow> nat" where
  "index_after_loop frames seq low high =
     (if low < high
      then
        (let mid = (low + high) div 2 in
         if fr_seq_end (frames ! mid) \<le> seq then index_after_loop frames seq (mid + 1) high
         else index_after_loop frames seq low mid)
      else low)"
  by pat_completeness auto
termination
  by (relation "measure (\<lambda>(frames, seq, low, high). high - low)") auto

declare index_after_loop.simps [simp del]

definition first_frame_index_after :: "ReplayDeque \<Rightarrow> int \<Rightarrow> nat" where
  "first_frame_index_after d seq =
     index_after_loop (rd_frames d) seq (rd_start_index d) (length (rd_frames d))"

definition collect_replay_frames :: "ReplayDeque \<Rightarrow> int \<Rightarrow> int \<Rightarrow> ReplayFrame list" where
  "collect_replay_frames d since to_seq =
     takeWhile (\<lambda>f. fr_seq_start f \<le> to_seq) (drop (first_frame_index_after d since) (rd_frames d))"

definition deque_replay_since :: "ReplayDeque \<Rightarrow> int option \<Rightarrow> ReplaySince" where
  "deque_replay_since d since_seq =
     (let normalized = normalize_since_seq since_seq;
          missed = missed_from_seq d normalized
      in if retained_count d = 0 then \<lparr>since_frames = [], since_missed = missed\<rparr>
         else \<lparr>since_frames = collect_replay_frames d normalized i64_max, since_missed = missed\<rparr>)"

section \<open>The ring\<close>

text \<open>
  \<open>env_max_bytes\<close> is what the variable \<open>TERMINAL_REPLAY_RING_MAX_BYTES\<close> holds: \<open>None\<close> when it is
  unset, not a finite positive number or unreadable, else its floor cut to the range of \<open>usize\<close>. The
  conversion of a cap to \<open>i64\<close> wraps.
\<close>

definition resolve_max_bytes :: "nat option \<Rightarrow> int option \<Rightarrow> nat" where
  "resolve_max_bytes env_max_bytes explicit =
     (let from_env = (case env_max_bytes of None \<Rightarrow> DEFAULT_TERMINAL_REPLAY_RING_MAX_BYTES | Some n \<Rightarrow> n)
      in case explicit of
           Some v \<Rightarrow> if 0 < v then nat v else from_env
         | None \<Rightarrow> from_env)"

definition usize_as_i64 :: "nat \<Rightarrow> int" where
  "usize_as_i64 n = (if n < 2 ^ 63 then int n else int n - 2 ^ 64)"

record ReplayRing =
  ring_storage :: ReplayDeque
  ring_max_bytes :: nat

definition ring_new :: "nat option \<Rightarrow> int option \<Rightarrow> ReplayRing" where
  "ring_new env_max_bytes max_bytes =
     (let resolved = resolve_max_bytes env_max_bytes max_bytes in
      \<lparr>ring_storage = deque_new (usize_as_i64 resolved), ring_max_bytes = resolved\<rparr>)"

text \<open>The walk over the byte offsets of the encoded data: the first that starts a valid suffix wins.\<close>

fun first_valid_suffix :: "bytes \<Rightarrow> nat list \<Rightarrow> utext" where
  "first_valid_suffix encoded [] = []"
| "first_valid_suffix encoded (start # starts) =
     (case from_utf8 (drop start encoded) of
        Some decoded \<Rightarrow> decoded
      | None \<Rightarrow> first_valid_suffix encoded starts)"

definition normalize_frame_data :: "ReplayRing \<Rightarrow> utext \<Rightarrow> utext" where
  "normalize_frame_data ring data =
     (if data = [] then []
      else if ring_max_bytes ring = 0 then []
      else
        (let encoded = as_bytes data in
         if length encoded \<le> ring_max_bytes ring then data
         else
           (let start_offset = length encoded - ring_max_bytes ring in
            first_valid_suffix encoded [start_offset ..< length encoded + 1])))"

definition ring_append :: "utext \<Rightarrow> string \<Rightarrow> nat \<Rightarrow> ReplayRing \<Rightarrow> ReplayFrame \<times> ReplayRing" where
  "ring_append data stream_id clock_ms ring =
     (let normalized = normalize_frame_data ring data;
          (frame, storage) = deque_append
            \<lparr>in_data = normalized, in_stream_id = Some stream_id, in_barrier = False,
             in_at = Some clock_ms\<rparr> clock_ms (ring_storage ring)
      in (frame, ring\<lparr>ring_storage := storage\<rparr>))"

definition ring_set_max_bytes :: "nat option \<Rightarrow> int option \<Rightarrow> ReplayRing \<Rightarrow> ReplayRing" where
  "ring_set_max_bytes env_max_bytes next_max_bytes ring =
     (let resolved = resolve_max_bytes env_max_bytes next_max_bytes in
      if resolved = ring_max_bytes ring then ring
      else ring\<lparr>ring_max_bytes := resolved,
                ring_storage := deque_set_max_bytes (usize_as_i64 resolved) (ring_storage ring)\<rparr>)"

definition ring_consume_retention_loss :: "ReplayRing \<Rightarrow> bool \<times> ReplayRing" where
  "ring_consume_retention_loss ring =
     (let (pending, storage) = deque_consume_retention_loss (ring_storage ring)
      in (pending, ring\<lparr>ring_storage := storage\<rparr>))"

definition ring_replay_since :: "ReplayRing \<Rightarrow> int option \<Rightarrow> ReplaySince" where
  "ring_replay_since ring since_seq = deque_replay_since (ring_storage ring) since_seq"

definition ring_head_seq :: "ReplayRing \<Rightarrow> int" where
  "ring_head_seq ring = rd_head (ring_storage ring)"

definition ring_tail_seq :: "ReplayRing \<Rightarrow> int" where
  "ring_tail_seq ring = deque_tail_seq (ring_storage ring)"

definition ring_retained_bytes :: "ReplayRing \<Rightarrow> nat" where
  "ring_retained_bytes ring = rd_retained_bytes (ring_storage ring)"

end
