(* ===== verification/Replay_Window.thy ===== *)
theory Replay_Window
  imports Replay_Ring
begin

text \<open>
  What the replay buffer promises, as a window: a list of frames, the newest sequence number, the byte
  cap and the loss flag, with none of the deque's evicted prefix, running byte count, compaction or
  binary search. The deque refines it operation by operation.
\<close>

section \<open>The window\<close>

definition bytes_of :: "ReplayFrame list \<Rightarrow> nat" where
  "bytes_of fs = sum_list (map fr_bytes fs)"

lemma bytes_of_simps [simp]:
  "bytes_of [] = 0" "bytes_of (f # fs) = fr_bytes f + bytes_of fs"
  "bytes_of (fs @ gs) = bytes_of fs + bytes_of gs"
  by (simp_all add: bytes_of_def)

text \<open>The longest tail within the cap.\<close>

fun fit :: "nat \<Rightarrow> ReplayFrame list \<Rightarrow> ReplayFrame list" where
  "fit cap [] = []"
| "fit cap (f # fs) = (if bytes_of (f # fs) \<le> cap then f # fs else fit cap fs)"

lemma fit_bytes: "bytes_of (fit cap fs) \<le> cap"
  by (induction fs) auto

lemma fit_all [simp]: "bytes_of fs \<le> cap \<Longrightarrow> fit cap fs = fs"
  by (cases fs) auto

lemma fit_suffix: "suffix (fit cap fs) fs"
  by (induction fs) (auto intro: suffix_ConsI)

lemma fit_longest: "suffix gs fs \<Longrightarrow> bytes_of gs \<le> cap \<Longrightarrow> suffix gs (fit cap fs)"
  by (induction fs) (auto simp: suffix_Cons)

record window =
  w_frames :: "ReplayFrame list"
  w_head :: int
  w_cap :: nat
  w_loss :: bool

definition window_new :: "int \<Rightarrow> window" where
  "window_new max_bytes =
     \<lparr>w_frames = [], w_head = 0, w_cap = normalize_max_bytes max_bytes, w_loss = False\<rparr>"

definition window_fit :: "window \<Rightarrow> window" where
  "window_fit w =
     w\<lparr>w_frames := fit (w_cap w) (w_frames w), w_loss := (w_loss w \<or> w_cap w < bytes_of (w_frames w))\<rparr>"

definition frame_of :: "ReplayFrameInput \<Rightarrow> nat \<Rightarrow> int \<Rightarrow> ReplayFrame" where
  "frame_of input clock_ms seq =
     \<lparr>fr_seq_start = seq, fr_seq_end = seq, fr_data = in_data input, fr_bytes = byte_len (in_data input),
      fr_at = (case in_at input of None \<Rightarrow> clock_ms | Some at \<Rightarrow> at),
      fr_stream_id = (case in_stream_id input of None \<Rightarrow> DEFAULT_STREAM_ID | Some s \<Rightarrow> s),
      fr_barrier = in_barrier input\<rparr>"

definition window_append :: "ReplayFrameInput \<Rightarrow> nat \<Rightarrow> window \<Rightarrow> ReplayFrame \<times> window" where
  "window_append input clock_ms w =
     (let f = frame_of input clock_ms (w_head w + 1)
      in (f, window_fit (w\<lparr>w_frames := w_frames w @ [f], w_head := w_head w + 1\<rparr>)))"

definition window_set_cap :: "int \<Rightarrow> window \<Rightarrow> window" where
  "window_set_cap max_bytes w = window_fit (w\<lparr>w_cap := normalize_max_bytes max_bytes\<rparr>)"

text \<open>A replay: the kept frames after the given one, and the first missed number where frames between
  the given one and the kept ones are gone.\<close>

definition window_replay :: "window \<Rightarrow> int \<Rightarrow> ReplaySince" where
  "window_replay w since =
     \<lparr>since_frames = filter (\<lambda>f. since < fr_seq_start f) (w_frames w),
      since_missed = (if since < w_head w - int (length (w_frames w)) then Some (since + 1) else None)\<rparr>"

section \<open>The deque's invariant\<close>

definition retained :: "ReplayDeque \<Rightarrow> ReplayFrame list" where
  "retained d = drop (rd_start_index d) (rd_frames d)"

definition counted :: "ReplayDeque \<Rightarrow> bool" where
  "counted d = (rd_start_index d \<le> length (rd_frames d) \<and> rd_retained_bytes d = bytes_of (retained d))"

definition numbered :: "ReplayDeque \<Rightarrow> bool" where
  "numbered d =
     (rd_next_seq d = rd_head d + 1 \<and> int (length (rd_frames d)) \<le> rd_head d
      \<and> (\<forall>i < length (rd_frames d).
           fr_seq_start (rd_frames d ! i) = rd_head d - int (length (rd_frames d)) + int i + 1
           \<and> fr_seq_end (rd_frames d ! i) = fr_seq_start (rd_frames d ! i)
           \<and> fr_bytes (rd_frames d ! i) = byte_len (fr_data (rd_frames d ! i))))"

definition deque_wf :: "ReplayDeque \<Rightarrow> bool" where
  "deque_wf d = (counted d \<and> numbered d \<and> rd_retained_bytes d \<le> rd_max_bytes d)"

definition window_of :: "ReplayDeque \<Rightarrow> window" where
  "window_of d =
     \<lparr>w_frames = retained d, w_head = rd_head d, w_cap = rd_max_bytes d,
      w_loss = rd_retention_loss_pending d\<rparr>"

lemma retained_count_length: "retained_count d = length (retained d)"
  by (simp add: retained_count_def retained_def)

lemma first_frame_retained: "first_frame d = (case retained d of [] \<Rightarrow> None | f # fs \<Rightarrow> Some f)"
  by (auto simp: first_frame_def retained_count_def retained_def drop_eq_Nil neq_Nil_conv
      split: list.splits intro: nth_via_drop)

section \<open>Eviction and compaction\<close>

lemma evict_loop_spec:
  "counted d \<Longrightarrow>
     counted (evict_loop d) \<and> window_of (evict_loop d) = window_fit (window_of d)
     \<and> rd_frames (evict_loop d) = rd_frames d \<and> rd_next_seq (evict_loop d) = rd_next_seq d"
proof (induction d rule: evict_loop.induct)
  case (1 d)
  show ?case
  proof (cases "rd_max_bytes d < rd_retained_bytes d \<and> 0 < retained_count d")
    case False
    have "bytes_of (retained d) \<le> rd_max_bytes d"
      using False "1.prems" by (cases "retained d") (auto simp: counted_def retained_count_length)
    moreover have "evict_loop d = d"
      using False by (simp only: evict_loop.simps [of d] if_False)
    ultimately show ?thesis using "1.prems" by (simp add: window_of_def window_fit_def)
  next
    case True
    let ?d = "d\<lparr>rd_start_index := rd_start_index d + 1,
        rd_retained_bytes := rd_retained_bytes d - fr_bytes (rd_frames d ! rd_start_index d),
        rd_retention_loss_pending := True\<rparr>"
    have split: "retained d = rd_frames d ! rd_start_index d # retained ?d"
      using True by (simp add: retained_def retained_count_def Cons_nth_drop_Suc)
    have "counted ?d"
      using "1.prems" True split by (auto simp: counted_def retained_count_def)
    moreover have "window_fit (window_of ?d) = window_fit (window_of d)"
      using True split "1.prems" by (simp add: window_of_def window_fit_def counted_def)
    ultimately show ?thesis
      using "1.IH" [OF True refl] True by (simp add: evict_loop.simps [of d] Let_def)
  qed
qed

lemma compact_spec:
  assumes "counted d"
  shows "counted (compact_if_needed d) \<and> window_of (compact_if_needed d) = window_of d
    \<and> rd_next_seq (compact_if_needed d) = rd_next_seq d
    \<and> (rd_frames (compact_if_needed d) = rd_frames d
       \<or> rd_frames (compact_if_needed d) = drop (rd_start_index d) (rd_frames d))"
  using assms
  by (auto simp: compact_if_needed_def counted_def retained_count_def retained_def window_of_def Let_def)

lemma numbered_drop:
  assumes "numbered d" and "rd_frames d' = drop n (rd_frames d)"
    and "rd_next_seq d' = rd_next_seq d" and "rd_head d' = rd_head d"
  shows "numbered d'"
  using assms by (auto simp: numbered_def algebra_simps)

lemma evict_if_needed_spec:
  assumes "counted d" and "numbered d"
  shows "deque_wf (evict_if_needed d) \<and> window_of (evict_if_needed d) = window_fit (window_of d)"
proof -
  let ?e = "evict_loop d"
  have e: "counted ?e" "window_of ?e = window_fit (window_of d)" "rd_frames ?e = rd_frames d"
      "rd_next_seq ?e = rd_next_seq d"
    using evict_loop_spec [OF assms(1)] by blast+
  note c = compact_spec [OF e(1), folded evict_if_needed_def]
  have head: "rd_head ?e = rd_head d"
    using arg_cong [OF e(2), of w_head] by (simp add: window_of_def window_fit_def)
  have "numbered ?e" by (rule numbered_drop [OF assms(2), of _ 0]) (simp_all add: e head)
  moreover have "rd_head (evict_if_needed d) = rd_head ?e"
    using c arg_cong [of _ _ w_head] by (simp add: window_of_def)
  ultimately have "numbered (evict_if_needed d)"
    using c numbered_drop [of ?e "evict_if_needed d" 0] numbered_drop [of ?e "evict_if_needed d" "rd_start_index ?e"]
    by auto
  moreover have "window_of (evict_if_needed d) = window_fit (window_of d)" using c e(2) by simp
  moreover have "rd_retained_bytes (evict_if_needed d) \<le> rd_max_bytes (evict_if_needed d)"
    using c e(2) fit_bytes
    by (simp add: counted_def window_of_def window_fit_def)
  ultimately show ?thesis using c by (simp add: deque_wf_def)
qed

section \<open>The search\<close>

lemma index_after_loop_spec:
  assumes "low \<le> high" and "high \<le> length frames"
    and "\<And>i j. i \<le> j \<Longrightarrow> j < length frames \<Longrightarrow> fr_seq_end (frames ! i) \<le> fr_seq_end (frames ! j)"
  shows "low \<le> index_after_loop frames seq low high \<and> index_after_loop frames seq low high \<le> high
    \<and> (\<forall>j. low \<le> j \<longrightarrow> j < index_after_loop frames seq low high \<longrightarrow> fr_seq_end (frames ! j) \<le> seq)
    \<and> (\<forall>j. index_after_loop frames seq low high \<le> j \<longrightarrow> j < high \<longrightarrow> seq < fr_seq_end (frames ! j))"
  using assms
proof (induction frames seq low high rule: index_after_loop.induct)
  case (1 frames seq low high)
  show ?case
  proof (cases "low < high")
    case False
    then have "index_after_loop frames seq low high = low"
      by (simp only: index_after_loop.simps [of frames seq low high] if_False)
    then show ?thesis using False "1.prems"(1) by simp
  next
    case True
    define mid where "mid = (low + high) div 2"
    have mid: "low \<le> mid" "mid < high" using True by (auto simp: mid_def)
    note unfold = index_after_loop.simps [of frames seq low high, folded mid_def, unfolded Let_def]
    show ?thesis
    proof (cases "fr_seq_end (frames ! mid) \<le> seq")
      case left: True
      have "fr_seq_end (frames ! j) \<le> seq" if "j \<le> mid" for j
        using "1.prems"(3) [OF that] mid "1.prems"(2) left by (meson less_le_trans order_trans)
      then show ?thesis
        using "1.IH"(1) [OF True mid_def left _ "1.prems"(2,3)] mid True left
        by (auto simp: unfold not_less_eq_eq) (metis not_less_eq_eq)+
    next
      case right: False
      have "seq < fr_seq_end (frames ! j)" if "mid \<le> j" "j < high" for j
        using "1.prems"(3) [OF that(1)] that "1.prems"(2) right by (meson less_le_trans not_le order_trans)
      moreover have "mid \<le> length frames" using mid "1.prems"(2) by simp
      ultimately show ?thesis
        using "1.IH"(2) [OF True mid_def right mid(1) _ "1.prems"(3)] mid True right
        by (auto simp: unfold)
    qed
  qed
qed

lemma filter_drop_split:
  assumes "k \<le> length xs" and "\<And>j. j < k \<Longrightarrow> \<not> P (xs ! j)"
    and "\<And>j. k \<le> j \<Longrightarrow> j < length xs \<Longrightarrow> P (xs ! j)"
  shows "filter P xs = drop k xs"
proof -
  have "filter P (take k xs) = []" using assms(1,2) by (auto simp: filter_empty_conv in_set_conv_nth)
  moreover have "filter P (drop k xs) = drop k xs"
    using assms(3) by (auto simp: filter_id_conv in_set_conv_nth)
  ultimately show ?thesis by (metis append_Nil append_take_drop_id filter_append)
qed

lemma collect_filters:
  assumes "deque_wf d" and "rd_head d \<le> i64_max"
  shows "collect_replay_frames d since i64_max = filter (\<lambda>f. since < fr_seq_start f) (retained d)"
proof -
  let ?fs = "rd_frames d" and ?i = "first_frame_index_after d since"
  have start: "rd_start_index d \<le> length ?fs" using assms(1) by (simp add: deque_wf_def counted_def)
  have num: "fr_seq_start (?fs ! j) = rd_head d - int (length ?fs) + int j + 1"
      "fr_seq_end (?fs ! j) = fr_seq_start (?fs ! j)" if "j < length ?fs" for j
    using assms(1) that by (simp_all add: deque_wf_def numbered_def)
  have "fr_seq_end (?fs ! i) \<le> fr_seq_end (?fs ! j)" if "i \<le> j" "j < length ?fs" for i j
    using num that by simp
  from index_after_loop_spec [OF start order_refl this, folded first_frame_index_after_def]
  have i: "rd_start_index d \<le> ?i" "?i \<le> length ?fs"
    and left: "\<And>j. rd_start_index d \<le> j \<Longrightarrow> j < ?i \<Longrightarrow> fr_seq_end (?fs ! j) \<le> since"
    and right: "\<And>j. ?i \<le> j \<Longrightarrow> j < length ?fs \<Longrightarrow> since < fr_seq_end (?fs ! j)"
    by auto
  have "filter (\<lambda>f. since < fr_seq_start f) (retained d) = drop (?i - rd_start_index d) (retained d)"
  proof (rule filter_drop_split)
    show "?i - rd_start_index d \<le> length (retained d)" using i by (simp add: retained_def)
  next
    fix j assume "j < ?i - rd_start_index d"
    then have "rd_start_index d + j < ?i" by simp
    then show "\<not> since < fr_seq_start (retained d ! j)"
      using left [of "rd_start_index d + j"] num(2) [of "rd_start_index d + j"] i
      by (simp add: retained_def)
  next
    fix j assume "?i - rd_start_index d \<le> j" "j < length (retained d)"
    then show "since < fr_seq_start (retained d ! j)"
      using right [of "rd_start_index d + j"] num [of "rd_start_index d + j"] start by (simp add: retained_def)
  qed
  also have "\<dots> = drop ?i ?fs" using i by (simp add: retained_def)
  finally have "filter (\<lambda>f. since < fr_seq_start f) (retained d) = drop ?i ?fs" .
  moreover have "fr_seq_start f \<le> i64_max" if "f \<in> set (drop ?i ?fs)" for f
    using that assms(2) num by (auto simp: in_set_conv_nth dest!: in_set_dropD)
  ultimately show ?thesis by (simp add: collect_replay_frames_def takeWhile_eq_all_conv)
qed

end
