(* ===== verification/Replay_Props.thy ===== *)
theory Replay_Props
  imports Replay_Window
begin

text \<open>
  The properties of the replay buffer: the refinement, the gap detector, what an oversized chunk
  leaves behind, and the log contract on the deque.
\<close>

section \<open>The deque refines the window\<close>

lemma deque_new_wf: "deque_wf (deque_new m)" "window_of (deque_new m) = window_new m"
  by (simp_all add: deque_wf_def counted_def numbered_def deque_new_def retained_def window_of_def
      window_new_def)

lemma deque_append_spec:
  assumes "deque_wf d"
  shows "deque_wf (snd (deque_append input clock d))
    \<and> window_of (snd (deque_append input clock d)) = snd (window_append input clock (window_of d))
    \<and> fst (deque_append input clock d) = fst (window_append input clock (window_of d))"
proof -
  let ?f = "frame_of input clock (rd_next_seq d)"
  let ?d = "d\<lparr>rd_next_seq := rd_next_seq d + 1, rd_head := rd_next_seq d, rd_frames := rd_frames d @ [?f],
      rd_retained_bytes := rd_retained_bytes d + byte_len (in_data input)\<rparr>"
  have next_seq: "rd_next_seq d = rd_head d + 1" using assms by (simp add: deque_wf_def numbered_def)
  have app: "deque_append input clock d = (?f, evict_if_needed ?d)"
    by (simp add: deque_append_def frame_of_def Let_def)
  have "counted ?d" and "numbered ?d"
    using assms by (auto simp: deque_wf_def counted_def numbered_def retained_def frame_of_def nth_append)
  from evict_if_needed_spec [OF this]
  have "deque_wf (evict_if_needed ?d)" "window_of (evict_if_needed ?d) = window_fit (window_of ?d)"
    by blast+
  moreover have "window_of ?d = window_of d\<lparr>w_frames := retained d @ [?f], w_head := rd_head d + 1\<rparr>"
    using assms next_seq by (simp add: window_of_def retained_def deque_wf_def counted_def)
  ultimately show ?thesis
    by (simp add: app window_append_def Let_def) (simp add: window_of_def next_seq)
qed

lemma deque_set_max_bytes_spec:
  assumes "deque_wf d"
  shows "deque_wf (deque_set_max_bytes m d) \<and> window_of (deque_set_max_bytes m d) = window_set_cap m (window_of d)"
proof (cases "normalize_max_bytes m = rd_max_bytes d")
  case True
  then show ?thesis
    using assms by (simp add: deque_set_max_bytes_def window_set_cap_def window_fit_def window_of_def
        deque_wf_def counted_def)
next
  case False
  let ?d = "d\<lparr>rd_max_bytes := normalize_max_bytes m\<rparr>"
  have "counted ?d" "numbered ?d"
    using assms by (auto simp: deque_wf_def counted_def numbered_def retained_def)
  from evict_if_needed_spec [OF this] False show ?thesis
    by (simp add: deque_set_max_bytes_def Let_def window_set_cap_def window_of_def retained_def)
qed

lemma deque_consume_spec:
  "deque_wf d \<Longrightarrow> deque_wf (snd (deque_consume_retention_loss d))
    \<and> window_of (snd (deque_consume_retention_loss d)) = window_of d\<lparr>w_loss := False\<rparr>"
  by (simp add: deque_consume_retention_loss_def deque_wf_def counted_def numbered_def retained_def window_of_def)

lemma retained_seq:
  assumes "deque_wf d" and "i < length (retained d)"
  shows "fr_seq_start (retained d ! i) = rd_head d - int (length (retained d)) + int i + 1"
  using assms by (auto simp: deque_wf_def counted_def numbered_def retained_def)

lemma missed_from_seq_window:
  assumes "deque_wf d"
  shows "missed_from_seq d since = since_missed (window_replay (window_of d) since)"
  using retained_seq [OF assms, of 0]
  by (cases "retained d") (auto simp: missed_from_seq_def first_frame_retained window_replay_def window_of_def)

lemma deque_replay_since_spec:
  assumes "deque_wf d" and "rd_head d \<le> i64_max"
  shows "deque_replay_since d since = window_replay (window_of d) (normalize_since_seq since)"
  using collect_filters [OF assms] missed_from_seq_window [OF assms(1)]
  by (auto simp: deque_replay_since_def Let_def retained_count_length window_replay_def window_of_def)

text \<open>C19: the deque implements the window exactly: appending, resizing, reading the loss flag and
  replaying give the window's results and the window's next state, whatever its evicted prefix and
  compaction state, and keep its byte count and numbering sound.\<close>

theorem deque_refines_window:
  assumes "deque_wf d" and "rd_head d \<le> i64_max"
  shows "window_of (snd (deque_append input clock d)) = snd (window_append input clock (window_of d))
    \<and> fst (deque_append input clock d) = fst (window_append input clock (window_of d))
    \<and> window_of (deque_set_max_bytes m d) = window_set_cap m (window_of d)
    \<and> fst (deque_consume_retention_loss d) = w_loss (window_of d)
    \<and> window_of (snd (deque_consume_retention_loss d)) = window_of d\<lparr>w_loss := False\<rparr>
    \<and> deque_replay_since d since = window_replay (window_of d) (normalize_since_seq since)
    \<and> deque_wf (snd (deque_append input clock d)) \<and> deque_wf (deque_set_max_bytes m d)
    \<and> deque_wf (snd (deque_consume_retention_loss d))"
  using deque_append_spec [OF assms(1)] deque_set_max_bytes_spec [OF assms(1)]
    deque_consume_spec [OF assms(1)] deque_replay_since_spec [OF assms]
  by (simp add: deque_consume_retention_loss_def window_of_def)

theorem deque_refines_window_witness:
  "let d = snd (deque_append \<lparr>in_data = [104, 105], in_stream_id = None, in_barrier = False, in_at = None\<rparr> 0
                  (deque_new 10))
   in deque_wf d
      \<and> w_frames (window_of d)
          = [frame_of \<lparr>in_data = [104, 105], in_stream_id = None, in_barrier = False, in_at = None\<rparr> 0 1]
      \<and> window_of (deque_set_max_bytes 5 (deque_new 10)) = window_set_cap 5 (window_new 10)"
proof -
  let ?input = "\<lparr>in_data = [104, 105], in_stream_id = None, in_barrier = False, in_at = None\<rparr>"
  have "rd_head (deque_new 10) \<le> i64_max" by (simp add: deque_new_def i64_max_def)
  note d = deque_refines_window [OF deque_new_wf(1) this, of ?input 0 5]
  have "normalize_max_bytes 10 = 10" by (simp add: normalize_max_bytes_def)
  then have "w_frames (snd (window_append ?input 0 (window_new 10))) = [frame_of ?input 0 1]"
    by (simp add: Let_def window_append_def window_new_def window_fit_def frame_of_def len_utf8_def)
  then show ?thesis using d by (simp add: Let_def deque_new_wf(2))
qed

section \<open>Sequences of operations\<close>

lemma evict_loop_max: "rd_max_bytes (evict_loop d) = rd_max_bytes d"
  by (induction d rule: evict_loop.induct) (subst evict_loop.simps, simp add: Let_def)

lemma deque_append_max: "rd_max_bytes (snd (deque_append input clock d)) = rd_max_bytes d"
  by (simp add: deque_append_def evict_if_needed_def compact_if_needed_def evict_loop_max Let_def)

datatype replay_op = Append ReplayFrameInput nat | Set_max int | Consume

fun replay_apply :: "replay_op \<Rightarrow> ReplayDeque \<Rightarrow> ReplayDeque" where
  "replay_apply (Append input clock) d = snd (deque_append input clock d)"
| "replay_apply (Set_max m) d = deque_set_max_bytes m d"
| "replay_apply Consume d = snd (deque_consume_retention_loss d)"

lemma replay_apply_wf: "deque_wf d \<Longrightarrow> deque_wf (replay_apply p d)"
  using deque_append_spec deque_set_max_bytes_spec deque_consume_spec by (cases p) auto

lemma replay_apply_head:
  assumes "deque_wf d"
  shows "rd_head (replay_apply p d) \<le> rd_head d + 1"
proof (cases p)
  case (Append input clock)
  then show ?thesis
    using arg_cong [OF conjunct1 [OF conjunct2 [OF deque_append_spec [OF assms, of input clock]]], of w_head]
    by (simp add: window_of_def window_append_def window_fit_def Let_def)
next
  case (Set_max m)
  then show ?thesis
    using arg_cong [OF conjunct2 [OF deque_set_max_bytes_spec [OF assms, of m]], of w_head]
    by (simp add: window_of_def window_set_cap_def window_fit_def)
qed (simp add: deque_consume_retention_loss_def)

lemma replay_run:
  "deque_wf d \<Longrightarrow> deque_wf (fold replay_apply ps d) \<and> rd_head (fold replay_apply ps d) \<le> rd_head d + int (length ps)"
proof (induction ps arbitrary: d)
  case (Cons p ps)
  from Cons.IH [OF replay_apply_wf [OF Cons.prems, of p]] replay_apply_head [OF Cons.prems, of p]
  show ?case by simp
qed simp

text \<open>C32: a replay never hides a gap: after any sequence of appends, resizes and reads of the loss flag,
  the answer reports no missed frame exactly when it carries every number from the one after the
  client's last to the newest, in order; otherwise it names the first one missed.\<close>

theorem replay_has_no_silent_gap:
  assumes "length ps < 2 ^ 63"
  shows "let d = fold replay_apply ps (deque_new m); since = normalize_since_seq since_seq;
             answer = deque_replay_since d since_seq
         in (since_missed answer = None) =
              (map fr_seq_start (since_frames answer) = [since + 1 .. rd_head d])
            \<and> since_missed answer \<in> {None, Some (since + 1)}
            \<and> bytes_of (since_frames answer) \<le> rd_max_bytes d"
proof -
  let ?d = "fold replay_apply ps (deque_new m)" and ?s = "normalize_since_seq since_seq"
  let ?n = "length (retained ?d)"
  have wf: "deque_wf ?d" and "rd_head ?d \<le> int (length ps)"
    using replay_run [OF deque_new_wf(1), of ps m] by (auto simp: deque_new_def)
  then have "rd_head ?d \<le> i64_max" using assms by (simp add: i64_max_def)
  from deque_replay_since_spec [OF wf this]
  have answer: "deque_replay_since ?d since_seq = window_replay (window_of ?d) ?s" .
  have seqs: "map fr_seq_start (retained ?d) = [rd_head ?d - int ?n + 1 .. rd_head ?d]"
    using retained_seq [OF wf] by (intro nth_equalityI) auto
  have "map fr_seq_start (filter (\<lambda>f. ?s < fr_seq_start f) (retained ?d))
      = filter (\<lambda>q. ?s < q) [rd_head ?d - int ?n + 1 .. rd_head ?d]"
    by (simp add: seqs [symmetric] filter_map o_def)
  also have "\<dots> = [max (?s + 1) (rd_head ?d - int ?n + 1) .. rd_head ?d]"
    by (rule filter_upto_above)
  finally have got: "map fr_seq_start (filter (\<lambda>f. ?s < fr_seq_start f) (retained ?d))
      = [max (?s + 1) (rd_head ?d - int ?n + 1) .. rd_head ?d]" .
  have "bytes_of (filter P (retained ?d)) \<le> bytes_of (retained ?d)" for P
    by (simp add: bytes_of_def sum_list_filter_le)
  moreover have "bytes_of (retained ?d) \<le> rd_max_bytes ?d"
    using wf by (simp add: deque_wf_def counted_def)
  moreover have "bytes_of (since_frames (window_replay (window_of ?d) ?s)) \<le> rd_max_bytes ?d"
    using calculation order_trans by (fastforce simp: window_replay_def window_of_def)
  ultimately show ?thesis
    unfolding Let_def answer
    using upto_from_eq [of ?s "rd_head ?d" ?n] by (auto simp: window_replay_def window_of_def got)
qed

theorem replay_has_no_silent_gap_witness:
  "since_missed (deque_replay_since (fold replay_apply
      [Append \<lparr>in_data = [104, 105], in_stream_id = None, in_barrier = False, in_at = None\<rparr> 3, Set_max 1]
      (deque_new 10)) None) = Some 1"
proof -
  let ?i = "\<lparr>in_data = [104, 105], in_stream_id = None, in_barrier = False, in_at = None\<rparr>"
  let ?ps = "[Append ?i 3, Set_max 1]"
  have "length ?ps < 2 ^ 63" by simp
  note gap = replay_has_no_silent_gap [OF this, of 10 None, unfolded Let_def]
  have w: "window_of (snd (deque_append ?i 3 (deque_new 10))) = snd (window_append ?i 3 (window_new 10))"
    and wf: "deque_wf (snd (deque_append ?i 3 (deque_new 10)))"
    using deque_append_spec [OF deque_new_wf(1), of ?i 3 10] by (simp_all add: deque_new_wf)
  have w2: "window_of (fold replay_apply ?ps (deque_new 10)) = window_set_cap 1 (snd (window_append ?i 3 (window_new 10)))"
    using conjunct2 [OF deque_set_max_bytes_spec [OF wf, of 1]] w by simp
  have "rd_head (fold replay_apply ?ps (deque_new 10)) = 1"
    using arg_cong [OF w2, of w_head] by (simp add: window_of_def window_set_cap_def window_fit_def
        window_append_def window_new_def Let_def)
  moreover have "rd_max_bytes (fold replay_apply ?ps (deque_new 10)) = 1"
    using arg_cong [OF w2, of w_cap] by (simp add: window_of_def window_set_cap_def window_fit_def
        normalize_max_bytes_def)
  moreover have "retained (fold replay_apply ?ps (deque_new 10)) = []"
    using arg_cong [OF w2, of w_frames] by (simp add: window_of_def window_set_cap_def window_fit_def
        normalize_max_bytes_def window_append_def window_new_def frame_of_def len_utf8_def Let_def)
  ultimately have "since_frames (deque_replay_since (fold replay_apply ?ps (deque_new 10)) None) = []"
    and "rd_head (fold replay_apply ?ps (deque_new 10)) = 1"
    by (simp_all add: deque_replay_since_def retained_count_length Let_def)
  with gap show ?thesis by (auto simp: normalize_since_seq_def)
qed

section \<open>The log contract\<close>

definition retained_data :: "ReplayDeque \<Rightarrow> utext" where
  "retained_data d = concat (map fr_data (retained d))"

definition data_input :: "utext \<Rightarrow> ReplayFrameInput" where
  "data_input data = \<lparr>in_data = data, in_stream_id = None, in_barrier = False, in_at = None\<rparr>"

lemma bytes_of_data:
  assumes "deque_wf d"
  shows "bytes_of (retained d) = byte_len (retained_data d)"
proof -
  have "fr_bytes f = byte_len (fr_data f)" if "f \<in> set (retained d)" for f
    using assms that by (auto simp: deque_wf_def numbered_def retained_def in_set_conv_nth dest!: in_set_dropD)
  then have "map fr_bytes (retained d) = map (byte_len \<circ> fr_data) (retained d)" by simp
  moreover have "byte_len (concat ts) = sum_list (map byte_len ts)" for ts
    by (induction ts) simp_all
  ultimately show ?thesis by (simp only: bytes_of_def retained_data_def map_map)
qed

lemma deque_append_retained:
  assumes "deque_wf d"
  shows "retained (snd (deque_append input clock d))
    = fit (rd_max_bytes d) (retained d @ [frame_of input clock (rd_head d + 1)])"
    and "rd_max_bytes (snd (deque_append input clock d)) = rd_max_bytes d"
  using deque_append_spec [OF assms, of input clock]
  by (auto simp: window_append_def window_fit_def window_of_def Let_def)

lemma concat_suffix: "suffix fs gs \<Longrightarrow> suffix (concat (map f fs)) (concat (map f gs))"
  by (auto simp: suffix_def)

interpretation replay_log: log_buffer deque_wf "\<lambda>data d. snd (deque_append (data_input data) clock d)"
  "\<lambda>data. data" retained_data byte_len rd_max_bytes for clock
proof unfold_locales
  fix d data
  show "deque_wf d \<Longrightarrow> deque_wf (snd (deque_append (data_input data) clock d))"
    using deque_append_spec by blast
  show "rd_max_bytes (snd (deque_append (data_input data) clock d)) = rd_max_bytes d"
    by (simp add: deque_append_max)
  assume wf: "deque_wf d"
  let ?f = "frame_of (data_input data) clock (rd_head d + 1)"
  have whole: "concat (map fr_data (retained d @ [?f])) = retained_data d @ data"
    by (simp add: retained_data_def frame_of_def data_input_def)
  show "suffix (retained_data (snd (deque_append (data_input data) clock d))) (retained_data d @ data)"
    using concat_suffix [OF fit_suffix] by (metis deque_append_retained(1) [OF wf] retained_data_def whole)
  show "byte_len (retained_data d) \<le> rd_max_bytes d"
    using wf bytes_of_data [OF wf] by (simp add: deque_wf_def counted_def)
  assume "byte_len (retained_data d @ data) \<le> rd_max_bytes d"
  then have "bytes_of (retained d @ [?f]) \<le> rd_max_bytes d"
    using bytes_of_data [OF wf] by (simp add: frame_of_def data_input_def)
  then show "retained_data (snd (deque_append (data_input data) clock d)) = retained_data d @ data"
    using whole by (simp add: deque_append_retained(1) [OF wf] retained_data_def)
qed simp

text \<open>Through any stream of output the deque holds the newest end of it, never more bytes than the
  cap, and all of it while it fits.\<close>

theorem replay_keeps_newest_end:
  "let d = fold (\<lambda>data d. snd (deque_append (data_input data) clock d)) chunks (deque_new m)
   in suffix (retained_data d) (concat chunks)
      \<and> byte_len (retained_data d) \<le> normalize_max_bytes m
      \<and> (byte_len (concat chunks) > normalize_max_bytes m \<or> retained_data d = concat chunks)"
proof -
  have empty: "retained_data (deque_new m) = []" "rd_max_bytes (deque_new m) = normalize_max_bytes m"
    by (simp_all add: retained_data_def retained_def deque_new_def)
  show ?thesis
    using replay_log.puts_suffix [OF deque_new_wf(1), of clock chunks m]
      replay_log.puts_bounded [OF deque_new_wf(1), of clock chunks m]
      replay_log.puts_exact [OF deque_new_wf(1), of m chunks clock]
    by (cases "byte_len (concat chunks) \<le> normalize_max_bytes m") (auto simp: Let_def empty)
qed

section \<open>Oversized chunks\<close>

text \<open>The characters left when a number of bytes is cut off the front, whole characters only.\<close>

fun drop_bytes :: "nat \<Rightarrow> utext \<Rightarrow> utext" where
  "drop_bytes n [] = []"
| "drop_bytes n (c # t) = (if n = 0 then c # t else drop_bytes (n - len_utf8 c) t)"

lemma drop_bytes_0 [simp]: "drop_bytes 0 t = t"
  by (cases t) simp_all

lemma drop_bytes_suffix: "suffix (drop_bytes n t) t"
  by (induction n t rule: drop_bytes.induct) (auto intro: suffix_ConsI)

lemma drop_bytes_len: "byte_len (drop_bytes n t) \<le> byte_len t - n"
proof (induction n t rule: drop_bytes.induct)
  case (2 n c t)
  then show ?case by (cases "n = 0") (auto simp: algebra_simps)
qed simp

lemma byte_len_suffix: "suffix s t \<Longrightarrow> byte_len s \<le> byte_len t"
  by (auto simp: suffix_def)

lemma drop_bytes_longest:
  "suffix s t \<Longrightarrow> byte_len s \<le> byte_len t - n \<Longrightarrow> suffix s (drop_bytes n t)"
proof (induction n t rule: drop_bytes.induct)
  case (2 n c t)
  show ?case
  proof (cases "n = 0")
    case False
    moreover have "0 < byte_len (c # t)" using len_pos(1) [of c] by simp
    ultimately have "byte_len s < byte_len (c # t)" using "2.prems"(2) by arith
    then have tail: "suffix s t" using "2.prems"(1) by (auto simp: suffix_Cons)
    then have "byte_len s \<le> byte_len t - (n - len_utf8 c)"
      using "2.prems"(2) byte_len_suffix [OF tail] by simp
    then show ?thesis using "2.IH" [OF False tail] False by simp
  qed (use "2.prems" in simp)
qed simp

lemma first_valid_suffix_shift:
  "first_valid_suffix (xs @ bs) (map (\<lambda>n. n + length xs) ns) = first_valid_suffix bs ns"
  by (induction ns) (simp_all split: option.splits)

lemma first_valid_suffix_skip:
  "\<forall>n \<in> set ns. from_utf8 (drop n bs) = None \<Longrightarrow> first_valid_suffix bs (ns @ ms) = first_valid_suffix bs ms"
  by (induction ns) simp_all

lemma first_valid_suffix_drop_bytes:
  "valid_text t \<Longrightarrow> n \<le> byte_len t \<Longrightarrow> first_valid_suffix (as_bytes t) [n ..< byte_len t + 1] = drop_bytes n t"
proof (induction t arbitrary: n)
  case (Cons c t)
  have valid: "is_scalar c" "valid_text t" using Cons.prems(1) by simp_all
  show ?case
  proof (cases "n = 0")
    case True
    have "[0 ..< byte_len (c # t) + 1] = 0 # [1 ..< byte_len (c # t) + 1]" by (simp add: upt_rec)
    then show ?thesis using True from_utf8_as_bytes [OF Cons.prems(1)] by simp
  next
    case False
    let ?l = "len_utf8 c" and ?m = "max n (len_utf8 c)"
    have "[n ..< byte_len (c # t) + 1] = [n ..< ?m] @ [?m ..< byte_len (c # t) + 1]"
      using Cons.prems(2) upt_add_eq_append [of n ?m "byte_len (c # t) + 1 - ?m"] by (simp add: max_def)
    moreover have "\<forall>i \<in> set [n ..< ?m]. from_utf8 (drop i (as_bytes (c # t))) = None"
      using False from_utf8_inside by auto
    moreover have "[?m ..< byte_len (c # t) + 1] = map (\<lambda>i. i + ?l) [n - ?l ..< byte_len t + 1]"
    proof -
      have "n - ?l + ?l = ?m" "byte_len t + 1 + ?l = byte_len (c # t) + 1" by (simp_all add: max_def)
      then show ?thesis by (simp only: map_shift_upt)
    qed
    ultimately have "first_valid_suffix (as_bytes (c # t)) [n ..< byte_len (c # t) + 1]
        = first_valid_suffix (as_bytes t) [n - ?l ..< byte_len t + 1]"
      using first_valid_suffix_shift [of "encode_char c" "as_bytes t"] by (simp add: first_valid_suffix_skip)
    also have "\<dots> = drop_bytes (n - ?l) t"
    proof (rule Cons.IH [OF valid(2)])
      have "n \<le> ?l + byte_len t" using Cons.prems(2) by simp
      then show "n - ?l \<le> byte_len t" by linarith
    qed
    finally show ?thesis using False by simp
  qed
qed simp

lemma drop_bytes_all: "byte_len t \<le> n \<Longrightarrow> drop_bytes n t = []"
  using drop_bytes_len [of n t] by simp

lemma normalize_frame_data_eq:
  assumes "valid_text data"
  shows "normalize_frame_data ring data = drop_bytes (byte_len data - ring_max_bytes ring) data"
proof -
  have "first_valid_suffix (as_bytes data) [byte_len data - ring_max_bytes ring ..< byte_len data + 1]
      = drop_bytes (byte_len data - ring_max_bytes ring) data"
    by (rule first_valid_suffix_drop_bytes [OF assms]) simp
  then show ?thesis by (auto simp: normalize_frame_data_def Let_def drop_bytes_all simp del: upt_Suc)
qed

text \<open>An oversized chunk is cut to the longest run of its last whole characters that fits the cap: the
  walk over byte offsets never keeps a broken character and never drops one that would have fitted.\<close>

theorem normalize_frame_data_longest:
  assumes "valid_text data"
  shows "let kept = normalize_frame_data ring data
         in suffix kept data \<and> byte_len kept \<le> ring_max_bytes ring
            \<and> (\<forall>s. suffix s data \<longrightarrow> byte_len s \<le> ring_max_bytes ring \<longrightarrow> suffix s kept)"
proof -
  let ?n = "byte_len data - ring_max_bytes ring"
  have "byte_len s \<le> byte_len data - ?n" if "suffix s data" "byte_len s \<le> ring_max_bytes ring" for s
    using that byte_len_suffix [OF that(1)] by simp
  then show ?thesis
    using drop_bytes_suffix drop_bytes_len [of ?n data] drop_bytes_longest [of _ data ?n]
    by (simp add: normalize_frame_data_eq [OF assms] Let_def)
qed

theorem normalize_frame_data_longest_witness:
  "normalize_frame_data (ring_new None (Some 5)) [0x1F600, 0x1F600] = [0x1F600]"
proof -
  let ?kept = "normalize_frame_data (ring_new None (Some 5)) [0x1F600, 0x1F600]"
  have "valid_text [0x1F600, 0x1F600]" by (simp add: is_scalar_def)
  note kept = normalize_frame_data_longest [OF this, of "ring_new None (Some 5)", unfolded Let_def]
  have five: "ring_max_bytes (ring_new None (Some 5)) = 5" by (simp add: ring_new_def resolve_max_bytes_def)
  have "suffix [0x1F600] ?kept"
    using kept five by (simp add: suffix_ConsI len_utf8_def)
  moreover have "byte_len ?kept \<le> 5" "suffix ?kept [0x1F600, 0x1F600]" using kept five by auto
  ultimately show ?thesis by (auto simp: suffix_Cons len_utf8_def)
qed

section \<open>The ring\<close>

definition ring_wf :: "ReplayRing \<Rightarrow> bool" where
  "ring_wf ring = (deque_wf (ring_storage ring) \<and> rd_max_bytes (ring_storage ring) = ring_max_bytes ring)"

lemma ring_new_wf:
  assumes "resolve_max_bytes env m < 2 ^ 63"
  shows "ring_wf (ring_new env m)"
proof -
  have "normalize_max_bytes (usize_as_i64 (resolve_max_bytes env m)) = resolve_max_bytes env m"
    using assms by (simp add: normalize_max_bytes_def usize_as_i64_def)
  then show ?thesis
    using deque_new_wf(1) by (simp add: ring_wf_def ring_new_def Let_def) (simp add: deque_new_def)
qed

lemma normalize_frame_data_len:
  "valid_text data \<Longrightarrow> byte_len (normalize_frame_data ring data) \<le> ring_max_bytes ring"
  using drop_bytes_len [of "byte_len data - ring_max_bytes ring" data] by (simp add: normalize_frame_data_eq)

lemma ring_append_head:
  assumes "ring_wf ring" and "valid_text data"
  shows "ring_head_seq (snd (ring_append data stream clock ring)) = ring_head_seq ring + 1"
  using assms deque_append_spec [of "ring_storage ring"]
  by (auto simp: ring_wf_def ring_append_def ring_head_seq_def Let_def case_prod_beta window_append_def
      window_fit_def window_of_def)

text \<open>Whatever its size, the chunk just appended is what the ring holds newest: its frame is retained
  with the next sequence number, and the ring's cap and the deque's stay the same number.\<close>

theorem ring_append_keeps_frame:
  assumes "ring_wf ring" and "valid_text data"
  shows "let (frame, ring') = ring_append data stream clock ring
         in ring_wf ring' \<and> ring_head_seq ring' = ring_head_seq ring + 1
            \<and> fr_seq_start frame = ring_head_seq ring'
            \<and> suffix [frame] (retained (ring_storage ring'))
            \<and> ring_retained_bytes ring' \<le> ring_max_bytes ring'"
proof -
  let ?d = "ring_storage ring"
  let ?input = "\<lparr>in_data = normalize_frame_data ring data, in_stream_id = Some stream, in_barrier = False,
      in_at = Some clock\<rparr>"
  let ?f = "frame_of ?input clock (rd_head ?d + 1)" and ?d' = "snd (deque_append ?input clock ?d)"
  have wf: "deque_wf ?d" and cap: "rd_max_bytes ?d = ring_max_bytes ring"
    using assms(1) by (simp_all add: ring_wf_def)
  note spec = deque_append_spec [OF wf, of ?input clock]
  have head: "rd_head ?d' = rd_head ?d + 1"
    using spec by (auto simp: window_of_def window_append_def window_fit_def Let_def)
  have frame: "fst (deque_append ?input clock ?d) = ?f"
    using spec by (simp add: window_append_def Let_def window_of_def)
  have "suffix [?f] (fit (rd_max_bytes ?d) (retained ?d @ [?f]))"
    using normalize_frame_data_len [OF assms(2), of ring] cap
    by (intro fit_longest) (simp_all add: frame_of_def suffix_def)
  then have "suffix [?f] (retained ?d')" by (simp add: deque_append_retained(1) [OF wf])
  moreover have "rd_retained_bytes ?d' \<le> rd_max_bytes ?d'" using spec by (simp add: deque_wf_def)
  ultimately show ?thesis
    using conjunct1 [OF spec] head
    by (simp add: ring_append_def Let_def case_prod_beta ring_wf_def ring_head_seq_def
        ring_retained_bytes_def deque_append_max cap frame)
       (simp add: frame_of_def)
qed

theorem ring_append_keeps_frame_witness:
  "ring_head_seq (snd (ring_append [0x1F600, 0x1F600] ''stream-1'' 3 (ring_new None (Some 5)))) = 1"
proof -
  have "ring_wf (ring_new None (Some 5))" by (rule ring_new_wf) (simp add: resolve_max_bytes_def)
  moreover have "valid_text [0x1F600, 0x1F600]" by (simp add: is_scalar_def)
  moreover have "ring_head_seq (ring_new None (Some 5)) = 0"
    by (simp add: ring_head_seq_def ring_new_def deque_new_def Let_def)
  ultimately show ?thesis
    using ring_append_keeps_frame [of "ring_new None (Some 5)" "[0x1F600, 0x1F600]" "''stream-1''" 3]
    by (simp add: case_prod_beta Let_def)
qed

text \<open>A cap from the environment at or above \<open>2 ^ 63\<close> turns into an empty deque: the conversion to
  \<open>i64\<close> makes it negative, so the ring reports a huge budget and retains no output at all.\<close>

theorem huge_env_cap_retains_nothing:
  assumes "2 ^ 63 \<le> n" and "n < 2 ^ 64" and "valid_text data" and "data \<noteq> []" and "byte_len data \<le> n"
  shows "let ring = snd (ring_append data stream clock (ring_new (Some n) None))
         in ring_max_bytes ring = n \<and> ring_retained_bytes ring = 0
            \<and> ring_replay_since ring None = \<lparr>since_frames = [], since_missed = Some 1\<rparr>"
proof -
  let ?ring = "ring_new (Some n) None"
  let ?input = "\<lparr>in_data = data, in_stream_id = Some stream, in_barrier = False, in_at = Some clock\<rparr>"
  let ?d' = "snd (deque_append ?input clock (deque_new 0))"
  have "n < 18446744073709551616" using assms(2) by simp
  then have "int n - 2 ^ 64 \<le> 0" by simp
  then have new: "?ring = \<lparr>ring_storage = deque_new 0, ring_max_bytes = n\<rparr>"
    using assms(1) by (simp add: ring_new_def resolve_max_bytes_def usize_as_i64_def deque_new_def
        normalize_max_bytes_def)
  have "normalize_frame_data ?ring data = data"
    using assms(1,4,5) by (simp add: new normalize_frame_data_def Let_def)
  then have ring: "snd (ring_append data stream clock ?ring) = \<lparr>ring_storage = ?d', ring_max_bytes = n\<rparr>"
    by (simp add: ring_append_def Let_def case_prod_beta new)
  have "0 < byte_len data" using assms(4) by (metis byte_len_zero gr0I)
  then have w: "window_of ?d' = \<lparr>w_frames = [], w_head = 1, w_cap = 0, w_loss = True\<rparr>"
    and wf: "deque_wf ?d'"
    using deque_append_spec [OF deque_new_wf(1), of ?input clock 0]
    by (auto simp: window_append_def window_fit_def deque_new_wf(2) window_new_def normalize_max_bytes_def
        frame_of_def Let_def)
  then have "retained ?d' = []" "rd_head ?d' = 1" by (simp_all add: window_of_def)
  moreover have "rd_retained_bytes ?d' = bytes_of (retained ?d')" using wf by (simp add: deque_wf_def counted_def)
  ultimately show ?thesis
    using deque_replay_since_spec [OF wf, of None] w
    by (simp add: ring Let_def ring_retained_bytes_def ring_replay_since_def window_replay_def
        normalize_since_seq_def i64_max_def)
qed

theorem huge_env_cap_retains_nothing_witness:
  "ring_retained_bytes (snd (ring_append [104, 105] ''stream-1'' 3 (ring_new (Some (10 ^ 19)) None))) = 0"
proof -
  have "valid_text [104, 105]" by (simp add: is_scalar_def)
  then show ?thesis
    using huge_env_cap_retains_nothing [of "10 ^ 19" "[104, 105]" "''stream-1''" 3]
    by (simp add: Let_def len_utf8_def)
qed

end
