(* ===== verification/Chunk_Ring.thy ===== *)
theory Chunk_Ring
  imports Replay_Props
begin

text \<open>
  The character-measured scrollback, \<open>ChunkRingBuffer\<close> (crates/freshell-terminal/src/chunk_ring.rs),
  its trimming in UTF-16 code units, and the rule that seeds the replay ring from it on the first
  attach. Sizes are \<open>i64\<close> in the code and \<open>int\<close> here.
\<close>

record ChunkRingBuffer =
  cr_chunks :: "utext list"
  cr_size :: int
  cr_max_chars :: int

definition DEFAULT_SCROLLBACK_MAX_CHARS :: int where
  "DEFAULT_SCROLLBACK_MAX_CHARS = 512 * 1024"

definition chunk_new :: "int \<Rightarrow> ChunkRingBuffer" where
  "chunk_new max_chars = \<lparr>cr_chunks = [], cr_size = 0, cr_max_chars = max_chars\<rparr>"

definition chunk_clear :: "ChunkRingBuffer \<Rightarrow> ChunkRingBuffer" where
  "chunk_clear b = b\<lparr>cr_chunks := [], cr_size := 0\<rparr>"

definition snapshot :: "ChunkRingBuffer \<Rightarrow> utext" where
  "snapshot b = concat (cr_chunks b)"

text \<open>The characters from the back, as long as the next one still fits.\<close>

fun slice_loop :: "int \<Rightarrow> utext \<Rightarrow> int \<Rightarrow> utext \<Rightarrow> utext" where
  "slice_loop m [] units kept = kept"
| "slice_loop m (c # cs) units kept =
     (if m < units + int (len_utf16 c) then kept
      else slice_loop m cs (units + int (len_utf16 c)) (kept @ [c]))"

definition slice_last_utf16 :: "utext \<Rightarrow> int \<Rightarrow> utext" where
  "slice_last_utf16 s m = (if m \<le> 0 then [] else rev (slice_loop m (rev s) 0 []))"

text \<open>Whole chunks off the front, while over the cap and more than one remains.\<close>

fun trim_loop :: "int \<Rightarrow> utext list \<Rightarrow> int \<Rightarrow> utext list \<times> int" where
  "trim_loop m (removed # c # cs) sz =
     (if m < sz then trim_loop m (c # cs) (sz - int (utf16_len removed))
      else (removed # c # cs, sz))"
| "trim_loop m chunks sz = (chunks, sz)"

definition trim_to_max :: "ChunkRingBuffer \<Rightarrow> ChunkRingBuffer" where
  "trim_to_max b =
     (let m = cr_max_chars b in
      if m \<le> 0 then chunk_clear b
      else
        (let (chunks, sz) = trim_loop m (cr_chunks b) (cr_size b) in
         if m < sz \<and> length chunks = 1
         then (let kept = slice_last_utf16 (chunks ! 0) m in
               b\<lparr>cr_chunks := chunks[0 := kept], cr_size := int (utf16_len kept)\<rparr>)
         else b\<lparr>cr_chunks := chunks, cr_size := sz\<rparr>))"

definition chunk_append :: "utext \<Rightarrow> ChunkRingBuffer \<Rightarrow> ChunkRingBuffer" where
  "chunk_append chunk b =
     (if chunk = [] then b
      else trim_to_max (b\<lparr>cr_chunks := cr_chunks b @ [chunk], cr_size := cr_size b + int (utf16_len chunk)\<rparr>))"

definition set_max_chars :: "int \<Rightarrow> ChunkRingBuffer \<Rightarrow> ChunkRingBuffer" where
  "set_max_chars next b = trim_to_max (b\<lparr>cr_max_chars := max next 0\<rparr>)"

definition snapshot_seed_if_ring_empty :: "int \<Rightarrow> ChunkRingBuffer \<Rightarrow> utext option" where
  "snapshot_seed_if_ring_empty head_seq scrollback =
     (if head_seq = 0
      then (let snap = snapshot scrollback in if snap = [] then None else Some snap)
      else None)"

section \<open>The last units of a chunk\<close>

lemma utf16_len_rev [simp]: "utf16_len (rev t) = utf16_len t"
  by (simp add: utf16_len_def rev_map [symmetric])

lemma slice_loop_spec:
  assumes "units = int (utf16_len kept)" and "units \<le> m"
  shows "\<exists>more rest. slice_loop m cs units kept = kept @ more \<and> cs = more @ rest
    \<and> int (utf16_len (kept @ more)) \<le> m
    \<and> (rest = [] \<or> m < int (utf16_len (kept @ more)) + int (len_utf16 (hd rest)))"
  using assms
proof (induction m cs units kept rule: slice_loop.induct)
  case (1 m units kept)
  then show ?case by (auto intro: exI [of _ "[]"])
next
  case (2 m c cs units kept)
  show ?case
  proof (cases "m < units + int (len_utf16 c)")
    case True
    then show ?thesis using "2.prems" by (intro exI [of _ "[]"] exI [of _ "c # cs"]) simp
  next
    case False
    then obtain more rest where "slice_loop m cs (units + int (len_utf16 c)) (kept @ [c]) = (kept @ [c]) @ more"
      "cs = more @ rest" "int (utf16_len ((kept @ [c]) @ more)) \<le> m"
      "rest = [] \<or> m < int (utf16_len ((kept @ [c]) @ more)) + int (len_utf16 (hd rest))"
      using "2.IH" "2.prems" by auto
    then show ?thesis using False by (intro exI [of _ "c # more"] exI [of _ rest]) simp
  qed
qed

lemma slice_last_spec:
  "\<exists>cut. s = cut @ slice_last_utf16 s m \<and> int (utf16_len (slice_last_utf16 s m)) \<le> max m 0
     \<and> (cut = [] \<or> max m 0 < int (utf16_len (slice_last_utf16 s m)) + int (len_utf16 (last cut)))"
proof (cases "m \<le> 0")
  case True
  have "0 < int (len_utf16 c)" for c by simp
  then show ?thesis using True by (intro exI [of _ s]) (simp add: slice_last_utf16_def)
next
  case False
  have "\<exists>more rest. slice_loop m (rev s) 0 [] = more \<and> rev s = more @ rest \<and> int (utf16_len more) \<le> m
      \<and> (rest = [] \<or> m < int (utf16_len more) + int (len_utf16 (hd rest)))"
    using slice_loop_spec [of 0 "[]" m "rev s"] False by simp
  then obtain more rest where m: "slice_loop m (rev s) 0 [] = more" "rev s = more @ rest"
    "int (utf16_len more) \<le> m" "rest = [] \<or> m < int (utf16_len more) + int (len_utf16 (hd rest))"
    by blast
  have "s = rev rest @ rev more" using arg_cong [OF m(2), of rev] by simp
  then show ?thesis
    using False m by (intro exI [of _ "rev rest"]) (auto simp: slice_last_utf16_def last_rev)
qed

text \<open>A single chunk over the cap is cut to the longest run of its last whole characters within the
  cap: what is kept ends the chunk and fits, and one character more would not have.\<close>

theorem slice_last_utf16_longest:
  "suffix (slice_last_utf16 s m) s \<and> int (utf16_len (slice_last_utf16 s m)) \<le> max m 0
   \<and> (slice_last_utf16 s m = s
      \<or> (\<exists>cut c. s = cut @ c # slice_last_utf16 s m
               \<and> max m 0 < int (utf16_len (c # slice_last_utf16 s m))))"
proof -
  obtain cut where cut: "s = cut @ slice_last_utf16 s m" "int (utf16_len (slice_last_utf16 s m)) \<le> max m 0"
    "cut = [] \<or> max m 0 < int (utf16_len (slice_last_utf16 s m)) + int (len_utf16 (last cut))"
    using slice_last_spec [of s m] by blast
  have "suffix (slice_last_utf16 s m) s" using cut(1) by (metis suffixI)
  moreover have "\<exists>front c. s = front @ c # slice_last_utf16 s m
      \<and> max m 0 < int (utf16_len (c # slice_last_utf16 s m))" if "cut \<noteq> []"
  proof (intro exI conjI)
    show "s = butlast cut @ last cut # slice_last_utf16 s m" 
      using cut(1) append_butlast_last_id [OF that] by (metis append.assoc append_Cons append_Nil)
    show "max m 0 < int (utf16_len (last cut # slice_last_utf16 s m))" using cut(3) that by simp
  qed
  ultimately show ?thesis using cut by (cases "cut = []") auto
qed

section \<open>The scrollback as a log\<close>

definition chunk_wf :: "ChunkRingBuffer \<Rightarrow> bool" where
  "chunk_wf b = (cr_size b = int (utf16_len (snapshot b)) \<and> cr_size b \<le> max (cr_max_chars b) 0)"

lemma trim_loop_spec:
  "sz = int (utf16_len (concat chunks)) \<Longrightarrow>
     \<exists>cs. trim_loop m chunks sz = (cs, int (utf16_len (concat cs))) \<and> suffix cs chunks
       \<and> (int (utf16_len (concat cs)) \<le> m \<or> length cs \<le> 1) \<and> (m < sz \<or> cs = chunks)"
proof (induction m chunks sz rule: trim_loop.induct)
  case (1 m removed c cs sz)
  show ?case
  proof (cases "m < sz")
    case True
    then show ?thesis using "1.IH" "1.prems" by (auto intro: suffix_ConsI)
  qed (use "1.prems" in auto)
qed auto

lemma trim_to_max_spec:
  assumes "cr_size b = int (utf16_len (snapshot b))"
  shows "chunk_wf (trim_to_max b) \<and> cr_max_chars (trim_to_max b) = cr_max_chars b
    \<and> suffix (snapshot (trim_to_max b)) (snapshot b)
    \<and> (max (cr_max_chars b) 0 < cr_size b \<or> snapshot (trim_to_max b) = snapshot b)"
proof (cases "cr_max_chars b \<le> 0")
  case True
  then show ?thesis
    using assms by (auto simp: trim_to_max_def chunk_clear_def chunk_wf_def snapshot_def max_def)
next
  case False
  let ?m = "cr_max_chars b"
  obtain cs where cs: "trim_loop ?m (cr_chunks b) (cr_size b) = (cs, int (utf16_len (concat cs)))"
    "suffix cs (cr_chunks b)" "int (utf16_len (concat cs)) \<le> ?m \<or> length cs \<le> 1"
    "?m < cr_size b \<or> cs = cr_chunks b"
    using trim_loop_spec assms unfolding snapshot_def by blast
  have suffix: "suffix (concat cs) (snapshot b)" using cs(2) by (auto simp: suffix_def snapshot_def)
  show ?thesis
  proof (cases "?m < int (utf16_len (concat cs))")
    case True
    then obtain only where only: "cs = [only]"
      using cs(3) False by (cases cs) (auto simp: le_Suc_eq)
    obtain cut where cut: "only = cut @ slice_last_utf16 only ?m"
      "int (utf16_len (slice_last_utf16 only ?m)) \<le> max ?m 0"
      using slice_last_spec [of only ?m] by blast
    have "suffix (slice_last_utf16 only ?m) (snapshot b)"
      using suffix cut(1) suffixI suffix_order.trans by (metis append_Nil2 concat.simps only)
    moreover have "?m < cr_size b"
      using True cs(4) assms by (auto simp: snapshot_def)
    ultimately show ?thesis
      using True False cs(1) cut(2) by (simp add: trim_to_max_def only chunk_wf_def snapshot_def Let_def)
  next
    case fits: False
    then show ?thesis
      using False cs suffix assms by (auto simp: trim_to_max_def chunk_wf_def snapshot_def)
  qed
qed

lemma chunk_append_spec:
  assumes "chunk_wf b"
  shows "chunk_wf (chunk_append x b) \<and> cr_max_chars (chunk_append x b) = cr_max_chars b
    \<and> suffix (snapshot (chunk_append x b)) (snapshot b @ x)
    \<and> (max (cr_max_chars b) 0 < int (utf16_len (snapshot b @ x)) \<or> snapshot (chunk_append x b) = snapshot b @ x)"
proof (cases "x = []")
  case False
  let ?b = "b\<lparr>cr_chunks := cr_chunks b @ [x], cr_size := cr_size b + int (utf16_len x)\<rparr>"
  have snap: "snapshot ?b = snapshot b @ x" by (simp add: snapshot_def)
  have sz: "cr_size ?b = int (utf16_len (snapshot b @ x))" using assms by (simp add: chunk_wf_def)
  have "chunk_append x b = trim_to_max ?b" using False by (simp add: chunk_append_def)
  moreover have "cr_max_chars ?b = cr_max_chars b" by simp
  ultimately show ?thesis using trim_to_max_spec [of ?b] unfolding snap sz by metis
qed (use assms in \<open>simp add: chunk_append_def\<close>)

interpretation scrollback_log: log_buffer chunk_wf chunk_append "\<lambda>data. data" snapshot utf16_len
  "\<lambda>b. nat (cr_max_chars b)"
proof unfold_locales
  fix b x
  show "nat (cr_max_chars (chunk_append x b)) = nat (cr_max_chars b)"
    by (simp add: chunk_append_def trim_to_max_def chunk_clear_def Let_def case_prod_beta)
  show "chunk_wf b \<Longrightarrow> utf16_len (snapshot b) \<le> nat (cr_max_chars b)"
    by (auto simp: chunk_wf_def max_def split: if_splits)
  show "chunk_wf b \<Longrightarrow> utf16_len (snapshot b @ x) \<le> nat (cr_max_chars b) \<Longrightarrow>
      snapshot (chunk_append x b) = snapshot b @ x"
    using chunk_append_spec [of b x] by (auto simp: max_def split: if_splits)
qed (use chunk_append_spec in auto)

text \<open>The scrollback keeps the newest end of the output, at most its cap of UTF-16 units, all of it
  while it fits; and what it hands the replay ring as a seed, once, is that text: after the seed is
  appended the ring is no longer empty and no second seed is given.\<close>

theorem scrollback_seeds_once:
  assumes "ring_wf ring" and "valid_text (snapshot (fold chunk_append outputs (chunk_new m)))"
  shows "let b = fold chunk_append outputs (chunk_new m) in
     suffix (snapshot b) (concat outputs)
     \<and> int (utf16_len (snapshot b)) \<le> max m 0
     \<and> (max m 0 < int (utf16_len (concat outputs)) \<or> snapshot b = concat outputs)
     \<and> (case snapshot_seed_if_ring_empty (ring_head_seq ring) b of
          None \<Rightarrow> ring_head_seq ring \<noteq> 0 \<or> snapshot b = []
        | Some seed \<Rightarrow> seed = snapshot b \<and> ring_head_seq ring = 0
            \<and> (\<forall>b'. snapshot_seed_if_ring_empty
                     (ring_head_seq (snd (ring_append seed stream clock ring))) b' = None))"
proof -
  let ?b = "fold chunk_append outputs (chunk_new m)"
  have wf: "chunk_wf (chunk_new m)" "snapshot (chunk_new m) = []" "cr_max_chars (chunk_new m) = m"
    by (simp_all add: chunk_wf_def chunk_new_def snapshot_def)
  have keeps: "suffix (snapshot ?b) (concat outputs)" "utf16_len (snapshot ?b) \<le> nat m"
    "utf16_len (concat outputs) \<le> nat m \<Longrightarrow> snapshot ?b = concat outputs"
    using scrollback_log.puts_suffix [OF wf(1), of outputs] scrollback_log.puts_bounded [OF wf(1), of outputs]
      scrollback_log.puts_exact [OF wf(1), of outputs]
    by (simp_all add: wf)
  have "ring_head_seq (snd (ring_append (snapshot ?b) stream clock ring)) = ring_head_seq ring + 1"
    by (rule ring_append_head [OF assms])
  then show ?thesis
    using keeps
    by (cases "utf16_len (concat outputs) \<le> nat m")
       (auto simp: Let_def snapshot_seed_if_ring_empty_def max_def)
qed

theorem scrollback_seeds_once_witness:
  "snapshot_seed_if_ring_empty 0 (fold chunk_append [[104], [105]] (chunk_new 1)) = Some [105]"
proof -
  have b: "snapshot (fold chunk_append [[104], [105]] (chunk_new 1)) = [105]"
    by (simp add: chunk_append_def trim_to_max_def chunk_new_def snapshot_def len_utf16_def)
  have "ring_wf (ring_new None (Some 5))" by (rule ring_new_wf) (simp add: resolve_max_bytes_def)
  moreover have "valid_text (snapshot (fold chunk_append [[104], [105]] (chunk_new 1)))"
    unfolding b by (simp add: is_scalar_def)
  ultimately have "suffix (snapshot (fold chunk_append [[104], [105]] (chunk_new 1))) (concat [[104], [105]])"
    using scrollback_seeds_once [of "ring_new None (Some 5)" "[[104], [105]]" 1] by (metis (no_types))
  then show ?thesis unfolding snapshot_seed_if_ring_empty_def b by simp
qed

end
