(* ===== verification/Fragment.thy ===== *)
theory Fragment
  imports Text_Units
begin

text \<open>
  The splitter that cuts terminal output into fragments whose serialized message fits a byte budget
  (crates/freshell-terminal/src/fragment.rs). The code takes the size of a candidate's serialized message as a
  closure, here \<open>weigh\<close>; the framer passes \<open>measure_terminal_output_budget_payload_bytes\<close>, which is modelled too,
  with the sizes that the JSON library documents for compact output.
\<close>

definition MAX_REALTIME_MESSAGE_BYTES :: nat where
  "MAX_REALTIME_MESSAGE_BYTES = 16 * 1024"

definition PACED_PAGE_BUDGET_FLOOR_BYTES :: nat where
  "PACED_PAGE_BUDGET_FLOOR_BYTES = 32 * 1024"

definition ATOMIC_PAGE_ENVELOPE_OVERHEAD_BYTES :: nat where
  "ATOMIC_PAGE_ENVELOPE_OVERHEAD_BYTES = 512"

text \<open>\<open>from_env\<close> is what \<open>TERMINAL_STREAM_BATCH_MAX_BYTES\<close> holds: the floor of a finite positive number.\<close>

definition terminal_stream_batch_max_bytes_for_env :: "nat option \<Rightarrow> nat" where
  "terminal_stream_batch_max_bytes_for_env from_env =
     (let v = (case from_env of None \<Rightarrow> MAX_REALTIME_MESSAGE_BYTES | Some n \<Rightarrow> n)
      in min (max v 1024) PACED_PAGE_BUDGET_FLOOR_BYTES)"

definition paced_atomic_page_serialized_ceiling :: "nat option \<Rightarrow> nat" where
  "paced_atomic_page_serialized_ceiling from_env =
     terminal_stream_batch_max_bytes_for_env from_env + ATOMIC_PAGE_ENVELOPE_OVERHEAD_BYTES"

section \<open>The size of a serialized message\<close>

definition TERMINAL_STREAM_BUDGET_SEQ_PLACEHOLDER :: nat where
  "TERMINAL_STREAM_BUDGET_SEQ_PLACEHOLDER = 9007199254740991"

definition attach_request_id_reserve_value :: utext where
  "attach_request_id_reserve_value = replicate 512 0x78"

text \<open>A quote, a backslash and the five controls with a short form are two bytes, the other controls six
  (\<open>\u00XX\<close>), and every other character its UTF-8 encoding.\<close>

definition escaped_char_len :: "nat \<Rightarrow> nat" where
  "escaped_char_len c =
     (if c \<in> {0x22, 0x5c, 0x08, 0x09, 0x0a, 0x0c, 0x0d} then 2 else if c < 0x20 then 6 else len_utf8 c)"

definition json_string_len :: "utext \<Rightarrow> nat" where
  "json_string_len t = 2 + sum_list (map escaped_char_len t)"

datatype json_field = Text_field utext | Int_field nat

fun json_field_len :: "json_field \<Rightarrow> nat" where
  "json_field_len (Text_field t) = json_string_len t"
| "json_field_len (Int_field n) = length (decimal n)"

text \<open>Two braces, a colon in each member and a comma between two, for an object with members.\<close>

definition measure_serialized_json_bytes :: "(utext \<times> json_field) list \<Rightarrow> nat" where
  "measure_serialized_json_bytes members =
     1 + sum_list (map (\<lambda>(key, field). json_string_len key + 1 + json_field_len field + 1) members)"

definition measure_terminal_output_budget_payload_bytes :: "string \<Rightarrow> string \<Rightarrow> utext \<Rightarrow> nat" where
  "measure_terminal_output_budget_payload_bytes terminal_id stream_id data =
     measure_serialized_json_bytes
       [(ascii ''type'', Text_field (ascii ''terminal.output'')),
        (ascii ''terminalId'', Text_field (ascii terminal_id)),
        (ascii ''streamId'', Text_field (ascii stream_id)),
        (ascii ''seqStart'', Int_field TERMINAL_STREAM_BUDGET_SEQ_PLACEHOLDER),
        (ascii ''seqEnd'', Int_field TERMINAL_STREAM_BUDGET_SEQ_PLACEHOLDER),
        (ascii ''data'', Text_field data),
        (ascii ''attachRequestId'', Text_field attach_request_id_reserve_value),
        (ascii ''source'', Text_field (ascii ''replay''))]"

section \<open>The splitter\<close>

datatype fragment_error = FragmentBudgetTooSmall

text \<open>
  The binary search for the longest prefix from \<open>offset\<close> that fits. The code starts it at 1, so that
  \<open>mid\<close> is never 0; the guard \<open>0 < low\<close> says so.
\<close>

function best_loop :: "(utext \<Rightarrow> nat) \<Rightarrow> nat \<Rightarrow> utext \<Rightarrow> nat \<Rightarrow> nat \<Rightarrow> nat \<Rightarrow> nat \<Rightarrow> nat" where
  "best_loop weigh m code_points offset low high best =
     (if low \<le> high \<and> 0 < low
      then
        (let mid = (low + high) div 2;
             candidate = take mid (drop offset code_points)
         in if weigh candidate \<le> m
            then best_loop weigh m code_points offset (mid + 1) high mid
            else best_loop weigh m code_points offset low (mid - 1) best)
      else best)"
  by pat_completeness auto
termination
  by (relation "Wellfounded.measure (\<lambda>(weigh, m, cps, offset, low, high, best). high + 1 - low)") auto

declare best_loop.simps [simp del]

lemma best_loop_le: "best_loop weigh m cps offset low high best \<le> max high best"
proof (induction weigh m cps offset low high best rule: best_loop.induct)
  case (1 weigh m cps offset low high best)
  show ?case
  proof (cases "low \<le> high \<and> 0 < low")
    case True
    then have "(low + high) div 2 \<le> high" by auto
    then show ?thesis
      using "1.IH" [OF True refl refl] True
      by (subst best_loop.simps) (auto simp: Let_def max_def split: if_splits, arith)
  next
    case False
    then have "best_loop weigh m cps offset low high best = best"
      by (simp only: best_loop.simps [of weigh m cps offset low high best] if_False)
    then show ?thesis by simp
  qed
qed

function fragment_loop :: "(utext \<Rightarrow> nat) \<Rightarrow> nat \<Rightarrow> utext \<Rightarrow> nat \<Rightarrow> fragment_error + utext list" where
  "fragment_loop weigh m code_points offset =
     (if offset < length code_points
      then
        (let best = best_loop weigh m code_points offset 1 (length code_points - offset) 0 in
         if best = 0 then Inl FragmentBudgetTooSmall
         else
           (case fragment_loop weigh m code_points (offset + best) of
              Inl e \<Rightarrow> Inl e
            | Inr chunks \<Rightarrow> Inr (take best (drop offset code_points) # chunks)))
      else Inr [])"
  by pat_completeness auto
termination
  by (relation "Wellfounded.measure (\<lambda>(weigh, m, cps, offset). length cps - offset)") auto

declare fragment_loop.simps [simp del]

definition fragment_terminal_output_for_payload_budget ::
  "utext \<Rightarrow> nat \<Rightarrow> (utext \<Rightarrow> nat) \<Rightarrow> fragment_error + utext list" where
  "fragment_terminal_output_for_payload_budget data max_serialized_bytes weigh =
     (let m = max max_serialized_bytes 1 in
      if weigh data \<le> m then Inr [data] else fragment_loop weigh m data 0)"

lemma escaped_char_ge: "len_utf8 c \<le> escaped_char_len c" "escaped_char_len c \<le> 6"
  by (auto simp: escaped_char_len_def len_utf8_def)

lemma json_string_append [simp]: "json_string_len (s @ t) = json_string_len s + sum_list (map escaped_char_len t)"
  by (simp add: json_string_len_def)

lemma json_string_ge: "byte_len t \<le> json_string_len t"
proof -
  have "byte_len t \<le> sum_list (map escaped_char_len t)"
    unfolding byte_len_def by (rule sum_list_mono) (rule escaped_char_ge)
  then show ?thesis by (simp add: json_string_len_def)
qed

lemma placeholder_digits: "length (decimal TERMINAL_STREAM_BUDGET_SEQ_PLACEHOLDER) \<le> 16"
  using decimal_width [of TERMINAL_STREAM_BUDGET_SEQ_PLACEHOLDER 15] by (simp add: TERMINAL_STREAM_BUDGET_SEQ_PLACEHOLDER_def)

text \<open>The envelope: at most 716 bytes around the two names and the data.\<close>

lemma measure_bounds:
  "measure_terminal_output_budget_payload_bytes tid sid data
     \<le> 716 + json_string_len (ascii tid) + json_string_len (ascii sid) + json_string_len data"
  "byte_len data \<le> measure_terminal_output_budget_payload_bytes tid sid data"
  "measure_terminal_output_budget_payload_bytes tid sid data \<le> measure_terminal_output_budget_payload_bytes tid sid (data @ more)"
proof -
  have reserve: "json_string_len attach_request_id_reserve_value = 514"
    by (simp add: json_string_len_def attach_request_id_reserve_value_def escaped_char_len_def len_utf8_def sum_list_replicate)
  note defs = measure_terminal_output_budget_payload_bytes_def measure_serialized_json_bytes_def
  show "measure_terminal_output_budget_payload_bytes tid sid data
     \<le> 716 + json_string_len (ascii tid) + json_string_len (ascii sid) + json_string_len data"
    using placeholder_digits reserve
    by (simp add: defs) (simp add: json_string_len_def ascii_def escaped_char_len_def len_utf8_def)
  show "byte_len data \<le> measure_terminal_output_budget_payload_bytes tid sid data"
    using json_string_ge [of data] by (simp add: defs)
  show "measure_terminal_output_budget_payload_bytes tid sid data \<le> measure_terminal_output_budget_payload_bytes tid sid (data @ more)"
    by (simp add: defs)
qed

section \<open>What the splitter yields\<close>

text \<open>A longer text never serializes shorter.\<close>

definition prefix_monotone :: "(utext \<Rightarrow> nat) \<Rightarrow> bool" where
  "prefix_monotone weigh = (\<forall>s t. weigh s \<le> weigh (s @ t))"

lemma prefix_monotone_take: "prefix_monotone weigh \<Longrightarrow> i \<le> j \<Longrightarrow> weigh (take i t) \<le> weigh (take j t)"
  unfolding prefix_monotone_def by (metis append_take_drop_id min_absorb1 take_take)

lemma best_loop_fits:
  assumes "best = 0 \<or> weigh (take best (drop offset cps)) \<le> m"
  shows "best_loop weigh m cps offset low high best = 0
    \<or> weigh (take (best_loop weigh m cps offset low high best) (drop offset cps)) \<le> m"
  using assms
proof (induction weigh m cps offset low high best rule: best_loop.induct)
  case (1 weigh m cps offset low high best)
  show ?case
  proof (cases "low \<le> high \<and> 0 < low")
    case True
    then show ?thesis
      using "1.IH" [OF True refl refl] "1.prems" by (subst (1 2) best_loop.simps) (simp add: Let_def)
  next
    case False
    then have "best_loop weigh m cps offset low high best = best"
      by (simp only: best_loop.simps [of weigh m cps offset low high best] if_False)
    then show ?thesis using "1.prems" by simp
  qed
qed

lemma best_loop_largest:
  assumes "prefix_monotone weigh" and "0 < low" and "best < low"
    and "\<forall>i. high < i \<longrightarrow> i \<le> n \<longrightarrow> m < weigh (take i (drop offset cps))"
    and "\<forall>i. best < i \<longrightarrow> i < low \<longrightarrow> m < weigh (take i (drop offset cps))"
  shows "\<forall>i. best_loop weigh m cps offset low high best < i \<longrightarrow> i \<le> n \<longrightarrow>
    m < weigh (take i (drop offset cps))"
  using assms
proof (induction weigh m cps offset low high best rule: best_loop.induct)
  case (1 weigh m cps offset low high best)
  show ?case
  proof (cases "low \<le> high \<and> 0 < low")
    case False
    then have "best_loop weigh m cps offset low high best = best"
      by (simp only: best_loop.simps [of weigh m cps offset low high best] if_False)
    moreover have "m < weigh (take i (drop offset cps))" if "best < i" "i \<le> n" for i
      using that False "1.prems"(2,4,5) by (cases "i < low") auto
    ultimately show ?thesis by simp
  next
    case True
    define mid where "mid = (low + high) div 2"
    have mid: "low \<le> mid" "mid \<le> high" using True by (auto simp: mid_def)
    show ?thesis
    proof (cases "weigh (take mid (drop offset cps)) \<le> m")
      case fits: True
      have "best_loop weigh m cps offset low high best = best_loop weigh m cps offset (mid + 1) high mid"
        using True fits by (subst best_loop.simps) (simp add: mid_def [symmetric] Let_def)
      then show ?thesis
        using "1.IH"(1) [OF True mid_def refl fits "1.prems"(1) _ _ "1.prems"(4)] by simp
    next
      case over: False
      have step: "best_loop weigh m cps offset low high best = best_loop weigh m cps offset low (mid - 1) best"
        using True over by (subst best_loop.simps) (simp add: mid_def [symmetric] Let_def)
      have "m < weigh (take i (drop offset cps))" if "mid - 1 < i" for i
      proof -
        have "mid \<le> i" using that by simp
        from prefix_monotone_take [OF "1.prems"(1) this, of "drop offset cps"] over show ?thesis by simp
      qed
      then show ?thesis
        unfolding step using "1.IH"(2) [OF True mid_def refl over "1.prems"(1-3) _ "1.prems"(5)] by blast
    qed
  qed
qed

text \<open>Each fragment fits, and could not have taken the next character too.\<close>

fun greedy :: "(utext \<Rightarrow> nat) \<Rightarrow> nat \<Rightarrow> utext list \<Rightarrow> bool" where
  "greedy weigh m (s # t # ts) = (weigh s \<le> m \<and> (t = [] \<or> m < weigh (s @ [hd t])) \<and> greedy weigh m (t # ts))"
| "greedy weigh m [s] = (weigh s \<le> m)"
| "greedy weigh m [] = True"

lemma fragment_loop_spec:
  assumes "prefix_monotone weigh" and "\<forall>c \<in> set cps. weigh [c] \<le> m"
  shows "\<exists>chunks. fragment_loop weigh m cps offset = Inr chunks \<and> concat chunks = drop offset cps
    \<and> [] \<notin> set chunks \<and> greedy weigh m chunks"
  using assms
proof (induction weigh m cps offset rule: fragment_loop.induct)
  case (1 weigh m cps offset)
  show ?case
  proof (cases "offset < length cps")
    case False
    then show ?thesis by (simp add: fragment_loop.simps [of weigh m cps offset])
  next
    case True
    define best where "best = best_loop weigh m cps offset 1 (length cps - offset) 0"
    have large: "m < weigh (take i (drop offset cps))" if "best < i" "i \<le> length cps - offset" for i
      using best_loop_largest [OF "1.prems"(1), of 1 0 "length cps - offset" "length cps - offset" m offset cps]
        that by (auto simp: best_def)
    have "take 1 (drop offset cps) = [cps ! offset]" using True by (simp add: take_Suc_conv_app_nth)
    moreover have "weigh [cps ! offset] \<le> m" using "1.prems"(2) nth_mem [OF True] by blast
    moreover have "1 \<le> length cps - offset" using True by simp
    ultimately have "0 < best" using large [of 1] by (cases "best = 0") simp_all
    have le: "best \<le> length cps - offset"
      using best_loop_le [of weigh m cps offset 1 "length cps - offset" 0] by (simp add: best_def)
    have fits: "weigh (take best (drop offset cps)) \<le> m"
      using best_loop_fits [of 0 weigh offset cps m 1 "length cps - offset"] \<open>0 < best\<close> by (auto simp: best_def)
    obtain chunks where chunks: "fragment_loop weigh m cps (offset + best) = Inr chunks"
      "concat chunks = drop (offset + best) cps" "[] \<notin> set chunks" "greedy weigh m chunks"
      using "1.IH" [OF True best_def _ "1.prems"] \<open>0 < best\<close> by auto
    have loop: "fragment_loop weigh m cps offset = Inr (take best (drop offset cps) # chunks)"
      unfolding fragment_loop.simps [of weigh m cps offset] best_def [symmetric] Let_def
      using True \<open>0 < best\<close> chunks(1) by simp
    have "greedy weigh m (take best (drop offset cps) # chunks)"
    proof (cases chunks)
      case (Cons t ts)
      then have "t \<noteq> []" using chunks(3) by auto
      have more: "offset + best < length cps"
        using chunks(2) Cons \<open>t \<noteq> []\<close> by (cases "offset + best < length cps") auto
      have "hd t = hd (concat chunks)" using Cons \<open>t \<noteq> []\<close> by simp
      also have "\<dots> = cps ! (offset + best)" by (simp add: chunks(2) hd_drop_conv_nth more)
      finally have "hd t = cps ! (offset + best)" .
      then have "take best (drop offset cps) @ [hd t] = take (Suc best) (drop offset cps)"
        using more by (simp add: take_Suc_conv_app_nth)
      then show ?thesis using large [of "Suc best"] more fits chunks(4) Cons by simp
    qed (use fits in simp)
    moreover have "take best (drop offset cps) \<noteq> []" using \<open>0 < best\<close> True by simp
    moreover have "take best (drop offset cps) @ drop (offset + best) cps = drop offset cps"
      using append_take_drop_id [of best "drop offset cps"] by (simp add: add.commute)
    ultimately show ?thesis using loop chunks(2,3) by simp
  qed
qed

lemma fragment_total:
  assumes "prefix_monotone weigh" and "\<forall>c \<in> set data. weigh [c] \<le> max budget 1"
  shows "\<exists>chunks. fragment_terminal_output_for_payload_budget data budget weigh = Inr chunks
    \<and> concat chunks = data \<and> greedy weigh (max budget 1) chunks"
  using fragment_loop_spec [OF assms, of 0]
  by (auto simp: fragment_terminal_output_for_payload_budget_def Let_def)

text \<open>As long as every single character fits the budget, the splitter succeeds, loses nothing and
  reorders nothing, and each fragment fits and is as long as it can be before the next one.\<close>

theorem fragments_cover_output:
  assumes "prefix_monotone weigh" and "\<forall>c \<in> set data. weigh [c] \<le> max budget 1"
  shows "\<exists>chunks. fragment_terminal_output_for_payload_budget data budget weigh = Inr chunks
    \<and> concat chunks = data \<and> greedy weigh (max budget 1) chunks"
  using fragment_loop_spec [OF assms, of 0]
  by (auto simp: fragment_terminal_output_for_payload_budget_def Let_def)

theorem fragments_cover_output_witness:
  "\<exists>chunks. fragment_terminal_output_for_payload_budget [97, 0x1F600, 98] 6 (\<lambda>s. 2 + byte_len s) = Inr chunks
    \<and> concat chunks = [97, 0x1F600, 98] \<and> greedy (\<lambda>s. 2 + byte_len s) 6 chunks"
proof -
  have "prefix_monotone (\<lambda>s. 2 + byte_len s)" by (simp add: prefix_monotone_def)
  moreover have "\<forall>c \<in> set [97, 0x1F600, 98]. 2 + byte_len [c] \<le> max 6 1" by (simp add: len_utf8_def)
  ultimately show ?thesis
    using fragments_cover_output [of "\<lambda>s. 2 + byte_len s" "[97, 0x1F600, 98]" 6] by (simp add: max_def)
qed

end
