(* ===== verification/Output_Framer.thy ===== *)
theory Output_Framer
  imports Fragment Replay_Props "HOL-Library.Multiset"
begin

text \<open>
  Framing a terminal's live output, \<open>OutputFramer\<close> (crates/freshell-terminal/src/framing.rs): the
  output is cut into fragments, each fragment becomes one frame of the replay ring, each frame one
  wire message, and a client puts the messages of a stream back together by sequence number.

  The measure of a candidate message, of the terminal id, stream id and data, is an argument \<open>weigh\<close>, for the
  lemmas; the code's is \<open>measure_terminal_output_budget_payload_bytes\<close>. The message types the framer does not
  produce are one opaque constructor.
\<close>

datatype OutputSource = OutputSource_Live | OutputSource_Replay

record TerminalOutput =
  to_data :: utext
  to_seq_end :: int
  to_seq_start :: int
  to_stream_id :: string
  to_terminal_id :: string
  to_attach_request_id :: "string option"
  to_source :: "OutputSource option"

datatype 'm ServerMessage = TerminalOutputMessage TerminalOutput | OtherMessage 'm

record OutputFramer =
  fm_ring :: ReplayRing
  fm_terminal_id :: string
  fm_stream_id :: string
  fm_batch_max_bytes :: nat

definition framer_new :: "nat option \<Rightarrow> nat option \<Rightarrow> string \<Rightarrow> string \<Rightarrow> int option \<Rightarrow> OutputFramer" where
  "framer_new env_ring env_batch terminal_id stream_id ring_limit =
     \<lparr>fm_ring = ring_new env_ring ring_limit, fm_terminal_id = terminal_id, fm_stream_id = stream_id,
      fm_batch_max_bytes = terminal_stream_batch_max_bytes_for_env env_batch\<rparr>"

text \<open>One append per fragment; \<open>clock\<close> gives the reading of the wall clock at each.\<close>

fun append_fragments ::
  "utext list \<Rightarrow> string \<Rightarrow> (nat \<Rightarrow> nat) \<Rightarrow> nat \<Rightarrow> ReplayRing \<Rightarrow> ReplayFrame list \<times> ReplayRing" where
  "append_fragments [] stream_id clock i ring = ([], ring)"
| "append_fragments (fragment # fragments) stream_id clock i ring =
     (let (frame, ring) = ring_append fragment stream_id (clock i) ring;
          (frames, ring) = append_fragments fragments stream_id clock (i + 1) ring
      in (frame # frames, ring))"

text \<open>\<open>None\<close> is the panic of the code's \<open>expect\<close>.\<close>

definition append_output_frames ::
  "(string \<Rightarrow> string \<Rightarrow> utext \<Rightarrow> nat) \<Rightarrow> utext \<Rightarrow> (nat \<Rightarrow> nat) \<Rightarrow> OutputFramer
   \<Rightarrow> (ReplayFrame list \<times> OutputFramer) option" where
  "append_output_frames weigh data clock fm =
     (case fragment_terminal_output_for_payload_budget data (fm_batch_max_bytes fm)
             (weigh (fm_terminal_id fm) (fm_stream_id fm)) of
        Inl e \<Rightarrow> None
      | Inr fragments \<Rightarrow>
          (let (frames, ring) = append_fragments fragments (fm_stream_id fm) clock 0 (fm_ring fm)
           in Some (frames, fm\<lparr>fm_ring := ring\<rparr>)))"

definition frame_to_terminal_output :: "string \<Rightarrow> ReplayFrame \<Rightarrow> OutputSource \<Rightarrow> 'm ServerMessage" where
  "frame_to_terminal_output terminal_id frame source =
     TerminalOutputMessage
       \<lparr>to_data = fr_data frame, to_seq_end = fr_seq_end frame, to_seq_start = fr_seq_start frame,
        to_stream_id = fr_stream_id frame, to_terminal_id = terminal_id, to_attach_request_id = None,
        to_source = Some source\<rparr>"

definition append_output ::
  "(string \<Rightarrow> string \<Rightarrow> utext \<Rightarrow> nat) \<Rightarrow> utext \<Rightarrow> (nat \<Rightarrow> nat) \<Rightarrow> OutputFramer
   \<Rightarrow> ('m ServerMessage list \<times> OutputFramer) option" where
  "append_output weigh data clock fm =
     map_option
       (\<lambda>(frames, fm'). (map (\<lambda>frame. frame_to_terminal_output (fm_terminal_id fm) frame OutputSource_Live) frames, fm'))
       (append_output_frames weigh data clock fm)"

definition stream_part :: "string \<Rightarrow> 'm ServerMessage \<Rightarrow> (int \<times> utext) option" where
  "stream_part stream_id msg =
     (case msg of
        TerminalOutputMessage o' \<Rightarrow>
          if to_stream_id o' = stream_id then Some (to_seq_start o', to_data o') else None
      | OtherMessage m \<Rightarrow> None)"

definition reassemble_stream :: "'m ServerMessage list \<Rightarrow> string \<Rightarrow> utext" where
  "reassemble_stream messages stream_id =
     concat (map snd (sort_key fst (List.map_filter (stream_part stream_id) messages)))"

section \<open>A whole stream\<close>

fun run_framer ::
  "(string \<Rightarrow> string \<Rightarrow> utext \<Rightarrow> nat) \<Rightarrow> (utext \<times> (nat \<Rightarrow> nat)) list \<Rightarrow> OutputFramer
   \<Rightarrow> ('m ServerMessage list \<times> OutputFramer) option" where
  "run_framer weigh [] fm = Some ([], fm)"
| "run_framer weigh ((data, clock) # outputs) fm =
     (case append_output weigh data clock fm of
        None \<Rightarrow> None
      | Some (messages, fm') \<Rightarrow>
          map_option (\<lambda>(rest, fm''). (messages @ rest, fm'')) (run_framer weigh outputs fm'))"

text \<open>Frames numbered one after another from \<open>s\<close> under one stream.\<close>

definition consecutive :: "string \<Rightarrow> int \<Rightarrow> ReplayFrame list \<Rightarrow> bool" where
  "consecutive stream_id s frames =
     (map fr_seq_start frames = [s .. s + int (length frames) - 1]
      \<and> (\<forall>f \<in> set frames. fr_stream_id f = stream_id))"

lemma ring_append_frame:
  assumes "ring_wf ring" and "valid_text data" and "byte_len data \<le> ring_max_bytes ring"
  shows "ring_wf (snd (ring_append data stream clock ring))"
    and "ring_max_bytes (snd (ring_append data stream clock ring)) = ring_max_bytes ring"
    and "ring_head_seq (snd (ring_append data stream clock ring)) = ring_head_seq ring + 1"
    and "fr_data (fst (ring_append data stream clock ring)) = data"
    and "fr_seq_start (fst (ring_append data stream clock ring)) = ring_head_seq ring + 1"
    and "fr_stream_id (fst (ring_append data stream clock ring)) = stream"
  using assms deque_append_spec [of "ring_storage ring"]
  by (auto simp: ring_wf_def ring_append_def ring_head_seq_def Let_def case_prod_beta window_append_def
      window_fit_def window_of_def normalize_frame_data_eq frame_of_def deque_append_max)

lemma append_fragments_spec:
  assumes "ring_wf ring" and "\<forall>t \<in> set fragments. valid_text t \<and> byte_len t \<le> ring_max_bytes ring"
  shows "let (frames, ring') = append_fragments fragments stream clock i ring
         in ring_wf ring' \<and> ring_max_bytes ring' = ring_max_bytes ring
            \<and> ring_head_seq ring' = ring_head_seq ring + int (length fragments)
            \<and> map fr_data frames = fragments
            \<and> consecutive stream (ring_head_seq ring + 1) frames"
  using assms
proof (induction fragments arbitrary: ring i)
  case (Cons t ts)
  let ?r = "snd (ring_append t stream (clock i) ring)" and ?f = "fst (ring_append t stream (clock i) ring)"
  note app = ring_append_frame [OF Cons.prems(1), of t stream "clock i"]
  have "ring_wf ?r" "\<forall>u \<in> set ts. valid_text u \<and> byte_len u \<le> ring_max_bytes ?r"
    using app Cons.prems(2) by simp_all
  from Cons.IH [OF this, of "i + 1"] show ?case
    using app Cons.prems(2)
    by (auto simp: Let_def case_prod_beta consecutive_def upto_rec1 algebra_simps)
qed (simp add: consecutive_def)

text \<open>What the client keeps of a run of messages: numbered parts of the stream.\<close>

definition numbered_parts :: "string \<Rightarrow> int \<Rightarrow> 'm ServerMessage list \<Rightarrow> (int \<times> utext) list \<Rightarrow> bool" where
  "numbered_parts stream_id s messages parts =
     (map (stream_part stream_id) messages = map Some parts
      \<and> map fst parts = [s .. s + int (length parts) - 1])"

lemma numbered_parts_append:
  "numbered_parts stream_id s ms ps \<Longrightarrow> numbered_parts stream_id (s + int (length ps)) ms' ps' \<Longrightarrow>
     numbered_parts stream_id s (ms @ ms') (ps @ ps')"
  using upto_append_int [of s "length ps" "length ps'"] by (simp add: numbered_parts_def add.assoc)

lemma numbered_parts_frames:
  assumes "consecutive stream_id s frames"
  shows "numbered_parts stream_id s (map (\<lambda>f. frame_to_terminal_output tid f source) frames)
    (map (\<lambda>f. (fr_seq_start f, fr_data f)) frames)"
  using assms
  by (auto simp: numbered_parts_def consecutive_def stream_part_def frame_to_terminal_output_def o_def)

text \<open>The size of the serialized message grows with the data and is never below the data's own.\<close>

definition serialized_size :: "(string \<Rightarrow> string \<Rightarrow> utext \<Rightarrow> nat) \<Rightarrow> bool" where
  "serialized_size weigh = (\<forall>t s. prefix_monotone (weigh t s) \<and> (\<forall>d. byte_len d \<le> weigh t s d))"

definition framer_wf :: "(string \<Rightarrow> string \<Rightarrow> utext \<Rightarrow> nat) \<Rightarrow> OutputFramer \<Rightarrow> bool" where
  "framer_wf weigh fm =
     (ring_wf (fm_ring fm) \<and> 1 \<le> fm_batch_max_bytes fm \<and> fm_batch_max_bytes fm \<le> ring_max_bytes (fm_ring fm)
      \<and> (\<forall>c. is_scalar c \<longrightarrow> weigh (fm_terminal_id fm) (fm_stream_id fm) [c] \<le> fm_batch_max_bytes fm))"

lemma greedy_fits: "greedy weigh m chunks \<Longrightarrow> t \<in> set chunks \<Longrightarrow> weigh t \<le> m"
  by (induction weigh m chunks rule: greedy.induct) auto

lemma valid_text_concat: "valid_text (concat ts) \<Longrightarrow> t \<in> set ts \<Longrightarrow> valid_text t"
  by (induction ts) auto

lemma append_output_spec:
  assumes "serialized_size weigh" and "framer_wf weigh fm" and "valid_text data"
  shows "\<exists>messages fm' parts. append_output weigh data clock fm = Some (messages, fm')
    \<and> framer_wf weigh fm' \<and> fm_stream_id fm' = fm_stream_id fm
    \<and> numbered_parts (fm_stream_id fm) (ring_head_seq (fm_ring fm) + 1) messages parts
    \<and> ring_head_seq (fm_ring fm') = ring_head_seq (fm_ring fm) + int (length parts)
    \<and> concat (map snd parts) = data"
proof -
  let ?w = "weigh (fm_terminal_id fm) (fm_stream_id fm)" and ?ring = "fm_ring fm"
  have mono: "prefix_monotone ?w" and big: "\<And>d. byte_len d \<le> ?w d"
    using assms(1) by (auto simp: serialized_size_def)
  have "\<forall>c \<in> set data. ?w [c] \<le> max (fm_batch_max_bytes fm) 1"
    using assms(2,3) by (auto simp: framer_wf_def valid_text_def list_all_iff le_max_iff_disj)
  from fragment_total [OF mono this] obtain chunks where chunks:
    "fragment_terminal_output_for_payload_budget data (fm_batch_max_bytes fm) ?w = Inr chunks"
    "concat chunks = data" "greedy ?w (max (fm_batch_max_bytes fm) 1) chunks" by blast
  have "valid_text t \<and> byte_len t \<le> ring_max_bytes ?ring" if "t \<in> set chunks" for t
    using valid_text_concat [of chunks t] chunks(2) assms(2,3) greedy_fits [OF chunks(3) that] big [of t] that
    by (auto simp: framer_wf_def max_def)
  then have ok: "\<forall>t \<in> set chunks. valid_text t \<and> byte_len t \<le> ring_max_bytes ?ring" by blast
  obtain frames ring' where frames: "append_fragments chunks (fm_stream_id fm) clock 0 ?ring = (frames, ring')"
    by force
  have spec: "ring_wf ring'" "ring_max_bytes ring' = ring_max_bytes ?ring"
      "ring_head_seq ring' = ring_head_seq ?ring + int (length chunks)" "map fr_data frames = chunks"
      "consecutive (fm_stream_id fm) (ring_head_seq ?ring + 1) frames"
    using append_fragments_spec [OF _ ok, of "fm_stream_id fm" clock 0] frames assms(2)
    by (auto simp: framer_wf_def)
  have parts: "numbered_parts (fm_stream_id fm) (ring_head_seq ?ring + 1)
      (map (\<lambda>f. frame_to_terminal_output (fm_terminal_id fm) f OutputSource_Live) frames)
      (map (\<lambda>f. (fr_seq_start f, fr_data f)) frames)"
    by (rule numbered_parts_frames [OF spec(5)])
  let ?ms = "map (\<lambda>f. frame_to_terminal_output (fm_terminal_id fm) f OutputSource_Live) frames"
  let ?parts = "map (\<lambda>f. (fr_seq_start f, fr_data f)) frames"
  have run: "append_output weigh data clock fm = Some (?ms, fm\<lparr>fm_ring := ring'\<rparr>)"
    by (simp add: append_output_def append_output_frames_def chunks(1) frames)
  have "length frames = length chunks" using arg_cong [OF spec(4), of length] by simp
  then have head: "ring_head_seq ring' = ring_head_seq ?ring + int (length ?parts)" using spec(3) by simp
  have data: "concat (map snd ?parts) = data" by (simp add: o_def spec(4) chunks(2))
  have wf: "framer_wf weigh (fm\<lparr>fm_ring := ring'\<rparr>)" using assms(2) spec(1,2) by (simp add: framer_wf_def)
  show ?thesis
    using run wf parts head data
    by (intro exI [of _ ?ms] exI [of _ "fm\<lparr>fm_ring := ring'\<rparr>"] exI [of _ ?parts]) simp
qed

lemma run_framer_spec:
  assumes "serialized_size weigh" and "framer_wf weigh fm" and "\<forall>out \<in> set outputs. valid_text (fst out)"
  shows "\<exists>(messages :: 'm ServerMessage list) fm' parts. run_framer weigh outputs fm = Some (messages, fm')
    \<and> numbered_parts (fm_stream_id fm) (ring_head_seq (fm_ring fm) + 1) messages parts
    \<and> concat (map snd parts) = concat (map fst outputs)"
  using assms(2,3)
proof (induction outputs arbitrary: fm)
  case Nil
  then show ?case by (auto simp: numbered_parts_def intro: exI [of _ "[]"])
next
  case (Cons out outputs)
  obtain data clock where out: "out = (data, clock)" by force
  obtain ms :: "'m ServerMessage list" and fm' ps where step: "append_output weigh data clock fm = Some (ms, fm')" "framer_wf weigh fm'"
      "fm_stream_id fm' = fm_stream_id fm"
      "numbered_parts (fm_stream_id fm) (ring_head_seq (fm_ring fm) + 1) ms ps"
      "ring_head_seq (fm_ring fm') = ring_head_seq (fm_ring fm) + int (length ps)" "concat (map snd ps) = data"
    using append_output_spec [OF assms(1) Cons.prems(1), of data clock] Cons.prems(2) out by auto
  have "\<forall>out \<in> set outputs. valid_text (fst out)" using Cons.prems(2) by simp
  from Cons.IH [OF step(2) this] obtain ms' :: "'m ServerMessage list" and fm'' ps' where rest:
      "run_framer weigh outputs fm' = Some (ms', fm'')"
      "numbered_parts (fm_stream_id fm') (ring_head_seq (fm_ring fm') + 1) ms' ps'"
      "concat (map snd ps') = concat (map fst outputs)"
    by blast
  have "numbered_parts (fm_stream_id fm) (ring_head_seq (fm_ring fm) + 1 + int (length ps)) ms' ps'"
    using rest(2) step(3,5) by (simp add: algebra_simps)
  from numbered_parts_append [OF step(4) this]
  have "numbered_parts (fm_stream_id fm) (ring_head_seq (fm_ring fm) + 1) (ms @ ms') (ps @ ps')"
    .
  then show ?case using step(1,6) rest(1,3) out by (intro exI [of _ "ps @ ps'"] exI conjI) auto
qed

section \<open>Putting the stream back together\<close>

lemma filter_key_distinct:
  "distinct (map fst ys) \<Longrightarrow> k \<in> set ys \<Longrightarrow> filter (\<lambda>x. fst k = fst x) ys = [k]"
proof (induction ys)
  case (Cons y ys)
  have "filter (\<lambda>x. fst k = fst x) ys = []" if "fst k \<notin> fst ` set ys"
    using that by (force simp: filter_empty_conv)
  then show ?case using Cons by (auto simp: image_iff)
qed simp

lemma sort_key_unique:
  fixes xs ys :: "('k :: linorder \<times> 'v) list"
  assumes "mset ys = mset xs" and "sorted (map fst ys)" and "distinct (map fst ys)"
  shows "sort_key fst xs = ys"
proof (rule properties_for_sort_key)
  have "mset (map fst xs) = mset (map fst ys)" by (simp add: assms(1))
  then have "distinct (map fst xs)" using assms(3) mset_eq_imp_distinct_iff by blast
  then show "filter (\<lambda>x. fst k = fst x) ys = filter (\<lambda>x. fst k = fst x) xs" if "k \<in> set ys" for k
    using that filter_key_distinct [of xs k] filter_key_distinct [OF assms(3)] mset_eq_setD [OF assms(1)] by simp
qed (use assms in auto)

lemma framer_reassembles:
  assumes "serialized_size weigh" and "framer_wf weigh fm"
    and "\<forall>out \<in> set outputs. valid_text (fst out)"
  shows "\<exists>(messages :: 'm ServerMessage list) fm'. run_framer weigh outputs fm = Some (messages, fm')
    \<and> (\<forall>m \<in> set messages. stream_part (fm_stream_id fm) m \<noteq> None)
    \<and> (\<forall>received. filter_mset (\<lambda>m. stream_part (fm_stream_id fm) m \<noteq> None) (mset received) = mset messages \<longrightarrow>
        reassemble_stream received (fm_stream_id fm) = concat (map fst outputs))"
proof -
  let ?part = "stream_part (fm_stream_id fm) :: 'm ServerMessage \<Rightarrow> (int \<times> utext) option"
  obtain messages :: "'m ServerMessage list" and fm' parts where
    run: "run_framer weigh outputs fm = Some (messages, fm')"
      "numbered_parts (fm_stream_id fm) (ring_head_seq (fm_ring fm) + 1) messages parts"
      "concat (map snd parts) = concat (map fst outputs)"
    using run_framer_spec [OF assms] by blast
  have some: "map ?part messages = map Some parts" using run(2) by (simp add: numbered_parts_def)
  have mine: "\<forall>m \<in> set messages. ?part m \<noteq> None"
  proof
    fix m assume "m \<in> set messages"
    then have "?part m \<in> set (map Some parts)" unfolding some [symmetric] by simp
    then show "?part m \<noteq> None" by auto
  qed
  have parts: "map (the \<circ> ?part) messages = parts"
    using arg_cong [OF some, of "map the"] by (simp add: o_def)
  have keys: "sorted (map fst parts)" "distinct (map fst parts)"
    using run(2) by (simp_all add: numbered_parts_def)
  have "reassemble_stream received (fm_stream_id fm) = concat (map fst outputs)"
    if "filter_mset (\<lambda>m. ?part m \<noteq> None) (mset received) = mset messages"
    for received :: "'m ServerMessage list"
  proof -
    have "List.map_filter ?part received = map (the \<circ> ?part) (filter (\<lambda>m. ?part m \<noteq> None) received)"
      by (simp add: List.map_filter_def)
    then have "mset (List.map_filter ?part received) = image_mset (the \<circ> ?part) (mset messages)"
      using that by simp
    then have "mset parts = mset (List.map_filter ?part received)" using parts by (metis mset_map)
    from sort_key_unique [OF this keys] run(3) show ?thesis by (simp add: reassemble_stream_def)
  qed
  then show ?thesis using run(1) mine by blast
qed

text \<open>A fresh framer with the code's measure: a single character is at most eight serialized bytes.\<close>

lemma measure_serialized_size: "serialized_size measure_terminal_output_budget_payload_bytes"
  using measure_bounds(2,3) by (simp add: serialized_size_def prefix_monotone_def)

lemma framer_new_wf:
  assumes "resolve_max_bytes env_ring ring_limit < 2 ^ 63"
    and "terminal_stream_batch_max_bytes_for_env env_batch \<le> resolve_max_bytes env_ring ring_limit"
    and "json_string_len (ascii tid) + json_string_len (ascii sid) \<le> 300"
  shows "framer_wf measure_terminal_output_budget_payload_bytes (framer_new env_ring env_batch tid sid ring_limit)"
proof -
  let ?batch = "terminal_stream_batch_max_bytes_for_env env_batch"
  have batch: "1024 \<le> ?batch"
    by (simp add: terminal_stream_batch_max_bytes_for_env_def PACED_PAGE_BUDGET_FLOOR_BYTES_def)
  have "measure_terminal_output_budget_payload_bytes tid sid [c] \<le> ?batch" for c
    using measure_bounds(1) [of tid sid "[c]"] escaped_char_ge(2) [of c] assms(3) batch by (simp add: json_string_len_def)
  then show ?thesis
    using ring_new_wf [OF assms(1)] assms(2) batch by (simp add: framer_wf_def framer_new_def ring_new_def Let_def)
qed

text \<open>C26: whatever a terminal prints reaches the client whole. For a new framer whose ring holds at least one
  batch and whose two names take at most 300 bytes serialized, the framer never panics, every message is of
  its stream, and a client that keeps the messages of the stream, in whatever order they arrive and whatever
  others arrive between them, reassembles exactly the output.\<close>

theorem stream_reassembles:
  assumes "resolve_max_bytes env_ring ring_limit < 2 ^ 63"
    and "terminal_stream_batch_max_bytes_for_env env_batch \<le> resolve_max_bytes env_ring ring_limit"
    and "json_string_len (ascii tid) + json_string_len (ascii sid) \<le> 300"
    and "\<forall>out \<in> set outputs. valid_text (fst out)"
  shows "\<exists>(messages :: 'm ServerMessage list) fm'.
    run_framer measure_terminal_output_budget_payload_bytes outputs (framer_new env_ring env_batch tid sid ring_limit)
      = Some (messages, fm')
    \<and> (\<forall>m \<in> set messages. stream_part sid m \<noteq> None)
    \<and> (\<forall>received. filter_mset (\<lambda>m. stream_part sid m \<noteq> None) (mset received) = mset messages \<longrightarrow>
        reassemble_stream received sid = concat (map fst outputs))"
  using framer_reassembles [OF measure_serialized_size framer_new_wf [OF assms(1-3)] assms(4)]
  by (simp add: framer_new_def)

theorem stream_reassembles_witness:
  "\<exists>messages fm'. run_framer measure_terminal_output_budget_payload_bytes [([104, 105], \<lambda>i. 3), ([0x1F600], \<lambda>i. 4)]
       (framer_new None None ''t1'' ''stream-1'' None) = Some (messages, fm')
     \<and> reassemble_stream (rev (messages @ [OtherMessage ()])) ''stream-1'' = [104, 105, 0x1F600]"
proof -
  let ?outs = "[([104, 105], \<lambda>i. 3), ([0x1F600], \<lambda>i. 4)] :: (utext \<times> (nat \<Rightarrow> nat)) list"
  have valid: "\<forall>out \<in> set ?outs. valid_text (fst out)" by (simp add: is_scalar_def)
  have names: "json_string_len (ascii ''t1'') + json_string_len (ascii ''stream-1'') \<le> 300"
    by (simp add: json_string_len_def ascii_def escaped_char_len_def len_utf8_def)
  have room: "resolve_max_bytes None None < 2 ^ 63"
    "terminal_stream_batch_max_bytes_for_env None \<le> resolve_max_bytes None None"
    by (simp_all add: resolve_max_bytes_def DEFAULT_TERMINAL_REPLAY_RING_MAX_BYTES_def
        terminal_stream_batch_max_bytes_for_env_def MAX_REALTIME_MESSAGE_BYTES_def PACED_PAGE_BUDGET_FLOOR_BYTES_def)
  obtain messages :: "unit ServerMessage list" and fm' where
    run: "run_framer measure_terminal_output_budget_payload_bytes ?outs (framer_new None None ''t1'' ''stream-1'' None)
        = Some (messages, fm')"
    and mine: "\<forall>m \<in> set messages. stream_part ''stream-1'' m \<noteq> None"
    and whole: "\<And>received. filter_mset (\<lambda>m. stream_part ''stream-1'' m \<noteq> None) (mset received) = mset messages \<Longrightarrow>
        reassemble_stream received ''stream-1'' = concat (map fst ?outs)"
    using stream_reassembles [OF room names valid] by blast
  have "filter (\<lambda>m. stream_part ''stream-1'' m \<noteq> None) messages = messages" using mine by (simp add: filter_True)
  then have "filter_mset (\<lambda>m. stream_part ''stream-1'' m \<noteq> None) (mset (rev (messages @ [OtherMessage ()]))) = mset messages"
    by (simp add: stream_part_def [of _ "OtherMessage ()"] flip: mset_filter)
  from whole [OF this] run show ?thesis by auto
qed

end
