(* ===== verification/Create_Limit.thy ===== *)
theory Create_Limit
  imports Prelude
begin

text \<open>
  The sliding-window limiter on terminal creation, one per connection, and its configuration
  (crates/freshell-ws/src/create_limit.rs, and \<open>env_parse\<close> of crates/freshell-ws/src/lib.rs). Time is
  epoch milliseconds, so the saturating difference of the code is the truncating one here.
\<close>

section \<open>Configuration\<close>

text \<open>\<open>raw\<close> is the variable's parsed value: \<open>None\<close> when it is unset or not a number.\<close>

definition env_parse :: "nat option \<Rightarrow> nat \<Rightarrow> nat" where
  "env_parse raw dflt = (case raw of None \<Rightarrow> dflt | Some v \<Rightarrow> if 0 < v then v else dflt)"

record CreateProtectConfig =
  rate_limit :: nat
  rate_window_ms :: nat
  spawn_concurrency :: nat
  spawn_queue_cap :: nat
  spawn_timeout_ms :: nat

definition CreateProtectConfig_default :: CreateProtectConfig where
  "CreateProtectConfig_default =
     \<lparr>rate_limit = 10, rate_window_ms = 10000, spawn_concurrency = 4, spawn_queue_cap = 64,
      spawn_timeout_ms = 10000\<rparr>"

definition config_from_env :: "(string \<Rightarrow> nat option) \<Rightarrow> CreateProtectConfig" where
  "config_from_env env =
     (let d = CreateProtectConfig_default in
      \<lparr>rate_limit = env_parse (env ''TERMINAL_CREATE_RATE_LIMIT'') (rate_limit d),
       rate_window_ms = env_parse (env ''TERMINAL_CREATE_RATE_WINDOW_MS'') (rate_window_ms d),
       spawn_concurrency = env_parse (env ''FRESHELL_SPAWN_GATE_CONCURRENCY'') (spawn_concurrency d),
       spawn_queue_cap = env_parse (env ''FRESHELL_SPAWN_GATE_QUEUE_CAP'') (spawn_queue_cap d),
       spawn_timeout_ms = env_parse (env ''FRESHELL_SPAWN_GATE_TIMEOUT_MS'') (spawn_timeout_ms d)\<rparr>)"

section \<open>The limiter\<close>

record CreateRateLimiter =
  timestamps :: "nat list"
  limit :: nat
  window_ms :: nat

definition limiter_new :: "nat \<Rightarrow> nat \<Rightarrow> CreateRateLimiter" where
  "limiter_new limit' window' = \<lparr>timestamps = [], limit = limit', window_ms = window'\<rparr>"

text \<open>Expired entries off the front, up to the first that is still inside the window.\<close>

fun prune :: "nat \<Rightarrow> nat \<Rightarrow> nat list \<Rightarrow> nat list" where
  "prune window now_ms [] = []"
| "prune window now_ms (oldest # rest) =
     (if now_ms - oldest < window then oldest # rest else prune window now_ms rest)"

definition try_acquire :: "nat \<Rightarrow> CreateRateLimiter \<Rightarrow> bool \<times> CreateRateLimiter" where
  "try_acquire now_ms l =
     (let ts = prune (window_ms l) now_ms (timestamps l) in
      if limit l \<le> length ts then (False, l\<lparr>timestamps := ts\<rparr>)
      else (True, l\<lparr>timestamps := ts @ [now_ms]\<rparr>))"

section \<open>What the window admits\<close>

text \<open>The accepted requests of a stream of them, in order.\<close>

fun accepted :: "nat list \<Rightarrow> CreateRateLimiter \<Rightarrow> nat list" where
  "accepted [] l = []"
| "accepted (t # ts) l =
     (let (ok, l') = try_acquire t l in (if ok then [t] else []) @ accepted ts l')"

definition after :: "nat list \<Rightarrow> CreateRateLimiter \<Rightarrow> CreateRateLimiter" where
  "after ts l = fold (\<lambda>t l. snd (try_acquire t l)) ts l"

definition inside :: "nat \<Rightarrow> nat \<Rightarrow> nat list \<Rightarrow> nat list" where
  "inside window now ts = filter (\<lambda>t. now - t < window) ts"

lemma prune_sorted: "sorted ts \<Longrightarrow> prune window now ts = inside window now ts"
proof (induction ts)
  case (Cons t ts)
  have "filter (\<lambda>u. now - u < window) ts = ts" if "now - t < window"
    using that Cons.prems by (auto simp: filter_id_conv intro: le_less_trans [OF diff_le_mono2])
  then show ?case using Cons by (simp add: inside_def)
qed (simp add: inside_def)

lemma inside_later: "now \<le> later \<Longrightarrow> inside window later (inside window now ts) = inside window later ts"
  by (auto simp: inside_def intro!: filter_cong)

lemma try_acquire_config [simp]:
  "limit (snd (try_acquire t l)) = limit l" "window_ms (snd (try_acquire t l)) = window_ms l"
  by (simp_all add: try_acquire_def Let_def)

text \<open>The limiter's memory is, for any later moment, as good as the whole history of accepts.\<close>

definition remembers :: "CreateRateLimiter \<Rightarrow> nat list \<Rightarrow> nat \<Rightarrow> bool" where
  "remembers l history now =
     (sorted (timestamps l) \<and> (\<forall>t \<in> set (timestamps l). t \<le> now)
      \<and> (\<forall>later \<ge> now. inside (window_ms l) later (timestamps l) = inside (window_ms l) later history))"

lemma try_acquire_remembers:
  assumes "remembers l history now" and "now \<le> t"
  shows "remembers (snd (try_acquire t l))
           (history @ (if fst (try_acquire t l) then [t] else [])) t
    \<and> fst (try_acquire t l) = (length (inside (window_ms l) t history) < limit l)"
proof -
  let ?ts = "inside (window_ms l) t (timestamps l)"
  have sorted: "sorted (timestamps l)" and old: "\<forall>u \<in> set (timestamps l). u \<le> t"
    and same: "\<And>later. now \<le> later \<Longrightarrow>
      inside (window_ms l) later (timestamps l) = inside (window_ms l) later history"
    using assms by (auto simp: remembers_def)
  have step: "try_acquire t l = (if limit l \<le> length ?ts then (False, l\<lparr>timestamps := ?ts\<rparr>)
      else (True, l\<lparr>timestamps := ?ts @ [t]\<rparr>))"
    by (simp add: try_acquire_def prune_sorted [OF sorted] Let_def)
  have "sorted ?ts" "\<forall>u \<in> set ?ts. u \<le> t" using sorted old by (auto simp: inside_def sorted_wrt_filter)
  moreover have "inside (window_ms l) later ?ts = inside (window_ms l) later history" if "t \<le> later" for later
    using inside_later [OF that] same [of later] that assms(2) by simp
  moreover have "inside (window_ms l) later (xs @ [t]) = inside (window_ms l) later xs @ inside (window_ms l) later [t]"
    for xs later by (simp add: inside_def)
  ultimately show ?thesis
    using same [OF assms(2)] by (auto simp: step remembers_def sorted_append not_le)
qed

lemma accepted_append: "accepted (ts @ us) l = accepted ts l @ accepted us (after ts l)"
  by (induction ts arbitrary: l) (simp_all add: after_def case_prod_beta Let_def)

lemma after_config [simp]: "limit (after ts l) = limit l" "window_ms (after ts l) = window_ms l"
  by (induction ts arbitrary: l) (simp_all add: after_def)

lemma run_remembers:
  "remembers l history now \<Longrightarrow> sorted (now # ts) \<Longrightarrow>
     remembers (after ts l) (history @ accepted ts l) (last (now # ts))"
proof (induction ts arbitrary: l history now)
  case (Cons t ts)
  have "now \<le> t" using Cons.prems(2) by simp
  from conjunct1 [OF try_acquire_remembers [OF Cons.prems(1) this]]
  have "remembers (snd (try_acquire t l)) (history @ (if fst (try_acquire t l) then [t] else [])) t" .
  from Cons.IH [OF this] Cons.prems(2) show ?case by (simp add: after_def case_prod_beta Let_def)
qed (simp add: after_def)

lemma admits_iff:
  assumes "sorted (stamps @ [now])"
  shows "fst (try_acquire now (after stamps (limiter_new lim window)))
     = (length (inside window now (accepted stamps (limiter_new lim window))) < lim)"
proof -
  let ?l = "limiter_new lim window"
  have "remembers ?l [] 0" by (simp add: remembers_def limiter_new_def inside_def)
  moreover have "sorted (0 # stamps)" using assms by (simp add: sorted_append)
  ultimately have r: "remembers (after stamps ?l) ([] @ accepted stamps ?l) (last (0 # stamps))"
    by (rule run_remembers)
  have "last (0 # stamps) \<le> now" using assms by (auto simp: sorted_append)
  from conjunct2 [OF try_acquire_remembers [OF r this]] show ?thesis by (simp add: limiter_new_def)
qed

lemma window_never_exceeded:
  assumes "sorted stamps"
  shows "length (filter (\<lambda>t. t \<le> upto_ms \<and> upto_ms - t < window)
           (accepted stamps (limiter_new lim window))) \<le> lim"
  using assms
proof (induction stamps rule: rev_induct)
  case (snoc t ts)
  let ?l = "limiter_new lim window" and ?in = "\<lambda>t. t \<le> upto_ms \<and> upto_ms - t < window"
  have step: "accepted (ts @ [t]) ?l = accepted ts ?l @ (if fst (try_acquire t (after ts ?l)) then [t] else [])"
    by (simp add: accepted_append case_prod_beta Let_def)
  have before: "length (filter ?in (accepted ts ?l)) \<le> lim"
    using snoc by (simp add: sorted_append)
  show ?case
  proof (cases "fst (try_acquire t (after ts ?l)) \<and> ?in t")
    case True
    have "length (inside window t (accepted ts ?l)) < lim"
      using True admits_iff [OF snoc.prems] by simp
    moreover have "filter ?in (accepted ts ?l) = filter ?in (inside window t (accepted ts ?l))"
      using True by (auto simp: inside_def intro!: filter_cong)
    moreover have "length (filter ?in xs) \<le> length xs" for xs by simp
    ultimately have "length (filter ?in (accepted ts ?l)) < lim" by (metis le_less_trans)
    then show ?thesis using True by (simp add: step)
  next
    case False
    then show ?thesis using before by (auto simp: step)
  qed
qed (simp add: limiter_new_def)

text \<open>C34: for requests in time order the limiter admits exactly by its documented rule: a request passes
  if and only if fewer than the limit of the requests accepted before it lie strictly within the
  window that ends at it, a rejected one leaving no trace; so no window of that length, wherever it
  ends, ever contains more accepted requests than the limit.\<close>

theorem try_acquire_exact:
  assumes "sorted (stamps @ [now])"
  shows "fst (try_acquire now (after stamps (limiter_new lim window)))
     = (length (inside window now (accepted stamps (limiter_new lim window))) < lim)
    \<and> length (filter (\<lambda>t. t \<le> upto_ms \<and> upto_ms - t < window)
        (accepted (stamps @ [now]) (limiter_new lim window))) \<le> lim"
  using admits_iff [OF assms] window_never_exceeded [OF assms] by blast

theorem try_acquire_exact_witness:
  "length (filter (\<lambda>t. t \<le> 10500 \<and> 10500 - t < 10000)
       (accepted ([100, 600, 9000, 10200] @ [10400]) (limiter_new 2 10000))) \<le> 2
   \<and> \<not> fst (try_acquire 9500 (after [100, 600, 9000] (limiter_new 2 10000)))"
proof
  show "length (filter (\<lambda>t. t \<le> 10500 \<and> 10500 - t < 10000)
      (accepted ([100, 600, 9000, 10200] @ [10400]) (limiter_new 2 10000))) \<le> 2"
    by (rule conjunct2 [OF try_acquire_exact]) simp
  show "\<not> fst (try_acquire 9500 (after [100, 600, 9000] (limiter_new 2 10000)))"
    by (simp add: after_def try_acquire_def limiter_new_def)
qed

end
