(* ===== verification/Delivery_Queue.thy ===== *)
theory Delivery_Queue
  imports Prelude "HOL-Library.Monad_Syntax" "HOL-Library.Char_ord" "HOL-Library.List_Lexorder"
    "HOL-Library.Product_Lexorder"
begin

text \<open>
  The per-connection queue of terminal output that waits for the socket
  (crates/freshell-ws/src/terminal_delivery_queue.rs). Frames of many terminals are admitted in one
  order, evicted oldest first when they exceed the byte budget, and delivered terminal by terminal
  under byte-fair scheduling between three priority classes.

  A \<open>BTreeMap\<close> is an \<open>fmap\<close> iterated in key order by \<open>sorted_list_of_fmap\<close>, a
  \<open>BTreeSet\<close> of ids is the sorted list of its elements, a counter array is a list. An operation
  that may panic (an \<open>expect\<close> on an index that is out of step, or a subtraction that would
  underflow) returns an option, and \<open>None\<close> is the panic.
\<close>

section \<open>Data\<close>

definition i64_top :: int where "i64_top = 2 ^ 63 - 1"

datatype Priority = Focused | Visible | Background

fun priority_index :: "Priority \<Rightarrow> nat" where
  "priority_index Focused = 0"
| "priority_index Visible = 1"
| "priority_index Background = 2"

record Range =
  ra_stream_id :: string
  ra_attach_request_id :: "string option"
  ra_from_seq :: int
  ra_to_seq :: int

datatype 'p Delivery = Frame 'p nat | Gap string Range

record EvictedOutput =
  ev_terminal_id :: string
  ev_range :: Range

datatype CapacityError = MetadataLimit | UnrecoverableOverflow | SequenceExhausted

record 'p Entry =
  en_terminal_id :: string
  en_payload :: 'p
  en_bytes :: nat
  en_range :: "Range option"
  en_stamp :: nat

definition WEIGHT :: "nat list" where
  "WEIGHT = [3, 8, 24]"

record Lane =
  la_priority :: Priority
  la_ids :: "nat list"
  la_gaps :: "Range list"
  la_served :: nat

definition lane_active :: "Lane \<Rightarrow> bool" where
  "lane_active lane = (la_ids lane \<noteq> [] \<or> la_gaps lane \<noteq> [])"

record 'p DeliveryQueue =
  dq_entries :: "(nat, 'p Entry) fmap"
  dq_evictable :: "nat list"
  dq_lanes :: "(string, Lane) fmap"
  dq_next_id :: nat
  dq_bytes :: nat
  dq_reserved :: nat
  dq_byte_limit :: nat
  dq_metadata_limit :: nat
  dq_gap_count :: nat
  dq_evictions :: "EvictedOutput list"
  dq_class_served :: "nat list"
  dq_class_clock :: nat
  dq_lane_clock :: "nat list"

definition queue_new :: "nat \<Rightarrow> nat \<Rightarrow> 'p DeliveryQueue" where
  "queue_new byte_limit metadata_limit =
     \<lparr>dq_entries = fmempty, dq_evictable = [], dq_lanes = fmempty, dq_next_id = 0, dq_bytes = 0,
      dq_reserved = 0, dq_byte_limit = max byte_limit 1, dq_metadata_limit = max metadata_limit 1,
      dq_gap_count = 0, dq_evictions = [], dq_class_served = [0, 0, 0], dq_class_clock = 0,
      dq_lane_clock = [0, 0, 0]\<rparr>"

definition pending_bytes :: "'p DeliveryQueue \<Rightarrow> nat" where
  "pending_bytes q = dq_bytes q"

definition outstanding_bytes :: "'p DeliveryQueue \<Rightarrow> nat" where
  "outstanding_bytes q = saturating usize_max (dq_bytes q + dq_reserved q)"

definition set_reserved_bytes :: "nat \<Rightarrow> 'p DeliveryQueue \<Rightarrow> 'p DeliveryQueue" where
  "set_reserved_bytes bytes q = q\<lparr>dq_reserved := bytes\<rparr>"

section \<open>Admission and eviction\<close>

text \<open>Recording an evicted range: it extends the lane's last gap where it continues it, and is a gap
  of its own otherwise. The result says whether a gap was added.\<close>

definition add_gap :: "Range \<Rightarrow> Range list \<Rightarrow> Range list \<times> nat" where
  "add_gap rng gaps =
     (if gaps \<noteq> []
         \<and> ra_stream_id (last gaps) = ra_stream_id rng
         \<and> ra_attach_request_id (last gaps) = ra_attach_request_id rng
         \<and> ra_from_seq rng \<le> min (ra_to_seq (last gaps) + 1) i64_top
      then (butlast gaps
              @ [(last gaps)\<lparr>ra_from_seq := min (ra_from_seq (last gaps)) (ra_from_seq rng),
                             ra_to_seq := max (ra_to_seq (last gaps)) (ra_to_seq rng)\<rparr>], 0)
      else (gaps @ [rng], 1))"

definition evict_one :: "nat \<Rightarrow> 'p DeliveryQueue \<Rightarrow> 'p DeliveryQueue option" where
  "evict_one fid q =
     do { entry \<leftarrow> fmlookup (dq_entries q) fid;
          bytes \<leftarrow> checked_sub (dq_bytes q) (en_bytes entry);
          lane \<leftarrow> fmlookup (dq_lanes q) (en_terminal_id entry);
          rng \<leftarrow> en_range entry;
          let merged = add_gap rng (la_gaps lane);
          Some (q\<lparr>dq_entries := fmdrop fid (dq_entries q), dq_bytes := bytes,
                  dq_lanes := fmupd (en_terminal_id entry)
                    (lane\<lparr>la_ids := removeAll fid (la_ids lane), la_gaps := fst merged\<rparr>) (dq_lanes q),
                  dq_evictions := dq_evictions q
                    @ [\<lparr>ev_terminal_id = en_terminal_id entry, ev_range = rng\<rparr>],
                  dq_gap_count := dq_gap_count q + snd merged\<rparr>) }"

lemma evict_one_evictable: "evict_one fid q = Some q' \<Longrightarrow> dq_evictable q' = dq_evictable q"
  by (auto simp: evict_one_def Let_def bind_eq_Some_conv)

function evict_overflow :: "'p DeliveryQueue \<Rightarrow> ((CapacityError + unit) \<times> 'p DeliveryQueue) option" where
  "evict_overflow q =
     (if dq_byte_limit q < outstanding_bytes q
      then (case dq_evictable q of
              [] \<Rightarrow> Some (Inl UnrecoverableOverflow, q)
            | fid # rest \<Rightarrow>
                (case evict_one fid (q\<lparr>dq_evictable := rest\<rparr>) of
                   None \<Rightarrow> None
                 | Some q' \<Rightarrow> evict_overflow q'))
      else Some (Inr (), q))"
  by pat_completeness auto
termination
  by (relation "measure (\<lambda>q. length (dq_evictable q))") (auto dest: evict_one_evictable)

declare evict_overflow.simps [simp del]

definition push ::
  "string \<Rightarrow> Priority \<Rightarrow> 'p \<Rightarrow> nat \<Rightarrow> Range option \<Rightarrow> nat \<Rightarrow> 'p DeliveryQueue
   \<Rightarrow> ((CapacityError + unit) \<times> 'p DeliveryQueue) option" where
  "push terminal_id priority payload bytes rng stamp q =
     (if dq_metadata_limit q \<le> saturating usize_max (fcard (fmdom (dq_entries q)) + dq_gap_count q)
      then Some (Inl MetadataLimit, q)
      else
        (let fid = dq_next_id q in
         case checked_add usize_max fid 1 of
           None \<Rightarrow> Some (Inl SequenceExhausted, q)
         | Some next_id \<Rightarrow>
             (case checked_add usize_max (dq_bytes q) bytes of
                None \<Rightarrow> Some (Inl UnrecoverableOverflow, q)
              | Some next_bytes \<Rightarrow>
                  (let class = priority_index priority;
                       lane = (case fmlookup (dq_lanes q) terminal_id of
                                 Some lane \<Rightarrow> lane
                               | None \<Rightarrow> \<lparr>la_priority = priority, la_ids = [], la_gaps = [],
                                           la_served = dq_lane_clock q ! class\<rparr>)
                   in evict_overflow
                        (q\<lparr>dq_next_id := next_id,
                           dq_class_served := (dq_class_served q)
                             [class := max (dq_class_served q ! class) (dq_class_clock q)],
                           dq_lanes := fmupd terminal_id
                             (lane\<lparr>la_ids := insort_insert fid (la_ids lane)\<rparr>) (dq_lanes q),
                           dq_evictable :=
                             (if rng \<noteq> None then insort_insert fid (dq_evictable q) else dq_evictable q),
                           dq_bytes := next_bytes,
                           dq_entries := fmupd fid
                             \<lparr>en_terminal_id = terminal_id, en_payload = payload, en_bytes = bytes,
                              en_range = rng, en_stamp = stamp\<rparr> (dq_entries q)\<rparr>)))))"

definition take_evictions :: "'p DeliveryQueue \<Rightarrow> EvictedOutput list \<times> 'p DeliveryQueue" where
  "take_evictions q = (dq_evictions q, q\<lparr>dq_evictions := []\<rparr>)"

section \<open>Clocks and scheduling\<close>

fun scan_lanes :: "(string \<times> Lane) list \<Rightarrow> bool list \<Rightarrow> nat list \<Rightarrow> bool list \<times> nat list" where
  "scan_lanes [] active lane_min = (active, lane_min)"
| "scan_lanes ((terminal_id, lane) # lanes) active lane_min =
     (if lane_active lane
      then (let i = priority_index (la_priority lane) in
            scan_lanes lanes (active[i := True]) (lane_min[i := min (lane_min ! i) (la_served lane)]))
      else scan_lanes lanes active lane_min)"

definition refresh_clocks :: "'p DeliveryQueue \<Rightarrow> 'p DeliveryQueue" where
  "refresh_clocks q =
     (let (active, lane_min) = scan_lanes (sorted_list_of_fmap (dq_lanes q))
                                 (replicate 3 False) (replicate 3 u128_max);
          clock = (case map ((!) (dq_class_served q)) (filter ((!) active) [0 ..< 3]) of
                     [] \<Rightarrow> dq_class_clock q
                   | served \<Rightarrow> max (dq_class_clock q) (min_list served))
      in q\<lparr>dq_class_clock := clock,
           dq_lane_clock := map (\<lambda>i. if active ! i then max (dq_lane_clock q ! i) (lane_min ! i)
                                     else dq_lane_clock q ! i) [0 ..< 3]\<rparr>)"

definition update_lane ::
  "Priority \<Rightarrow> string \<Rightarrow> Lane \<Rightarrow> 'p DeliveryQueue \<Rightarrow> 'p DeliveryQueue" where
  "update_lane next_priority terminal_id lane q =
     (let origin = priority_index (la_priority lane);
          dest = priority_index next_priority;
          (lane, served) =
            (if la_priority lane \<noteq> next_priority
             then (lane\<lparr>la_priority := next_priority, la_served := dq_lane_clock q ! dest\<rparr>,
                   (dq_class_served q)
                     [dest := max (dq_class_served q ! dest) (dq_class_served q ! origin)])
             else (lane, dq_class_served q))
      in q\<lparr>dq_lanes := fmupd terminal_id lane (dq_lanes q),
           dq_class_served := served[dest := max (served ! dest) (dq_class_clock q)]\<rparr>)"

fun update_lanes ::
  "(string \<Rightarrow> Priority) \<Rightarrow> (string \<times> Lane) list \<Rightarrow> 'p DeliveryQueue \<Rightarrow> 'p DeliveryQueue" where
  "update_lanes priority [] q = q"
| "update_lanes priority ((terminal_id, lane) # lanes) q =
     update_lanes priority lanes (update_lane (priority terminal_id) terminal_id lane q)"

definition update_priorities :: "(string \<Rightarrow> Priority) \<Rightarrow> 'p DeliveryQueue \<Rightarrow> 'p DeliveryQueue" where
  "update_priorities priority q =
     refresh_clocks (update_lanes priority (sorted_list_of_fmap (dq_lanes q)) q)"

fun discard_ids :: "nat list \<Rightarrow> 'p DeliveryQueue \<Rightarrow> 'p DeliveryQueue option" where
  "discard_ids [] q = Some q"
| "discard_ids (fid # fids) q =
     do { entry \<leftarrow> fmlookup (dq_entries q) fid;
          bytes \<leftarrow> checked_sub (dq_bytes q) (en_bytes entry);
          discard_ids fids
            (q\<lparr>dq_entries := fmdrop fid (dq_entries q), dq_bytes := bytes,
               dq_evictable := removeAll fid (dq_evictable q)\<rparr>) }"

definition discard_terminal :: "string \<Rightarrow> 'p DeliveryQueue \<Rightarrow> 'p DeliveryQueue option" where
  "discard_terminal terminal_id q =
     (case fmlookup (dq_lanes q) terminal_id of
        None \<Rightarrow> Some (refresh_clocks q)
      | Some lane \<Rightarrow>
          do { count \<leftarrow> checked_sub (dq_gap_count q) (length (la_gaps lane));
               q \<leftarrow> discard_ids (la_ids lane)
                     (q\<lparr>dq_lanes := fmdrop terminal_id (dq_lanes q), dq_gap_count := count\<rparr>);
               Some (refresh_clocks q) })"

definition lane_key :: "'p DeliveryQueue \<Rightarrow> string \<times> Lane \<Rightarrow> nat \<times> nat \<times> nat \<times> string" where
  "lane_key q = (\<lambda>(terminal_id, lane).
     let i = priority_index (la_priority lane) in
     (max (dq_class_served q ! i) (dq_class_clock q), i,
      max (la_served lane) (dq_lane_clock q ! i), terminal_id))"

definition select_lane :: "'p DeliveryQueue \<Rightarrow> string option" where
  "select_lane q =
     (case filter (\<lambda>(terminal_id, lane). lane_active lane) (sorted_list_of_fmap (dq_lanes q)) of
        [] \<Rightarrow> None
      | lanes \<Rightarrow> Some (fst (arg_min_list (lane_key q) lanes)))"

definition has_pending :: "'p DeliveryQueue \<Rightarrow> bool" where
  "has_pending q = list_ex (\<lambda>(terminal_id, lane). lane_active lane) (sorted_list_of_fmap (dq_lanes q))"

definition front_stamp :: "'p DeliveryQueue \<Rightarrow> nat option option" where
  "front_stamp q =
     (case select_lane q of
        None \<Rightarrow> Some None
      | Some terminal_id \<Rightarrow>
          do { lane \<leftarrow> fmlookup (dq_lanes q) terminal_id;
               if la_gaps lane \<noteq> [] then Some None
               else (case la_ids lane of
                       [] \<Rightarrow> None
                     | fid # _ \<Rightarrow> do { entry \<leftarrow> fmlookup (dq_entries q) fid; Some (Some (en_stamp entry)) }) })"

section \<open>Delivery\<close>

text \<open>Taking the lane's next item: a gap before any frame, else its oldest frame.\<close>

definition take_front ::
  "string \<Rightarrow> Lane \<Rightarrow> 'p DeliveryQueue \<Rightarrow> ('p Delivery \<times> nat \<times> Lane \<times> 'p DeliveryQueue) option" where
  "take_front terminal_id lane q =
     (case la_gaps lane of
        rng # gaps \<Rightarrow>
          do { count \<leftarrow> checked_sub (dq_gap_count q) 1;
               Some (Gap terminal_id rng, 256, lane\<lparr>la_gaps := gaps\<rparr>, q\<lparr>dq_gap_count := count\<rparr>) }
      | [] \<Rightarrow>
          (case la_ids lane of
             [] \<Rightarrow> None
           | fid # fids \<Rightarrow>
               do { entry \<leftarrow> fmlookup (dq_entries q) fid;
                    bytes \<leftarrow> checked_sub (dq_bytes q) (en_bytes entry);
                    Some (Frame (en_payload entry) (en_bytes entry), max (en_bytes entry) 1,
                          lane\<lparr>la_ids := fids\<rparr>,
                          q\<lparr>dq_entries := fmdrop fid (dq_entries q),
                            dq_evictable := removeAll fid (dq_evictable q), dq_bytes := bytes\<rparr>) }))"

text \<open>Charging the delivery to its lane and to its class.\<close>

definition charge :: "nat \<Rightarrow> string \<Rightarrow> Lane \<Rightarrow> 'p DeliveryQueue \<Rightarrow> 'p DeliveryQueue" where
  "charge cost terminal_id lane q =
     (let class = priority_index (la_priority lane);
          lane = lane\<lparr>la_served := saturating u128_max (max (la_served lane) (dq_lane_clock q ! class) + cost)\<rparr>
      in q\<lparr>dq_class_served := (dq_class_served q)
             [class := saturating u128_max
                (max (dq_class_served q ! class) (dq_class_clock q)
                 + saturating u128_max (cost * WEIGHT ! class))],
           dq_lanes := (if lane_active lane then fmupd terminal_id lane (dq_lanes q)
                        else fmdrop terminal_id (dq_lanes q))\<rparr>)"

definition pop :: "'p DeliveryQueue \<Rightarrow> ('p Delivery option \<times> 'p DeliveryQueue) option" where
  "pop q =
     (case select_lane q of
        None \<Rightarrow> Some (None, q)
      | Some terminal_id \<Rightarrow>
          do { lane \<leftarrow> fmlookup (dq_lanes q) terminal_id;
               (delivery, cost, lane, q) \<leftarrow> take_front terminal_id lane q;
               Some (Some delivery, refresh_clocks (charge cost terminal_id lane q)) })"

end
