(* ===== verification/Delivery_Spec.thy ===== *)
theory Delivery_Spec
  imports Delivery_Queue
begin

text \<open>
  What the delivery queue promises, as a mailbox: the pending frames in admission order and each
  terminal's gaps, with none of the ids, the evictable index, the lanes' index sets, the byte and gap
  counters or the clocks. The queue refines it operation by operation, and in a consistent queue no
  operation panics.
\<close>

section \<open>Ordered maps\<close>

lemma sorted_list_of_fmap_keys: "map fst (sorted_list_of_fmap m) = sorted_list_of_fset (fmdom m)"
  by (simp add: sorted_list_of_fmap_def comp_def)

lemma sorted_list_of_fset_eq: "sorted_list_of_fset A = sorted_list_of_set (fset A)"
  by (simp add: sorted_list_of_fset.rep_eq)

lemma distinct_fmap_keys: "distinct (map fst (sorted_list_of_fmap m))"
  by (simp add: sorted_list_of_fmap_keys sorted_list_of_fset_eq)

lemma fmap_entry_iff [simp]: "(k, v) \<in> set (sorted_list_of_fmap m) \<longleftrightarrow> fmlookup m k = Some v"
  by (auto simp: sorted_list_of_fmap_def image_iff fmdomI dest: fmdomI)

lemma length_fmap_list: "length (sorted_list_of_fmap m) = fcard (fmdom m)"
  by (simp add: sorted_list_of_fmap_def sorted_list_of_fset_eq fcard.rep_eq)

lemma fmap_list_drop:
  "sorted_list_of_fmap (fmdrop k m) = filter (\<lambda>x. fst x \<noteq> k) (sorted_list_of_fmap m)"
proof -
  have "sorted_list_of_fset (fmdom m |-| {|k|}) = filter (\<lambda>j. j \<noteq> k) (sorted_list_of_fset (fmdom m))"
    by (simp add: sorted_list_of_fset_eq sorted_list_of_set_remove distinct_remove1_removeAll
        removeAll_filter_not_eq) (metis (full_types))
  then show ?thesis
    by (simp add: sorted_list_of_fmap_def filter_map comp_def cong: map_cong)
qed

lemma fmap_list_snoc:
  assumes "\<And>j w. fmlookup m j = Some w \<Longrightarrow> j < k"
  shows "sorted_list_of_fmap (fmupd k v m) = sorted_list_of_fmap m @ [(k, v)]"
proof -
  have below: "\<forall>j \<in> fset (fmdom m). j < k" using assms by (auto simp: fmlookup_dom_iff)
  then have gone: "fset (fmdom m) - {k} = fset (fmdom m)" "k \<notin> fset (fmdom m)" by auto
  have "insort k (sorted_list_of_set (fset (fmdom m))) = sorted_list_of_set (fset (fmdom m)) @ [k]"
    by (rule sorted_insort_is_snoc) (use below in \<open>auto intro: less_imp_le\<close>)
  with gone have "sorted_list_of_set (fset (finsert k (fmdom m))) = sorted_list_of_set (fset (fmdom m)) @ [k]"
    by simp
  with gone(2) show ?thesis
    by (auto simp: sorted_list_of_fmap_def sorted_list_of_fset_eq)
qed

lemma fmap_list_empty [simp]: "sorted_list_of_fmap fmempty = []"
  by (simp add: sorted_list_of_fmap_def sorted_list_of_fset_eq)

lemma fmap_list_one [simp]: "sorted_list_of_fmap (fmupd k v fmempty) = [(k, v)]"
  using fmap_list_snoc [of fmempty k v] by (simp add: sorted_list_of_fmap_def sorted_list_of_fset_eq)

lemma fmap_list_snoc_dom:
  "\<forall>j \<in> fset (fmdom m). j < k \<Longrightarrow> sorted_list_of_fmap (fmupd k v m) = sorted_list_of_fmap m @ [(k, v)]"
  by (rule fmap_list_snoc) (auto simp: fmlookup_dom_iff)

lemma fmap_first_match:
  assumes "map fst (filter (P \<circ> snd) (sorted_list_of_fmap m)) = k # ks"
  obtains pre v post where "sorted_list_of_fmap m = pre @ (k, v) # post"
    and "\<forall>x \<in> set pre. \<not> P (snd x)" and "P v" and "ks = map fst (filter (P \<circ> snd) post)"
    and "fmlookup m k = Some v" and "sorted_list_of_fmap (fmdrop k m) = pre @ post"
    and "k \<notin> fst ` set pre" and "k \<notin> fst ` set post"
proof -
  from assms obtain x xs where x: "filter (P \<circ> snd) (sorted_list_of_fmap m) = x # xs" "fst x = k" "map fst xs = ks"
    by auto
  then obtain pre post where split: "sorted_list_of_fmap m = pre @ x # post" "\<forall>y \<in> set pre. \<not> P (snd y)"
    "P (snd x)" "xs = filter (P \<circ> snd) post"
    by (auto simp: filter_eq_Cons_iff)
  have "distinct (map fst (pre @ x # post))" using distinct_fmap_keys [of m] split(1) by simp
  then have fresh: "k \<notin> fst ` set pre" "k \<notin> fst ` set post" using x(2) by auto
  then have "filter (\<lambda>y. fst y \<noteq> k) pre = pre" "filter (\<lambda>y. fst y \<noteq> k) post = post"
    by (auto simp: filter_id_conv)
  then have "sorted_list_of_fmap (fmdrop k m) = pre @ post"
    using x(2) by (simp add: fmap_list_drop split(1))
  moreover have "fmlookup m k = Some (snd x)"
    using x(2) split(1) by (simp flip: fmap_entry_iff) (metis in_set_conv_decomp prod.collapse)
  ultimately show ?thesis
    using that [of pre "snd x" post] x(2,3) split fresh by (metis prod.collapse)
qed

section \<open>Consistency\<close>

definition ranged :: "'p Entry \<Rightarrow> bool" where
  "ranged e = (en_range e \<noteq> None)"

definition sent_to :: "string \<Rightarrow> 'p Entry \<Rightarrow> bool" where
  "sent_to t e = (en_terminal_id e = t)"

abbreviation queue_frames :: "'p DeliveryQueue \<Rightarrow> (nat \<times> 'p Entry) list" where
  "queue_frames q \<equiv> sorted_list_of_fmap (dq_entries q)"

definition ids_where :: "('p Entry \<Rightarrow> bool) \<Rightarrow> (nat \<times> 'p Entry) list \<Rightarrow> nat list" where
  "ids_where P fs = map fst (filter (P \<circ> snd) fs)"

definition total_bytes :: "(nat \<times> 'p Entry) list \<Rightarrow> nat" where
  "total_bytes fs = sum_list (map (en_bytes \<circ> snd) fs)"

definition total_gaps :: "(string, Lane) fmap \<Rightarrow> nat" where
  "total_gaps m = (\<Sum>t \<in> fset (fmdom m). length (la_gaps (the (fmlookup m t))))"

definition lanes_ok :: "(nat \<times> 'p Entry) list \<Rightarrow> (string, Lane) fmap \<Rightarrow> bool" where
  "lanes_ok fs lanes =
     ((\<forall>t l. fmlookup lanes t = Some l \<longrightarrow> la_ids l = ids_where (sent_to t) fs \<and> lane_active l)
      \<and> (\<forall>x \<in> set fs. fmlookup lanes (en_terminal_id (snd x)) \<noteq> None))"

definition counters_ok :: "'p DeliveryQueue \<Rightarrow> bool" where
  "counters_ok q =
     (dq_bytes q = total_bytes (queue_frames q) \<and> dq_gap_count q = total_gaps (dq_lanes q)
      \<and> length (queue_frames q) + dq_gap_count q \<le> dq_metadata_limit q
      \<and> dq_metadata_limit q \<le> usize_max
      \<and> (\<forall>x \<in> set (queue_frames q). fst x < dq_next_id q)
      \<and> length (dq_class_served q) = 3 \<and> length (dq_lane_clock q) = 3)"

definition queue_wf :: "'p DeliveryQueue \<Rightarrow> bool" where
  "queue_wf q =
     (dq_evictable q = ids_where ranged (queue_frames q)
      \<and> lanes_ok (queue_frames q) (dq_lanes q) \<and> counters_ok q)"

lemma total_bytes_simps [simp]:
  "total_bytes [] = 0" "total_bytes (x # fs) = en_bytes (snd x) + total_bytes fs"
  "total_bytes (fs @ gs) = total_bytes fs + total_bytes gs"
  by (simp_all add: total_bytes_def)

lemma ids_where_simps [simp]:
  "ids_where P [] = []"
  "ids_where P (x # fs) = (if P (snd x) then fst x # ids_where P fs else ids_where P fs)"
  "ids_where P (fs @ gs) = ids_where P fs @ ids_where P gs"
  by (simp_all add: ids_where_def)

lemma ids_where_none: "\<forall>x \<in> set fs. \<not> P (snd x) \<Longrightarrow> ids_where P fs = []"
  by (induction fs) auto

lemma ids_where_removeAll [simp]: "k \<notin> fst ` set fs \<Longrightarrow> removeAll k (ids_where P fs) = ids_where P fs"
  by (induction fs) auto

lemma total_gaps_drop:
  "fmlookup m t = Some l \<Longrightarrow> total_gaps m = length (la_gaps l) + total_gaps (fmdrop t m)"
  by (auto simp: total_gaps_def sum.remove [of _ t] fmdomI intro!: sum.cong)

lemma total_gaps_upd:
  "total_gaps (fmupd t l m) = length (la_gaps l) + total_gaps (fmdrop t m)"
  using total_gaps_drop [of "fmupd t l m" t l] by (simp add: fmdrop_fmupd_same)

lemma total_gaps_drop_none: "fmlookup m t = None \<Longrightarrow> fmdrop t m = m"
  by (simp add: fmdrop_idle fmdom_notI)

section \<open>The mailbox\<close>

record 'p mailbox =
  mb_pending :: "'p Entry list"
  mb_gaps :: "string \<Rightarrow> Range list"

fun drop_first :: "('a \<Rightarrow> bool) \<Rightarrow> 'a list \<Rightarrow> 'a list" where
  "drop_first P [] = []"
| "drop_first P (x # xs) = (if P x then xs else x # drop_first P xs)"

definition mail_bytes :: "'p mailbox \<Rightarrow> nat" where
  "mail_bytes m = sum_list (map en_bytes (mb_pending m))"

definition mail_evict :: "'p mailbox \<Rightarrow> 'p mailbox" where
  "mail_evict m =
     (case List.find ranged (mb_pending m) of
        None \<Rightarrow> m
      | Some e \<Rightarrow>
          \<lparr>mb_pending = drop_first ranged (mb_pending m),
           mb_gaps = (mb_gaps m)
             (en_terminal_id e := fst (add_gap (the (en_range e)) (mb_gaps m (en_terminal_id e))))\<rparr>)"

definition mail_over :: "nat \<Rightarrow> nat \<Rightarrow> 'p mailbox \<Rightarrow> bool" where
  "mail_over limit reserved m = (limit < saturating usize_max (mail_bytes m + reserved))"

lemma drop_first_length: "List.find P xs = Some x \<Longrightarrow> length (drop_first P xs) < length xs"
  by (induction xs) (auto split: if_splits)

function mail_trim :: "nat \<Rightarrow> nat \<Rightarrow> 'p mailbox \<Rightarrow> 'p mailbox" where
  "mail_trim limit reserved m =
     (if mail_over limit reserved m \<and> List.find ranged (mb_pending m) \<noteq> None
      then mail_trim limit reserved (mail_evict m) else m)"
  by pat_completeness auto
termination
  by (relation "measure (\<lambda>(limit, reserved, m). length (mb_pending m))")
     (auto simp: mail_evict_def drop_first_length split: option.splits)

declare mail_trim.simps [simp del]

definition mail_push :: "nat \<Rightarrow> nat \<Rightarrow> 'p Entry \<Rightarrow> 'p mailbox \<Rightarrow> 'p mailbox" where
  "mail_push limit reserved e m =
     mail_trim limit reserved (m\<lparr>mb_pending := mb_pending m @ [e]\<rparr>)"

definition mail_pop :: "string \<Rightarrow> 'p mailbox \<Rightarrow> 'p Delivery option \<times> 'p mailbox" where
  "mail_pop t m =
     (case mb_gaps m t of
        r # rs \<Rightarrow> (Some (Gap t r), m\<lparr>mb_gaps := (mb_gaps m)(t := rs)\<rparr>)
      | [] \<Rightarrow>
          (case List.find (sent_to t) (mb_pending m) of
             None \<Rightarrow> (None, m)
           | Some e \<Rightarrow> (Some (Frame (en_payload e) (en_bytes e)),
                        m\<lparr>mb_pending := drop_first (sent_to t) (mb_pending m)\<rparr>)))"

definition mail_discard :: "string \<Rightarrow> 'p mailbox \<Rightarrow> 'p mailbox" where
  "mail_discard t m =
     \<lparr>mb_pending = filter (\<lambda>e. \<not> sent_to t e) (mb_pending m), mb_gaps = (mb_gaps m)(t := [])\<rparr>"

definition gaps_of :: "(string, Lane) fmap \<Rightarrow> string \<Rightarrow> Range list" where
  "gaps_of lanes t = (case fmlookup lanes t of None \<Rightarrow> [] | Some l \<Rightarrow> la_gaps l)"

definition queue_abs :: "'p DeliveryQueue \<Rightarrow> 'p mailbox" where
  "queue_abs q = \<lparr>mb_pending = map snd (queue_frames q), mb_gaps = gaps_of (dq_lanes q)\<rparr>"

lemma gaps_of_simps [simp]:
  "gaps_of (fmupd t l m) = (gaps_of m)(t := la_gaps l)" "gaps_of (fmdrop t m) = (gaps_of m)(t := [])"
  by (auto simp: gaps_of_def)

lemma gaps_of_some: "fmlookup m t = Some l \<Longrightarrow> gaps_of m t = la_gaps l"
  by (simp add: gaps_of_def)

lemma mail_bytes_abs: "mail_bytes (queue_abs q) = total_bytes (queue_frames q)"
  by (simp add: mail_bytes_def queue_abs_def total_bytes_def comp_def)

lemma find_split: "\<forall>x \<in> set pre. \<not> P x \<Longrightarrow> P x \<Longrightarrow> List.find P (pre @ x # post) = Some x"
  by (induction pre) auto

lemma drop_first_split: "\<forall>x \<in> set pre. \<not> P x \<Longrightarrow> P x \<Longrightarrow> drop_first P (pre @ x # post) = pre @ post"
  by (induction pre) auto

lemma find_none_ids: "ids_where P fs = [] \<longleftrightarrow> List.find P (map snd fs) = None"
  by (induction fs) auto

section \<open>Eviction refines the mailbox\<close>

lemma add_gap_length:
  "length (fst (add_gap r gs)) = length gs + snd (add_gap r gs)" "snd (add_gap r gs) \<le> 1"
  "fst (add_gap r gs) \<noteq> []"
  by (auto simp: add_gap_def)

text \<open>Removing one frame from the lane that lists it.\<close>

lemma lanes_ok_remove:
  assumes "lanes_ok (pre @ (k, e) # post) lanes"
    and "fmlookup lanes (en_terminal_id e) = Some lane"
    and "k \<notin> fst ` set pre" and "k \<notin> fst ` set post"
    and "la_ids lane' = ids_where (sent_to (en_terminal_id e)) (pre @ post)" and "lane_active lane'"
  shows "lanes_ok (pre @ post) (fmupd (en_terminal_id e) lane' lanes)"
  using assms by (auto simp: lanes_ok_def sent_to_def)

lemma evict_one_refines:
  assumes wf: "queue_wf q" and ev: "dq_evictable q = fid # rest"
  shows "\<exists>q'. evict_one fid (q\<lparr>dq_evictable := rest\<rparr>) = Some q' \<and> queue_wf q'
    \<and> queue_abs q' = mail_evict (queue_abs q)
    \<and> dq_byte_limit q' = dq_byte_limit q \<and> dq_reserved q' = dq_reserved q"
proof -
  from wf ev have "map fst (filter (ranged \<circ> snd) (queue_frames q)) = fid # rest"
    by (simp add: queue_wf_def ids_where_def)
  then obtain pre e post where split: "queue_frames q = pre @ (fid, e) # post"
    "\<forall>x \<in> set pre. \<not> ranged (snd x)" "ranged e" "rest = ids_where ranged post"
    "fmlookup (dq_entries q) fid = Some e" "sorted_list_of_fmap (fmdrop fid (dq_entries q)) = pre @ post"
    and fresh: "fid \<notin> fst ` set pre" "fid \<notin> fst ` set post"
    by (rule fmap_first_match) (auto simp: ids_where_def)
  have ok: "lanes_ok (pre @ (fid, e) # post) (dq_lanes q)" using wf split(1) by (simp add: queue_wf_def)
  then obtain lane where lane: "fmlookup (dq_lanes q) (en_terminal_id e) = Some lane"
    by (auto simp: lanes_ok_def)
  with ok have fids: "la_ids lane = ids_where (sent_to (en_terminal_id e)) (pre @ (fid, e) # post)"
    by (simp add: lanes_ok_def)
  obtain r where r: "en_range e = Some r" using split(3) by (auto simp: ranged_def)
  let ?gaps = "add_gap r (la_gaps lane)"
  let ?lane = "lane\<lparr>la_ids := removeAll fid (la_ids lane), la_gaps := fst ?gaps\<rparr>"
  let ?q = "q\<lparr>dq_evictable := rest, dq_entries := fmdrop fid (dq_entries q),
      dq_bytes := dq_bytes q - en_bytes e,
      dq_lanes := fmupd (en_terminal_id e) ?lane (dq_lanes q),
      dq_evictions := dq_evictions q @ [\<lparr>ev_terminal_id = en_terminal_id e, ev_range = r\<rparr>],
      dq_gap_count := dq_gap_count q + snd ?gaps\<rparr>"
  have cnt: "counters_ok q" using wf by (simp add: queue_wf_def)
  have step: "evict_one fid (q\<lparr>dq_evictable := rest\<rparr>) = Some ?q"
    using split(1,5) lane r cnt by (simp add: evict_one_def checked_sub_def counters_ok_def Let_def)
  have "lanes_ok (pre @ post) (fmupd (en_terminal_id e) ?lane (dq_lanes q))"
    using fids fresh ok
    by (intro lanes_ok_remove [OF ok lane fresh]) (auto simp: lane_active_def add_gap_length sent_to_def)
  moreover have "counters_ok ?q"
    using cnt split(1,6) total_gaps_drop [OF lane] total_gaps_upd [of "en_terminal_id e" ?lane]
      add_gap_length [of r "la_gaps lane"]
    by (auto simp: counters_ok_def)
  ultimately have "queue_wf ?q"
    using split(2,4,6) ids_where_none [OF split(2)] by (simp add: queue_wf_def)
  moreover have "queue_abs ?q = mail_evict (queue_abs q)"
  proof -
    have "List.find ranged (map snd pre @ e # map snd post) = Some e"
      "drop_first ranged (map snd pre @ e # map snd post) = map snd pre @ map snd post"
      using split(2,3) find_split [of "map snd pre"] drop_first_split [of "map snd pre"] by auto
    then show ?thesis
      using split(1,6) gaps_of_some [OF lane] r by (auto simp: queue_abs_def mail_evict_def)
  qed
  ultimately show ?thesis using step by auto
qed

lemma over_iff:
  "queue_wf q \<Longrightarrow> (dq_byte_limit q < outstanding_bytes q) = mail_over (dq_byte_limit q) (dq_reserved q) (queue_abs q)"
  by (simp add: queue_wf_def counters_ok_def mail_over_def mail_bytes_abs outstanding_bytes_def)

lemma evict_overflow_refines:
  assumes "queue_wf q"
  shows "\<exists>res q'. evict_overflow q = Some (res, q') \<and> queue_wf q'
    \<and> queue_abs q' = mail_trim (dq_byte_limit q) (dq_reserved q) (queue_abs q)
    \<and> (res = Inr () \<or> res = Inl UnrecoverableOverflow)
    \<and> (res = Inr ()) = (\<not> mail_over (dq_byte_limit q) (dq_reserved q) (queue_abs q'))
    \<and> dq_byte_limit q' = dq_byte_limit q \<and> dq_reserved q' = dq_reserved q"
  using assms
proof (induction q rule: evict_overflow.induct)
  case (1 q)
  let ?m = "queue_abs q"
  have none: "dq_evictable q = [] \<longleftrightarrow> List.find ranged (mb_pending ?m) = None"
    using "1.prems" find_none_ids by (simp add: queue_wf_def queue_abs_def)
  show ?case
  proof (cases "dq_byte_limit q < outstanding_bytes q \<and> dq_evictable q \<noteq> []")
    case True
    then obtain fid rest where ev: "dq_evictable q = fid # rest" by (cases "dq_evictable q") auto
    obtain q' where q': "evict_one fid (q\<lparr>dq_evictable := rest\<rparr>) = Some q'" "queue_wf q'"
      "queue_abs q' = mail_evict ?m" "dq_byte_limit q' = dq_byte_limit q" "dq_reserved q' = dq_reserved q"
      using evict_one_refines [OF "1.prems" ev] by blast
    have "mail_trim (dq_byte_limit q) (dq_reserved q) ?m
        = mail_trim (dq_byte_limit q) (dq_reserved q) (mail_evict ?m)"
      using True none over_iff [OF "1.prems"] by (subst mail_trim.simps) simp
    with "1.IH" [of fid rest q'] True ev q' show ?thesis
      by (subst evict_overflow.simps) simp
  next
    case False
    have "mail_trim (dq_byte_limit q) (dq_reserved q) ?m = ?m"
      using False none over_iff [OF "1.prems"] by (subst mail_trim.simps) auto
    with False "1.prems" over_iff [OF "1.prems"] show ?thesis
      by (subst evict_overflow.simps) (auto split: list.split)
  qed
qed

section \<open>Admission\<close>

definition admits :: "'p DeliveryQueue \<Rightarrow> nat \<Rightarrow> bool" where
  "admits q bytes =
     (length (queue_frames q) + dq_gap_count q < dq_metadata_limit q \<and> dq_next_id q < usize_max
      \<and> dq_bytes q + bytes \<le> usize_max)"

lemma insort_insert_snoc: "sorted xs \<Longrightarrow> \<forall>x \<in> set xs. x < k \<Longrightarrow> insort_insert k xs = xs @ [k]"
  for k :: nat
  by (auto simp: insort_insert_key_def sorted_insort_is_snoc less_imp_le)

lemma sorted_ids_where: "sorted (ids_where P (sorted_list_of_fmap m))"
  by (simp add: ids_where_def sorted_filter sorted_list_of_fmap_keys sorted_list_of_fset_eq)

lemma ids_where_bound: "\<forall>x \<in> set fs. fst x < n \<Longrightarrow> \<forall>k \<in> set (ids_where P fs). k < n"
  by (auto simp: ids_where_def)

lemma ids_where_insert:
  "\<forall>x \<in> set (sorted_list_of_fmap m). fst x < k \<Longrightarrow>
   insort_insert k (ids_where P (sorted_list_of_fmap m)) = ids_where P (sorted_list_of_fmap m) @ [k]"
  by (rule insort_insert_snoc [OF sorted_ids_where ids_where_bound])

lemma lanes_ok_add:
  assumes "lanes_ok fs lanes"
    and "la_ids lane = ids_where (sent_to (en_terminal_id e)) (fs @ [(k, e)])"
  shows "lanes_ok (fs @ [(k, e)]) (fmupd (en_terminal_id e) lane lanes)"
  using assms by (auto simp: lanes_ok_def sent_to_def lane_active_def)

lemma lanes_ok_absent: "lanes_ok fs lanes \<Longrightarrow> fmlookup lanes t = None \<Longrightarrow> ids_where (sent_to t) fs = []"
  by (rule ids_where_none) (auto simp: lanes_ok_def sent_to_def)

lemma push_refused:
  assumes "queue_wf q" and "\<not> admits q bytes"
  shows "\<exists>err. push t pr p bytes rng stamp q = Some (Inl err, q)"
  using assms
  by (auto simp: push_def admits_def checked_add_def saturating_def Let_def length_fmap_list
      queue_wf_def counters_ok_def split: if_splits)

lemma push_refines:
  fixes q :: "'p DeliveryQueue" and t :: string and p :: 'p and rng :: "Range option" and stamp :: nat
  assumes wf: "queue_wf q" and ok: "admits q bytes"
  defines "e \<equiv> \<lparr>en_terminal_id = t, en_payload = p, en_bytes = bytes, en_range = rng, en_stamp = stamp\<rparr>"
  shows "\<exists>res q'. push t pr p bytes rng stamp q = Some (res, q') \<and> queue_wf q'
    \<and> queue_abs q' = mail_push (dq_byte_limit q) (dq_reserved q) e (queue_abs q)
    \<and> (res = Inr () \<or> res = Inl UnrecoverableOverflow)
    \<and> (res = Inr ()) = (\<not> mail_over (dq_byte_limit q) (dq_reserved q) (queue_abs q'))
    \<and> dq_byte_limit q' = dq_byte_limit q \<and> dq_reserved q' = dq_reserved q"
proof -
  let ?fs = "queue_frames q" and ?id = "dq_next_id q" and ?i = "priority_index pr"
  let ?lane = "case fmlookup (dq_lanes q) t of Some lane \<Rightarrow> lane
    | None \<Rightarrow> \<lparr>la_priority = pr, la_ids = [], la_gaps = [], la_served = dq_lane_clock q ! ?i\<rparr>"
  let ?lane' = "?lane\<lparr>la_ids := insort_insert ?id (la_ids ?lane)\<rparr>"
  let ?q = "q\<lparr>dq_next_id := ?id + 1,
      dq_class_served := (dq_class_served q)[?i := max (dq_class_served q ! ?i) (dq_class_clock q)],
      dq_lanes := fmupd t ?lane' (dq_lanes q),
      dq_evictable := (if rng \<noteq> None then insort_insert ?id (dq_evictable q) else dq_evictable q),
      dq_bytes := dq_bytes q + bytes, dq_entries := fmupd ?id e (dq_entries q)\<rparr>"
  have cnt: "counters_ok q" and lanes: "lanes_ok ?fs (dq_lanes q)" and ev: "dq_evictable q = ids_where ranged ?fs"
    using wf by (simp_all add: queue_wf_def)
  have below: "\<forall>x \<in> set ?fs. fst x < ?id" using cnt by (simp add: counters_ok_def)
  then have snoc: "sorted_list_of_fmap (fmupd ?id e (dq_entries q)) = ?fs @ [(?id, e)]"
    by (intro fmap_list_snoc) (auto simp flip: fmap_entry_iff)
  have push: "push t pr p bytes rng stamp q = evict_overflow ?q"
    using ok by (simp add: push_def admits_def checked_add_def saturating_def length_fmap_list e_def Let_def)
  have "la_ids ?lane = ids_where (sent_to t) ?fs"
    using lanes lanes_ok_absent [OF lanes] by (auto simp: lanes_ok_def split: option.split)
  then have "la_ids ?lane' = ids_where (sent_to (en_terminal_id e)) (?fs @ [(?id, e)])"
    using ids_where_insert [OF below] by (simp add: e_def sent_to_def)
  then have "lanes_ok (?fs @ [(?id, e)]) (fmupd t ?lane' (dq_lanes q))"
    using lanes_ok_add [OF lanes, of ?lane' e ?id] by (simp add: e_def)
  moreover have "dq_evictable ?q = ids_where ranged (?fs @ [(?id, e)])"
    using ids_where_insert [OF below, of ranged] ev by (simp add: ranged_def e_def)
  moreover have gaps: "total_gaps (fmupd t ?lane' (dq_lanes q)) = total_gaps (dq_lanes q)"
    by (auto simp: total_gaps_upd total_gaps_drop total_gaps_drop_none split: option.split)
  then have "counters_ok ?q"
    using cnt ok snoc by (auto simp: counters_ok_def admits_def e_def less_Suc_eq)
  ultimately have wf': "queue_wf ?q" using snoc by (simp add: queue_wf_def)
  have "queue_abs ?q = (queue_abs q)\<lparr>mb_pending := mb_pending (queue_abs q) @ [e]\<rparr>"
    using snoc by (auto simp: queue_abs_def gaps_of_def intro!: ext split: option.split)
  then show ?thesis
    using evict_overflow_refines [OF wf'] push by (simp add: mail_push_def)
qed

section \<open>Delivery\<close>

lemma queue_wf_refresh: "queue_wf q \<Longrightarrow> queue_wf (refresh_clocks q)"
  by (simp add: queue_wf_def counters_ok_def refresh_clocks_def Let_def case_prod_beta)

lemma queue_abs_refresh [simp]: "queue_abs (refresh_clocks q) = queue_abs q"
  by (simp add: queue_abs_def refresh_clocks_def Let_def case_prod_beta)

lemma refresh_keeps [simp]:
  "dq_byte_limit (refresh_clocks q) = dq_byte_limit q" "dq_reserved (refresh_clocks q) = dq_reserved q"
  "dq_lanes (refresh_clocks q) = dq_lanes q" "dq_entries (refresh_clocks q) = dq_entries q"
  "dq_gap_count (refresh_clocks q) = dq_gap_count q"
  by (simp_all add: refresh_clocks_def Let_def case_prod_beta)

lemma select_lane_Some:
  assumes "select_lane q = Some t"
  shows "\<exists>lane. fmlookup (dq_lanes q) t = Some lane \<and> lane_active lane"
proof -
  let ?act = "filter (\<lambda>(t, lane). lane_active lane) (sorted_list_of_fmap (dq_lanes q))"
  have ne: "?act \<noteq> []" and t: "t = fst (arg_min_list (lane_key q) ?act)"
    using assms by (auto simp: select_lane_def split: list.splits)
  have "arg_min_list (lane_key q) ?act \<in> set ?act" by (rule arg_min_list_in [OF ne])
  then show ?thesis unfolding t by auto
qed

lemma select_lane_None: "queue_wf q \<Longrightarrow> select_lane q = None \<longleftrightarrow> sorted_list_of_fmap (dq_lanes q) = []"
proof -
  assume "queue_wf q"
  then have "filter (\<lambda>(t, lane). lane_active lane) (sorted_list_of_fmap (dq_lanes q)) = sorted_list_of_fmap (dq_lanes q)"
    by (auto simp: filter_id_conv queue_wf_def lanes_ok_def)
  then show ?thesis by (simp add: select_lane_def split: list.split)
qed

text \<open>A lane written back after it was served, or removed when nothing is left in it.\<close>

definition put_lane :: "string \<Rightarrow> Lane \<Rightarrow> (string, Lane) fmap \<Rightarrow> (string, Lane) fmap" where
  "put_lane t lane lanes = (if lane_active lane then fmupd t lane lanes else fmdrop t lanes)"

lemma put_lane_gaps:
  "total_gaps (put_lane t lane lanes) = length (la_gaps lane) + total_gaps (fmdrop t lanes)"
  "gaps_of (put_lane t lane lanes) = (gaps_of lanes)(t := la_gaps lane)"
  by (auto simp: put_lane_def total_gaps_upd lane_active_def)

lemma lanes_ok_put:
  assumes ids: "\<And>t' l. t' \<noteq> t \<Longrightarrow> fmlookup lanes t' = Some l \<Longrightarrow> la_ids l = ids_where (sent_to t') fs"
    and act: "\<And>t' l. t' \<noteq> t \<Longrightarrow> fmlookup lanes t' = Some l \<Longrightarrow> lane_active l"
    and frames: "\<And>x. x \<in> set fs \<Longrightarrow> \<not> sent_to t (snd x) \<Longrightarrow> fmlookup lanes (en_terminal_id (snd x)) \<noteq> None"
    and own: "la_ids lane = ids_where (sent_to t) fs"
  shows "lanes_ok fs (put_lane t lane lanes)"
proof (cases "lane_active lane")
  case True
  then show ?thesis
    using frames own by (auto simp: lanes_ok_def put_lane_def sent_to_def dest: ids [OF not_sym] act [OF not_sym])
next
  case False
  then have "\<forall>x \<in> set fs. \<not> sent_to t (snd x)"
    using own by (auto simp: lane_active_def ids_where_def filter_empty_conv)
  with False show ?thesis
    using frames by (auto simp: lanes_ok_def put_lane_def sent_to_def dest: ids act)
qed

lemma charge_lanes:
  "\<exists>lane' cs. charge cost t lane q = q\<lparr>dq_class_served := cs, dq_lanes := put_lane t lane' (dq_lanes q)\<rparr>
     \<and> la_ids lane' = la_ids lane \<and> la_gaps lane' = la_gaps lane \<and> length cs = length (dq_class_served q)"
proof -
  let ?c = "priority_index (la_priority lane)"
  show ?thesis
    by (rule exI [of _ "lane\<lparr>la_served := saturating u128_max (max (la_served lane) (dq_lane_clock q ! ?c) + cost)\<rparr>"],
        rule exI [of _ "(dq_class_served q)[?c := saturating u128_max (max (dq_class_served q ! ?c) (dq_class_clock q)
          + saturating u128_max (cost * WEIGHT ! ?c))]"])
       (simp add: charge_def put_lane_def Let_def)
qed

text \<open>What the front of a lane gives, and what is left.\<close>

lemma pop_refines:
  assumes wf: "queue_wf q" and sel: "select_lane q = Some t"
  shows "\<exists>d q'. pop q = Some (Some d, q') \<and> queue_wf q' \<and> mail_pop t (queue_abs q) = (Some d, queue_abs q')
    \<and> dq_byte_limit q' = dq_byte_limit q \<and> dq_reserved q' = dq_reserved q
    \<and> length (queue_frames q) + dq_gap_count q = Suc (length (queue_frames q') + dq_gap_count q')"
proof -
  obtain lane where lane: "fmlookup (dq_lanes q) t = Some lane" and act: "lane_active lane"
    using select_lane_Some [OF sel] by blast
  have cnt: "counters_ok q" and lanes: "lanes_ok (queue_frames q) (dq_lanes q)"
    and ev: "dq_evictable q = ids_where ranged (queue_frames q)"
    using wf by (simp_all add: queue_wf_def)
  have fids: "la_ids lane = ids_where (sent_to t) (queue_frames q)" using lanes lane by (simp add: lanes_ok_def)
  show ?thesis
  proof (cases "la_gaps lane")
    case (Cons r rs)
    let ?q = "q\<lparr>dq_gap_count := dq_gap_count q - 1\<rparr>"
    have pos: "1 \<le> dq_gap_count q"
      using cnt total_gaps_drop [OF lane] Cons by (simp add: counters_ok_def)
    obtain lane' cs where ch: "charge 256 t (lane\<lparr>la_gaps := rs\<rparr>) ?q
        = ?q\<lparr>dq_class_served := cs, dq_lanes := put_lane t lane' (dq_lanes q)\<rparr>"
      "la_ids lane' = la_ids lane" "la_gaps lane' = rs" "length cs = length (dq_class_served q)"
      using charge_lanes [of 256 t "lane\<lparr>la_gaps := rs\<rparr>" ?q] by auto
    let ?q' = "?q\<lparr>dq_class_served := cs, dq_lanes := put_lane t lane' (dq_lanes q)\<rparr>"
    have "pop q = Some (Some (Gap t r), refresh_clocks ?q')"
      using sel lane Cons pos ch(1) by (simp add: pop_def take_front_def checked_sub_def)
    moreover have "lanes_ok (queue_frames q) (put_lane t lane' (dq_lanes q))"
      using lanes fids ch(2) by (intro lanes_ok_put) (auto simp: lanes_ok_def)
    then have "queue_wf ?q'"
      using cnt ev ch(3,4) total_gaps_drop [OF lane] Cons pos
      by (simp add: queue_wf_def counters_ok_def put_lane_gaps)
    moreover have "mail_pop t (queue_abs q) = (Some (Gap t r), queue_abs ?q')"
      using gaps_of_some [OF lane] Cons ch(3) by (simp add: mail_pop_def queue_abs_def put_lane_gaps)
    ultimately show ?thesis using pos by (simp add: queue_wf_refresh)
  next
    case Nil
    then obtain fid rest where fid: "la_ids lane = fid # rest"
      using act by (cases "la_ids lane") (auto simp: lane_active_def)
    then have "map fst (filter (sent_to t \<circ> snd) (queue_frames q)) = fid # rest"
      using fids by (simp add: ids_where_def)
    then obtain pre e post where split: "queue_frames q = pre @ (fid, e) # post"
      "\<forall>x \<in> set pre. \<not> sent_to t (snd x)" "sent_to t e" "rest = ids_where (sent_to t) post"
      "fmlookup (dq_entries q) fid = Some e" "sorted_list_of_fmap (fmdrop fid (dq_entries q)) = pre @ post"
      and fresh: "fid \<notin> fst ` set pre" "fid \<notin> fst ` set post"
      by (rule fmap_first_match) (auto simp: ids_where_def)
    let ?q = "q\<lparr>dq_entries := fmdrop fid (dq_entries q), dq_evictable := removeAll fid (dq_evictable q),
        dq_bytes := dq_bytes q - en_bytes e\<rparr>"
    obtain lane' cs where ch: "charge (max (en_bytes e) 1) t (lane\<lparr>la_ids := rest\<rparr>) ?q
        = ?q\<lparr>dq_class_served := cs, dq_lanes := put_lane t lane' (dq_lanes q)\<rparr>"
      "la_ids lane' = rest" "la_gaps lane' = []" "length cs = length (dq_class_served q)"
      using charge_lanes [of "max (en_bytes e) 1" t "lane\<lparr>la_ids := rest\<rparr>" ?q] Nil by auto
    let ?q' = "?q\<lparr>dq_class_served := cs, dq_lanes := put_lane t lane' (dq_lanes q)\<rparr>"
    have own': "la_ids lane' = ids_where (sent_to t) (pre @ post)"
      using ch(2) split(4) ids_where_none [OF split(2)] by simp
    have "en_bytes e \<le> dq_bytes q" using cnt split(1) by (simp add: counters_ok_def)
    then have "pop q = Some (Some (Frame (en_payload e) (en_bytes e)), refresh_clocks ?q')"
      using sel lane Nil fid split(5) ch(1) by (simp add: pop_def take_front_def checked_sub_def)
    moreover have "lanes_ok (pre @ post) (put_lane t lane' (dq_lanes q))"
      using lanes split(1,3) own'
      by (intro lanes_ok_put) (auto simp: lanes_ok_def sent_to_def)
    then have "queue_wf ?q'"
      using cnt ev ch(3,4) total_gaps_drop [OF lane] Nil split(1,6) fresh
      by (auto simp: queue_wf_def counters_ok_def put_lane_gaps)
    moreover have "mail_pop t (queue_abs q) = (Some (Frame (en_payload e) (en_bytes e)), queue_abs ?q')"
      using gaps_of_some [OF lane] Nil ch(3) split(1,2,3,6)
        find_split [of "map snd pre" "sent_to t" e "map snd post"]
        drop_first_split [of "map snd pre" "sent_to t" e "map snd post"]
      by (auto simp: mail_pop_def queue_abs_def put_lane_gaps)
    ultimately show ?thesis using split(1,6) by (simp add: queue_wf_refresh)
  qed
qed

lemma pop_empty:
  assumes "queue_wf q" and "select_lane q = None"
  shows "pop q = Some (None, q) \<and> queue_frames q = [] \<and> dq_gap_count q = 0 \<and> mb_gaps (queue_abs q) t = []"
proof -
  have none: "fmlookup (dq_lanes q) t = None" for t
    using assms select_lane_None [of q] fmap_entry_iff [of t _ "dq_lanes q"]
    by (cases "fmlookup (dq_lanes q) t") auto
  have no_frame: "x \<notin> set (queue_frames q)" for x
    using assms(1) none by (cases x) (auto simp: queue_wf_def lanes_ok_def)
  then have "queue_frames q = []"
    using no_frame [of "hd (queue_frames q)"] hd_in_set [of "queue_frames q"] by blast
  moreover have "fmdom (dq_lanes q) = {||}" using none by (auto simp: fmlookup_dom_iff)
  ultimately show ?thesis
    using assms none by (simp add: pop_def queue_wf_def counters_ok_def total_gaps_def queue_abs_def gaps_of_def)
qed

section \<open>Discarding and re-prioritizing\<close>

lemma filter_not_sent:
  "\<forall>x \<in> set pre. \<not> sent_to t (snd x) \<Longrightarrow> filter (\<lambda>x. \<not> sent_to t (snd x)) pre = pre"
  by (simp add: filter_id_conv)

lemma discard_ids_spec:
  assumes "fids = ids_where (sent_to t) (queue_frames q)"
    and "dq_bytes q = total_bytes (queue_frames q)"
    and "dq_evictable q = ids_where ranged (queue_frames q)"
  shows "\<exists>es. discard_ids fids q =
        Some (q\<lparr>dq_entries := es, dq_bytes := total_bytes (sorted_list_of_fmap es),
                dq_evictable := ids_where ranged (sorted_list_of_fmap es)\<rparr>)
      \<and> sorted_list_of_fmap es = filter (\<lambda>x. \<not> sent_to t (snd x)) (queue_frames q)"
  using assms
proof (induction fids arbitrary: q)
  case Nil
  then have "\<forall>x \<in> set (queue_frames q). \<not> sent_to t (snd x)"
    by (auto simp: ids_where_def filter_empty_conv)
  then show ?case
    using Nil by (intro exI [of _ "dq_entries q"]) (simp add: filter_not_sent)
next
  case (Cons fid rest)
  then have "map fst (filter (sent_to t \<circ> snd) (queue_frames q)) = fid # rest"
    by (simp add: ids_where_def)
  then obtain pre e post where split: "queue_frames q = pre @ (fid, e) # post"
    "\<forall>x \<in> set pre. \<not> sent_to t (snd x)" "sent_to t e" "rest = ids_where (sent_to t) post"
    "fmlookup (dq_entries q) fid = Some e" "sorted_list_of_fmap (fmdrop fid (dq_entries q)) = pre @ post"
    and fresh: "fid \<notin> fst ` set pre" "fid \<notin> fst ` set post"
    by (rule fmap_first_match) (auto simp: ids_where_def)
  let ?q = "q\<lparr>dq_entries := fmdrop fid (dq_entries q), dq_bytes := dq_bytes q - en_bytes e,
      dq_evictable := removeAll fid (dq_evictable q)\<rparr>"
  have "rest = ids_where (sent_to t) (queue_frames ?q)"
    "dq_bytes ?q = total_bytes (queue_frames ?q)" "dq_evictable ?q = ids_where ranged (queue_frames ?q)"
    using Cons.prems split fresh ids_where_none [OF split(2)] by auto
  from Cons.IH [OF this] split(1,3,5,6) Cons.prems(2) show ?case
    by (auto simp: checked_sub_def)
qed

lemma ids_where_filter:
  "t' \<noteq> t \<Longrightarrow> ids_where (sent_to t') (filter (\<lambda>x. \<not> sent_to t (snd x)) fs) = ids_where (sent_to t') fs"
  by (induction fs) (auto simp: sent_to_def)

lemma discard_refines:
  assumes wf: "queue_wf q"
  shows "\<exists>q'. discard_terminal t q = Some q' \<and> queue_wf q' \<and> queue_abs q' = mail_discard t (queue_abs q)
    \<and> dq_byte_limit q' = dq_byte_limit q \<and> dq_reserved q' = dq_reserved q"
proof (cases "fmlookup (dq_lanes q) t")
  case None
  then have "\<forall>x \<in> set (queue_frames q). \<not> sent_to t (snd x)"
    using wf by (auto simp: queue_wf_def lanes_ok_def sent_to_def)
  then have "filter (\<lambda>e. \<not> sent_to t e) (map snd (queue_frames q)) = map snd (queue_frames q)"
    by (auto simp: filter_id_conv)
  moreover have "gaps_of (dq_lanes q) t = []" using None by (simp add: gaps_of_def)
  ultimately show ?thesis
    using wf None fun_upd_idem [of "gaps_of (dq_lanes q)" t "[]"]
    by (auto simp: discard_terminal_def queue_wf_refresh mail_discard_def queue_abs_def)
next
  case (Some lane)
  have cnt: "counters_ok q" and lanes: "lanes_ok (queue_frames q) (dq_lanes q)"
    and ev: "dq_evictable q = ids_where ranged (queue_frames q)"
    using wf by (simp_all add: queue_wf_def)
  let ?rest = "filter (\<lambda>x. \<not> sent_to t (snd x)) (queue_frames q)"
  let ?q = "q\<lparr>dq_lanes := fmdrop t (dq_lanes q), dq_gap_count := dq_gap_count q - length (la_gaps lane)\<rparr>"
  have fids: "la_ids lane = ids_where (sent_to t) (queue_frames ?q)"
    using lanes Some by (simp add: lanes_ok_def)
  obtain es where es: "discard_ids (la_ids lane) ?q =
        Some (?q\<lparr>dq_entries := es, dq_bytes := total_bytes (sorted_list_of_fmap es),
                dq_evictable := ids_where ranged (sorted_list_of_fmap es)\<rparr>)"
      "sorted_list_of_fmap es = ?rest"
    using discard_ids_spec [OF fids] cnt ev by (auto simp: counters_ok_def)
  let ?q' = "?q\<lparr>dq_entries := es, dq_bytes := total_bytes (sorted_list_of_fmap es),
      dq_evictable := ids_where ranged (sorted_list_of_fmap es)\<rparr>"
  have "discard_terminal t q = Some (refresh_clocks ?q')"
    using Some es(1) cnt total_gaps_drop [OF Some]
    by (simp add: discard_terminal_def checked_sub_def counters_ok_def)
  moreover have "\<forall>x \<in> set ?rest. fmlookup (fmdrop t (dq_lanes q)) (en_terminal_id (snd x)) \<noteq> None"
    using lanes by (auto simp: lanes_ok_def sent_to_def simp del: fmap_entry_iff)
  then have "lanes_ok ?rest (fmdrop t (dq_lanes q))"
    using lanes by (simp add: lanes_ok_def ids_where_filter)
  then have "queue_wf ?q'"
    using cnt es(2) total_gaps_drop [OF Some]
    by (auto simp: queue_wf_def counters_ok_def)
       (use length_filter_le [of "\<lambda>x. \<not> sent_to t (snd x)" "queue_frames q"] in linarith)
  moreover have "queue_abs ?q' = mail_discard t (queue_abs q)"
    using es(2) by (simp add: queue_abs_def mail_discard_def filter_map comp_def)
  ultimately show ?thesis by (simp add: queue_wf_refresh)
qed

lemma update_lane_refines:
  assumes "queue_wf q" and "fmlookup (dq_lanes q) t = Some lane"
  shows "\<exists>lane' cs. update_lane pr t lane q =
      q\<lparr>dq_lanes := fmupd t lane' (dq_lanes q), dq_class_served := cs\<rparr>
    \<and> queue_wf (update_lane pr t lane q) \<and> queue_abs (update_lane pr t lane q) = queue_abs q"
proof -
  have "\<exists>lane' cs. update_lane pr t lane q = q\<lparr>dq_lanes := fmupd t lane' (dq_lanes q), dq_class_served := cs\<rparr>
      \<and> la_ids lane' = la_ids lane \<and> la_gaps lane' = la_gaps lane \<and> length cs = length (dq_class_served q)"
    by (cases "la_priority lane = pr") (simp add: update_lane_def Let_def, force)+
  then obtain lane' cs where
    eq: "update_lane pr t lane q = q\<lparr>dq_lanes := fmupd t lane' (dq_lanes q), dq_class_served := cs\<rparr>"
    and same: "la_ids lane' = la_ids lane" "la_gaps lane' = la_gaps lane" "length cs = length (dq_class_served q)"
    by blast
  have "queue_wf (update_lane pr t lane q)"
    using assms same total_gaps_drop [OF assms(2)]
    by (auto simp: eq queue_wf_def counters_ok_def lanes_ok_def total_gaps_upd lane_active_def)
  moreover have "queue_abs (update_lane pr t lane q) = queue_abs q"
    using same gaps_of_some [OF assms(2)] fun_upd_idem [of "gaps_of (dq_lanes q)" t "la_gaps lane'"]
    by (simp add: eq queue_abs_def)
  ultimately show ?thesis using eq by blast
qed

lemma update_lanes_refines:
  assumes "queue_wf q" and "distinct (map fst ls)" and "\<forall>(t, l) \<in> set ls. fmlookup (dq_lanes q) t = Some l"
  shows "queue_wf (update_lanes f ls q) \<and> queue_abs (update_lanes f ls q) = queue_abs q
    \<and> dq_byte_limit (update_lanes f ls q) = dq_byte_limit q \<and> dq_reserved (update_lanes f ls q) = dq_reserved q"
  using assms
proof (induction ls arbitrary: q)
  case (Cons x ls)
  obtain t l where x: "x = (t, l)" by (cases x)
  with Cons.prems(3) have "fmlookup (dq_lanes q) t = Some l" by simp
  from update_lane_refines [OF Cons.prems(1) this, of "f t"] obtain lane' cs where
    eq: "update_lane (f t) t l q = q\<lparr>dq_lanes := fmupd t lane' (dq_lanes q), dq_class_served := cs\<rparr>"
    and wf': "queue_wf (update_lane (f t) t l q)" "queue_abs (update_lane (f t) t l q) = queue_abs q"
    by blast
  have "\<forall>(t', l') \<in> set ls. fmlookup (dq_lanes (update_lane (f t) t l q)) t' = Some l'"
    using Cons.prems(2,3) by (force simp: eq x)
  with Cons.IH [OF wf'(1)] Cons.prems(2) wf'(2) show ?case by (simp add: x eq)
qed simp

lemma update_refines:
  assumes "queue_wf q"
  shows "queue_wf (update_priorities f q) \<and> queue_abs (update_priorities f q) = queue_abs q
    \<and> dq_byte_limit (update_priorities f q) = dq_byte_limit q \<and> dq_reserved (update_priorities f q) = dq_reserved q"
proof -
  have "\<forall>(t, l) \<in> set (sorted_list_of_fmap (dq_lanes q)). fmlookup (dq_lanes q) t = Some l" by auto
  from update_lanes_refines [OF assms distinct_fmap_keys this, of f] show ?thesis
    by (simp add: update_priorities_def queue_wf_refresh)
qed

lemma queue_wf_simple [simp]:
  "queue_wf (set_reserved_bytes n q) = queue_wf q" "queue_abs (set_reserved_bytes n q) = queue_abs q"
  "queue_wf (snd (take_evictions q)) = queue_wf q" "queue_abs (snd (take_evictions q)) = queue_abs q"
  by (simp_all add: set_reserved_bytes_def take_evictions_def queue_wf_def counters_ok_def queue_abs_def)

lemma queue_wf_new: "metadata_limit \<le> usize_max \<Longrightarrow> queue_wf (queue_new byte_limit metadata_limit)"
  by (simp add: queue_new_def queue_wf_def lanes_ok_def counters_ok_def total_gaps_def usize_max_def
      sorted_list_of_fmap_def sorted_list_of_fset_eq)

lemma queue_abs_new: "queue_abs (queue_new b m) = \<lparr>mb_pending = [], mb_gaps = (\<lambda>t. [])\<rparr>"
  by (simp add: queue_new_def queue_abs_def gaps_of_def sorted_list_of_fmap_def sorted_list_of_fset_eq fun_eq_iff)

end
