(* ===== verification/Delivery_Props.thy ===== *)
theory Delivery_Props
  imports Delivery_Spec Machine
begin

text \<open>
  What a connection can rely on: the queue refines the mailbox and never panics, a terminal's frames
  arrive in order and its controls all arrive, output that is not delivered is covered by a gap, and
  an admission keeps the budget.
\<close>

section \<open>Runs of a connection\<close>

datatype 'p queue_op =
    Push string Priority 'p nat "Range option" nat
  | Pop
  | Set_priorities "string \<Rightarrow> Priority"
  | Discard string
  | Set_reserved nat
  | Take_evictions

datatype 'p queue_event = Admitted string 'p "Range option" | Delivered string "'p Delivery"
  | Discarded string

text \<open>One operation of the connection, with what it admits or delivers; \<open>None\<close> is a panic.\<close>

fun queue_step :: "'p queue_op \<Rightarrow> 'p DeliveryQueue \<Rightarrow> ('p queue_event list \<times> 'p DeliveryQueue) option" where
  "queue_step (Push t pr p bytes rng stamp) q =
     map_option (\<lambda>(res, q'). (if admits q bytes then [Admitted t p rng] else [], q'))
       (push t pr p bytes rng stamp q)"
| "queue_step Pop q =
     map_option (\<lambda>(d, q'). (case (select_lane q, d) of (Some t, Some d) \<Rightarrow> [Delivered t d] | _ \<Rightarrow> [], q')) (pop q)"
| "queue_step (Set_priorities f) q = Some ([], update_priorities f q)"
| "queue_step (Discard t) q = map_option (\<lambda>q'. ([Discarded t], q')) (discard_terminal t q)"
| "queue_step (Set_reserved n) q = Some ([], set_reserved_bytes n q)"
| "queue_step Take_evictions q = Some ([], snd (take_evictions q))"

fun queue_run :: "'p queue_op list \<Rightarrow> 'p DeliveryQueue \<Rightarrow> ('p queue_event list \<times> 'p DeliveryQueue) option" where
  "queue_run [] q = Some ([], q)"
| "queue_run (op # ops) q =
     (case queue_step op q of
        None \<Rightarrow> None
      | Some (evs, q') \<Rightarrow> map_option (\<lambda>(evs', q''). (evs @ evs', q'')) (queue_run ops q'))"

definition admitted :: "string \<Rightarrow> 'p queue_event list \<Rightarrow> ('p \<times> Range option) list" where
  "admitted t evs =
     List.map_filter (\<lambda>e. case e of Admitted t' p rng \<Rightarrow> (if t' = t then Some (p, rng) else None) | _ \<Rightarrow> None) evs"

definition frames_sent :: "string \<Rightarrow> 'p queue_event list \<Rightarrow> 'p list" where
  "frames_sent t evs =
     List.map_filter (\<lambda>e. case e of Delivered t' (Frame p n) \<Rightarrow> (if t' = t then Some p else None) | _ \<Rightarrow> None) evs"

definition gaps_sent :: "string \<Rightarrow> 'p queue_event list \<Rightarrow> Range list" where
  "gaps_sent t evs =
     List.map_filter (\<lambda>e. case e of Delivered t' (Gap u r) \<Rightarrow> (if t' = t then Some r else None) | _ \<Rightarrow> None) evs"

lemma map_filter_append: "List.map_filter f (xs @ ys) = List.map_filter f xs @ List.map_filter f ys"
  by (induction xs) (simp_all add: map_filter_simps split: option.split)

lemma event_simps [simp]:
  "admitted t [] = []" "admitted t (evs @ evs') = admitted t evs @ admitted t evs'"
  "admitted t [Admitted t' p rng] = (if t' = t then [(p, rng)] else [])" "admitted t [Delivered t' d] = []"
  "admitted t [Discarded t'] = []" "frames_sent t [Discarded t'] = []" "gaps_sent t [Discarded t'] = []"
  "frames_sent t [] = []" "frames_sent t (evs @ evs') = frames_sent t evs @ frames_sent t evs'"
  "frames_sent t [Admitted t' p rng] = []"
  "frames_sent t [Delivered t' (Frame p n)] = (if t' = t then [p] else [])"
  "frames_sent t [Delivered t' (Gap u r)] = []"
  "gaps_sent t [] = []" "gaps_sent t (evs @ evs') = gaps_sent t evs @ gaps_sent t evs'"
  "gaps_sent t [Admitted t' p rng] = []" "gaps_sent t [Delivered t' (Frame p n)] = []"
  "gaps_sent t [Delivered t' (Gap u r)] = (if t' = t then [r] else [])"
  by (simp_all add: admitted_def frames_sent_def gaps_sent_def map_filter_append map_filter_simps)

text \<open>The terminal's frames that are still in the queue, oldest first.\<close>

definition pending_for :: "string \<Rightarrow> 'p mailbox \<Rightarrow> 'p Entry list" where
  "pending_for t m = filter (sent_to t) (mb_pending m)"

abbreviation queued :: "string \<Rightarrow> 'p DeliveryQueue \<Rightarrow> 'p list" where
  "queued t q \<equiv> map en_payload (pending_for t (queue_abs q))"

text \<open>C12: the delivery queue implements the mailbox exactly, whatever its indices, counters and clocks
  hold, and no operation panics: an admission that is refused changes nothing, one that is granted
  appends its frame and evicts the oldest output until the budget holds, a delivery takes the selected
  terminal's first gap, else its oldest frame, and there is none only when nothing is pending.\<close>

theorem queue_refines_mailbox:
  assumes "queue_wf q"
  shows "(if admits q bytes
     then \<exists>res q'. push t pr p bytes rng stamp q = Some (res, q') \<and> queue_wf q'
       \<and> queue_abs q' = mail_push (dq_byte_limit q) (dq_reserved q)
           \<lparr>en_terminal_id = t, en_payload = p, en_bytes = bytes, en_range = rng, en_stamp = stamp\<rparr> (queue_abs q)
       \<and> res = (if mail_over (dq_byte_limit q) (dq_reserved q) (queue_abs q')
                 then Inl UnrecoverableOverflow else Inr ())
     else \<exists>err. push t pr p bytes rng stamp q = Some (Inl err, q))
   \<and> (\<exists>d q'. pop q = Some (d, q') \<and> queue_wf q'
       \<and> (case select_lane q of
            None \<Rightarrow> d = None \<and> q' = q \<and> mb_pending (queue_abs q) = [] \<and> mb_gaps (queue_abs q) = (\<lambda>t. [])
          | Some u \<Rightarrow> d \<noteq> None \<and> mail_pop u (queue_abs q) = (d, queue_abs q')))
   \<and> (\<exists>q'. discard_terminal t q = Some q' \<and> queue_wf q' \<and> queue_abs q' = mail_discard t (queue_abs q))
   \<and> queue_wf (update_priorities f q) \<and> queue_abs (update_priorities f q) = queue_abs q"
proof (intro conjI)
  show "if admits q bytes
     then \<exists>res q'. push t pr p bytes rng stamp q = Some (res, q') \<and> queue_wf q'
       \<and> queue_abs q' = mail_push (dq_byte_limit q) (dq_reserved q)
           \<lparr>en_terminal_id = t, en_payload = p, en_bytes = bytes, en_range = rng, en_stamp = stamp\<rparr> (queue_abs q)
       \<and> res = (if mail_over (dq_byte_limit q) (dq_reserved q) (queue_abs q')
                 then Inl UnrecoverableOverflow else Inr ())
     else \<exists>err. push t pr p bytes rng stamp q = Some (Inl err, q)"
    using push_refused [OF assms, of bytes t pr p rng stamp] push_refines [OF assms, where t = t and p = p and rng = rng and stamp = stamp and bytes = bytes and pr = pr]
    by (cases "admits q bytes") auto
  show "\<exists>d q'. pop q = Some (d, q') \<and> queue_wf q'
       \<and> (case select_lane q of
            None \<Rightarrow> d = None \<and> q' = q \<and> mb_pending (queue_abs q) = [] \<and> mb_gaps (queue_abs q) = (\<lambda>t. [])
          | Some u \<Rightarrow> d \<noteq> None \<and> mail_pop u (queue_abs q) = (d, queue_abs q'))"
  proof (cases "select_lane q")
    case None
    from pop_empty [OF assms this] have "mb_pending (queue_abs q) = []" by (simp add: queue_abs_def)
    moreover have "mb_gaps (queue_abs q) = (\<lambda>t. [])" using pop_empty [OF assms None] by (simp add: fun_eq_iff)
    ultimately show ?thesis using assms None pop_empty [OF assms None] by auto
  next
    case (Some u)
    with pop_refines [OF assms Some] show ?thesis by auto
  qed
  show "\<exists>q'. discard_terminal t q = Some q' \<and> queue_wf q' \<and> queue_abs q' = mail_discard t (queue_abs q)"
    using discard_refines [OF assms] by blast
  show "queue_wf (update_priorities f q)" "queue_abs (update_priorities f q) = queue_abs q"
    using update_refines [OF assms] by blast+
qed

theorem queue_refines_mailbox_witness:
  "\<exists>d q'. pop (queue_new 10 5 :: nat DeliveryQueue) = Some (d, q') \<and> queue_wf q'"
  using queue_refines_mailbox [of "queue_new 10 5 :: nat DeliveryQueue" 3 "''t''" Focused 9 None 0 "\<lambda>_. Focused"]
    queue_wf_new [of 5 10] by (auto simp: usize_max_def)

section \<open>Order and conservation\<close>

lemma subseq_subset: "subseq xs ys \<Longrightarrow> x \<in> set xs \<Longrightarrow> x \<in> set ys"
  by (induction rule: list_emb.induct) auto

lemma subseq_drop_first: "subseq (drop_first P xs) xs"
  by (induction xs) auto

lemma filter_drop_first_other: "(\<And>x. x \<in> set xs \<Longrightarrow> P x \<Longrightarrow> \<not> Q x) \<Longrightarrow> filter Q (drop_first P xs) = filter Q xs"
  by (induction xs) auto

lemma find_filter: "List.find P xs = Some x \<Longrightarrow> filter P xs = x # filter P (drop_first P xs)"
  by (induction xs) (auto split: if_splits)

lemma find_SomeD: "List.find P xs = Some x \<Longrightarrow> x \<in> set xs \<and> P x"
  by (induction xs) (auto split: if_splits)

lemma set_drop_first: "List.find P xs = Some x \<Longrightarrow> set xs = insert x (set (drop_first P xs))"
  by (induction xs) (auto split: if_splits)

lemma pending_evict: "subseq (pending_for t (mail_evict m)) (pending_for t m)"
  by (auto simp: mail_evict_def pending_for_def subseq_drop_first intro: subseq_filter split: option.split)

lemma pending_trim: "subseq (pending_for t (mail_trim l r m)) (pending_for t m)"
proof (induction l r m rule: mail_trim.induct)
  case (1 l r m)
  then show ?case
    using pending_evict [of t m] by (subst mail_trim.simps) (auto intro: subseq_order.trans)
qed

text \<open>Frames without a range are never evicted.\<close>

definition controls :: "('p \<Rightarrow> bool) \<Rightarrow> string \<Rightarrow> 'p mailbox \<Rightarrow> bool" where
  "controls C t m = (\<forall>e \<in> set (pending_for t m). C (en_payload e) \<longrightarrow> \<not> ranged e)"

definition payloads :: "string \<Rightarrow> 'p mailbox \<Rightarrow> 'p list" where
  "payloads t m = map en_payload (pending_for t m)"

lemma controls_evict:
  assumes "controls C t m"
  shows "filter C (payloads t (mail_evict m)) = filter C (payloads t m)"
proof (cases "List.find ranged (mb_pending m)")
  case (Some e)
  have "filter (\<lambda>x. C (en_payload x) \<and> sent_to t x) (drop_first ranged (mb_pending m))
      = filter (\<lambda>x. C (en_payload x) \<and> sent_to t x) (mb_pending m)"
    by (rule filter_drop_first_other) (use assms in \<open>auto simp: controls_def pending_for_def\<close>)
  then show ?thesis
    by (simp add: payloads_def pending_for_def mail_evict_def Some filter_map comp_def conj_commute)
qed (simp add: mail_evict_def)

lemma controls_subseq: "subseq (pending_for t m') (pending_for t m) \<Longrightarrow> controls C t m \<Longrightarrow> controls C t m'"
  by (auto simp: controls_def dest: subseq_subset)

lemma controls_trim: "controls C t m \<Longrightarrow> filter C (payloads t (mail_trim l r m)) = filter C (payloads t m)"
proof (induction l r m rule: mail_trim.induct)
  case (1 l r m)
  show ?case
  proof (cases "mail_over l r m \<and> List.find ranged (mb_pending m) \<noteq> None")
    case True
    then have "mail_trim l r m = mail_trim l r (mail_evict m)" by (subst mail_trim.simps) simp
    then show ?thesis
      using "1.IH" [OF True controls_subseq [OF pending_evict "1.prems"]] controls_evict [OF "1.prems"] by simp
  next
    case False
    then have "mail_trim l r m = m" by (subst mail_trim.simps) auto
    then show ?thesis by simp
  qed
qed

section \<open>The mailbox as a machine\<close>

text \<open>The transitions of the mailbox that the queue's operations make, labelled with their events.\<close>

inductive mail_step :: "'p mailbox \<Rightarrow> 'p queue_event list \<Rightarrow> 'p mailbox \<Rightarrow> bool" where
  admit: "mail_step m [Admitted (en_terminal_id e) (en_payload e) (en_range e)] (mail_push limit reserved e m)"
| deliver: "mail_pop u m = (Some d, m') \<Longrightarrow> mail_step m [Delivered u d] m'"
| discard: "mail_step m [Discarded u] (mail_discard u m)"
| idle: "mail_step m [] m"

lemma step_simulates:
  assumes wf: "queue_wf q"
  shows "\<exists>evs q'. queue_step op q = Some (evs, q') \<and> queue_wf q' \<and> mail_step (queue_abs q) evs (queue_abs q')"
proof (cases op)
  case (Push u pr p bytes rng stamp)
  show ?thesis
  proof (cases "admits q bytes")
    case True
    let ?e = "\<lparr>en_terminal_id = u, en_payload = p, en_bytes = bytes, en_range = rng, en_stamp = stamp\<rparr>"
    obtain res q' where "push u pr p bytes rng stamp q = Some (res, q')" "queue_wf q'"
      "queue_abs q' = mail_push (dq_byte_limit q) (dq_reserved q) ?e (queue_abs q)"
      using push_refines [OF wf True, where t = u and p = p and rng = rng and stamp = stamp and pr = pr] by blast
    then show ?thesis using Push True mail_step.admit [of "queue_abs q" ?e] by auto
  next
    case False
    then show ?thesis using push_refused [OF wf False, of u pr p rng stamp] Push wf by (auto intro: mail_step.idle)
  qed
next
  case Pop
  show ?thesis
  proof (cases "select_lane q")
    case None
    then show ?thesis using pop_empty [OF wf None] wf Pop by (auto intro: mail_step.idle)
  next
    case (Some u)
    then show ?thesis using pop_refines [OF wf Some] Pop by (auto intro: mail_step.deliver)
  qed
next
  case (Discard u)
  obtain q' where "discard_terminal u q = Some q'" "queue_wf q'" "queue_abs q' = mail_discard u (queue_abs q)"
    using discard_refines [OF wf] by blast
  then show ?thesis using Discard mail_step.discard [of "queue_abs q" u] by simp
qed (use wf update_refines [OF wf] in \<open>auto intro: mail_step.idle\<close>)

lemma run_simulates:
  "queue_wf q \<Longrightarrow> \<exists>evs q'. queue_run ops q = Some (concat evs, q') \<and> queue_wf q'
     \<and> run_of mail_step (queue_abs q) evs (queue_abs q')"
proof (induction ops arbitrary: q)
  case Nil
  then show ?case by (auto intro!: exI [of _ "[]"])
next
  case (Cons op ops)
  obtain evs q' where step: "queue_step op q = Some (evs, q')" "queue_wf q'"
    "mail_step (queue_abs q) evs (queue_abs q')"
    using step_simulates [OF Cons.prems] by blast
  obtain rest q'' where "queue_run ops q' = Some (concat rest, q'')" "queue_wf q''"
    "run_of mail_step (queue_abs q') rest (queue_abs q'')"
    using Cons.IH [OF step(2)] by blast
  with step show ?case by (intro exI [of _ "evs # rest"] exI [of _ q'']) (auto intro: run_of.intros)
qed

text \<open>One transition, seen by one terminal.\<close>

lemma pending_for_append:
  "pending_for t (m\<lparr>mb_pending := mb_pending m @ [e]\<rparr>) = pending_for t m @ (if sent_to t e then [e] else [])"
  by (simp add: pending_for_def)

lemma pending_push:
  "subseq (pending_for t (mail_push l r e m)) (pending_for t m @ (if sent_to t e then [e] else []))"
  using pending_trim [of t l r "m\<lparr>mb_pending := mb_pending m @ [e]\<rparr>"]
  by (simp only: mail_push_def pending_for_append)

lemma sent_to_other: "t' \<noteq> t \<Longrightarrow> sent_to t' e \<Longrightarrow> \<not> sent_to t e"
  by (simp add: sent_to_def)

lemma pop_cases:
  assumes "mail_pop u m = (Some d, m')"
  obtains (gap) r where "mb_gaps m u = r # mb_gaps m' u" "d = Gap u r" "\<And>t. pending_for t m' = pending_for t m"
      "\<And>t. t \<noteq> u \<Longrightarrow> mb_gaps m' t = mb_gaps m t"
    | (frame) e where "mb_gaps m u = []" "d = Frame (en_payload e) (en_bytes e)" "mb_gaps m' = mb_gaps m"
      "pending_for u m = e # pending_for u m'" "\<And>t. t \<noteq> u \<Longrightarrow> pending_for t m' = pending_for t m"
proof (cases "mb_gaps m u")
  case Nil
  then obtain e where e: "List.find (sent_to u) (mb_pending m) = Some e"
    "d = Frame (en_payload e) (en_bytes e)" "m' = m\<lparr>mb_pending := drop_first (sent_to u) (mb_pending m)\<rparr>"
    using assms by (auto simp: mail_pop_def split: option.splits)
  have "pending_for t m' = pending_for t m" if "t \<noteq> u" for t
    using e(3) that by (auto simp: pending_for_def intro!: filter_drop_first_other dest: sent_to_other)
  then show ?thesis using frame [OF Nil e(2)] e(3) find_filter [OF e(1)] by (simp add: pending_for_def)
next
  case (Cons r rs)
  then show ?thesis using assms gap [of r] by (auto simp: mail_pop_def pending_for_def)
qed

lemma discard_pending: "t \<noteq> u \<Longrightarrow> pending_for t (mail_discard u m) = pending_for t m"
proof -
  assume "t \<noteq> u"
  then have "filter (\<lambda>e. \<not> sent_to u e \<and> sent_to t e) (mb_pending m) = filter (sent_to t) (mb_pending m)"
    by (intro filter_cong) (auto simp: sent_to_def)
  then show ?thesis by (simp add: mail_discard_def pending_for_def)
qed

lemma pop_payloads: "mail_pop u m = (Some d, m') \<Longrightarrow> frames_sent t [Delivered u d] @ payloads t m' = payloads t m"
  by (erule pop_cases) (cases "t = u"; simp add: payloads_def)+

lemma step_order:
  "mail_step m evs m' \<Longrightarrow> Discarded t \<notin> set evs \<Longrightarrow>
   subseq (frames_sent t evs @ payloads t m') (payloads t m @ map fst (admitted t evs))"
proof (induction rule: mail_step.induct)
  case (admit m e limit reserved)
  from subseq_map [OF pending_push [of t limit reserved e m], of en_payload] show ?case
    by (auto simp: payloads_def sent_to_def split: if_splits)
next
  case (deliver u m d m')
  then show ?case by (simp add: pop_payloads)
qed (auto simp: payloads_def discard_pending)

lemma step_controls:
  "mail_step m evs m' \<Longrightarrow> Discarded t \<notin> set evs \<Longrightarrow> controls C t m \<Longrightarrow>
   (\<And>p r. (p, Some r) \<in> set (admitted t evs) \<Longrightarrow> \<not> C p) \<Longrightarrow>
   controls C t m' \<and> filter C (frames_sent t evs @ payloads t m') = filter C (payloads t m @ map fst (admitted t evs))"
proof (induction rule: mail_step.induct)
  case (admit m e limit reserved)
  let ?m = "m\<lparr>mb_pending := mb_pending m @ [e]\<rparr>"
  have "controls C t ?m"
    using admit.prems(2) admit.prems(3) [of "en_payload e" "the (en_range e)"]
    by (cases "en_range e") (auto simp: controls_def pending_for_append sent_to_def ranged_def split: if_splits)
  then have "filter C (payloads t (mail_push limit reserved e m)) = filter C (payloads t ?m)"
    "controls C t (mail_push limit reserved e m)"
    using controls_trim [of C t ?m] controls_subseq [OF pending_trim] by (auto simp: mail_push_def)
  then show ?case by (simp add: payloads_def pending_for_append sent_to_def)
next
  case (deliver u m d m')
  from deliver.hyps have "controls C t m'"
  proof (cases rule: pop_cases)
    case (frame e)
    then show ?thesis using deliver.prems(2) by (cases "t = u") (auto simp: controls_def)
  qed (use deliver.prems(2) in \<open>simp add: controls_def\<close>)
  then show ?case using pop_payloads [OF deliver.hyps, of t] by (simp flip: filter_append)
qed (auto simp: payloads_def discard_pending controls_def)

section \<open>Coverage\<close>

text \<open>The sequence numbers a range stands for, in its stream and attach generation.\<close>

definition points :: "Range \<Rightarrow> (string \<times> string option \<times> int) set" where
  "points r = {ra_stream_id r} \<times> {ra_attach_request_id r} \<times> {ra_from_seq r .. ra_to_seq r}"

definition covered :: "Range list \<Rightarrow> (string \<times> string option \<times> int) set" where
  "covered gs = (\<Union>r \<in> set gs. points r)"

lemma covered_simps [simp]:
  "covered [] = {}" "covered (r # gs) = points r \<union> covered gs" "covered (gs @ hs) = covered gs \<union> covered hs"
  by (auto simp: covered_def)

lemma add_gap_covers: "points r \<union> covered gs \<subseteq> covered (fst (add_gap r gs))"
proof (cases "gs = []")
  case False
  then have "gs = butlast gs @ [last gs]" by simp
  then have "covered gs = covered (butlast gs) \<union> points (last gs)" by (metis covered_simps sup_bot.right_neutral)
  then show ?thesis by (auto simp: add_gap_def points_def)
qed (simp add: add_gap_def)

definition accounted :: "string \<Rightarrow> 'p list \<Rightarrow> Range list \<Rightarrow> 'p mailbox \<Rightarrow> 'p \<Rightarrow> Range \<Rightarrow> bool" where
  "accounted t frames gaps m p r =
     (p \<in> set frames \<or> (\<exists>e \<in> set (pending_for t m). en_payload e = p \<and> en_range e = Some r)
      \<or> points r \<subseteq> covered (gaps @ mb_gaps m t))"

lemma accounted_evict:
  assumes "accounted t F G m p r"
  shows "accounted t F G (mail_evict m) p r"
proof (cases "List.find ranged (mb_pending m)")
  case (Some e)
  let ?u = "en_terminal_id e" and ?r = "the (en_range e)"
  have set: "set (mb_pending m) = insert e (set (mb_pending (mail_evict m)))"
    using set_drop_first [OF Some] by (simp add: mail_evict_def Some)
  have gaps: "mb_gaps (mail_evict m) = (mb_gaps m)(?u := fst (add_gap ?r (mb_gaps m ?u)))"
    by (simp add: mail_evict_def Some)
  then have grow: "covered (mb_gaps m t) \<subseteq> covered (mb_gaps (mail_evict m) t)"
    "t = ?u \<Longrightarrow> points ?r \<subseteq> covered (mb_gaps (mail_evict m) t)"
    using add_gap_covers [of ?r "mb_gaps m ?u"] by auto
  from assms consider "p \<in> set F" | "points r \<subseteq> covered (G @ mb_gaps m t)"
    | e' where "e' \<in> set (pending_for t m)" "en_payload e' = p" "en_range e' = Some r"
    by (auto simp: accounted_def)
  then show ?thesis
  proof cases
    case 3
    then show ?thesis
      using set grow(2) by (cases "e' = e") (auto simp: accounted_def pending_for_def sent_to_def)
  qed (use grow(1) in \<open>auto simp: accounted_def\<close>)
qed (use assms in \<open>simp add: mail_evict_def\<close>)

lemma accounted_trim: "accounted t F G m p r \<Longrightarrow> accounted t F G (mail_trim l res m) p r"
proof (induction l res m rule: mail_trim.induct)
  case (1 l res m)
  then show ?case using accounted_evict [OF "1.prems"] by (subst mail_trim.simps) auto
qed

lemma step_accounted:
  assumes "mail_step m evs m'" and "Discarded t \<notin> set evs"
    and "(p, Some r) \<in> set (admitted t evs) \<or> accounted t F G m p r"
  shows "accounted t (F @ frames_sent t evs) (G @ gaps_sent t evs) m' p r"
  using assms
proof (induction rule: mail_step.induct)
  case (admit m e limit reserved)
  then have "accounted t F G (m\<lparr>mb_pending := mb_pending m @ [e]\<rparr>) p r"
    by (auto simp: accounted_def pending_for_append sent_to_def split: if_splits)
  then show ?case using accounted_trim by (simp add: mail_push_def)
next
  case (deliver u m d m')
  from deliver.hyps show ?case
  proof (cases rule: pop_cases)
    case (gap r')
    then show ?thesis using deliver.prems by (cases "t = u") (auto simp: accounted_def)
  next
    case (frame e)
    then show ?thesis using deliver.prems by (cases "t = u") (auto simp: accounted_def)
  qed
next
  case (discard m u)
  then show ?case by (auto simp: accounted_def discard_pending mail_discard_def pending_for_def sent_to_def)
qed simp

section \<open>Whole runs\<close>

lemma run_order:
  "run_of mail_step m evs m' \<Longrightarrow> Discarded t \<notin> set (concat evs) \<Longrightarrow>
   subseq (frames_sent t (concat evs) @ payloads t m') (payloads t m @ map fst (admitted t (concat evs)))"
proof (induction rule: run_of.induct)
  case (run_cons m evs m' rest m'')
  then have "subseq (frames_sent t evs @ payloads t m') (payloads t m @ map fst (admitted t evs))"
    and "subseq (frames_sent t (concat rest) @ payloads t m'') (payloads t m' @ map fst (admitted t (concat rest)))"
    by (auto intro: step_order)
  from list_emb_append_mono [OF subseq_order.order_refl [of "frames_sent t evs"] this(2)]
    list_emb_append_mono [OF this(1) subseq_order.order_refl [of "map fst (admitted t (concat rest))"]]
  show ?case by (auto intro: subseq_order.trans)
qed simp

lemma run_controls:
  "run_of mail_step m evs m' \<Longrightarrow> Discarded t \<notin> set (concat evs) \<Longrightarrow> controls C t m \<Longrightarrow>
   (\<And>p r. (p, Some r) \<in> set (admitted t (concat evs)) \<Longrightarrow> \<not> C p) \<Longrightarrow>
   filter C (frames_sent t (concat evs) @ payloads t m')
     = filter C (payloads t m @ map fst (admitted t (concat evs)))"
proof (induction rule: run_of.induct)
  case (run_cons m evs m' rest m'')
  have step: "controls C t m'" "filter C (frames_sent t evs @ payloads t m') = filter C (payloads t m @ map fst (admitted t evs))"
    using step_controls [OF run_cons.hyps(1) _ run_cons.prems(2)] run_cons.prems(1,3) by auto
  have "filter C (frames_sent t (concat rest) @ payloads t m'')
      = filter C (payloads t m' @ map fst (admitted t (concat rest)))"
    using run_cons.IH [OF _ step(1)] run_cons.prems(1,3) by auto
  with step(2) show ?case by simp
qed simp

lemma run_accounted:
  "run_of mail_step m evs m' \<Longrightarrow> Discarded t \<notin> set (concat evs) \<Longrightarrow>
   (p, Some r) \<in> set (admitted t (concat evs)) \<or> accounted t F G m p r \<Longrightarrow>
   accounted t (F @ frames_sent t (concat evs)) (G @ gaps_sent t (concat evs)) m' p r"
proof (induction arbitrary: F G rule: run_of.induct)
  case (run_cons m evs m' rest m'')
  have "(p, Some r) \<in> set (admitted t (concat rest)) \<or> accounted t (F @ frames_sent t evs) (G @ gaps_sent t evs) m' p r"
    using step_accounted [OF run_cons.hyps(1), of t p r F G] run_cons.prems by auto
  from run_cons.IH [OF _ this] run_cons.prems(1) show ?case by simp
qed simp

lemma queue_run_new:
  assumes "metadata_limit \<le> usize_max"
  obtains evs q where "queue_run ops (queue_new byte_limit metadata_limit) = Some (concat evs, q)"
    and "queue_wf q" and "run_of mail_step \<lparr>mb_pending = [], mb_gaps = (\<lambda>t. [])\<rparr> evs (queue_abs q)"
  using run_simulates [OF queue_wf_new [OF assms], of ops byte_limit] by (auto simp: queue_abs_new)

text \<open>C20: no operation of a connection ever panics, and for a terminal that was not discarded the
  client sees its frames in the order they were admitted: what was delivered, followed by what is still
  queued, is what was admitted with evicted frames left out. Frames admitted without a range, such as
  the exit notice, are never among those left out.\<close>

theorem queue_delivers_in_order:
  assumes "metadata_limit \<le> usize_max"
  shows "\<exists>evs q. queue_run ops (queue_new byte_limit metadata_limit) = Some (evs, q)
    \<and> (Discarded t \<notin> set evs \<longrightarrow>
         subseq (frames_sent t evs @ payloads t (queue_abs q)) (map fst (admitted t evs))
         \<and> (\<forall>C. (\<forall>p r. (p, Some r) \<in> set (admitted t evs) \<longrightarrow> \<not> C p) \<longrightarrow>
              filter C (frames_sent t evs @ payloads t (queue_abs q)) = filter C (map fst (admitted t evs))))"
proof -
  obtain evs q where run: "queue_run ops (queue_new byte_limit metadata_limit) = Some (concat evs, q)"
    and mail: "run_of mail_step \<lparr>mb_pending = [], mb_gaps = (\<lambda>t. [])\<rparr> evs (queue_abs q)"
    using queue_run_new [OF assms] by metis
  have none: "payloads t \<lparr>mb_pending = [], mb_gaps = g\<rparr> = []" "controls C t \<lparr>mb_pending = [], mb_gaps = g\<rparr>" for C g
    by (simp_all add: payloads_def pending_for_def controls_def)
  show ?thesis
  proof (intro exI conjI impI allI)
    show "queue_run ops (queue_new byte_limit metadata_limit) = Some (concat evs, q)" by (rule run)
    assume kept: "Discarded t \<notin> set (concat evs)"
    show "subseq (frames_sent t (concat evs) @ payloads t (queue_abs q)) (map fst (admitted t (concat evs)))"
      using run_order [OF mail kept] by (simp add: none(1))
    fix C assume "\<forall>p r. (p, Some r) \<in> set (admitted t (concat evs)) \<longrightarrow> \<not> C p"
    then have "\<And>p r. (p, Some r) \<in> set (admitted t (concat evs)) \<Longrightarrow> \<not> C p" by blast
    from run_controls [OF mail kept none(2) this]
    show "filter C (frames_sent t (concat evs) @ payloads t (queue_abs q))
        = filter C (map fst (admitted t (concat evs)))"
      by (simp add: none(1))
  qed
qed

theorem queue_delivers_in_order_witness:
  "\<exists>evs q. queue_run [Push ''t'' Focused (9 :: nat) 3 None 0, Pop] (queue_new 10 5) = Some (evs, q)
    \<and> (Discarded ''t'' \<notin> set evs \<longrightarrow> subseq (frames_sent ''t'' evs @ payloads ''t'' (queue_abs q)) (map fst (admitted ''t'' evs)))"
proof -
  have "5 \<le> usize_max" by (simp add: usize_max_def)
  from queue_delivers_in_order [OF this, of "[Push ''t'' Focused (9 :: nat) 3 None 0, Pop]" 10 "''t''"]
  show ?thesis by blast
qed

text \<open>C30: output is never lost silently. For a terminal that the connection never discarded, every frame admitted
  with a range was delivered, is still queued, or has its whole range covered by gaps that were delivered to the
  client or are queued for it.\<close>

theorem evicted_output_is_reported:
  assumes "metadata_limit \<le> usize_max"
    and "queue_run ops (queue_new byte_limit metadata_limit) = Some (evs, q)"
    and "Discarded t \<notin> set evs" and "(p, Some r) \<in> set (admitted t evs)"
  shows "p \<in> set (frames_sent t evs) \<or> p \<in> set (payloads t (queue_abs q))
    \<or> points r \<subseteq> covered (gaps_sent t evs @ mb_gaps (queue_abs q) t)"
proof -
  obtain es q' where "queue_run ops (queue_new byte_limit metadata_limit) = Some (concat es, q')"
    and "run_of mail_step \<lparr>mb_pending = [], mb_gaps = (\<lambda>t. [])\<rparr> es (queue_abs q')"
    using queue_run_new [OF assms(1)] by metis
  then have "accounted t (frames_sent t evs) (gaps_sent t evs) (queue_abs q) p r"
    using assms(2-4) run_accounted [of _ es "queue_abs q'" t p r "[]" "[]"] by simp
  then show ?thesis by (auto simp: accounted_def payloads_def)
qed

abbreviation sample_range :: Range where
  "sample_range \<equiv> \<lparr>ra_stream_id = ''s'', ra_attach_request_id = None, ra_from_seq = 1, ra_to_seq = 2\<rparr>"

theorem evicted_output_is_reported_witness:
  "\<exists>evs q. queue_run [Push ''t'' Focused (9 :: nat) 20 (Some sample_range) 0] (queue_new 10 5) = Some (evs, q)
    \<and> (9 \<in> set (frames_sent ''t'' evs) \<or> 9 \<in> set (payloads ''t'' (queue_abs q))
       \<or> points sample_range \<subseteq> covered (gaps_sent ''t'' evs @ mb_gaps (queue_abs q) ''t''))"
proof -
  let ?ops = "[Push ''t'' Focused (9 :: nat) 20 (Some sample_range) 0]"
  have small: "5 \<le> usize_max" by (simp add: usize_max_def)
  have "admits (queue_new 10 5 :: nat DeliveryQueue) 20" by (simp add: admits_def queue_new_def usize_max_def)
  from push_refines [OF queue_wf_new [OF small] this, of "''t''" Focused 9 "Some sample_range" 0] this
  obtain q where run: "queue_run ?ops (queue_new 10 5) = Some ([Admitted ''t'' 9 (Some sample_range)], q)"
    by auto
  from evicted_output_is_reported [OF small run, of "''t''" 9 sample_range] run show ?thesis by auto
qed

end
