(* ===== verification/Delivery_Fair.thy ===== *)
theory Delivery_Fair
  imports Delivery_Props
begin

text \<open>
  The scheduler. Service is counted per class in bytes times the class's weight, and the class clock
  follows the least-served busy class: while classes stay busy their service stays within a constant
  of each other. The clock stands still while the queue is empty, and what that does to a class that
  was served alone is stated last.
\<close>

section \<open>Clocks\<close>

definition active_class :: "'p DeliveryQueue \<Rightarrow> nat \<Rightarrow> bool" where
  "active_class q i = (\<exists>t lane. fmlookup (dq_lanes q) t = Some lane \<and> lane_active lane
     \<and> priority_index (la_priority lane) = i)"

lemma priority_index_less [simp]: "priority_index p < 3"
  by (cases p) simp_all

lemma active_class_less: "active_class q i \<Longrightarrow> i < 3"
  by (auto simp: active_class_def)

lemma scan_active:
  "i < length active \<Longrightarrow> fst (scan_lanes ls active lane_min) ! i =
     (active ! i \<or> (\<exists>(t, l) \<in> set ls. lane_active l \<and> priority_index (la_priority l) = i))"
proof (induction ls active lane_min rule: scan_lanes.induct)
  case (2 t lane lanes active lane_min)
  then show ?case by (cases "priority_index (la_priority lane) = i") (auto simp: Let_def)
qed simp

definition busy_classes :: "'p DeliveryQueue \<Rightarrow> nat list" where
  "busy_classes q = filter (active_class q) [0 ..< 3]"

lemma refresh_clock:
  "dq_class_clock (refresh_clocks q) =
     (case map ((!) (dq_class_served q)) (busy_classes q) of
        [] \<Rightarrow> dq_class_clock q | served \<Rightarrow> max (dq_class_clock q) (min_list served))"
  "dq_class_served (refresh_clocks q) = dq_class_served q"
proof -
  have "fst (scan_lanes (sorted_list_of_fmap (dq_lanes q)) (replicate 3 False) (replicate 3 u128_max)) ! i
      = active_class q i" if "i < 3" for i
    using that by (subst scan_active) (simp, fastforce simp: active_class_def)
  then have "filter ((!) (fst (scan_lanes (sorted_list_of_fmap (dq_lanes q)) (replicate 3 False)
      (replicate 3 u128_max)))) [0 ..< 3] = busy_classes q"
    unfolding busy_classes_def by (intro filter_cong) auto
  then show "dq_class_clock (refresh_clocks q) =
     (case map ((!) (dq_class_served q)) (busy_classes q) of
        [] \<Rightarrow> dq_class_clock q | served \<Rightarrow> max (dq_class_clock q) (min_list served))"
    by (simp add: refresh_clocks_def case_prod_beta Let_def)
  show "dq_class_served (refresh_clocks q) = dq_class_served q"
    by (simp add: refresh_clocks_def case_prod_beta Let_def)
qed

lemma refresh_clock_busy:
  assumes "active_class q i"
  shows "dq_class_clock (refresh_clocks q) = max (dq_class_clock q) (MIN k \<in> {k. active_class q k}. dq_class_served q ! k)"
proof -
  let ?served = "map ((!) (dq_class_served q)) (busy_classes q)"
  have "set (busy_classes q) = {k. active_class q k}"
    using active_class_less by (auto simp: busy_classes_def)
  then have "set ?served = (\<lambda>k. dq_class_served q ! k) ` {k. active_class q k}" by simp
  moreover have "?served \<noteq> []"
    using assms active_class_less [OF assms] by (auto simp: busy_classes_def filter_empty_conv)
  moreover from this have "dq_class_clock (refresh_clocks q) = max (dq_class_clock q) (min_list ?served)"
    by (cases ?served) (simp_all add: refresh_clock(1) del: min_list.simps)
  ultimately show ?thesis by (metis min_list_Min)
qed

definition heaviest :: nat where "heaviest = 24"

lemma weights: "i < 3 \<Longrightarrow> WEIGHT ! i \<le> heaviest \<and> 0 < WEIGHT ! i"
  by (auto simp: WEIGHT_def heaviest_def less_Suc_eq numeral_3_eq_3)

text \<open>Every class is at most one heaviest delivery ahead of the clock and no busy class is behind it.\<close>

definition within :: "nat \<Rightarrow> 'p DeliveryQueue \<Rightarrow> bool" where
  "within m q =
     ((\<forall>k < 3. dq_class_served q ! k \<le> dq_class_clock q + heaviest * m)
      \<and> (\<forall>k. active_class q k \<longrightarrow> dq_class_clock q \<le> dq_class_served q ! k))"

definition clocks_fair :: "nat \<Rightarrow> 'p DeliveryQueue \<Rightarrow> bool" where
  "clocks_fair m q =
     (within m q \<and> (\<exists>k. active_class q k \<and> dq_class_served q ! k \<le> dq_class_clock q))"

lemma fair_between:
  "clocks_fair m q \<Longrightarrow> active_class q k \<Longrightarrow>
   dq_class_clock q \<le> dq_class_served q ! k \<and> dq_class_served q ! k \<le> dq_class_clock q + heaviest * m"
  using active_class_less by (auto simp: clocks_fair_def within_def)

lemma active_refresh [simp]: "active_class (refresh_clocks q) = active_class q"
  by (simp add: active_class_def fun_eq_iff)

lemma refresh_fair:
  assumes "within m q" and "active_class q i"
  shows "clocks_fair m (refresh_clocks q) \<and> dq_class_clock q \<le> dq_class_clock (refresh_clocks q)"
proof -
  let ?B = "{k. active_class q k}" and ?s = "\<lambda>k. dq_class_served q ! k"
  have fin: "finite ?B" using active_class_less by (intro finite_subset [of ?B "{..< 3}"]) auto
  have ne: "?B \<noteq> {}" using assms(2) by auto
  from Min_in [of "?s ` ?B"] fin ne obtain k where k: "active_class q k" "Min (?s ` ?B) = ?s k"
    by (metis (no_types, lifting) finite_imageI image_is_empty imageE mem_Collect_eq)
  have least: "active_class q j \<Longrightarrow> Min (?s ` ?B) \<le> ?s j" for j using fin by simp
  have "dq_class_clock q \<le> ?s k" using assms(1) k(1) by (simp add: within_def)
  then have clock: "dq_class_clock (refresh_clocks q) = ?s k"
    by (simp add: refresh_clock_busy [OF assms(2)] k(2))
  have "?s j \<le> ?s k + heaviest * m" if "j < 3" for j
    using assms(1) that \<open>dq_class_clock q \<le> ?s k\<close> by (fastforce simp: within_def)
  then show ?thesis
    using k least \<open>dq_class_clock q \<le> ?s k\<close>
    by (auto simp: clocks_fair_def within_def clock refresh_clock(2))
qed

section \<open>One operation\<close>

definition lane_kind :: "'p DeliveryQueue \<Rightarrow> string \<Rightarrow> Priority option" where
  "lane_kind q t = map_option la_priority (fmlookup (dq_lanes q) t)"

lemma active_class_wf:
  "queue_wf q \<Longrightarrow> active_class q k \<longleftrightarrow> (\<exists>t p. lane_kind q t = Some p \<and> priority_index p = k)"
  by (fastforce simp: active_class_def queue_wf_def lanes_ok_def lane_kind_def)

definition same_service :: "'p DeliveryQueue \<Rightarrow> 'p DeliveryQueue \<Rightarrow> bool" where
  "same_service q q' = (dq_class_served q' = dq_class_served q \<and> dq_class_clock q' = dq_class_clock q)"

lemma evict_one_service: "evict_one fid q = Some q' \<Longrightarrow> same_service q q' \<and> lane_kind q' = lane_kind q"
  by (auto simp: evict_one_def Let_def bind_eq_Some_conv same_service_def lane_kind_def fun_eq_iff)

lemma evict_overflow_service:
  "evict_overflow q = Some (res, q') \<Longrightarrow> same_service q q' \<and> lane_kind q' = lane_kind q"
proof (induction q rule: evict_overflow.induct)
  case (1 q)
  show ?case
  proof (cases "dq_byte_limit q < outstanding_bytes q \<and> dq_evictable q \<noteq> []")
    case True
    then obtain fid rest where ev: "dq_evictable q = fid # rest" by (cases "dq_evictable q") auto
    with True "1.prems" obtain q1 where q1: "evict_one fid (q\<lparr>dq_evictable := rest\<rparr>) = Some q1"
      "evict_overflow q1 = Some (res, q')"
      by (subst (asm) evict_overflow.simps) (auto split: option.splits)
    from "1.IH" [of fid rest q1] True ev q1 evict_one_service [OF q1(1)] show ?thesis
      by (auto simp: same_service_def lane_kind_def fun_eq_iff)
  next
    case False
    with "1.prems" show ?thesis
      by (subst (asm) evict_overflow.simps) (auto simp: same_service_def split: list.splits if_splits)
  qed
qed

lemma push_service:
  assumes "push t pr p bytes rng stamp q = Some (res, q')"
  shows "q' = q \<or> (dq_class_clock q' = dq_class_clock q
    \<and> dq_class_served q' = (dq_class_served q)[priority_index pr := max (dq_class_served q ! priority_index pr) (dq_class_clock q)]
    \<and> lane_kind q' = (lane_kind q)(t \<mapsto> case lane_kind q t of None \<Rightarrow> pr | Some k \<Rightarrow> k))"
proof (cases "dq_metadata_limit q \<le> saturating usize_max (fcard (fmdom (dq_entries q)) + dq_gap_count q)
    \<or> checked_add usize_max (dq_next_id q) 1 = None \<or> checked_add usize_max (dq_bytes q) bytes = None")
  case True
  then show ?thesis using assms by (auto simp: push_def Let_def split: if_splits option.splits)
next
  case False
  let ?c = "priority_index pr"
  let ?lane = "case fmlookup (dq_lanes q) t of Some lane \<Rightarrow> lane
    | None \<Rightarrow> \<lparr>la_priority = pr, la_ids = [], la_gaps = [], la_served = dq_lane_clock q ! ?c\<rparr>"
  obtain lane q1 where q1: "evict_overflow q1 = Some (res, q')"
    "dq_lanes q1 = fmupd t lane (dq_lanes q)" "la_priority lane = la_priority ?lane"
    "dq_class_clock q1 = dq_class_clock q"
    "dq_class_served q1 = (dq_class_served q)[?c := max (dq_class_served q ! ?c) (dq_class_clock q)]"
    using assms False by (auto simp: push_def Let_def)
  have "lane_kind q1 = (lane_kind q)(t \<mapsto> case lane_kind q t of None \<Rightarrow> pr | Some k \<Rightarrow> k)"
    using q1(2,3) by (auto simp: lane_kind_def fun_eq_iff split: option.split)
  then show ?thesis using evict_overflow_service [OF q1(1)] q1(4,5) by (simp add: same_service_def)
qed

lemma push_fair:
  assumes wf: "queue_wf q" "queue_wf q'" and fair: "clocks_fair m q"
    and push: "push t pr p bytes rng stamp q = Some (res, q')"
  shows "clocks_fair m q' \<and> dq_class_clock q' = dq_class_clock q
    \<and> (\<forall>k. active_class q k \<longrightarrow> dq_class_served q' ! k = dq_class_served q ! k)"
  using push_service [OF push]
proof
  assume "q' = q"
  then show ?thesis using fair by simp
next
  let ?c = "priority_index pr"
  let ?kind = "case lane_kind q t of None \<Rightarrow> pr | Some k \<Rightarrow> k"
  assume "dq_class_clock q' = dq_class_clock q
    \<and> dq_class_served q' = (dq_class_served q)[?c := max (dq_class_served q ! ?c) (dq_class_clock q)]
    \<and> lane_kind q' = (lane_kind q)(t \<mapsto> ?kind)"
  then have clock: "dq_class_clock q' = dq_class_clock q"
    and served: "dq_class_served q' = (dq_class_served q)[?c := max (dq_class_served q ! ?c) (dq_class_clock q)]"
    and kinds: "lane_kind q' u = (if u = t then Some ?kind else lane_kind q u)" for u
    by auto
  have len: "length (dq_class_served q) = 3" using wf(1) by (simp add: queue_wf_def counters_ok_def)
  have at: "dq_class_served q' ! k = (if k = ?c then max (dq_class_served q ! k) (dq_class_clock q)
      else dq_class_served q ! k)" for k
    using len by (simp add: served)
  have new: "active_class q' k \<Longrightarrow> active_class q k \<or> k = ?c" for k
    using wf by (auto simp: active_class_wf kinds split: if_splits option.splits)
  have old: "active_class q k \<Longrightarrow> active_class q' k" for k
    using wf by (auto simp: active_class_wf kinds) (metis option.simps(5))
  have same: "active_class q k \<Longrightarrow> dq_class_served q' ! k = dq_class_served q ! k" for k
    using fair by (auto simp: at clocks_fair_def within_def max_def)
  have "within m q'"
    using fair new by (auto simp: within_def clocks_fair_def at clock)
  moreover obtain k where "active_class q k" "dq_class_served q ! k \<le> dq_class_clock q"
    using fair by (auto simp: clocks_fair_def)
  then have "\<exists>k. active_class q' k \<and> dq_class_served q' ! k \<le> dq_class_clock q'"
    using old same clock by metis
  ultimately show ?thesis using same clock by (simp add: clocks_fair_def)
qed

section \<open>A delivery\<close>

lemma take_front_shape:
  assumes "take_front t lane q = Some (d, cost, lane', q')"
  shows "dq_class_served q' = dq_class_served q \<and> dq_class_clock q' = dq_class_clock q
    \<and> dq_lane_clock q' = dq_lane_clock q \<and> dq_lanes q' = dq_lanes q \<and> la_priority lane' = la_priority lane
    \<and> cost = (case d of Frame p bytes \<Rightarrow> max bytes 1 | Gap u rng \<Rightarrow> 256)"
  using assms by (auto simp: take_front_def bind_eq_Some_conv split: list.splits)

definition delivery_cost :: "'p Delivery \<Rightarrow> nat" where
  "delivery_cost d = (case d of Frame p bytes \<Rightarrow> max bytes 1 | Gap u rng \<Rightarrow> 256)"

lemma pop_shape:
  assumes "pop q = Some (Some d, q')"
  obtains t lane lane' q1 where "select_lane q = Some t" "fmlookup (dq_lanes q) t = Some lane"
    "q' = refresh_clocks (charge (delivery_cost d) t lane' q1)" "la_priority lane' = la_priority lane"
    "same_service q q1" "dq_lanes q1 = dq_lanes q"
proof -
  from assms obtain t lane cost lane' q1 where "select_lane q = Some t"
    "fmlookup (dq_lanes q) t = Some lane" "take_front t lane q = Some (d, cost, lane', q1)"
    "q' = refresh_clocks (charge cost t lane' q1)"
    by (auto simp: pop_def bind_eq_Some_conv split: option.splits)
  with take_front_shape [OF this(3)] show ?thesis
    by (intro that [of t lane lane' q1]) (auto simp: same_service_def delivery_cost_def)
qed

lemma select_lane_least:
  assumes "select_lane q = Some t" and "fmlookup (dq_lanes q) t = Some lane"
    and "active_class q k"
  shows "lane_active lane
    \<and> max (dq_class_served q ! priority_index (la_priority lane)) (dq_class_clock q)
      \<le> max (dq_class_served q ! k) (dq_class_clock q)"
proof -
  let ?ls = "filter (\<lambda>(t, l). lane_active l) (sorted_list_of_fmap (dq_lanes q))"
  have ne: "?ls \<noteq> []" using assms(1) by (auto simp: select_lane_def)
  let ?x = "arg_min_list (lane_key q) ?ls"
  have "t = fst ?x" using assms(1) ne by (auto simp: select_lane_def split: list.splits)
  moreover have "?x \<in> set ?ls" using ne by (rule arg_min_list_in)
  ultimately have x: "?x = (t, lane)" "lane_active lane" using assms(2) by auto
  from assms(3) obtain u l where u: "fmlookup (dq_lanes q) u = Some l" "lane_active l"
    "priority_index (la_priority l) = k" by (auto simp: active_class_def)
  then have "(u, l) \<in> set ?ls" by auto
  then have "lane_key q ?x \<le> lane_key q (u, l)"
    using ne by (simp add: f_arg_min_list_f)
  then show ?thesis using x u(3) by (auto simp: lane_key_def Let_def less_eq_prod_def)
qed

lemma charge_service:
  "dq_class_clock (charge cost t lane q) = dq_class_clock q"
  "dq_class_served (charge cost t lane q) = (dq_class_served q)[priority_index (la_priority lane) :=
     saturating u128_max (max (dq_class_served q ! priority_index (la_priority lane)) (dq_class_clock q)
       + saturating u128_max (cost * WEIGHT ! priority_index (la_priority lane)))]"
  by (simp_all add: charge_def Let_def)

lemma charge_active:
  "active_class (charge cost t lane q) k \<Longrightarrow> active_class q k \<or> k = priority_index (la_priority lane)"
  by (auto simp: active_class_def charge_def Let_def split: if_splits)

lemma pop_fair:
  assumes wf: "queue_wf q" and fair: "clocks_fair m q"
    and pop: "pop q = Some (Some d, q')" and cost: "delivery_cost d \<le> m"
    and room: "dq_class_clock q + heaviest * m \<le> u128_max"
    and busy: "active_class q' i"
  obtains t lane where "select_lane q = Some t" "fmlookup (dq_lanes q) t = Some lane"
    "clocks_fair m q'"
    "dq_class_served q' = (dq_class_served q)[priority_index (la_priority lane) :=
       dq_class_served q ! priority_index (la_priority lane)
         + WEIGHT ! priority_index (la_priority lane) * delivery_cost d]"
proof -
  from pop_shape [OF pop] obtain t lane lane' q1 where sel: "select_lane q = Some t"
    and lane: "fmlookup (dq_lanes q) t = Some lane"
    and q': "q' = refresh_clocks (charge (delivery_cost d) t lane' q1)"
    and prio: "la_priority lane' = la_priority lane"
    and q1: "same_service q q1" "dq_lanes q1 = dq_lanes q" by blast
  let ?c = "priority_index (la_priority lane)" and ?q2 = "charge (delivery_cost d) t lane' q1"
  let ?w = "WEIGHT ! ?c * delivery_cost d"
  from fair obtain k where k: "active_class q k" "dq_class_served q ! k \<le> dq_class_clock q"
    by (auto simp: clocks_fair_def)
  from select_lane_least [OF sel lane k(1)] k(2)
  have lane_act: "lane_active lane" and low: "dq_class_served q ! ?c \<le> dq_class_clock q" by auto
  then have act: "active_class q ?c" using lane by (auto simp: active_class_def)
  with fair low have eq: "dq_class_served q ! ?c = dq_class_clock q"
    by (auto simp: clocks_fair_def within_def intro: order_antisym)
  have w: "?w \<le> heaviest * m" using weights [of ?c] cost by (simp add: mult_le_mono)
  have served: "dq_class_served ?q2 = (dq_class_served q)[?c := dq_class_served q ! ?c + ?w]"
    using w room eq q1(1) by (simp add: charge_service prio same_service_def saturating_def mult.commute)
  have clock: "dq_class_clock ?q2 = dq_class_clock q" using q1(1) by (simp add: charge_service same_service_def)
  have len: "length (dq_class_served q) = 3" using wf by (simp add: queue_wf_def counters_ok_def)
  have sub: "active_class ?q2 j \<Longrightarrow> active_class q j" for j
  proof -
    assume "active_class ?q2 j"
    then have "active_class q1 j \<or> j = ?c" using charge_active [of _ t lane' q1 j] prio by metis
    moreover have "active_class q1 = active_class q" by (simp add: active_class_def fun_eq_iff q1(2))
    ultimately show ?thesis using act by auto
  qed
  have "within m ?q2"
    using fair sub len w eq by (auto simp: within_def clocks_fair_def served clock nth_list_update)
  with busy have "clocks_fair m q'" using refresh_fair [of m ?q2 i] by (simp add: q')
  then show ?thesis using that [OF sel lane] served by (simp add: q' refresh_clock(2))
qed

section \<open>Runs\<close>

definition lane_class :: "'p DeliveryQueue \<Rightarrow> string \<Rightarrow> nat option" where
  "lane_class q t = map_option priority_index (lane_kind q t)"

definition service_of :: "nat \<Rightarrow> 'p DeliveryQueue \<Rightarrow> 'p queue_event list \<Rightarrow> nat" where
  "service_of k q evs =
     (\<Sum>e \<leftarrow> evs. case e of Delivered t d \<Rightarrow> (if lane_class q t = Some k then delivery_cost d else 0) | _ \<Rightarrow> 0)"

text \<open>The bytes a run delivers for a class, and the states it goes through.\<close>

fun class_service :: "nat \<Rightarrow> 'p queue_op list \<Rightarrow> 'p DeliveryQueue \<Rightarrow> nat" where
  "class_service k [] q = 0"
| "class_service k (op # ops) q =
     (case queue_step op q of None \<Rightarrow> 0
      | Some (evs, q') \<Rightarrow> service_of k q evs + class_service k ops q')"

fun queue_states :: "'p queue_op list \<Rightarrow> 'p DeliveryQueue \<Rightarrow> 'p DeliveryQueue list" where
  "queue_states [] q = [q]"
| "queue_states (op # ops) q =
     q # (case queue_step op q of None \<Rightarrow> [] | Some (evs, q') \<Rightarrow> queue_states ops q')"

fun keeps_classes :: "'p queue_op \<Rightarrow> bool" where
  "keeps_classes (Set_priorities f) = False"
| "keeps_classes (Discard t) = False"
| "keeps_classes op = True"

lemma clocks_fair_same:
  "dq_lanes q' = dq_lanes q \<Longrightarrow> same_service q q' \<Longrightarrow> clocks_fair m q \<Longrightarrow> clocks_fair m q'"
  by (simp add: clocks_fair_def within_def active_class_def same_service_def)

lemma service_none [simp]: "service_of k q [] = 0" "service_of k q [Admitted t p rng] = 0"
  by (simp_all add: service_of_def)

lemma fair_step:
  assumes wf: "queue_wf q" and fair: "clocks_fair m q" and kind: "keeps_classes op"
    and step: "queue_step op q = Some (evs, q')"
    and cost: "\<And>t d. Delivered t d \<in> set evs \<Longrightarrow> delivery_cost d \<le> m"
    and room: "dq_class_clock q + heaviest * m \<le> u128_max"
    and busy: "active_class q' i" and k: "active_class q k"
  shows "clocks_fair m q' \<and> dq_class_served q' ! k = dq_class_served q ! k + WEIGHT ! k * service_of k q evs"
proof (cases op)
  case (Push t pr p bytes rng stamp)
  then obtain res where push: "push t pr p bytes rng stamp q = Some (res, q')"
    and evs: "service_of k q evs = 0"
    using step by (auto simp: service_of_def split: if_splits)
  have "queue_wf q'"
    using push_refines [OF wf] push_refused [OF wf] push wf
    by (cases "admits q bytes") (metis option.inject prod.inject)+
  from push_fair [OF wf this fair push] k evs show ?thesis by simp
next
  case Pop
  show ?thesis
  proof (cases "select_lane q")
    case None
    then have "q' = q" "evs = []" using step Pop by (auto simp: pop_def)
    then show ?thesis using fair by simp
  next
    case (Some t)
    then obtain d where pop: "pop q = Some (Some d, q')" and evs: "evs = [Delivered t d]"
      using step Pop pop_refines [OF wf Some] by auto
    have len: "length (dq_class_served q) = 3" using wf by (simp add: queue_wf_def counters_ok_def)
    from cost evs have "delivery_cost d \<le> m" by simp
    from pop_fair [OF wf fair pop this room busy] obtain lane
      where lane: "fmlookup (dq_lanes q) t = Some lane" and "clocks_fair m q'"
        and "dq_class_served q' = (dq_class_served q)[priority_index (la_priority lane) :=
           dq_class_served q ! priority_index (la_priority lane)
             + WEIGHT ! priority_index (la_priority lane) * delivery_cost d]"
      using Some by (metis option.inject)
    then show ?thesis
      using len by (auto simp: evs service_of_def lane_class_def lane_kind_def nth_list_update)
  qed
next
  case (Set_reserved n)
  then show ?thesis
    using step fair by (auto simp: set_reserved_bytes_def same_service_def intro: clocks_fair_same)
next
  case Take_evictions
  then show ?thesis
    using step fair by (auto simp: take_evictions_def same_service_def intro: clocks_fair_same)
qed (use kind in simp_all)

lemma queue_step_wf: "queue_wf q \<Longrightarrow> queue_step op q = Some (evs, q') \<Longrightarrow> queue_wf q'"
  using step_simulates [of q op] by auto

text \<open>The scheduler is byte-fair. While two classes keep something pending, each of them gets its
  share of the socket: their delivered bytes, each class's scaled by its weight, differ by at most two
  heaviest deliveries, however long the run, whatever else is admitted and evicted, and however the
  frames are cut.\<close>

theorem class_service_fair:
  assumes "queue_wf q" and "clocks_fair m q" and "list_all keeps_classes ops"
    and "queue_run ops q = Some (evs, q')"
    and "\<And>t d. Delivered t d \<in> set evs \<Longrightarrow> delivery_cost d \<le> m"
    and "\<And>s. s \<in> set (queue_states ops q) \<Longrightarrow>
           active_class s i \<and> active_class s j \<and> dq_class_clock s + heaviest * m \<le> u128_max"
  shows "WEIGHT ! i * class_service i ops q \<le> WEIGHT ! j * class_service j ops q + 2 * heaviest * m"
proof -
  have run: "clocks_fair m q' \<and> dq_class_served q' ! k = dq_class_served q ! k + WEIGHT ! k * class_service k ops q
      \<and> active_class q' k"
    if "k = i \<or> k = j" for k
    using assms
  proof (induction ops arbitrary: q evs)
    case Nil
    then show ?case using that by auto
  next
    case (Cons op ops)
    then obtain es q1 es' where step: "queue_step op q = Some (es, q1)" and rest: "queue_run ops q1 = Some (es', q')"
      and evs: "evs = es @ es'"
      by (auto split: option.splits)
    have states: "q1 \<in> set (queue_states ops q1)" by (cases ops) simp_all
    then have "active_class q1 i" "active_class q k" "dq_class_clock q + heaviest * m \<le> u128_max"
      using Cons.prems(6) step that by auto
    with fair_step [OF Cons.prems(1,2) _ step, of i k] Cons.prems(3,5) evs
    have now: "clocks_fair m q1" "dq_class_served q1 ! k = dq_class_served q ! k + WEIGHT ! k * service_of k q es"
      by auto
    have "clocks_fair m q' \<and> dq_class_served q' ! k = dq_class_served q1 ! k + WEIGHT ! k * class_service k ops q1
        \<and> active_class q' k"
      using Cons.prems(3,5,6) step evs
      by (intro Cons.IH [OF queue_step_wf [OF Cons.prems(1) step] now(1) _ rest]) auto
    then show ?case using step now(2) by (simp add: algebra_simps)
  qed
  have "active_class q i \<and> active_class q j" using assms(6) [of q] by (cases ops) simp_all
  then have "dq_class_served q ! j \<le> dq_class_clock q + heaviest * m" "dq_class_clock q \<le> dq_class_served q ! i"
    using fair_between [OF assms(2)] by blast+
  moreover have "dq_class_served q' ! i \<le> dq_class_clock q' + heaviest * m" "dq_class_clock q' \<le> dq_class_served q' ! j"
    using fair_between [of m q'] run by blast+
  ultimately show ?thesis using run [of i] run [of j] by linarith
qed

definition busy_sample :: "nat DeliveryQueue" where
  "busy_sample =
     \<lparr>dq_entries = fmupd 2 \<lparr>en_terminal_id = ''b'', en_payload = 30, en_bytes = 5, en_range = None, en_stamp = 0\<rparr>
        (fmupd 1 \<lparr>en_terminal_id = ''a'', en_payload = 20, en_bytes = 5, en_range = None, en_stamp = 0\<rparr>
          (fmupd 0 \<lparr>en_terminal_id = ''a'', en_payload = 10, en_bytes = 5, en_range = None, en_stamp = 0\<rparr> fmempty)),
      dq_evictable = [],
      dq_lanes = fmupd ''b'' \<lparr>la_priority = Background, la_ids = [2], la_gaps = [], la_served = 0\<rparr>
        (fmupd ''a'' \<lparr>la_priority = Focused, la_ids = [0, 1], la_gaps = [], la_served = 0\<rparr> fmempty),
      dq_next_id = 3, dq_bytes = 15, dq_reserved = 0, dq_byte_limit = 100, dq_metadata_limit = 10,
      dq_gap_count = 0, dq_evictions = [], dq_class_served = [0, 0, 0], dq_class_clock = 0,
      dq_lane_clock = [0, 0, 0]\<rparr>"

lemma busy_sample_lists [simp]:
  "sorted_list_of_fmap (dq_lanes busy_sample) =
     [(''a'', \<lparr>la_priority = Focused, la_ids = [0, 1], la_gaps = [], la_served = 0\<rparr>),
      (''b'', \<lparr>la_priority = Background, la_ids = [2], la_gaps = [], la_served = 0\<rparr>)]"
  "sorted_list_of_fmap (dq_entries busy_sample) =
     [(0, \<lparr>en_terminal_id = ''a'', en_payload = 10, en_bytes = 5, en_range = None, en_stamp = 0\<rparr>),
      (1, \<lparr>en_terminal_id = ''a'', en_payload = 20, en_bytes = 5, en_range = None, en_stamp = 0\<rparr>),
      (2, \<lparr>en_terminal_id = ''b'', en_payload = 30, en_bytes = 5, en_range = None, en_stamp = 0\<rparr>)]"
  by (simp_all add: busy_sample_def fmap_list_snoc_dom less_char_def)

lemma busy_sample_wf: "queue_wf busy_sample"
  apply (simp add: queue_wf_def counters_ok_def lanes_ok_def)
  apply (auto simp: busy_sample_def ids_where_def ranged_def sent_to_def total_bytes_def total_gaps_def usize_max_def lane_active_def)
  done

lemma busy_sample_lookup: "fmlookup (dq_lanes busy_sample) t =
    (if t = ''b'' then Some \<lparr>la_priority = Background, la_ids = [2], la_gaps = [], la_served = 0\<rparr>
     else if t = ''a'' then Some \<lparr>la_priority = Focused, la_ids = [0, 1], la_gaps = [], la_served = 0\<rparr> else None)"
  by (simp add: busy_sample_def)

lemma busy_sample_active: "active_class busy_sample k \<longleftrightarrow> k = 0 \<or> k = 2"
proof
  assume "active_class busy_sample k"
  then show "k = 0 \<or> k = 2" by (auto simp: active_class_def busy_sample_lookup split: if_splits)
next
  assume "k = 0 \<or> k = 2"
  then show "active_class busy_sample k"
    unfolding active_class_def
    by (elim disjE) (rule exI [of _ "''a''"], simp add: busy_sample_lookup lane_active_def,
      rule exI [of _ "''b''"], simp add: busy_sample_lookup lane_active_def)
qed

lemma busy_sample_fair: "clocks_fair 100 busy_sample"
  unfolding clocks_fair_def within_def busy_sample_active
  by (auto simp: busy_sample_def less_Suc_eq numeral_3_eq_3)

lemma busy_sample_pop:
  "\<exists>q'. pop busy_sample = Some (Some (Frame 10 5), q') \<and> select_lane busy_sample = Some ''a''
    \<and> active_class q' 0 \<and> active_class q' 2"
proof -
  have sel: "select_lane busy_sample = Some ''a''"
    by (simp add: select_lane_def lane_key_def lane_active_def less_eq_prod_def Let_def busy_sample_lists)
      (simp add: busy_sample_def)
  have lane: "fmlookup (dq_lanes busy_sample) ''a'' = Some \<lparr>la_priority = Focused, la_ids = [0, 1], la_gaps = [], la_served = 0\<rparr>"
    by (simp add: busy_sample_def)
  obtain q1 where q1: "take_front ''a'' \<lparr>la_priority = Focused, la_ids = [0, 1], la_gaps = [], la_served = 0\<rparr> busy_sample
      = Some (Frame 10 5, 5, \<lparr>la_priority = Focused, la_ids = [1], la_gaps = [], la_served = 0\<rparr>, q1)"
    "dq_lanes q1 = dq_lanes busy_sample"
    by (simp add: take_front_def checked_sub_def) (simp add: busy_sample_def)
  let ?q2 = "charge 5 ''a'' \<lparr>la_priority = Focused, la_ids = [1], la_gaps = [], la_served = 0\<rparr> q1"
  have lanes: "\<exists>n. fmlookup (dq_lanes ?q2) ''a'' = Some \<lparr>la_priority = Focused, la_ids = [1], la_gaps = [], la_served = n\<rparr>"
    "fmlookup (dq_lanes ?q2) ''b'' = Some \<lparr>la_priority = Background, la_ids = [2], la_gaps = [], la_served = 0\<rparr>"
    by (simp_all add: charge_def Let_def lane_active_def q1(2) busy_sample_lookup)
  then have "active_class ?q2 0" "active_class ?q2 2"
    unfolding active_class_def by (force simp: lane_active_def)+
  then show ?thesis using sel lane q1(1) by (simp add: pop_def)
qed

theorem class_service_fair_witness:
  "WEIGHT ! 2 * class_service 2 [Pop] busy_sample \<le> WEIGHT ! 0 * class_service 0 [Pop] busy_sample + 2 * heaviest * 100"
proof -
  obtain q' where pop: "pop busy_sample = Some (Some (Frame 10 5), q')" "select_lane busy_sample = Some ''a''"
    "active_class q' 0" "active_class q' 2" using busy_sample_pop by blast
  have room: "dq_class_clock busy_sample + heaviest * 100 \<le> u128_max"
    by (simp add: busy_sample_def heaviest_def u128_max_def)
  have cost: "delivery_cost (Frame (10 :: nat) 5) \<le> 100" by (simp add: delivery_cost_def)
  obtain t lane where "select_lane busy_sample = Some t" "fmlookup (dq_lanes busy_sample) t = Some lane"
    and fair: "clocks_fair 100 q'" and served: "dq_class_served q' = (dq_class_served busy_sample)
      [priority_index (la_priority lane) := dq_class_served busy_sample ! priority_index (la_priority lane)
         + WEIGHT ! priority_index (la_priority lane) * delivery_cost (Frame (10 :: nat) 5)]"
    by (rule pop_fair [OF busy_sample_wf busy_sample_fair pop(1) cost room pop(3)])
  have "dq_class_clock q' \<le> dq_class_served q' ! 0" using fair_between [OF fair pop(3)] by blast
  also have "\<dots> \<le> 15"
    unfolding served by (cases "la_priority lane") (simp_all add: busy_sample_def WEIGHT_def delivery_cost_def)
  finally have "dq_class_clock q' + heaviest * 100 \<le> u128_max" by (simp add: heaviest_def u128_max_def)
  with pop room show ?thesis
    by (intro class_service_fair [OF busy_sample_wf busy_sample_fair, where evs = "[Delivered ''a'' (Frame 10 5)]" and q' = q'])
      (auto simp: delivery_cost_def busy_sample_active)
qed

section \<open>A class served alone\<close>

text \<open>The drained queue after \<open>n\<close> admissions, its focused class charged with \<open>x\<close>.\<close>

definition drained :: "nat \<Rightarrow> nat \<Rightarrow> nat \<Rightarrow> nat \<Rightarrow> 'p DeliveryQueue" where
  "drained byte_limit metadata_limit n x =
     (queue_new byte_limit metadata_limit)\<lparr>dq_next_id := n, dq_class_served := [x, 0, 0]\<rparr>"

lemma admit_alone:
  assumes "k \<le> B" and "k \<le> usize_max" and "n < usize_max"
  shows "push t Focused p k rng s (drained B M n x) = Some (Inr (), (drained B M n x)
    \<lparr>dq_next_id := Suc n,
     dq_lanes := fmupd t \<lparr>la_priority = Focused, la_ids = [n], la_gaps = [], la_served = 0\<rparr> fmempty,
     dq_evictable := (if rng \<noteq> None then [n] else []), dq_bytes := k,
     dq_entries := fmupd n \<lparr>en_terminal_id = t, en_payload = p, en_bytes = k, en_range = rng, en_stamp = s\<rparr> fmempty\<rparr>)"
  using assms
  by (simp add: push_def drained_def queue_new_def saturating_def checked_add_def evict_overflow.simps
      outstanding_bytes_def insort_insert_key_def Let_def fcard_fempty)

lemma fmdrop_one [simp]: "fmdrop k (fmupd k v fmempty) = fmempty"
  by (rule fmap_ext) simp

lemma classes: "[0 ..< 3] = [0, 1, 2 :: nat]"
  by (simp add: upt_rec)

lemma queue_run_append:
  "queue_run (ops @ ops') q = (case queue_run ops q of None \<Rightarrow> None
     | Some (evs, q') \<Rightarrow> map_option (\<lambda>(evs', q''). (evs @ evs', q'')) (queue_run ops' q'))"
proof (induction ops arbitrary: q)
  case Nil
  then show ?case by (simp add: option.map_id)
next
  case (Cons op ops)
  then show ?case by (auto split: option.split simp: option.map_comp comp_def case_prod_beta)
qed

lemma serve_alone:
  assumes "k \<le> B" and "k \<le> usize_max" and "n < usize_max" and "1 \<le> k" and "x + 3 * k \<le> u128_max"
  shows "queue_run [Push t Focused p k rng s, Pop] (drained B M n x)
    = Some ([Admitted t p rng, Delivered t (Frame p k)], drained B M (Suc n) (x + 3 * k))"
  using assms admit_alone [OF assms(1-3), of t p rng s M x]
  by (simp add: pop_def select_lane_def lane_active_def take_front_def checked_sub_def admits_def
      less_max_iff_disj drained_def queue_new_def charge_def saturating_def WEIGHT_def refresh_clocks_def
      classes algebra_simps Let_def)

lemma serve_alone_rounds:
  assumes "k \<le> B" and "k \<le> usize_max" and "1 \<le> k"
  shows "n + i \<le> usize_max \<Longrightarrow> x + 3 * k * n \<le> u128_max \<Longrightarrow>
    \<exists>evs. queue_run (concat (replicate n [Push t Focused p k rng s, Pop])) (drained B M i x)
      = Some (evs, drained B M (n + i) (x + 3 * k * n))"
proof (induction n arbitrary: i x)
  case (Suc n)
  let ?round = "[Push t Focused p k rng s, Pop]"
  have n: "n + Suc i \<le> usize_max" "x + 3 * k + 3 * k * n \<le> u128_max" "i < usize_max" "x + 3 * k \<le> u128_max"
    using Suc.prems by (simp_all add: algebra_simps)
  obtain evs where "queue_run (concat (replicate n ?round)) (drained B M (Suc i) (x + 3 * k))
      = Some (evs, drained B M (n + Suc i) (x + 3 * k + 3 * k * n))"
    using Suc.IH [OF n(1,2)] by blast
  moreover have "concat (replicate (Suc n) ?round) = ?round @ concat (replicate n ?round)" by simp
  moreover have "x + 3 * k + 3 * k * n = x + 3 * k * Suc n" "n + Suc i = Suc n + i" by simp_all
  ultimately show ?case
    using serve_alone [OF assms(1,2) n(3) assms(3) n(4), of t p rng s M]
    by (simp only: queue_run_append option.case prod.case option.map) blast
qed simp

text \<open>C36: a class served alone is held back afterwards. The class clock follows the least-served busy
  class, and stands still when the queue drains: \<open>n\<close> frames of a focused terminal, each delivered
  before the next is admitted, leave a drained queue with the clock at zero and the focused class charged
  for every byte. A background frame admitted then goes first, although a focused one is waiting.\<close>

theorem idle_class_gains_credit:
  assumes "1 \<le> k" and "k < usize_max" and "k < B" and "1 < M"
    and "1 \<le> n" and "n + 2 \<le> usize_max" and "3 * k * n \<le> u128_max" and "t \<noteq> u"
  shows "\<exists>evs q q'. queue_run (concat (replicate n [Push t Focused p k rng s, Pop])) (queue_new B M) = Some (evs, q)
    \<and> \<not> has_pending q \<and> dq_class_clock q = 0 \<and> dq_class_served q = [3 * k * n, 0, 0]
    \<and> queue_run [Push t Focused p k rng s, Push u Background p' 1 rng' s'] q
        = Some ([Admitted t p rng, Admitted u p' rng'], q')
    \<and> select_lane q' = Some u"
proof -
  let ?f = "\<lparr>en_terminal_id = t, en_payload = p, en_bytes = k, en_range = rng, en_stamp = s\<rparr>"
    and ?b = "\<lparr>en_terminal_id = u, en_payload = p', en_bytes = 1, en_range = rng', en_stamp = s'\<rparr>"
    and ?q = "drained B M n (3 * k * n) :: 'a DeliveryQueue"
  have new: "queue_new B M = drained B M 0 0" by (simp add: drained_def queue_new_def)
  obtain evs where run: "queue_run (concat (replicate n [Push t Focused p k rng s, Pop])) (queue_new B M) = Some (evs, ?q)"
    using serve_alone_rounds [of k B n 0 0 t p rng s M] assms unfolding new by auto
  obtain q1 where q1: "push t Focused p k rng s ?q = Some (Inr (), q1)"
    "q1 = ?q\<lparr>dq_next_id := Suc n,
       dq_lanes := fmupd t \<lparr>la_priority = Focused, la_ids = [n], la_gaps = [], la_served = 0\<rparr> fmempty,
       dq_evictable := (if rng \<noteq> None then [n] else []), dq_bytes := k, dq_entries := fmupd n ?f fmempty\<rparr>"
    using admit_alone [of k B n t p rng s M "3 * k * n"] assms by simp
  obtain q2 where q2: "push u Background p' 1 rng' s' q1 = Some (Inr (), q2)"
    "dq_class_served q2 = [3 * k * n, 0, 0]" "dq_class_clock q2 = 0"
    "dq_lanes q2 = fmupd u \<lparr>la_priority = Background, la_ids = [Suc n], la_gaps = [], la_served = 0\<rparr> (dq_lanes q1)"
    using assms
    by (simp add: push_def q1(2) drained_def queue_new_def saturating_def checked_add_def evict_overflow.simps
        outstanding_bytes_def insort_insert_key_def Let_def fcard_fempty fcard_finsert_if)
  have lanes: "fmlookup (dq_lanes q2) v =
      (if v = u then Some \<lparr>la_priority = Background, la_ids = [Suc n], la_gaps = [], la_served = 0\<rparr>
       else if v = t then Some \<lparr>la_priority = Focused, la_ids = [n], la_gaps = [], la_served = 0\<rparr> else None)" for v
    by (simp add: q2(4) q1(2))
  then have "active_class q2 2" by (auto simp: active_class_def lane_active_def intro!: exI [of _ u])
  moreover have "select_lane q2 \<noteq> None"
    using lanes [of u]
    by (force simp: select_lane_def filter_empty_conv lane_active_def split: list.splits)
  then obtain v lane where "select_lane q2 = Some v" "fmlookup (dq_lanes q2) v = Some lane"
    using select_lane_Some by fastforce
  ultimately have "select_lane q2 = Some u"
    using select_lane_least [of q2 v lane 2] assms(1,5) by (auto simp: lanes q2(2,3) split: if_splits)
  moreover have "queue_run [Push t Focused p k rng s, Push u Background p' 1 rng' s'] ?q
      = Some ([Admitted t p rng, Admitted u p' rng'], q2)"
    using q1 q2(1) assms by (simp add: admits_def drained_def queue_new_def)
  moreover have "\<not> has_pending ?q" "dq_class_clock ?q = 0" "dq_class_served ?q = [3 * k * n, 0, 0]"
    by (simp_all add: drained_def queue_new_def has_pending_def)
  ultimately show ?thesis using run by blast
qed

theorem idle_class_gains_credit_witness:
  "\<exists>evs q q'. queue_run (concat (replicate 2 [Push ''a'' Focused (7 :: nat) 100 None 0, Pop])) (queue_new 1000 10) = Some (evs, q)
    \<and> \<not> has_pending q \<and> dq_class_clock q = 0 \<and> dq_class_served q = [3 * 100 * 2, 0, 0]
    \<and> queue_run [Push ''a'' Focused 7 100 None 0, Push ''b'' Background 8 1 None 0] q
        = Some ([Admitted ''a'' 7 None, Admitted ''b'' 8 None], q')
    \<and> select_lane q' = Some ''b''"
  by (rule idle_class_gains_credit) (simp_all add: usize_max_def u128_max_def)

end
