(* ===== verification/Stream_Scanner.thy ===== *)
theory Stream_Scanner
  imports Main
begin

text \<open>
  The contract of a scanner that is fed a stream in pieces: what it has said and where it stands
  depend on the stream, not on how it was cut. A component that feeds frames to one may cut them as it
  likes; that is proved here once, from what a scanner promises of two consecutive feeds.
\<close>

fun feed_all :: "('c list \<Rightarrow> 's \<Rightarrow> 'o list \<times> 's) \<Rightarrow> 'c list list \<Rightarrow> 's \<Rightarrow> 'o list \<times> 's" where
  "feed_all feed [] s = ([], s)"
| "feed_all feed (cs # chunks) s =
     (let (out, s') = feed cs s; (out', s'') = feed_all feed chunks s' in (out @ out', s''))"

lemma feed_all_append:
  "feed_all feed (xs @ ys) s =
     (fst (feed_all feed xs s) @ fst (feed_all feed ys (snd (feed_all feed xs s))),
      snd (feed_all feed ys (snd (feed_all feed xs s))))"
  by (induction xs arbitrary: s) (simp_all add: case_prod_beta Let_def)

locale stream_scanner =
  fixes wf :: "'s \<Rightarrow> bool"
    and feed :: "'c list \<Rightarrow> 's \<Rightarrow> 'o list \<times> 's"
  assumes feed_wf: "wf s \<Longrightarrow> wf (snd (feed cs s))"
    and feed_nothing: "wf s \<Longrightarrow> feed [] s = ([], s)"
    and feed_append: "wf s \<Longrightarrow> feed (cs @ ds) s =
      (let (out, s') = feed cs s; (out', s'') = feed ds s' in (out @ out', s''))"
begin

lemma feeds_concat: "wf s \<Longrightarrow> feed_all feed chunks s = feed (concat chunks) s"
proof (induction chunks arbitrary: s)
  case (Cons cs chunks)
  then show ?case
    using feed_wf [OF Cons.prems, of cs] by (simp add: feed_append case_prod_beta Let_def)
qed (simp add: feed_nothing)

lemma cut_anywhere: "wf s \<Longrightarrow> concat chunks = concat chunks' \<Longrightarrow> feed_all feed chunks s = feed_all feed chunks' s"
  by (simp add: feeds_concat)

lemma feeds_wf: "wf s \<Longrightarrow> wf (snd (feed_all feed chunks s))"
  by (simp add: feeds_concat feed_wf)

lemma feeds_state: "snd (feed_all feed chunks s) = fold (\<lambda>cs s. snd (feed cs s)) chunks s"
  by (induction chunks arbitrary: s) (simp_all add: case_prod_beta Let_def)

lemma fold_feed: "wf s \<Longrightarrow> fold (\<lambda>cs s. snd (feed cs s)) chunks s = snd (feed (concat chunks) s)"
  by (metis feeds_state feeds_concat)

end

text \<open>A scanner that steps through its characters one at a time fulfils the contract by its shape.\<close>

fun scan_with :: "('c \<Rightarrow> 's \<Rightarrow> 'o list \<times> 's) \<Rightarrow> 'c list \<Rightarrow> 's \<Rightarrow> 'o list \<times> 's" where
  "scan_with step [] s = ([], s)"
| "scan_with step (c # cs) s =
     (let (out, s') = step c s; (out', s'') = scan_with step cs s' in (out @ out', s''))"

lemma scan_with_append:
  "scan_with step (cs @ ds) s =
     (let (out, s') = scan_with step cs s; (out', s'') = scan_with step ds s' in (out @ out', s''))"
  by (induction cs arbitrary: s) (simp_all add: case_prod_beta Let_def)

end
