(* ===== verification/Utf8_Decoder.thy ===== *)
theory Utf8_Decoder
  imports Text_Units Stream_Scanner
begin

text \<open>
  The streaming decoder of a terminal's bytes (crates/freshell-terminal/src/decode.rs), over the
  validation of the Rust standard library: \<open>str::from_utf8\<close> stops at the first sequence that is not a
  character and reports how much was valid and how many bytes are wrong, or that the input ended
  inside a character.
\<close>

section \<open>The standard library's validation\<close>

datatype utf8_head = Character nat nat | Malformed nat | Truncated

text \<open>The front of a non-empty input: a character with its length, a malformed sequence with its length
  (\<open>Utf8Error::error_len\<close>), or the beginning of a character that the input ends in.\<close>

fun utf8_width :: "nat \<Rightarrow> nat" where
  "utf8_width b =
     (if b < 0x80 then 1 else if 0xC2 \<le> b \<and> b < 0xE0 then 2 else if 0xE0 \<le> b \<and> b < 0xF0 then 3
      else if 0xF0 \<le> b \<and> b < 0xF5 then 4 else 0)"

definition second_ok :: "nat \<Rightarrow> nat \<Rightarrow> bool" where
  "second_ok b b1 =
     (if b = 0xE0 then 0xA0 \<le> b1 \<and> b1 < 0xC0
      else if b = 0xED then 0x80 \<le> b1 \<and> b1 < 0xA0
      else if b = 0xF0 then 0x90 \<le> b1 \<and> b1 < 0xC0
      else if b = 0xF4 then 0x80 \<le> b1 \<and> b1 < 0x90
      else is_continuation b1)"

fun utf8_front :: "bytes \<Rightarrow> utf8_head" where
  "utf8_front [] = Truncated"
| "utf8_front (b # bs) =
     (if utf8_width b = 0 then Malformed 1
      else if utf8_width b = 1 then Character b 1
      else case bs of
             [] \<Rightarrow> Truncated
           | b1 # bs1 \<Rightarrow>
               if \<not> second_ok b b1 then Malformed 1
               else if utf8_width b = 2 then Character ((b - 0xC0) * 64 + (b1 - 0x80)) 2
               else (case bs1 of
                       [] \<Rightarrow> Truncated
                     | b2 # bs2 \<Rightarrow>
                         if \<not> is_continuation b2 then Malformed 2
                         else if utf8_width b = 3
                         then Character ((b - 0xE0) * 4096 + (b1 - 0x80) * 64 + (b2 - 0x80)) 3
                         else (case bs2 of
                                 [] \<Rightarrow> Truncated
                               | b3 # bs3 \<Rightarrow>
                                   if \<not> is_continuation b3 then Malformed 3
                                   else Character ((b - 0xF0) * 262144 + (b1 - 0x80) * 4096
                                          + (b2 - 0x80) * 64 + (b3 - 0x80)) 4)))"

declare utf8_width.simps [simp del]

lemma utf8_width_cases: "utf8_width b \<in> {0, 1, 2, 3, 4}"
  by (simp add: utf8_width.simps)

lemma utf8_front_length:
  "utf8_front bs = Character c n \<Longrightarrow> 1 \<le> n \<and> n \<le> length bs"
  "utf8_front bs = Malformed n \<Longrightarrow> 1 \<le> n \<and> n \<le> length bs"
  "utf8_front bs = Truncated \<Longrightarrow> length bs \<le> 3"
  by (cases bs; auto split: if_splits list.splits)+

text \<open>What is decided of a front stays decided when more input follows.\<close>

lemma utf8_front_stable: "utf8_front bs \<noteq> Truncated \<Longrightarrow> utf8_front (bs @ cs) = utf8_front bs"
  by (cases bs) (auto split: if_splits list.splits)

lemma utf8_front_decodes: "utf8_front bs = Character c n \<Longrightarrow> decode_char bs = Some (c, drop n bs)"
  by (cases bs) (auto simp: second_ok_def utf8_width.simps is_continuation_def is_scalar_def Let_def
      split: if_splits list.splits)

text \<open>The strict decoder of \<open>Text_Units\<close> accepts nothing else.\<close>

lemma second_ok_two: "0xC2 \<le> b \<Longrightarrow> b < 0xE0 \<Longrightarrow> second_ok b b1 = is_continuation b1"
  by (simp add: second_ok_def)

lemma second_ok_three:
  assumes "0xE0 \<le> b" "b < 0xF0" "is_continuation b1" "is_continuation b2"
    and "0x800 \<le> (b - 0xE0) * 4096 + (b1 - 0x80) * 64 + (b2 - 0x80)"
    and "is_scalar ((b - 0xE0) * 4096 + (b1 - 0x80) * 64 + (b2 - 0x80))"
  shows "second_ok b b1"
proof -
  obtain x where x: "b = 0xE0 + x" using assms(1) le_Suc_ex by blast
  obtain y where y: "b1 = 0x80 + y" using assms(3) by (auto simp: is_continuation_def le_iff_add)
  obtain z where z: "b2 = 0x80 + z" using assms(4) by (auto simp: is_continuation_def le_iff_add)
  from assms show ?thesis
    unfolding x y z second_ok_def is_continuation_def is_scalar_def by (simp; linarith)
qed

lemma second_ok_four:
  assumes "0xF0 \<le> b" "b < 0xF5" "is_continuation b1" "is_continuation b2" "is_continuation b3"
    and "0x10000 \<le> (b - 0xF0) * 262144 + (b1 - 0x80) * 4096 + (b2 - 0x80) * 64 + (b3 - 0x80)"
    and "is_scalar ((b - 0xF0) * 262144 + (b1 - 0x80) * 4096 + (b2 - 0x80) * 64 + (b3 - 0x80))"
  shows "second_ok b b1"
proof -
  obtain x where x: "b = 0xF0 + x" using assms(1) le_Suc_ex by blast
  obtain y where y: "b1 = 0x80 + y" using assms(3) by (auto simp: is_continuation_def le_iff_add)
  obtain z where z: "b2 = 0x80 + z" using assms(4) by (auto simp: is_continuation_def le_iff_add)
  obtain w where w: "b3 = 0x80 + w" using assms(5) by (auto simp: is_continuation_def le_iff_add)
  from assms show ?thesis
    unfolding x y z w second_ok_def is_continuation_def is_scalar_def by (simp; linarith)
qed

lemma decodes_utf8_front:
  assumes "decode_char bs = Some (c, rest)"
  shows "\<exists>n. utf8_front bs = Character c n \<and> rest = drop n bs"
proof (cases bs)
  case (Cons b bs')
  consider "b < 0x80" | "0xC2 \<le> b" "b < 0xE0" | "0xE0 \<le> b" "b < 0xF0" | "0xF0 \<le> b" "b < 0xF5"
    using assms Cons by (force split: if_splits)
  then show ?thesis
  proof cases
    case 1
    then show ?thesis using assms Cons by (simp add: utf8_width.simps)
  next
    case 2
    with assms Cons obtain b1 r where "bs' = b1 # r" "is_continuation b1" "c = (b - 0xC0) * 64 + (b1 - 0x80)" "rest = r"
      by (auto split: list.splits if_splits)
    then show ?thesis using 2 Cons second_ok_two [OF 2] by (simp add: utf8_width.simps)
  next
    case 3
    with assms Cons obtain b1 b2 r where "bs' = b1 # b2 # r" "is_continuation b1" "is_continuation b2"
      "c = (b - 0xE0) * 4096 + (b1 - 0x80) * 64 + (b2 - 0x80)" "0x800 \<le> c" "is_scalar c" "rest = r"
      by (auto simp: Let_def split: list.splits if_splits)
    then show ?thesis using 3 Cons second_ok_three [OF 3, of b1 b2] by (simp add: utf8_width.simps)
  next
    case 4
    with assms Cons obtain b1 b2 b3 r where "bs' = b1 # b2 # b3 # r" "is_continuation b1" "is_continuation b2"
      "is_continuation b3" "c = (b - 0xF0) * 262144 + (b1 - 0x80) * 4096 + (b2 - 0x80) * 64 + (b3 - 0x80)"
      "0x10000 \<le> c" "is_scalar c" "rest = r"
      by (auto simp: Let_def split: list.splits if_splits)
    then show ?thesis using 4 Cons second_ok_four [OF 4, of b1 b2 b3] by (simp add: utf8_width.simps)
  qed
qed (use assms in simp)

text \<open>\<open>str::from_utf8\<close>: the text, or the valid prefix with \<open>valid_up_to\<close> and \<open>error_len\<close>.\<close>

datatype utf8_result = Valid_utf8 utext | Utf8_error utext nat "nat option"

function validate :: "bytes \<Rightarrow> utext \<Rightarrow> nat \<Rightarrow> utf8_result" where
  "validate bs valid up_to =
     (if bs = [] then Valid_utf8 valid
      else case utf8_front bs of
             Character c n \<Rightarrow> validate (drop n bs) (valid @ [c]) (up_to + n)
           | Malformed n \<Rightarrow> Utf8_error valid up_to (Some n)
           | Truncated \<Rightarrow> Utf8_error valid up_to None)"
  by pat_completeness auto
termination
  by (relation "measure (\<lambda>(bs, valid, up_to). length bs)") (auto dest: utf8_front_length)

declare validate.simps [simp del]

definition check_utf8 :: "bytes \<Rightarrow> utf8_result" where
  "check_utf8 bs = validate bs [] 0"

text \<open>\<open>String::from_utf8_lossy\<close>: each malformed sequence becomes one replacement character, and so does
  an incomplete character at the end.\<close>

definition REPLACEMENT :: nat where
  "REPLACEMENT = 0xFFFD"

function from_utf8_lossy :: "bytes \<Rightarrow> utext" where
  "from_utf8_lossy bs =
     (if bs = [] then []
      else case utf8_front bs of
             Character c n \<Rightarrow> c # from_utf8_lossy (drop n bs)
           | Malformed n \<Rightarrow> REPLACEMENT # from_utf8_lossy (drop n bs)
           | Truncated \<Rightarrow> [REPLACEMENT])"
  by pat_completeness auto
termination
  by (relation "measure length") (auto dest: utf8_front_length)

declare from_utf8_lossy.simps [simp del]

lemma from_utf8_lossy_Nil [simp]: "from_utf8_lossy [] = []"
  by (simp add: from_utf8_lossy.simps)

section \<open>The decoder\<close>

record Utf8StreamDecoder =
  ud_pending :: bytes

definition decoder_new :: Utf8StreamDecoder where
  "decoder_new = \<lparr>ud_pending = []\<rparr>"

lemma validate_error:
  "validate bs valid up_to = Utf8_error t k e \<Longrightarrow> up_to \<le> k \<and> k - up_to \<le> length bs
    \<and> (case e of None \<Rightarrow> True | Some n \<Rightarrow> 1 \<le> n \<and> k - up_to + n \<le> length bs)"
proof (induction bs valid up_to rule: validate.induct)
  case (1 bs valid up_to)
  note unfold = validate.simps [of bs valid up_to]
  show ?case
  proof (cases "utf8_front bs")
    case (Character c n)
    then show ?thesis
      using "1.IH" [OF _ Character] "1.prems" utf8_front_length(1) [OF Character]
      by (cases "bs = []") (auto simp: unfold split: option.splits)
  next
    case (Malformed n)
    then show ?thesis
      using "1.prems" utf8_front_length(2) [OF Malformed] by (auto simp: unfold split: if_splits)
  next
    case Truncated
    then show ?thesis using "1.prems" by (auto simp: unfold split: if_splits)
  qed
qed

function decode_loop :: "bytes \<Rightarrow> utext \<Rightarrow> utext \<times> bytes" where
  "decode_loop pending out =
     (case check_utf8 pending of
        Valid_utf8 valid \<Rightarrow> (out @ valid, [])
      | Utf8_error valid up_to None \<Rightarrow> (out @ valid, drop up_to pending)
      | Utf8_error valid up_to (Some bad_len) \<Rightarrow>
          decode_loop (drop (up_to + bad_len) pending) (out @ valid @ [REPLACEMENT]))"
  by pat_completeness auto
termination
  by (relation "measure (\<lambda>(pending, out). length pending)")
    (auto simp: check_utf8_def dest!: validate_error)

declare decode_loop.simps [simp del]

definition decoder_push :: "bytes \<Rightarrow> Utf8StreamDecoder \<Rightarrow> utext \<times> Utf8StreamDecoder" where
  "decoder_push bs d =
     (let (out, pending) = decode_loop (ud_pending d @ bs) [] in (out, d\<lparr>ud_pending := pending\<rparr>))"

definition decoder_finish :: "Utf8StreamDecoder \<Rightarrow> utext \<times> Utf8StreamDecoder" where
  "decoder_finish d =
     (if ud_pending d = [] then ([], d)
      else (from_utf8_lossy (ud_pending d), d\<lparr>ud_pending := []\<rparr>))"

section \<open>The stream it decodes\<close>

text \<open>The reference: one front of the stream after another, with what it ends in left over.\<close>

function decode_stream :: "bytes \<Rightarrow> utext \<times> bytes" where
  "decode_stream bs =
     (if bs = [] then ([], [])
      else case utf8_front bs of
             Character c n \<Rightarrow> (let (out, rest) = decode_stream (drop n bs) in (c # out, rest))
           | Malformed n \<Rightarrow> (let (out, rest) = decode_stream (drop n bs) in (REPLACEMENT # out, rest))
           | Truncated \<Rightarrow> ([], bs))"
  by pat_completeness auto
termination
  by (relation "measure length") (auto dest: utf8_front_length)

declare decode_stream.simps [simp del]

lemma decode_stream_Nil [simp]: "decode_stream [] = ([], [])"
  by (simp add: decode_stream.simps)

lemma decode_stream_cases:
  "utf8_front bs = Character c n \<Longrightarrow> decode_stream bs = (c # fst (decode_stream (drop n bs)), snd (decode_stream (drop n bs)))"
  "utf8_front bs = Malformed n \<Longrightarrow> decode_stream bs = (REPLACEMENT # fst (decode_stream (drop n bs)), snd (decode_stream (drop n bs)))"
  "utf8_front bs = Truncated \<Longrightarrow> decode_stream bs = ([], bs)"
  by (cases "bs = []"; simp add: decode_stream.simps [of bs] case_prod_beta Let_def)+

lemma validate_stream:
  "case validate bs valid up_to of
     Valid_utf8 t \<Rightarrow> \<exists>out. t = valid @ out \<and> decode_stream bs = (out, [])
   | Utf8_error t k None \<Rightarrow> \<exists>out. t = valid @ out \<and> up_to \<le> k \<and> decode_stream bs = (out, drop (k - up_to) bs)
   | Utf8_error t k (Some n) \<Rightarrow> \<exists>out. t = valid @ out \<and> up_to \<le> k
       \<and> decode_stream bs = (out @ REPLACEMENT # fst (decode_stream (drop (k - up_to + n) bs)),
            snd (decode_stream (drop (k - up_to + n) bs)))"
proof (induction bs valid up_to rule: validate.induct)
  case (1 bs valid up_to)
  note unfold = validate.simps [of bs valid up_to]
  show ?case
  proof (cases "bs = []")
    case False
    show ?thesis
    proof (cases "utf8_front bs")
      case (Character c n)
      then show ?thesis
        using "1.IH" [OF False Character] False
        by (auto simp: unfold decode_stream_cases(1) [OF Character] add.commute add.left_commute
            split: utf8_result.splits option.splits)
    next
      case (Malformed n)
      then show ?thesis using False by (simp add: unfold decode_stream_cases(2) [OF Malformed])
    next
      case Truncated
      then show ?thesis using False by (simp add: unfold decode_stream_cases(3) [OF Truncated])
    qed
  qed (simp add: validate.simps)
qed

lemma decode_loop_stream: "decode_loop pending out = (out @ fst (decode_stream pending), snd (decode_stream pending))"
proof (induction pending out rule: decode_loop.induct)
  case (1 pending out)
  show ?case
  proof (cases "check_utf8 pending")
    case (Valid_utf8 t)
    then show ?thesis
      using validate_stream [where bs = pending and valid = "[]" and up_to = 0] by (auto simp: decode_loop.simps [of pending] check_utf8_def)
  next
    case (Utf8_error t k e)
    then show ?thesis
      using validate_stream [where bs = pending and valid = "[]" and up_to = 0] "1.IH" [OF Utf8_error]
      by (cases e) (auto simp: decode_loop.simps [of pending] check_utf8_def)
  qed
qed

lemma decoder_push_stream:
  "decoder_push bs d = (fst (decode_stream (ud_pending d @ bs)), d\<lparr>ud_pending := snd (decode_stream (ud_pending d @ bs))\<rparr>)"
  by (simp add: decoder_push_def decode_loop_stream case_prod_beta Let_def)

lemma decode_stream_append:
  "decode_stream (xs @ ys) =
     (fst (decode_stream xs) @ fst (decode_stream (snd (decode_stream xs) @ ys)),
      snd (decode_stream (snd (decode_stream xs) @ ys)))"
proof (induction xs rule: decode_stream.induct)
  case (1 xs)
  show ?case
  proof (cases "utf8_front xs")
    case (Character c n)
    with "1.IH"(1) [OF _ Character] utf8_front_length(1) [OF Character] utf8_front_stable [of xs ys]
    show ?thesis by (cases "xs = []") (simp_all add: decode_stream_cases(1))
  next
    case (Malformed n)
    with "1.IH"(2) [OF _ Malformed] utf8_front_length(2) [OF Malformed] utf8_front_stable [of xs ys]
    show ?thesis by (cases "xs = []") (simp_all add: decode_stream_cases(2))
  next
    case Truncated
    then show ?thesis by (simp add: decode_stream_cases(3))
  qed
qed

lemma decode_stream_rest: "utf8_front (snd (decode_stream bs)) = Truncated"
proof (induction bs rule: decode_stream.induct)
  case (1 bs)
  then show ?case
    by (cases "bs = []"; cases "utf8_front bs") (simp_all add: decode_stream_cases)
qed

lemma lossy_stream:
  "from_utf8_lossy bs = fst (decode_stream bs) @ (if snd (decode_stream bs) = [] then [] else [REPLACEMENT])"
proof (induction bs rule: decode_stream.induct)
  case (1 bs)
  then show ?case
    by (cases "bs = []"; cases "utf8_front bs") (simp_all add: decode_stream_cases from_utf8_lossy.simps [of bs])
qed

definition decoder_wf :: "Utf8StreamDecoder \<Rightarrow> bool" where
  "decoder_wf d = (utf8_front (ud_pending d) = Truncated)"

interpretation decoder: stream_scanner decoder_wf decoder_push
proof
  fix d :: Utf8StreamDecoder and cs ds
  assume wf: "decoder_wf d"
  show "decoder_wf (snd (decoder_push cs d))"
    by (simp add: decoder_wf_def decoder_push_stream decode_stream_rest)
  show "decoder_push [] d = ([], d)"
    using wf by (simp add: decoder_wf_def decoder_push_stream decode_stream_cases(3))
  show "decoder_push (cs @ ds) d =
      (let (out, s') = decoder_push cs d; (out', s'') = decoder_push ds s' in (out @ out', s''))"
    using decode_stream_append [of "ud_pending d @ cs" ds] by (simp add: decoder_push_stream Let_def)
qed

lemma decode_stream_text:
  assumes "valid_text t"
  shows "decode_stream (as_bytes t) = (t, [])"
  using assms
proof (induction t)
  case (Cons c t)
  then have "decode_char (encode_char c @ as_bytes t) = Some (c, as_bytes t)" by (simp add: decode_encode_char)
  then obtain n where "utf8_front (encode_char c @ as_bytes t) = Character c n"
    "as_bytes t = drop n (encode_char c @ as_bytes t)" using decodes_utf8_front by blast
  then show ?case using Cons by (simp add: decode_stream_cases(1))
qed simp

text \<open>C28: the streaming decoder equals the one-shot lossy decoder of the standard library: for every
  sequence of reads, what the pushes return, followed by what the flush returns, is
  \<open>from_utf8_lossy\<close> of the whole byte stream, and for the bytes of a text it is that text, wherever
  the reads cut its characters. The decoder never holds back more than three bytes.\<close>

theorem decoder_is_one_shot:
  shows "(let (out, d) = feed_all decoder_push reads decoder_new; (rest, d') = decoder_finish d in
      out @ rest = from_utf8_lossy (concat reads) \<and> ud_pending d' = []
      \<and> length (ud_pending d) \<le> 3
      \<and> (\<forall>t. valid_text t \<longrightarrow> concat reads = as_bytes t \<longrightarrow> out = t \<and> rest = []))"
proof -
  have "decoder_wf decoder_new" by (simp add: decoder_wf_def decoder_new_def)
  then have feeds: "feed_all decoder_push reads decoder_new
      = (fst (decode_stream (concat reads)), decoder_new\<lparr>ud_pending := snd (decode_stream (concat reads))\<rparr>)"
    by (simp add: decoder.feeds_concat decoder_push_stream decoder_new_def)
  let ?p = "snd (decode_stream (concat reads))"
  have rest: "utf8_front ?p = Truncated" by (rule decode_stream_rest)
  then have "from_utf8_lossy ?p = (if ?p = [] then [] else [REPLACEMENT])"
    by (simp add: from_utf8_lossy.simps)
  then show ?thesis
    using utf8_front_length(3) [OF rest]
    by (auto simp: feeds decoder_finish_def lossy_stream [of "concat reads"] decode_stream_text)
qed

theorem decoder_is_one_shot_witness:
  "fst (feed_all decoder_push [[0x68, 0xC3], [0xA9]] decoder_new) = [0x68, 0xE9]"
proof -
  have "valid_text [0x68, 0xE9]" by (simp add: is_scalar_def)
  moreover have "concat [[0x68, 0xC3], [0xA9]] = as_bytes [0x68, 0xE9]" by (simp add: encode_char_def)
  ultimately show ?thesis
    using decoder_is_one_shot [of "[[0x68, 0xC3], [0xA9]]"] by (auto simp: case_prod_beta Let_def)
qed

end
