(* ===== verification/Mode_Tracker.thy ===== *)
theory Mode_Tracker
  imports Text_Units Stream_Scanner
begin

text \<open>
  The emulator-mode projection of a terminal (crates/freshell-terminal/src/mode_tracker.rs). It scans
  the decoded output for the sequences that arm terminal modes, remembers which are armed, and writes
  the preamble that arms them again on a fresh screen. An \<open>IndexMap\<close> is an association list in the
  order of first insertion; the eviction's log line is not modelled.
\<close>

section \<open>Data\<close>

definition MT_ESC :: nat where "MT_ESC = 0x1b"
definition MT_CSI_C1 :: nat where "MT_CSI_C1 = 0x9b"
definition MT_REPLACEMENT :: nat where "MT_REPLACEMENT = 0xfffd"
definition PENDING_CARRY_LIMIT :: nat where "PENDING_CARRY_LIMIT = 64"
definition FLAT_MAP_CAPACITY :: nat where "FLAT_MAP_CAPACITY = 128"
definition MOUSE_PROTOCOL_FAMILY :: "nat list" where "MOUSE_PROTOCOL_FAMILY = [9, 1000, 1002, 1003]"
definition SGR_ENCODING_FAMILY :: "nat list" where "SGR_ENCODING_FAMILY = [1006, 1016]"
definition ALT_BUFFER_FAMILY :: "nat list" where "ALT_BUFFER_FAMILY = [47, 1047, 1049]"
definition DECSTR_MODES :: "nat list" where "DECSTR_MODES = [1, 6, 45, 66, 1004, 2004, 2026, 25]"
definition CURSOR_VISIBILITY :: nat where "CURSOR_VISIBILITY = 25"
definition SYNCHRONIZED_OUTPUT :: nat where "SYNCHRONIZED_OUTPUT = 2026"
definition SEND_FOCUS :: nat where "SEND_FOCUS = 1004"
definition WRAPAROUND :: nat where "WRAPAROUND = 7"

lemmas mode_chars = MT_ESC_def MT_CSI_C1_def MT_REPLACEMENT_def
lemmas families = MOUSE_PROTOCOL_FAMILY_def SGR_ENCODING_FAMILY_def ALT_BUFFER_FAMILY_def
lemmas special_modes = CURSOR_VISIBILITY_def SYNCHRONIZED_OUTPUT_def SEND_FOCUS_def WRAPAROUND_def

datatype ScanState = ScanGround | ScanEsc | ScanCsi

record ModeTracker =
  mt_state :: ScanState
  mt_csi_payload :: utext
  mt_mouse_protocol :: "nat option"
  mt_sgr_encoding :: "nat option"
  mt_alt_buffer :: "nat option"
  mt_flat :: "(nat \<times> bool) list"
  mt_xt_modify_keys :: "(nat \<times> nat) list"

definition tracker_new :: ModeTracker where
  "tracker_new = \<lparr>mt_state = ScanGround, mt_csi_payload = [], mt_mouse_protocol = None,
     mt_sgr_encoding = None, mt_alt_buffer = None, mt_flat = [], mt_xt_modify_keys = []\<rparr>"

text \<open>\<open>IndexMap::insert\<close> keeps the position of a key that is present and appends one that is not;
  \<open>shift_remove\<close> closes the gap.\<close>

fun index_insert :: "'k \<Rightarrow> 'v \<Rightarrow> ('k \<times> 'v) list \<Rightarrow> ('k \<times> 'v) list" where
  "index_insert k v [] = [(k, v)]"
| "index_insert k v ((k', v') # m) = (if k' = k then (k, v) # m else (k', v') # index_insert k v m)"

definition shift_remove :: "'k \<Rightarrow> ('k \<times> 'v) list \<Rightarrow> ('k \<times> 'v) list" where
  "shift_remove k m = filter (\<lambda>(k', v). k' \<noteq> k) m"

section \<open>Numbers\<close>

text \<open>\<open>parse::<u32>\<close> on digits, and \<open>split(';')\<close>.\<close>

definition parse_u32 :: "utext \<Rightarrow> nat option" where
  "parse_u32 ds =
     (if ds \<noteq> [] \<and> list_all is_digit ds \<and> digits_value ds \<le> u32_max then Some (digits_value ds) else None)"

fun split_on :: "'a \<Rightarrow> 'a list \<Rightarrow> 'a list list" where
  "split_on c [] = [[]]"
| "split_on c (x # xs) =
     (if x = c then [] # split_on c xs
      else case split_on c xs of [] \<Rightarrow> [[x]] | y # ys \<Rightarrow> (x # y) # ys)"

definition is_param_list :: "utext \<Rightarrow> bool" where
  "is_param_list params = list_all (\<lambda>b. is_digit b \<or> b = 0x3b) params"

definition is_csi_final :: "nat \<Rightarrow> bool" where
  "is_csi_final ch = (0x40 \<le> ch \<and> ch \<le> 0x7e)"

section \<open>Mode mutations\<close>

definition apply_dec_private :: "nat \<Rightarrow> bool \<Rightarrow> ModeTracker \<Rightarrow> ModeTracker" where
  "apply_dec_private pm on t =
     (if pm \<in> set MOUSE_PROTOCOL_FAMILY then t\<lparr>mt_mouse_protocol := (if on then Some pm else None)\<rparr>
      else if pm \<in> set SGR_ENCODING_FAMILY then t\<lparr>mt_sgr_encoding := (if on then Some pm else None)\<rparr>
      else if pm \<in> set ALT_BUFFER_FAMILY then t\<lparr>mt_alt_buffer := (if on then Some pm else None)\<rparr>
      else (let flat = (if map_of (mt_flat t) pm = None \<and> FLAT_MAP_CAPACITY \<le> length (mt_flat t)
                        then tl (mt_flat t) else mt_flat t)
            in t\<lparr>mt_flat := index_insert pm on flat\<rparr>))"

definition apply_ris :: "ModeTracker \<Rightarrow> ModeTracker" where
  "apply_ris t =
     t\<lparr>mt_mouse_protocol := None, mt_sgr_encoding := None, mt_alt_buffer := None,
       mt_xt_modify_keys := [], mt_flat := filter (\<lambda>(pm, on). pm = CURSOR_VISIBILITY) (mt_flat t)\<rparr>"

definition apply_decstr :: "ModeTracker \<Rightarrow> ModeTracker" where
  "apply_decstr t = t\<lparr>mt_flat := fold shift_remove DECSTR_MODES (mt_flat t)\<rparr>"

fun apply_params :: "bool \<Rightarrow> utext list \<Rightarrow> ModeTracker \<Rightarrow> ModeTracker" where
  "apply_params on [] t = t"
| "apply_params on (raw # raws) t =
     apply_params on raws
       (if raw = [] then t
        else case parse_u32 raw of None \<Rightarrow> t | Some pm \<Rightarrow> apply_dec_private pm on t)"

definition set_modify_key :: "nat \<Rightarrow> nat \<Rightarrow> ModeTracker \<Rightarrow> ModeTracker" where
  "set_modify_key pm pv t =
     (let m = mt_xt_modify_keys t;
          m = (if 128 \<le> length m \<and> map_of m pm = None
               then (case m of [] \<Rightarrow> m | (pm0, pv0) # _ \<Rightarrow> shift_remove pm0 m) else m)
      in t\<lparr>mt_xt_modify_keys := index_insert pm pv m\<rparr>)"

definition apply_csi :: "utext \<Rightarrow> nat \<Rightarrow> ModeTracker \<Rightarrow> ModeTracker" where
  "apply_csi payload final_char t =
     (if final_char = 0x68 \<or> final_char = 0x6c then
        (case payload of
           c # params \<Rightarrow>
             if c = 0x3f \<and> is_param_list params
             then apply_params (final_char = 0x68) (split_on 0x3b params) t else t
         | [] \<Rightarrow> t)
      else if final_char = 0x6d then
        (case payload of
           c # params \<Rightarrow>
             if c = 0x3e \<and> is_param_list params
             then (case split_on 0x3b params of
                     [] \<Rightarrow> t
                   | raw # raws \<Rightarrow>
                       (case parse_u32 raw of
                          None \<Rightarrow> t
                        | Some pm \<Rightarrow>
                            set_modify_key pm
                              (case raws of
                                 [] \<Rightarrow> 0
                               | s # _ \<Rightarrow> if s = [] then 0 else case parse_u32 s of None \<Rightarrow> 0 | Some pv \<Rightarrow> pv) t))
             else t
         | [] \<Rightarrow> t)
      else if final_char = 0x70 \<and> payload = [0x21] then apply_decstr t
      else t)"

section \<open>The scanner\<close>

definition tracker_ground :: "ModeTracker \<Rightarrow> ModeTracker" where
  "tracker_ground t = t\<lparr>mt_state := ScanGround, mt_csi_payload := []\<rparr>"

definition tracker_csi :: "ModeTracker \<Rightarrow> ModeTracker" where
  "tracker_csi t = t\<lparr>mt_state := ScanCsi, mt_csi_payload := []\<rparr>"

definition enter_esc_from_csi :: "ModeTracker \<Rightarrow> ModeTracker" where
  "enter_esc_from_csi t = t\<lparr>mt_state := ScanEsc, mt_csi_payload := []\<rparr>"

definition tracker_step :: "nat \<Rightarrow> ModeTracker \<Rightarrow> ModeTracker" where
  "tracker_step ch t =
     (case mt_state t of
        ScanGround \<Rightarrow>
          (if ch = MT_ESC then t\<lparr>mt_state := ScanEsc\<rparr> else if ch = MT_CSI_C1 then tracker_csi t else t)
      | ScanEsc \<Rightarrow>
          (if ch = 0x5b then tracker_csi t
           else if ch = 0x63 then tracker_ground (apply_ris t)
           else if ch = MT_ESC then t
           else if ch = MT_CSI_C1 then tracker_csi t
           else tracker_ground t)
      | ScanCsi \<Rightarrow>
          (if is_csi_final ch
           then tracker_ground (apply_csi (mt_csi_payload t) ch (t\<lparr>mt_csi_payload := []\<rparr>))
           else if ch = MT_ESC then enter_esc_from_csi t
           else if ch = MT_CSI_C1 then tracker_csi t
           else if ch = MT_REPLACEMENT then tracker_ground t
           else (let payload = mt_csi_payload t @ [ch]; t = t\<lparr>mt_csi_payload := payload\<rparr> in
                 if PENDING_CARRY_LIMIT < length payload then tracker_ground t else t)))"

definition tracker_scan :: "utext \<Rightarrow> ModeTracker \<Rightarrow> ModeTracker" where
  "tracker_scan data t = fold tracker_step data t"

text \<open>The preamble: every armed mode ascending, then what was disarmed and must stay so.\<close>

definition csi_mode :: "nat \<Rightarrow> nat \<Rightarrow> utext" where
  "csi_mode pm final_char = [MT_ESC, 0x5b, 0x3f] @ decimal pm @ [final_char]"

definition enabled_modes :: "ModeTracker \<Rightarrow> nat list" where
  "enabled_modes t =
     (case mt_mouse_protocol t of None \<Rightarrow> [] | Some pm \<Rightarrow> [pm])
     @ (case mt_sgr_encoding t of None \<Rightarrow> [] | Some pm \<Rightarrow> [pm])
     @ (case mt_alt_buffer t of None \<Rightarrow> [] | Some pm \<Rightarrow> [pm])
     @ map fst (filter (\<lambda>(pm, on). on \<and> pm \<noteq> SYNCHRONIZED_OUTPUT \<and> pm \<noteq> SEND_FOCUS) (mt_flat t))"

definition synthesize :: "ModeTracker \<Rightarrow> utext" where
  "synthesize t =
     concat (map (\<lambda>pm. csi_mode pm 0x68) (sort (enabled_modes t)))
     @ (if map_of (mt_flat t) WRAPAROUND = Some False then csi_mode WRAPAROUND 0x6c else [])
     @ (if map_of (mt_flat t) CURSOR_VISIBILITY = Some False then csi_mode CURSOR_VISIBILITY 0x6c else [])"

text \<open>The tracker is a stream scanner: what it knows does not depend on how the output was cut.\<close>

definition tracker_feed :: "utext \<Rightarrow> ModeTracker \<Rightarrow> unit list \<times> ModeTracker" where
  "tracker_feed data t = ([], tracker_scan data t)"

interpretation tracker: stream_scanner "\<lambda>t. True" tracker_feed
  by unfold_locales (simp_all add: tracker_feed_def tracker_scan_def)

end
