(* ===== verification/Mode_Props.thy ===== *)
theory Mode_Props
  imports Mode_Tracker "HOL-Library.Multiset"
begin

text \<open>
  What the mode tracker promises: its tables stay within their bounds in every reachable state, and
  the preamble rebuilds on a fresh tracker, so on a fresh screen, exactly the modes that are to be
  restored.
\<close>

section \<open>Numbers\<close>

lemma parse_decimal: "n \<le> u32_max \<Longrightarrow> parse_u32 (decimal n) = Some n"
  using decimal_digits [of n] by (simp add: parse_u32_def)

lemma parse_u32_le: "parse_u32 ds = Some n \<Longrightarrow> n \<le> u32_max"
  by (auto simp: parse_u32_def split: if_splits)

lemma split_on_none: "c \<notin> set xs \<Longrightarrow> split_on c xs = [xs]"
  by (induction xs) auto

lemma split_on_sep: "c \<notin> set xs \<Longrightarrow> split_on c (xs @ c # ys) = xs # split_on c ys"
  by (induction xs) auto

lemma split_on_nonempty: "split_on c xs \<noteq> []"
  by (induction xs) (auto split: list.split)

section \<open>Insertion-ordered maps\<close>

lemma map_of_index_insert [simp]: "map_of (index_insert k v m) = (map_of m)(k \<mapsto> v)"
  by (induction k v m rule: index_insert.induct) (auto simp: fun_eq_iff)

lemma keys_index_insert: "map fst (index_insert k v m) = (if k \<in> fst ` set m then map fst m else map fst m @ [k])"
  by (induction k v m rule: index_insert.induct) auto

lemma index_insert_new: "k \<notin> fst ` set m \<Longrightarrow> index_insert k v m = m @ [(k, v)]"
  by (induction k v m rule: index_insert.induct) auto

lemma shift_remove_keys [simp]: "map fst (shift_remove k m) = filter (\<lambda>x. x \<noteq> k) (map fst m)"
  by (induction m) (auto simp: shift_remove_def)

lemma map_of_None_keys: "map_of m k = None \<longleftrightarrow> k \<notin> fst ` set m"
  by (simp add: map_of_eq_None_iff)

section \<open>Reachable trackers\<close>

abbreviation family_mode :: "nat \<Rightarrow> bool" where
  "family_mode pm \<equiv> pm \<in> set MOUSE_PROTOCOL_FAMILY \<union> set SGR_ENCODING_FAMILY \<union> set ALT_BUFFER_FAMILY"

definition table_ok :: "nat list \<Rightarrow> bool" where
  "table_ok ks = (distinct ks \<and> length ks \<le> FLAT_MAP_CAPACITY \<and> list_all (\<lambda>k. k \<le> u32_max) ks)"

definition tracker_wf :: "ModeTracker \<Rightarrow> bool" where
  "tracker_wf t =
     (set_option (mt_mouse_protocol t) \<subseteq> set MOUSE_PROTOCOL_FAMILY
      \<and> set_option (mt_sgr_encoding t) \<subseteq> set SGR_ENCODING_FAMILY
      \<and> set_option (mt_alt_buffer t) \<subseteq> set ALT_BUFFER_FAMILY
      \<and> table_ok (map fst (mt_flat t)) \<and> (\<forall>k \<in> fst ` set (mt_flat t). \<not> family_mode k)
      \<and> table_ok (map fst (mt_xt_modify_keys t))
      \<and> length (mt_csi_payload t) \<le> PENDING_CARRY_LIMIT
      \<and> (mt_state t = ScanCsi \<or> mt_csi_payload t = []))"

lemma table_ok_insert:
  assumes "table_ok ks" and "k \<le> u32_max" and "length ks < FLAT_MAP_CAPACITY"
  shows "table_ok (if k \<in> set ks then ks else ks @ [k])"
  using assms by (auto simp: table_ok_def)

lemma table_ok_filter: "table_ok ks \<Longrightarrow> table_ok (filter P ks)"
  using order_trans [OF length_filter_le [of P ks]] by (auto simp: table_ok_def list_all_iff)

lemma table_ok_tl: "table_ok ks \<Longrightarrow> table_ok (tl ks)"
  by (cases ks) (auto simp: table_ok_def)

text \<open>The two tables evict their oldest entry before they take a new one.\<close>

lemma table_put:
  assumes "table_ok (map fst m)" and "k \<le> u32_max"
    and "m' = (if map_of m k = None \<and> FLAT_MAP_CAPACITY \<le> length m then tl m else m)"
  shows "table_ok (map fst (index_insert k v m')) \<and> fst ` set (index_insert k v m') \<subseteq> insert k (fst ` set m)"
proof (cases "map_of m k = None \<and> FLAT_MAP_CAPACITY \<le> length m")
  case True
  then obtain x xs where m: "m = x # xs" by (cases m) (auto simp: FLAT_MAP_CAPACITY_def)
  have "table_ok (map fst xs @ [k])" and "k \<notin> fst ` set xs"
    using True assms(1,2) by (auto simp: m table_ok_def map_of_eq_None_iff simp del: map_of.simps)
  then show ?thesis using True by (auto simp: assms(3) m index_insert_new)
next
  case False
  then have "k \<in> fst ` set m \<or> length (map fst m) < FLAT_MAP_CAPACITY" by (auto simp: map_of_None_keys)
  moreover have "fst ` set (index_insert k v m) = set (map fst (index_insert k v m))" by simp
  ultimately show ?thesis
    using False assms table_ok_insert [OF assms(1,2)] by (auto simp: keys_index_insert)
qed

lemma wf_dec_private:
  assumes "tracker_wf t" and "pm \<le> u32_max"
  shows "tracker_wf (apply_dec_private pm on t)"
proof (cases "family_mode pm")
  case True
  then show ?thesis using assms(1) by (auto simp: tracker_wf_def apply_dec_private_def)
next
  case False
  let ?m = "if map_of (mt_flat t) pm = None \<and> FLAT_MAP_CAPACITY \<le> length (mt_flat t) then tl (mt_flat t) else mt_flat t"
  have "apply_dec_private pm on t = t\<lparr>mt_flat := index_insert pm on ?m\<rparr>"
    using False by (simp add: apply_dec_private_def Let_def)
  moreover have "table_ok (map fst (index_insert pm on ?m))" "\<forall>k \<in> fst ` set (index_insert pm on ?m). \<not> family_mode k"
    using table_put [of "mt_flat t" pm ?m on] assms False unfolding tracker_wf_def by blast+
  ultimately show ?thesis using assms(1) by (simp add: tracker_wf_def)
qed

lemma wf_params: "tracker_wf t \<Longrightarrow> tracker_wf (apply_params on raws t)"
  by (induction raws arbitrary: t) (auto simp: wf_dec_private dest: parse_u32_le split: option.split)

lemma wf_modify_key:
  assumes "tracker_wf t" and "pm \<le> u32_max"
  shows "tracker_wf (set_modify_key pm pv t)"
proof -
  let ?m = "mt_xt_modify_keys t"
  let ?m' = "if map_of ?m pm = None \<and> FLAT_MAP_CAPACITY \<le> length ?m then tl ?m else ?m"
  have "distinct (map fst ?m)" using assms(1) by (simp add: tracker_wf_def table_ok_def)
  then have "shift_remove (fst x) ?m = xs" if "?m = x # xs" for x xs
    unfolding shift_remove_def using that by (cases x) (force intro!: filter_True)
  then have "set_modify_key pm pv t = t\<lparr>mt_xt_modify_keys := index_insert pm pv ?m'\<rparr>"
    by (cases ?m) (auto simp: set_modify_key_def FLAT_MAP_CAPACITY_def Let_def split: prod.split)
  then show ?thesis using table_put [of ?m pm ?m' pv] assms by (auto simp: tracker_wf_def)
qed

lemma fold_shift_remove: "fold shift_remove ks m = filter (\<lambda>(k, v). k \<notin> set ks) m"
  by (induction ks arbitrary: m) (auto simp: shift_remove_def intro!: filter_cong)

lemma keys_filter: "map fst (filter (\<lambda>(k, v). P k) m) = filter P (map fst m)"
  by (induction m) auto

lemma wf_csi: "tracker_wf t \<Longrightarrow> tracker_wf (apply_csi payload final_char t)"
proof -
  assume wf: "tracker_wf t"
  have "tracker_wf (apply_decstr t)"
    using wf table_ok_filter [of "map fst (mt_flat t)" "\<lambda>k. k \<notin> set DECSTR_MODES"]
    by (auto simp: tracker_wf_def apply_decstr_def fold_shift_remove keys_filter)
  with wf show ?thesis
    by (auto simp: apply_csi_def wf_params wf_modify_key dest: parse_u32_le split: list.split option.split)
qed

lemma wf_ris: "tracker_wf t \<Longrightarrow> tracker_wf (apply_ris t)"
  using table_ok_filter [of "map fst (mt_flat t)" "\<lambda>k. k = CURSOR_VISIBILITY"]
  by (auto simp: tracker_wf_def apply_ris_def keys_filter table_ok_def)

lemma wf_states:
  "tracker_wf t \<Longrightarrow> tracker_wf (tracker_ground t)" "tracker_wf t \<Longrightarrow> tracker_wf (tracker_csi t)"
  "tracker_wf t \<Longrightarrow> tracker_wf (enter_esc_from_csi t)" "tracker_wf t \<Longrightarrow> tracker_wf (t\<lparr>mt_csi_payload := []\<rparr>)"
  by (simp_all add: tracker_wf_def tracker_ground_def tracker_csi_def enter_esc_from_csi_def)

lemma wf_step: "tracker_wf t \<Longrightarrow> tracker_wf (tracker_step ch t)"
proof (cases "mt_state t")
  case ScanGround
  assume wf: "tracker_wf t"
  then have "tracker_wf (t\<lparr>mt_state := ScanEsc\<rparr>)" using ScanGround by (simp add: tracker_wf_def)
  then show ?thesis using wf ScanGround by (simp add: tracker_step_def wf_states)
next
  case ScanEsc
  then show "tracker_wf t \<Longrightarrow> ?thesis" by (simp add: tracker_step_def wf_states wf_ris)
next
  case ScanCsi
  let ?p = "mt_csi_payload t @ [ch]"
  assume wf: "tracker_wf t"
  have "tracker_wf (t\<lparr>mt_csi_payload := ?p\<rparr>)" if "length ?p \<le> PENDING_CARRY_LIMIT"
    using wf that ScanCsi by (simp add: tracker_wf_def)
  moreover have "tracker_wf (tracker_ground (t\<lparr>mt_csi_payload := ?p\<rparr>))"
    using wf by (simp add: tracker_wf_def tracker_ground_def)
  ultimately show ?thesis
    using wf ScanCsi by (simp add: tracker_step_def wf_states wf_csi not_less Let_def)
qed

lemma wf_scan: "tracker_wf t \<Longrightarrow> tracker_wf (tracker_scan data t)"
  unfolding tracker_scan_def by (induction data arbitrary: t) (simp_all add: wf_step)

lemma wf_new: "tracker_wf tracker_new"
  by (simp add: tracker_wf_def tracker_new_def table_ok_def)

text \<open>Whatever a program writes, the tracker stays within its bounds: at most 64 characters of an
  unfinished sequence, none outside one, at most 128 remembered modes and 128 modified keys, each once
  and each a 32-bit number, and the three family slots hold only members of their family, none of
  which is in the table.\<close>

theorem tracker_bounded: "tracker_wf (tracker_scan data tracker_new)"
  by (rule wf_scan [OF wf_new])

section \<open>Arming modes\<close>

lemma scan_append: "tracker_scan (xs @ ys) t = tracker_scan ys (tracker_scan xs t)"
  by (simp add: tracker_scan_def)

text \<open>Parameters are collected and, at the final character, applied one by one.\<close>

lemma digit_not_special: "is_digit c \<Longrightarrow> \<not> is_csi_final c \<and> c \<noteq> MT_ESC \<and> c \<noteq> MT_CSI_C1 \<and> c \<noteq> MT_REPLACEMENT \<and> c \<noteq> 0x3b"
  by (simp add: is_digit_def is_csi_final_def mode_chars)

lemma collect_payload:
  assumes "mt_state t = ScanCsi" and "list_all (\<lambda>c. is_digit c \<or> c = 0x3b \<or> c = 0x3f) p"
    and "length (mt_csi_payload t) + length p \<le> PENDING_CARRY_LIMIT"
  shows "tracker_scan p t = t\<lparr>mt_csi_payload := mt_csi_payload t @ p\<rparr>"
  using assms
proof (induction p arbitrary: t)
  case Nil
  then show ?case by (simp add: tracker_scan_def)
next
  case (Cons c p)
  have "\<not> is_csi_final c \<and> c \<noteq> MT_ESC \<and> c \<noteq> MT_CSI_C1 \<and> c \<noteq> MT_REPLACEMENT"
    using Cons.prems(2) digit_not_special [of c] by (auto simp: is_csi_final_def mode_chars)
  then have "tracker_step c t = t\<lparr>mt_csi_payload := mt_csi_payload t @ [c]\<rparr>"
    using Cons.prems(1,3) by (simp add: tracker_step_def)
  then show ?case
    using Cons.IH [of "t\<lparr>mt_csi_payload := mt_csi_payload t @ [c]\<rparr>"] Cons.prems by (simp add: tracker_scan_def)
qed

fun join_params :: "nat list \<Rightarrow> utext" where
  "join_params [] = []"
| "join_params [pm] = decimal pm"
| "join_params (pm # pms) = decimal pm @ 0x3b # join_params pms"

lemma decimal_plain: "0x3b \<notin> set (decimal pm)"
  using decimal_digits [of pm] by (auto simp: list_all_iff is_digit_def)

lemma join_split: "pms \<noteq> [] \<Longrightarrow> split_on 0x3b (join_params pms) = map decimal pms"
  by (induction pms rule: join_params.induct) (simp_all add: split_on_none split_on_sep decimal_plain)

lemma join_params_chars: "list_all (\<lambda>c. is_digit c \<or> c = 0x3b) (join_params pms)"
  using decimal_digits by (induction pms rule: join_params.induct) (auto simp: list_all_iff)

lemma apply_decimals:
  "list_all (\<lambda>pm. pm \<le> u32_max) pms \<Longrightarrow> apply_params on (map decimal pms) t = fold (\<lambda>pm. apply_dec_private pm on) pms t"
  using decimal_digits by (induction pms arbitrary: t) (auto simp: parse_decimal)

lemma dec_private_state [simp]:
  "mt_state (apply_dec_private pm on t) = mt_state t"
  "mt_csi_payload (apply_dec_private pm on t) = mt_csi_payload t"
  by (simp_all add: apply_dec_private_def Let_def)

lemma dec_private_commutes:
  "apply_dec_private pm on (t\<lparr>mt_state := st, mt_csi_payload := p\<rparr>) = (apply_dec_private pm on t)\<lparr>mt_state := st, mt_csi_payload := p\<rparr>"
  by (simp add: apply_dec_private_def Let_def)

lemma fold_dec_private_commutes:
  "fold (\<lambda>pm. apply_dec_private pm on) pms (t\<lparr>mt_state := st, mt_csi_payload := p\<rparr>)
     = (fold (\<lambda>pm. apply_dec_private pm on) pms t)\<lparr>mt_state := st, mt_csi_payload := p\<rparr>"
  by (induction pms arbitrary: t) (simp_all add: dec_private_commutes)

lemma scan_mode_list:
  assumes "mt_state t = ScanGround" and "pms \<noteq> []" and "list_all (\<lambda>pm. pm \<le> u32_max) pms"
    and "length (join_params pms) < PENDING_CARRY_LIMIT" and "final_char = (if on then 0x68 else 0x6c)"
  shows "tracker_scan ([MT_ESC, 0x5b, 0x3f] @ join_params pms @ [final_char]) t
    = (fold (\<lambda>pm. apply_dec_private pm on) pms t)\<lparr>mt_state := ScanGround, mt_csi_payload := []\<rparr>"
proof -
  let ?p = "0x3f # join_params pms"
  have final: "is_csi_final final_char" using assms(5) by (simp add: is_csi_final_def)
  have open_csi: "tracker_scan [MT_ESC, 0x5b] t = t\<lparr>mt_state := ScanCsi, mt_csi_payload := []\<rparr>"
    using assms(1) by (simp add: tracker_scan_def tracker_step_def tracker_csi_def mode_chars)
  have collect: "tracker_scan ?p (t\<lparr>mt_state := ScanCsi, mt_csi_payload := []\<rparr>)
      = t\<lparr>mt_state := ScanCsi, mt_csi_payload := ?p\<rparr>"
    using assms(4) join_params_chars [of pms] by (subst collect_payload) (auto simp: list_all_iff)
  have "is_param_list (join_params pms)" using join_params_chars by (simp add: is_param_list_def)
  then have dispatch: "apply_csi ?p final_char t' = fold (\<lambda>pm. apply_dec_private pm on) pms t'" for t'
    using assms(2,3,5) by (simp add: apply_csi_def join_split apply_decimals)
  have "tracker_scan [final_char] (t\<lparr>mt_state := ScanCsi, mt_csi_payload := ?p\<rparr>)
      = tracker_ground (fold (\<lambda>pm. apply_dec_private pm on) pms (t\<lparr>mt_state := ScanCsi, mt_csi_payload := []\<rparr>))"
    using final by (simp add: tracker_scan_def tracker_step_def dispatch)
  also have "\<dots> = (fold (\<lambda>pm. apply_dec_private pm on) pms t)\<lparr>mt_state := ScanGround, mt_csi_payload := []\<rparr>"
    by (simp add: tracker_ground_def fold_dec_private_commutes)
  finally show ?thesis
    using scan_append [of "[MT_ESC, 0x5b]" "?p @ [final_char]" t] scan_append [of ?p "[final_char]"]
    by (simp add: open_csi collect)
qed

section \<open>The preamble\<close>

definition slot :: "nat option \<Rightarrow> nat list \<Rightarrow> nat option" where
  "slot old pms = (if pms = [] then old else Some (last pms))"

lemma slot_Cons: "slot old (pm # pms) = slot (Some pm) pms"
  by (simp add: slot_def)

lemma slot_Nil [simp]: "slot old [] = old"
  by (simp add: slot_def)

definition plain_modes :: "nat list \<Rightarrow> nat list" where
  "plain_modes pms = filter (\<lambda>pm. \<not> family_mode pm) pms"

lemma families_disjoint:
  "pm \<in> set MOUSE_PROTOCOL_FAMILY \<Longrightarrow> pm \<notin> set SGR_ENCODING_FAMILY \<and> pm \<notin> set ALT_BUFFER_FAMILY"
  "pm \<in> set SGR_ENCODING_FAMILY \<Longrightarrow> pm \<notin> set ALT_BUFFER_FAMILY"
  by (auto simp: families)

text \<open>Arming fresh modes fills the slots with the last of each family and appends the others.\<close>

lemma fold_arm:
  assumes "distinct pms" and "set (plain_modes pms) \<inter> fst ` set (mt_flat t) = {}"
    and "length (mt_flat t) + length (plain_modes pms) \<le> FLAT_MAP_CAPACITY"
  shows "fold (\<lambda>pm. apply_dec_private pm True) pms t =
    t\<lparr>mt_mouse_protocol := slot (mt_mouse_protocol t) (filter (\<lambda>pm. pm \<in> set MOUSE_PROTOCOL_FAMILY) pms),
      mt_sgr_encoding := slot (mt_sgr_encoding t) (filter (\<lambda>pm. pm \<in> set SGR_ENCODING_FAMILY) pms),
      mt_alt_buffer := slot (mt_alt_buffer t) (filter (\<lambda>pm. pm \<in> set ALT_BUFFER_FAMILY) pms),
      mt_flat := mt_flat t @ map (\<lambda>pm. (pm, True)) (plain_modes pms)\<rparr>"
  using assms
proof (induction pms arbitrary: t)
  case Nil
  then show ?case by (simp add: plain_modes_def)
next
  case (Cons pm pms)
  note disjoint = families_disjoint [of pm]
  show ?case
  proof (cases "family_mode pm")
    case True
    then have plain: "plain_modes (pm # pms) = plain_modes pms" by (simp add: plain_modes_def)
    have IH: "fold (\<lambda>pm. apply_dec_private pm True) pms u =
      u\<lparr>mt_mouse_protocol := slot (mt_mouse_protocol u) (filter (\<lambda>pm. pm \<in> set MOUSE_PROTOCOL_FAMILY) pms),
        mt_sgr_encoding := slot (mt_sgr_encoding u) (filter (\<lambda>pm. pm \<in> set SGR_ENCODING_FAMILY) pms),
        mt_alt_buffer := slot (mt_alt_buffer u) (filter (\<lambda>pm. pm \<in> set ALT_BUFFER_FAMILY) pms),
        mt_flat := mt_flat u @ map (\<lambda>pm. (pm, True)) (plain_modes pms)\<rparr>" if "mt_flat u = mt_flat t" for u
      using Cons.IH [of u] Cons.prems that unfolding plain by simp
    from True consider "pm \<in> set MOUSE_PROTOCOL_FAMILY" | "pm \<in> set SGR_ENCODING_FAMILY" | "pm \<in> set ALT_BUFFER_FAMILY"
      by blast
    then show ?thesis
      by cases (use disjoint in \<open>auto simp: apply_dec_private_def [of pm True t] plain slot_Cons IH\<close>)
  next
    case False
    then have plain: "plain_modes (pm # pms) = pm # plain_modes pms" by (simp add: plain_modes_def)
    have new: "pm \<notin> fst ` set (mt_flat t)" and room: "length (mt_flat t) < FLAT_MAP_CAPACITY"
      using Cons.prems(2,3) unfolding plain by auto
    then have step: "apply_dec_private pm True t = t\<lparr>mt_flat := mt_flat t @ [(pm, True)]\<rparr>"
      using False by (simp add: apply_dec_private_def index_insert_new Let_def)
    have "pm \<notin> set (plain_modes pms)" using Cons.prems(1) by (simp add: plain_modes_def)
    then have "set (plain_modes pms) \<inter> fst ` set (mt_flat t @ [(pm, True)]) = {}"
      using Cons.prems(2) unfolding plain by auto
    then have "fold (\<lambda>pm. apply_dec_private pm True) pms (t\<lparr>mt_flat := mt_flat t @ [(pm, True)]\<rparr>) =
      t\<lparr>mt_mouse_protocol := slot (mt_mouse_protocol t) (filter (\<lambda>pm. pm \<in> set MOUSE_PROTOCOL_FAMILY) pms),
        mt_sgr_encoding := slot (mt_sgr_encoding t) (filter (\<lambda>pm. pm \<in> set SGR_ENCODING_FAMILY) pms),
        mt_alt_buffer := slot (mt_alt_buffer t) (filter (\<lambda>pm. pm \<in> set ALT_BUFFER_FAMILY) pms),
        mt_flat := (mt_flat t @ [(pm, True)]) @ map (\<lambda>pm. (pm, True)) (plain_modes pms)\<rparr>"
      using Cons.IH [of "t\<lparr>mt_flat := mt_flat t @ [(pm, True)]\<rparr>"] Cons.prems(1,3) unfolding plain by simp
    then show ?thesis using False by (simp add: step plain)
  qed
qed

lemma tracker_at_rest:
  "mt_state u = ScanGround \<Longrightarrow> mt_csi_payload u = [] \<Longrightarrow> u\<lparr>mt_state := ScanGround, mt_csi_payload := []\<rparr> = u"
  by (cases u) simp

lemma scan_csi_modes:
  assumes "mt_state t = ScanGround" and "mt_csi_payload t = []" and "list_all (\<lambda>pm. pm \<le> u32_max) pms"
    and "final_char = (if on then 0x68 else 0x6c)"
  shows "tracker_scan (concat (map (\<lambda>pm. csi_mode pm final_char) pms)) t = fold (\<lambda>pm. apply_dec_private pm on) pms t"
  using assms(1-3)
proof (induction pms arbitrary: t)
  case (Cons pm pms)
  have "pm < 10 ^ Suc 9" using Cons.prems(3) by (simp add: u32_max_def)
  then have "length (join_params [pm]) < PENDING_CARRY_LIMIT"
    using decimal_width [of pm 9] by (simp add: PENDING_CARRY_LIMIT_def)
  then have "tracker_scan (csi_mode pm final_char) t = (apply_dec_private pm on t)\<lparr>mt_state := ScanGround, mt_csi_payload := []\<rparr>"
    using scan_mode_list [of t "[pm]" final_char on] Cons.prems assms(4) by (simp add: csi_mode_def)
  also have "\<dots> = apply_dec_private pm on t"
    using Cons.prems(1,2) by (intro tracker_at_rest) simp_all
  finally show ?case using Cons by (simp add: scan_append)
qed (simp add: tracker_scan_def)

text \<open>What the preamble carries of one remembered mode.\<close>

definition restored :: "nat \<Rightarrow> bool option \<Rightarrow> bool option" where
  "restored pm v =
     (case v of
        Some True \<Rightarrow> if pm = SYNCHRONIZED_OUTPUT \<or> pm = SEND_FOCUS then None else Some True
      | Some False \<Rightarrow> if pm = WRAPAROUND \<or> pm = CURSOR_VISIBILITY then Some False else None
      | None \<Rightarrow> None)"

definition armed_flat :: "ModeTracker \<Rightarrow> nat list" where
  "armed_flat t = map fst (filter (\<lambda>(pm, on). on \<and> pm \<noteq> SYNCHRONIZED_OUTPUT \<and> pm \<noteq> SEND_FOCUS) (mt_flat t))"

definition disarmed_flat :: "ModeTracker \<Rightarrow> nat list" where
  "disarmed_flat t =
     (if map_of (mt_flat t) WRAPAROUND = Some False then [WRAPAROUND] else [])
     @ (if map_of (mt_flat t) CURSOR_VISIBILITY = Some False then [CURSOR_VISIBILITY] else [])"

definition slots :: "ModeTracker \<Rightarrow> nat list" where
  "slots t = (case mt_mouse_protocol t of None \<Rightarrow> [] | Some pm \<Rightarrow> [pm])
     @ (case mt_sgr_encoding t of None \<Rightarrow> [] | Some pm \<Rightarrow> [pm])
     @ (case mt_alt_buffer t of None \<Rightarrow> [] | Some pm \<Rightarrow> [pm])"

lemma enabled_split: "enabled_modes t = slots t @ armed_flat t"
  by (simp add: enabled_modes_def slots_def armed_flat_def)

lemma synthesize_split:
  "synthesize t = concat (map (\<lambda>pm. csi_mode pm 0x68) (sort (enabled_modes t)))
     @ concat (map (\<lambda>pm. csi_mode pm 0x6c) (disarmed_flat t))"
  by (simp add: synthesize_def disarmed_flat_def)

lemma wf_flat:
  assumes "tracker_wf t"
  shows "distinct (map fst (mt_flat t))" and "length (mt_flat t) \<le> FLAT_MAP_CAPACITY"
    and "\<forall>k \<in> fst ` set (mt_flat t). k \<le> u32_max" and "\<forall>k \<in> fst ` set (mt_flat t). \<not> family_mode k"
  using assms by (simp_all add: tracker_wf_def table_ok_def list_all_iff)

lemma armed_flat_iff:
  "tracker_wf t \<Longrightarrow> pm \<in> set (armed_flat t) \<longleftrightarrow> map_of (mt_flat t) pm = Some True \<and> pm \<noteq> SYNCHRONIZED_OUTPUT \<and> pm \<noteq> SEND_FOCUS"
  using wf_flat(1) [of t] by (auto simp: armed_flat_def map_of_eq_Some_iff image_iff Bex_def)

lemma disarmed_flat_iff:
  "pm \<in> set (disarmed_flat t) \<longleftrightarrow> map_of (mt_flat t) pm = Some False \<and> (pm = WRAPAROUND \<or> pm = CURSOR_VISIBILITY)"
  by (auto simp: disarmed_flat_def)

lemma flat_lists:
  assumes "tracker_wf t"
  shows "distinct (armed_flat t @ disarmed_flat t)" and "length (armed_flat t @ disarmed_flat t) \<le> FLAT_MAP_CAPACITY"
    and "list_all (\<lambda>pm. pm \<le> u32_max \<and> \<not> family_mode pm) (armed_flat t @ disarmed_flat t)"
proof -
  have sub: "set (armed_flat t @ disarmed_flat t) \<subseteq> fst ` set (mt_flat t)"
    by (auto simp: armed_flat_iff [OF assms] disarmed_flat_iff dest!: map_of_SomeD intro: rev_image_eqI)
  have "distinct (armed_flat t)" using wf_flat(1) [OF assms] by (simp add: armed_flat_def distinct_map_filter)
  moreover have "distinct (disarmed_flat t)" by (simp add: disarmed_flat_def special_modes)
  moreover have "set (armed_flat t) \<inter> set (disarmed_flat t) = {}"
    by (auto simp: armed_flat_iff [OF assms] disarmed_flat_iff)
  ultimately show d: "distinct (armed_flat t @ disarmed_flat t)" by simp
  have "card (set (armed_flat t @ disarmed_flat t)) \<le> card (fst ` set (mt_flat t))"
    using sub by (intro card_mono) simp_all
  also have "\<dots> \<le> length (mt_flat t)" using card_length [of "map fst (mt_flat t)"] by simp
  finally show "length (armed_flat t @ disarmed_flat t) \<le> FLAT_MAP_CAPACITY"
    using wf_flat(2) [OF assms] distinct_card [OF d] by simp
  show "list_all (\<lambda>pm. pm \<le> u32_max \<and> \<not> family_mode pm) (armed_flat t @ disarmed_flat t)"
    using sub wf_flat(3,4) [OF assms] unfolding list_all_iff by blast
qed

lemma slots_filter:
  assumes "tracker_wf t"
  shows "filter (\<lambda>pm. pm \<in> set MOUSE_PROTOCOL_FAMILY) (slots t) = (case mt_mouse_protocol t of None \<Rightarrow> [] | Some pm \<Rightarrow> [pm])"
    and "filter (\<lambda>pm. pm \<in> set SGR_ENCODING_FAMILY) (slots t) = (case mt_sgr_encoding t of None \<Rightarrow> [] | Some pm \<Rightarrow> [pm])"
    and "filter (\<lambda>pm. pm \<in> set ALT_BUFFER_FAMILY) (slots t) = (case mt_alt_buffer t of None \<Rightarrow> [] | Some pm \<Rightarrow> [pm])"
    and "plain_modes (slots t) = []" and "distinct (slots t)" and "\<forall>pm \<in> set (slots t). family_mode pm"
proof -
  have in_family: "set_option (mt_mouse_protocol t) \<subseteq> set MOUSE_PROTOCOL_FAMILY"
    "set_option (mt_sgr_encoding t) \<subseteq> set SGR_ENCODING_FAMILY" "set_option (mt_alt_buffer t) \<subseteq> set ALT_BUFFER_FAMILY"
    using assms by (simp_all add: tracker_wf_def)
  show "filter (\<lambda>pm. pm \<in> set MOUSE_PROTOCOL_FAMILY) (slots t) = (case mt_mouse_protocol t of None \<Rightarrow> [] | Some pm \<Rightarrow> [pm])"
    "filter (\<lambda>pm. pm \<in> set SGR_ENCODING_FAMILY) (slots t) = (case mt_sgr_encoding t of None \<Rightarrow> [] | Some pm \<Rightarrow> [pm])"
    "filter (\<lambda>pm. pm \<in> set ALT_BUFFER_FAMILY) (slots t) = (case mt_alt_buffer t of None \<Rightarrow> [] | Some pm \<Rightarrow> [pm])"
    "plain_modes (slots t) = []" "distinct (slots t)" "\<forall>pm \<in> set (slots t). family_mode pm"
    using in_family families_disjoint
    by (cases "mt_mouse_protocol t"; cases "mt_sgr_encoding t"; cases "mt_alt_buffer t";
      auto simp: slots_def plain_modes_def)+
qed

lemma sort_cong_mset: "mset xs = mset ys \<Longrightarrow> sort xs = sort (ys :: nat list)"
  by (rule properties_for_sort) simp_all

lemma slot_option: "slot None (case x of None \<Rightarrow> [] | Some pm \<Rightarrow> [pm]) = x"
  by (simp add: slot_def split: option.split)

text \<open>The tracker that has scanned the preamble and nothing else.\<close>

definition after_preamble :: "ModeTracker \<Rightarrow> ModeTracker" where
  "after_preamble t =
     tracker_new\<lparr>mt_mouse_protocol := mt_mouse_protocol t, mt_sgr_encoding := mt_sgr_encoding t,
       mt_alt_buffer := mt_alt_buffer t,
       mt_flat := map (\<lambda>pm. (pm, True)) (sort (armed_flat t)) @ map (\<lambda>pm. (pm, False)) (disarmed_flat t)\<rparr>"

lemma apply_disarmed:
  assumes "distinct pms" and "list_all (\<lambda>pm. \<not> family_mode pm \<and> pm \<notin> fst ` set (mt_flat t)) pms"
    and "length (mt_flat t) + length pms \<le> FLAT_MAP_CAPACITY"
  shows "fold (\<lambda>pm. apply_dec_private pm False) pms t = t\<lparr>mt_flat := mt_flat t @ map (\<lambda>pm. (pm, False)) pms\<rparr>"
  using assms
proof (induction pms arbitrary: t)
  case (Cons pm pms)
  have "apply_dec_private pm False t = t\<lparr>mt_flat := mt_flat t @ [(pm, False)]\<rparr>"
    using Cons.prems(2,3) by (simp add: apply_dec_private_def index_insert_new Let_def)
  moreover have "list_all (\<lambda>q. \<not> family_mode q \<and> q \<notin> fst ` set (mt_flat t @ [(pm, False)])) pms"
    using Cons.prems(1,2) by (auto simp: list_all_iff)
  ultimately show ?case
    using Cons.IH [of "t\<lparr>mt_flat := mt_flat t @ [(pm, False)]\<rparr>"] Cons.prems(1,3) by simp
qed simp

lemma family_u32: "family_mode pm \<Longrightarrow> pm \<le> u32_max"
  by (auto simp: families u32_max_def)

lemma map_of_const: "map_of (map (\<lambda>x. (x, c)) xs) k = (if k \<in> set xs then Some c else None)"
  by (induction xs) auto

lemma scan_preamble:
  assumes wf: "tracker_wf t"
  shows "tracker_scan (synthesize t) tracker_new = after_preamble t"
proof -
  let ?es = "sort (enabled_modes t)" and ?ks = "sort (armed_flat t)"
  note lists = flat_lists [OF wf] and slots = slots_filter [OF wf]
  have not_family: "\<forall>pm \<in> set (armed_flat t). \<not> family_mode pm" using lists(3) by (auto simp: list_all_iff)
  have none: "filter (\<lambda>pm. pm \<in> set MOUSE_PROTOCOL_FAMILY) (armed_flat t) = []"
    "filter (\<lambda>pm. pm \<in> set SGR_ENCODING_FAMILY) (armed_flat t) = []"
    "filter (\<lambda>pm. pm \<in> set ALT_BUFFER_FAMILY) (armed_flat t) = []"
    using not_family by (auto simp: filter_empty_conv)
  have "plain_modes (armed_flat t) = armed_flat t" using not_family by (simp add: plain_modes_def)
  then have plain: "plain_modes ?es = ?ks"
    using slots(4) by (simp add: plain_modes_def enabled_split filter_sort)
  have "distinct (enabled_modes t)"
    using slots(5,6) not_family lists(1) by (auto simp: enabled_split)
  then have "distinct ?es" by simp
  moreover have "length ?ks \<le> FLAT_MAP_CAPACITY" using lists(2) by simp
  moreover have filters: "filter (\<lambda>pm. pm \<in> set MOUSE_PROTOCOL_FAMILY) ?es = (case mt_mouse_protocol t of None \<Rightarrow> [] | Some pm \<Rightarrow> [pm])"
    "filter (\<lambda>pm. pm \<in> set SGR_ENCODING_FAMILY) ?es = (case mt_sgr_encoding t of None \<Rightarrow> [] | Some pm \<Rightarrow> [pm])"
    "filter (\<lambda>pm. pm \<in> set ALT_BUFFER_FAMILY) ?es = (case mt_alt_buffer t of None \<Rightarrow> [] | Some pm \<Rightarrow> [pm])"
    using slots(1-3) none by (simp_all add: enabled_split filter_sort split: option.split)
  ultimately have arm: "fold (\<lambda>pm. apply_dec_private pm True) ?es tracker_new =
      tracker_new\<lparr>mt_mouse_protocol := mt_mouse_protocol t, mt_sgr_encoding := mt_sgr_encoding t,
        mt_alt_buffer := mt_alt_buffer t, mt_flat := map (\<lambda>pm. (pm, True)) ?ks\<rparr>" (is "_ = ?u")
    using fold_arm [of ?es tracker_new] by (simp add: plain tracker_new_def slot_option)
  have small: "list_all (\<lambda>pm. pm \<le> u32_max) ?es"
    using lists(3) slots(6) family_u32 unfolding enabled_split list_all_iff by auto
  have "fold (\<lambda>pm. apply_dec_private pm False) (disarmed_flat t) ?u = after_preamble t"
    using apply_disarmed [of "disarmed_flat t" ?u] lists
    by (auto simp: after_preamble_def tracker_new_def list_all_iff image_iff)
  moreover have "tracker_scan (synthesize t) tracker_new =
      tracker_scan (concat (map (\<lambda>pm. csi_mode pm 0x6c) (disarmed_flat t))) ?u"
    using scan_csi_modes [of tracker_new ?es "0x68" True] small arm
    by (simp add: synthesize_split scan_append) (simp add: tracker_new_def)
  moreover have "\<dots> = fold (\<lambda>pm. apply_dec_private pm False) (disarmed_flat t) ?u"
    using lists(3) by (intro scan_csi_modes) (auto simp: tracker_new_def list_all_iff)
  ultimately show ?thesis by simp
qed

text \<open>C27: the preamble restores the terminal. After any output, cut in any way, scanning the
  preamble on a fresh tracker gives back the same mouse protocol, mouse encoding and alternate screen,
  every other armed mode except the two that must not be replayed, and the disabled wrap and hidden
  cursor; no other mode is touched, no sequence is left open, and the preamble of the restored state is
  the same preamble again.\<close>

theorem preamble_restores_modes:
  shows "let t = snd (feed_all tracker_feed chunks tracker_new); t' = tracker_scan (synthesize t) tracker_new in
    mt_state t' = ScanGround \<and> mt_csi_payload t' = []
    \<and> mt_mouse_protocol t' = mt_mouse_protocol t \<and> mt_sgr_encoding t' = mt_sgr_encoding t
    \<and> mt_alt_buffer t' = mt_alt_buffer t
    \<and> (\<forall>pm. map_of (mt_flat t') pm = restored pm (map_of (mt_flat t) pm))
    \<and> synthesize t' = synthesize t"
proof -
  define t where "t = tracker_scan (concat chunks) tracker_new"
  have feeds: "snd (feed_all tracker_feed chunks tracker_new) = t"
    by (simp add: tracker.feeds_concat t_def tracker_feed_def)
  have wf: "tracker_wf t" unfolding t_def by (rule wf_scan [OF wf_new])
  let ?t' = "after_preamble t"
  have flat: "map_of (mt_flat ?t') pm = restored pm (map_of (mt_flat t) pm)" for pm
  proof -
    have "map_of (mt_flat ?t') pm = (if pm \<in> set (disarmed_flat t) \<and> pm \<notin> set (armed_flat t) then Some False
        else if pm \<in> set (armed_flat t) then Some True else None)"
      by (auto simp: after_preamble_def map_add_def map_of_const split: option.split)
    then show ?thesis
      by (auto simp: armed_flat_iff [OF wf] disarmed_flat_iff restored_def split: option.split bool.split)
  qed
  have armed: "armed_flat ?t' = sort (armed_flat t)"
    by (auto simp: armed_flat_def after_preamble_def filter_map comp_def filter_empty_conv intro!: filter_True)
  have "slots ?t' = slots t" by (simp add: slots_def after_preamble_def)
  then have "sort (enabled_modes ?t') = sort (enabled_modes t)"
    by (intro sort_cong_mset) (simp add: enabled_split armed)
  moreover have "disarmed_flat ?t' = disarmed_flat t"
    by (auto simp: disarmed_flat_def flat restored_def split: option.split bool.split)
  ultimately have "synthesize ?t' = synthesize t" by (simp add: synthesize_split)
  then show ?thesis
    using flat by (simp add: feeds scan_preamble [OF wf] Let_def) (simp add: after_preamble_def tracker_new_def)
qed

end
