(* ===== verification/Idle_Noise.thy ===== *)
theory Idle_Noise
  imports Text_Units Stream_Scanner
begin

text \<open>
  The fingerprints that tell a terminal's repaints from its output
  (crates/freshell-terminal/src/idle_noise.rs). A detached terminal that only repaints may be reaped;
  so a frame is meaningful unless its significant characters repeat one of the last 32 distinct frames.
\<close>

section \<open>Data\<close>

definition RECENT_FINGERPRINTS :: nat where "RECENT_FINGERPRINTS = 32"

datatype NoiseMode = NoiseGround | NoiseEsc | NoiseCsi | StringBody | StringEsc

record Fingerprint =
  fp_hash :: u64
  fp_count :: nat

definition FNV_OFFSET_BASIS :: u64 where "FNV_OFFSET_BASIS = 0xcbf29ce484222325"
definition FNV_PRIME :: u64 where "FNV_PRIME = 0x00000100000001b3"

definition spinner_glyphs :: "nat list" where
  "spinner_glyphs =
     [0x273b, 0x273d, 0x2733, 0x2722, 0x2736, 0xb7, 0x2022, 0x25e6, 0x2217, 0x2a, 0x7c, 0x2f, 0x2d, 0x5c,
      0x25cf, 0x25cb, 0x25d0, 0x25d3, 0x25d1, 0x25d2, 0x25f4, 0x25f5, 0x25f6, 0x25f7]"

definition is_significant :: "nat \<Rightarrow> bool" where
  "is_significant ch =
     (if is_whitespace ch \<or> 0x30 \<le> ch \<and> ch \<le> 0x39 then False
      else if 0x2800 \<le> ch \<and> ch \<le> 0x28ff then False
      else ch \<notin> set spinner_glyphs)"

record NoiseScanner =
  ns_mode :: NoiseMode
  ns_recent :: "Fingerprint list"

definition noise_new :: NoiseScanner where
  "noise_new = \<lparr>ns_mode = NoiseGround, ns_recent = []\<rparr>"

section \<open>The scanner\<close>

definition hash_byte :: "nat \<Rightarrow> u64 \<Rightarrow> u64" where
  "hash_byte b hash = xor hash (of_nat b) * FNV_PRIME"

definition absorb :: "nat \<Rightarrow> Fingerprint \<Rightarrow> Fingerprint" where
  "absorb ch fp = \<lparr>fp_hash = fold hash_byte (encode_char ch) (fp_hash fp), fp_count = saturating_add_u32 (fp_count fp) 1\<rparr>"

definition noise_step :: "nat \<Rightarrow> NoiseMode \<times> Fingerprint \<Rightarrow> NoiseMode \<times> Fingerprint" where
  "noise_step cp = (\<lambda>(mode, fp).
     case mode of
       NoiseGround \<Rightarrow>
         (if cp = 0x1b then (NoiseEsc, fp)
          else if cp < 0x20 \<or> cp = 0x7f \<or> 0x80 \<le> cp \<and> cp \<le> 0x9f then (NoiseGround, fp)
          else if is_significant cp then (NoiseGround, absorb cp fp)
          else (NoiseGround, fp))
     | NoiseEsc \<Rightarrow>
         (if cp = 0x1b then NoiseEsc
          else if cp = 0x5b then NoiseCsi
          else if cp = 0x5d \<or> cp = 0x50 \<or> cp = 0x5f \<or> cp = 0x5e \<or> cp = 0x58 then StringBody
          else NoiseGround, fp)
     | NoiseCsi \<Rightarrow> (if 0x40 \<le> cp \<and> cp \<le> 0x7e then NoiseGround else NoiseCsi, fp)
     | StringBody \<Rightarrow> (if cp = 0x07 then NoiseGround else if cp = 0x1b then StringEsc else StringBody, fp)
     | StringEsc \<Rightarrow> (if cp = 0x5c then NoiseGround else if cp = 0x1b then StringEsc else StringBody, fp))"

definition observe_frame :: "utext \<Rightarrow> NoiseScanner \<Rightarrow> bool \<times> NoiseScanner" where
  "observe_frame data s =
     (let (mode, fp) = fold noise_step data (ns_mode s, \<lparr>fp_hash = FNV_OFFSET_BASIS, fp_count = 0\<rparr>);
          s = s\<lparr>ns_mode := mode\<rparr>
      in if fp_count fp = 0 then (False, s)
         else if fp \<in> set (ns_recent s) then (False, s)
         else (True, s\<lparr>ns_recent :=
                 (if length (ns_recent s) = RECENT_FINGERPRINTS then tl (ns_recent s) else ns_recent s) @ [fp]\<rparr>))"

section \<open>What a frame shows\<close>

text \<open>The reference: the significant characters a frame shows when it is met in a mode, escape
  sequences, controls, white space, digits and spinner glyphs left out.\<close>

fun shown :: "NoiseMode \<Rightarrow> utext \<Rightarrow> utext" where
  "shown mode [] = []"
| "shown mode (cp # cps) =
     (if mode = NoiseGround \<and> cp \<noteq> 0x1b \<and> 0x20 \<le> cp \<and> cp \<noteq> 0x7f \<and> \<not> (0x80 \<le> cp \<and> cp \<le> 0x9f) \<and> is_significant cp
      then cp # shown mode cps
      else shown (fst (noise_step cp (mode, \<lparr>fp_hash = 0, fp_count = 0\<rparr>))) cps)"

definition fingerprint :: "utext \<Rightarrow> Fingerprint" where
  "fingerprint t = fold absorb t \<lparr>fp_hash = FNV_OFFSET_BASIS, fp_count = 0\<rparr>"

definition mode_after :: "utext \<Rightarrow> NoiseMode \<Rightarrow> NoiseMode" where
  "mode_after data mode = fst (fold noise_step data (mode, \<lparr>fp_hash = 0, fp_count = 0\<rparr>))"

lemma step_mode: "fst (noise_step cp (mode, fp)) = fst (noise_step cp (mode, fp'))"
  by (cases mode) (auto simp: noise_step_def)

lemma fold_mode: "fst (fold noise_step data (mode, fp)) = fst (fold noise_step data (mode, fp'))"
proof (induction data arbitrary: mode fp fp')
  case (Cons cp data)
  show ?case
    using Cons.IH [of "fst (noise_step cp (mode, fp))" "snd (noise_step cp (mode, fp))" "snd (noise_step cp (mode, fp'))"]
      step_mode [of cp mode fp fp'] by (metis fold_simps(2) prod.collapse)
qed simp

lemma fold_shown: "snd (fold noise_step data (mode, fp)) = fold absorb (shown mode data) fp"
proof (induction data arbitrary: mode fp)
  case (Cons cp data)
  let ?fp0 = "\<lparr>fp_hash = 0, fp_count = 0\<rparr> :: Fingerprint"
  let ?show = "mode = NoiseGround \<and> cp \<noteq> 0x1b \<and> 0x20 \<le> cp \<and> cp \<noteq> 0x7f \<and> \<not> (0x80 \<le> cp \<and> cp \<le> 0x9f) \<and> is_significant cp"
  have step: "noise_step cp (mode, fp) = (if ?show then (mode, absorb cp fp) else (fst (noise_step cp (mode, ?fp0)), fp))"
    by (cases mode) (auto simp: noise_step_def)
  show ?case
  proof (cases ?show)
    case True
    have "noise_step cp (mode, fp) = (mode, absorb cp fp)" by (rule trans [OF step if_P [OF True]])
    moreover have "shown mode (cp # data) = cp # shown mode data" using True by (simp only: shown.simps if_True simp_thms)
    ultimately show ?thesis by (simp add: Cons.IH del: shown.simps)
  next
    case False
    have "noise_step cp (mode, fp) = (fst (noise_step cp (mode, ?fp0)), fp)" by (rule trans [OF step if_not_P [OF False]])
    moreover have "shown mode (cp # data) = shown (fst (noise_step cp (mode, ?fp0))) data" using False by (simp only: shown.simps if_False)
    ultimately show ?thesis by (simp add: Cons.IH del: shown.simps)
  qed
qed simp

lemma count_bound: "fp_count (fold absorb t fp) = min (fp_count fp + length t) u32_max \<or> u32_max < fp_count fp"
proof (induction t arbitrary: fp)
  case (Cons c t)
  then show ?case using Cons [of "absorb c fp"] by (auto simp: absorb_def saturating_add_u32_def)
qed auto

lemma count_zero: "fp_count (fingerprint t) = 0 \<longleftrightarrow> t = []"
  using count_bound [of t "\<lparr>fp_hash = FNV_OFFSET_BASIS, fp_count = 0\<rparr>"]
  by (auto simp: fingerprint_def u32_max_def min_def split: if_splits)

lemma observe_simp:
  "observe_frame data s =
     (let t = shown (ns_mode s) data; s' = s\<lparr>ns_mode := mode_after data (ns_mode s)\<rparr> in
      if t = [] \<or> fingerprint t \<in> set (ns_recent s) then (False, s')
      else (True, s'\<lparr>ns_recent :=
              (if length (ns_recent s) = RECENT_FINGERPRINTS then tl (ns_recent s) else ns_recent s) @ [fingerprint t]\<rparr>))"
proof -
  let ?fp0 = "\<lparr>fp_hash = FNV_OFFSET_BASIS, fp_count = 0\<rparr> :: Fingerprint"
  have "fold noise_step data (ns_mode s, ?fp0) = (mode_after data (ns_mode s), fingerprint (shown (ns_mode s) data))"
    using fold_mode [of data "ns_mode s" ?fp0] fold_shown [of data "ns_mode s" ?fp0]
    by (simp add: prod_eq_iff mode_after_def fingerprint_def)
  then show ?thesis by (auto simp: observe_frame_def count_zero Let_def)
qed

section \<open>Repaints\<close>

definition noise_ok :: "NoiseScanner \<Rightarrow> bool" where
  "noise_ok s = (distinct (ns_recent s) \<and> length (ns_recent s) \<le> RECENT_FINGERPRINTS)"

text \<open>A meaningful frame pushes its fingerprint, the oldest leaving a full ring; noise pushes nothing.\<close>

lemma observe_ring:
  assumes "noise_ok s"
  shows "noise_ok (snd (observe_frame data s))"
    and "ns_recent (snd (observe_frame data s)) = newest RECENT_FINGERPRINTS
      (ns_recent s @ (if fst (observe_frame data s) then [fingerprint (shown (ns_mode s) data)] else []))"
proof -
  have room: "(if length (ns_recent s) = RECENT_FINGERPRINTS then tl (ns_recent s) else ns_recent s) @ [x]
      = newest RECENT_FINGERPRINTS (ns_recent s @ [x])" for x
    using assms by (cases "ns_recent s") (auto simp: noise_ok_def newest_def RECENT_FINGERPRINTS_def)
  then show recent: "ns_recent (snd (observe_frame data s)) = newest RECENT_FINGERPRINTS
      (ns_recent s @ (if fst (observe_frame data s) then [fingerprint (shown (ns_mode s) data)] else []))"
    using assms by (simp add: observe_simp Let_def noise_ok_def newest_short)
  have "distinct (ns_recent (snd (observe_frame data s)))"
    using assms by (cases "ns_recent s") (auto simp: observe_simp Let_def noise_ok_def)
  then show "noise_ok (snd (observe_frame data s))" by (simp add: noise_ok_def recent newest_length del: append_assoc)
qed

definition observe_one :: "utext \<Rightarrow> NoiseScanner \<Rightarrow> bool list \<times> NoiseScanner" where
  "observe_one data s = ([fst (observe_frame data s)], snd (observe_frame data s))"

abbreviation observe_frames :: "utext list \<Rightarrow> NoiseScanner \<Rightarrow> bool list \<times> NoiseScanner" where
  "observe_frames \<equiv> feed_all observe_one"

lemma observe_frames_Cons:
  "observe_frames (d # ds) s = (fst (observe_frame d s) # fst (observe_frames ds (snd (observe_frame d s))),
     snd (observe_frames ds (snd (observe_frame d s))))"
  by (simp add: observe_one_def case_prod_beta Let_def)

lemma observe_frames_ring:
  "noise_ok s \<Longrightarrow> noise_ok (snd (observe_frames ds s)) \<and> (\<exists>news. length news = length (filter (\<lambda>v. v) (fst (observe_frames ds s)))
     \<and> ns_recent (snd (observe_frames ds s)) = newest RECENT_FINGERPRINTS (ns_recent s @ news))"
proof (induction ds arbitrary: s)
  case Nil
  then show ?case by (simp add: noise_ok_def newest_short)
next
  case (Cons d ds)
  let ?s1 = "snd (observe_frame d s)"
  note ring = observe_ring [OF Cons.prems, of d]
  obtain news where news: "length news = length (filter (\<lambda>v. v) (fst (observe_frames ds ?s1)))"
    "ns_recent (snd (observe_frames ds ?s1)) = newest RECENT_FINGERPRINTS (ns_recent ?s1 @ news)"
    using Cons.IH [OF ring(1)] by blast
  let ?new = "if fst (observe_frame d s) then [fingerprint (shown (ns_mode s) d)] else []"
  have "newest RECENT_FINGERPRINTS (ns_recent ?s1 @ news) = newest RECENT_FINGERPRINTS (ns_recent s @ ?new @ news)"
    unfolding ring(2) newest_append by simp
  with news Cons.IH [OF ring(1), of] show ?case
    by (auto simp: observe_frames_Cons simp del: feed_all.simps intro!: exI [of _ "?new @ news"])
qed

text \<open>Repaints never keep a terminal alive. A frame that was meaningful is noise when it comes
  again, in whatever colours, at whatever place, with whatever counters, spinner glyphs and white
  space, as long as it shows the same significant characters and fewer than 32 meaningful frames came
  in between; and the ring holds at most 32 fingerprints, each once.\<close>

theorem repaint_is_noise:
  assumes "s = snd (observe_frames before noise_new)" and "fst (observe_frame frame s)"
    and "s' = snd (observe_frames between (snd (observe_frame frame s)))"
    and "length (filter (\<lambda>v. v) (fst (observe_frames between (snd (observe_frame frame s))))) < RECENT_FINGERPRINTS"
    and "shown (ns_mode s') repaint = shown (ns_mode s) frame"
  shows "\<not> fst (observe_frame repaint s') \<and> ns_recent (snd (observe_frame repaint s')) = ns_recent s' \<and> noise_ok s'"
proof -
  have new: "noise_ok noise_new" by (simp add: noise_ok_def noise_new_def)
  then have ok: "noise_ok s" using observe_frames_ring assms(1) by blast
  let ?fp = "fingerprint (shown (ns_mode s) frame)" and ?s1 = "snd (observe_frame frame s)"
  have ok1: "noise_ok ?s1" by (rule observe_ring(1) [OF ok])
  obtain news where news: "length news < RECENT_FINGERPRINTS" "noise_ok s'"
    "ns_recent s' = newest RECENT_FINGERPRINTS (ns_recent ?s1 @ news)"
    using observe_frames_ring [OF ok1, of between] assms(3,4) by metis
  have "ns_recent ?s1 = newest RECENT_FINGERPRINTS (ns_recent s @ [?fp])"
    using observe_ring(2) [OF ok, of frame] assms(2) by simp
  then obtain pre where pre: "ns_recent ?s1 = pre @ [?fp]"
    by (auto simp: newest_def RECENT_FINGERPRINTS_def)
  have "?fp \<in> set (ns_recent s')"
    using news(1) by (simp add: news(3) pre newest_def)
  then show ?thesis
    using news(2) by (simp add: observe_simp Let_def assms(5))
qed

theorem repaint_is_noise_witness:
  "\<not> fst (observe_frame [0x1b, 0x5b, 0x32, 0x4b, 0x61, 0x37] (snd (observe_frame [0x61, 0x31] noise_new)))"
proof -
  have shown: "shown NoiseGround [0x61, 0x31] = [0x61]" "shown NoiseGround [0x1b, 0x5b, 0x32, 0x4b, 0x61, 0x37] = [0x61]"
    "mode_after [0x61, 0x31] NoiseGround = NoiseGround"
    by (simp_all add: is_significant_def is_whitespace_def spinner_glyphs_def noise_step_def mode_after_def)
  have ground: "ns_mode noise_new = NoiseGround" "ns_mode (snd (observe_frame [0x61, 0x31] noise_new)) = NoiseGround"
    by (simp_all add: observe_simp shown noise_new_def Let_def)
  let ?s1 = "snd (observe_frame [0x61, 0x31] noise_new)"
  have start: "noise_new = snd (observe_frames [] noise_new)" and pause: "?s1 = snd (observe_frames [] ?s1)"
    by simp_all
  have first: "fst (observe_frame [0x61, 0x31] noise_new)"
    by (simp add: observe_simp ground(1) shown Let_def del: shown.simps) (simp add: noise_new_def)
  show ?thesis
    by (rule conjunct1 [OF repaint_is_noise [OF start first pause]])
      (simp_all add: ground shown RECENT_FINGERPRINTS_def del: shown.simps)
qed

end
