(* ===== verification/Barrier_Scanner.thy ===== *)
theory Barrier_Scanner
  imports Text_Units Stream_Scanner
begin

text \<open>
  The barrier scanner of a terminal's output (crates/freshell-terminal/src/barrier_scanner.rs). It
  walks the decoded characters, follows escape sequences across frames, and classifies every frame:
  a frame that is not a barrier may be merged with its neighbours into one message. Characters are
  code points; a step returns the reasons that it marks, in order.
\<close>

section \<open>Data\<close>

datatype BarrierReason = Control | Osc52 | RequestMode | TurnComplete | StartupProbe

fun reason_as_str :: "BarrierReason \<Rightarrow> string" where
  "reason_as_str Control = ''control''"
| "reason_as_str Osc52 = ''osc52''"
| "reason_as_str RequestMode = ''request_mode''"
| "reason_as_str TurnComplete = ''turn_complete''"
| "reason_as_str StartupProbe = ''startup_probe''"

fun reason_priority :: "BarrierReason \<Rightarrow> nat" where
  "reason_priority Control = 1"
| "reason_priority TurnComplete = 2"
| "reason_priority StartupProbe = 3"
| "reason_priority RequestMode = 4"
| "reason_priority Osc52 = 5"

datatype ScannerMode = Ground | Esc | Csi | Osc | Dcs | Apc

fun mode_as_str :: "ScannerMode \<Rightarrow> string" where
  "mode_as_str Ground = ''ground''"
| "mode_as_str Esc = ''esc''"
| "mode_as_str Csi = ''csi''"
| "mode_as_str Osc = ''osc''"
| "mode_as_str Dcs = ''dcs''"
| "mode_as_str Apc = ''apc''"

record ScannerState =
  ss_mode :: ScannerMode

record BarrierClassification =
  bc_barrier :: bool
  bc_reason :: "BarrierReason option"
  bc_ground :: bool
  bc_state_before :: ScannerState
  bc_state_after :: ScannerState

definition CP_ESC :: nat where "CP_ESC = 0x1b"
definition CP_BEL :: nat where "CP_BEL = 0x07"
definition CP_CSI :: nat where "CP_CSI = 0x9b"
definition CP_OSC :: nat where "CP_OSC = 0x9d"
definition CP_DCS :: nat where "CP_DCS = 0x90"
definition CP_SOS :: nat where "CP_SOS = 0x98"
definition CP_ST :: nat where "CP_ST = 0x9c"
definition CP_PM :: nat where "CP_PM = 0x9e"
definition CP_APC :: nat where "CP_APC = 0x9f"
definition REPLACEMENT_CHARACTER :: nat where "REPLACEMENT_CHARACTER = 0xfffd"
definition CSI_PAYLOAD_SUFFIX_LIMIT :: nat where "CSI_PAYLOAD_SUFFIX_LIMIT = 64"

lemmas code_points = CP_ESC_def CP_BEL_def CP_CSI_def CP_OSC_def CP_DCS_def CP_SOS_def CP_ST_def
  CP_PM_def CP_APC_def REPLACEMENT_CHARACTER_def

definition is_csi_final_byte :: "nat \<Rightarrow> bool" where
  "is_csi_final_byte cp = (0x40 \<le> cp \<and> cp \<le> 0x7e)"

definition is_esc_intermediate_byte :: "nat \<Rightarrow> bool" where
  "is_esc_intermediate_byte cp = (0x20 \<le> cp \<and> cp \<le> 0x2f)"

definition is_esc_final_byte :: "nat \<Rightarrow> bool" where
  "is_esc_final_byte cp = (0x30 \<le> cp \<and> cp \<le> 0x7e)"

definition is_transparent_ground_control :: "nat \<Rightarrow> bool" where
  "is_transparent_ground_control cp = (cp = 0x09 \<or> cp = 0x0a \<or> cp = 0x0d)"

definition is_ground_control_barrier :: "nat \<Rightarrow> bool" where
  "is_ground_control_barrier cp =
     (if is_transparent_ground_control cp then False
      else cp < 0x20 \<or> cp = 0x7f \<or> 0x80 \<le> cp \<and> cp \<le> 0x9f)"

definition default_reason_for_mode :: "ScannerMode \<Rightarrow> BarrierReason" where
  "default_reason_for_mode mode = (if mode = Osc then Osc52 else Control)"

definition classify_csi_final :: "utext \<Rightarrow> nat \<Rightarrow> BarrierReason" where
  "classify_csi_final payload final_char =
     (let normalized = filter (\<lambda>c. \<not> (0x20 \<le> c \<and> c \<le> 0x2f)) payload in
      if final_char = 0x6e \<and> suffix [0x36] normalized then RequestMode
      else if final_char = 0x63 then StartupProbe
      else Control)"

section \<open>The scanner\<close>

record BarrierScanner =
  bs_mode :: ScannerMode
  bs_csi_payload_suffix :: utext
  bs_string_esc_pending :: bool

definition scanner_new :: BarrierScanner where
  "scanner_new = \<lparr>bs_mode = Ground, bs_csi_payload_suffix = [], bs_string_esc_pending = False\<rparr>"

definition scanner_is_ground :: "BarrierScanner \<Rightarrow> bool" where
  "scanner_is_ground s = (bs_mode s = Ground)"

definition enter_csi :: "BarrierScanner \<Rightarrow> BarrierScanner" where
  "enter_csi s = s\<lparr>bs_mode := Csi, bs_csi_payload_suffix := [], bs_string_esc_pending := False\<rparr>"

definition enter_string_mode :: "ScannerMode \<Rightarrow> BarrierScanner \<Rightarrow> BarrierScanner" where
  "enter_string_mode next_mode s =
     s\<lparr>bs_mode := next_mode, bs_csi_payload_suffix := [], bs_string_esc_pending := False\<rparr>"

definition enter_esc :: "BarrierScanner \<Rightarrow> BarrierScanner" where
  "enter_esc s = s\<lparr>bs_mode := Esc, bs_csi_payload_suffix := [], bs_string_esc_pending := False\<rparr>"

definition enter_ground :: "BarrierScanner \<Rightarrow> BarrierScanner" where
  "enter_ground s = s\<lparr>bs_mode := Ground, bs_csi_payload_suffix := [], bs_string_esc_pending := False\<rparr>"

lemmas enter_defs = enter_csi_def enter_string_mode_def enter_esc_def enter_ground_def

definition append_csi_payload :: "nat \<Rightarrow> BarrierScanner \<Rightarrow> BarrierScanner" where
  "append_csi_payload ch s =
     (let payload = bs_csi_payload_suffix s @ [ch]; len = length payload in
      s\<lparr>bs_csi_payload_suffix :=
          (if CSI_PAYLOAD_SUFFIX_LIMIT < len then drop (len - CSI_PAYLOAD_SUFFIX_LIMIT) payload
           else payload)\<rparr>)"

text \<open>\<open>mark\<close>: a reason replaces one of lower priority.\<close>

definition mark :: "BarrierReason \<Rightarrow> BarrierReason option \<Rightarrow> BarrierReason option" where
  "mark reason current =
     (case current of
        Some cur \<Rightarrow> if reason_priority reason \<le> reason_priority cur then current else Some reason
      | None \<Rightarrow> Some reason)"

definition ground_step :: "nat \<Rightarrow> BarrierScanner \<Rightarrow> BarrierReason list \<times> BarrierScanner" where
  "ground_step cp s =
     (if cp = REPLACEMENT_CHARACTER then ([Control], s)
      else if cp = CP_BEL then ([TurnComplete], s)
      else if cp = CP_ESC then ([Control], enter_esc s)
      else if cp = CP_CSI then ([Control], enter_csi s)
      else if cp = CP_OSC then ([Osc52], enter_string_mode Osc s)
      else if cp = CP_DCS then ([Control], enter_string_mode Dcs s)
      else if cp = CP_SOS \<or> cp = CP_PM then ([Control], enter_string_mode Apc s)
      else if cp = CP_APC then ([Control], enter_string_mode Apc s)
      else if is_ground_control_barrier cp then ([Control], s)
      else ([], s))"

definition esc_step :: "nat \<Rightarrow> BarrierScanner \<Rightarrow> BarrierReason list \<times> BarrierScanner" where
  "esc_step cp s =
     (if cp = 0x5b then ([Control], enter_csi s)
      else if cp = 0x58 \<or> cp = 0x5e then ([Control], enter_string_mode Apc s)
      else if cp = 0x5d then ([Control, Osc52], enter_string_mode Osc s)
      else if cp = 0x50 then ([Control], enter_string_mode Dcs s)
      else if cp = 0x5f then ([Control], enter_string_mode Apc s)
      else if cp = CP_ESC then ([Control], enter_esc s)
      else if cp = CP_CSI then ([Control], enter_csi s)
      else if cp = CP_OSC then ([Control, Osc52], enter_string_mode Osc s)
      else if cp = CP_DCS then ([Control], enter_string_mode Dcs s)
      else if cp = CP_SOS \<or> cp = CP_PM then ([Control], enter_string_mode Apc s)
      else if cp = CP_APC then ([Control], enter_string_mode Apc s)
      else if is_esc_intermediate_byte cp then ([Control], s)
      else if is_esc_final_byte cp then ([Control], enter_ground s)
      else ([Control], s))"

definition csi_step :: "nat \<Rightarrow> BarrierScanner \<Rightarrow> BarrierReason list \<times> BarrierScanner" where
  "csi_step cp s =
     (if cp = REPLACEMENT_CHARACTER then ([Control, Control], s)
      else if cp = CP_ESC then ([Control], enter_esc s)
      else if cp = CP_BEL then ([Control, TurnComplete], s)
      else if cp = CP_ST then ([Control], enter_ground s)
      else if is_csi_final_byte cp
      then ([Control, classify_csi_final (bs_csi_payload_suffix s) cp], enter_ground s)
      else ([Control], append_csi_payload cp s))"

definition process_string_mode :: "nat \<Rightarrow> ScannerMode \<Rightarrow> BarrierScanner \<Rightarrow> BarrierReason list \<times> BarrierScanner" where
  "process_string_mode cp string_mode s =
     (default_reason_for_mode string_mode # (if cp = REPLACEMENT_CHARACTER then [Control] else []),
      (if bs_string_esc_pending s
       then (if cp = 0x5c then enter_ground s
             else if cp = CP_ESC then s\<lparr>bs_string_esc_pending := True\<rparr>
             else s\<lparr>bs_string_esc_pending := False\<rparr>)
       else if cp = CP_ESC then s\<lparr>bs_string_esc_pending := True\<rparr>
       else if cp = CP_ST then enter_ground s
       else if string_mode = Osc \<and> cp = CP_BEL then enter_ground s
       else s))"

definition barrier_step :: "nat \<Rightarrow> BarrierScanner \<Rightarrow> BarrierReason list \<times> BarrierScanner" where
  "barrier_step cp s =
     (case bs_mode s of
        Ground \<Rightarrow> ground_step cp s
      | Esc \<Rightarrow> esc_step cp s
      | Csi \<Rightarrow> csi_step cp s
      | _ \<Rightarrow> process_string_mode cp (bs_mode s) s)"

lemmas step_defs = barrier_step_def ground_step_def esc_step_def csi_step_def process_string_mode_def

definition barrier_feed :: "utext \<Rightarrow> BarrierScanner \<Rightarrow> BarrierReason list \<times> BarrierScanner" where
  "barrier_feed = scan_with barrier_step"

definition scan :: "utext \<Rightarrow> BarrierScanner \<Rightarrow> BarrierClassification \<times> BarrierScanner" where
  "scan data s =
     (let before = (if bs_mode s \<noteq> Ground then Some (default_reason_for_mode (bs_mode s)) else None);
          (marks, s') = barrier_feed data s;
          reason = fold mark marks before
      in (\<lparr>bc_barrier = (reason \<noteq> None), bc_reason = reason, bc_ground = (bs_mode s' = Ground),
           bc_state_before = \<lparr>ss_mode = bs_mode s\<rparr>, bc_state_after = \<lparr>ss_mode = bs_mode s'\<rparr>\<rparr>, s'))"

interpretation barrier: stream_scanner "\<lambda>s. True" barrier_feed
  by unfold_locales (simp_all add: barrier_feed_def scan_with_append)

section \<open>Reasons\<close>

text \<open>The reasons seen so far, as their highest priority.\<close>

fun urgency :: "BarrierReason option \<Rightarrow> nat" where
  "urgency None = 0"
| "urgency (Some r) = reason_priority r"

lemma priority_le: "reason_priority r \<le> 5"
  by (cases r) simp_all

lemma priority_inj [simp]: "reason_priority r = reason_priority r' \<longleftrightarrow> r = r'"
  by (cases r; cases r') simp_all

lemma priority_pos [simp]: "0 < reason_priority r" "reason_priority r \<noteq> 0"
  by (cases r; simp)+

lemma urgency_inj [simp]: "urgency r = urgency r' \<longleftrightarrow> r = r'"
  by (cases r; cases r') auto

lemma urgency_mark [simp]: "urgency (mark r cur) = max (reason_priority r) (urgency cur)"
  by (auto simp: mark_def max_def split: option.splits)

fun peak :: "BarrierReason list \<Rightarrow> nat" where
  "peak [] = 0"
| "peak (r # rs) = max (reason_priority r) (peak rs)"

lemma peak_append [simp]: "peak (rs @ rs') = max (peak rs) (peak rs')"
  by (induction rs) (simp_all add: max.assoc)

lemma urgency_marks [simp]: "urgency (fold mark rs cur) = max (peak rs) (urgency cur)"
  by (induction rs arbitrary: cur) (simp_all add: max.assoc max.left_commute)

lemma peak_le: "peak rs \<le> 5"
  by (induction rs) (simp_all add: priority_le)

text \<open>The reason that a scanner inside a sequence owes to whatever comes next.\<close>

definition standing :: "BarrierScanner \<Rightarrow> nat" where
  "standing s = (if bs_mode s = Ground then 0 else reason_priority (default_reason_for_mode (bs_mode s)))"

lemma scan_urgency: "urgency (bc_reason (fst (scan data s))) = max (peak (fst (barrier_feed data s))) (standing s)"
  by (simp add: scan_def standing_def case_prod_beta Let_def)

lemma scan_state [simp]: "snd (scan data s) = snd (barrier_feed data s)"
  by (simp add: scan_def case_prod_beta Let_def)

lemma scan_fields:
  "bc_barrier (fst (scan data s)) = (bc_reason (fst (scan data s)) \<noteq> None)"
  "bc_ground (fst (scan data s)) = (bs_mode (snd (barrier_feed data s)) = Ground)"
  "bc_state_before (fst (scan data s)) = \<lparr>ss_mode = bs_mode s\<rparr>"
  "bc_state_after (fst (scan data s)) = \<lparr>ss_mode = bs_mode (snd (barrier_feed data s))\<rparr>"
  by (simp_all add: scan_def case_prod_beta Let_def)

lemma step_standing: "standing (snd (barrier_step cp s)) \<le> max (peak (fst (barrier_step cp s))) (standing s)"
  by (cases "bs_mode s")
    (simp_all add: step_defs standing_def enter_defs default_reason_for_mode_def append_csi_payload_def Let_def)

lemma barrier_feed_simps [simp]:
  "barrier_feed [] s = ([], s)"
  "barrier_feed (c # cs) s = (fst (barrier_step c s) @ fst (barrier_feed cs (snd (barrier_step c s))),
     snd (barrier_feed cs (snd (barrier_step c s))))"
  by (simp_all add: barrier_feed_def case_prod_beta Let_def)

lemma feed_standing: "standing (snd (barrier_feed cs s)) \<le> max (peak (fst (barrier_feed cs s))) (standing s)"
proof (induction cs arbitrary: s)
  case (Cons c cs)
  show ?case using Cons.IH [of "snd (barrier_step c s)"] step_standing [of c s] by auto
qed simp

lemma scan_append_urgency:
  "urgency (bc_reason (fst (scan (cs @ ds) s))) =
     max (urgency (bc_reason (fst (scan cs s)))) (urgency (bc_reason (fst (scan ds (snd (scan cs s))))))"
  using feed_standing [of cs s] barrier.feed_append [where s = s and cs = cs and ds = ds]
  by (simp add: scan_urgency case_prod_beta Let_def)

section \<open>Frames of a stream\<close>

text \<open>The classifications of a stream's frames, the scanner carried from one to the next.\<close>

definition scan_frame :: "utext \<Rightarrow> BarrierScanner \<Rightarrow> BarrierClassification list \<times> BarrierScanner" where
  "scan_frame data s = ([fst (scan data s)], snd (scan data s))"

abbreviation scan_frames :: "utext list \<Rightarrow> BarrierScanner \<Rightarrow> BarrierClassification list \<times> BarrierScanner" where
  "scan_frames \<equiv> feed_all scan_frame"

lemma scan_frames_Cons:
  "scan_frames (d # ds) s = (fst (scan d s) # fst (scan_frames ds (snd (barrier_feed d s))),
     snd (scan_frames ds (snd (barrier_feed d s))))"
  by (simp add: scan_frame_def case_prod_beta Let_def)

lemma scan_frames_state: "snd (scan_frames frames s) = snd (barrier_feed (concat frames) s)"
proof (induction frames arbitrary: s)
  case (Cons d frames)
  then show ?case
    using barrier.feed_append [where s = s and cs = d and ds = "concat frames"]
    by (simp add: scan_frames_Cons case_prod_beta Let_def del: feed_all.simps)
qed simp

lemma frames_barrier: "c \<in> set (fst (scan_frames frames s)) \<Longrightarrow> bc_barrier c = (bc_reason c \<noteq> None)"
proof (induction frames arbitrary: s)
  case (Cons d ds)
  then show ?case by (auto simp: scan_frames_Cons scan_fields(1) simp del: feed_all.simps)
qed simp

lemma scan_frames_urgency:
  assumes "frames \<noteq> []"
  shows "(\<exists>c \<in> set (fst (scan_frames frames s)). bc_reason c = bc_reason (fst (scan (concat frames) s)))
    \<and> (\<forall>c \<in> set (fst (scan_frames frames s)). urgency (bc_reason c) \<le> urgency (bc_reason (fst (scan (concat frames) s))))"
  using assms
proof (induction frames arbitrary: s)
  case (Cons d frames)
  show ?case
  proof (cases "frames = []")
    case True
    then show ?thesis by (simp add: scan_frame_def)
  next
    case False
    let ?a = "bc_reason (fst (scan d s))" and ?b = "bc_reason (fst (scan (concat frames) (snd (barrier_feed d s))))"
      and ?c = "bc_reason (fst (scan (d @ concat frames) s))"
    have "urgency ?c = max (urgency ?a) (urgency ?b)" by (simp add: scan_append_urgency)
    then have "?c = ?a \<and> urgency ?b \<le> urgency ?a \<or> ?c = ?b \<and> urgency ?a \<le> urgency ?b"
      unfolding max_def urgency_inj [symmetric] by (auto split: if_splits)
    then show ?thesis
      using Cons.IH [OF False, of "snd (barrier_feed d s)"]
      by (auto simp: scan_frames_Cons simp del: feed_all.simps intro: order_trans)
  qed
qed simp

text \<open>C29: cutting the output into frames does not change how it is classified. Whatever the cuts, the
  scanner ends in the same state, and the reason the whole text would get is the most urgent one among
  its frames; so text may be merged into one message, or not, exactly as its frames may.\<close>

theorem frames_classify_as_text:
  assumes "frames \<noteq> []"
  shows "snd (scan_frames frames s) = snd (scan (concat frames) s)
    \<and> bc_reason (fst (scan (concat frames) s)) \<in> bc_reason ` set (fst (scan_frames frames s))
    \<and> (\<forall>c \<in> set (fst (scan_frames frames s)).
         urgency (bc_reason c) \<le> urgency (bc_reason (fst (scan (concat frames) s))))
    \<and> bc_barrier (fst (scan (concat frames) s)) = (\<exists>c \<in> set (fst (scan_frames frames s)). bc_reason c \<noteq> None)"
proof -
  note most = scan_frames_urgency [OF assms, of s]
  have "r = None" if "urgency r \<le> urgency None" for r using that by (cases r) auto
  then have "bc_barrier (fst (scan (concat frames) s)) = (\<exists>c \<in> set (fst (scan_frames frames s)). bc_reason c \<noteq> None)"
    using most by (metis scan_fields(1))
  then show ?thesis using most by (auto simp: scan_frames_state image_iff) metis
qed

theorem frames_classify_as_text_witness:
  "snd (scan_frames [[0x61, 0x1b], [0x5b, 0x36, 0x6e]] scanner_new) = snd (scan [0x61, 0x1b, 0x5b, 0x36, 0x6e] scanner_new)"
  using frames_classify_as_text [of "[[0x61, 0x1b], [0x5b, 0x36, 0x6e]]" scanner_new] by simp

section \<open>Which frames are barriers\<close>

text \<open>Text that leaves the screen's state alone: no control but tab, line feed and carriage return, and
  no replacement character.\<close>

definition plain_char :: "nat \<Rightarrow> bool" where
  "plain_char cp =
     (cp \<in> {0x09, 0x0a, 0x0d}
      \<or> 0x20 \<le> cp \<and> cp \<noteq> 0x7f \<and> \<not> (0x80 \<le> cp \<and> cp \<le> 0x9f) \<and> cp \<noteq> 0xfffd)"

lemma ground_plain: "bs_mode s = Ground \<Longrightarrow> barrier_step cp s = (if plain_char cp then ([], s) else barrier_step cp s)"
  by (auto simp: step_defs plain_char_def code_points is_ground_control_barrier_def is_transparent_ground_control_def)

lemma marks_none: "fst (barrier_step cp s) = [] \<longleftrightarrow> bs_mode s = Ground \<and> plain_char cp"
  by (cases "bs_mode s")
    (auto simp: step_defs plain_char_def code_points is_ground_control_barrier_def is_transparent_ground_control_def)

lemma peak_zero [simp]: "peak rs = 0 \<longleftrightarrow> rs = []"
proof (cases rs)
  case (Cons r rs')
  then have "0 < peak rs" by (simp add: less_max_iff_disj)
  then show ?thesis using Cons by simp
qed simp

lemma urgency_zero [simp]: "urgency r = 0 \<longleftrightarrow> r = None"
  by (cases r) auto

lemma feed_marks_none: "fst (barrier_feed data s) = [] \<and> bs_mode s = Ground \<longleftrightarrow> bs_mode s = Ground \<and> list_all plain_char data"
proof (induction data arbitrary: s)
  case (Cons c cs)
  have "barrier_step c s = ([], s)" if "bs_mode s = Ground" "plain_char c"
    using ground_plain [OF that(1), of c] that(2) by simp
  then show ?case using Cons.IH [of s] marks_none [of c s] by auto
qed simp

lemma plain_feed: "bs_mode s = Ground \<Longrightarrow> list_all plain_char data \<Longrightarrow> barrier_feed data s = ([], s)"
proof (induction data)
  case (Cons c cs)
  then show ?case using ground_plain [of s c] by simp
qed simp

lemma reason_none_iff: "bc_reason (fst (scan data s)) = None \<longleftrightarrow> bs_mode s = Ground \<and> list_all plain_char data"
proof -
  have "bc_reason (fst (scan data s)) = None \<longleftrightarrow> peak (fst (barrier_feed data s)) = 0 \<and> standing s = 0"
    unfolding urgency_zero [symmetric] scan_urgency by (auto simp: max_def)
  also have "\<dots> \<longleftrightarrow> fst (barrier_feed data s) = [] \<and> bs_mode s = Ground"
    by (auto simp: standing_def)
  finally show ?thesis by (simp add: feed_marks_none)
qed

text \<open>A frame is mergeable exactly when it is plain text met outside every escape sequence: the
  scanner stands in ground state and every character is printable, a tab, a line feed or a carriage
  return, and no replacement character. Such a frame leaves the scanner as it was; so any number of
  mergeable frames in a row is one mergeable text.\<close>

theorem mergeable_iff_plain:
  "(bc_barrier (fst (scan data s)) \<longleftrightarrow> \<not> (bs_mode s = Ground \<and> list_all plain_char data))
    \<and> (bc_barrier (fst (scan data s)) \<or> snd (scan data s) = s)"
  using reason_none_iff [of data s] plain_feed [of s data] by (auto simp: scan_fields(1))

section \<open>Sequences\<close>

text \<open>Characters that a control sequence collects, and characters that do not end a string.\<close>

definition csi_payload_char :: "nat \<Rightarrow> bool" where
  "csi_payload_char cp =
     (cp \<notin> {CP_ESC, CP_BEL, CP_ST, REPLACEMENT_CHARACTER} \<and> \<not> is_csi_final_byte cp)"

lemma append_csi_window: "append_csi_payload c s = s\<lparr>bs_csi_payload_suffix := newest CSI_PAYLOAD_SUFFIX_LIMIT (bs_csi_payload_suffix s @ [c])\<rparr>"
  by (auto simp: append_csi_payload_def newest_def Let_def)

lemma csi_collects:
  assumes "bs_mode s = Csi" and "length (bs_csi_payload_suffix s) \<le> CSI_PAYLOAD_SUFFIX_LIMIT"
    and "list_all csi_payload_char payload"
  shows "barrier_feed payload s = (replicate (length payload) Control,
    s\<lparr>bs_csi_payload_suffix := newest CSI_PAYLOAD_SUFFIX_LIMIT (bs_csi_payload_suffix s @ payload)\<rparr>)"
  using assms
proof (induction payload arbitrary: s)
  case Nil
  then show ?case by (simp add: newest_short)
next
  case (Cons c cs)
  have "barrier_step c s = ([Control], append_csi_payload c s)"
    using Cons.prems by (simp add: barrier_step_def csi_step_def csi_payload_char_def)
  then show ?case
    using Cons.IH [of "append_csi_payload c s"] Cons.prems
      newest_append [of CSI_PAYLOAD_SUFFIX_LIMIT "bs_csi_payload_suffix s @ [c]" cs]
    by (simp add: append_csi_window newest_length)
qed

lemma peak_replicate: "peak (replicate n Control) \<le> 1"
  by (induction n) simp_all

text \<open>A control sequence that asks the terminal a question is recognised wherever the frames cut it:
  of the frames that carry \<open>ESC [\<close>, its parameters and its final character, the most urgent has
  exactly the reason that the last 64 parameter characters and the final one spell, a cursor report
  request or a device query among them, and the scanner is back in ground state.\<close>

theorem cut_query_recognised:
  assumes "bs_mode s = Ground" and "list_all csi_payload_char payload" and "is_csi_final_byte final"
    and "concat frames = [CP_ESC, 0x5b] @ payload @ [final]"
  shows "Some (classify_csi_final (newest CSI_PAYLOAD_SUFFIX_LIMIT payload) final) \<in> bc_reason ` set (fst (scan_frames frames s))
    \<and> (\<forall>c \<in> set (fst (scan_frames frames s)).
         urgency (bc_reason c) \<le> reason_priority (classify_csi_final (newest CSI_PAYLOAD_SUFFIX_LIMIT payload) final))
    \<and> bs_mode (snd (scan_frames frames s)) = Ground"
proof -
  let ?r = "classify_csi_final (newest CSI_PAYLOAD_SUFFIX_LIMIT payload) final"
  let ?s = "enter_csi (enter_esc s)"
  have opener: "barrier_feed [CP_ESC, 0x5b] s = ([Control, Control], ?s)"
    using assms(1) by (simp add: barrier_step_def ground_step_def esc_step_def enter_defs code_points)
  have collected: "barrier_feed payload ?s = (replicate (length payload) Control,
      ?s\<lparr>bs_csi_payload_suffix := newest CSI_PAYLOAD_SUFFIX_LIMIT payload\<rparr>)"
    using csi_collects [OF _ _ assms(2), of ?s] by (simp add: enter_defs)
  have closed: "barrier_feed [final] (?s\<lparr>bs_csi_payload_suffix := newest CSI_PAYLOAD_SUFFIX_LIMIT payload\<rparr>)
      = ([Control, ?r], enter_ground ?s)"
    using assms(3) by (auto simp: barrier_step_def csi_step_def enter_defs is_csi_final_byte_def code_points)
  have feed: "barrier_feed (concat frames) s
      = ([Control, Control] @ replicate (length payload) Control @ [Control, ?r], enter_ground ?s)"
    unfolding assms(4)
    using barrier.feed_append [where s = s and cs = "[CP_ESC, 0x5b]" and ds = "payload @ [final]"]
      barrier.feed_append [where s = ?s and cs = payload and ds = "[final]"]
    by (simp add: opener collected closed del: barrier_feed_simps)
  have low: "1 \<le> reason_priority ?r" by (cases ?r) simp_all
  have "urgency (bc_reason (fst (scan (concat frames) s))) = urgency (Some ?r)"
    unfolding scan_urgency feed using assms(1) low peak_replicate [of "length payload"]
    by (simp add: standing_def max_def)
  then have whole: "bc_reason (fst (scan (concat frames) s)) = Some ?r" unfolding urgency_inj .
  have "frames \<noteq> []" using assms(4) by auto
  note most = scan_frames_urgency [OF this, of s, unfolded whole]
  then have "Some ?r \<in> bc_reason ` set (fst (scan_frames frames s))" by (metis image_eqI)
  then show ?thesis using most feed by (simp add: scan_frames_state enter_defs)
qed

theorem cut_query_recognised_witness:
  "Some RequestMode \<in> bc_reason ` set (fst (scan_frames [[0x1b], [0x5b, 0x36], [0x6e]] scanner_new))"
  using cut_query_recognised [of scanner_new "[0x36]" "0x6e" "[[0x1b], [0x5b, 0x36], [0x6e]]"]
  by (simp add: scanner_new_def csi_payload_char_def is_csi_final_byte_def code_points newest_def
      CSI_PAYLOAD_SUFFIX_LIMIT_def classify_csi_final_def del: feed_all.simps)

lemma string_body:
  assumes "bs_mode s \<in> {Osc, Dcs, Apc}" and "\<not> bs_string_esc_pending s"
    and "list_all (\<lambda>c. c \<notin> {CP_ESC, CP_ST, CP_BEL}) body"
  shows "snd (barrier_feed body s) = s"
  using assms
proof (induction body)
  case (Cons c cs)
  have "snd (barrier_step c s) = s"
    using Cons.prems by (auto simp: barrier_step_def process_string_mode_def)
  then show ?case using Cons by simp
qed simp

lemma osc_frames:
  assumes "bs_mode s = Osc" and "\<not> bs_string_esc_pending s"
    and "list_all (\<lambda>c. c \<notin> {CP_ESC, CP_ST, CP_BEL}) (concat frames)"
  shows "snd (scan_frames frames s) = s \<and> (\<forall>c \<in> set (fst (scan_frames frames s)). bc_reason c = Some Osc52)"
  using assms
proof (induction frames)
  case (Cons d ds)
  have stay: "snd (barrier_feed d s) = s" using Cons.prems by (intro string_body) auto
  have "urgency (bc_reason (fst (scan d s))) = urgency (Some Osc52)"
    using Cons.prems(1) peak_le [of "fst (barrier_feed d s)"]
    by (simp add: scan_urgency standing_def default_reason_for_mode_def max_def)
  then have "bc_reason (fst (scan d s)) = Some Osc52" unfolding urgency_inj .
  then show ?case using Cons stay by (simp add: scan_frames_Cons del: feed_all.simps)
qed simp

text \<open>A clipboard write is never merged with anything. From its introducer \<open>ESC ]\<close> to its
  terminator, every frame that carries a part of an operating system command is a barrier with the
  clipboard's reason, the most urgent there is, and the terminator ends it.\<close>

theorem osc_never_merges:
  assumes "bs_mode s = Ground"
    and "list_all (\<lambda>c. c \<notin> {CP_ESC, CP_ST, CP_BEL}) (body @ concat frames)"
    and "terminator \<in> {[CP_BEL], [CP_ST], [CP_ESC, 0x5c]}"
  shows "(\<forall>c \<in> set (fst (scan_frames ((CP_ESC # 0x5d # body) # frames @ [terminator]) s)).
      bc_reason c = Some Osc52 \<and> bc_barrier c)
    \<and> bs_mode (snd (scan_frames ((CP_ESC # 0x5d # body) # frames @ [terminator]) s)) = Ground"
proof -
  let ?s = "enter_string_mode Osc (enter_esc s)" and ?f = "CP_ESC # 0x5d # body"
  have mode: "bs_mode ?s = Osc" "\<not> bs_string_esc_pending ?s" by (simp_all add: enter_defs)
  have opener: "barrier_feed [CP_ESC, 0x5d] s = ([Control, Control, Osc52], ?s)"
    using assms(1) by (simp add: barrier_step_def ground_step_def esc_step_def enter_defs code_points)
  have "snd (barrier_feed body ?s) = ?s" using assms(2) mode by (intro string_body) auto
  then have head: "snd (barrier_feed ?f s) = ?s" "5 \<le> peak (fst (barrier_feed ?f s))"
    using barrier.feed_append [where s = s and cs = "[CP_ESC, 0x5d]" and ds = body]
    by (simp_all add: opener case_prod_beta Let_def del: barrier_feed_simps)
  have osc: "bc_reason (fst (scan data s')) = Some Osc52"
    if "5 \<le> peak (fst (barrier_feed data s')) \<or> bs_mode s' = Osc" for data s'
  proof -
    have "urgency (bc_reason (fst (scan data s'))) = urgency (Some Osc52)"
      using that peak_le [of "fst (barrier_feed data s')"]
      by (auto simp: scan_urgency standing_def default_reason_for_mode_def max_def)
    then show ?thesis unfolding urgency_inj .
  qed
  have rest: "snd (scan_frames frames ?s) = ?s" "\<forall>c \<in> set (fst (scan_frames frames ?s)). bc_reason c = Some Osc52"
    using osc_frames [OF mode] assms(2) by auto
  have "bs_mode (snd (barrier_feed terminator ?s)) = Ground"
    using assms(3) by (auto simp: barrier_step_def process_string_mode_def enter_defs code_points)
  then show ?thesis
    using osc [of ?f s] osc [of terminator ?s] head rest mode(1) frames_barrier
    by (auto simp: scan_frames_Cons feed_all_append scan_fields(1) simp del: feed_all.simps(2) barrier_feed_simps)
qed

theorem osc_never_merges_witness:
  "\<forall>c \<in> set (fst (scan_frames [[0x1b, 0x5d, 0x35], [0x32], [0x07]] scanner_new)). bc_reason c = Some Osc52"
  using osc_never_merges [of scanner_new "[0x35]" "[[0x32]]" "[0x07]"]
  by (simp add: scanner_new_def code_points del: feed_all.simps)

end
