(* ===== verification/Output_Batch.thy ===== *)
theory Output_Batch
  imports Barrier_Scanner
begin

text \<open>
  Batches of terminal output (crates/freshell-terminal/src/batch.rs): consecutive frames that are plain
  text are merged into one message with a table of segments, everything else travels alone, and a batch
  that is too large for one message is packed into several. The size of a message as JSON, which a
  library computes, is the parameter \<open>weigh\<close>.
\<close>

section \<open>Data\<close>

record BatchInputFrame =
  bf_seq_start :: int
  bf_seq_end :: int
  bf_data :: utext
  bf_bytes :: nat
  bf_stream_id :: string
  bf_barrier :: bool
  bf_barrier_reason :: "BarrierReason option"
  bf_state_before :: ScannerState
  bf_state_after :: ScannerState

definition classified :: "int \<Rightarrow> utext \<Rightarrow> BarrierScanner \<Rightarrow> string \<Rightarrow> BatchInputFrame \<times> BarrierScanner" where
  "classified seq data scanner stream_id =
     (let (c, scanner') = scan data scanner in
      (\<lparr>bf_seq_start = seq, bf_seq_end = seq, bf_data = data, bf_bytes = byte_len data,
        bf_stream_id = stream_id, bf_barrier = bc_barrier c, bf_barrier_reason = bc_reason c,
        bf_state_before = bc_state_before c, bf_state_after = bc_state_after c\<rparr>, scanner'))"

record BatchSegment =
  sg_seq_start :: int
  sg_seq_end :: int
  sg_stream_id :: string
  sg_offset :: int
  sg_end_offset :: int
  sg_bytes :: nat
  sg_barrier :: bool
  sg_barrier_reason :: "BarrierReason option"
  sg_state_before :: ScannerState
  sg_state_after :: ScannerState

record OutputBatch =
  ob_seq_start :: int
  ob_seq_end :: int
  ob_data :: utext
  ob_bytes :: nat
  ob_stream_id :: string
  ob_attach_request_id :: "string option"
  ob_source :: "string option"
  ob_barrier :: bool
  ob_barrier_reason :: "BarrierReason option"
  ob_state_before :: ScannerState
  ob_state_after :: ScannerState
  ob_segments :: "BatchSegment list"
  ob_legacy_bytes :: nat

text \<open>The messages: one \<open>terminal.output\<close>, or a \<open>terminal.output.batch\<close> with its own size in it.\<close>

record WireSegment =
  ws_seq_start :: int
  ws_seq_end :: int
  ws_end_offset :: int
  ws_raw_frame_count :: int
  ws_barrier :: "string option"

record OutputMessage =
  om_terminal_id :: string
  om_stream_id :: string
  om_seq_start :: int
  om_seq_end :: int
  om_data :: utext
  om_attach_request_id :: "string option"
  om_source :: "string option"

record BatchMessage =
  bm_terminal_id :: string
  bm_stream_id :: string
  bm_attach_request_id :: string
  bm_source :: string
  bm_seq_start :: int
  bm_seq_end :: int
  bm_data :: utext
  bm_serialized_bytes :: int
  bm_segments :: "WireSegment list"

datatype Message = Output OutputMessage | Batch BatchMessage

definition digit_count :: "int \<Rightarrow> nat" where
  "digit_count n = length (decimal (nat (if n = - (2 ^ 63) then 2 ^ 63 - 1 else \<bar>n\<bar>)))"

definition utf16_size :: "utext \<Rightarrow> int" where
  "utf16_size s = int (utf16_len s)"

fun slice_from :: "utext \<Rightarrow> int \<Rightarrow> int \<Rightarrow> int \<Rightarrow> utext" where
  "slice_from [] pos start end_pos = []"
| "slice_from (c # cs) pos start end_pos =
     (let w = int (len_utf16 c); keep = (if start \<le> pos \<and> pos + w \<le> end_pos then [c] else []) in
      if end_pos \<le> pos + w then keep else keep @ slice_from cs (pos + w) start end_pos)"

definition slice_utf16 :: "utext \<Rightarrow> int \<Rightarrow> int \<Rightarrow> utext" where
  "slice_utf16 s start end_pos =
     (let start = max start 0; end_pos = max end_pos start in slice_from s 0 start end_pos)"

section \<open>Merging\<close>

record MutableBatch =
  mb_seq_start :: int
  mb_seq_end :: int
  mb_chunks :: "utext list"
  mb_data_length :: int
  mb_bytes :: nat
  mb_stream_id :: string
  mb_attach_request_id :: "string option"
  mb_source :: "string option"
  mb_state_before :: ScannerState
  mb_state_after :: ScannerState
  mb_segments :: "BatchSegment list"
  mb_legacy_bytes :: nat

record BatchBuildInput =
  bi_frames :: "BatchInputFrame list"
  bi_max_serialized_bytes :: int
  bi_max_total_serialized_bytes :: "int option"
  bi_terminal_id :: string
  bi_attach_request_id :: "string option"
  bi_source :: "string option"

definition is_transparent_ground :: "BatchInputFrame \<Rightarrow> bool" where
  "is_transparent_ground frame =
     (\<not> bf_barrier frame \<and> ss_mode (bf_state_before frame) = Ground \<and> ss_mode (bf_state_after frame) = Ground)"

definition segment_for_frame :: "BatchInputFrame \<Rightarrow> int \<Rightarrow> BatchSegment" where
  "segment_for_frame frame offset =
     \<lparr>sg_seq_start = bf_seq_start frame, sg_seq_end = bf_seq_end frame, sg_stream_id = bf_stream_id frame,
      sg_offset = offset, sg_end_offset = offset + utf16_size (bf_data frame), sg_bytes = bf_bytes frame,
      sg_barrier = bf_barrier frame,
      sg_barrier_reason = (if bf_barrier frame then bf_barrier_reason frame else None),
      sg_state_before = bf_state_before frame, sg_state_after = bf_state_after frame\<rparr>"

definition normalize_budget :: "int \<Rightarrow> int" where
  "normalize_budget v = (if 0 < v then v else 0)"

definition frame_attach_request_id :: "BatchBuildInput \<Rightarrow> BatchInputFrame \<Rightarrow> string option" where
  "frame_attach_request_id inp frame = bi_attach_request_id inp"

definition measure_legacy_for ::
  "(Message \<Rightarrow> nat) \<Rightarrow> BatchBuildInput \<Rightarrow> utext \<Rightarrow> int \<Rightarrow> int \<Rightarrow> string \<Rightarrow> nat" where
  "measure_legacy_for weigh inp data seq_start seq_end stream_id =
     weigh (Output \<lparr>om_terminal_id = bi_terminal_id inp, om_stream_id = stream_id, om_seq_start = seq_start,
       om_seq_end = seq_end, om_data = data, om_attach_request_id = bi_attach_request_id inp,
       om_source = bi_source inp\<rparr>)"

definition can_merge :: "MutableBatch \<Rightarrow> BatchInputFrame \<Rightarrow> BatchBuildInput \<Rightarrow> bool" where
  "can_merge cur frame inp =
     (if \<not> is_transparent_ground frame then False
      else if ss_mode (mb_state_before cur) \<noteq> Ground \<or> ss_mode (mb_state_after cur) \<noteq> Ground then False
      else if bf_seq_start frame \<noteq> mb_seq_end cur + 1 then False
      else if bf_stream_id frame \<noteq> mb_stream_id cur then False
      else if frame_attach_request_id inp frame \<noteq> mb_attach_request_id cur then False
      else if bi_source inp \<noteq> mb_source cur then False
      else True)"

definition start_mutable_batch :: "(Message \<Rightarrow> nat) \<Rightarrow> BatchInputFrame \<Rightarrow> BatchBuildInput \<Rightarrow> MutableBatch" where
  "start_mutable_batch weigh frame inp =
     \<lparr>mb_seq_start = bf_seq_start frame, mb_seq_end = bf_seq_end frame, mb_chunks = [bf_data frame],
      mb_data_length = utf16_size (bf_data frame), mb_bytes = bf_bytes frame,
      mb_stream_id = bf_stream_id frame, mb_attach_request_id = frame_attach_request_id inp frame,
      mb_source = bi_source inp, mb_state_before = bf_state_before frame,
      mb_state_after = bf_state_after frame, mb_segments = [segment_for_frame frame 0],
      mb_legacy_bytes =
        measure_legacy_for weigh inp (bf_data frame) (bf_seq_start frame) (bf_seq_end frame) (bf_stream_id frame)\<rparr>"

definition measure_merged :: "(Message \<Rightarrow> nat) \<Rightarrow> MutableBatch \<Rightarrow> BatchInputFrame \<Rightarrow> BatchBuildInput \<Rightarrow> nat" where
  "measure_merged weigh cur frame inp =
     measure_legacy_for weigh inp (concat (mb_chunks cur) @ bf_data frame) (mb_seq_start cur) (bf_seq_end frame)
       (mb_stream_id cur)"

definition append_mutable :: "MutableBatch \<Rightarrow> BatchInputFrame \<Rightarrow> nat \<Rightarrow> MutableBatch" where
  "append_mutable cur frame legacy =
     cur\<lparr>mb_seq_end := bf_seq_end frame, mb_chunks := mb_chunks cur @ [bf_data frame],
         mb_data_length := mb_data_length cur + utf16_size (bf_data frame),
         mb_bytes := mb_bytes cur + bf_bytes frame, mb_state_after := bf_state_after frame,
         mb_segments := mb_segments cur @ [segment_for_frame frame (mb_data_length cur)],
         mb_legacy_bytes := legacy\<rparr>"

definition flush_mutable :: "MutableBatch \<Rightarrow> OutputBatch" where
  "flush_mutable b =
     \<lparr>ob_seq_start = mb_seq_start b, ob_seq_end = mb_seq_end b, ob_data = concat (mb_chunks b),
      ob_bytes = mb_bytes b, ob_stream_id = mb_stream_id b, ob_attach_request_id = mb_attach_request_id b,
      ob_source = mb_source b, ob_barrier = False, ob_barrier_reason = None,
      ob_state_before = mb_state_before b, ob_state_after = mb_state_after b, ob_segments = mb_segments b,
      ob_legacy_bytes = mb_legacy_bytes b\<rparr>"

definition build_single_batch :: "(Message \<Rightarrow> nat) \<Rightarrow> BatchInputFrame \<Rightarrow> BatchBuildInput \<Rightarrow> OutputBatch" where
  "build_single_batch weigh frame inp =
     \<lparr>ob_seq_start = bf_seq_start frame, ob_seq_end = bf_seq_end frame, ob_data = bf_data frame,
      ob_bytes = bf_bytes frame, ob_stream_id = bf_stream_id frame,
      ob_attach_request_id = frame_attach_request_id inp frame, ob_source = bi_source inp,
      ob_barrier = bf_barrier frame,
      ob_barrier_reason = (if bf_barrier frame then bf_barrier_reason frame else None),
      ob_state_before = bf_state_before frame, ob_state_after = bf_state_after frame,
      ob_segments = [segment_for_frame frame 0],
      ob_legacy_bytes =
        measure_legacy_for weigh inp (bf_data frame) (bf_seq_start frame) (bf_seq_end frame) (bf_stream_id frame)\<rparr>"

text \<open>\<open>push_batch!\<close>: the total budget refuses a batch, except the first. \<open>None\<close> is the refusal, on which
  the builder returns what it has.\<close>

definition i64_largest :: int where "i64_largest = 2 ^ 63 - 1"

definition push_batch :: "int \<Rightarrow> OutputBatch \<Rightarrow> OutputBatch list \<times> int \<Rightarrow> (OutputBatch list \<times> int) option" where
  "push_batch max_total batch =
     (\<lambda>(batches, total_legacy).
        if max_total \<noteq> i64_largest \<and> max_total < total_legacy + int (ob_legacy_bytes batch) \<and> batches \<noteq> []
        then None
        else Some (batches @ [batch], total_legacy + int (ob_legacy_bytes batch)))"

definition push_current ::
  "int \<Rightarrow> MutableBatch option \<Rightarrow> OutputBatch list \<times> int \<Rightarrow> (OutputBatch list \<times> int) option" where
  "push_current max_total current acc =
     (case current of None \<Rightarrow> Some acc | Some cur \<Rightarrow> push_batch max_total (flush_mutable cur) acc)"

fun build_loop ::
  "(Message \<Rightarrow> nat) \<Rightarrow> BatchBuildInput \<Rightarrow> int \<Rightarrow> int \<Rightarrow> BatchInputFrame list \<Rightarrow> OutputBatch list \<times> int
   \<Rightarrow> MutableBatch option \<Rightarrow> OutputBatch list" where
  "build_loop weigh inp max_bytes max_total [] acc current =
     (case push_current max_total current acc of None \<Rightarrow> fst acc | Some (batches, spent) \<Rightarrow> batches)"
| "build_loop weigh inp max_bytes max_total (frame # frames) acc current =
     (if \<not> is_transparent_ground frame
      then (case push_current max_total current acc of
              None \<Rightarrow> fst acc
            | Some acc \<Rightarrow>
                (case push_batch max_total (build_single_batch weigh frame inp) acc of
                   None \<Rightarrow> fst acc
                 | Some acc \<Rightarrow> build_loop weigh inp max_bytes max_total frames acc None))
      else
        (case current of
           Some cur \<Rightarrow>
             if can_merge cur frame inp \<and> int (measure_merged weigh cur frame inp) \<le> max_bytes
             then build_loop weigh inp max_bytes max_total frames acc
                    (Some (append_mutable cur frame (measure_merged weigh cur frame inp)))
             else (case push_current max_total current acc of
                     None \<Rightarrow> fst acc
                   | Some acc \<Rightarrow>
                       build_loop weigh inp max_bytes max_total frames acc
                         (Some (start_mutable_batch weigh frame inp)))
         | None \<Rightarrow>
             build_loop weigh inp max_bytes max_total frames acc (Some (start_mutable_batch weigh frame inp))))"

definition build_terminal_output_batches :: "(Message \<Rightarrow> nat) \<Rightarrow> BatchBuildInput \<Rightarrow> OutputBatch list" where
  "build_terminal_output_batches weigh inp =
     (let max_serialized_bytes = normalize_budget (bi_max_serialized_bytes inp);
          max_total = (case bi_max_total_serialized_bytes inp of None \<Rightarrow> i64_largest | Some v \<Rightarrow> normalize_budget v)
      in if max_serialized_bytes \<le> 0 \<or> max_total \<le> 0 then []
         else build_loop weigh inp max_serialized_bytes max_total (bi_frames inp) ([], 0) None)"

section \<open>The messages\<close>

fun wire_segments :: "BatchSegment list \<Rightarrow> int \<Rightarrow> int \<Rightarrow> WireSegment list" where
  "wire_segments [] base_offset previous_end_offset = []"
| "wire_segments (seg # segs) base_offset previous_end_offset =
     (let relative = max previous_end_offset (sg_end_offset seg - base_offset) in
      \<lparr>ws_seq_start = sg_seq_start seg, ws_seq_end = sg_seq_end seg, ws_end_offset = relative,
       ws_raw_frame_count = max (sg_seq_end seg - sg_seq_start seg + 1) 1,
       ws_barrier = (if sg_barrier seg then map_option reason_as_str (sg_barrier_reason seg) else None)\<rparr>
      # wire_segments segs base_offset relative)"

text \<open>\<open>serializedBytes\<close> is part of what it measures; four passes reach the value that measures itself.\<close>

fun size_fixpoint :: "nat \<Rightarrow> (int \<Rightarrow> nat) \<Rightarrow> int \<Rightarrow> int" where
  "size_fixpoint 0 measure_with serialized_bytes = serialized_bytes"
| "size_fixpoint (Suc n) measure_with serialized_bytes =
     (let measured = int (measure_with serialized_bytes) in
      if measured = serialized_bytes then serialized_bytes else size_fixpoint n measure_with measured)"

definition start_offset :: "OutputBatch \<Rightarrow> nat \<Rightarrow> int" where
  "start_offset batch start = (if start = 0 then 0 else sg_end_offset (ob_segments batch ! (start - 1)))"

definition build_batch_payload ::
  "(Message \<Rightarrow> nat) \<Rightarrow> string \<Rightarrow> OutputBatch \<Rightarrow> string \<Rightarrow> string \<Rightarrow> nat \<Rightarrow> nat \<Rightarrow> BatchMessage" where
  "build_batch_payload weigh terminal_id batch attach_request_id source start stop =
     (let first = ob_segments batch ! start;
          last = ob_segments batch ! (stop - 1);
          data = slice_utf16 (ob_data batch) (start_offset batch start) (sg_end_offset last);
          segments = wire_segments (drop start (take stop (ob_segments batch))) (start_offset batch start) 0;
          base = (\<lambda>serialized_bytes.
            \<lparr>bm_terminal_id = terminal_id, bm_stream_id = ob_stream_id batch,
             bm_attach_request_id = attach_request_id, bm_source = source, bm_seq_start = sg_seq_start first,
             bm_seq_end = sg_seq_end last, bm_data = data, bm_serialized_bytes = serialized_bytes,
             bm_segments = segments\<rparr>)
      in base (size_fixpoint 4 (\<lambda>n. weigh (Batch (base n))) 0))"

definition single_segment_fallback ::
  "string \<Rightarrow> OutputBatch \<Rightarrow> string \<Rightarrow> string \<Rightarrow> nat \<Rightarrow> OutputMessage" where
  "single_segment_fallback terminal_id batch attach_request_id source segment_index =
     (let seg = ob_segments batch ! segment_index;
          start = start_offset batch segment_index;
          data = slice_utf16 (ob_data batch) start (max start (sg_end_offset seg))
      in \<lparr>om_terminal_id = terminal_id, om_stream_id = ob_stream_id batch, om_seq_start = sg_seq_start seg,
          om_seq_end = sg_seq_end seg, om_data = data, om_attach_request_id = Some attach_request_id,
          om_source = Some source\<rparr>)"

text \<open>The inner loop extends a message while it fits, the outer one packs the rest.\<close>

function extend_payload ::
  "(nat \<Rightarrow> nat \<Rightarrow> BatchMessage) \<Rightarrow> int \<Rightarrow> nat \<Rightarrow> nat \<Rightarrow> nat \<Rightarrow> BatchMessage \<Rightarrow> BatchMessage \<times> nat" where
  "extend_payload payload max_bytes seg_count start stop best =
     (if stop < seg_count
      then (let candidate = payload start (stop + 1) in
            if max_bytes < bm_serialized_bytes candidate then (best, stop)
            else extend_payload payload max_bytes seg_count start (stop + 1) candidate)
      else (best, stop))"
  by pat_completeness auto
termination
  by (relation "measure (\<lambda>(payload, max_bytes, seg_count, start, stop, best). seg_count - stop)") auto

declare extend_payload.simps [simp del]

lemma extend_payload_stop: "stop \<le> snd (extend_payload payload max_bytes seg_count start stop best)"
proof (induction payload max_bytes seg_count start stop best rule: extend_payload.induct)
  case (1 payload max_bytes seg_count start stop best)
  then show ?case by (subst extend_payload.simps) (force simp: Let_def)
qed

function pack_payloads ::
  "(nat \<Rightarrow> nat \<Rightarrow> BatchMessage) \<Rightarrow> (nat \<Rightarrow> OutputMessage) \<Rightarrow> int \<Rightarrow> nat \<Rightarrow> nat \<Rightarrow> Message list" where
  "pack_payloads payload fallback max_bytes seg_count start =
     (if start < seg_count
      then (let current = payload start (start + 1) in
            if max_bytes < bm_serialized_bytes current
            then Output (fallback start) # pack_payloads payload fallback max_bytes seg_count (start + 1)
            else (case extend_payload payload max_bytes seg_count start (start + 1) current of
                    (best, stop) \<Rightarrow> Batch best # pack_payloads payload fallback max_bytes seg_count stop))
      else [])"
  by pat_completeness auto
termination
proof (relation "measure (\<lambda>(payload, fallback, max_bytes, seg_count, start). seg_count - start)", goal_cases)
  case (3 payload fallback max_bytes seg_count start current best stop)
  have "stop = snd (extend_payload payload max_bytes seg_count start (start + 1) current)"
    using 3 by (metis snd_conv)
  then show ?case using 3(1) extend_payload_stop [of "start + 1" payload max_bytes seg_count start current] by simp
qed auto

declare pack_payloads.simps [simp del]

definition build_batch_wire_payloads ::
  "(Message \<Rightarrow> nat) \<Rightarrow> string \<Rightarrow> OutputBatch \<Rightarrow> string \<Rightarrow> string \<Rightarrow> int \<Rightarrow> Message list" where
  "build_batch_wire_payloads weigh terminal_id batch attach_request_id source batch_max_bytes =
     (let seg_count = length (ob_segments batch);
          payload = build_batch_payload weigh terminal_id batch attach_request_id source;
          fallback = single_segment_fallback terminal_id batch attach_request_id source
      in if seg_count = 0 then []
         else if bm_serialized_bytes (payload 0 seg_count) \<le> batch_max_bytes then [Batch (payload 0 seg_count)]
         else if seg_count \<le> 1 then [Output (fallback 0)]
         else pack_payloads payload fallback batch_max_bytes seg_count 0)"

definition frames_to_wire_payloads ::
  "(Message \<Rightarrow> nat) \<Rightarrow> BatchInputFrame list \<Rightarrow> string \<Rightarrow> string \<Rightarrow> string \<Rightarrow> int \<Rightarrow> Message list" where
  "frames_to_wire_payloads weigh frames terminal_id attach_request_id source batch_max_bytes =
     (let inp = \<lparr>bi_frames = frames, bi_max_serialized_bytes = batch_max_bytes,
            bi_max_total_serialized_bytes = None, bi_terminal_id = terminal_id,
            bi_attach_request_id = Some attach_request_id, bi_source = Some source\<rparr>
      in concat (map (\<lambda>batch. build_batch_wire_payloads weigh terminal_id batch attach_request_id source batch_max_bytes)
           (build_terminal_output_batches weigh inp)))"

end
