(* ===== verification/Batch_Props.thy ===== *)
theory Batch_Props
  imports Output_Batch
begin

text \<open>
  What a client that reads batches can rely on: the messages carry the frames' text in order and
  nothing else, each message can be cut back into its frames, only plain text is merged, a message says
  its own size, and no message is larger than the budget unless one frame is.
\<close>

section \<open>Slices\<close>

lemma utf16_size_simps [simp]:
  "utf16_size [] = 0" "utf16_size (s @ t) = utf16_size s + utf16_size t" "0 \<le> utf16_size s"
  by (simp_all add: utf16_size_def)

lemma utf16_size_Cons: "utf16_size (c # s) = int (len_utf16 c) + utf16_size s"
  by (simp add: utf16_size_def)

lemma utf16_size_pos: "s \<noteq> [] \<Longrightarrow> 0 < utf16_size s"
  using utf16_len_zero [of s] by (simp add: utf16_size_def del: utf16_len_zero)

lemma width_pos: "0 < int (len_utf16 c)"
  using len_pos(2) [of c] by linarith

lemma slice_before: "pos + utf16_size pre \<le> start \<Longrightarrow> start < end_pos \<Longrightarrow>
    slice_from (pre @ s) pos start end_pos = slice_from s (pos + utf16_size pre) start end_pos"
proof (induction pre arbitrary: pos)
  case (Cons c pre)
  have "pos + int (len_utf16 c) \<le> start"
    using Cons.prems(1) utf16_size_simps(3) [of pre] unfolding utf16_size_Cons by linarith
  moreover from this have "\<not> start \<le> pos" "\<not> end_pos \<le> pos + int (len_utf16 c)"
    using Cons.prems(2) width_pos [of c] by linarith+
  ultimately show ?case
    using Cons.IH [of "pos + int (len_utf16 c)"] Cons.prems by (simp add: utf16_size_Cons Let_def algebra_simps)
qed simp

lemma slice_inside: "start \<le> pos \<Longrightarrow> s \<noteq> [] \<Longrightarrow> end_pos = pos + utf16_size s \<Longrightarrow> slice_from (s @ post) pos start end_pos = s"
proof (induction s arbitrary: pos)
  case (Cons c s)
  then show ?case
    using Cons.IH [of "pos + int (len_utf16 c)"] width_pos [of c] utf16_size_pos [of s]
    by (cases "s = []") (simp_all add: utf16_size_Cons Let_def)
qed simp

lemma slice_empty: "slice_from s pos start start = []"
  by (induction s arbitrary: pos) (use width_pos in \<open>auto simp: Let_def dest: leD\<close>)

lemma slice_parts: "slice_utf16 (pre @ s @ post) (utf16_size pre) (utf16_size pre + utf16_size s) = s"
proof (cases "s = []")
  case True
  then show ?thesis by (simp add: slice_utf16_def slice_empty Let_def)
next
  case False
  then show ?thesis
    using slice_before [of 0 pre "utf16_size pre" "utf16_size pre + utf16_size s" "s @ post"] utf16_size_pos [of s]
      slice_inside [of "utf16_size pre" "utf16_size pre" s]
    by (simp add: slice_utf16_def Let_def max_absorb1)
qed

section \<open>Groups of frames\<close>

abbreviation text_of :: "BatchInputFrame list \<Rightarrow> utext" where
  "text_of fs \<equiv> concat (map bf_data fs)"

fun segments_of :: "int \<Rightarrow> BatchInputFrame list \<Rightarrow> BatchSegment list" where
  "segments_of offset [] = []"
| "segments_of offset (f # fs) = segment_for_frame f offset # segments_of (offset + utf16_size (bf_data f)) fs"

lemma segments_of_snoc: "segments_of offset (fs @ [f]) = segments_of offset fs @ [segment_for_frame f (offset + utf16_size (text_of fs))]"
  by (induction fs arbitrary: offset) (simp_all add: add.assoc)

lemma length_segments_of [simp]: "length (segments_of offset fs) = length fs"
  by (induction fs arbitrary: offset) simp_all

text \<open>A batch made of a group of frames, and what a group of more than one frame must be.\<close>

definition batch_of :: "BatchInputFrame list \<Rightarrow> OutputBatch \<Rightarrow> bool" where
  "batch_of fs b =
     (fs \<noteq> [] \<and> ob_data b = text_of fs \<and> ob_segments b = segments_of 0 fs
      \<and> ob_bytes b = sum_list (map bf_bytes fs) \<and> ob_seq_start b = bf_seq_start (hd fs)
      \<and> ob_seq_end b = bf_seq_end (last fs) \<and> ob_stream_id b = bf_stream_id (hd fs))"

definition one_run :: "BatchInputFrame list \<Rightarrow> bool" where
  "one_run fs =
     (list_all is_transparent_ground fs \<and> list_all (\<lambda>f. bf_stream_id f = bf_stream_id (hd fs)) fs
      \<and> successively (\<lambda>f g. bf_seq_start g = bf_seq_end f + 1) fs)"

definition batch_ok :: "(Message \<Rightarrow> nat) \<Rightarrow> BatchBuildInput \<Rightarrow> int \<Rightarrow> BatchInputFrame list \<Rightarrow> OutputBatch \<Rightarrow> bool" where
  "batch_ok weigh inp max_bytes fs b =
     (batch_of fs b
      \<and> ob_legacy_bytes b = measure_legacy_for weigh inp (ob_data b) (ob_seq_start b) (ob_seq_end b) (ob_stream_id b)
      \<and> (length fs = 1 \<or> one_run fs \<and> int (ob_legacy_bytes b) \<le> max_bytes))"

definition open_ok :: "(Message \<Rightarrow> nat) \<Rightarrow> BatchBuildInput \<Rightarrow> int \<Rightarrow> BatchInputFrame list \<Rightarrow> MutableBatch \<Rightarrow> bool" where
  "open_ok weigh inp max_bytes fs cur =
     (batch_ok weigh inp max_bytes fs (flush_mutable cur) \<and> one_run fs
      \<and> mb_data_length cur = utf16_size (text_of fs))"

lemma single_ok: "batch_ok weigh inp max_bytes [f] (build_single_batch weigh f inp)"
  by (simp add: batch_ok_def batch_of_def build_single_batch_def)

lemma start_ok: "is_transparent_ground f \<Longrightarrow> open_ok weigh inp max_bytes [f] (start_mutable_batch weigh f inp)"
  by (simp add: open_ok_def batch_ok_def batch_of_def one_run_def start_mutable_batch_def flush_mutable_def)

lemma append_ok:
  assumes "open_ok weigh inp max_bytes fs cur" and "can_merge cur f inp"
    and "int (measure_merged weigh cur f inp) \<le> max_bytes"
  shows "open_ok weigh inp max_bytes (fs @ [f]) (append_mutable cur f (measure_merged weigh cur f inp))"
proof -
  have of: "batch_of fs (flush_mutable cur)" "mb_data_length cur = utf16_size (text_of fs)"
    using assms(1) by (simp_all add: open_ok_def batch_ok_def)
  have "bf_seq_start f = mb_seq_end cur + 1" "bf_stream_id f = mb_stream_id cur" "is_transparent_ground f"
    using assms(2) by (simp_all add: can_merge_def split: if_splits)
  with of(1) have fs: "fs \<noteq> []" "bf_seq_start f = bf_seq_end (last fs) + 1" "bf_stream_id f = bf_stream_id (hd fs)"
    "is_transparent_ground f"
    by (simp_all add: batch_of_def flush_mutable_def)
  have "one_run fs" using assms(1) by (simp add: open_ok_def)
  then have run: "list_all is_transparent_ground fs" "list_all (\<lambda>g. bf_stream_id g = bf_stream_id (hd fs)) fs"
    "successively (\<lambda>f g. bf_seq_start g = bf_seq_end f + 1) fs"
    by (simp_all add: one_run_def)
  have "list_all (\<lambda>g. bf_stream_id g = bf_stream_id (hd (fs @ [f]))) (fs @ [f])"
    unfolding hd_append2 [OF fs(1)] list_all_append using run(2) fs(3) by simp
  moreover have "successively (\<lambda>f g. bf_seq_start g = bf_seq_end f + 1) (fs @ [f])"
    unfolding successively_append_iff using run(3) fs(2) by simp
  ultimately have "one_run (fs @ [f])"
    unfolding one_run_def list_all_append using run(1) fs(4) by simp
  moreover have "flush_mutable (append_mutable cur f n) = (flush_mutable cur)\<lparr>ob_seq_end := bf_seq_end f,
      ob_data := ob_data (flush_mutable cur) @ bf_data f, ob_bytes := ob_bytes (flush_mutable cur) + bf_bytes f,
      ob_segments := ob_segments (flush_mutable cur) @ [segment_for_frame f (mb_data_length cur)],
      ob_state_after := bf_state_after f, ob_legacy_bytes := n\<rparr>" for n
    by (simp add: flush_mutable_def append_mutable_def)
  moreover have "measure_merged weigh cur f inp = measure_legacy_for weigh inp
      (ob_data (flush_mutable cur) @ bf_data f) (ob_seq_start (flush_mutable cur)) (bf_seq_end f) (ob_stream_id (flush_mutable cur))"
    by (simp add: measure_merged_def flush_mutable_def)
  ultimately show ?thesis
    using assms(3) fs(1) of by (simp add: open_ok_def batch_ok_def batch_of_def segments_of_snoc)
      (simp add: append_mutable_def)
qed

section \<open>The builder\<close>

text \<open>What the open batch holds, as the frames it has taken.\<close>

definition current_ok :: "(Message \<Rightarrow> nat) \<Rightarrow> BatchBuildInput \<Rightarrow> int \<Rightarrow> BatchInputFrame list \<Rightarrow> MutableBatch option \<Rightarrow> bool" where
  "current_ok weigh inp max_bytes taken current =
     (case current of None \<Rightarrow> taken = [] | Some cur \<Rightarrow> open_ok weigh inp max_bytes taken cur)"

definition built :: "(Message \<Rightarrow> nat) \<Rightarrow> BatchBuildInput \<Rightarrow> int \<Rightarrow> int \<Rightarrow> BatchInputFrame list \<Rightarrow> OutputBatch list \<Rightarrow> bool" where
  "built weigh inp max_bytes max_total fs bs =
     (\<exists>groups. list_all2 (batch_ok weigh inp max_bytes) groups bs \<and> prefix (concat groups) fs
        \<and> (max_total = i64_largest \<longrightarrow> concat groups = fs))"

lemma built_nothing: "fs = [] \<or> max_total \<noteq> i64_largest \<Longrightarrow> built weigh inp max_bytes max_total fs []"
  by (auto simp: built_def)

lemma built_Cons:
  "batch_ok weigh inp max_bytes fs b \<Longrightarrow> built weigh inp max_bytes max_total gs bs \<Longrightarrow>
   built weigh inp max_bytes max_total (fs @ gs) (b # bs)"
  unfolding built_def by (elim exE) (rule_tac x = "fs # groups" in exI, simp)

lemma push_batch_cases:
  "push_batch max_total b acc = None \<Longrightarrow> max_total \<noteq> i64_largest"
  "push_batch max_total b acc = Some acc' \<Longrightarrow> fst acc' = fst acc @ [b]"
  by (auto simp: push_batch_def split: if_splits prod.splits)

lemma push_current_built:
  assumes "current_ok weigh inp max_bytes taken current"
  shows "case push_current max_total current acc of
      None \<Rightarrow> max_total \<noteq> i64_largest
    | Some acc' \<Rightarrow> \<exists>bs. fst acc' = fst acc @ bs \<and> (\<forall>gs bs'. built weigh inp max_bytes max_total gs bs' \<longrightarrow>
        built weigh inp max_bytes max_total (taken @ gs) (bs @ bs'))"
proof (cases current)
  case None
  then show ?thesis using assms by (simp add: current_ok_def push_current_def)
next
  case (Some cur)
  then have "batch_ok weigh inp max_bytes taken (flush_mutable cur)"
    using assms by (simp add: current_ok_def open_ok_def)
  then show ?thesis
    using Some push_batch_cases [of max_total "flush_mutable cur" acc] built_Cons
    by (fastforce simp: push_current_def split: option.split intro!: exI [of _ "[flush_mutable cur]"])
qed

lemma build_loop_built:
  assumes "current_ok weigh inp max_bytes taken current"
  shows "\<exists>bs. build_loop weigh inp max_bytes max_total frames acc current = fst acc @ bs
    \<and> built weigh inp max_bytes max_total (taken @ frames) bs"
  using assms
proof (induction frames arbitrary: taken acc current)
  case Nil
  show ?case
    using push_current_built [OF Nil, of max_total acc] built_nothing [of "[]" max_total weigh inp max_bytes]
      built_nothing [of taken max_total weigh inp max_bytes]
    by (fastforce split: option.splits)
next
  case (Cons f frames)
  let ?built = "built weigh inp max_bytes max_total" and ?loop = "build_loop weigh inp max_bytes max_total"
  note flush = push_current_built [OF Cons.prems, of max_total acc]
  have stop: ?case if "?loop (f # frames) acc current = fst acc" "max_total \<noteq> i64_largest"
    using that built_nothing [of "taken @ f # frames" max_total weigh inp max_bytes] by fastforce
  show ?case
  proof (cases "is_transparent_ground f")
    case False
    show ?thesis
    proof (cases "push_current max_total current acc")
      case None
      then show ?thesis using stop flush False by simp
    next
      case (Some acc')
      with flush obtain bs where bs: "fst acc' = fst acc @ bs" "\<And>gs bs'. ?built gs bs' \<Longrightarrow> ?built (taken @ gs) (bs @ bs')" by auto
      show ?thesis
      proof (cases "push_batch max_total (build_single_batch weigh f inp) acc'")
        case None
        then have "?built (f # frames) []" using push_batch_cases(1) by (intro built_nothing) auto
        from bs(2) [OF this] None Some False bs(1) show ?thesis by (intro exI [of _ bs]) simp
      next
        case Push: (Some acc'')
        have "current_ok weigh inp max_bytes [] None" by (simp add: current_ok_def)
        from Cons.IH [OF this, of acc''] obtain cs where
          cs: "?loop frames acc'' None = fst acc'' @ cs" "?built frames cs" by auto
        from bs(2) [OF built_Cons [OF single_ok cs(2), of f]] push_batch_cases(2) [OF Push] bs(1) cs(1) Some Push False
        show ?thesis by (intro exI [of _ "bs @ build_single_batch weigh f inp # cs"]) simp
      qed
    qed
  next
    case True
    show ?thesis
    proof (cases current)
      case None
      then have "taken = []" using Cons.prems by (simp add: current_ok_def)
      moreover have "current_ok weigh inp max_bytes [f] (Some (start_mutable_batch weigh f inp))"
        using start_ok [OF True] by (simp add: current_ok_def)
      ultimately show ?thesis using Cons.IH [of "[f]" "Some (start_mutable_batch weigh f inp)" acc] None True by simp
    next
      case cur: (Some cur)
      show ?thesis
      proof (cases "can_merge cur f inp \<and> int (measure_merged weigh cur f inp) \<le> max_bytes")
        case merge: True
        then have "current_ok weigh inp max_bytes (taken @ [f]) (Some (append_mutable cur f (measure_merged weigh cur f inp)))"
          using Cons.prems cur append_ok by (simp add: current_ok_def)
        from Cons.IH [OF this, of acc] merge cur True show ?thesis by simp
      next
        case apart: False
        show ?thesis
        proof (cases "push_current max_total current acc")
          case None
          have "?loop (f # frames) acc current = fst acc" using None True apart by (auto simp: cur)
          then show ?thesis using stop flush None by simp
        next
          case (Some acc')
          with flush obtain bs where bs: "fst acc' = fst acc @ bs" "\<And>gs bs'. ?built gs bs' \<Longrightarrow> ?built (taken @ gs) (bs @ bs')" by auto
          have "current_ok weigh inp max_bytes [f] (Some (start_mutable_batch weigh f inp))"
            using start_ok [OF True] by (simp add: current_ok_def)
          from Cons.IH [OF this, of acc'] obtain cs where
            cs: "?loop frames acc' (Some (start_mutable_batch weigh f inp)) = fst acc' @ cs" "?built (f # frames) cs" by auto
          from bs(2) [OF cs(2)] bs(1) cs(1) Some True cur apart
          show ?thesis by (intro exI [of _ "bs @ cs"]) auto
        qed
      qed
    qed
  qed
qed

section \<open>The messages of a batch\<close>

lemma segments_of_take: "take n (segments_of offset fs) = segments_of offset (take n fs)"
  by (induction fs arbitrary: offset n) (simp_all add: take_Cons split: nat.split)

lemma segments_of_drop: "drop n (segments_of offset fs) = segments_of (offset + utf16_size (text_of (take n fs))) (drop n fs)"
proof (induction fs arbitrary: offset n)
  case (Cons f fs)
  then show ?case by (cases n) (simp_all add: add.assoc)
qed simp

lemma nth_segments_of:
  "i < length fs \<Longrightarrow> segments_of offset fs ! i = segment_for_frame (fs ! i) (offset + utf16_size (text_of (take i fs)))"
proof (induction fs arbitrary: offset i)
  case (Cons f fs)
  then show ?case by (cases i) (simp_all add: add.assoc)
qed simp

lemma text_of_take_Suc: "i < length fs \<Longrightarrow> text_of (take (Suc i) fs) = text_of (take i fs) @ bf_data (fs ! i)"
  by (simp add: take_Suc_conv_app_nth)

lemma end_offset_nth: "i < length fs \<Longrightarrow> sg_end_offset (segments_of 0 fs ! i) = utf16_size (text_of (take (Suc i) fs))"
  by (simp add: nth_segments_of segment_for_frame_def text_of_take_Suc)

lemma start_offset_of: "batch_of fs b \<Longrightarrow> n \<le> length fs \<Longrightarrow> start_offset b n = utf16_size (text_of (take n fs))"
  by (cases n) (auto simp: start_offset_def batch_of_def end_offset_nth)

text \<open>The end offsets of a message's segments, and how a client cuts its text at them.\<close>

fun ends_of :: "int \<Rightarrow> BatchInputFrame list \<Rightarrow> int list" where
  "ends_of offset [] = []"
| "ends_of offset (f # fs) = (offset + utf16_size (bf_data f)) # ends_of (offset + utf16_size (bf_data f)) fs"

fun cut_at :: "utext \<Rightarrow> int \<Rightarrow> int list \<Rightarrow> utext list" where
  "cut_at d from_offset [] = []"
| "cut_at d from_offset (e # es) = slice_utf16 d from_offset e # cut_at d e es"

lemma wire_segments_ends: "0 \<le> k \<Longrightarrow> map ws_end_offset (wire_segments (segments_of (base + k) fs) base k) = ends_of k fs"
proof (induction fs arbitrary: k)
  case (Cons f fs)
  have "0 \<le> k + utf16_size (bf_data f)" using Cons.prems utf16_size_simps(3) [of "bf_data f"] by linarith
  then show ?case
    using Cons.IH [of "k + utf16_size (bf_data f)"]
    by (simp add: segment_for_frame_def Let_def add.assoc max_absorb2)
qed simp

lemma cut_at_ends: "cut_at (pre @ text_of fs @ post) (utf16_size pre) (ends_of (utf16_size pre) fs) = map bf_data fs"
proof (induction fs arbitrary: pre)
  case (Cons f fs)
  show ?case
    using Cons.IH [of "pre @ bf_data f"] slice_parts [of pre "bf_data f" "text_of fs @ post"] by simp
qed simp

text \<open>A message that carries a part of the frames.\<close>

fun carries :: "BatchInputFrame list \<Rightarrow> Message \<Rightarrow> bool" where
  "carries part (Output m) =
     (length part = 1 \<and> om_data m = text_of part \<and> om_seq_start m = bf_seq_start (hd part)
      \<and> om_seq_end m = bf_seq_end (last part))"
| "carries part (Batch m) =
     (part \<noteq> [] \<and> bm_data m = text_of part \<and> cut_at (bm_data m) 0 (map ws_end_offset (bm_segments m)) = map bf_data part
      \<and> bm_seq_start m = bf_seq_start (hd part) \<and> bm_seq_end m = bf_seq_end (last part))"

lemma payload_carries:
  assumes "batch_of fs b" and "start < stop" and "stop \<le> length fs"
  shows "carries (drop start (take stop fs)) (Batch (build_batch_payload weigh tid b att src start stop))"
proof -
  let ?pre = "take start fs" and ?part = "drop start (take stop fs)"
  have split: "take stop fs = ?pre @ ?part"
    using assms(2) by (metis append_take_drop_id min.strict_order_iff take_take)
  have data: "ob_data b = text_of ?pre @ text_of ?part @ text_of (drop stop fs)"
    using assms(1) split by (metis append_assoc append_take_drop_id batch_of_def concat_append map_append)
  have start: "start_offset b start = utf16_size (text_of ?pre)" using start_offset_of [OF assms(1)] assms(2,3) by simp
  have "sg_end_offset (ob_segments b ! (stop - 1)) = utf16_size (text_of (take stop fs))"
    using start_offset_of [OF assms(1,3)] assms(2) by (simp add: start_offset_def)
  then have stop: "sg_end_offset (ob_segments b ! (stop - 1)) = utf16_size (text_of ?pre) + utf16_size (text_of ?part)"
    by (subst (asm) split) simp
  have "drop start (take stop (ob_segments b)) = segments_of (start_offset b start + 0) ?part"
    using assms start by (simp add: batch_of_def segments_of_take segments_of_drop min_absorb1 less_imp_le)
  then have ends: "map ws_end_offset (wire_segments (drop start (take stop (ob_segments b))) (start_offset b start) 0) = ends_of 0 ?part"
    using wire_segments_ends [of 0 "start_offset b start" ?part] by simp
  have segs: "ob_segments b ! start = segments_of 0 fs ! start" "ob_segments b ! (stop - 1) = segments_of 0 fs ! (stop - 1)"
    using assms(1) by (simp_all add: batch_of_def)
  have seqs: "sg_seq_start (ob_segments b ! start) = bf_seq_start (hd ?part)"
    "sg_seq_end (ob_segments b ! (stop - 1)) = bf_seq_end (last ?part)"
    using assms(2,3) unfolding segs
    by (simp_all add: nth_segments_of segment_for_frame_def hd_drop_conv_nth last_drop last_conv_nth)
  show ?thesis
    using assms(2,3) data seqs cut_at_ends [of "[]" ?part "[]"] slice_parts [of "text_of ?pre" "text_of ?part"]
    by (simp add: build_batch_payload_def Let_def start stop [unfolded One_nat_def] ends [unfolded start])
qed

lemma fallback_carries:
  assumes "batch_of fs b" and "i < length fs"
  shows "carries [fs ! i] (Output (single_segment_fallback tid b att src i))"
proof -
  have data: "ob_data b = text_of (take i fs) @ bf_data (fs ! i) @ text_of (drop (Suc i) fs)"
    using assms by (metis (no_types, lifting) batch_of_def concat.simps(2) concat_append id_take_nth_drop list.simps(9) map_append)
  have start: "start_offset b i = utf16_size (text_of (take i fs))"
    using start_offset_of [OF assms(1)] assms(2) by simp
  have seg: "ob_segments b ! i = segment_for_frame (fs ! i) (utf16_size (text_of (take i fs)))"
    using assms by (simp add: batch_of_def nth_segments_of)
  show ?thesis
    using slice_parts [of "text_of (take i fs)" "bf_data (fs ! i)" "text_of (drop (Suc i) fs)"]
    by (simp add: single_segment_fallback_def Let_def start seg segment_for_frame_def data max_absorb2)
qed

lemma extend_payload_best:
  "extend_payload payload max_bytes n start stop best = (m, stop') \<Longrightarrow> best = payload start stop \<Longrightarrow>
   bm_serialized_bytes best \<le> max_bytes \<Longrightarrow> stop \<le> n \<Longrightarrow>
   m = payload start stop' \<and> stop \<le> stop' \<and> stop' \<le> n \<and> bm_serialized_bytes m \<le> max_bytes"
proof (induction payload max_bytes n start stop best rule: extend_payload.induct)
  case (1 payload max_bytes n start stop best)
  let ?next = "payload start (stop + 1)"
  note unfold = extend_payload.simps [of payload max_bytes n start stop best]
  show ?case
  proof (cases "stop < n \<and> bm_serialized_bytes ?next \<le> max_bytes")
    case True
    then have "extend_payload payload max_bytes n start (stop + 1) ?next = (m, stop')"
      using "1.prems"(1) by (simp add: unfold Let_def)
    then show ?thesis using "1.IH" [OF _ refl] True by auto
  next
    case False
    then have "m = best \<and> stop' = stop" using "1.prems"(1) by (auto simp: unfold Let_def split: if_splits)
    then show ?thesis using "1.prems"(2-4) by simp
  qed
qed

text \<open>A message within the budget, or the one frame that is larger than it.\<close>

definition within_budget :: "int \<Rightarrow> Message \<Rightarrow> bool" where
  "within_budget max_bytes m = (case m of Batch bm \<Rightarrow> bm_serialized_bytes bm \<le> max_bytes | Output om \<Rightarrow> True)"

abbreviation carried :: "int \<Rightarrow> BatchInputFrame list \<Rightarrow> Message list \<Rightarrow> bool" where
  "carried max_bytes fs ms \<equiv>
     (\<exists>parts. concat parts = fs \<and> list_all2 carries parts ms \<and> list_all (within_budget max_bytes) ms)"

lemma carried_Cons:
  assumes "carries part m" and "within_budget max_bytes m" and "carried max_bytes fs ms"
  shows "carried max_bytes (part @ fs) (m # ms)"
proof -
  from assms(3) obtain parts where "concat parts = fs" "list_all2 carries parts ms" "list_all (within_budget max_bytes) ms"
    by blast
  then show ?thesis using assms(1,2) by (intro exI [of _ "part # parts"]) simp
qed

lemma carried_append: "carried max_bytes fs ms \<Longrightarrow> carried max_bytes gs ns \<Longrightarrow> carried max_bytes (fs @ gs) (ms @ ns)"
proof (elim exE conjE)
  fix ps qs assume "concat ps = fs" "list_all2 carries ps ms" "list_all (within_budget max_bytes) ms"
    "concat qs = gs" "list_all2 carries qs ns" "list_all (within_budget max_bytes) ns"
  then show ?thesis by (intro exI [of _ "ps @ qs"]) (simp add: list_all2_appendI)
qed

lemma pack_carries:
  assumes "batch_of fs b"
  shows "carried max_bytes (drop start fs) (pack_payloads (build_batch_payload weigh tid b att src)
    (single_segment_fallback tid b att src) max_bytes (length fs) start)"
proof (induction "length fs - start" arbitrary: start rule: less_induct)
  case less
  let ?payload = "build_batch_payload weigh tid b att src" and ?fallback = "single_segment_fallback tid b att src"
  let ?pack = "pack_payloads ?payload ?fallback max_bytes (length fs)"
  note unfold = pack_payloads.simps [of ?payload ?fallback max_bytes "length fs" start]
  show ?case
  proof (cases "start < length fs")
    case False
    then show ?thesis by (simp add: unfold)
  next
    case True
    have rest: "carried max_bytes (drop stop fs) (?pack stop)" if "start < stop" for stop
      using less True that by simp
    show ?thesis
    proof (cases "max_bytes < bm_serialized_bytes (?payload start (start + 1))")
      case big: True
      have "drop start fs = [fs ! start] @ drop (start + 1) fs" using True by (simp add: Cons_nth_drop_Suc)
      moreover have "?pack start = Output (?fallback start) # ?pack (start + 1)" using True big by (simp add: unfold Let_def)
      ultimately show ?thesis
        using carried_Cons [OF fallback_carries [OF assms True], of max_bytes tid att src "drop (start + 1) fs" "?pack (start + 1)"]
          rest [of "start + 1"] by (simp add: within_budget_def)
    next
      case fits: False
      obtain m stop where ext: "extend_payload ?payload max_bytes (length fs) start (start + 1) (?payload start (start + 1)) = (m, stop)"
        by fastforce
      with fits True have m: "m = ?payload start stop" "start < stop" "stop \<le> length fs" "bm_serialized_bytes m \<le> max_bytes"
        using extend_payload_best [OF ext refl] by auto
      have "drop start fs = drop start (take stop fs) @ drop stop fs"
        using m(2,3) by (metis append_take_drop_id drop_append drop_drop le_add_diff_inverse2 length_take less_imp_le min_absorb2 drop_take)
      moreover have "?pack start = Batch m # ?pack stop" using True fits ext by (simp add: unfold Let_def)
      ultimately show ?thesis
        using carried_Cons [OF payload_carries [OF assms m(2,3)], of max_bytes weigh tid att src "drop stop fs" "?pack stop"]
          rest [OF m(2)] m(1,4) by (simp add: within_budget_def)
    qed
  qed
qed

lemma wire_carries:
  assumes "batch_of fs b"
  shows "carried max_bytes fs (build_batch_wire_payloads weigh tid b att src max_bytes)"
proof -
  have n: "length (ob_segments b) = length fs" "0 < length fs" using assms by (auto simp: batch_of_def)
  let ?full = "build_batch_payload weigh tid b att src 0 (length fs)"
  consider "bm_serialized_bytes ?full \<le> max_bytes" | "max_bytes < bm_serialized_bytes ?full" "length fs = 1"
    | "max_bytes < bm_serialized_bytes ?full" "1 < length fs" using n(2) by linarith
  then show ?thesis
  proof cases
    case 1
    then show ?thesis
      using carried_Cons [OF payload_carries [OF assms n(2) order_refl], of max_bytes weigh tid att src "[]" "[]"] n
      by (simp add: build_batch_wire_payloads_def Let_def within_budget_def)
  next
    case 2
    then have "fs = [fs ! 0]" by (cases fs) auto
    then show ?thesis
      using carried_Cons [OF fallback_carries [OF assms n(2)], of max_bytes tid att src "[]" "[]"] n 2
      by (simp add: build_batch_wire_payloads_def Let_def within_budget_def)
  next
    case 3
    then show ?thesis
      using pack_carries [OF assms, where max_bytes = max_bytes and start = 0 and weigh = weigh and tid = tid and att = att and src = src] n
      by (simp add: build_batch_wire_payloads_def Let_def)
  qed
qed

text \<open>C17: a client that reads batches sees the terminal's output. For every list of frames and every
  positive budget, the messages carry the frames in order, each message a run of one or more of them:
  its text is theirs, the client that cuts it at the segment table's end offsets gets the frames back
  one by one, and its sequence range is theirs. No batch message declares more than the budget; a
  frame that does not fit one is sent alone as plain output.\<close>

theorem batch_messages_carry_frames:
  assumes "0 < max_bytes"
  shows "carried max_bytes frames (frames_to_wire_payloads weigh frames tid att src max_bytes)"
proof -
  define inp where "inp = \<lparr>bi_frames = frames, bi_max_serialized_bytes = max_bytes,
    bi_max_total_serialized_bytes = None, bi_terminal_id = tid, bi_attach_request_id = Some att, bi_source = Some src\<rparr>"
  define bs where "bs = build_terminal_output_batches weigh inp"
  have "current_ok weigh inp max_bytes [] None" by (simp add: current_ok_def)
  from build_loop_built [OF this, of i64_largest frames "([], 0)"]
  have "built weigh inp max_bytes i64_largest frames bs"
    using assms by (auto simp: bs_def build_terminal_output_batches_def inp_def normalize_budget_def i64_largest_def)
  then obtain groups where ok: "list_all2 (batch_ok weigh inp max_bytes) groups bs" and frames: "concat groups = frames"
    by (auto simp: built_def)
  from ok have "carried max_bytes (concat groups) (concat (map (\<lambda>b. build_batch_wire_payloads weigh tid b att src max_bytes) bs))"
  proof (induction groups bs rule: list_all2_induct)
    case (Cons g groups b bs)
    have "batch_of g b" using Cons.hyps(1) by (simp add: batch_ok_def)
    then show ?case using carried_append [OF wire_carries Cons.IH] by simp
  qed simp
  then show ?thesis by (simp add: frames frames_to_wire_payloads_def inp_def bs_def Let_def)
qed

lemma builder_groups:
  "\<exists>groups. list_all2 (batch_ok weigh inp (bi_max_serialized_bytes inp)) groups (build_terminal_output_batches weigh inp)
    \<and> prefix (concat groups) (bi_frames inp)"
proof -
  define mx where "mx = (case bi_max_total_serialized_bytes inp of None \<Rightarrow> i64_largest | Some v \<Rightarrow> normalize_budget v)"
  have "current_ok weigh inp (bi_max_serialized_bytes inp) [] None" by (simp add: current_ok_def)
  from build_loop_built [OF this, of mx "bi_frames inp" "([], 0)"] obtain groups
    where groups: "list_all2 (batch_ok weigh inp (bi_max_serialized_bytes inp)) groups
        (build_loop weigh inp (bi_max_serialized_bytes inp) mx (bi_frames inp) ([], 0) None)"
      "prefix (concat groups) (bi_frames inp)"
    by (auto simp: built_def)
  have "build_terminal_output_batches weigh inp =
      (if 0 < bi_max_serialized_bytes inp \<and> 0 < mx
       then build_loop weigh inp (bi_max_serialized_bytes inp) mx (bi_frames inp) ([], 0) None else [])"
    by (simp add: build_terminal_output_batches_def normalize_budget_def mx_def Let_def)
  then show ?thesis using groups by (cases "0 < bi_max_serialized_bytes inp \<and> 0 < mx") (auto intro: exI [of _ "[]"])
qed

text \<open>The frames of a stream, classified by one scanner.\<close>

fun classified_frames :: "int \<Rightarrow> utext list \<Rightarrow> BarrierScanner \<Rightarrow> string \<Rightarrow> BatchInputFrame list" where
  "classified_frames seq [] scanner sid = []"
| "classified_frames seq (d # ds) scanner sid =
     (case classified seq d scanner sid of (f, scanner') \<Rightarrow> f # classified_frames (seq + 1) ds scanner' sid)"

lemma classified_plain:
  "f \<in> set (classified_frames seq ds scanner sid) \<Longrightarrow> is_transparent_ground f \<Longrightarrow> list_all plain_char (bf_data f)"
proof (induction ds arbitrary: seq scanner)
  case (Cons d ds)
  then show ?case
    using reason_none_iff [of d scanner]
    by (auto simp: classified_def is_transparent_ground_def scan_fields(1) case_prod_beta Let_def)
qed simp

text \<open>The builder merges nothing but plain text. Whatever output a terminal writes, cut into
  whatever frames, and whatever the two budgets, the batches are made of groups of consecutive frames,
  the first ones where the total budget stops the builder. A batch of more than one frame has one
  stream and gapless sequence numbers, is within the budget, and every character in it is printable or
  a tab, line feed or carriage return: no escape sequence, no part of one, no bell is merged.\<close>

theorem only_plain_text_is_merged:
  assumes "bi_frames inp = classified_frames seq datas scanner sid"
  shows "\<exists>groups. list_all2 batch_of groups (build_terminal_output_batches weigh inp)
    \<and> prefix (concat groups) (bi_frames inp)
    \<and> list_all2 (\<lambda>fs b. length fs = 1 \<or> one_run fs \<and> list_all plain_char (ob_data b)
         \<and> int (ob_legacy_bytes b) \<le> bi_max_serialized_bytes inp) groups (build_terminal_output_batches weigh inp)"
proof -
  from builder_groups [of weigh inp] obtain groups
    where groups: "list_all2 (batch_ok weigh inp (bi_max_serialized_bytes inp)) groups (build_terminal_output_batches weigh inp)"
      and prefix: "prefix (concat groups) (bi_frames inp)" by blast
  have "list_all plain_char (text_of fs)" if "fs \<in> set groups" "one_run fs" for fs
    using that set_mono_prefix [OF prefix] classified_plain assms
    by (fastforce simp: one_run_def list_all_iff)
  then have "list_all2 (\<lambda>fs b. length fs = 1 \<or> one_run fs \<and> list_all plain_char (ob_data b)
      \<and> int (ob_legacy_bytes b) \<le> bi_max_serialized_bytes inp) groups (build_terminal_output_batches weigh inp)"
    by (intro list.rel_mono_strong [OF groups]) (auto simp: batch_ok_def batch_of_def)
  moreover have "list_all2 batch_of groups (build_terminal_output_batches weigh inp)"
    using groups by (rule list_all2_mono) (simp add: batch_ok_def)
  ultimately show ?thesis using prefix by blast
qed

section \<open>A message says its own size\<close>

abbreviation width :: "nat \<Rightarrow> nat" where
  "width n \<equiv> length (decimal n)"

text \<open>What the size of a JSON message is known to do: the number in \<open>serializedBytes\<close> contributes its
  decimal digits, and the rest does not depend on it.\<close>

definition json_sizes :: "(Message \<Rightarrow> nat) \<Rightarrow> bool" where
  "json_sizes weigh = (\<forall>m. \<exists>c. \<forall>n. weigh (Batch (m\<lparr>bm_serialized_bytes := int n\<rparr>)) = c + width n)"

lemma digits_pos: "0 < width n"
  using decimal_digits [of n] by blast

lemma width_mono:
  assumes "m \<le> n"
  shows "width m \<le> width n"
proof -
  obtain k where k: "width n = Suc k" using digits_pos [of n] gr0_conv_Suc by blast
  then have "n < 10 ^ Suc k" using decimal_width [of n k] by simp
  with assms have "m < 10 ^ Suc k" by linarith
  then show ?thesis using decimal_width [of m k] k by simp
qed

lemma fixpoint_reached:
  assumes f: "\<And>n. f n = c + width n"
  shows "f (f (f (f 0))) = f (f (f 0))"
proof -
  have w0: "width 0 = 1" by (simp add: decimal.simps)
  let ?a = "c + 1"
  obtain k where k: "width ?a = Suc k" using digits_pos [of ?a] gr0_conv_Suc by blast
  then have a: "?a < 10 ^ Suc k" using decimal_width [of ?a k] by simp
  have small: "Suc k < 10 ^ Suc k" by (induction k) simp_all
  let ?b = "c + Suc k"
  have "width ?b \<le> Suc (Suc k)" using a small decimal_width [of ?b "Suc k"] by simp
  moreover have "Suc k \<le> width ?b" using width_mono [of ?a ?b] k by simp
  ultimately consider "width ?b = Suc k" | "width ?b = Suc (Suc k)" by linarith
  then show ?thesis
  proof cases
    case 1
    then show ?thesis using k by (simp add: f w0)
  next
    case 2
    let ?d = "c + Suc (Suc k)"
    have "width ?d \<le> Suc (Suc k)" using a small decimal_width [of ?d "Suc k"] by simp
    moreover have "Suc (Suc k) \<le> width ?d" using width_mono [of ?b ?d] 2 by simp
    ultimately have "width ?d = Suc (Suc k)" by (rule order_antisym)
    then have "f 0 = ?a" "f ?a = ?b" "f ?b = ?d" "f ?d = ?d" unfolding f w0 k 2 by simp_all
    then show ?thesis by (simp only:)
  qed
qed

lemma size_fixpoint_fixed:
  assumes g: "\<And>n. g (int n) = f n" and f: "f (f (f (f 0))) = f (f (f 0))"
  shows "int (g (size_fixpoint 4 g 0)) = size_fixpoint 4 g 0"
proof -
  have "g 0 = f 0" using g [of 0] by simp
  then show ?thesis using f by (simp add: eval_nat_numeral Let_def g)
qed

lemma payload_size_exact:
  assumes "json_sizes weigh"
  shows "bm_serialized_bytes (build_batch_payload weigh tid b att src start stop)
    = int (weigh (Batch (build_batch_payload weigh tid b att src start stop)))"
proof -
  let ?m = "build_batch_payload weigh tid b att src start stop"
  obtain c where c: "weigh (Batch (?m\<lparr>bm_serialized_bytes := int n\<rparr>)) = c + width n" for n
    using assms by (auto simp: json_sizes_def)
  define g where "g n = weigh (Batch (?m\<lparr>bm_serialized_bytes := n\<rparr>))" for n
  have size: "bm_serialized_bytes ?m = size_fixpoint 4 g 0"
    by (simp add: build_batch_payload_def g_def [abs_def] Let_def)
  have "int (g (size_fixpoint 4 g 0)) = size_fixpoint 4 g 0"
    using fixpoint_reached [of "\<lambda>n. c + width n" c] by (intro size_fixpoint_fixed [of g "\<lambda>n. c + width n"]) (simp_all add: g_def c)
  then show ?thesis by (simp add: size [symmetric]) (simp add: g_def)
qed

lemma extend_payload_range:
  "\<exists>stop'. fst (extend_payload payload max_bytes n start stop best) \<in> {best, payload start stop'}"
proof (induction payload max_bytes n start stop best rule: extend_payload.induct)
  case (1 payload max_bytes n start stop best)
  show ?case
    using "1.IH" by (subst extend_payload.simps) (auto simp: Let_def)
qed

lemma pack_payloads_range: "Batch m \<in> set (pack_payloads payload fallback max_bytes n start) \<Longrightarrow> \<exists>i j. m = payload i j"
proof (induction payload fallback max_bytes n start rule: pack_payloads.induct)
  case (1 payload fallback max_bytes n start)
  note unfold = pack_payloads.simps [of payload fallback max_bytes n start]
  obtain best stop where ext: "extend_payload payload max_bytes n start (start + 1) (payload start (start + 1)) = (best, stop)"
    by fastforce
  then have "\<exists>j. best = payload start j"
    using extend_payload_range [of payload max_bytes n start "start + 1" "payload start (start + 1)"] by auto
  then show ?case
    using "1.prems" "1.IH"(1) [OF _ refl] "1.IH"(2) [OF _ refl _ ext [symmetric]] ext
    by (auto simp: unfold Let_def split: if_splits)
qed

text \<open>C3: \<open>serializedBytes\<close> is true. The field is part of the message whose size it states; four
  passes always reach the value that states it exactly, so every batch message declares its own
  serialized size.\<close>

theorem serialized_bytes_exact:
  assumes "json_sizes weigh" and "Batch m \<in> set (frames_to_wire_payloads weigh frames tid att src max_bytes)"
  shows "bm_serialized_bytes m = int (weigh (Batch m))"
proof -
  from assms(2) obtain b where "Batch m \<in> set (build_batch_wire_payloads weigh tid b att src max_bytes)"
    by (auto simp: frames_to_wire_payloads_def Let_def)
  then have "\<exists>i j. m = build_batch_payload weigh tid b att src i j"
    using pack_payloads_range by (auto simp: build_batch_wire_payloads_def Let_def split: if_splits)
  then show ?thesis using payload_size_exact [OF assms(1)] by blast
qed

section \<open>Witnesses\<close>

definition sample_weigh :: "Message \<Rightarrow> nat" where
  "sample_weigh m = (case m of Output om \<Rightarrow> 100 + byte_len (om_data om)
     | Batch bm \<Rightarrow> 100 + width (nat (bm_serialized_bytes bm)))"

abbreviation sample_frames :: "BatchInputFrame list" where
  "sample_frames \<equiv> classified_frames 1 [[0x61], [0x62]] scanner_new ''s''"

theorem batch_messages_carry_frames_witness:
  "carried 1000 sample_frames (frames_to_wire_payloads sample_weigh sample_frames ''t'' ''a'' ''live'' 1000)"
  by (rule batch_messages_carry_frames) simp

definition sample_input :: BatchBuildInput where
  "sample_input = \<lparr>bi_frames = sample_frames, bi_max_serialized_bytes = 1000, bi_max_total_serialized_bytes = None,
     bi_terminal_id = ''t'', bi_attach_request_id = None, bi_source = None\<rparr>"

theorem only_plain_text_is_merged_witness:
  "\<exists>groups. list_all2 batch_of groups (build_terminal_output_batches sample_weigh sample_input)
    \<and> prefix (concat groups) sample_frames"
  using only_plain_text_is_merged [of sample_input 1 "[[0x61], [0x62]]" scanner_new "''s''" sample_weigh]
  by (auto simp: sample_input_def)

lemma sample_json_sizes: "json_sizes sample_weigh"
  unfolding json_sizes_def by (auto simp: sample_weigh_def)

definition sample_frame :: BatchInputFrame where
  "sample_frame = \<lparr>bf_seq_start = 1, bf_seq_end = 1, bf_data = [0x61], bf_bytes = 1, bf_stream_id = ''s'',
     bf_barrier = False, bf_barrier_reason = None, bf_state_before = \<lparr>ss_mode = Ground\<rparr>,
     bf_state_after = \<lparr>ss_mode = Ground\<rparr>\<rparr>"

lemma sample_width: "width 0 = 1" "width 101 = 3" "width 103 = 3"
  by (simp_all add: decimal.simps)

lemma sample_size: "size_fixpoint 4 (\<lambda>n. 100 + width (nat n)) 0 = 103"
proof -
  have four: "(4::nat) = Suc (Suc (Suc (Suc 0)))" by simp
  show ?thesis unfolding four by (simp add: Let_def sample_width)
qed

lemma sample_bytes:
  "bm_serialized_bytes (build_batch_payload sample_weigh ''t'' b ''a'' ''live'' 0 (Suc 0)) = 103"
  by (simp add: build_batch_payload_def sample_weigh_def sample_size Let_def)

lemma sample_is_batched:
  "\<exists>b. frames_to_wire_payloads sample_weigh [sample_frame] ''t'' ''a'' ''live'' 1000
     = [Batch (build_batch_payload sample_weigh ''t'' b ''a'' ''live'' 0 (Suc 0))]"
  by (simp add: frames_to_wire_payloads_def build_terminal_output_batches_def build_batch_wire_payloads_def
      normalize_budget_def i64_largest_def push_current_def push_batch_def is_transparent_ground_def
      sample_frame_def start_mutable_batch_def build_single_batch_def flush_mutable_def sample_bytes Let_def) blast

theorem serialized_bytes_exact_witness:
  "\<exists>m. Batch m \<in> set (frames_to_wire_payloads sample_weigh [sample_frame] ''t'' ''a'' ''live'' 1000)
    \<and> bm_serialized_bytes m = int (sample_weigh (Batch m))"
proof -
  obtain m where "Batch m \<in> set (frames_to_wire_payloads sample_weigh [sample_frame] ''t'' ''a'' ''live'' 1000)"
    using sample_is_batched by auto
  with serialized_bytes_exact [OF sample_json_sizes this] show ?thesis by blast
qed

end
