(* ===== verification/Lease_Contract.thy ===== *)
theory Lease_Contract
  imports Prelude
begin

text \<open>
  What a lease table promises: at most one in-flight create and at most one bound runtime for a key.
  Two tables of the server make this promise, the fresh-agent leases and the terminal registry's
  session-reference leases. The promise is an automaton per key, the slot, and a locale whose laws say
  that each operation of a table is a step of every slot.
\<close>

section \<open>The slot of a key\<close>

datatype ('h, 'b) slot = Free | Reserved 'h | Bound 'b

text \<open>\<open>Reap\<close> is a release that names the runtime it has seen dead by the identity that stands in the slot;
  \<open>Forced\<close> is one that takes whatever stands there.\<close>

datatype ('h, 'b) slot_event = Stay | Grant 'h | Settle 'h 'b | Abandon 'h | Unbind | Reap | Forced

fun slot_step :: "('h, 'b) slot_event \<Rightarrow> ('h, 'b) slot \<Rightarrow> ('h, 'b) slot option" where
  "slot_step Stay x = Some x"
| "slot_step Reap x = Some Free"
| "slot_step Forced x = Some Free"
| "slot_step (Grant h) Free = Some (Reserved h)"
| "slot_step (Settle h b) (Reserved h') = (if h = h' then Some (Bound b) else None)"
| "slot_step (Abandon h) (Reserved h') = (if h = h' then Some Free else None)"
| "slot_step Unbind (Bound b) = Some Free"
| "slot_step e x = None"

fun slot_run :: "('h, 'b) slot_event list \<Rightarrow> ('h, 'b) slot \<Rightarrow> ('h, 'b) slot option" where
  "slot_run [] x = Some x"
| "slot_run (e # es) x = (case slot_step e x of None \<Rightarrow> None | Some y \<Rightarrow> slot_run es y)"

lemma slot_run_append:
  "slot_run (es @ fs) x = (case slot_run es x of None \<Rightarrow> None | Some y \<Rightarrow> slot_run fs y)"
  by (induction es arbitrary: x) (auto split: option.splits)

text \<open>What ends the grant of a holder: it gives up, or it settles and the runtime it bound goes away, or
  a release takes the slot.\<close>

definition grant_over :: "'h \<Rightarrow> ('h, 'b) slot_event list \<Rightarrow> bool" where
  "grant_over h es = (Abandon h \<in> set es \<or> Reap \<in> set es \<or> Forced \<in> set es
     \<or> (\<exists>b. subseq [Settle h b, Unbind] es))"

lemma grant_over_mono: "grant_over h es \<Longrightarrow> grant_over h (es @ fs)"
  unfolding grant_over_def by (auto intro: subseq_rev_drop_many)

lemma grant_over_ended [simp]: "grant_over h (es @ [Abandon h])" "grant_over h (es @ [Reap])" "grant_over h (es @ [Forced])"
  by (simp_all add: grant_over_def)

lemma grant_over_unbound [intro]: "Settle h b \<in> set es \<Longrightarrow> grant_over h (es @ [Unbind])"
  using list_emb_append_mono [of "(=)" "[Settle h b]" es "[Unbind]" "[Unbind]"]
  by (force simp: grant_over_def subseq_singleton_left)

lemma subseq_snoc_other: "e \<noteq> b \<Longrightarrow> subseq [a, b] (es @ [e]) \<longleftrightarrow> subseq [a, b] es"
  by (induction es) (auto simp: subseq_singleton_left)

lemma grant_over_stay [simp]: "grant_over h (es @ [Stay]) \<longleftrightarrow> grant_over h es"
  by (simp add: grant_over_def subseq_snoc_other)

lemma reserved_step:
  "slot_step e (Reserved h) = Some x \<Longrightarrow>
     e = Stay \<and> x = Reserved h \<or> (e = Reap \<or> e = Forced \<or> e = Abandon h) \<and> x = Free \<or> (\<exists>b. e = Settle h b \<and> x = Bound b)"
  by (cases e) (auto split: if_splits)

lemma bound_step:
  "slot_step e (Bound b) = Some x \<Longrightarrow> e = Stay \<and> x = Bound b \<or> (e = Reap \<or> e = Forced \<or> e = Unbind) \<and> x = Free"
  by (cases e) auto

lemma reserved_run:
  "slot_run es (Reserved h) = Some x \<Longrightarrow>
     grant_over h es \<or> x = Reserved h \<or> (\<exists>b. x = Bound b \<and> Settle h b \<in> set es)"
proof (induction es arbitrary: x rule: rev_induct)
  case (snoc e es)
  then obtain y where y: "slot_run es (Reserved h) = Some y" and x: "slot_step e y = Some x"
    by (auto simp: slot_run_append split: option.splits)
  from snoc.IH [OF y] consider "grant_over h es" | "y = Reserved h" | b where "y = Bound b" "Settle h b \<in> set es"
    by blast
  then show ?case
  proof cases
    case 1
    then show ?thesis by (simp add: grant_over_mono)
  next
    case 2
    with x have "slot_step e (Reserved h) = Some x" by simp
    from reserved_step [OF this] show ?thesis
      by (elim disjE conjE exE) simp_all
  next
    case 3
    with x have "slot_step e (Bound b) = Some x" by simp
    from bound_step [OF this] show ?thesis
      by (elim disjE conjE) (simp_all add: grant_over_unbound [OF 3(2)] 3(2))
  qed
qed simp

lemma grants_apart:
  assumes "slot_run (es @ Grant h # fs @ Grant h' # gs) x \<noteq> None"
  shows "grant_over h fs"
proof -
  obtain y where "slot_run (fs @ Grant h' # gs) (Reserved h) = Some y"
    using assms by (auto simp: slot_run_append split: option.splits elim!: slot_step.elims)
  then obtain z where z: "slot_run fs (Reserved h) = Some z" and "slot_step (Grant h') z \<noteq> None"
    by (auto simp: slot_run_append split: option.splits)
  then have "z = Free" by (cases z) auto
  with reserved_run [OF z] show ?thesis by auto
qed

section \<open>The contract\<close>

text \<open>What a key's slot goes through when operations are performed one after another.\<close>

fun slot_trace :: "('op \<Rightarrow> 's \<Rightarrow> 's) \<Rightarrow> ('op \<Rightarrow> 's \<Rightarrow> 'k \<Rightarrow> 'e) \<Rightarrow> 'k \<Rightarrow> 'op list \<Rightarrow> 's \<Rightarrow> 'e list" where
  "slot_trace perform event k [] s = []"
| "slot_trace perform event k (op # ops) s = event op s k # slot_trace perform event k ops (perform op s)"

locale lease_table =
  fixes slot_of :: "'s \<Rightarrow> 'k \<Rightarrow> ('h, 'b) slot"
    and wf :: "'s \<Rightarrow> bool"
    and perform :: "'op \<Rightarrow> 's \<Rightarrow> 's"
    and event :: "'op \<Rightarrow> 's \<Rightarrow> 'k \<Rightarrow> ('h, 'b) slot_event"
  assumes wf_perform: "wf s \<Longrightarrow> wf (perform op s)"
    and slot_law: "wf s \<Longrightarrow> slot_step (event op s k) (slot_of s k) = Some (slot_of (perform op s) k)"
begin

lemma wf_run: "wf s \<Longrightarrow> wf (fold perform ops s)"
  by (induction ops arbitrary: s) (auto intro: wf_perform)

lemma trace_run:
  "wf s \<Longrightarrow> slot_run (slot_trace perform event k ops s) (slot_of s k) = Some (slot_of (fold perform ops s) k)"
  by (induction ops arbitrary: s) (auto simp: slot_law intro: wf_perform)

lemma one_writer:
  assumes "wf s" and "slot_trace perform event k ops s = es @ Grant h # fs @ Grant h' # gs"
  shows "grant_over h fs"
  using trace_run [OF assms(1), of k ops] by (intro grants_apart [of es h fs h' gs "slot_of s k"]) (simp add: assms(2))

lemma settled_only_by_holder:
  assumes "wf s" and "slot_trace perform event k ops s = es @ Settle h b # gs" and "slot_of s k = Free"
  shows "\<exists>es1 es2. es = es1 @ Grant h # es2 \<and> \<not> grant_over h es2"
proof -
  obtain x where x: "slot_run es Free = Some x" and "slot_step (Settle h b) x \<noteq> None"
    using trace_run [OF assms(1), of k ops] assms(2,3) by (auto simp: slot_run_append split: option.splits)
  then have "x = Reserved h" by (cases x) (auto split: if_splits)
  with x have "slot_run es Free = Some (Reserved h)" by simp
  then show ?thesis
  proof (induction es rule: rev_induct)
    case (snoc e es)
    then obtain y where y: "slot_run es Free = Some y" "slot_step e y = Some (Reserved h)"
      by (auto simp: slot_run_append split: option.splits)
    show ?case
    proof (cases "e = Grant h")
      case True
      moreover have "\<not> grant_over h []" by (simp add: grant_over_def)
      ultimately show ?thesis by blast
    next
      case False
      with y have same: "e = Stay" "y = Reserved h" by (auto elim!: slot_step.elims split: if_splits)
      with y snoc.IH obtain es1 es2 where "es = es1 @ Grant h # es2" "\<not> grant_over h es2" by auto
      moreover from this have "\<not> grant_over h (es2 @ [Stay])" by simp
      ultimately show ?thesis using same by (metis append_Cons append_assoc)
    qed
  qed simp
qed

end

end
