(* ===== verification/Fresh_Leases.thy ===== *)
theory Fresh_Leases
  imports Lease_Contract "HOL-Library.Char_ord"
begin

text \<open>
  The per-session create/resume leases of the fresh-agent lanes
  (crates/freshell-freshagent/src/session_lease.rs): the table of in-flight holders and of the live
  sessions that completed, behind one lock, and the two-round claim of the codex lane
  (crates/freshell-freshagent/src/codex.rs). The environment's override of the lease's lifetime and the
  clock are parameters.
\<close>

section \<open>The table\<close>

definition FRESH_AGENT_SESSION_LEASE_TTL_MS :: nat where
  "FRESH_AGENT_SESSION_LEASE_TTL_MS = 20000"

definition FRESH_AGENT_SESSION_RESERVED_RETRY_AFTER_MS :: nat where
  "FRESH_AGENT_SESSION_RESERVED_RETRY_AFTER_MS = 1000"

text \<open>The environment variable, as a \<open>u64\<close> where it parses as one.\<close>

definition fresh_agent_session_lease_ttl_ms :: "nat option \<Rightarrow> nat" where
  "fresh_agent_session_lease_ttl_ms env =
     (case env of None \<Rightarrow> FRESH_AGENT_SESSION_LEASE_TTL_MS | Some v \<Rightarrow> v)"

datatype FreshSessionClaim =
    Acquired
  | Held nat
  | ExpiredNeedsKill nat string
  | BoundLive string

record LeaseEntry =
  le_holder_request_id :: string
  le_acquired_at_ms :: nat
  le_kill_handle :: "(nat \<times> string) option"
  le_revoked :: bool

record Binding =
  bd_live_session_key :: string
  bd_ownership_id :: "string option"

record FreshAgentSessionLeases =
  fl_leases :: "(string, LeaseEntry) fmap"
  fl_bindings :: "(string, Binding) fmap"

definition leases_new :: FreshAgentSessionLeases where
  "leases_new = \<lparr>fl_leases = fmempty, fl_bindings = fmempty\<rparr>"

definition lease_key :: "string \<Rightarrow> string \<Rightarrow> string" where
  "lease_key provider session_id = provider @ [CHR 0x00] @ session_id"

definition claim ::
  "nat \<Rightarrow> string \<Rightarrow> string \<Rightarrow> string \<Rightarrow> nat \<Rightarrow> FreshAgentSessionLeases
   \<Rightarrow> FreshSessionClaim \<times> FreshAgentSessionLeases" where
  "claim ttl_ms provider session_id holder now_ms s =
     (let key = lease_key provider session_id in
      case fmlookup (fl_bindings s) key of
        Some binding \<Rightarrow> (BoundLive (bd_live_session_key binding), s)
      | None \<Rightarrow>
          (case fmlookup (fl_leases s) key of
             None \<Rightarrow>
               (Acquired,
                s\<lparr>fl_leases := fmupd key
                    \<lparr>le_holder_request_id = holder, le_acquired_at_ms = now_ms, le_kill_handle = None,
                     le_revoked = False\<rparr> (fl_leases s)\<rparr>)
           | Some lease \<Rightarrow>
               (let expired = saturating usize_max (le_acquired_at_ms lease + ttl_ms) < now_ms in
                if \<not> expired \<or> le_revoked lease
                then (Held FRESH_AGENT_SESSION_RESERVED_RETRY_AFTER_MS, s)
                else case le_kill_handle lease of
                       Some (pid, ownership_id) \<Rightarrow> (ExpiredNeedsKill pid ownership_id, s)
                     | None \<Rightarrow>
                         (Held FRESH_AGENT_SESSION_RESERVED_RETRY_AFTER_MS,
                          s\<lparr>fl_leases := fmupd key (lease\<lparr>le_revoked := True\<rparr>) (fl_leases s)\<rparr>))))"

definition set_kill_handle ::
  "string \<Rightarrow> string \<Rightarrow> string \<Rightarrow> nat \<Rightarrow> string \<Rightarrow> FreshAgentSessionLeases \<Rightarrow> FreshAgentSessionLeases" where
  "set_kill_handle provider session_id holder pid ownership_id s =
     (let key = lease_key provider session_id in
      case fmlookup (fl_leases s) key of
        Some lease \<Rightarrow>
          if le_holder_request_id lease = holder
          then s\<lparr>fl_leases := fmupd key (lease\<lparr>le_kill_handle := Some (pid, ownership_id)\<rparr>) (fl_leases s)\<rparr>
          else s
      | None \<Rightarrow> s)"

definition complete_with_identity ::
  "string \<Rightarrow> string \<Rightarrow> string \<Rightarrow> string \<Rightarrow> string option \<Rightarrow> FreshAgentSessionLeases
   \<Rightarrow> bool \<times> FreshAgentSessionLeases" where
  "complete_with_identity provider session_id holder live_session_key ownership_id s =
     (let key = lease_key provider session_id in
      case fmlookup (fl_leases s) key of
        Some lease \<Rightarrow>
          if le_holder_request_id lease = holder \<and> \<not> le_revoked lease
          then (True,
                s\<lparr>fl_leases := fmdrop key (fl_leases s),
                  fl_bindings := fmupd key
                    \<lparr>bd_live_session_key = live_session_key, bd_ownership_id = ownership_id\<rparr> (fl_bindings s)\<rparr>)
          else (False, s)
      | None \<Rightarrow> (False, s))"

definition complete ::
  "string \<Rightarrow> string \<Rightarrow> string \<Rightarrow> string \<Rightarrow> FreshAgentSessionLeases \<Rightarrow> bool \<times> FreshAgentSessionLeases" where
  "complete provider session_id holder live_session_key s =
     complete_with_identity provider session_id holder live_session_key None s"

definition lease_fail ::
  "string \<Rightarrow> string \<Rightarrow> string \<Rightarrow> FreshAgentSessionLeases \<Rightarrow> FreshAgentSessionLeases" where
  "lease_fail provider session_id holder s =
     (let key = lease_key provider session_id in
      case fmlookup (fl_leases s) key of
        Some lease \<Rightarrow>
          if le_holder_request_id lease = holder then s\<lparr>fl_leases := fmdrop key (fl_leases s)\<rparr> else s
      | None \<Rightarrow> s)"

definition clear_binding :: "string \<Rightarrow> string \<Rightarrow> FreshAgentSessionLeases \<Rightarrow> FreshAgentSessionLeases" where
  "clear_binding provider session_id s =
     s\<lparr>fl_bindings := fmdrop (lease_key provider session_id) (fl_bindings s)\<rparr>"

definition binding_names :: "string \<Rightarrow> string \<Rightarrow> Binding option \<Rightarrow> bool" where
  "binding_names live_session_key ownership_id binding =
     (case binding of
        None \<Rightarrow> False
      | Some b \<Rightarrow> bd_live_session_key b = live_session_key \<and> bd_ownership_id b = Some ownership_id)"

definition clear_binding_if_matches ::
  "string \<Rightarrow> string \<Rightarrow> string \<Rightarrow> string \<Rightarrow> FreshAgentSessionLeases \<Rightarrow> bool \<times> FreshAgentSessionLeases" where
  "clear_binding_if_matches provider session_id live_session_key ownership_id s =
     (let key = lease_key provider session_id;
          matched = binding_names live_session_key ownership_id (fmlookup (fl_bindings s) key)
      in (matched, if matched then s\<lparr>fl_bindings := fmdrop key (fl_bindings s)\<rparr> else s))"

definition force_release_after_confirmed_kill ::
  "string \<Rightarrow> string \<Rightarrow> FreshAgentSessionLeases \<Rightarrow> FreshAgentSessionLeases" where
  "force_release_after_confirmed_kill provider session_id s =
     (let key = lease_key provider session_id in
      s\<lparr>fl_leases := fmdrop key (fl_leases s), fl_bindings := fmdrop key (fl_bindings s)\<rparr>)"

definition lease_tagged :: "string \<Rightarrow> LeaseEntry option \<Rightarrow> bool" where
  "lease_tagged ownership_id lease =
     (case lease of
        None \<Rightarrow> False
      | Some l \<Rightarrow> (case le_kill_handle l of None \<Rightarrow> False | Some (pid, tag) \<Rightarrow> tag = ownership_id))"

definition force_release_after_confirmed_kill_if_matches ::
  "string \<Rightarrow> string \<Rightarrow> string \<Rightarrow> string \<Rightarrow> FreshAgentSessionLeases \<Rightarrow> bool \<times> FreshAgentSessionLeases" where
  "force_release_after_confirmed_kill_if_matches provider session_id live_session_key ownership_id s =
     (let key = lease_key provider session_id;
          binding_matches = binding_names live_session_key ownership_id (fmlookup (fl_bindings s) key);
          lease_matches = lease_tagged ownership_id (fmlookup (fl_leases s) key)
      in (binding_matches \<or> lease_matches,
          s\<lparr>fl_leases := (if lease_matches then fmdrop key (fl_leases s) else fl_leases s),
            fl_bindings := (if binding_matches then fmdrop key (fl_bindings s) else fl_bindings s)\<rparr>))"

definition peek_kill_handle :: "string \<Rightarrow> string \<Rightarrow> FreshAgentSessionLeases \<Rightarrow> (nat \<times> string) option" where
  "peek_kill_handle provider session_id s =
     (case fmlookup (fl_leases s) (lease_key provider session_id) of
        None \<Rightarrow> None | Some lease \<Rightarrow> le_kill_handle lease)"

section \<open>The two-round claim of a lane\<close>

text \<open>
  \<open>ensure_alive\<close> of the codex lane claims; an expired holder's process tree is killed, which takes time
  in which other tasks use the table, then released and claimed once more. The kill's verdict and the
  table it returns to are parameters of the round.
\<close>

datatype LaneLease = LaneAcquired | LaneAdopt string | LaneReserved

definition lane_round ::
  "nat \<Rightarrow> string \<Rightarrow> string \<Rightarrow> string \<Rightarrow> nat \<Rightarrow> FreshAgentSessionLeases
   \<Rightarrow> (nat \<times> string + LaneLease) \<times> FreshAgentSessionLeases" where
  "lane_round ttl_ms provider session_id holder now_ms s =
     (case claim ttl_ms provider session_id holder now_ms s of
        (Acquired, s') \<Rightarrow> (Inr LaneAcquired, s')
      | (BoundLive live, s') \<Rightarrow> (Inr (LaneAdopt live), s')
      | (Held retry, s') \<Rightarrow> (Inr LaneReserved, s')
      | (ExpiredNeedsKill pid ownership_id, s') \<Rightarrow> (Inl (pid, ownership_id), s'))"

definition lane_claim ::
  "nat \<Rightarrow> string \<Rightarrow> string \<Rightarrow> string \<Rightarrow> nat \<Rightarrow> nat
   \<Rightarrow> (nat \<Rightarrow> string \<Rightarrow> FreshAgentSessionLeases \<Rightarrow> bool \<times> FreshAgentSessionLeases)
   \<Rightarrow> FreshAgentSessionLeases \<Rightarrow> LaneLease \<times> FreshAgentSessionLeases" where
  "lane_claim ttl_ms provider session_id holder now_ms again_ms kill s =
     (case lane_round ttl_ms provider session_id holder now_ms s of
        (Inr answer, s1) \<Rightarrow> (answer, s1)
      | (Inl (pid, ownership_id), s1) \<Rightarrow>
          (case kill pid ownership_id s1 of
             (False, s2) \<Rightarrow> (LaneReserved, s2)
           | (True, s2) \<Rightarrow>
               (case lane_round ttl_ms provider session_id holder again_ms
                       (force_release_after_confirmed_kill provider session_id s2) of
                  (Inr answer, s3) \<Rightarrow> (answer, s3)
                | (Inl handle, s3) \<Rightarrow> (LaneReserved, s3))))"

section \<open>The contract\<close>

definition leases_wf :: "FreshAgentSessionLeases \<Rightarrow> bool" where
  "leases_wf s = (fmdom (fl_leases s) |\<inter>| fmdom (fl_bindings s) = {||})"

definition lease_slot :: "FreshAgentSessionLeases \<Rightarrow> string \<Rightarrow> (string, Binding) slot" where
  "lease_slot s key =
     (case fmlookup (fl_bindings s) key of
        Some b \<Rightarrow> Bound b
      | None \<Rightarrow>
          (case fmlookup (fl_leases s) key of None \<Rightarrow> Free | Some l \<Rightarrow> Reserved (le_holder_request_id l)))"

datatype LeaseOp =
    Claim string string string nat
  | SetKillHandle string string string nat string
  | Complete string string string string "string option"
  | Fail string string string
  | ClearBinding string string
  | ClearBindingIf string string string string
  | ForceRelease string string
  | ForceReleaseIf string string string string

fun lease_perform :: "nat \<Rightarrow> LeaseOp \<Rightarrow> FreshAgentSessionLeases \<Rightarrow> FreshAgentSessionLeases" where
  "lease_perform ttl (Claim p i h now) s = snd (claim ttl p i h now s)"
| "lease_perform ttl (SetKillHandle p i h pid own) s = set_kill_handle p i h pid own s"
| "lease_perform ttl (Complete p i h live own) s = snd (complete_with_identity p i h live own s)"
| "lease_perform ttl (Fail p i h) s = lease_fail p i h s"
| "lease_perform ttl (ClearBinding p i) s = clear_binding p i s"
| "lease_perform ttl (ClearBindingIf p i live own) s = snd (clear_binding_if_matches p i live own s)"
| "lease_perform ttl (ForceRelease p i) s = force_release_after_confirmed_kill p i s"
| "lease_perform ttl (ForceReleaseIf p i live own) s =
     snd (force_release_after_confirmed_kill_if_matches p i live own s)"

text \<open>What an operation means for a key. A grant and a completion are what their answers say. A release that
  names a runtime has its meaning from what stands at the key: the live session and tag of a binding, or the
  tag of an in-flight lease's kill handle.\<close>

definition bound_to :: "string \<Rightarrow> string \<Rightarrow> FreshAgentSessionLeases \<Rightarrow> string \<Rightarrow> bool" where
  "bound_to live own s key =
     (\<exists>b. fmlookup (fl_bindings s) key = Some b \<and> bd_live_session_key b = live \<and> bd_ownership_id b = Some own)"

definition reserved_by :: "string \<Rightarrow> FreshAgentSessionLeases \<Rightarrow> string \<Rightarrow> bool" where
  "reserved_by own s key = (\<exists>l pid. fmlookup (fl_leases s) key = Some l \<and> le_kill_handle l = Some (pid, own))"

fun lease_event ::
  "nat \<Rightarrow> LeaseOp \<Rightarrow> FreshAgentSessionLeases \<Rightarrow> string \<Rightarrow> (string, Binding) slot_event" where
  "lease_event ttl (Claim p i h now) s key =
     (if key = lease_key p i \<and> fst (claim ttl p i h now s) = Acquired then Grant h else Stay)"
| "lease_event ttl (SetKillHandle p i h pid own) s key = Stay"
| "lease_event ttl (Complete p i h live own) s key =
     (if key = lease_key p i \<and> fst (complete_with_identity p i h live own s)
      then Settle h \<lparr>bd_live_session_key = live, bd_ownership_id = own\<rparr> else Stay)"
| "lease_event ttl (Fail p i h) s key =
     (if key = lease_key p i \<and> lease_slot s key = Reserved h then Abandon h else Stay)"
| "lease_event ttl (ClearBinding p i) s key =
     (if key = lease_key p i \<and> fmlookup (fl_bindings s) key \<noteq> None then Unbind else Stay)"
| "lease_event ttl (ClearBindingIf p i live own) s key =
     (if key = lease_key p i \<and> bound_to live own s key then Unbind else Stay)"
| "lease_event ttl (ForceRelease p i) s key = (if key = lease_key p i then Forced else Stay)"
| "lease_event ttl (ForceReleaseIf p i live own) s key =
     (if key = lease_key p i \<and> (bound_to live own s key \<or> reserved_by own s key) then Reap else Stay)"

lemma leases_wf_iff:
  "leases_wf s \<longleftrightarrow> (\<forall>key. fmlookup (fl_bindings s) key = None \<or> fmlookup (fl_leases s) key = None)"
  unfolding leases_wf_def fset_eq_iff by (simp add: fmlookup_dom_iff) (metis option.distinct(1) option.exhaust)

lemmas lease_ops = claim_def set_kill_handle_def complete_with_identity_def lease_fail_def clear_binding_def
  clear_binding_if_matches_def force_release_after_confirmed_kill_def
  force_release_after_confirmed_kill_if_matches_def Let_def

lemma lease_perform_wf: "leases_wf s \<Longrightarrow> leases_wf (lease_perform ttl op s)"
  by (cases op) (auto simp: leases_wf_iff lease_ops split: option.splits prod.splits)

lemma lease_perform_slot:
  assumes "leases_wf s"
  shows "slot_step (lease_event ttl op s key) (lease_slot s key) = Some (lease_slot (lease_perform ttl op s) key)"
  using assms [unfolded leases_wf_iff, THEN spec, of key] by (cases op)
    (auto simp: lease_ops lease_slot_def binding_names_def lease_tagged_def bound_to_def reserved_by_def split: option.splits prod.splits)

interpretation fresh: lease_table lease_slot leases_wf "lease_perform ttl" "lease_event ttl" for ttl
  by unfold_locales (fact lease_perform_wf lease_perform_slot)+

end
