(* ===== verification/Process_Evidence.thy ===== *)
theory Process_Evidence
  imports Text_Units
begin

text \<open>
  What the reaper of fresh-agent sidecars knows of a process
  (crates/freshell-freshagent/src/session_lease.rs): its start time as \<open>/proc/<pid>/stat\<close> shows it, the
  evidence that a recorded incarnation is still there, and the signal that is sent through a file
  descriptor pinned to that incarnation. The operating system is a parameter, the record \<open>Host\<close>, whose
  every call happens at its own moment of a clock; a log keeps the signals that were delivered.
\<close>

section \<open>The operating system\<close>

datatype StatRead = NotFound | Unreadable | Content utext

datatype PidfdOpen = Pinned nat | Esrch | NoPidfd

text \<open>An entry of \<open>/proc\<close>: one that cannot be read, a name that is no text, or a name.\<close>

datatype ProcEntry = Bad_entry | Bad_name | Named utext

text \<open>The reads of \<open>stat\<close>, \<open>status\<close> and \<open>environ\<close> of a pid, the listing of \<open>/proc\<close>, the effective user;
  \<open>ho_pidfd\<close> answers the start time of the incarnation that the descriptor pins, and \<open>ho_send\<close> whether the
  signal reached it.\<close>

record Host =
  ho_stat :: "nat \<Rightarrow> nat \<Rightarrow> StatRead"
  ho_status :: "nat \<Rightarrow> nat \<Rightarrow> StatRead"
  ho_environ :: "nat \<Rightarrow> nat \<Rightarrow> StatRead"
  ho_entries :: "nat \<Rightarrow> ProcEntry list option"
  ho_uid :: nat
  ho_pidfd :: "nat \<Rightarrow> nat \<Rightarrow> PidfdOpen"
  ho_send :: "nat \<Rightarrow> nat \<Rightarrow> nat \<Rightarrow> nat \<Rightarrow> bool"

record ReapLog =
  rl_now :: nat
  rl_sent :: "(nat \<times> nat \<times> nat) list"

definition tick :: "ReapLog \<Rightarrow> ReapLog" where
  "tick s = s\<lparr>rl_now := rl_now s + 1\<rparr>"

definition SIGTERM :: nat where "SIGTERM = 15"
definition SIGKILL :: nat where "SIGKILL = 9"

section \<open>The start time of a process\<close>

text \<open>The text after the last closing parenthesis (\<open>rsplit(')').next()\<close>).\<close>

definition after_last :: "nat \<Rightarrow> utext \<Rightarrow> utext" where
  "after_last c t = rev (takeWhile (\<lambda>x. x \<noteq> c) (rev t))"

definition parse_stat :: "utext \<Rightarrow> unit + nat option" where
  "parse_stat stat =
     (let fields = split_whitespace (after_last 0x29 stat) in
      case fields of
        [] \<Rightarrow> Inl ()
      | state # _ \<Rightarrow>
          if state = [0x5a] \<or> state = [0x58] then Inr None
          else if length fields \<le> 19 then Inl ()
          else (case parse_unsigned usize_max (fields ! 19) of None \<Rightarrow> Inl () | Some start \<Rightarrow> Inr (Some start)))"

definition starttime_of_read :: "StatRead \<Rightarrow> unit + nat option" where
  "starttime_of_read r =
     (case r of NotFound \<Rightarrow> Inr None | Unreadable \<Rightarrow> Inl () | Content stat \<Rightarrow> parse_stat stat)"

definition proc_starttime_observation :: "Host \<Rightarrow> nat \<Rightarrow> ReapLog \<Rightarrow> (unit + nat option) \<times> ReapLog" where
  "proc_starttime_observation host pid s = (starttime_of_read (ho_stat host (rl_now s) pid), tick s)"

definition proc_starttime :: "Host \<Rightarrow> nat \<Rightarrow> ReapLog \<Rightarrow> nat option \<times> ReapLog" where
  "proc_starttime host pid s =
     (case proc_starttime_observation host pid s of
        (Inl _, s') \<Rightarrow> (None, s') | (Inr start, s') \<Rightarrow> (start, s'))"

definition recorded_start_time :: "Host \<Rightarrow> nat option \<Rightarrow> ReapLog \<Rightarrow> nat option \<times> ReapLog" where
  "recorded_start_time host pid s =
     (case pid of None \<Rightarrow> (None, s) | Some p \<Rightarrow> proc_starttime host p s)"

datatype RecordedProcessEvidence = SameIncarnation | Gone_evidence | Unavailable

definition recorded_process_evidence ::
  "Host \<Rightarrow> nat \<Rightarrow> nat option \<Rightarrow> ReapLog \<Rightarrow> RecordedProcessEvidence \<times> ReapLog" where
  "recorded_process_evidence host pid recorded_start s =
     (case proc_starttime_observation host pid s of
        (Inl _, s') \<Rightarrow> (Unavailable, s')
      | (Inr None, s') \<Rightarrow> (Gone_evidence, s')
      | (Inr (Some actual), s') \<Rightarrow>
          (case recorded_start of
             Some expected \<Rightarrow> if expected = actual then (SameIncarnation, s') else (Gone_evidence, s')
           | None \<Rightarrow> (Unavailable, s')))"

section \<open>Signals to a recorded incarnation\<close>

datatype IncarnationSignal = Sent | Gone | Unconfirmable

text \<open>Pin the occupant of the pid, check that it is the recorded incarnation, send through the pin.\<close>

definition send_signal :: "Host \<Rightarrow> nat \<Rightarrow> nat \<Rightarrow> nat \<Rightarrow> ReapLog \<Rightarrow> bool \<times> ReapLog" where
  "send_signal host pid pinned sig s =
     (if ho_send host (rl_now s) pid pinned sig
      then (True, tick (s\<lparr>rl_sent := rl_sent s @ [(pid, pinned, sig)]\<rparr>))
      else (False, tick s))"

definition signal_recorded_incarnation ::
  "Host \<Rightarrow> nat \<Rightarrow> nat option \<Rightarrow> nat \<Rightarrow> ReapLog \<Rightarrow> IncarnationSignal \<times> ReapLog" where
  "signal_recorded_incarnation host pid recorded_start sig s =
     (case recorded_start of
        None \<Rightarrow> (Unconfirmable, s)
      | Some expected \<Rightarrow>
          (case ho_pidfd host (rl_now s) pid of
             Esrch \<Rightarrow> (Gone, tick s)
           | NoPidfd \<Rightarrow> (Unconfirmable, tick s)
           | Pinned pinned \<Rightarrow>
               (case proc_starttime_observation host pid (tick s) of
                  (Inl _, s') \<Rightarrow> (Unconfirmable, s')
                | (Inr None, s') \<Rightarrow> (Gone, s')
                | (Inr (Some actual), s') \<Rightarrow>
                    if actual = expected
                    then (case send_signal host pid pinned sig s' of
                            (sent, s'') \<Rightarrow> (if sent then Sent else Gone, s''))
                    else (Gone, s'))))"

section \<open>What the kernel is known to do\<close>

text \<open>The processes over time: at every moment a pid is free, held by a zombie, or held by a running
  incarnation, told apart by start time. An incarnation is there for one stretch of time.\<close>

datatype Occupant = Absent | Zombie nat | Running nat

definition one_life :: "(nat \<Rightarrow> nat \<Rightarrow> Occupant) \<Rightarrow> bool" where
  "one_life world =
     (\<forall>p start t1 t t2. t1 \<le> t \<and> t \<le> t2 \<and> world t1 p = Running start \<and> world t2 p = Running start
        \<longrightarrow> world t p = Running start)"

text \<open>The line of \<open>/proc/<pid>/stat\<close> (proc(5)): pid, command name in parentheses, state, and the fields up to
  the start time, the twenty-second, and after it. The command name may hold anything; a field is a word,
  such as the -1 of a process without a terminal, and holds no parenthesis.\<close>

definition stat_field :: "utext \<Rightarrow> bool" where
  "stat_field w = (plain_word w \<and> 0x29 \<notin> set w)"

definition stat_line :: "nat \<Rightarrow> utext \<Rightarrow> utext \<Rightarrow> utext list \<Rightarrow> nat \<Rightarrow> utext list \<Rightarrow> utext" where
  "stat_line pid comm state before start after =
     decimal pid @ [0x20, 0x28] @ comm @ [0x29, 0x20]
       @ join_spaces (state # before @ decimal start # after) @ [0x0a]"

definition stat_of :: "Occupant \<Rightarrow> nat \<Rightarrow> StatRead \<Rightarrow> bool" where
  "stat_of occ pid r =
     (case r of
        NotFound \<Rightarrow> occ = Absent
      | Unreadable \<Rightarrow> True
      | Content c \<Rightarrow>
          (\<exists>comm state before start after.
             c = stat_line pid comm state before start after \<and> length before = 18 \<and> start \<le> usize_max
             \<and> stat_field state \<and> list_all stat_field before \<and> list_all stat_field after
             \<and> occ = (if state = [0x5a] \<or> state = [0x58] then Zombie start else Running start)))"

definition pins :: "Occupant \<Rightarrow> PidfdOpen \<Rightarrow> bool" where
  "pins occ r =
     (case r of
        Esrch \<Rightarrow> occ = Absent | NoPidfd \<Rightarrow> True | Pinned start \<Rightarrow> occ = Running start \<or> occ = Zombie start)"

definition faithful :: "Host \<Rightarrow> (nat \<Rightarrow> nat \<Rightarrow> Occupant) \<Rightarrow> bool" where
  "faithful host world =
     (\<forall>t p. stat_of (world t p) p (ho_stat host t p) \<and> pins (world t p) (ho_pidfd host t p))"

section \<open>The start time is read right\<close>

lemma after_last_append:
  assumes "c \<notin> set t"
  shows "after_last c (s @ c # t) = t"
proof -
  have "takeWhile (\<lambda>x. x \<noteq> c) (rev t @ c # rev s) = rev t @ takeWhile (\<lambda>x. x \<noteq> c) (c # rev s)"
    using assms by (intro takeWhile_append2) auto
  then show ?thesis by (simp add: after_last_def)
qed

lemma words_from_space_end: "words_from w (t @ [0x0a]) = words_from w t"
  by (induction w t rule: words_from.induct) (auto simp: is_whitespace_def)

lemma join_spaces_set: "set (join_spaces ws) \<subseteq> {0x20} \<union> \<Union> (set ` set ws)"
  by (induction ws) auto

lemma decimal_no_paren: "0x29 \<notin> set (decimal n)"
  using decimal_digits [of n] by (auto simp: is_digit_def list_all_iff)

lemma parse_stat_line:
  assumes "length before = 18" and "start \<le> usize_max" and "stat_field state" and "list_all stat_field before"
    and "list_all stat_field after"
  shows "parse_stat (stat_line pid comm state before start after) =
    Inr (if state = [0x5a] \<or> state = [0x58] then None else Some start)"
proof -
  let ?ws = "state # before @ decimal start # after"
  let ?rest = "0x20 # join_spaces ?ws @ [0x0a]"
  have "0x29 \<notin> set ?rest"
    using assms(3-5) decimal_no_paren [of start] join_spaces_set [of ?ws] by (fastforce simp: stat_field_def list_all_iff)
  then have "after_last 0x29 (stat_line pid comm state before start after) = ?rest"
    using after_last_append [of "0x29" ?rest "decimal pid @ [0x20, 0x28] @ comm"] by (simp add: stat_line_def)
  moreover have "split_whitespace ?rest = ?ws"
  proof -
    have "list_all plain_word ?ws" using assms(3-5) decimal_digits_plain [of start] by (auto simp: stat_field_def list_all_iff)
    then have "words_from [] (join_spaces ?ws) = ?ws" using split_join by (simp only: split_whitespace_def)
    then show ?thesis unfolding split_leading_space unfolding split_whitespace_def by (simp only: words_from_space_end)
  qed
  ultimately show ?thesis
    using assms(1,2) parse_unsigned_decimal [of start usize_max] by (simp add: parse_stat_def nth_append)
qed

lemma read_faithful:
  assumes "stat_of occ pid r" and "starttime_of_read r = Inr x"
  shows "x = (case occ of Running start \<Rightarrow> Some start | _ \<Rightarrow> None)"
proof (cases r)
  case (Content c)
  then obtain comm state before start after where
    "c = stat_line pid comm state before start after" "length before = 18" "start \<le> usize_max"
    "stat_field state" "list_all stat_field before" "list_all stat_field after"
    "occ = (if state = [0x5a] \<or> state = [0x58] then Zombie start else Running start)"
    using assms(1) by (auto simp: stat_of_def)
  then show ?thesis using Content assms(2) parse_stat_line [of before start state after] by (auto simp: starttime_of_read_def)
qed (use assms in \<open>auto simp: starttime_of_read_def stat_of_def\<close>)

end
