(* ===== verification/Reaper.thy ===== *)
theory Reaper
  imports Process_Evidence
begin

text \<open>
  Killing a fresh agent's sidecar and confirming that its whole process tree is dead
  (crates/freshell-freshagent/src/session_lease.rs, the Linux half): the tree is captured as pairs of
  pid and start time while its tags are readable, the child is signalled and waited for, and the
  captured tree is swept until every member is gone. Sleeping lets time pass, which the clock does
  anyway. On other systems the functions answer that nothing is confirmed.
\<close>

section \<open>The child\<close>

fun wait_gone_loop :: "Host \<Rightarrow> nat \<Rightarrow> nat option \<Rightarrow> nat \<Rightarrow> ReapLog \<Rightarrow> bool \<times> ReapLog" where
  "wait_gone_loop host pid recorded_start 0 s =
     (case recorded_process_evidence host pid recorded_start s of (e, s') \<Rightarrow> (e = Gone_evidence, s'))"
| "wait_gone_loop host pid recorded_start (Suc n) s =
     (case recorded_process_evidence host pid recorded_start s of
        (Gone_evidence, s') \<Rightarrow> (True, s')
      | (Unavailable, s') \<Rightarrow> (False, s')
      | (SameIncarnation, s') \<Rightarrow> wait_gone_loop host pid recorded_start n (tick s'))"

definition wait_recorded_incarnation_gone :: "Host \<Rightarrow> nat \<Rightarrow> nat option \<Rightarrow> ReapLog \<Rightarrow> bool \<times> ReapLog" where
  "wait_recorded_incarnation_gone host pid recorded_start s = wait_gone_loop host pid recorded_start 20 s"

definition kill_recorded_child_unconfirmed :: "Host \<Rightarrow> nat \<Rightarrow> nat option \<Rightarrow> ReapLog \<Rightarrow> bool \<times> ReapLog" where
  "kill_recorded_child_unconfirmed host pid recorded_start s =
     (if recorded_start = None then (False, s)
      else case signal_recorded_incarnation host pid recorded_start SIGTERM s of
             (Gone, s1) \<Rightarrow> (False, s1)
           | (Unconfirmable, s1) \<Rightarrow> (True, s1)
           | (Sent, s1) \<Rightarrow>
               (case wait_recorded_incarnation_gone host pid recorded_start s1 of
                  (True, s2) \<Rightarrow> (False, s2)
                | (False, s2) \<Rightarrow>
                    (case signal_recorded_incarnation host pid recorded_start SIGKILL s2 of
                       (Gone, s3) \<Rightarrow> (False, s3)
                     | (Unconfirmable, s3) \<Rightarrow> (True, s3)
                     | (Sent, s3) \<Rightarrow>
                         (case wait_recorded_incarnation_gone host pid recorded_start s3 of
                            (gone, s4) \<Rightarrow> (\<not> gone, s4)))))"

section \<open>The scan for tagged processes\<close>

text \<open>Parsing a signed number of 32 bits: an optional sign, then digits.\<close>

definition parse_i32 :: "utext \<Rightarrow> int option" where
  "parse_i32 t =
     (case t of
        c # cs \<Rightarrow> if c = 0x2d then
            (if cs \<noteq> [] \<and> list_all is_digit cs \<and> digits_value cs \<le> 2 ^ 31 then Some (- int (digits_value cs)) else None)
          else map_option int (parse_unsigned (2 ^ 31 - 1) t)
      | [] \<Rightarrow> None)"

text \<open>\<open>split\<close> at a separator, and \<open>lines\<close>, whose final empty piece and carriage returns do not matter here.\<close>

fun pieces :: "nat \<Rightarrow> nat list \<Rightarrow> nat list \<Rightarrow> nat list list" where
  "pieces c w [] = [w]"
| "pieces c w (x # xs) = (if x = c then w # pieces c [] xs else pieces c (w @ [x]) xs)"

text \<open>The first word after a label, in the first line that has one.\<close>

fun line_field :: "utext \<Rightarrow> utext list \<Rightarrow> utext option" where
  "line_field label [] = None"
| "line_field label (l # ls) =
     (if take (length label) l = label then
        (case split_whitespace (drop (length label) l) of [] \<Rightarrow> line_field label ls | w # _ \<Rightarrow> Some w)
      else line_field label ls)"

definition status_field :: "utext \<Rightarrow> utext \<Rightarrow> utext option" where
  "status_field label status = line_field label (pieces 0x0a [] status)"

text \<open>The ancestors of a process are followed for at most 128 steps; \<open>Inl ()\<close> is the error.\<close>

fun descendant_loop :: "Host \<Rightarrow> nat \<Rightarrow> nat \<Rightarrow> nat \<Rightarrow> ReapLog \<Rightarrow> (unit + bool) \<times> ReapLog" where
  "descendant_loop host root 0 pid s = (Inl (), s)"
| "descendant_loop host root (Suc n) pid s =
     (if pid = root then (Inr True, s)
      else case ho_status host (rl_now s) pid of
             NotFound \<Rightarrow> (Inr False, tick s)
           | Unreadable \<Rightarrow> (Inl (), tick s)
           | Content status \<Rightarrow>
               (case status_field (ascii ''PPid:'') status of
                  None \<Rightarrow> (Inl (), tick s)
                | Some word \<Rightarrow>
                    (case parse_i32 word of
                       None \<Rightarrow> (Inl (), tick s)
                     | Some parent \<Rightarrow>
                         if parent \<le> 1 then (Inr False, tick s)
                         else descendant_loop host root n (nat parent) (tick s))))"

definition process_is_descendant_of :: "Host \<Rightarrow> nat \<Rightarrow> nat \<Rightarrow> ReapLog \<Rightarrow> (unit + bool) \<times> ReapLog" where
  "process_is_descendant_of host pid root s = descendant_loop host root 128 pid s"

definition process_is_known_owned_process :: "Host \<Rightarrow> nat \<Rightarrow> nat option \<Rightarrow> ReapLog \<Rightarrow> bool \<times> ReapLog" where
  "process_is_known_owned_process host pid owned_root s =
     (case owned_root of
        None \<Rightarrow> (False, s)
      | Some root \<Rightarrow>
          (let (seen, s1) = (if pid = root then proc_starttime_observation host pid s else (Inl (), s)) in
           if seen = Inr None then (False, s1)
           else case process_is_descendant_of host pid root s1 of (r, s2) \<Rightarrow> (r = Inr True, s2)))"

text \<open>What one listed process says: it carries the tag, it does not or is another user's, or it is a process of the
  sidecar that cannot be read. A name that is a negative number names no process.\<close>

datatype TagVerdict = Tagged | Not_tagged | Unknown_tag

definition unread :: "Host \<Rightarrow> nat \<Rightarrow> nat option \<Rightarrow> ReapLog \<Rightarrow> TagVerdict \<times> ReapLog" where
  "unread host pid root s =
     (case process_is_known_owned_process host pid root s of (known, s') \<Rightarrow> (if known then Unknown_tag else Not_tagged, s'))"

definition scan_pid :: "Host \<Rightarrow> utext \<Rightarrow> nat option \<Rightarrow> nat \<Rightarrow> ReapLog \<Rightarrow> TagVerdict \<times> ReapLog" where
  "scan_pid host needle root pid s =
     (case ho_status host (rl_now s) pid of
        NotFound \<Rightarrow> (Not_tagged, tick s)
      | Unreadable \<Rightarrow> unread host pid root (tick s)
      | Content status \<Rightarrow>
          (case Option.bind (status_field (ascii ''Uid:'') status) (parse_unsigned (2 ^ 32 - 1)) of
             None \<Rightarrow> unread host pid root (tick s)
           | Some uid \<Rightarrow>
               if uid \<noteq> ho_uid host then (Not_tagged, tick s)
               else (case ho_environ host (rl_now (tick s)) pid of
                       NotFound \<Rightarrow> (Not_tagged, tick (tick s))
                     | Unreadable \<Rightarrow> unread host pid root (tick (tick s))
                     | Content bytes \<Rightarrow>
                         (if needle \<in> set (pieces 0 [] bytes) then Tagged else Not_tagged, tick (tick s)))))"

fun scan_entries :: "Host \<Rightarrow> utext \<Rightarrow> nat option \<Rightarrow> ProcEntry list \<Rightarrow> ReapLog \<Rightarrow> (nat list \<times> bool) \<times> ReapLog" where
  "scan_entries host needle root [] s = (([], True), s)"
| "scan_entries host needle root (e # es) s =
     (let (verdict, pid, s1) = (case e of
            Named name \<Rightarrow>
              (case parse_i32 name of
                 Some p \<Rightarrow>
                   if p < 0 then (Not_tagged, 0, s)
                   else (case scan_pid host needle root (nat p) s of (v, s') \<Rightarrow> (v, nat p, s'))
               | None \<Rightarrow> (Not_tagged, 0, s))
          | _ \<Rightarrow> (Unknown_tag, 0, s));
          ((pids, complete), s2) = scan_entries host needle root es s1
      in ((if verdict = Tagged then pid # pids else pids, complete \<and> verdict \<noteq> Unknown_tag), s2))"

definition scan_tagged_pids ::
  "Host \<Rightarrow> string \<Rightarrow> string \<Rightarrow> nat option \<Rightarrow> ReapLog \<Rightarrow> (nat list \<times> bool) \<times> ReapLog" where
  "scan_tagged_pids host ownership_env ownership_id root s =
     (let needle = ascii (ownership_env @ ''='' @ ownership_id) in
      case ho_entries host (rl_now s) of
        None \<Rightarrow> (([], False), tick s)
      | Some entries \<Rightarrow> scan_entries host needle root entries (tick s))"

section \<open>The sweep\<close>

text \<open>\<open>retain\<close>: members that are no longer their recorded incarnation leave; an observation that fails
  keeps its member and makes the pass incomplete.\<close>

fun retain_tree :: "Host \<Rightarrow> (nat \<times> nat) list \<Rightarrow> ReapLog \<Rightarrow> (nat \<times> nat) list \<times> bool \<times> ReapLog" where
  "retain_tree host [] s = ([], True, s)"
| "retain_tree host ((p, start) # tree) s =
     (case proc_starttime_observation host p s of
        (seen, s') \<Rightarrow>
          (case retain_tree host tree s' of
             (kept, whole, s'') \<Rightarrow>
               (case seen of
                  Inl _ \<Rightarrow> ((p, start) # kept, False, s'')
                | Inr None \<Rightarrow> (kept, whole, s'')
                | Inr (Some actual) \<Rightarrow> (if actual = start then (p, start) # kept else kept, whole, s''))))"

fun add_newcomers ::
  "Host \<Rightarrow> nat list \<Rightarrow> (nat \<times> nat) list \<Rightarrow> ReapLog \<Rightarrow> (nat \<times> nat) list option \<times> ReapLog" where
  "add_newcomers host [] tree s = (Some tree, s)"
| "add_newcomers host (p # pids) tree s =
     (if list_ex (\<lambda>(q, start). q = p) tree then add_newcomers host pids tree s
      else case proc_starttime_observation host p s of
             (Inl _, s') \<Rightarrow> (None, s')
           | (Inr None, s') \<Rightarrow> add_newcomers host pids tree s'
           | (Inr (Some start), s') \<Rightarrow> add_newcomers host pids (tree @ [(p, start)]) s')"

fun signal_tree :: "Host \<Rightarrow> nat \<Rightarrow> (nat \<times> nat) list \<Rightarrow> ReapLog \<Rightarrow> ReapLog" where
  "signal_tree host sig [] s = s"
| "signal_tree host sig ((p, start) # tree) s =
     signal_tree host sig tree (snd (signal_recorded_incarnation host p (Some start) sig s))"

text \<open>The rounds, counted by those that are left of 24; the last four kill.\<close>

fun sweep_loop ::
  "Host \<Rightarrow> string \<Rightarrow> string \<Rightarrow> nat option \<Rightarrow> nat \<Rightarrow> (nat \<times> nat) list \<Rightarrow> ReapLog \<Rightarrow> bool \<times> ReapLog" where
  "sweep_loop host env own root 0 tree s =
     (case retain_tree host tree s of (kept, whole, s') \<Rightarrow> (whole \<and> kept = [], s'))"
| "sweep_loop host env own root (Suc n) tree s =
     (case retain_tree host tree s of
        (kept, whole, s1) \<Rightarrow>
          if \<not> whole then (False, s1)
          else (case scan_tagged_pids host env own root s1 of
                  ((pids, complete), s2) \<Rightarrow>
                    if \<not> complete then (False, s2)
                    else (case add_newcomers host pids kept s2 of
                            (None, s3) \<Rightarrow> (False, s3)
                          | (Some tree', s3) \<Rightarrow>
                              if tree' = [] then (True, s3)
                              else sweep_loop host env own root n tree'
                                     (tick (signal_tree host (if 23 - n < 20 then SIGTERM else SIGKILL) tree' s3)))))"

definition sweep_captured_tree_until_dead ::
  "Host \<Rightarrow> (nat \<times> nat) list \<Rightarrow> string \<Rightarrow> string \<Rightarrow> nat option \<Rightarrow> ReapLog \<Rightarrow> bool \<times> ReapLog" where
  "sweep_captured_tree_until_dead host tree env own root s = sweep_loop host env own root 24 tree s"

section \<open>Kill and confirm\<close>

fun capture_pids :: "Host \<Rightarrow> nat list \<Rightarrow> ReapLog \<Rightarrow> (nat \<times> nat) list option \<times> ReapLog" where
  "capture_pids host [] s = (Some [], s)"
| "capture_pids host (p # pids) s =
     (case proc_starttime_observation host p s of
        (Inl _, s') \<Rightarrow> (None, s')
      | (Inr None, s') \<Rightarrow> capture_pids host pids s'
      | (Inr (Some start), s') \<Rightarrow>
          (case capture_pids host pids s' of
             (None, s'') \<Rightarrow> (None, s'') | (Some tree, s'') \<Rightarrow> (Some ((p, start) # tree), s'')))"

definition with_child :: "nat \<Rightarrow> nat option \<Rightarrow> (nat \<times> nat) list \<Rightarrow> (nat \<times> nat) list" where
  "with_child pid child_start tree =
     (if list_ex (\<lambda>(p, start). p = pid) tree then tree
      else case child_start of Some start \<Rightarrow> tree @ [(pid, start)] | None \<Rightarrow> tree)"

text \<open>The capture: the child's start time, the tagged pids, the start time of each.\<close>

definition capture_tree ::
  "Host \<Rightarrow> nat \<Rightarrow> string \<Rightarrow> string \<Rightarrow> ReapLog \<Rightarrow> (nat option \<times> (nat \<times> nat) list) option \<times> ReapLog" where
  "capture_tree host pid env own s =
     (case proc_starttime_observation host pid s of
        (Inl _, s1) \<Rightarrow> (None, s1)
      | (Inr child_start, s1) \<Rightarrow>
          (case scan_tagged_pids host env own (Some pid) s1 of
             ((pids, complete), s2) \<Rightarrow>
               if \<not> complete then (None, s2)
               else (case capture_pids host pids s2 of
                       (None, s3) \<Rightarrow> (None, s3)
                     | (Some tree, s3) \<Rightarrow> (Some (child_start, with_child pid child_start tree), s3))))"

definition kill_and_confirm_tree_dead ::
  "Host \<Rightarrow> nat \<Rightarrow> string \<Rightarrow> string \<Rightarrow> ReapLog \<Rightarrow> bool \<times> ReapLog" where
  "kill_and_confirm_tree_dead host pid env own s =
     (case capture_tree host pid env own s of
        (None, s1) \<Rightarrow> (False, s1)
      | (Some (child_start, tree), s1) \<Rightarrow>
          (case kill_recorded_child_unconfirmed host pid child_start s1 of
             (True, s2) \<Rightarrow> (False, s2)
           | (False, s2) \<Rightarrow> sweep_captured_tree_until_dead host tree env own (Some pid) s2))"

record CondemnedRuntimeIdentity =
  cr_pid :: nat
  cr_start_time :: "nat option"
  cr_tree :: "(nat \<times> nat) list"
  cr_ownership_id :: string
  cr_capture_complete :: bool

fun record_pids :: "Host \<Rightarrow> nat list \<Rightarrow> ReapLog \<Rightarrow> (nat \<times> nat) list \<times> bool \<times> ReapLog" where
  "record_pids host [] s = ([], True, s)"
| "record_pids host (p # pids) s =
     (case proc_starttime_observation host p s of
        (seen, s') \<Rightarrow>
          (case record_pids host pids s' of
             (tree, whole, s'') \<Rightarrow>
               (case seen of
                  Inl _ \<Rightarrow> (tree, False, s'')
                | Inr None \<Rightarrow> (tree, whole, s'')
                | Inr (Some start) \<Rightarrow> ((p, start) # tree, whole, s''))))"

definition record_condemned_runtime_identity ::
  "Host \<Rightarrow> nat \<Rightarrow> string \<Rightarrow> string \<Rightarrow> ReapLog \<Rightarrow> CondemnedRuntimeIdentity \<times> ReapLog" where
  "record_condemned_runtime_identity host pid env own s =
     (case proc_starttime_observation host pid s of
        (child, s1) \<Rightarrow>
          (let child_start = (case child of Inl _ \<Rightarrow> None | Inr start \<Rightarrow> start) in
           case scan_tagged_pids host env own (Some pid) s1 of
             ((pids, complete), s2) \<Rightarrow>
               (case record_pids host pids s2 of
                  (tree, whole, s3) \<Rightarrow>
                    (\<lparr>cr_pid = pid, cr_start_time = child_start, cr_tree = with_child pid child_start tree,
                      cr_ownership_id = own, cr_capture_complete = (\<not> isl child \<and> complete \<and> whole)\<rparr>, s3))))"

definition kill_and_confirm_recorded_tree_dead ::
  "Host \<Rightarrow> CondemnedRuntimeIdentity \<Rightarrow> string \<Rightarrow> ReapLog \<Rightarrow> bool \<times> ReapLog" where
  "kill_and_confirm_recorded_tree_dead host recorded env s =
     (if \<not> cr_capture_complete recorded then (False, s)
      else
        (let sweep = sweep_captured_tree_until_dead host (cr_tree recorded) env (cr_ownership_id recorded)
               (Some (cr_pid recorded)) in
         if cr_start_time recorded = None then sweep s
         else case recorded_process_evidence host (cr_pid recorded) (cr_start_time recorded) s of
                (SameIncarnation, s1) \<Rightarrow>
                  (case kill_recorded_child_unconfirmed host (cr_pid recorded) (cr_start_time recorded) s1 of
                     (True, s2) \<Rightarrow> (False, s2) | (False, s2) \<Rightarrow> sweep s2)
              | (Gone_evidence, s1) \<Rightarrow> sweep s1
              | (Unavailable, s1) \<Rightarrow> (False, s1)))"

end
