(* ===== verification/Reaper_Props.thy ===== *)
theory Reaper_Props
  imports Reaper
begin

text \<open>
  What a confirmed kill means: no signal ever reaches a process that is not a recorded incarnation, and
  a confirmed tree is dead for good.
\<close>

section \<open>What has been seen, and what is gone\<close>

definition seen :: "(nat \<Rightarrow> nat \<Rightarrow> Occupant) \<Rightarrow> nat \<Rightarrow> nat \<times> nat \<Rightarrow> bool" where
  "seen world now x = (\<exists>t < now. world t (fst x) = Running (snd x))"

definition gone_for_good :: "(nat \<Rightarrow> nat \<Rightarrow> Occupant) \<Rightarrow> nat \<Rightarrow> nat \<times> nat \<Rightarrow> bool" where
  "gone_for_good world now x = (\<forall>t \<ge> now. world t (fst x) \<noteq> Running (snd x))"

text \<open>An incarnation that was there at some moment of a stretch of time.\<close>

definition recorded_in :: "(nat \<Rightarrow> nat \<Rightarrow> Occupant) \<Rightarrow> nat \<Rightarrow> nat \<Rightarrow> nat \<times> nat \<Rightarrow> bool" where
  "recorded_in world a b x = (\<exists>t. a \<le> t \<and> t < b \<and> world t (fst x) = Running (snd x))"

lemma recorded_seen: "recorded_in world a b x \<Longrightarrow> b \<le> c \<Longrightarrow> seen world c x"
  by (auto simp: recorded_in_def seen_def intro: less_le_trans)

lemma recorded_mono: "recorded_in world a b x \<Longrightarrow> a' \<le> a \<Longrightarrow> b \<le> b' \<Longrightarrow> recorded_in world a' b' x"
  unfolding recorded_in_def by (meson le_trans less_le_trans)

text \<open>The processes of a sidecar, told apart from all others: what a scan for its tag names is still one
  of them when its start time is read right after the scan, one moment for each pid.\<close>

definition owned ::
  "(nat \<Rightarrow> nat \<Rightarrow> Occupant) \<Rightarrow> (ReapLog \<Rightarrow> (nat list \<times> bool) \<times> ReapLog) \<Rightarrow> (nat \<times> nat \<Rightarrow> bool) \<Rightarrow> bool" where
  "owned world scan ours =
     (\<forall>s pids complete s' x. scan s = ((pids, complete), s') \<and> fst x \<in> set pids
        \<and> recorded_in world (rl_now s') (rl_now s' + length pids) x \<longrightarrow> ours x)"

lemma seen_mono: "seen world a x \<Longrightarrow> a \<le> b \<Longrightarrow> seen world b x"
  by (auto simp: seen_def intro: less_le_trans)

lemma gone_mono: "gone_for_good world a x \<Longrightarrow> a \<le> b \<Longrightarrow> gone_for_good world b x"
  by (auto simp: gone_for_good_def)

lemma missed_once:
  assumes "one_life world" and "seen world t x" and "world t (fst x) \<noteq> Running (snd x)"
  shows "gone_for_good world t x"
proof -
  obtain t0 where "t0 < t" "world t0 (fst x) = Running (snd x)" using assms(2) by (auto simp: seen_def)
  with assms(1,3) show ?thesis unfolding one_life_def gone_for_good_def by (meson less_imp_le)
qed

section \<open>The steps\<close>

lemma now_tick [simp]: "rl_now (tick s) = Suc (rl_now s)" "rl_sent (tick s) = rl_sent s"
  by (simp_all add: tick_def)

lemma observation_steps:
  "proc_starttime_observation host p s = (r, s') \<Longrightarrow> rl_now s' = Suc (rl_now s) \<and> rl_sent s' = rl_sent s"
  by (auto simp: proc_starttime_observation_def)

lemma observation_truth:
  assumes "faithful host world" and "proc_starttime_observation host p s = (Inr x, s')"
  shows "x = (case world (rl_now s) p of Running start \<Rightarrow> Some start | _ \<Rightarrow> None)"
  using assms read_faithful [of "world (rl_now s) p" p "ho_stat host (rl_now s) p" x]
  by (auto simp: proc_starttime_observation_def faithful_def)

lemma observed_running:
  assumes "faithful host world" and "proc_starttime_observation host p s = (Inr (Some start), s')"
  shows "world (rl_now s) p = Running start" and "seen world (rl_now s') (p, start)"
proof -
  show *: "world (rl_now s) p = Running start"
    using observation_truth [OF assms] by (auto split: Occupant.splits)
  then show "seen world (rl_now s') (p, start)"
    using observation_steps [OF assms(2)] by (auto simp: seen_def)
qed

lemma observed_other:
  assumes "faithful host world" and "one_life world" and "proc_starttime_observation host p s = (Inr x, s')"
    and "x \<noteq> Some start" and "seen world (rl_now s) (p, start)"
  shows "gone_for_good world (rl_now s') (p, start)"
proof -
  have "world (rl_now s) p \<noteq> Running start" using observation_truth [OF assms(1,3)] assms(4) by auto
  with missed_once [OF assms(2,5)] have "gone_for_good world (rl_now s) (p, start)" by simp
  then show ?thesis using observation_steps [OF assms(3)] by (auto intro: gone_mono)
qed

text \<open>The signals of a log are allowed when each reached an incarnation of the allowed set that was seen.\<close>

definition signals_ok :: "(nat \<Rightarrow> nat \<Rightarrow> Occupant) \<Rightarrow> (nat \<times> nat \<Rightarrow> bool) \<Rightarrow> ReapLog \<Rightarrow> bool" where
  "signals_ok world allowed s =
     (\<forall>(p, start, sig) \<in> set (rl_sent s). allowed (p, start) \<and> seen world (rl_now s) (p, start))"

lemma signals_ok_mono:
  "signals_ok world allowed s \<Longrightarrow> rl_now s \<le> rl_now s' \<Longrightarrow> rl_sent s' = rl_sent s \<Longrightarrow> signals_ok world allowed s'"
  unfolding signals_ok_def using seen_mono by fastforce

lemma send_ok:
  assumes "signals_ok world allowed s" and "allowed (p, start)" and "seen world (rl_now s) (p, start)"
  shows "signals_ok world allowed (snd (send_signal host p start sig s))"
  using assms unfolding signals_ok_def send_signal_def by (auto intro: seen_mono)

lemma send_steps: "rl_now (snd (send_signal host p start sig s)) = Suc (rl_now s)"
  by (simp add: send_signal_def)

text \<open>The pin is the incarnation that was recorded: it was there before the pin and after it.\<close>

lemma signal_steps:
  assumes "faithful host world" and "one_life world" and "signals_ok world allowed s"
    and "\<And>st. start = Some st \<Longrightarrow> allowed (p, st) \<and> seen world (rl_now s) (p, st)"
    and "signal_recorded_incarnation host p start sig s = (r, s')"
  shows "rl_now s \<le> rl_now s' \<and> signals_ok world allowed s'"
proof (cases start)
  case None
  then show ?thesis using assms(3,5) by (simp add: signal_recorded_incarnation_def)
next
  case (Some st)
  show ?thesis
  proof (cases "ho_pidfd host (rl_now s) p")
    case (Pinned pinned)
    obtain x s1 where obs: "proc_starttime_observation host p (tick s) = (x, s1)" by fastforce
    have s1: "rl_now s1 = Suc (Suc (rl_now s))" "rl_sent s1 = rl_sent s" using observation_steps [OF obs] by simp_all
    then have ok1: "signals_ok world allowed s1" using signals_ok_mono [OF assms(3), of s1] by simp
    show ?thesis
    proof (cases "x = Inr (Some st)")
      case False
      then have "s' = s1"
        using assms(5) Some Pinned obs by (auto simp: signal_recorded_incarnation_def split: sum.splits option.splits)
      then show ?thesis using s1 ok1 by simp
    next
      case True
      have run: "world (Suc (rl_now s)) p = Running st"
        using observed_running(1) [OF assms(1) obs [unfolded True]] by simp
      obtain t0 where "t0 < rl_now s" "world t0 p = Running st" using assms(4) [OF Some] by (auto simp: seen_def)
      then have "world (rl_now s) p = Running st"
        using assms(2) run unfolding one_life_def by (meson less_imp_le le_SucI order_refl)
      then have pin: "pinned = st" using assms(1) Pinned by (auto simp: faithful_def pins_def split: PidfdOpen.splits) (metis Occupant.distinct(5) Occupant.inject(2) PidfdOpen.inject)
      have "s' = snd (send_signal host p st sig s1)"
        using assms(5) Some Pinned obs True pin
        by (auto simp: signal_recorded_incarnation_def split: prod.splits)
      moreover have "signals_ok world allowed (snd (send_signal host p st sig s1))"
        using assms(4) [OF Some] s1 by (intro send_ok ok1) (auto intro: seen_mono)
      ultimately show ?thesis using s1 by (simp add: send_steps)
    qed
  next
    case Esrch
    then show ?thesis
      using assms(5) Some signals_ok_mono [OF assms(3), of "tick s"] by (auto simp: signal_recorded_incarnation_def)
  next
    case NoPidfd
    then show ?thesis
      using assms(5) Some signals_ok_mono [OF assms(3), of "tick s"] by (auto simp: signal_recorded_incarnation_def)
  qed
qed

lemma evidence_steps:
  "recorded_process_evidence host p start s = (r, s') \<Longrightarrow> rl_now s' = Suc (rl_now s) \<and> rl_sent s' = rl_sent s"
  using observation_steps [of host p s]
  by (auto simp: recorded_process_evidence_def split: prod.splits sum.splits option.splits if_splits)

lemma wait_loop_steps:
  "wait_gone_loop host p start n s = (r, s') \<Longrightarrow> rl_now s \<le> rl_now s' \<and> rl_sent s' = rl_sent s"
proof (induction n arbitrary: s)
  case 0
  then show ?case using evidence_steps [of host p start s] by (auto split: prod.splits)
next
  case (Suc n)
  obtain e s1 where e: "recorded_process_evidence host p start s = (e, s1)" by fastforce
  with evidence_steps [OF e] Suc.prems Suc.IH [of "tick s1"] show ?case
    by (cases e) (auto dest: Suc_leD)
qed

lemma wait_steps:
  "wait_recorded_incarnation_gone host p start s = (r, s') \<Longrightarrow> rl_now s \<le> rl_now s' \<and> rl_sent s' = rl_sent s"
  by (simp add: wait_recorded_incarnation_gone_def wait_loop_steps)

lemma kill_child_steps:
  assumes "faithful host world" and "one_life world" and "signals_ok world allowed s"
    and "\<And>st. start = Some st \<Longrightarrow> allowed (p, st) \<and> seen world (rl_now s) (p, st)"
    and "kill_recorded_child_unconfirmed host p start s = (r, s')"
  shows "rl_now s \<le> rl_now s' \<and> signals_ok world allowed s'"
proof (cases "start = None")
  case True
  then show ?thesis using assms(3,5) by (simp add: kill_recorded_child_unconfirmed_def)
next
  case False
  obtain a s1 where one: "signal_recorded_incarnation host p start SIGTERM s = (a, s1)" by fastforce
  have step1: "rl_now s \<le> rl_now s1" "signals_ok world allowed s1"
    using signal_steps [OF assms(1-4) one] by simp_all
  show ?thesis
  proof (cases "a = Sent")
    case True
    obtain b s2 where w: "wait_recorded_incarnation_gone host p start s1 = (b, s2)" by fastforce
    have step2: "rl_now s \<le> rl_now s2" "signals_ok world allowed s2"
      using wait_steps [OF w] step1 signals_ok_mono [of world allowed s1 s2] by simp_all
    show ?thesis
    proof (cases b)
      case True
      then show ?thesis using assms(5) False \<open>a = Sent\<close> one w step2 by (simp add: kill_recorded_child_unconfirmed_def)
    next
      case nb: False
      obtain c s3 where two: "signal_recorded_incarnation host p start SIGKILL s2 = (c, s3)" by fastforce
      have known: "\<And>st. start = Some st \<Longrightarrow> allowed (p, st) \<and> seen world (rl_now s2) (p, st)"
        using assms(4) seen_mono [OF _ step2(1)] by blast
      have step3: "rl_now s \<le> rl_now s3" "signals_ok world allowed s3"
        using signal_steps [OF assms(1,2) step2(2) known two] step2(1) by simp_all
      obtain d s4 where w4: "wait_recorded_incarnation_gone host p start s3 = (d, s4)" by fastforce
      have "rl_now s \<le> rl_now s4" "signals_ok world allowed s4"
        using wait_steps [OF w4] step3 signals_ok_mono [of world allowed s3 s4] by simp_all
      moreover have "s' = (if c = Sent then s4 else s3)"
        using assms(5) False \<open>a = Sent\<close> one w nb two w4
        by (cases c) (simp_all add: kill_recorded_child_unconfirmed_def)
      ultimately show ?thesis using step3 by simp
    qed
  next
    case na: False
    have "s' = s1" using assms(5) False one na by (cases a) (simp_all add: kill_recorded_child_unconfirmed_def)
    then show ?thesis using step1 by simp
  qed
qed

section \<open>The sweep\<close>

lemma retain_steps:
  assumes "faithful host world" and "one_life world"
    and "retain_tree host tree s = (kept, whole, s')" and "\<forall>x \<in> set tree. seen world (rl_now s) x"
  shows "rl_now s \<le> rl_now s' \<and> rl_sent s' = rl_sent s \<and> set kept \<subseteq> set tree
    \<and> (\<forall>x \<in> set tree. x \<in> set kept \<or> gone_for_good world (rl_now s') x)"
  using assms(3,4)
proof (induction tree arbitrary: s kept whole)
  case (Cons x tree)
  obtain p start where x: "x = (p, start)" by fastforce
  obtain r s1 where obs: "proc_starttime_observation host p s = (r, s1)" by fastforce
  obtain kept' whole' where rest: "retain_tree host tree s1 = (kept', whole', s')"
    using Cons.prems(1) x obs by (auto split: prod.splits sum.splits option.splits)
  have steps: "rl_now s1 = Suc (rl_now s)" "rl_sent s1 = rl_sent s" using observation_steps [OF obs] by simp_all
  have "\<forall>y \<in> set tree. seen world (rl_now s1) y"
    using Cons.prems(2) seen_mono [of world "rl_now s" _ "rl_now s1"] steps(1) by auto
  note IH = Cons.IH [OF rest this]
  show ?case
  proof (cases "r = Inl () \<or> r = Inr (Some start)")
    case True
    then have "kept = x # kept'" using Cons.prems(1) x obs rest by auto
    then show ?thesis using IH steps by auto
  next
    case False
    then obtain y where r: "r = Inr y" "y \<noteq> Some start" by (cases r) auto
    then have "kept = kept'" using Cons.prems(1) x obs rest by (auto split: option.splits if_splits)
    moreover have "gone_for_good world (rl_now s1) x"
      using observed_other [OF assms(1,2) obs [unfolded r(1)] r(2)] Cons.prems(2) x by simp
    ultimately show ?thesis using IH steps gone_mono [of world "rl_now s1" x "rl_now s'"] by auto
  qed
qed simp

lemma observed_recorded:
  assumes "faithful host world" and "proc_starttime_observation host p s = (Inr (Some start), s')"
  shows "recorded_in world (rl_now s) (rl_now s') (p, start)"
  using observed_running(1) [OF assms] observation_steps [OF assms(2)] by (auto simp: recorded_in_def)

lemma newcomers_steps:
  assumes "faithful host world" and "add_newcomers host pids tree s = (r, s')"
  shows "rl_now s \<le> rl_now s' \<and> rl_now s' \<le> rl_now s + length pids \<and> rl_sent s' = rl_sent s
    \<and> (\<forall>tree'. r = Some tree' \<longrightarrow> set tree \<subseteq> set tree'
         \<and> (\<forall>x \<in> set tree'. x \<in> set tree
              \<or> fst x \<in> set pids \<and> recorded_in world (rl_now s) (rl_now s') x))"
  using assms(2)
proof (induction pids arbitrary: tree s)
  case (Cons p pids)
  show ?case
  proof (cases "list_ex (\<lambda>(q, start). q = p) tree")
    case True
    with Cons.prems have "add_newcomers host pids tree s = (r, s')" by simp
    from Cons.IH [OF this] show ?thesis by auto
  next
    case False
    obtain x s1 where obs: "proc_starttime_observation host p s = (x, s1)" by fastforce
    have steps: "rl_now s1 = Suc (rl_now s)" "rl_sent s1 = rl_sent s" using observation_steps [OF obs] by simp_all
    have wide: "recorded_in world (rl_now s) (rl_now s') y"
      if "recorded_in world (rl_now s1) (rl_now s') y" for y
      using recorded_mono [OF that] steps(1) by simp
    consider "x = Inl ()" | "x = Inr None" | start where "x = Inr (Some start)"
      by (cases x) auto
    then show ?thesis
    proof cases
      case 1
      then show ?thesis using Cons.prems False obs steps by auto
    next
      case 2
      then have "add_newcomers host pids tree s1 = (r, s')" using Cons.prems False obs by simp
      from Cons.IH [OF this] wide steps show ?thesis by simp fastforce
    next
      case 3
      then have "add_newcomers host pids (tree @ [(p, start)]) s1 = (r, s')" using Cons.prems False obs by simp
      note IH = Cons.IH [OF this]
      have "recorded_in world (rl_now s) (rl_now s') (p, start)"
        using observed_recorded [OF assms(1) obs [unfolded 3]] IH recorded_mono by blast
      with IH wide steps show ?thesis by simp fastforce
    qed
  qed
qed auto

lemma signal_tree_steps:
  assumes "faithful host world" and "one_life world" and "signals_ok world allowed s"
    and "\<forall>x \<in> set tree. allowed x \<and> seen world (rl_now s) x"
  shows "rl_now s \<le> rl_now (signal_tree host sig tree s) \<and> signals_ok world allowed (signal_tree host sig tree s)"
  using assms(3,4)
proof (induction tree arbitrary: s)
  case (Cons x tree)
  obtain p start where x: "x = (p, start)" by fastforce
  obtain r s1 where one: "signal_recorded_incarnation host p (Some start) sig s = (r, s1)" by fastforce
  have step: "rl_now s \<le> rl_now s1" "signals_ok world allowed s1"
    using signal_steps [OF assms(1,2) Cons.prems(1) _ one] Cons.prems(2) x by simp_all
  have "\<forall>y \<in> set tree. allowed y \<and> seen world (rl_now s1) y"
    using Cons.prems(2) seen_mono [OF _ step(1)] by auto
  with Cons.IH [OF step(2)] show ?case using x one step by simp
qed simp

lemma descendant_steps:
  "descendant_loop host root n pid s = (r, s') \<Longrightarrow> rl_now s \<le> rl_now s' \<and> rl_sent s' = rl_sent s"
proof (induction n arbitrary: pid s)
  case (Suc n)
  show ?case
  proof (cases "pid = root")
    case False
    show ?thesis
      using Suc.prems False Suc.IH [of _ "tick s"]
      by (auto split: StatRead.splits option.splits if_splits dest: Suc_leD)
  qed (use Suc.prems in simp)
qed simp

lemma known_steps:
  "process_is_known_owned_process host pid root s = (r, s') \<Longrightarrow> rl_now s \<le> rl_now s' \<and> rl_sent s' = rl_sent s"
  using observation_steps [of host pid s] descendant_steps [of host]
  by (fastforce simp: process_is_known_owned_process_def process_is_descendant_of_def Let_def
      split: option.splits prod.splits if_splits)

lemma unread_steps: "unread host pid root s = (v, s') \<Longrightarrow> rl_now s \<le> rl_now s' \<and> rl_sent s' = rl_sent s \<and> v \<noteq> Tagged"
  using known_steps [of host pid root s] by (auto simp: unread_def split: prod.splits if_splits)

text \<open>A process is named only when its environment, read at that moment, carries the tag.\<close>

definition tagged_at :: "Host \<Rightarrow> utext \<Rightarrow> nat \<Rightarrow> nat \<Rightarrow> bool" where
  "tagged_at host needle t pid = (\<exists>bytes. ho_environ host t pid = Content bytes \<and> needle \<in> set (pieces 0 [] bytes))"

lemma scan_pid_steps:
  assumes "scan_pid host needle root pid s = (v, s')"
  shows "rl_now s < rl_now s' \<and> rl_sent s' = rl_sent s
    \<and> (v = Tagged \<longrightarrow> (\<exists>t. rl_now s \<le> t \<and> t < rl_now s' \<and> tagged_at host needle t pid))"
  using assms unread_steps [of host pid root "tick s" v s'] unread_steps [of host pid root "tick (tick s)" v s']
  by (auto simp: scan_pid_def tagged_at_def split: StatRead.splits option.splits if_splits
      intro!: exI [of _ "Suc (rl_now s)"])

lemma scan_entries_steps:
  assumes "scan_entries host needle root es s = ((pids, complete), s')"
  shows "rl_now s \<le> rl_now s' \<and> rl_sent s' = rl_sent s
    \<and> (\<forall>p \<in> set pids. \<exists>t. rl_now s \<le> t \<and> t < rl_now s' \<and> tagged_at host needle t p)"
  using assms
proof (induction es arbitrary: s pids complete)
  case (Cons e es)
  have skip: ?case if "scan_entries host needle root es s = ((pids, c), s')" for c
    using Cons.IH [OF that] .
  show ?case
  proof (cases "\<exists>name p. e = Named name \<and> parse_i32 name = Some p \<and> 0 \<le> p")
    case False
    then obtain c where "scan_entries host needle root es s = ((pids, c), s')"
      using Cons.prems by (auto simp: Let_def split: ProcEntry.splits option.splits prod.splits if_splits)
    then show ?thesis by (rule skip)
  next
    case True
    then obtain name p where e: "e = Named name" "parse_i32 name = Some p" "0 \<le> p" by blast
    obtain v s1 where v: "scan_pid host needle root (nat p) s = (v, s1)" by fastforce
    obtain ps c where rest: "scan_entries host needle root es s1 = ((ps, c), s')" "pids = (if v = Tagged then nat p # ps else ps)"
      using Cons.prems e v by (auto simp: Let_def split: prod.splits)
    note one = scan_pid_steps [OF v] and IH = Cons.IH [OF rest(1)]
    have wide: "\<exists>t. rl_now s \<le> t \<and> t < rl_now s' \<and> tagged_at host needle t q"
      if "\<exists>t. rl_now s1 \<le> t \<and> t < rl_now s' \<and> tagged_at host needle t q" for q
      using that one by (meson le_trans less_imp_le)
    have first: "\<exists>t. rl_now s \<le> t \<and> t < rl_now s' \<and> tagged_at host needle t (nat p)" if "v = Tagged"
      using that one IH by (meson less_le_trans)
    show ?thesis using one IH wide first rest(2) by auto
  qed
qed simp

lemma scan_names_tagged:
  assumes "scan_tagged_pids host env own root s = ((pids, complete), s')"
  shows "rl_now s < rl_now s' \<and> rl_sent s' = rl_sent s
    \<and> (\<forall>p \<in> set pids. \<exists>t. rl_now s \<le> t \<and> t < rl_now s' \<and> tagged_at host (ascii (env @ ''='' @ own)) t p)"
proof (cases "ho_entries host (rl_now s)")
  case (Some es)
  have "scan_entries host (ascii (env @ ''='' @ own)) root es (tick s) = ((pids, complete), s')"
    using assms Some by (simp add: scan_tagged_pids_def)
  from scan_entries_steps [OF this] show ?thesis by (auto dest: Suc_leD)
qed (use assms in \<open>auto simp: scan_tagged_pids_def\<close>)

lemma scan_steps:
  "scan_tagged_pids host env own root s = ((pids, complete), s') \<Longrightarrow>
     rl_now s < rl_now s' \<and> rl_sent s' = rl_sent s"
  using scan_names_tagged by blast

lemma scan_owned:
  assumes "owned world (scan_tagged_pids host env own root) ours"
    and "scan_tagged_pids host env own root s = ((pids, complete), s')"
    and "p \<in> set pids" and "recorded_in world (rl_now s') (rl_now s' + length pids) (p, start)"
  shows "ours (p, start)"
  using assms(1) [unfolded owned_def, THEN spec, of s, THEN spec, of pids, THEN spec, of complete, THEN spec, of s',
      THEN spec, of "(p, start)"] assms(2-4) by simp

lemma sweep_steps:
  assumes "faithful host world" and "one_life world"
    and "owned world (scan_tagged_pids host env own root) allowed"
    and "signals_ok world allowed s" and "\<forall>x \<in> set tree. allowed x \<and> seen world (rl_now s) x"
    and "sweep_loop host env own root n tree s = (r, s')"
  shows "rl_now s \<le> rl_now s' \<and> signals_ok world allowed s'
    \<and> (r \<longrightarrow> (\<forall>x \<in> set tree. gone_for_good world (rl_now s') x))"
  using assms(4-6)
proof (induction n arbitrary: tree s)
  case 0
  obtain kept whole where ret: "retain_tree host tree s = (kept, whole, s')" and r: "r = (whole \<and> kept = [])"
    using 0(3) by (auto split: prod.splits)
  have "\<forall>x \<in> set tree. seen world (rl_now s) x" using 0(2) by blast
  with retain_steps [OF assms(1,2) ret] r signals_ok_mono [OF 0(1), of s'] show ?case by auto
next
  case (Suc n)
  obtain kept whole s1 where ret: "retain_tree host tree s = (kept, whole, s1)"
    by (metis prod_cases3)
  have known: "\<forall>x \<in> set tree. seen world (rl_now s) x" using Suc.prems(2) by blast
  note kept = retain_steps [OF assms(1,2) ret known]
  have ok1: "signals_ok world allowed s1" using kept signals_ok_mono [OF Suc.prems(1), of s1] by simp
  show ?case
  proof (cases whole)
    case False
    then show ?thesis using Suc.prems(3) ret kept ok1 by simp
  next
    case True
    obtain pids complete s2 where scan: "scan_tagged_pids host env own root s1 = ((pids, complete), s2)"
      by (metis prod_cases3 prod.collapse)
    note pids = scan_steps [OF scan]
    have ok2: "signals_ok world allowed s2" using pids signals_ok_mono [OF ok1, of s2] by simp
    show ?thesis
    proof (cases complete)
      case False
      then show ?thesis using Suc.prems(3) ret \<open>whole\<close> scan kept pids ok2 by simp
    next
      case True
      obtain t s3 where new: "add_newcomers host pids kept s2 = (t, s3)" by fastforce
      have seen_kept: "\<forall>x \<in> set kept. seen world (rl_now s2) x"
        using known kept pids seen_mono [of world "rl_now s" _ "rl_now s2"] by auto
      note fresh = newcomers_steps [OF assms(1) new]
      have ok3: "signals_ok world allowed s3" using fresh signals_ok_mono [OF ok2, of s3] by simp
      have now: "rl_now s \<le> rl_now s3" using kept pids fresh by simp
      have dropped: "x \<in> set kept \<or> gone_for_good world (rl_now s3) x" if "x \<in> set tree" for x
      proof -
        have "rl_now s1 \<le> rl_now s3" using pids fresh by simp
        then show ?thesis using that kept gone_mono by blast
      qed
      show ?thesis
      proof (cases t)
        case None
        then show ?thesis using Suc.prems(3) ret \<open>whole\<close> scan \<open>complete\<close> new now ok3 by simp
      next
        case (Some tree')
        show ?thesis
        proof (cases "tree' = []")
          case True
          then have "set kept = {}" using fresh Some by auto
          then show ?thesis using Suc.prems(3) ret \<open>whole\<close> scan \<open>complete\<close> new Some True now ok3 dropped by auto
        next
          case False
          have mem: "\<forall>x \<in> set tree'. allowed x \<and> seen world (rl_now s3) x"
          proof
            fix x assume "x \<in> set tree'"
            with fresh Some consider "x \<in> set kept"
              | "fst x \<in> set pids" "recorded_in world (rl_now s2) (rl_now s3) x" by auto
            then show "allowed x \<and> seen world (rl_now s3) x"
            proof cases
              case 1
              then show ?thesis using seen_kept kept Suc.prems(2) fresh seen_mono [of world "rl_now s2" x "rl_now s3"] by auto
            next
              case 2
              then have "recorded_in world (rl_now s2) (rl_now s2 + length pids) x" using fresh recorded_mono by blast
              then show ?thesis using scan_owned [OF assms(3) scan, of "fst x" "snd x"] 2 recorded_seen by auto
            qed
          qed
          let ?sig = "if 23 - n < 20 then SIGTERM else SIGKILL"
          let ?s4 = "signal_tree host ?sig tree' s3"
          have s4: "rl_now s3 \<le> rl_now ?s4" "signals_ok world allowed ?s4"
            using signal_tree_steps [OF assms(1,2) ok3 mem] by simp_all
          have ok4: "signals_ok world allowed (tick ?s4)" using signals_ok_mono [OF s4(2), of "tick ?s4"] by simp
          have mem4: "\<forall>x \<in> set tree'. allowed x \<and> seen world (rl_now (tick ?s4)) x"
            using mem s4(1) seen_mono [of world "rl_now s3" _ "rl_now (tick ?s4)"] by auto
          have run: "sweep_loop host env own root n tree' (tick ?s4) = (r, s')"
            using Suc.prems(3) ret \<open>whole\<close> scan \<open>complete\<close> new Some False by simp
          note IH = Suc.IH [OF ok4 mem4 run]
          have "rl_now s3 \<le> rl_now s'" using IH s4(1) by simp
          moreover have "gone_for_good world (rl_now s') x" if "r" "x \<in> set tree" for x
            using dropped [OF that(2)] fresh Some IH that(1) gone_mono [OF _ \<open>rl_now s3 \<le> rl_now s'\<close>] by blast
          ultimately show ?thesis using now IH by auto
        qed
      qed
    qed
  qed
qed

section \<open>The capture\<close>

definition captured :: "(nat \<Rightarrow> nat \<Rightarrow> Occupant) \<Rightarrow> nat list \<Rightarrow> (nat \<times> nat) list \<Rightarrow> ReapLog \<Rightarrow> ReapLog \<Rightarrow> bool" where
  "captured world pids tree s s' =
     (rl_now s \<le> rl_now s' \<and> rl_now s' \<le> rl_now s + length pids \<and> rl_sent s' = rl_sent s
      \<and> (\<forall>x \<in> set tree. fst x \<in> set pids \<and> recorded_in world (rl_now s) (rl_now s') x))"

lemma captured_nil: "captured world [] [] s s"
  by (simp add: captured_def)

lemma captured_cons:
  assumes "faithful host world" and "proc_starttime_observation host p s = (x, s1)" and "captured world pids tree s1 s'"
  shows "captured world (p # pids) tree s s'"
    and "x = Inr (Some start) \<Longrightarrow> captured world (p # pids) ((p, start) # tree) s s'"
proof -
  have steps: "rl_now s1 = Suc (rl_now s)" "rl_sent s1 = rl_sent s" using observation_steps [OF assms(2)] by simp_all
  with assms(3) show *: "captured world (p # pids) tree s s'"
    unfolding captured_def by (auto intro: recorded_mono)
  assume x: "x = Inr (Some start)"
  have "recorded_in world (rl_now s) (rl_now s') (p, start)"
    using observed_recorded [OF assms(1) assms(2) [unfolded x]] assms(3) by (auto simp: captured_def intro: recorded_mono)
  with * show "captured world (p # pids) ((p, start) # tree) s s'" by (simp add: captured_def)
qed

lemma capture_pids_captured:
  assumes "faithful host world" and "capture_pids host pids s = (Some tree, s')"
  shows "captured world pids tree s s'"
  using assms(2)
proof (induction pids arbitrary: tree s)
  case Nil
  then show ?case by (simp add: captured_nil)
next
  case (Cons p pids)
  obtain x s1 where obs: "proc_starttime_observation host p s = (x, s1)" by fastforce
  note cons = captured_cons [OF assms(1) obs]
  show ?case
  proof (cases x)
    case (Inr y)
    show ?thesis
    proof (cases y)
      case None
      then show ?thesis using Cons obs Inr cons(1) by simp
    next
      case (Some start)
      then obtain tree' where "capture_pids host pids s1 = (Some tree', s')" "tree = (p, start) # tree'"
        using Cons.prems obs Inr by (auto split: prod.splits option.splits)
      then show ?thesis using Cons.IH cons(2) Inr Some by simp
    qed
  qed (use Cons.prems obs in simp)
qed

lemma record_pids_captured:
  assumes "faithful host world" and "record_pids host pids s = (tree, whole, s')"
  shows "captured world pids tree s s'"
  using assms(2)
proof (induction pids arbitrary: tree whole s)
  case Nil
  then show ?case by (simp add: captured_nil)
next
  case (Cons p pids)
  obtain x s1 where obs: "proc_starttime_observation host p s = (x, s1)" by fastforce
  obtain tree' whole' where rest: "record_pids host pids s1 = (tree', whole', s')"
    using Cons.prems obs by (auto split: prod.splits sum.splits option.splits)
  note cons = captured_cons [OF assms(1) obs Cons.IH [OF rest]]
  show ?case using Cons.prems obs rest cons by (auto split: sum.splits option.splits)
qed

lemma with_child_member:
  "x \<in> set (with_child pid child tree) \<Longrightarrow> x \<in> set tree \<or> (\<exists>start. child = Some start \<and> x = (pid, start))"
  by (auto simp: with_child_def split: if_splits option.splits)

lemma with_child_pid:
  "child = Some start \<Longrightarrow> \<exists>start'. (pid, start') \<in> set (with_child pid child tree) \<and> ((pid, start') \<in> set tree \<or> start' = start)"
  by (auto simp: with_child_def list_ex_iff)

lemma capture_pids_steps:
  "capture_pids host pids s = (r, s') \<Longrightarrow> rl_now s \<le> rl_now s' \<and> rl_sent s' = rl_sent s"
proof (induction pids arbitrary: r s s')
  case (Cons p pids)
  obtain x s1 where obs: "proc_starttime_observation host p s = (x, s1)" by fastforce
  obtain r' s2 where rest: "capture_pids host pids s1 = (r', s2)" by fastforce
  show ?case
    using Cons.prems obs rest observation_steps [OF obs] Cons.IH [OF rest]
    by (auto split: sum.splits option.splits)
qed simp

lemma capture_sends_nothing:
  "capture_tree host pid env own s = (r, s') \<Longrightarrow> rl_now s \<le> rl_now s' \<and> rl_sent s' = rl_sent s"
proof -
  assume cap: "capture_tree host pid env own s = (r, s')"
  obtain x s1 where obs: "proc_starttime_observation host pid s = (x, s1)" by fastforce
  obtain pids complete s2 where scan: "scan_tagged_pids host env own (Some pid) s1 = ((pids, complete), s2)"
    by (metis prod.collapse)
  obtain y s3 where rest: "capture_pids host pids s2 = (y, s3)" by fastforce
  show ?thesis
    using cap obs scan rest observation_steps [OF obs] scan_steps [OF scan] capture_pids_steps [OF rest]
    by (auto simp: capture_tree_def split: sum.splits option.splits if_splits)
qed

lemma capture_steps:
  assumes "faithful host world" and "owned world (scan_tagged_pids host env own (Some pid)) ours"
    and "\<And>start. world (rl_now s) pid = Running start \<Longrightarrow> ours (pid, start)"
    and "capture_tree host pid env own s = (Some (child, tree), s')"
  shows "(\<forall>x \<in> set tree. ours x \<and> recorded_in world (rl_now s) (rl_now s') x)
    \<and> (\<forall>start. child = Some start \<longrightarrow> ours (pid, start) \<and> recorded_in world (rl_now s) (rl_now s') (pid, start))
    \<and> (\<forall>start. world (rl_now s) pid = Running start \<longrightarrow> child = Some start)
    \<and> (child \<noteq> None \<longrightarrow> (\<exists>start. (pid, start) \<in> set tree))"
proof -
  obtain c s1 where obs: "proc_starttime_observation host pid s = (Inr c, s1)"
    using assms(4) by (auto simp: capture_tree_def split: prod.splits sum.splits)
  obtain pids complete s2 where scan: "scan_tagged_pids host env own (Some pid) s1 = ((pids, complete), s2)"
    by (metis prod.collapse)
  from assms(4) obs scan obtain tree0 where cap: "capture_pids host pids s2 = (Some tree0, s')"
    and tree: "child = c" "tree = with_child pid c tree0"
    by (auto simp: capture_tree_def split: if_splits prod.splits option.splits)
  note one = observation_steps [OF obs] and two = scan_steps [OF scan]
    and three = capture_pids_captured [OF assms(1) cap, unfolded captured_def]
  have now: "rl_now s \<le> rl_now s'" "rl_now s \<le> rl_now s2" "rl_now s1 \<le> rl_now s'" using one two three by simp_all
  have first: "ours (pid, start) \<and> recorded_in world (rl_now s) (rl_now s') (pid, start)" if "c = Some start" for start
    using observed_recorded [OF assms(1) obs [unfolded that]] recorded_mono now
      observed_running(1) [OF assms(1) obs [unfolded that]] assms(3) by blast
  have members: "ours x \<and> recorded_in world (rl_now s) (rl_now s') x" if x: "x \<in> set tree" for x
    using with_child_member [OF x [unfolded tree(2)]]
  proof
    assume "x \<in> set tree0"
    with three have m: "fst x \<in> set pids" "recorded_in world (rl_now s2) (rl_now s') x" by simp_all
    have "recorded_in world (rl_now s2) (rl_now s2 + length pids) x" using m(2) three recorded_mono by blast
    with scan_owned [OF assms(2) scan, of "fst x" "snd x"] m now show ?thesis by (auto intro: recorded_mono)
  qed (use first in auto)
  have "\<forall>start. world (rl_now s) pid = Running start \<longrightarrow> c = Some start" using observation_truth [OF assms(1) obs] by simp
  then show ?thesis using first members tree with_child_pid [of c _ pid tree0] by auto
qed

section \<open>A confirmed kill\<close>

text \<open>The sweep after the child's kill, with its verdict.\<close>

lemma kill_then_sweep:
  assumes "faithful host world" and "one_life world" and "owned world (scan_tagged_pids host env own (Some pid)) ours"
    and "signals_ok world ours s" and "\<forall>x \<in> set tree. ours x \<and> seen world (rl_now s) x"
    and "\<And>start. child = Some start \<Longrightarrow> ours (pid, start) \<and> seen world (rl_now s) (pid, start)"
    and "(case kill_recorded_child_unconfirmed host pid child s of
            (True, s2) \<Rightarrow> (False, s2)
          | (False, s2) \<Rightarrow> sweep_captured_tree_until_dead host tree env own (Some pid) s2) = (r, s')"
  shows "rl_now s \<le> rl_now s' \<and> signals_ok world ours s' \<and> (r \<longrightarrow> (\<forall>x \<in> set tree. gone_for_good world (rl_now s') x))"
proof -
  obtain unconfirmed s2 where kill: "kill_recorded_child_unconfirmed host pid child s = (unconfirmed, s2)" by fastforce
  note killed = kill_child_steps [OF assms(1,2,4,6) kill]
  show ?thesis
  proof (cases unconfirmed)
    case True
    then show ?thesis using assms(7) kill killed by simp
  next
    case False
    then have sweep: "sweep_loop host env own (Some pid) 24 tree s2 = (r, s')"
      using assms(7) kill by (simp add: sweep_captured_tree_until_dead_def)
    have "\<forall>x \<in> set tree. ours x \<and> seen world (rl_now s2) x"
      using assms(5) killed seen_mono by blast
    from sweep_steps [OF assms(1,2,3) conjunct2 [OF killed] this sweep] show ?thesis using killed by auto
  qed
qed

lemma kill_and_confirm_steps:
  assumes "faithful host world" and "one_life world" and "owned world (scan_tagged_pids host env own (Some pid)) ours"
    and "\<And>start. world (rl_now s) pid = Running start \<Longrightarrow> ours (pid, start)"
    and "signals_ok world ours s" and "kill_and_confirm_tree_dead host pid env own s = (r, s')"
  shows "signals_ok world ours s'
    \<and> (r \<longrightarrow> (\<exists>child tree s1. capture_tree host pid env own s = (Some (child, tree), s1)
         \<and> (\<forall>x \<in> set tree. gone_for_good world (rl_now s') x)
         \<and> (\<forall>start. world (rl_now s) pid = Running start \<longrightarrow> gone_for_good world (rl_now s') (pid, start))))"
proof -
  obtain c s1 where cap: "capture_tree host pid env own s = (c, s1)" by fastforce
  note quiet = capture_sends_nothing [OF cap]
  have ok1: "signals_ok world ours s1" using quiet signals_ok_mono [OF assms(5), of s1] by simp
  show ?thesis
  proof (cases c)
    case None
    then show ?thesis using assms(6) cap ok1 by (simp add: kill_and_confirm_tree_dead_def)
  next
    case (Some ct)
    obtain child tree where ct: "ct = (child, tree)" by fastforce
    note facts = capture_steps [OF assms(1,3,4) cap [unfolded Some ct]]
    have run: "(case kill_recorded_child_unconfirmed host pid child s1 of
            (True, s2) \<Rightarrow> (False, s2)
          | (False, s2) \<Rightarrow> sweep_captured_tree_until_dead host tree env own (Some pid) s2) = (r, s')"
      using assms(6) cap Some ct by (simp add: kill_and_confirm_tree_dead_def)
    have mem: "\<forall>x \<in> set tree. ours x \<and> seen world (rl_now s1) x" using facts recorded_seen by blast
    have chd: "ours (pid, start) \<and> seen world (rl_now s1) (pid, start)" if "child = Some start" for start
      using facts recorded_seen that by blast
    note swept = kill_then_sweep [OF assms(1-3) ok1 mem chd run]
    have "gone_for_good world (rl_now s') (pid, start)" if "r" and start: "world (rl_now s) pid = Running start" for start
    proof -
      obtain st where st: "(pid, st) \<in> set tree" using facts start by auto
      have gone: "gone_for_good world (rl_now s') (pid, st)" using swept st \<open>r\<close> by blast
      show ?thesis
      proof (cases "st = start")
        case False
        obtain t where t: "rl_now s \<le> t" "t < rl_now s1" "world t pid = Running st"
          using facts st by (auto simp: recorded_in_def)
        then have "rl_now s < t" using start False by (cases "rl_now s = t") auto
        then have "seen world t (pid, start)" using start by (auto simp: seen_def)
        then have "gone_for_good world t (pid, start)" using missed_once [OF assms(2)] t(3) False by simp
        then show ?thesis using t(2) swept by (auto intro: gone_mono)
      qed (use gone in simp)
    qed
    then show ?thesis using swept cap Some ct by auto
  qed
qed

abbreviation at_time :: "nat \<Rightarrow> ReapLog" where
  "at_time t \<equiv> \<lparr>rl_now = t, rl_sent = []\<rparr>"

lemma no_signals_ok: "signals_ok world ours (at_time t)"
  by (simp add: signals_ok_def)

text \<open>C4: a confirmed kill is true. When killing an expired holder's tree is reported as confirmed, the
  child that held the pid and every process captured with it are dead at that moment and never run
  again. What the kernel shows is taken as it documents it: a stat line describes the occupant of the
  pid, and an incarnation (a pid with a start time) runs for one stretch of time.\<close>

theorem confirmed_tree_is_dead:
  assumes "faithful host world" and "one_life world"
    and "kill_and_confirm_tree_dead host pid env own (at_time t0) = (True, s')"
  shows "\<exists>child tree s1. capture_tree host pid env own (at_time t0) = (Some (child, tree), s1)
    \<and> (\<forall>(p, start) \<in> set tree. \<forall>t \<ge> rl_now s'. world t p \<noteq> Running start)
    \<and> (\<forall>start. world t0 pid = Running start \<longrightarrow> (\<forall>t \<ge> rl_now s'. world t pid \<noteq> Running start))"
proof -
  have "owned world (scan_tagged_pids host env own (Some pid)) (\<lambda>x. True)" by (simp add: owned_def)
  from kill_and_confirm_steps [OF assms(1,2) this TrueI no_signals_ok assms(3)]
  show ?thesis by (fastforce simp: gone_for_good_def)
qed

text \<open>C6: the reaper never signals a stranger. Take the processes that belong to the sidecar: the child,
  and what a tagged scan names, if it still holds its pid when its start time is read right after. Every
  signal that a kill delivers reaches one of them. A pid that changes hands between the record and the
  signal is not hit, because the signal goes through a descriptor pinned to the recorded incarnation.\<close>

theorem signals_reach_only_owned:
  assumes "faithful host world" and "one_life world" and "owned world (scan_tagged_pids host env own (Some pid)) ours"
    and "\<And>start. world t0 pid = Running start \<Longrightarrow> ours (pid, start)"
    and "kill_and_confirm_tree_dead host pid env own (at_time t0) = (confirmed, s')"
  shows "\<forall>(p, start, sig) \<in> set (rl_sent s'). ours (p, start)"
  using kill_and_confirm_steps [OF assms(1-3) _ no_signals_ok assms(5)] assms(4)
  by (auto simp: signals_ok_def)

section \<open>A recorded identity\<close>

lemma record_facts:
  assumes "faithful host world" and "owned world (scan_tagged_pids host env own (Some pid)) ours"
    and "\<And>start. world (rl_now s) pid = Running start \<Longrightarrow> ours (pid, start)"
    and "record_condemned_runtime_identity host pid env own s = (rec, s')"
  shows "cr_pid rec = pid \<and> cr_ownership_id rec = own
    \<and> (\<forall>x \<in> set (cr_tree rec). ours x \<and> seen world (rl_now s') x)
    \<and> (\<forall>start. cr_start_time rec = Some start \<longrightarrow> ours (pid, start) \<and> seen world (rl_now s') (pid, start))"
proof -
  obtain x s1 where obs: "proc_starttime_observation host pid s = (x, s1)" by fastforce
  obtain pids complete s2 where scan: "scan_tagged_pids host env own (Some pid) s1 = ((pids, complete), s2)"
    by (metis prod.collapse)
  obtain tree whole where recd: "record_pids host pids s2 = (tree, whole, s')"
    and rec: "rec = \<lparr>cr_pid = pid, cr_start_time = (case x of Inl _ \<Rightarrow> None | Inr start \<Rightarrow> start),
       cr_tree = with_child pid (case x of Inl _ \<Rightarrow> None | Inr start \<Rightarrow> start) tree,
       cr_ownership_id = own, cr_capture_complete = (\<not> isl x \<and> complete \<and> whole)\<rparr>"
    using assms(4) obs scan by (auto simp: record_condemned_runtime_identity_def Let_def split: prod.splits)
  note one = observation_steps [OF obs] and two = scan_steps [OF scan]
    and three = record_pids_captured [OF assms(1) recd, unfolded captured_def]
  have now: "rl_now s1 \<le> rl_now s'" using two three by simp
  have first: "ours (pid, start) \<and> seen world (rl_now s') (pid, start)" if "x = Inr (Some start)" for start
    using observed_running [OF assms(1) obs [unfolded that]] assms(3) seen_mono [OF _ now] by blast
  have "ours y \<and> seen world (rl_now s') y" if "y \<in> set tree" for y
  proof -
    have m: "fst y \<in> set pids" "recorded_in world (rl_now s2) (rl_now s') y" using three that by simp_all
    have "recorded_in world (rl_now s2) (rl_now s2 + length pids) y" using m(2) three recorded_mono by blast
    with scan_owned [OF assms(2) scan, of "fst y" "snd y"] m show ?thesis by (auto intro: recorded_seen)
  qed
  with first rec show ?thesis
    by (auto dest!: with_child_member split: sum.splits)
qed

text \<open>An identity recorded at kill time can be finished later. When the kill of a recorded identity is
  reported as confirmed, however much later it runs, every recorded process is dead for good, and its
  signals too reach only the sidecar's own processes.\<close>

theorem recorded_kill_is_safe:
  assumes "faithful host world" and "one_life world" and "owned world (scan_tagged_pids host env own (Some pid)) ours"
    and "\<And>start. world t0 pid = Running start \<Longrightarrow> ours (pid, start)"
    and "record_condemned_runtime_identity host pid env own (at_time t0) = (recorded, s1)"
    and "rl_now s1 \<le> t1"
    and "kill_and_confirm_recorded_tree_dead host recorded env (at_time t1) = (confirmed, s')"
  shows "(\<forall>(p, start, sig) \<in> set (rl_sent s'). ours (p, start))
    \<and> (confirmed \<longrightarrow> (\<forall>(p, start) \<in> set (cr_tree recorded). \<forall>t \<ge> rl_now s'. world t p \<noteq> Running start))"
proof -
  note facts = record_facts [OF assms(1,3) _ assms(5)]
  have mem: "\<forall>x \<in> set (cr_tree recorded). ours x \<and> seen world t1 x"
    and child: "\<forall>start. cr_start_time recorded = Some start \<longrightarrow> ours (pid, start) \<and> seen world t1 (pid, start)"
    and names: "cr_pid recorded = pid" "cr_ownership_id recorded = own"
    using facts assms(4) seen_mono [OF _ assms(6)] by auto
  have goal: "signals_ok world ours s' \<and> (confirmed \<longrightarrow> (\<forall>x \<in> set (cr_tree recorded). gone_for_good world (rl_now s') x))"
  proof (cases "cr_capture_complete recorded")
    case False
    then show ?thesis using assms(7) no_signals_ok [of world ours t1] by (simp add: kill_and_confirm_recorded_tree_dead_def)
  next
    case whole: True
    have swept: ?thesis
      if "sweep_captured_tree_until_dead host (cr_tree recorded) env own (Some pid) s0 = (confirmed, s')"
        and "signals_ok world ours s0" and "t1 \<le> rl_now s0" for s0
      using sweep_steps [OF assms(1-3) that(2) _ that(1) [unfolded sweep_captured_tree_until_dead_def]]
        mem seen_mono [OF _ that(3)] by auto
    show ?thesis
    proof (cases "cr_start_time recorded")
      case None
      then show ?thesis
        using assms(7) whole swept [of "at_time t1"] no_signals_ok names
        by (simp add: kill_and_confirm_recorded_tree_dead_def Let_def)
    next
      case (Some start)
      obtain e s2 where ev: "recorded_process_evidence host pid (Some start) (at_time t1) = (e, s2)" by fastforce
      have ok2: "signals_ok world ours s2" "t1 \<le> rl_now s2"
        using evidence_steps [OF ev] signals_ok_mono [OF no_signals_ok [of world ours t1], of s2] by simp_all
      show ?thesis
      proof (cases e)
        case SameIncarnation
        have run: "(case kill_recorded_child_unconfirmed host pid (Some start) s2 of
            (True, s3) \<Rightarrow> (False, s3)
          | (False, s3) \<Rightarrow> sweep_captured_tree_until_dead host (cr_tree recorded) env own (Some pid) s3) = (confirmed, s')"
          using assms(7) whole Some ev SameIncarnation names by (simp add: kill_and_confirm_recorded_tree_dead_def Let_def)
        have "\<forall>x \<in> set (cr_tree recorded). ours x \<and> seen world (rl_now s2) x" using mem seen_mono [OF _ ok2(2)] by blast
        from kill_then_sweep [OF assms(1-3) ok2(1) this _ run] show ?thesis
          using child Some seen_mono [OF _ ok2(2)] by auto
      next
        case Gone_evidence
        then show ?thesis
          using assms(7) whole Some ev names swept [OF _ ok2] by (simp add: kill_and_confirm_recorded_tree_dead_def Let_def)
      next
        case Unavailable
        then show ?thesis
          using assms(7) whole Some ev names ok2 by (simp add: kill_and_confirm_recorded_tree_dead_def Let_def)
      qed
    qed
  qed
  then show ?thesis by (auto simp: signals_ok_def gone_for_good_def)
qed

section \<open>A concrete host\<close>

text \<open>One process, pid 7, that dies of the first signal.\<close>

definition sample_world :: "nat \<Rightarrow> nat \<Rightarrow> Occupant" where
  "sample_world t p = (if p = 7 \<and> t < 8 then Running 100 else Absent)"

definition sample_fields :: "utext list" where
  "sample_fields = replicate 4 [0x30] @ [[0x2d, 0x31]] @ replicate 13 [0x30]"

definition sample_host :: Host where
  "sample_host =
     \<lparr>ho_stat = (\<lambda>t p. if p = 7 \<and> t < 8 then Content (stat_line 7 [0x29, 0x20] [0x53] sample_fields 100 []) else NotFound),
      ho_status = (\<lambda>t p. if p = 7 \<and> t < 8 then Content (ascii ''Uid: 5'') else NotFound),
      ho_environ = (\<lambda>t p. if p = 7 \<and> t < 8 then Content (ascii ''E=x'') else NotFound),
      ho_entries = (\<lambda>t. Some (if t < 8 then [Named [0x37]] else [])),
      ho_uid = 5,
      ho_pidfd = (\<lambda>t p. if p = 7 \<and> t < 8 then Pinned 100 else Esrch),
      ho_send = (\<lambda>t p start sig. True)\<rparr>"

lemma sample_parts: "length sample_fields = 18" "list_all stat_field sample_fields" "stat_field [0x53]" "(100 :: nat) \<le> usize_max"
  by (auto simp: sample_fields_def stat_field_def plain_word_def is_whitespace_def usize_max_def list_all_iff)

lemma sample_faithful: "faithful sample_host sample_world"
proof -
  have line: "\<exists>comm state before start after.
      stat_line 7 [0x29, 0x20] [0x53] sample_fields 100 [] = stat_line 7 comm state before start after
      \<and> length before = 18 \<and> start \<le> usize_max \<and> stat_field state \<and> list_all stat_field before \<and> list_all stat_field after
      \<and> Running 100 = (if state = [0x5a] \<or> state = [0x58] then Zombie start else Running start)"
    by (intro exI [of _ "[0x29, 0x20]"] exI [of _ "[0x53]"] exI [of _ sample_fields] exI [of _ 100] exI [of _ "[]"])
      (simp add: sample_parts)
  show ?thesis
    using line by (simp add: faithful_def sample_host_def sample_world_def stat_of_def pins_def)
qed

lemma sample_one_life: "one_life sample_world"
  by (auto simp: one_life_def sample_world_def split: if_splits)

lemma sample_stat: "parse_stat (stat_line 7 [0x29, 0x20] [0x53] sample_fields 100 []) = Inr (Some 100)"
  using parse_stat_line [of sample_fields 100 "[0x53]" "[]" 7 "[0x29, 0x20]"] sample_parts by simp

lemma sample_observation:
  "proc_starttime_observation sample_host p s = (Inr (if p = 7 \<and> rl_now s < 8 then Some 100 else None), tick s)"
  using sample_stat by (simp add: proc_starttime_observation_def starttime_of_read_def sample_host_def)

lemma sample_texts:
  "parse_i32 [0x37] = Some 7" "status_field (ascii ''Uid:'') (ascii ''Uid: 5'') = Some [0x35]"
  "parse_unsigned (2 ^ 32 - 1) [0x35] = Some 5" "ascii ''E=x'' \<in> set (pieces 0 [] (ascii ''E=x''))"
  by (simp_all add: parse_i32_def parse_unsigned_def digits_value_def is_digit_def status_field_def ascii_def
      split_whitespace_def is_whitespace_def)

lemma sample_scan_running:
  "rl_now s < 6 \<Longrightarrow> scan_tagged_pids sample_host ''E'' ''x'' root s = (([7], True), tick (tick (tick s)))"
  using sample_texts by (simp add: scan_tagged_pids_def scan_pid_def sample_host_def)

lemma sample_scan_dead: "8 \<le> rl_now s \<Longrightarrow> scan_tagged_pids sample_host env own root s = (([], True), tick s)"
  by (simp add: scan_tagged_pids_def sample_host_def)

lemma sample_calls:
  "ho_pidfd sample_host t p = (if p = 7 \<and> t < 8 then Pinned 100 else Esrch)" "ho_send sample_host t p st sig"
  by (simp_all add: sample_host_def)

lemma sample_signal:
  "rl_now s < 7 \<Longrightarrow> signal_recorded_incarnation sample_host 7 (Some 100) sig s =
     (Sent, tick (tick (tick (s\<lparr>rl_sent := rl_sent s @ [(7, 100, sig)]\<rparr>))))"
  by (simp add: signal_recorded_incarnation_def sample_observation send_signal_def sample_calls)

lemma sample_wait: "8 \<le> rl_now s \<Longrightarrow> wait_recorded_incarnation_gone sample_host 7 (Some 100) s = (True, tick s)"
  using wait_gone_loop.simps(2) [of sample_host 7 "Some 100" 19 s]
  by (simp add: wait_recorded_incarnation_gone_def recorded_process_evidence_def sample_observation)

lemma sample_sweep:
  "8 \<le> rl_now s \<Longrightarrow> sweep_captured_tree_until_dead sample_host [(7, 100)] env own root s = (True, tick (tick s))"
  using sweep_loop.simps(2) [of sample_host env own root 23 "[(7, 100)]" s]
  by (simp add: sweep_captured_tree_until_dead_def sample_observation sample_scan_dead)

lemma sample_capture:
  "capture_tree sample_host 7 ''E'' ''x'' (at_time 0) = (Some (Some 100, [(7, 100)]), tick (tick (tick (tick (tick (at_time 0))))))"
  by (simp add: capture_tree_def sample_observation sample_scan_running with_child_def)

lemma sample_kill: "\<exists>s'. kill_and_confirm_tree_dead sample_host 7 ''E'' ''x'' (at_time 0) = (True, s') \<and> rl_sent s' \<noteq> []"
  by (simp add: kill_and_confirm_tree_dead_def sample_capture kill_recorded_child_unconfirmed_def sample_signal
      sample_wait sample_sweep)

lemma sample_owned: "owned sample_world (scan_tagged_pids sample_host env own root) (\<lambda>x. x = (7, 100))"
  by (auto simp: owned_def recorded_in_def sample_world_def split: if_splits)

theorem confirmed_tree_is_dead_witness:
  "\<exists>s' child tree s1. kill_and_confirm_tree_dead sample_host 7 ''E'' ''x'' (at_time 0) = (True, s')
    \<and> capture_tree sample_host 7 ''E'' ''x'' (at_time 0) = (Some (child, tree), s1)
    \<and> (\<forall>(p, start) \<in> set tree. \<forall>t \<ge> rl_now s'. sample_world t p \<noteq> Running start)"
proof -
  obtain s' where kill: "kill_and_confirm_tree_dead sample_host 7 ''E'' ''x'' (at_time 0) = (True, s')"
    using sample_kill by blast
  with confirmed_tree_is_dead [OF sample_faithful sample_one_life kill] show ?thesis by blast
qed

theorem signals_reach_only_owned_witness:
  "\<exists>s'. rl_sent s' \<noteq> [] \<and> (\<forall>(p, start, sig) \<in> set (rl_sent s'). (p, start) = (7, 100))
    \<and> kill_and_confirm_tree_dead sample_host 7 ''E'' ''x'' (at_time 0) = (True, s')"
proof -
  obtain s' where kill: "kill_and_confirm_tree_dead sample_host 7 ''E'' ''x'' (at_time 0) = (True, s')" "rl_sent s' \<noteq> []"
    using sample_kill by blast
  have "(7, start) = (7, 100)" if "sample_world 0 7 = Running start" for start
    using that by (simp add: sample_world_def)
  from signals_reach_only_owned [OF sample_faithful sample_one_life sample_owned this kill(1)] kill show ?thesis by blast
qed

lemma sample_record:
  "record_condemned_runtime_identity sample_host 7 ''E'' ''x'' (at_time 0) =
     (\<lparr>cr_pid = 7, cr_start_time = Some 100, cr_tree = [(7, 100)], cr_ownership_id = ''x'', cr_capture_complete = True\<rparr>,
      tick (tick (tick (tick (tick (at_time 0))))))"
  by (simp add: record_condemned_runtime_identity_def sample_observation sample_scan_running with_child_def)

lemma sample_recorded_kill:
  "\<exists>s'. kill_and_confirm_recorded_tree_dead sample_host
      \<lparr>cr_pid = 7, cr_start_time = Some 100, cr_tree = [(7, 100)], cr_ownership_id = ''x'', cr_capture_complete = True\<rparr>
      ''E'' (at_time 9) = (True, s')"
  by (simp add: kill_and_confirm_recorded_tree_dead_def recorded_process_evidence_def sample_observation sample_sweep)

theorem recorded_kill_is_safe_witness:
  "\<exists>s' recorded s1. record_condemned_runtime_identity sample_host 7 ''E'' ''x'' (at_time 0) = (recorded, s1)
    \<and> kill_and_confirm_recorded_tree_dead sample_host recorded ''E'' (at_time 9) = (True, s')
    \<and> (\<forall>(p, start) \<in> set (cr_tree recorded). \<forall>t \<ge> rl_now s'. sample_world t p \<noteq> Running start)"
proof -
  let ?rec = "\<lparr>cr_pid = 7, cr_start_time = Some 100, cr_tree = [(7, 100)], cr_ownership_id = ''x'', cr_capture_complete = True\<rparr>"
  obtain s' where kill: "kill_and_confirm_recorded_tree_dead sample_host ?rec ''E'' (at_time 9) = (True, s')"
    using sample_recorded_kill by blast
  have "(7, start) = (7, 100)" if "sample_world 0 7 = Running start" for start
    using that by (simp add: sample_world_def)
  from recorded_kill_is_safe [OF sample_faithful sample_one_life sample_owned this sample_record _ kill]
  show ?thesis using sample_record kill by fastforce
qed

end
