(* ===== verification/Lease_Props.thy ===== *)
theory Lease_Props
  imports Fresh_Leases Reaper_Props
begin

text \<open>
  What the fresh-agent leases guarantee: one writer for a session, a holder that cannot be killed is held
  closed, teardowns that come late leave their successors alone, and a lane that takes over an expired
  holder does so only over its dead process tree.
\<close>

section \<open>One writer\<close>

lemma new_wf: "leases_wf leases_new"
  by (simp add: leases_wf_def leases_new_def)

lemma reached_wf: "leases_wf (fold (lease_perform ttl) ops leases_new)"
  using fresh.wf_run [OF new_wf] .

text \<open>C5: a session has one writer at a time, up to releases after a kill. Whatever operations the tasks of the
  server perform on the lease table, when a claim is granted and later another claim of the same session is
  granted, the first has ended in between: its holder failed, or it completed and its binding was cleared, or
  a release named the runtime by the tag that stood in the table, or an unconditional release ran on the key.\<close>

theorem one_writer_per_session:
  assumes "s = fold (lease_perform ttl) before leases_new"
    and "claim ttl provider session_id holder now s = (Acquired, s1)"
    and "fst (claim ttl provider session_id holder' now' (fold (lease_perform ttl) between s1)) = Acquired"
  shows "grant_over holder
    (slot_trace (lease_perform ttl) (lease_event ttl) (lease_key provider session_id) between s1)"
proof -
  let ?k = "lease_key provider session_id"
  let ?first = "Claim provider session_id holder now" and ?second = "Claim provider session_id holder' now'"
  have wf: "leases_wf s" using assms(1) reached_wf by simp
  have s1: "s1 = lease_perform ttl ?first s" using assms(2) by simp
  have split: "slot_trace (lease_perform ttl) (lease_event ttl) ?k (ops @ [op]) x =
      slot_trace (lease_perform ttl) (lease_event ttl) ?k ops x
        @ [lease_event ttl op (fold (lease_perform ttl) ops x) ?k]" for ops op x
    by (induction ops arbitrary: x) simp_all
  have "slot_trace (lease_perform ttl) (lease_event ttl) ?k (?first # between @ [?second]) s =
      [] @ Grant holder # slot_trace (lease_perform ttl) (lease_event ttl) ?k between s1 @ Grant holder' # []"
    using assms(2,3) by (simp add: split)
  then show ?thesis by (rule fresh.one_writer [OF wf])
qed

section \<open>A holder that cannot be killed\<close>

text \<open>The operations that let a revoked lease go, in the state they meet: the holder's failure, an
  unconditional release of the key, and a release that names the tag of the lease's kill handle.\<close>

fun lets_go :: "string \<Rightarrow> string \<Rightarrow> LeaseOp \<Rightarrow> FreshAgentSessionLeases \<Rightarrow> bool" where
  "lets_go key holder (Fail p i h) s = (lease_key p i = key \<and> h = holder)"
| "lets_go key holder (ForceRelease p i) s = (lease_key p i = key)"
| "lets_go key holder (ForceReleaseIf p i live own) s = (lease_key p i = key \<and> reserved_by own s key)"
| "lets_go key holder op s = False"

fun never_lets_go :: "nat \<Rightarrow> string \<Rightarrow> string \<Rightarrow> LeaseOp list \<Rightarrow> FreshAgentSessionLeases \<Rightarrow> bool" where
  "never_lets_go ttl key holder [] s = True"
| "never_lets_go ttl key holder (op # ops) s =
     (\<not> lets_go key holder op s \<and> never_lets_go ttl key holder ops (lease_perform ttl op s))"

definition held_closed :: "string \<Rightarrow> string \<Rightarrow> FreshAgentSessionLeases \<Rightarrow> bool" where
  "held_closed key holder s =
     (\<exists>l. fmlookup (fl_leases s) key = Some l \<and> le_holder_request_id l = holder \<and> le_revoked l)"

lemma held_closed_step:
  assumes "leases_wf s" and "held_closed key holder s" and "\<not> lets_go key holder op s"
  shows "held_closed key holder (lease_perform ttl op s)"
proof -
  have "fmlookup (fl_bindings s) key = None"
    using assms(1,2) by (force simp: leases_wf_iff held_closed_def)
  then show ?thesis
    using assms(2,3) by (cases op) (auto simp: held_closed_def lease_ops lease_tagged_def reserved_by_def
      split: option.splits prod.splits)
qed

lemma held_closed_run:
  "leases_wf s \<Longrightarrow> held_closed key holder s \<Longrightarrow> never_lets_go ttl key holder ops s \<Longrightarrow>
     held_closed key holder (fold (lease_perform ttl) ops s)"
  by (induction ops arbitrary: s) (auto intro: held_closed_step lease_perform_wf)

text \<open>C11: never release what cannot be killed. A claim that meets an expired holder without a kill handle
  revokes it. From then on, until the holder itself reports failure, a release names the tag of a kill handle
  that the lease carries by then, or an unconditional release runs on the key, every claim of the session is
  answered as held and the holder's completion is refused; a late teardown with another tag changes nothing of
  that.\<close>

theorem unkillable_holder_held_closed:
  assumes "s = fold (lease_perform ttl) before leases_new"
    and "fmlookup (fl_leases s) (lease_key provider session_id) = Some l" and "le_kill_handle l = None"
    and "saturating usize_max (le_acquired_at_ms l + ttl) < now"
    and "s1 = fold (lease_perform ttl) ops (snd (claim ttl provider session_id other now s))"
    and "never_lets_go ttl (lease_key provider session_id) (le_holder_request_id l) ops
      (snd (claim ttl provider session_id other now s))"
  shows "fst (claim ttl provider session_id other now s) = Held FRESH_AGENT_SESSION_RESERVED_RETRY_AFTER_MS
    \<and> fst (claim ttl provider session_id h' now' s1) = Held FRESH_AGENT_SESSION_RESERVED_RETRY_AFTER_MS
    \<and> \<not> fst (complete_with_identity provider session_id (le_holder_request_id l) live own s1)"
proof -
  let ?k = "lease_key provider session_id" and ?h = "le_holder_request_id l"
  have wf: "leases_wf s" using assms(1) reached_wf by simp
  then have free: "fmlookup (fl_bindings s) ?k = None" using assms(2) by (force simp: leases_wf_iff)
  have first: "fst (claim ttl provider session_id other now s) = Held FRESH_AGENT_SESSION_RESERVED_RETRY_AFTER_MS"
    using free assms(2-4) by (simp add: claim_def Let_def)
  have "held_closed ?k ?h (snd (claim ttl provider session_id other now s))"
    using free assms(2-4) by (auto simp: claim_def held_closed_def Let_def)
  moreover have "leases_wf (snd (claim ttl provider session_id other now s))"
    using lease_perform_wf [OF wf, of ttl "Claim provider session_id other now"] by simp
  ultimately have closed: "held_closed ?k ?h s1" "leases_wf s1"
    using held_closed_run fresh.wf_run assms(5,6) by blast+
  then obtain l1 where l1: "fmlookup (fl_leases s1) ?k = Some l1" "le_revoked l1" by (auto simp: held_closed_def)
  then have "fmlookup (fl_bindings s1) ?k = None" using closed(2) by (force simp: leases_wf_iff)
  then show ?thesis using first l1 by (simp add: claim_def complete_with_identity_def Let_def)
qed

section \<open>Late teardowns\<close>

text \<open>A late teardown leaves its successors alone. The releases that carry the identity of a runtime
  remove a binding only if it names that runtime and live session, and an in-flight lease only if its
  kill handle carries the runtime's tag; they answer whether they removed anything, and every other key is
  as before.\<close>

theorem late_teardown_spares_successor:
  assumes "force_release_after_confirmed_kill_if_matches provider session_id live own s = (matched, s')"
    and "clear_binding_if_matches provider session_id live own s = (cleared, s'')"
  shows "(\<not> matched \<longrightarrow> s' = s) \<and> (\<not> cleared \<longrightarrow> s'' = s)
    \<and> (\<forall>key l. fmlookup (fl_leases s) key = Some l \<and> fmlookup (fl_leases s') key \<noteq> Some l \<longrightarrow>
         key = lease_key provider session_id \<and> (\<exists>pid. le_kill_handle l = Some (pid, own)))
    \<and> (\<forall>key b. fmlookup (fl_bindings s) key = Some b
           \<and> (fmlookup (fl_bindings s') key \<noteq> Some b \<or> fmlookup (fl_bindings s'') key \<noteq> Some b) \<longrightarrow>
         key = lease_key provider session_id \<and> bd_live_session_key b = live \<and> bd_ownership_id b = Some own)
    \<and> fl_leases s'' = fl_leases s"
  using assms
  by (auto simp: force_release_after_confirmed_kill_if_matches_def clear_binding_if_matches_def binding_names_def
      lease_tagged_def Let_def split: option.splits prod.splits if_splits)

section \<open>Taking over\<close>

text \<open>The kill a lane runs, as the reaper runs it on a host from a moment on; meanwhile other tasks have
  used the table, which is the last parameter.\<close>

definition reaping ::
  "Host \<Rightarrow> string \<Rightarrow> nat \<Rightarrow> (FreshAgentSessionLeases \<Rightarrow> FreshAgentSessionLeases)
   \<Rightarrow> nat \<Rightarrow> string \<Rightarrow> FreshAgentSessionLeases \<Rightarrow> bool \<times> FreshAgentSessionLeases" where
  "reaping host env t0 others pid own s =
     (fst (kill_and_confirm_tree_dead host pid env own (at_time t0)), others s)"

text \<open>A lane takes over a session only from the dead. When the two-round claim of a lane meets a holder
  that expired with a kill handle and still acquires the lease, the reaper has confirmed the kill of the
  process that the handle names, and from the moment of its report on that process does not run.\<close>

theorem takeover_only_from_the_dead:
  assumes "faithful host world" and "one_life world"
    and "fst (claim ttl provider session_id holder now s) = ExpiredNeedsKill pid own"
    and "fst (lane_claim ttl provider session_id holder now later (reaping host env t0 others) s) = LaneAcquired"
  shows "\<exists>report. kill_and_confirm_tree_dead host pid env own (at_time t0) = (True, report)
    \<and> (\<forall>start. world t0 pid = Running start \<longrightarrow> (\<forall>t \<ge> rl_now report. world t pid \<noteq> Running start))"
proof -
  have "lane_round ttl provider session_id holder now s = (Inl (pid, own), snd (claim ttl provider session_id holder now s))"
    using assms(3) by (cases "claim ttl provider session_id holder now s") (simp add: lane_round_def)
  then have "fst (kill_and_confirm_tree_dead host pid env own (at_time t0))"
    using assms(4) by (auto simp: lane_claim_def reaping_def split: prod.splits bool.splits if_splits)
  then obtain s' where kill: "kill_and_confirm_tree_dead host pid env own (at_time t0) = (True, s')"
    by (metis prod.collapse)
  from kill_and_confirm_steps [OF assms(1,2) _ TrueI no_signals_ok kill] kill show ?thesis
    by (auto simp: owned_def gone_for_good_def)
qed

text \<open>The release of a takeover is unconditional. A lane whose kill is confirmed acquires the lease whatever the
  table holds by then, a successor's fresh lease or live binding included: of two lanes that met the same
  expired holder, both acquire. What keeps them apart is the coordinator's claim alone.\<close>

lemma takeover_evicts_successor:
  assumes "fst (claim ttl provider session_id holder now s) = ExpiredNeedsKill pid own"
    and "fst (kill pid own (snd (claim ttl provider session_id holder now s)))"
  shows "fst (lane_claim ttl provider session_id holder now later kill s) = LaneAcquired"
proof -
  have "lane_round ttl provider session_id holder now s = (Inl (pid, own), snd (claim ttl provider session_id holder now s))"
    using assms(1) by (cases "claim ttl provider session_id holder now s") (simp add: lane_round_def)
  moreover have "fst (lane_round ttl provider session_id holder later
      (force_release_after_confirmed_kill provider session_id s')) = Inr LaneAcquired" for s'
    by (simp add: lane_round_def claim_def force_release_after_confirmed_kill_def Let_def)
  moreover obtain s2 where "kill pid own (snd (claim ttl provider session_id holder now s)) = (True, s2)"
    using assms(2) by (metis prod.collapse)
  moreover have "fst (case x of (Inr answer, s3) \<Rightarrow> (answer, s3) | (Inl h, s3) \<Rightarrow> (LaneReserved, s3)) = LaneAcquired"
    if "fst x = Inr LaneAcquired" for x :: "(nat \<times> string + LaneLease) \<times> FreshAgentSessionLeases"
    using that by (cases x) simp
  ultimately show ?thesis by (simp add: lane_claim_def)
qed

section \<open>Witnesses\<close>

theorem one_writer_per_session_witness:
  "grant_over ''a'' (slot_trace (lease_perform 20000) (lease_event 20000) (lease_key ''c'' ''s'')
     [Fail ''c'' ''s'' ''a''] (snd (claim 20000 ''c'' ''s'' ''a'' 1 leases_new)))"
proof (rule one_writer_per_session)
  show "leases_new = fold (lease_perform 20000) [] leases_new" by simp
  show "claim 20000 ''c'' ''s'' ''a'' 1 leases_new = (Acquired, snd (claim 20000 ''c'' ''s'' ''a'' 1 leases_new))"
    by (simp add: claim_def leases_new_def Let_def)
  show "fst (claim 20000 ''c'' ''s'' ''b'' 2 (fold (lease_perform 20000) [Fail ''c'' ''s'' ''a'']
      (snd (claim 20000 ''c'' ''s'' ''a'' 1 leases_new)))) = Acquired"
    by (simp add: claim_def lease_fail_def leases_new_def Let_def)
qed

definition sample_lease :: LeaseEntry where
  "sample_lease = \<lparr>le_holder_request_id = ''a'', le_acquired_at_ms = 1, le_kill_handle = None, le_revoked = False\<rparr>"

theorem unkillable_holder_held_closed_witness:
  "\<exists>s s1. fst (claim 20000 ''c'' ''s'' ''b'' 30000 s) = Held FRESH_AGENT_SESSION_RESERVED_RETRY_AFTER_MS
    \<and> s1 = fold (lease_perform 20000) [SetKillHandle ''c'' ''s'' ''a'' 7 ''x'', ForceReleaseIf ''c'' ''s'' ''l'' ''y'']
             (snd (claim 20000 ''c'' ''s'' ''b'' 30000 s))
    \<and> \<not> fst (complete_with_identity ''c'' ''s'' ''a'' ''live'' None s1)"
proof -
  let ?s = "fold (lease_perform 20000) [Claim ''c'' ''s'' ''a'' 1] leases_new"
  have l: "fmlookup (fl_leases ?s) (lease_key ''c'' ''s'') = Some sample_lease" "le_kill_handle sample_lease = None"
    "saturating usize_max (le_acquired_at_ms sample_lease + 20000) < 30000"
    by (simp_all add: claim_def leases_new_def sample_lease_def saturating_def usize_max_def Let_def)
  have ops: "never_lets_go 20000 (lease_key ''c'' ''s'') (le_holder_request_id sample_lease)
      [SetKillHandle ''c'' ''s'' ''a'' 7 ''x'', ForceReleaseIf ''c'' ''s'' ''l'' ''y''] (snd (claim 20000 ''c'' ''s'' ''b'' 30000 ?s))"
    by (simp add: claim_def leases_new_def saturating_def usize_max_def reserved_by_def set_kill_handle_def Let_def)
  from unkillable_holder_held_closed [OF refl l refl ops, of "''h''" 40000 "''live''" None] show ?thesis
    by (auto simp: sample_lease_def)
qed

theorem late_teardown_spares_successor_witness:
  "\<not> fst (force_release_after_confirmed_kill_if_matches ''c'' ''s'' ''live'' ''old''
       (snd (complete_with_identity ''c'' ''s'' ''a'' ''live'' (Some ''new'') (snd (claim 20000 ''c'' ''s'' ''a'' 1 leases_new)))))
   \<and> snd (force_release_after_confirmed_kill_if_matches ''c'' ''s'' ''live'' ''old''
       (snd (complete_with_identity ''c'' ''s'' ''a'' ''live'' (Some ''new'') (snd (claim 20000 ''c'' ''s'' ''a'' 1 leases_new)))))
     = snd (complete_with_identity ''c'' ''s'' ''a'' ''live'' (Some ''new'') (snd (claim 20000 ''c'' ''s'' ''a'' 1 leases_new)))"
proof -
  let ?s = "snd (complete_with_identity ''c'' ''s'' ''a'' ''live'' (Some ''new'') (snd (claim 20000 ''c'' ''s'' ''a'' 1 leases_new)))"
  have "\<not> fst (force_release_after_confirmed_kill_if_matches ''c'' ''s'' ''live'' ''old'' ?s)"
    by (simp add: claim_def complete_with_identity_def leases_new_def binding_names_def lease_tagged_def
        force_release_after_confirmed_kill_if_matches_def Let_def)
  with late_teardown_spares_successor [OF prod.collapse [symmetric] prod.collapse [symmetric], of "''c''" "''s''" "''live''" "''old''" ?s]
  show ?thesis by blast
qed

theorem takeover_only_from_the_dead_witness:
  "\<exists>report. kill_and_confirm_tree_dead sample_host 7 ''E'' ''x'' (at_time 0) = (True, report)
    \<and> (\<forall>start. sample_world 0 7 = Running start \<longrightarrow> (\<forall>t \<ge> rl_now report. sample_world t 7 \<noteq> Running start))"
proof -
  let ?s = "set_kill_handle ''c'' ''s'' ''a'' 7 ''x'' (snd (claim 20000 ''c'' ''s'' ''a'' 1 leases_new))"
  have expired: "fst (claim 20000 ''c'' ''s'' ''b'' 30000 ?s) = ExpiredNeedsKill 7 ''x''"
    by (simp add: claim_def set_kill_handle_def leases_new_def saturating_def usize_max_def Let_def)
  have "reaping sample_host ''E'' 0 id 7 ''x'' s = (True, s)" for s
    using sample_kill by (auto simp: reaping_def)
  then have "fst (lane_claim 20000 ''c'' ''s'' ''b'' 30000 30001 (reaping sample_host ''E'' 0 id) ?s) = LaneAcquired"
    by (simp add: lane_claim_def lane_round_def claim_def set_kill_handle_def leases_new_def saturating_def
        usize_max_def force_release_after_confirmed_kill_def Let_def)
  from takeover_only_from_the_dead [OF sample_faithful sample_one_life expired this] show ?thesis .
qed

end
