(* ===== verification/Session_Refs.thy ===== *)
theory Session_Refs
  imports Own_Stop Own_Commit Lease_Contract "HOL-Library.Char_ord" "HOL-Library.List_Lexorder"
    "HOL-Library.Product_Lexorder"
begin

text \<open>
  Session references of the terminal registry (crates/freshell-terminal/src/registry.rs): the one
  in-flight create for a session, the terminal it is bound to, and the coordinator claims that a terminal
  commits and that its death releases. Of a terminal's row the model keeps what these operations read;
  the coordinator is the one of \<open>Own_Types\<close>. Where the code iterates over a hash map the order is the
  sorted one; the operations do not depend on it. Wall-clock times are parameters; the one sum of them, of 64 bits, wraps.
\<close>

section \<open>State\<close>

definition SESSION_REF_LEASE_TTL_MS :: nat where "SESSION_REF_LEASE_TTL_MS = 20000"
definition SESSION_RESERVED_RETRY_AFTER_MS :: nat where "SESSION_RESERVED_RETRY_AFTER_MS = 1000"

text \<open>The environment variable, as a \<open>u64\<close> where it parses as one.\<close>

definition session_ref_lease_ttl_ms :: "nat option \<Rightarrow> nat" where
  "session_ref_lease_ttl_ms env =
     (case env of Some v \<Rightarrow> if 0 < v then v else SESSION_REF_LEASE_TTL_MS | None \<Rightarrow> SESSION_REF_LEASE_TTL_MS)"

record SessionLocator =
  loc_provider :: string
  loc_session_id :: string

datatype SessionRefClaim =
    Acquired
  | Held nat
  | ExpiredNeedsKill nat
  | BoundElsewhere string

record SessionRefLease =
  srl_locator :: SessionLocator
  srl_holder_create_request_id :: string
  srl_holder_conn :: nat
  srl_acquired_at_ms :: nat
  srl_pid :: "nat option"
  srl_revoked :: bool

record RetainedSessionRefOwnership =
  rso_locator :: SessionLocator
  rso_terminal_id :: string
  rso_operation_id :: string
  rso_generation :: nat
  rso_pid :: "nat option"

datatype TerminalRunStatus = RunStatus_Running | RunStatus_Exited

record TerminalRow =
  row_status :: TerminalRunStatus
  row_mode :: string
  row_resume_session_id :: "string option"
  row_created_at :: int
  row_pid :: "nat option"
  row_managed :: bool

record TerminalRegistry =
  tr_terminals :: "(string, TerminalRow) fmap"
  tr_session_ref_leases :: "(string, SessionRefLease) fmap"
  tr_session_ref_bindings :: "(string, string) fmap"
  tr_session_ref_ownership :: "(string, RetainedSessionRefOwnership) fmap"
  tr_ownership :: "RuntimeOwnershipRegistry option"

definition session_ref_key :: "SessionLocator \<Rightarrow> string" where
  "session_ref_key locator = loc_provider locator @ [CHR 0x00] @ loc_session_id locator"

definition retained_runtime_identity :: "RetainedSessionRefOwnership \<Rightarrow> OwnerIdentity" where
  "retained_runtime_identity claim =
     \<lparr>ow_kind = Terminal, ow_terminal_id = Some (rso_terminal_id claim), ow_live_session_key = None,
      ow_pid = rso_pid claim, ow_ownership_id = Some (rso_operation_id claim)\<rparr>"

section \<open>Looking at rows\<close>

definition is_running :: "TerminalRegistry \<Rightarrow> string \<Rightarrow> bool" where
  "is_running s terminal_id = (fmlookup (tr_terminals s) terminal_id \<noteq> None)"

definition is_pty_running :: "TerminalRegistry \<Rightarrow> string \<Rightarrow> bool" where
  "is_pty_running s terminal_id =
     (case fmlookup (tr_terminals s) terminal_id of
        None \<Rightarrow> False | Some row \<Rightarrow> row_status row = RunStatus_Running)"

definition is_live :: "TerminalRegistry \<Rightarrow> string \<Rightarrow> bool" where
  "is_live s terminal_id =
     (case fmlookup (tr_terminals s) terminal_id of
        Some row \<Rightarrow> row_status row = RunStatus_Running | None \<Rightarrow> False)"

definition pid_of :: "TerminalRegistry \<Rightarrow> string \<Rightarrow> nat option" where
  "pid_of s terminal_id =
     (case fmlookup (tr_terminals s) terminal_id of None \<Rightarrow> None | Some row \<Rightarrow> row_pid row)"

text \<open>Rows that carry the session, newest first.\<close>

definition carries_session :: "SessionLocator \<Rightarrow> TerminalRow \<Rightarrow> bool" where
  "carries_session locator row =
     (row_status row = RunStatus_Running \<and> row_mode row = loc_provider locator
      \<and> row_resume_session_id row = Some (loc_session_id locator))"

definition live_terminal_ids_for_session_ref :: "TerminalRegistry \<Rightarrow> SessionLocator \<Rightarrow> string list" where
  "live_terminal_ids_for_session_ref s locator =
     map snd (rev (sort (map (\<lambda>(terminal_id, row). (row_created_at row, terminal_id))
       (filter (\<lambda>(terminal_id, row). carries_session locator row) (sorted_list_of_fmap (tr_terminals s))))))"

definition live_terminal_for_session_ref :: "TerminalRegistry \<Rightarrow> SessionLocator \<Rightarrow> string option" where
  "live_terminal_for_session_ref s locator =
     (case live_terminal_ids_for_session_ref s locator of [] \<Rightarrow> None | terminal_id # _ \<Rightarrow> Some terminal_id)"

definition alarm_if_duplicate_session_ref :: "TerminalRegistry \<Rightarrow> SessionLocator \<Rightarrow> bool" where
  "alarm_if_duplicate_session_ref s locator = (2 \<le> length (live_terminal_ids_for_session_ref s locator))"

section \<open>Claims of a session reference\<close>

text \<open>Step 1b: a binding to a terminal that is known dead is pruned; any other answers the claim.\<close>

definition claim_binding_phase ::
  "TerminalRegistry \<Rightarrow> SessionLocator \<Rightarrow> SessionRefClaim option \<times> TerminalRegistry" where
  "claim_binding_phase s locator =
     (let key = session_ref_key locator in
      case fmlookup (tr_session_ref_bindings s) key of
        None \<Rightarrow> (None, s)
      | Some terminal_id \<Rightarrow>
          let known_dead = is_running s terminal_id \<and> \<not> is_live s terminal_id in
          if known_dead
          then (None, s\<lparr>tr_session_ref_bindings := fmdrop key (tr_session_ref_bindings s)\<rparr>)
          else (Some (BoundElsewhere terminal_id), s))"

definition claim_session_ref_lease_phase ::
  "nat \<Rightarrow> TerminalRegistry \<Rightarrow> SessionLocator \<Rightarrow> string \<Rightarrow> nat \<Rightarrow> nat \<Rightarrow> SessionRefClaim \<times> TerminalRegistry" where
  "claim_session_ref_lease_phase ttl_ms s locator holder conn now_ms =
     (let key = session_ref_key locator in
      case fmlookup (tr_session_ref_leases s) key of
        None \<Rightarrow>
          (case fmlookup (tr_session_ref_bindings s) key of
             Some terminal_id \<Rightarrow> (BoundElsewhere terminal_id, s)
           | None \<Rightarrow>
               (Acquired,
                s\<lparr>tr_session_ref_leases := fmupd key
                    \<lparr>srl_locator = locator, srl_holder_create_request_id = holder, srl_holder_conn = conn,
                     srl_acquired_at_ms = now_ms, srl_pid = None, srl_revoked = False\<rparr>
                    (tr_session_ref_leases s)\<rparr>))
      | Some lease \<Rightarrow>
          (let expired = (srl_acquired_at_ms lease + ttl_ms) mod 2 ^ 64 < now_ms in
           if \<not> expired then (Held SESSION_RESERVED_RETRY_AFTER_MS, s)
           else case srl_pid lease of
                  Some pid \<Rightarrow> (ExpiredNeedsKill pid, s)
                | None \<Rightarrow>
                    (Held SESSION_RESERVED_RETRY_AFTER_MS,
                     if \<not> srl_revoked lease
                     then s\<lparr>tr_session_ref_leases :=
                              fmupd key (lease\<lparr>srl_revoked := True\<rparr>) (tr_session_ref_leases s)\<rparr>
                     else s)))"

definition claim_session_ref ::
  "nat \<Rightarrow> TerminalRegistry \<Rightarrow> SessionLocator \<Rightarrow> string \<Rightarrow> nat \<Rightarrow> nat \<Rightarrow> SessionRefClaim \<times> TerminalRegistry" where
  "claim_session_ref ttl_ms s locator holder conn now_ms =
     (case live_terminal_for_session_ref s locator of
        Some terminal_id \<Rightarrow> (BoundElsewhere terminal_id, s)
      | None \<Rightarrow>
          (case claim_binding_phase s locator of
             (Some answer, s') \<Rightarrow> (answer, s')
           | (None, s') \<Rightarrow> claim_session_ref_lease_phase ttl_ms s' locator holder conn now_ms))"

definition set_session_ref_lease_pid ::
  "TerminalRegistry \<Rightarrow> SessionLocator \<Rightarrow> string \<Rightarrow> nat \<Rightarrow> TerminalRegistry" where
  "set_session_ref_lease_pid s locator holder pid =
     (let key = session_ref_key locator in
      case fmlookup (tr_session_ref_leases s) key of
        None \<Rightarrow> s
      | Some lease \<Rightarrow>
          if srl_holder_create_request_id lease = holder
          then s\<lparr>tr_session_ref_leases := fmupd key (lease\<lparr>srl_pid := Some pid\<rparr>) (tr_session_ref_leases s)\<rparr>
          else s)"

text \<open>The duplicate alarm after a completion is a log line.\<close>

definition complete_session_ref_claim ::
  "TerminalRegistry \<Rightarrow> SessionLocator \<Rightarrow> string \<Rightarrow> string \<Rightarrow> bool \<times> TerminalRegistry" where
  "complete_session_ref_claim s locator holder terminal_id =
     (let key = session_ref_key locator in
      case fmlookup (tr_session_ref_leases s) key of
        None \<Rightarrow> (False, s)
      | Some lease \<Rightarrow>
          if srl_holder_create_request_id lease = holder \<and> \<not> srl_revoked lease
          then (True,
                s\<lparr>tr_session_ref_leases := fmdrop key (tr_session_ref_leases s),
                  tr_session_ref_bindings := fmupd key terminal_id (tr_session_ref_bindings s)\<rparr>)
          else (False, s))"

definition fail_session_ref_claim :: "TerminalRegistry \<Rightarrow> SessionLocator \<Rightarrow> string \<Rightarrow> TerminalRegistry" where
  "fail_session_ref_claim s locator holder =
     (let key = session_ref_key locator in
      case fmlookup (tr_session_ref_leases s) key of
        None \<Rightarrow> s
      | Some lease \<Rightarrow>
          if srl_holder_create_request_id lease = holder
          then s\<lparr>tr_session_ref_leases := fmdrop key (tr_session_ref_leases s)\<rparr> else s)"

definition release_session_ref_leases_for_conn ::
  "TerminalRegistry \<Rightarrow> nat \<Rightarrow> (SessionLocator \<times> nat option) list \<times> TerminalRegistry" where
  "release_session_ref_leases_for_conn s conn =
     (map (\<lambda>(key, lease). (srl_locator lease, srl_pid lease))
        (filter (\<lambda>(key, lease). srl_holder_conn lease = conn) (sorted_list_of_fmap (tr_session_ref_leases s))),
      s\<lparr>tr_session_ref_leases :=
          fmfilter (\<lambda>key. case fmlookup (tr_session_ref_leases s) key of
                            None \<Rightarrow> False
                          | Some lease \<Rightarrow> srl_holder_conn lease \<noteq> conn \<or> srl_pid lease \<noteq> None)
            (tr_session_ref_leases s)\<rparr>)"

definition bound_terminal_for_session_ref :: "TerminalRegistry \<Rightarrow> SessionLocator \<Rightarrow> string option" where
  "bound_terminal_for_session_ref s locator = fmlookup (tr_session_ref_bindings s) (session_ref_key locator)"

section \<open>Coordinator claims\<close>

definition take_retained_ownership_claim ::
  "TerminalRegistry \<Rightarrow> string \<Rightarrow> RetainedSessionRefOwnership option \<times> TerminalRegistry" where
  "take_retained_ownership_claim s key =
     (fmlookup (tr_session_ref_ownership s) key,
      s\<lparr>tr_session_ref_ownership := fmdrop key (tr_session_ref_ownership s)\<rparr>)"

definition release_claim_of :: "RetainedSessionRefOwnership \<Rightarrow> ReleaseClaim" where
  "release_claim_of claim =
     \<lparr>rc_operation_id = rso_operation_id claim, rc_generation = rso_generation claim,
      rc_runtime = Some (retained_runtime_identity claim)\<rparr>"

text \<open>The look at the retained claim and its removal take the lock each on its own.\<close>

definition force_release_dead :: "TerminalRegistry \<Rightarrow> SessionLocator \<Rightarrow> bool" where
  "force_release_dead s locator =
     (case fmlookup (tr_session_ref_ownership s) (session_ref_key locator) of
        None \<Rightarrow> False | Some claim \<Rightarrow> \<not> is_running s (rso_terminal_id claim))"

definition force_release_take :: "TerminalRegistry \<Rightarrow> SessionLocator \<Rightarrow> TerminalRegistry" where
  "force_release_take s locator =
     (case take_retained_ownership_claim s (session_ref_key locator) of
        (None, s') \<Rightarrow> s'
      | (Some claim, s') \<Rightarrow>
          s'\<lparr>tr_ownership := map_option (\<lambda>ownership. force_release_for_confirmed_kill ownership
               (loc_provider locator) (loc_session_id locator) (release_claim_of claim)) (tr_ownership s')\<rparr>)"

definition force_release_after_confirmed_kill :: "TerminalRegistry \<Rightarrow> SessionLocator \<Rightarrow> TerminalRegistry" where
  "force_release_after_confirmed_kill s locator =
     (let s = s\<lparr>tr_session_ref_leases := fmdrop (session_ref_key locator) (tr_session_ref_leases s)\<rparr> in
      case tr_ownership s of
        None \<Rightarrow> s
      | Some ownership \<Rightarrow> if \<not> force_release_dead s locator then s else force_release_take s locator)"

lemmas force_release_defs = force_release_after_confirmed_kill_def force_release_dead_def force_release_take_def

definition terminal_owner :: "TerminalRegistry \<Rightarrow> string \<Rightarrow> string \<Rightarrow> OwnerIdentity" where
  "terminal_owner s op terminal_id =
     \<lparr>ow_kind = Terminal, ow_terminal_id = Some terminal_id, ow_live_session_key = None,
      ow_pid = pid_of s terminal_id, ow_ownership_id = Some op\<rparr>"

definition retained_claim ::
  "TerminalRegistry \<Rightarrow> SessionLocator \<Rightarrow> string \<Rightarrow> nat \<Rightarrow> string \<Rightarrow> RetainedSessionRefOwnership" where
  "retained_claim s locator op generation terminal_id =
     \<lparr>rso_locator = locator, rso_terminal_id = terminal_id, rso_operation_id = op,
      rso_generation = generation, rso_pid = pid_of s terminal_id\<rparr>"

definition commit_session_ref_ownership ::
  "TerminalRegistry \<Rightarrow> SessionLocator \<Rightarrow> string \<Rightarrow> nat \<Rightarrow> string \<Rightarrow> nat \<Rightarrow> CommitOutcome \<times> TerminalRegistry" where
  "commit_session_ref_ownership s locator op generation terminal_id clock_ms =
     (case tr_ownership s of
        None \<Rightarrow> (Committed, s)
      | Some ownership \<Rightarrow>
          if \<not> is_pty_running s terminal_id then (Commit_ForeignOperation, s)
          else
            (case commit_live ownership (loc_provider locator) (loc_session_id locator) op generation
                    (terminal_owner s op terminal_id) clock_ms of
               (outcome, ownership') \<Rightarrow>
                 (outcome,
                  s\<lparr>tr_ownership := Some ownership',
                    tr_session_ref_ownership :=
                      (if outcome = Committed
                       then fmupd (session_ref_key locator) (retained_claim s locator op generation terminal_id)
                              (tr_session_ref_ownership s)
                       else tr_session_ref_ownership s)\<rparr>)))"

definition commit_session_ref_ownership_rekey ::
  "TerminalRegistry \<Rightarrow> SessionLocator \<Rightarrow> SessionLocator \<Rightarrow> string \<Rightarrow> nat \<Rightarrow> string \<Rightarrow> nat
   \<Rightarrow> (CommitOutcome \<times> RetainedSessionRefOwnership option) \<times> TerminalRegistry" where
  "commit_session_ref_ownership_rekey s old_locator new_locator op generation terminal_id clock_ms =
     (case tr_ownership s of
        None \<Rightarrow> ((Committed, None), s)
      | Some ownership \<Rightarrow>
          if \<not> is_pty_running s terminal_id then ((Commit_ForeignOperation, None), s)
          else
            (case commit_live_rekey_from_terminal ownership (loc_provider new_locator)
                    (loc_session_id new_locator) op generation (loc_session_id old_locator) terminal_id
                    (terminal_owner s op terminal_id) clock_ms of
               (outcome, ownership') \<Rightarrow>
                 if outcome \<noteq> Committed then ((outcome, None), s\<lparr>tr_ownership := Some ownership'\<rparr>)
                 else
                   ((outcome, fmlookup (tr_session_ref_ownership s) (session_ref_key old_locator)),
                    s\<lparr>tr_ownership := Some ownership',
                      tr_session_ref_ownership :=
                        fmupd (session_ref_key new_locator) (retained_claim s new_locator op generation terminal_id)
                          (fmdrop (session_ref_key old_locator) (tr_session_ref_ownership s))\<rparr>)))"

definition retained_ownership_claim_by_locator ::
  "TerminalRegistry \<Rightarrow> SessionLocator \<Rightarrow> RetainedSessionRefOwnership option" where
  "retained_ownership_claim_by_locator s locator =
     fmlookup (tr_session_ref_ownership s) (session_ref_key locator)"

definition remove_retained_session_ref_claim ::
  "TerminalRegistry \<Rightarrow> SessionLocator \<Rightarrow> RetainedSessionRefOwnership option \<times> TerminalRegistry" where
  "remove_retained_session_ref_claim s locator = take_retained_ownership_claim s (session_ref_key locator)"

definition claims_of_terminal :: "TerminalRegistry \<Rightarrow> string \<Rightarrow> (string \<times> RetainedSessionRefOwnership) list" where
  "claims_of_terminal s terminal_id =
     filter (\<lambda>(key, claim). rso_terminal_id claim = terminal_id) (sorted_list_of_fmap (tr_session_ref_ownership s))"

definition retained_ownership_claim :: "TerminalRegistry \<Rightarrow> string \<Rightarrow> RetainedSessionRefOwnership option" where
  "retained_ownership_claim s terminal_id =
     (case claims_of_terminal s terminal_id of [] \<Rightarrow> None | (key, claim) # _ \<Rightarrow> Some claim)"

definition retained_ownership_fence :: "TerminalRegistry \<Rightarrow> string \<Rightarrow> (u64 \<times> nat) option" where
  "retained_ownership_fence s terminal_id =
     (case tr_ownership s of
        None \<Rightarrow> None
      | Some ownership \<Rightarrow>
          map_option (\<lambda>claim. (boot_epoch ownership, rso_generation claim)) (retained_ownership_claim s terminal_id))"

definition take_retained_ownership_claims_for_terminal ::
  "TerminalRegistry \<Rightarrow> string \<Rightarrow> RetainedSessionRefOwnership list \<times> TerminalRegistry" where
  "take_retained_ownership_claims_for_terminal s terminal_id =
     (map snd (claims_of_terminal s terminal_id),
      s\<lparr>tr_session_ref_ownership :=
          fmdrop_set (set (map fst (claims_of_terminal s terminal_id))) (tr_session_ref_ownership s)\<rparr>)"

definition repair_restored_prior_ownership :: "TerminalRegistry \<Rightarrow> string \<Rightarrow> nat \<Rightarrow> bool \<times> TerminalRegistry" where
  "repair_restored_prior_ownership s terminal_id generation =
     (case claims_of_terminal s terminal_id of
        [] \<Rightarrow> (False, s)
      | (key, claim) # _ \<Rightarrow>
          (True,
           s\<lparr>tr_session_ref_ownership :=
               fmupd key (claim\<lparr>rso_generation := generation\<rparr>) (tr_session_ref_ownership s)\<rparr>))"

definition release_retained :: "RetainedSessionRefOwnership \<Rightarrow> RuntimeOwnershipRegistry \<Rightarrow> RuntimeOwnershipRegistry" where
  "release_retained claim ownership =
     snd (release ownership (loc_provider (rso_locator claim)) (loc_session_id (rso_locator claim))
            (release_claim_of claim))"

definition release_session_ref_ownership :: "TerminalRegistry \<Rightarrow> string \<Rightarrow> TerminalRegistry" where
  "release_session_ref_ownership s terminal_id =
     (case tr_ownership s of
        None \<Rightarrow> s
      | Some ownership \<Rightarrow>
          (case take_retained_ownership_claims_for_terminal s terminal_id of
             (claims, s') \<Rightarrow> s'\<lparr>tr_ownership := Some (fold release_retained claims ownership)\<rparr>))"

section \<open>Death of a terminal\<close>

text \<open>What \<open>kill_internal\<close> and \<open>finish_pty_exit\<close> do to this state; subscribers, the activity hub and the
  respawn counter are outside it. Each first marks the death in the row and then releases, and a commit
  may come in between, so the two halves are definitions of their own.\<close>

definition kill_row :: "TerminalRegistry \<Rightarrow> string \<Rightarrow> bool \<Rightarrow> bool \<times> TerminalRegistry" where
  "kill_row s terminal_id allow_managed =
     (case fmlookup (tr_terminals s) terminal_id of
        None \<Rightarrow> (False, s)
      | Some row \<Rightarrow>
          if \<not> allow_managed \<and> row_managed row then (False, s)
          else
            (let s = s\<lparr>tr_terminals := fmdrop terminal_id (tr_terminals s)\<rparr>
             in (True,
                 s\<lparr>tr_session_ref_bindings :=
                     fmfilter (\<lambda>key. fmlookup (tr_session_ref_bindings s) key \<noteq> Some terminal_id)
                       (tr_session_ref_bindings s)\<rparr>)))"

definition kill_internal :: "TerminalRegistry \<Rightarrow> string \<Rightarrow> bool \<Rightarrow> bool \<times> TerminalRegistry" where
  "kill_internal s terminal_id allow_managed =
     (case kill_row s terminal_id allow_managed of
        (False, s) \<Rightarrow> (False, s)
      | (True, s) \<Rightarrow> (True, release_session_ref_ownership s terminal_id))"

definition exit_row :: "TerminalRegistry \<Rightarrow> string \<Rightarrow> bool \<times> TerminalRegistry" where
  "exit_row s terminal_id =
     (case fmlookup (tr_terminals s) terminal_id of
        None \<Rightarrow> (False, s)
      | Some row \<Rightarrow>
          (let s = s\<lparr>tr_terminals := fmupd terminal_id (row\<lparr>row_pid := None\<rparr>) (tr_terminals s)\<rparr> in
           if row_status row = RunStatus_Exited then (False, s)
           else (True,
                 s\<lparr>tr_terminals :=
                     fmupd terminal_id (row\<lparr>row_pid := None, row_status := RunStatus_Exited\<rparr>) (tr_terminals s)\<rparr>)))"

definition finish_pty_exit :: "TerminalRegistry \<Rightarrow> string \<Rightarrow> bool \<times> TerminalRegistry" where
  "finish_pty_exit s terminal_id =
     (case exit_row s terminal_id of
        (False, s) \<Rightarrow> (False, s)
      | (True, s) \<Rightarrow> (True, release_session_ref_ownership s terminal_id))"

end
