(* ===== verification/Session_Ref_Props.thy ===== *)
theory Session_Ref_Props
  imports Session_Refs
begin

text \<open>
  What the session references guarantee. The claims keep the contract of \<open>Lease_Contract\<close>, so a session
  has one create in flight or one bound terminal; and a terminal that the coordinator names as the live
  owner of a session is running, because a death releases every claim the terminal retained.
\<close>

section \<open>The contract of the claims\<close>

definition refs_new :: "RuntimeOwnershipRegistry option \<Rightarrow> TerminalRegistry" where
  "refs_new ownership =
     \<lparr>tr_terminals = fmempty, tr_session_ref_leases = fmempty, tr_session_ref_bindings = fmempty,
      tr_session_ref_ownership = fmempty, tr_ownership = ownership\<rparr>"



text \<open>The steps as their locks make them: a claim is its binding phase, then its lease phase, and a death is
  its mark in the row, then the release of the retained claims, with other steps in between. A release takes
  its claims and tells the coordinator in one step here, and so does the release after a confirmed kill; the
  last section takes the latter apart. The steps of the coordinator that other lanes perform make no terminal the live owner of a key, but for two:
  an aborted stop and a failed handoff with a live prior put the owner back that they had found; the repair of
  the retained claim after the latter is a step of the registry.\<close>

datatype CoordOp =
    Co_Start string string RuntimeOwnerKind string "ObservedFence option" string nat
  | Co_Handoff string string RuntimeOwnerKind string "ObservedFence option" string nat
  | Co_Fresh string string string nat OwnerIdentity nat
  | Co_Stop string string string StopClaim string nat
  | Co_Stopped string string string nat
  | Co_Fence_Handoff string string string nat FenceReason nat
  | Co_Fence_Stop string string string nat FenceReason nat
  | Co_Unfence string string string nat
  | Co_Abort string string string nat nat
  | Co_Fail string string string nat bool nat

fun coord_perform :: "CoordOp \<Rightarrow> RuntimeOwnershipRegistry \<Rightarrow> RuntimeOwnershipRegistry" where
  "coord_perform (Co_Start p i kind op obs init now) reg = snd (begin_start reg p i kind op obs init now)"
| "coord_perform (Co_Handoff p i kind op obs init now) reg = snd (begin_handoff reg p i kind op obs init now)"
| "coord_perform (Co_Fresh p i op g owner now) reg =
     (if ow_kind owner = FreshAgent then snd (commit_live reg p i op g owner now) else reg)"
| "coord_perform (Co_Stop p i op c init now) reg = snd (begin_stop reg p i op c init now)"
| "coord_perform (Co_Stopped p i op g) reg = snd (commit_stop reg p i op g)"
| "coord_perform (Co_Fence_Handoff p i op g why now) reg = snd (fence_unconfirmed_handoff reg p i op g why now)"
| "coord_perform (Co_Fence_Stop p i op g why now) reg = snd (fence_unconfirmed_stop reg p i op g why now)"
| "coord_perform (Co_Unfence p i op g) reg = snd (release_fenced reg p i op g)"
| "coord_perform (Co_Abort p i op g now) reg = snd (abort_stop reg p i op g now)"
| "coord_perform (Co_Fail p i op g live now) reg = snd (fail reg p i op g live now)"

datatype RefOp =
    Ref_Row string TerminalRow
  | Ref_Binding SessionLocator
  | Ref_Lease SessionLocator string nat nat
  | Ref_Pid SessionLocator string nat
  | Ref_Complete SessionLocator string string
  | Ref_Fail SessionLocator string
  | Ref_Conn nat
  | Ref_Force SessionLocator
  | Ref_Gone string bool
  | Ref_Exited string
  | Ref_Release string
  | Ref_Commit SessionLocator string nat string nat
  | Ref_Rekey string string string string nat string nat
  | Ref_Repair string nat
  | Ref_Coord CoordOp

definition with_coordinator ::
  "(RuntimeOwnershipRegistry \<Rightarrow> RuntimeOwnershipRegistry) \<Rightarrow> TerminalRegistry \<Rightarrow> TerminalRegistry" where
  "with_coordinator f s = s\<lparr>tr_ownership := map_option f (tr_ownership s)\<rparr>"

fun ref_perform :: "nat \<Rightarrow> RefOp \<Rightarrow> TerminalRegistry \<Rightarrow> TerminalRegistry" where
  "ref_perform ttl (Ref_Row t row) s =
     (if is_running s t then s else s\<lparr>tr_terminals := fmupd t row (tr_terminals s)\<rparr>)"
| "ref_perform ttl (Ref_Binding loc) s = snd (claim_binding_phase s loc)"
| "ref_perform ttl (Ref_Lease loc h c now) s = snd (claim_session_ref_lease_phase ttl s loc h c now)"
| "ref_perform ttl (Ref_Pid loc h pid) s = set_session_ref_lease_pid s loc h pid"
| "ref_perform ttl (Ref_Complete loc h t) s = snd (complete_session_ref_claim s loc h t)"
| "ref_perform ttl (Ref_Fail loc h) s = fail_session_ref_claim s loc h"
| "ref_perform ttl (Ref_Conn c) s = snd (release_session_ref_leases_for_conn s c)"
| "ref_perform ttl (Ref_Force loc) s = force_release_after_confirmed_kill s loc"
| "ref_perform ttl (Ref_Gone t managed) s = snd (kill_row s t managed)"
| "ref_perform ttl (Ref_Exited t) s = snd (exit_row s t)"
| "ref_perform ttl (Ref_Release t) s = release_session_ref_ownership s t"
| "ref_perform ttl (Ref_Commit loc op g t now) s = snd (commit_session_ref_ownership s loc op g t now)"
| "ref_perform ttl (Ref_Rekey p old new op g t now) s =
     snd (commit_session_ref_ownership_rekey s \<lparr>loc_provider = p, loc_session_id = old\<rparr>
            \<lparr>loc_provider = p, loc_session_id = new\<rparr> op g t now)"
| "ref_perform ttl (Ref_Repair t g) s = snd (repair_restored_prior_ownership s t g)"
| "ref_perform ttl (Ref_Coord op) s = with_coordinator (coord_perform op) s"


lemmas ref_ops = claim_binding_phase_def claim_session_ref_lease_phase_def set_session_ref_lease_pid_def
  complete_session_ref_claim_def fail_session_ref_claim_def release_session_ref_leases_for_conn_def Let_def


text \<open>What the operations on coordinator claims leave alone.\<close>

lemma take_frame [simp]:
  "tr_session_ref_leases (snd (take_retained_ownership_claim s k)) = tr_session_ref_leases s"
  "tr_session_ref_bindings (snd (take_retained_ownership_claim s k)) = tr_session_ref_bindings s"
  "tr_terminals (snd (take_retained_ownership_claim s k)) = tr_terminals s"
  by (simp_all add: take_retained_ownership_claim_def)

lemma release_frame [simp]:
  "tr_session_ref_leases (release_session_ref_ownership s t) = tr_session_ref_leases s"
  "tr_session_ref_bindings (release_session_ref_ownership s t) = tr_session_ref_bindings s"
  "tr_terminals (release_session_ref_ownership s t) = tr_terminals s"
  by (simp_all add: release_session_ref_ownership_def take_retained_ownership_claims_for_terminal_def split: option.splits)

lemma commit_frame [simp]:
  "tr_session_ref_leases (snd (commit_session_ref_ownership s l op g t now)) = tr_session_ref_leases s"
  "tr_session_ref_bindings (snd (commit_session_ref_ownership s l op g t now)) = tr_session_ref_bindings s"
  "tr_terminals (snd (commit_session_ref_ownership s l op g t now)) = tr_terminals s"
  by (simp_all add: commit_session_ref_ownership_def split: option.splits prod.splits)

lemma rekey_frame [simp]:
  "tr_session_ref_leases (snd (commit_session_ref_ownership_rekey s l l' op g t now)) = tr_session_ref_leases s"
  "tr_session_ref_bindings (snd (commit_session_ref_ownership_rekey s l l' op g t now)) = tr_session_ref_bindings s"
  "tr_terminals (snd (commit_session_ref_ownership_rekey s l l' op g t now)) = tr_terminals s"
  by (simp_all add: commit_session_ref_ownership_rekey_def split: option.splits prod.splits)

lemma coordinator_frame [simp]:
  "tr_session_ref_leases (with_coordinator f s) = tr_session_ref_leases s"
  "tr_session_ref_bindings (with_coordinator f s) = tr_session_ref_bindings s"
  "tr_terminals (with_coordinator f s) = tr_terminals s"
  "tr_session_ref_ownership (with_coordinator f s) = tr_session_ref_ownership s"
  by (simp_all add: with_coordinator_def)

lemma repair_frame [simp]:
  "tr_session_ref_leases (snd (repair_restored_prior_ownership s t g)) = tr_session_ref_leases s"
  "tr_session_ref_bindings (snd (repair_restored_prior_ownership s t g)) = tr_session_ref_bindings s"
  "tr_terminals (snd (repair_restored_prior_ownership s t g)) = tr_terminals s"
  "tr_ownership (snd (repair_restored_prior_ownership s t g)) = tr_ownership s"
  by (simp_all add: repair_restored_prior_ownership_def split: list.splits prod.splits)

lemma force_frame [simp]:
  "tr_session_ref_leases (force_release_after_confirmed_kill s l) = fmdrop (session_ref_key l) (tr_session_ref_leases s)"
  "tr_session_ref_bindings (force_release_after_confirmed_kill s l) = tr_session_ref_bindings s"
  "tr_terminals (force_release_after_confirmed_kill s l) = tr_terminals s"
  by (simp_all add: force_release_defs take_retained_ownership_claim_def Let_def
      split: option.splits prod.splits)


lemma exit_frame [simp]:
  "tr_session_ref_leases (snd (exit_row s t)) = tr_session_ref_leases s"
  "tr_session_ref_bindings (snd (exit_row s t)) = tr_session_ref_bindings s"
  by (simp_all add: exit_row_def Let_def split: option.splits)




section \<open>One create at a time\<close>





section \<open>A live terminal owner runs\<close>

text \<open>The owner and generation of a key that a terminal holds.\<close>

definition terminal_owner_at :: "RuntimeOwnershipRegistry \<Rightarrow> SessionKey \<Rightarrow> (OwnerIdentity \<times> nat) option" where
  "terminal_owner_at reg key =
     (case get_record reg key of
        None \<Rightarrow> None
      | Some r \<Rightarrow>
          (case rec_state r of
             Live owner generation _ \<Rightarrow> if ow_kind owner = Terminal then Some (owner, generation) else None
           | _ \<Rightarrow> None))"

definition locator_of :: "SessionKey \<Rightarrow> SessionLocator" where
  "locator_of key = \<lparr>loc_provider = sk_provider key, loc_session_id = sk_session_id key\<rparr>"

text \<open>A session's name in the maps is its own as long as the provider has no NUL.\<close>

definition plain_locator :: "SessionLocator \<Rightarrow> bool" where
  "plain_locator locator = (CHR 0x00 \<notin> set (loc_provider locator))"

fun ref_valid :: "RefOp \<Rightarrow> bool" where
  "ref_valid (Ref_Commit loc op g t now) = plain_locator loc"
| "ref_valid (Ref_Rekey p old new op g t now) = (CHR 0x00 \<notin> set p)"
| "ref_valid (Ref_Force loc) = plain_locator loc"
| "ref_valid op = True"

text \<open>Whether the release that a death owes is still to come.\<close>

fun release_owed :: "string \<Rightarrow> RefOp \<Rightarrow> bool \<Rightarrow> bool" where
  "release_owed t (Ref_Gone t' managed) owed = (t = t' \<or> owed)"
| "release_owed t (Ref_Exited t') owed = (t = t' \<or> owed)"
| "release_owed t (Ref_Release t') owed = (t \<noteq> t' \<and> owed)"
| "release_owed t op owed = owed"

definition release_due :: "RefOp list \<Rightarrow> string \<Rightarrow> bool" where
  "release_due ops t = fold (release_owed t) ops False"

lemma separated_inj: "c \<notin> set p \<Longrightarrow> c \<notin> set q \<Longrightarrow> p @ c # x = q @ c # y \<Longrightarrow> p = q \<and> x = y"
proof (induction p arbitrary: q)
  case Nil
  then show ?case by (cases q) auto
next
  case (Cons a p)
  then show ?case by (cases q) auto
qed

lemma session_ref_key_eq [simp]:
  "plain_locator a \<Longrightarrow> plain_locator b \<Longrightarrow> session_ref_key a = session_ref_key b \<longleftrightarrow> a = b"
  unfolding session_ref_key_def plain_locator_def
  using separated_inj [of "CHR 0x00" "loc_provider a" "loc_provider b" "loc_session_id a" "loc_session_id b"] by auto

lemma locator_of_eq [simp]: "locator_of (SessionKey_new p i) = \<lparr>loc_provider = p, loc_session_id = i\<rparr>"
  by (simp add: locator_of_def)

lemma locator_of_iff: "locator_of key = loc \<longleftrightarrow> key = SessionKey_new (loc_provider loc) (loc_session_id loc)"
  by (cases key, cases loc) (auto simp: locator_of_def SessionKey_new_def)

lemma terminal_owner_at_put [simp]:
  "terminal_owner_at (put_record k r reg) key =
     (if key = k
      then (case rec_state r of Live owner g c \<Rightarrow> if ow_kind owner = Terminal then Some (owner, g) else None | _ \<Rightarrow> None)
      else terminal_owner_at reg key)"
  by (simp add: terminal_owner_at_def)

lemma terminal_owner_at_Some:
  "terminal_owner_at reg key = Some (owner, g) \<longleftrightarrow>
     (\<exists>r c. get_record reg key = Some r \<and> rec_state r = Live owner g c \<and> ow_kind owner = Terminal)"
  by (auto simp: terminal_owner_at_def split: option.splits OwnershipState.splits if_splits)

lemma terminal_owner_at_entry:
  "rec_state (entry_or_default reg key) = Live owner g c \<Longrightarrow> ow_kind owner = Terminal \<Longrightarrow>
     terminal_owner_at reg key = Some (owner, g)"
  by (auto simp: entry_or_default_def terminal_owner_at_Some split: option.splits)

text \<open>The keys whose prior owner a step may put back, or whose claim it repairs.\<close>

fun coord_restores :: "CoordOp \<Rightarrow> SessionKey set" where
  "coord_restores (Co_Abort p i op g now) = {SessionKey_new p i}"
| "coord_restores (Co_Fail p i op g live now) = (if live then {SessionKey_new p i} else {})"
| "coord_restores op = {}"

definition key_of :: "SessionLocator \<Rightarrow> SessionKey" where
  "key_of loc = SessionKey_new (loc_provider loc) (loc_session_id loc)"

fun restores :: "RefOp \<Rightarrow> TerminalRegistry \<Rightarrow> SessionKey set" where
  "restores (Ref_Coord op) s = coord_restores op"
| "restores (Ref_Repair t g) s = (case claims_of_terminal s t of [] \<Rightarrow> {} | (key, claim) # _ \<Rightarrow> {key_of (rso_locator claim)})"
| "restores op s = {}"

fun restored_keys :: "nat \<Rightarrow> RefOp list \<Rightarrow> TerminalRegistry \<Rightarrow> SessionKey set" where
  "restored_keys ttl [] s = {}"
| "restored_keys ttl (op # ops) s = restores op s \<union> restored_keys ttl ops (ref_perform ttl op s)"

text \<open>The other lanes' steps of the coordinator make no terminal an owner of another key.\<close>

lemma coord_owner:
  "terminal_owner_at (coord_perform op reg) key = Some x \<Longrightarrow> key \<notin> coord_restores op \<Longrightarrow> terminal_owner_at reg key = Some x"
  by (cases op)
    (auto simp: begin_ops stop_ops commit_live_def fail_def abort_stop_def Let_def dest: terminal_owner_at_entry
      split: if_splits option.splits OwnershipState.splits)

text \<open>What a release leaves of the owners.\<close>

lemma retained_matches:
  "runtime_matches (retained_runtime_identity claim) (release_claim_of claim)"
  "rc_generation (release_claim_of claim) = rso_generation claim"
  by (simp_all add: runtime_matches_def retained_runtime_identity_def release_claim_of_def)

lemma release_retained_owner:
  assumes "terminal_owner_at (release_retained claim reg) key = Some (owner, g)"
  shows "terminal_owner_at reg key = Some (owner, g)
    \<and> \<not> (locator_of key = rso_locator claim \<and> owner = retained_runtime_identity claim \<and> g = rso_generation claim)"
  using assms
  by (auto simp: release_retained_def release_def Let_def locator_of_iff retained_matches terminal_owner_at_Some
      split: option.splits OwnershipState.splits if_splits)

lemma release_all_owner:
  "terminal_owner_at (fold release_retained claims reg) key = Some (owner, g) \<Longrightarrow>
     terminal_owner_at reg key = Some (owner, g)
     \<and> (\<forall>claim \<in> set claims. \<not> (locator_of key = rso_locator claim \<and> owner = retained_runtime_identity claim
          \<and> g = rso_generation claim))"
  by (induction claims arbitrary: reg) (auto dest: release_retained_owner)

lemma force_release_owner:
  assumes "terminal_owner_at (force_release_for_confirmed_kill reg (loc_provider loc) (loc_session_id loc)
      (release_claim_of claim)) key = Some (owner, g)"
  shows "terminal_owner_at reg key = Some (owner, g)
    \<and> \<not> (locator_of key = loc \<and> owner = retained_runtime_identity claim \<and> g = rso_generation claim)"
  using assms
  by (auto simp: force_release_for_confirmed_kill_def Let_def locator_of_iff retained_matches terminal_owner_at_Some
      force_release_matched_def split: option.splits OwnershipState.splits if_splits)

text \<open>The invariant: every terminal owner is held by the retained claim of its key, and every retained claim
  stands at its key and belongs to a terminal that runs or whose release is due.\<close>

definition retained_at :: "TerminalRegistry \<Rightarrow> SessionKey \<Rightarrow> OwnerIdentity \<times> nat \<Rightarrow> bool" where
  "retained_at s key x =
     (case fmlookup (tr_session_ref_ownership s) (session_ref_key (locator_of key)) of
        None \<Rightarrow> False
      | Some claim \<Rightarrow> rso_locator claim = locator_of key \<and> x = (retained_runtime_identity claim, rso_generation claim))"

definition owners_retained :: "SessionKey set \<Rightarrow> TerminalRegistry \<Rightarrow> bool" where
  "owners_retained R s =
     (\<forall>reg key x. tr_ownership s = Some reg \<and> terminal_owner_at reg key = Some x \<and> key \<notin> R \<longrightarrow> retained_at s key x)"

definition claims_placed :: "TerminalRegistry \<Rightarrow> (string \<Rightarrow> bool) \<Rightarrow> bool" where
  "claims_placed s owed = (\<forall>key claim. fmlookup (tr_session_ref_ownership s) key = Some claim \<longrightarrow>
     key = session_ref_key (rso_locator claim) \<and> plain_locator (rso_locator claim)
     \<and> (is_pty_running s (rso_terminal_id claim) \<or> owed (rso_terminal_id claim)))"

lemma retained_at_iff:
  "retained_at s key (owner, g) \<longleftrightarrow>
     (\<exists>claim. fmlookup (tr_session_ref_ownership s) (session_ref_key (locator_of key)) = Some claim
        \<and> rso_locator claim = locator_of key \<and> owner = retained_runtime_identity claim \<and> g = rso_generation claim)"
  by (auto simp: retained_at_def split: option.splits)

lemma placed_plain:
  "claims_placed s owed \<Longrightarrow> fmlookup (tr_session_ref_ownership s) key = Some claim \<Longrightarrow> plain_locator (rso_locator claim)"
  by (simp add: claims_placed_def)

lemma retainedD:
  "owners_retained R s \<Longrightarrow> tr_ownership s = Some reg \<Longrightarrow> terminal_owner_at reg key = Some x \<Longrightarrow> key \<notin> R \<Longrightarrow> retained_at s key x"
  unfolding owners_retained_def by blast

lemma owners_retainedD:
  "owners_retained R s \<Longrightarrow> tr_ownership s = Some reg \<Longrightarrow> terminal_owner_at reg key = Some (owner, g) \<Longrightarrow> key \<notin> R \<Longrightarrow>
     \<exists>claim. fmlookup (tr_session_ref_ownership s) (session_ref_key (locator_of key)) = Some claim
        \<and> rso_locator claim = locator_of key \<and> owner = retained_runtime_identity claim \<and> g = rso_generation claim"
  using retainedD retained_at_iff by blast

lemma owners_retained_same:
  "owners_retained R s \<Longrightarrow> tr_session_ref_ownership s' = tr_session_ref_ownership s \<Longrightarrow>
     (\<And>reg'. tr_ownership s' = Some reg' \<Longrightarrow> \<exists>reg. tr_ownership s = Some reg
        \<and> (\<forall>key x. terminal_owner_at reg' key = Some x \<and> key \<notin> R \<longrightarrow> terminal_owner_at reg key = Some x)) \<Longrightarrow> owners_retained R s'"
  by (auto simp: owners_retained_def retained_at_def)

lemma same_owners:
  "owners_retained R s \<Longrightarrow> tr_ownership s' = tr_ownership s \<Longrightarrow>
     tr_session_ref_ownership s' = tr_session_ref_ownership s \<Longrightarrow> owners_retained R s'"
  by (auto simp: owners_retained_def retained_at_def)

lemma claims_of_terminal_iff:
  "(key, claim) \<in> set (claims_of_terminal s t) \<longleftrightarrow>
     fmlookup (tr_session_ref_ownership s) key = Some claim \<and> rso_terminal_id claim = t"
  by (auto simp: claims_of_terminal_def sorted_list_of_fmap_def fset_of_fmap_iff fmlookup_dom_iff)

lemma release_owners:
  assumes "owners_retained R s"
  shows "owners_retained R (release_session_ref_ownership s t)"
  unfolding owners_retained_def
proof (intro allI impI, elim conjE)
  fix reg' key x
  assume reg': "tr_ownership (release_session_ref_ownership s t) = Some reg'" and "terminal_owner_at reg' key = Some x" and free: "key \<notin> R"
  then obtain owner g where x: "x = (owner, g)" and own: "terminal_owner_at reg' key = Some (owner, g)"
    by (metis surj_pair)
  let ?claims = "map snd (claims_of_terminal s t)"
  obtain reg where reg: "tr_ownership s = Some reg" "reg' = fold release_retained ?claims reg"
    using reg' by (auto simp: release_session_ref_ownership_def take_retained_ownership_claims_for_terminal_def
        split: option.splits)
  have before: "terminal_owner_at reg key = Some (owner, g)"
    and kept: "\<forall>claim \<in> set ?claims. \<not> (locator_of key = rso_locator claim
      \<and> owner = retained_runtime_identity claim \<and> g = rso_generation claim)"
    using release_all_owner [of ?claims reg key owner g] own reg(2) by simp_all
  from owners_retainedD [OF assms reg(1) before free] obtain claim where
    claim: "fmlookup (tr_session_ref_ownership s) (session_ref_key (locator_of key)) = Some claim"
      "rso_locator claim = locator_of key" "owner = retained_runtime_identity claim" "g = rso_generation claim"
    by blast
  then have "claim \<notin> set ?claims" using kept by metis
  then have "session_ref_key (locator_of key) \<notin> set (map fst (claims_of_terminal s t))"
    using claim(1) by (force simp: claims_of_terminal_iff)
  then show "retained_at (release_session_ref_ownership s t) key x"
    using reg(1) claim
    by (simp add: x retained_at_iff release_session_ref_ownership_def take_retained_ownership_claims_for_terminal_def)
qed

text \<open>The steps keep the invariant.\<close>

lemma terminals_kept:
  "is_pty_running s t \<or> owed \<Longrightarrow> (\<forall>t'. op \<noteq> Ref_Release t') \<Longrightarrow>
     is_pty_running (ref_perform ttl op s) t \<or> release_owed t op owed"
  by (cases op) (auto simp: is_pty_running_def is_running_def ref_ops kill_row_def exit_row_def
      split: option.splits if_splits)

lemma release_taken:
  assumes "tr_ownership s \<noteq> None"
    and "fmlookup (tr_session_ref_ownership (release_session_ref_ownership s t)) key = Some claim"
  shows "fmlookup (tr_session_ref_ownership s) key = Some claim \<and> rso_terminal_id claim \<noteq> t"
proof -
  have "key \<notin> fst ` set (claims_of_terminal s t) \<and> fmlookup (tr_session_ref_ownership s) key = Some claim"
    using assms by (auto simp: release_session_ref_ownership_def take_retained_ownership_claims_for_terminal_def
        split: option.splits if_splits)
  moreover from this have "(key, claim) \<notin> set (claims_of_terminal s t)" by force
  ultimately show ?thesis by (simp add: claims_of_terminal_iff)
qed

lemma coordinator_kept:
  "tr_ownership s \<noteq> None \<Longrightarrow> tr_ownership (ref_perform ttl op s) \<noteq> None"
  by (cases op) (auto simp: ref_ops kill_row_def exit_row_def with_coordinator_def release_session_ref_ownership_def
      commit_session_ref_ownership_def commit_session_ref_ownership_rekey_def take_retained_ownership_claims_for_terminal_def
      force_release_defs take_retained_ownership_claim_def split: option.splits prod.splits)

lemma repair_claims:
  "fmlookup (tr_session_ref_ownership (snd (repair_restored_prior_ownership s t g))) key = Some claim \<Longrightarrow>
     \<exists>before. fmlookup (tr_session_ref_ownership s) key = Some before \<and> rso_locator before = rso_locator claim
       \<and> rso_terminal_id before = rso_terminal_id claim"
proof (cases "claims_of_terminal s t")
  case (Cons kc rest)
  obtain k c where kc: "kc = (k, c)" by fastforce
  then have "fmlookup (tr_session_ref_ownership s) k = Some c"
    using Cons claims_of_terminal_iff [of k c s t] by simp
  then show "fmlookup (tr_session_ref_ownership (snd (repair_restored_prior_ownership s t g))) key = Some claim \<Longrightarrow> ?thesis"
    using Cons kc by (auto simp: repair_restored_prior_ownership_def split: if_splits)
qed (simp add: repair_restored_prior_ownership_def)

lemma claims_placed_step:
  assumes "tr_ownership s \<noteq> None" and "claims_placed s owed" and "ref_valid op"
  shows "claims_placed (ref_perform ttl op s) (\<lambda>t. release_owed t op (owed t))"
proof (cases "\<exists>t. op = Ref_Release t")
  case True
  then obtain t where op: "op = Ref_Release t" by blast
  have "is_pty_running (release_session_ref_ownership s t) = is_pty_running s"
    by (rule ext) (simp add: is_pty_running_def)
  then show ?thesis
    using assms(2) by (auto simp: op claims_placed_def dest: release_taken [OF assms(1)])
next
  case False
  have "key = session_ref_key (rso_locator claim) \<and> plain_locator (rso_locator claim)
      \<and> (is_pty_running s (rso_terminal_id claim) \<or> owed (rso_terminal_id claim))"
    if look: "fmlookup (tr_session_ref_ownership (ref_perform ttl op s)) key = Some claim" for key claim
  proof (cases "\<exists>t g. op = Ref_Repair t g")
    case True
    then show ?thesis using look assms(2) repair_claims [of s _ _ key claim] unfolding claims_placed_def by fastforce
  next
    case other: False
    show ?thesis
      using look assms(2,3) False other
      by (cases op) (auto simp: claims_placed_def ref_ops kill_row_def exit_row_def
          commit_session_ref_ownership_def commit_session_ref_ownership_rekey_def retained_claim_def plain_locator_def
          force_release_defs take_retained_ownership_claim_def
          split: option.splits prod.splits if_splits)
  qed
  then show ?thesis
    using terminals_kept [of s _ "owed _" op ttl] False unfolding claims_placed_def by blast
qed

lemma commit_owner:
  assumes "commit_live reg p i op g owner now = (outcome, reg')" and "ow_ownership_id owner = Some op"
  shows "terminal_owner_at reg' key = Some x \<Longrightarrow>
    terminal_owner_at reg key = Some x \<and> \<not> (outcome = Committed \<and> key = SessionKey_new p i)
    \<or> outcome = Committed \<and> key = SessionKey_new p i \<and> x = (owner, g)"
  using assms by (auto simp: commit_live_def stamp_ownership_def Let_def split: if_splits option.splits)

lemma rekey_owner:
  assumes "commit_live_rekey_from_terminal reg p new op g old t owner now = (outcome, reg')"
  shows "terminal_owner_at reg' key = Some x \<Longrightarrow>
    terminal_owner_at reg key = Some x \<and> \<not> (outcome = Committed \<and> key \<in> {SessionKey_new p new, SessionKey_new p old})
    \<or> outcome = Committed \<and> key = SessionKey_new p new \<and> x = (owner, g)"
  using assms
  by (auto simp: commit_live_rekey_from_terminal_def Let_def split: if_splits option.splits OwnershipState.splits)

lemma retained_identity:
  "terminal_owner s op t = retained_runtime_identity (retained_claim s locator op g t)"
  by (simp add: terminal_owner_def retained_runtime_identity_def retained_claim_def)

lemma retained_claim_sel [simp]:
  "rso_locator (retained_claim s locator op g t) = locator"
  "rso_terminal_id (retained_claim s locator op g t) = t"
  "rso_generation (retained_claim s locator op g t) = g"
  "rso_operation_id (retained_claim s locator op g t) = op"
  by (simp_all add: retained_claim_def)

lemma locator_eta [simp]: "\<lparr>loc_provider = loc_provider loc, loc_session_id = loc_session_id loc\<rparr> = (loc :: SessionLocator)"
  by simp

text \<open>A step whose owners are old ones outside the keys it writes, or retained by it.\<close>

lemma owners_retained_write:
  assumes "owners_retained R s" and "claims_placed s owed" and "tr_ownership s = Some reg" and "tr_ownership s' = Some reg'"
    and "\<And>key x. terminal_owner_at reg' key = Some x \<Longrightarrow> key \<notin> R \<Longrightarrow>
      terminal_owner_at reg key = Some x \<and> locator_of key \<notin> written \<or> retained_at s' key x"
    and "\<And>loc. plain_locator loc \<Longrightarrow> loc \<notin> written \<Longrightarrow>
      fmlookup (tr_session_ref_ownership s') (session_ref_key loc) = fmlookup (tr_session_ref_ownership s) (session_ref_key loc)"
  shows "owners_retained R s'"
  unfolding owners_retained_def
proof (intro allI impI, elim conjE)
  fix reg'' key x
  assume "tr_ownership s' = Some reg''" and "terminal_owner_at reg'' key = Some x" and free: "key \<notin> R"
  then have "terminal_owner_at reg' key = Some x" using assms(4) by simp
  from assms(5) [OF this free] show "retained_at s' key x"
  proof
    assume old: "terminal_owner_at reg key = Some x \<and> locator_of key \<notin> written"
    then have r: "retained_at s key x" using retainedD [OF assms(1,3)] free by blast
    then have "plain_locator (locator_of key)"
      using placed_plain [OF assms(2)] by (metis retained_at_iff surj_pair)
    from assms(6) [OF this] old r show ?thesis by (simp add: retained_at_def)
  qed
qed

lemma commit_owners:
  assumes "owners_retained R s" and "claims_placed s owed" and "plain_locator loc"
  shows "owners_retained R (snd (commit_session_ref_ownership s loc op g t now))"
proof (cases "\<exists>reg. tr_ownership s = Some reg \<and> is_pty_running s t")
  case True
  then obtain reg where reg: "tr_ownership s = Some reg" "is_pty_running s t" by blast
  obtain outcome reg' where c:
    "commit_live reg (loc_provider loc) (loc_session_id loc) op g (terminal_owner s op t) now = (outcome, reg')"
    by (metis prod.collapse)
  have id: "ow_ownership_id (terminal_owner s op t) = Some op" by (simp add: terminal_owner_def)
  let ?s = "snd (commit_session_ref_ownership s loc op g t now)"
  have s': "?s = s\<lparr>tr_ownership := Some reg', tr_session_ref_ownership :=
      (if outcome = Committed then fmupd (session_ref_key loc) (retained_claim s loc op g t) (tr_session_ref_ownership s)
       else tr_session_ref_ownership s)\<rparr>"
    using reg c by (simp add: commit_session_ref_ownership_def)
  show ?thesis
  proof (rule owners_retained_write [OF assms(1,2) reg(1), where reg' = reg' and written = "if outcome = Committed then {loc} else {}"])
    show "tr_ownership ?s = Some reg'" by (simp add: s')
    show "terminal_owner_at reg key = Some x \<and> locator_of key \<notin> (if outcome = Committed then {loc} else {}) \<or> retained_at ?s key x"
      if "terminal_owner_at reg' key = Some x" "key \<notin> R" for key x
      using commit_owner [OF c id that(1)] by (auto simp: s' retained_at_def locator_of_iff retained_identity [of s op t loc g])
    show "fmlookup (tr_session_ref_ownership ?s) (session_ref_key l) = fmlookup (tr_session_ref_ownership s) (session_ref_key l)"
      if "plain_locator l" "l \<notin> (if outcome = Committed then {loc} else {})" for l
      using that assms(3) by (auto simp: s' split: if_splits)
  qed
next
  case False
  then have "snd (commit_session_ref_ownership s loc op g t now) = s"
    by (auto simp: commit_session_ref_ownership_def split: option.splits)
  then show ?thesis using assms(1) by simp
qed

lemma rekey_owners:
  assumes "owners_retained R s" and "claims_placed s owed" and "plain_locator new" and "loc_provider old = loc_provider new"
  shows "owners_retained R (snd (commit_session_ref_ownership_rekey s old new op g t now))"
proof (cases "\<exists>reg. tr_ownership s = Some reg \<and> is_pty_running s t")
  case True
  then obtain reg where reg: "tr_ownership s = Some reg" "is_pty_running s t" by blast
  obtain outcome reg' where c: "commit_live_rekey_from_terminal reg (loc_provider new) (loc_session_id new) op g
      (loc_session_id old) t (terminal_owner s op t) now = (outcome, reg')"
    by (metis prod.collapse)
  let ?s = "snd (commit_session_ref_ownership_rekey s old new op g t now)"
  let ?w = "if outcome = Committed then {old, new} else {}"
  have s': "?s = s\<lparr>tr_ownership := Some reg', tr_session_ref_ownership :=
      (if outcome = Committed then fmupd (session_ref_key new) (retained_claim s new op g t)
         (fmdrop (session_ref_key old) (tr_session_ref_ownership s))
       else tr_session_ref_ownership s)\<rparr>"
    using reg c by (simp add: commit_session_ref_ownership_rekey_def)
  show ?thesis
  proof (rule owners_retained_write [OF assms(1,2) reg(1), where reg' = reg' and written = ?w])
    show "tr_ownership ?s = Some reg'" by (simp add: s')
    show "terminal_owner_at reg key = Some x \<and> locator_of key \<notin> ?w \<or> retained_at ?s key x"
      if "terminal_owner_at reg' key = Some x" "key \<notin> R" for key x
    proof -
      have other: "locator_of key \<notin> ?w"
        if "\<not> (outcome = Committed
          \<and> key \<in> {SessionKey_new (loc_provider new) (loc_session_id new), SessionKey_new (loc_provider new) (loc_session_id old)})"
        using that assms(4) by (auto simp: locator_of_iff)
      from rekey_owner [OF c that(1)] show ?thesis
      proof (elim disjE conjE)
        assume "outcome = Committed" "key = SessionKey_new (loc_provider new) (loc_session_id new)" "x = (terminal_owner s op t, g)"
        then have "retained_at ?s key x" by (simp add: s' retained_at_def retained_identity [of s op t new g])
        then show ?thesis ..
      qed (use other in blast)
    qed
    show "fmlookup (tr_session_ref_ownership ?s) (session_ref_key l) = fmlookup (tr_session_ref_ownership s) (session_ref_key l)"
      if "plain_locator l" "l \<notin> ?w" for l
    proof -
      have "plain_locator old" using assms(3,4) by (simp add: plain_locator_def)
      with that assms(3) show ?thesis by (cases "outcome = Committed") (auto simp: s')
    qed
  qed
next
  case False
  then have "snd (commit_session_ref_ownership_rekey s old new op g t now) = s"
    by (auto simp: commit_session_ref_ownership_rekey_def split: option.splits)
  then show ?thesis using assms(1) by simp
qed

lemma force_owners:
  assumes "owners_retained R s" and "claims_placed s owed" and "plain_locator loc"
  shows "owners_retained R (force_release_after_confirmed_kill s loc)"
proof (cases "\<exists>reg claim. tr_ownership s = Some reg
    \<and> fmlookup (tr_session_ref_ownership s) (session_ref_key loc) = Some claim \<and> \<not> is_running s (rso_terminal_id claim)")
  case True
  then obtain reg claim where reg: "tr_ownership s = Some reg"
    and claim: "fmlookup (tr_session_ref_ownership s) (session_ref_key loc) = Some claim" "\<not> is_running s (rso_terminal_id claim)"
    by blast
  let ?reg = "force_release_for_confirmed_kill reg (loc_provider loc) (loc_session_id loc) (release_claim_of claim)"
  let ?s = "force_release_after_confirmed_kill s loc"
  have s': "?s = s\<lparr>tr_session_ref_leases := fmdrop (session_ref_key loc) (tr_session_ref_leases s),
      tr_session_ref_ownership := fmdrop (session_ref_key loc) (tr_session_ref_ownership s), tr_ownership := Some ?reg\<rparr>"
    using reg claim by (simp add: force_release_defs take_retained_ownership_claim_def is_running_def Let_def)
  show ?thesis
  proof (rule owners_retained_write [OF assms(1,2) reg, where reg' = ?reg and written = "{loc}"])
    show "tr_ownership ?s = Some ?reg" by (simp add: s')
    show "terminal_owner_at reg key = Some x \<and> locator_of key \<notin> {loc} \<or> retained_at ?s key x"
      if "terminal_owner_at ?reg key = Some x" "key \<notin> R" for key x
    proof -
      have old: "terminal_owner_at reg key = Some x"
        and differs: "\<not> (locator_of key = loc \<and> x = (retained_runtime_identity claim, rso_generation claim))"
        using that(1) force_release_owner [of reg loc claim key "fst x" "snd x"] by auto
      have "locator_of key \<noteq> loc"
      proof
        assume "locator_of key = loc"
        then show False
          using retainedD [OF assms(1) reg old that(2)] differs claim(1) by (cases x) (simp add: retained_at_def)
      qed
      with old show ?thesis by simp
    qed
    show "fmlookup (tr_session_ref_ownership ?s) (session_ref_key l) = fmlookup (tr_session_ref_ownership s) (session_ref_key l)"
      if "plain_locator l" "l \<notin> {loc}" for l
      using that assms(3) by (simp add: s')
  qed
next
  case False
  then have "tr_ownership (force_release_after_confirmed_kill s loc) = tr_ownership s"
    "tr_session_ref_ownership (force_release_after_confirmed_kill s loc) = tr_session_ref_ownership s"
    by (cases "tr_ownership s"; cases "fmlookup (tr_session_ref_ownership s) (session_ref_key loc)";
        simp add: force_release_defs Let_def is_running_def)+
  then show ?thesis by (rule same_owners [OF assms(1)])
qed

lemma repair_owners:
  assumes "owners_retained R s" and "claims_placed s owed" and "restores (Ref_Repair t g) s \<subseteq> R"
  shows "owners_retained R (snd (repair_restored_prior_ownership s t g))"
proof (cases "claims_of_terminal s t")
  case Nil
  then show ?thesis using assms(1) by (simp add: repair_restored_prior_ownership_def)
next
  case (Cons kc rest)
  obtain k claim where kc: "kc = (k, claim)" by fastforce
  let ?s = "snd (repair_restored_prior_ownership s t g)"
  have s': "?s = s\<lparr>tr_session_ref_ownership := fmupd k (claim\<lparr>rso_generation := g\<rparr>) (tr_session_ref_ownership s)\<rparr>"
    using Cons kc by (simp add: repair_restored_prior_ownership_def)
  have "(k, claim) \<in> set (claims_of_terminal s t)" using Cons kc by simp
  then have k: "k = session_ref_key (rso_locator claim)" "plain_locator (rso_locator claim)"
    using assms(2) unfolding claims_of_terminal_iff claims_placed_def by blast+
  have R: "key_of (rso_locator claim) \<in> R" using assms(3) Cons kc by simp
  have "retained_at ?s key x" if reg: "tr_ownership s = Some reg" and own: "terminal_owner_at reg key = Some x" "key \<notin> R" for reg key x
  proof -
    have r: "retained_at s key x" using retainedD [OF assms(1) reg own] .
    then have "plain_locator (locator_of key)" using placed_plain [OF assms(2)] by (metis retained_at_iff surj_pair)
    moreover have "locator_of key \<noteq> rso_locator claim" using R own(2) by (auto simp: locator_of_iff key_of_def)
    ultimately have "session_ref_key (locator_of key) \<noteq> k" using k by simp
    then show ?thesis using r by (simp add: s' retained_at_def)
  qed
  then show ?thesis unfolding owners_retained_def by simp
qed

lemma owners_retained_step:
  assumes "owners_retained R s" and "claims_placed s owed" and "ref_valid op" and "restores op s \<subseteq> R"
  shows "owners_retained R (ref_perform ttl op s)"
proof -
  note same = same_owners [OF assms(1)]
  show ?thesis
  proof (cases op)
    case (Ref_Coord c)
    then show ?thesis
      using assms(4) by (intro owners_retained_same [OF assms(1)]) (auto simp: with_coordinator_def dest: coord_owner)
  next
    case (Ref_Repair t g)
    then show ?thesis using repair_owners [OF assms(1,2)] assms(4) by simp
  next
    case (Ref_Release t)
    then show ?thesis using release_owners [OF assms(1)] by simp
  next
    case (Ref_Commit loc o' g t now)
    then show ?thesis using commit_owners [OF assms(1,2)] assms(3) by simp
  next
    case (Ref_Rekey p old new o' g t now)
    then show ?thesis using assms(3) rekey_owners [OF assms(1,2)] by (simp add: plain_locator_def)
  next
    case (Ref_Force loc)
    then show ?thesis using force_owners [OF assms(1,2)] assms(3) by simp
  qed (rule same; simp add: ref_ops kill_row_def exit_row_def split: option.splits)+
qed

lemma invariant_run:
  assumes "owners_retained R s" and "claims_placed s owed" and "tr_ownership s \<noteq> None" and "\<forall>op \<in> set ops. ref_valid op"
    and "restored_keys ttl ops s \<subseteq> R"
  shows "owners_retained R (fold (ref_perform ttl) ops s)
    \<and> claims_placed (fold (ref_perform ttl) ops s) (\<lambda>t. fold (release_owed t) ops (owed t))"
  using assms
proof (induction ops arbitrary: s owed)
  case (Cons op ops)
  have op: "ref_valid op" and ops: "\<forall>op \<in> set ops. ref_valid op" using Cons.prems(4) by simp_all
  have R: "restores op s \<subseteq> R" "restored_keys ttl ops (ref_perform ttl op s) \<subseteq> R" using Cons.prems(5) by simp_all
  from Cons.IH [OF owners_retained_step [OF Cons.prems(1,2) op R(1)] claims_placed_step [OF Cons.prems(3,2) op]
      coordinator_kept [OF Cons.prems(3)] ops R(2)]
  show ?case by simp
qed simp

lemma empty_registry:
  "owners_retained R (refs_new (Some (with_epoch epoch)))"
  "claims_placed (refs_new (Some (with_epoch epoch))) (\<lambda>t. False)"
  "tr_ownership (refs_new (Some (with_epoch epoch))) \<noteq> None"
  by (simp_all add: owners_retained_def claims_placed_def refs_new_def terminal_owner_at_def)

text \<open>C3: a terminal that the coordinator names as the live owner of a session is running, unless an owner was
  put back at that session. However the lanes interleave claims, commits, re-keys, handoffs, stops, aborts,
  failures, repairs, kills and exits, if the record of a session is live with a terminal owner, and no aborted
  stop, no failed handoff that restored its prior and no repair of a claim has touched that session, then the
  owner names a terminal whose process runs, or whose death has been marked and whose release has not been
  performed yet; and the generation is one the terminal's retained claim carries, so that release vacates the
  record.\<close>

theorem live_terminal_owner_runs:
  assumes "s = fold (ref_perform ttl) ops (refs_new (Some (with_epoch epoch)))" and "\<forall>op \<in> set ops. ref_valid op"
    and "tr_ownership s = Some reg" and "get_record reg (SessionKey_new provider session_id) = Some r"
    and "rec_state r = Live owner g since" and "ow_kind owner = Terminal"
    and "SessionKey_new provider session_id \<notin> restored_keys ttl ops (refs_new (Some (with_epoch epoch)))"
  shows "\<exists>t. ow_terminal_id owner = Some t \<and> (is_pty_running s t \<or> release_due ops t)
    \<and> (\<exists>reg'. tr_ownership (release_session_ref_ownership s t) = Some reg'
         \<and> terminal_owner_at reg' (SessionKey_new provider session_id) = None)"
proof -
  let ?key = "SessionKey_new provider session_id"
  let ?R = "restored_keys ttl ops (refs_new (Some (with_epoch epoch)))"
  have "owners_retained ?R s" "claims_placed s (release_due ops)"
    using invariant_run [OF empty_registry(1,2) _ assms(2) order_refl] assms(1)
    by (simp_all add: empty_registry release_due_def [abs_def])
  moreover have own: "terminal_owner_at reg ?key = Some (owner, g)"
    using assms(4-6) by (simp add: terminal_owner_at_def)
  ultimately obtain claim where claim: "fmlookup (tr_session_ref_ownership s) (session_ref_key (locator_of ?key)) = Some claim"
      "rso_locator claim = locator_of ?key" "owner = retained_runtime_identity claim" "g = rso_generation claim"
      and placed: "is_pty_running s (rso_terminal_id claim) \<or> release_due ops (rso_terminal_id claim)"
    using owners_retainedD [OF _ assms(3) own assms(7)] unfolding claims_placed_def by metis
  let ?t = "rso_terminal_id claim"
  let ?reg = "fold release_retained (map snd (claims_of_terminal s ?t)) reg"
  have "(session_ref_key (locator_of ?key), claim) \<in> set (claims_of_terminal s ?t)"
    using claim(1) by (simp add: claims_of_terminal_iff)
  then have "claim \<in> set (map snd (claims_of_terminal s ?t))" by force
  then have "terminal_owner_at ?reg ?key = None"
    using release_all_owner [of "map snd (claims_of_terminal s ?t)" reg ?key] own claim
    by (cases "terminal_owner_at ?reg ?key") fastforce+
  moreover have "tr_ownership (release_session_ref_ownership s ?t) = Some ?reg"
    using assms(3) by (simp add: release_session_ref_ownership_def take_retained_ownership_claims_for_terminal_def)
  moreover have "ow_terminal_id owner = Some ?t" using claim(3) by (simp add: retained_runtime_identity_def)
  ultimately show ?thesis using placed by blast
qed

section \<open>A release that looks before it takes\<close>

definition sample_locator :: SessionLocator where
  "sample_locator = \<lparr>loc_provider = ''p'', loc_session_id = ''s''\<rparr>"

definition sample_row :: TerminalRow where
  "sample_row = \<lparr>row_status = RunStatus_Running, row_mode = ''p'', row_resume_session_id = None, row_created_at = 1,
     row_pid = Some 7, row_managed = False\<rparr>"

definition sample_ops :: "RefOp list" where
  "sample_ops = [Ref_Row ''t'' sample_row, Ref_Coord (Co_Start ''p'' ''s'' Terminal ''o'' None ''i'' 1),
     Ref_Commit sample_locator ''o'' 1 ''t'' 2]"

text \<open>A terminal dies, a recovery lane looks and finds its claim dead; before the lane takes the claim, the
  kill path releases the key and a successor starts, commits and runs.\<close>

definition racing_ops :: "RefOp list" where
  "racing_ops = [Ref_Release ''t'', Ref_Row ''u'' sample_row,
     Ref_Coord (Co_Start ''p'' ''s'' Terminal ''o2'' None ''i'' 3), Ref_Commit sample_locator ''o2'' 2 ''u'' 4]"

text \<open>A confirmed-kill release can free a session whose terminal runs. The release looks whether the
  claim at the key belongs to a dead terminal, drops the lock, and then takes whatever claim stands there.
  When the kill path has released the key in between and a successor has committed, the release takes the
  successor's claim and vacates its key, with the successor running: the next start is granted a second
  writer.\<close>

theorem force_release_takes_successor:
  "let s = fold (ref_perform ttl) (sample_ops @ [Ref_Gone ''t'' False]) (refs_new (Some (with_epoch 1)));
       s' = force_release_take (fold (ref_perform ttl) racing_ops s) sample_locator
   in force_release_dead s sample_locator
      \<and> is_pty_running s' ''u'' \<and> fmlookup (tr_session_ref_ownership s') (session_ref_key sample_locator) = None
      \<and> map_option (\<lambda>reg. fst (begin_start reg ''p'' ''s'' Terminal ''o3'' None ''i'' 5)) (tr_ownership s')
          = Some (Granted 3)"
proof -
  let ?s0 = "fold (ref_perform ttl) (sample_ops @ [Ref_Gone ''t'' False]) (refs_new (Some (with_epoch 1)))"
  have one: "sorted_list_of_fmap (fmupd k v (fmempty :: (string, RetainedSessionRefOwnership) fmap)) = [(k, v)]" for k v
    by (simp add: sorted_list_of_fmap_def sorted_list_of_fset.rep_eq)
  show ?thesis
    by (simp add: one sample_ops_def racing_ops_def sample_row_def sample_locator_def refs_new_def is_running_def is_pty_running_def
        with_coordinator_def commit_session_ref_ownership_def commit_live_def begin_ops fence_is_stale_def entry_or_default_def
        terminal_owner_def stamp_ownership_def kill_row_def release_session_ref_ownership_def pid_of_def
        take_retained_ownership_claims_for_terminal_def claims_of_terminal_def retained_claim_def release_retained_def release_def
        runtime_matches_def release_claim_of_def retained_runtime_identity_def force_release_dead_def force_release_take_def
        take_retained_ownership_claim_def force_release_for_confirmed_kill_def force_release_matched_def session_ref_key_def
        current_generation_def snapshot_generation_def Let_def)
qed

text \<open>An aborted stop can put a dead terminal back for good. A kill's stop is granted; the terminal exits on its
  own, and its release finds no live record and drops the retained claim; the abort then restores the terminal
  as the live owner, and no claim is left whose release would vacate the session.\<close>

definition stop_exit_ops :: "RefOp list" where
  "stop_exit_ops = [Ref_Coord (Co_Stop ''p'' ''s'' ''k''
       \<lparr>sc_expected_kind = Terminal, sc_expected_runtime = None, sc_observed = \<lparr>of_epoch = 1, of_generation = 1\<rparr>\<rparr> ''i'' 3),
     Ref_Exited ''t'', Ref_Release ''t'', Ref_Coord (Co_Abort ''p'' ''s'' ''k'' 2 4)]"

lemma aborted_stop_revives_dead:
  "let s = fold (ref_perform ttl) (sample_ops @ stop_exit_ops) (refs_new (Some (with_epoch 1)))
   in \<not> is_pty_running s ''t'' \<and> tr_session_ref_ownership s = fmempty
      \<and> Option.bind (tr_ownership s) (\<lambda>reg. map_option (\<lambda>(owner, g). (ow_terminal_id owner, g))
            (terminal_owner_at reg (SessionKey_new ''p'' ''s''))) = Some (Some ''t'', 1)"
proof -
  have one: "sorted_list_of_fmap (fmupd k v (fmempty :: (string, RetainedSessionRefOwnership) fmap)) = [(k, v)]" for k v
    by (simp add: sorted_list_of_fmap_def sorted_list_of_fset.rep_eq)
  show ?thesis
    by (simp add: one sample_ops_def stop_exit_ops_def sample_row_def sample_locator_def refs_new_def is_running_def
        is_pty_running_def with_coordinator_def commit_session_ref_ownership_def commit_live_def begin_ops begin_stop_def
        abort_stop_def stop_identity_mismatch_def fence_is_stale_def entry_or_default_def terminal_owner_def
        stamp_ownership_def exit_row_def release_session_ref_ownership_def pid_of_def
        take_retained_ownership_claims_for_terminal_def claims_of_terminal_def retained_claim_def release_retained_def
        release_def runtime_matches_def release_claim_of_def retained_runtime_identity_def session_ref_key_def
        terminal_owner_at_Some terminal_owner_at_def fmdrop_fmupd_same Let_def)
qed

section \<open>Witnesses\<close>



theorem live_terminal_owner_runs_witness:
  "\<exists>reg r owner. tr_ownership (fold (ref_perform 20000) sample_ops (refs_new (Some (with_epoch 1)))) = Some reg
     \<and> get_record reg (SessionKey_new ''p'' ''s'') = Some r \<and> rec_state r = Live owner 1 2
     \<and> (\<exists>t. ow_terminal_id owner = Some t
        \<and> (is_pty_running (fold (ref_perform 20000) sample_ops (refs_new (Some (with_epoch 1)))) t \<or> release_due sample_ops t))"
proof -
  let ?s = "fold (ref_perform 20000) sample_ops (refs_new (Some (with_epoch 1)))"
  have valid: "\<forall>op \<in> set sample_ops. ref_valid op"
    by (simp add: sample_ops_def sample_locator_def plain_locator_def)
  have "\<exists>reg r owner. tr_ownership ?s = Some reg \<and> get_record reg (SessionKey_new ''p'' ''s'') = Some r
      \<and> rec_state r = Live owner 1 2 \<and> ow_kind owner = Terminal"
    by (simp add: sample_ops_def sample_row_def sample_locator_def refs_new_def is_running_def is_pty_running_def
        with_coordinator_def commit_session_ref_ownership_def commit_live_def begin_ops fence_is_stale_def entry_or_default_def
        terminal_owner_def stamp_ownership_def Let_def)
  then obtain reg r owner where r: "tr_ownership ?s = Some reg" "get_record reg (SessionKey_new ''p'' ''s'') = Some r"
      "rec_state r = Live owner 1 2" "ow_kind owner = Terminal"
    by blast
  have "SessionKey_new ''p'' ''s'' \<notin> restored_keys 20000 sample_ops (refs_new (Some (with_epoch 1)))"
    by (simp add: sample_ops_def)
  from live_terminal_owner_runs [OF refl valid r this] r(1-3) show ?thesis by blast
qed

end
