(* ===== verification/Create_Dedupe.thy ===== *)
theory Create_Dedupe
  imports Prelude "HOL-Library.Char_ord" "HOL-Library.List_Lexorder"
begin

text \<open>
  The guard against duplicate creates (crates/freshell-ws/src/create_dedupe.rs). A request id is in flight,
  with the connections that re-sent it waiting for its reply, or settled, with the reply kept for as long
  as its terminal runs. Sinks and sentinels are compared by address (\<open>Arc::ptr_eq\<close>), so both are numbers
  here, the sentinel's drawn fresh; its clock reading only feeds a log line. The probe of a terminal runs
  with the lock released, so the operations that probe are sequences of locked phases. The frame that a
  create settles with is a type parameter.
\<close>

section \<open>State\<close>

type_synonym sink = nat

record Waiter =
  wt_conn_id :: nat
  wt_sink :: sink

text \<open>\<open>InFlight origin waiters started\<close> and \<open>Settled terminal_id created restore\<close>.\<close>

datatype 'm DedupeEntry =
    InFlight sink "Waiter list" nat
  | Settled string 'm bool

datatype 'm DedupeDecision = Proceed | DuplicateInFlight | DuplicateSettled 'm

text \<open>What a waiter receives: the settled frame, or the error of \<open>waiter_error\<close> for the request.\<close>

datatype 'm Reply = Created 'm | Create_failed string

record 'm CreateDedupe =
  cd_entries :: "(string, 'm DedupeEntry) fmap"
  cd_fresh :: nat

definition dedupe_new :: "'m CreateDedupe" where
  "dedupe_new = \<lparr>cd_entries = fmempty, cd_fresh = 0\<rparr>"

definition canonical_restore :: "bool option \<Rightarrow> bool" where
  "canonical_restore restore = (restore = Some True)"

definition waiter_error :: "string \<Rightarrow> 'm Reply" where
  "waiter_error request_id = Create_failed request_id"

section \<open>Beginning a create\<close>

definition note_duplicate_in_flight :: "sink \<Rightarrow> nat \<Rightarrow> sink \<Rightarrow> Waiter list \<Rightarrow> Waiter list" where
  "note_duplicate_in_flight sink conn_id origin waiters =
     (let already_known = origin = sink \<or> list_ex (\<lambda>w. wt_sink w = sink) waiters
      in if already_known then waiters else waiters @ [\<lparr>wt_conn_id = conn_id, wt_sink = sink\<rparr>])"

definition add_waiter :: "string \<Rightarrow> sink \<Rightarrow> nat \<Rightarrow> 'm CreateDedupe \<Rightarrow> 'm CreateDedupe" where
  "add_waiter request_id sink conn_id s =
     (case fmlookup (cd_entries s) request_id of
        Some (InFlight origin waiters started) \<Rightarrow>
          s\<lparr>cd_entries := fmupd request_id
              (InFlight origin (note_duplicate_in_flight sink conn_id origin waiters) started) (cd_entries s)\<rparr>
      | _ \<Rightarrow> s)"

definition insert_sentinel :: "string \<Rightarrow> sink \<Rightarrow> 'm CreateDedupe \<Rightarrow> 'm CreateDedupe" where
  "insert_sentinel request_id sink s =
     s\<lparr>cd_entries := fmupd request_id (InFlight sink [] (cd_fresh s)) (cd_entries s), cd_fresh := cd_fresh s + 1\<rparr>"

text \<open>Phase 1: all but the question whether a settled terminal still runs.\<close>

definition begin_classify ::
  "string \<Rightarrow> sink \<Rightarrow> nat \<Rightarrow> 'm CreateDedupe \<Rightarrow> ('m DedupeDecision + string \<times> bool) \<times> 'm CreateDedupe" where
  "begin_classify request_id sink conn_id s =
     (case fmlookup (cd_entries s) request_id of
        Some (InFlight origin waiters started) \<Rightarrow>
          (Inl DuplicateInFlight, add_waiter request_id sink conn_id s)
      | Some (Settled terminal_id created restore) \<Rightarrow> (Inr (terminal_id, restore), s)
      | None \<Rightarrow> (Inl Proceed, insert_sentinel request_id sink s))"

text \<open>Phase 3: the decision, from the entry as it stands after the probe.\<close>

definition begin_decide ::
  "string \<Rightarrow> sink \<Rightarrow> bool option \<Rightarrow> string \<Rightarrow> bool \<Rightarrow> bool \<Rightarrow> nat \<Rightarrow> 'm CreateDedupe
   \<Rightarrow> 'm DedupeDecision \<times> 'm CreateDedupe" where
  "begin_decide request_id sink restore settled_tid settled_restore running conn_id s =
     (case fmlookup (cd_entries s) request_id of
        Some (InFlight origin waiters started) \<Rightarrow>
          (DuplicateInFlight, add_waiter request_id sink conn_id s)
      | Some (Settled terminal_id created now_restore) \<Rightarrow>
          (let unchanged = terminal_id = settled_tid \<and> now_restore = settled_restore in
           if unchanged
           then (if running \<and> settled_restore = canonical_restore restore
                 then (DuplicateSettled created, s) else (Proceed, insert_sentinel request_id sink s))
           else (if now_restore = canonical_restore restore
                 then (DuplicateSettled created, s) else (Proceed, insert_sentinel request_id sink s)))
      | None \<Rightarrow> (Proceed, insert_sentinel request_id sink s))"

definition begin_create ::
  "string \<Rightarrow> sink \<Rightarrow> bool option \<Rightarrow> (string \<Rightarrow> bool) \<Rightarrow> nat \<Rightarrow> 'm CreateDedupe
   \<Rightarrow> 'm DedupeDecision \<times> 'm CreateDedupe" where
  "begin_create request_id sink restore is_running conn_id s =
     (case begin_classify request_id sink conn_id s of
        (Inl decision, s') \<Rightarrow> (decision, s')
      | (Inr (settled_tid, settled_restore), s') \<Rightarrow>
          begin_decide request_id sink restore settled_tid settled_restore (is_running settled_tid) conn_id s')"

section \<open>Settling\<close>

definition waiters_of :: "'m DedupeEntry option \<Rightarrow> Waiter list" where
  "waiters_of entry = (case entry of Some (InFlight origin waiters started) \<Rightarrow> waiters | _ \<Rightarrow> [])"

text \<open>Phase 1: the entry is installed, the waiters are taken, the other settled entries listed.\<close>

definition settle_install ::
  "string \<Rightarrow> string \<Rightarrow> 'm \<Rightarrow> bool option \<Rightarrow> 'm CreateDedupe
   \<Rightarrow> (Waiter list \<times> (string \<times> string) list) \<times> 'm CreateDedupe" where
  "settle_install request_id terminal_id created restore s =
     (let entries = fmupd request_id (Settled terminal_id created (canonical_restore restore)) (cd_entries s);
          candidates = List.map_filter
            (\<lambda>(rid, e). case e of
                Settled tid m r \<Rightarrow> if rid \<noteq> request_id then Some (rid, tid) else None
              | InFlight origin ws started \<Rightarrow> None)
            (sorted_list_of_fmap entries)
      in ((waiters_of (fmlookup (cd_entries s) request_id), candidates), s\<lparr>cd_entries := entries\<rparr>))"

text \<open>Phase 3: the entries found dead leave, if they are still settled on the same terminal.\<close>

definition prune_one :: "string \<times> string \<Rightarrow> 'm CreateDedupe \<Rightarrow> 'm CreateDedupe" where
  "prune_one dead s =
     (case fmlookup (cd_entries s) (fst dead) of
        Some (Settled terminal_id created restore) \<Rightarrow>
          if terminal_id = snd dead then s\<lparr>cd_entries := fmdrop (fst dead) (cd_entries s)\<rparr> else s
      | _ \<Rightarrow> s)"

definition settle_prune :: "(string \<times> string) list \<Rightarrow> 'm CreateDedupe \<Rightarrow> 'm CreateDedupe" where
  "settle_prune dead s = fold prune_one dead s"

definition settle ::
  "string \<Rightarrow> string \<Rightarrow> 'm \<Rightarrow> bool option \<Rightarrow> (string \<Rightarrow> bool) \<Rightarrow> 'm CreateDedupe
   \<Rightarrow> (sink \<times> 'm Reply) list \<times> 'm CreateDedupe" where
  "settle request_id terminal_id created restore is_running s =
     (case settle_install request_id terminal_id created restore s of
        ((waiters, candidates), s1) \<Rightarrow>
          (let dead = filter (\<lambda>(rid, tid). \<not> is_running tid) candidates in
           (map (\<lambda>w. (wt_sink w, Created created)) waiters, settle_prune dead s1)))"

section \<open>Ending without settling\<close>

definition in_flight_generation :: "string \<Rightarrow> 'm CreateDedupe \<Rightarrow> nat option" where
  "in_flight_generation request_id s =
     (case fmlookup (cd_entries s) request_id of Some (InFlight origin waiters started) \<Rightarrow> Some started | _ \<Rightarrow> None)"

definition is_in_flight :: "string \<Rightarrow> 'm CreateDedupe \<Rightarrow> bool" where
  "is_in_flight request_id s =
     (case fmlookup (cd_entries s) request_id of Some (InFlight origin waiters started) \<Rightarrow> True | _ \<Rightarrow> False)"

definition clear_in_flight_generation ::
  "string \<Rightarrow> nat option \<Rightarrow> 'm CreateDedupe \<Rightarrow> (sink \<times> 'm Reply) list \<times> 'm CreateDedupe" where
  "clear_in_flight_generation request_id generation s =
     (let matched = (case fmlookup (cd_entries s) request_id of
                       Some (InFlight origin waiters started) \<Rightarrow>
                         (case generation of None \<Rightarrow> True | Some expected \<Rightarrow> started = expected)
                     | _ \<Rightarrow> False) in
      if matched
      then (map (\<lambda>w. (wt_sink w, waiter_error request_id)) (waiters_of (fmlookup (cd_entries s) request_id)),
            s\<lparr>cd_entries := fmdrop request_id (cd_entries s)\<rparr>)
      else ([], s))"

definition clear_if_in_flight :: "string \<Rightarrow> 'm CreateDedupe \<Rightarrow> (sink \<times> 'm Reply) list \<times> 'm CreateDedupe" where
  "clear_if_in_flight request_id s = clear_in_flight_generation request_id None s"

definition clear_matching_generation ::
  "string \<Rightarrow> nat \<Rightarrow> 'm CreateDedupe \<Rightarrow> (sink \<times> 'm Reply) list \<times> 'm CreateDedupe" where
  "clear_matching_generation request_id generation s = clear_in_flight_generation request_id (Some generation) s"

section \<open>Interleavings\<close>

text \<open>The locked phases as the steps of an execution; a probe's answer is an argument of the phase after it.\<close>

datatype 'm DedupeOp =
    Op_Classify string sink nat
  | Op_Decide string sink "bool option" string bool bool nat
  | Op_Install string string 'm "bool option"
  | Op_Prune "(string \<times> string) list"
  | Op_Clear string "nat option"

fun dedupe_perform :: "'m DedupeOp \<Rightarrow> 'm CreateDedupe \<Rightarrow> 'm CreateDedupe" where
  "dedupe_perform (Op_Classify i k c) s = snd (begin_classify i k c s)"
| "dedupe_perform (Op_Decide i k r tid tr run c) s = snd (begin_decide i k r tid tr run c s)"
| "dedupe_perform (Op_Install i t m r) s = snd (settle_install i t m r s)"
| "dedupe_perform (Op_Prune dead) s = settle_prune dead s"
| "dedupe_perform (Op_Clear i g) s = snd (clear_in_flight_generation i g s)"

text \<open>What a step decides, and for which request and sink.\<close>

fun dedupe_decision :: "'m DedupeOp \<Rightarrow> 'm CreateDedupe \<Rightarrow> (string \<times> sink \<times> 'm DedupeDecision) option" where
  "dedupe_decision (Op_Classify i k c) s =
     (case fst (begin_classify i k c s) of Inl d \<Rightarrow> Some (i, k, d) | Inr probe \<Rightarrow> None)"
| "dedupe_decision (Op_Decide i k r tid tr run c) s = Some (i, k, fst (begin_decide i k r tid tr run c s))"
| "dedupe_decision op s = None"

text \<open>The replies a step sends for a request.\<close>

fun dedupe_replies :: "string \<Rightarrow> 'm DedupeOp \<Rightarrow> 'm CreateDedupe \<Rightarrow> (sink \<times> 'm Reply) list" where
  "dedupe_replies rid (Op_Install i t m r) s =
     (if i = rid then map (\<lambda>w. (wt_sink w, Created m)) (fst (fst (settle_install i t m r s))) else [])"
| "dedupe_replies rid (Op_Clear i g) s = (if i = rid then fst (clear_in_flight_generation i g s) else [])"
| "dedupe_replies rid op s = []"

end
