(* ===== verification/Dedupe_Props.thy ===== *)
theory Dedupe_Props
  imports Create_Dedupe
begin

text \<open>
  What the duplicate guard promises, for every interleaving of the locked phases: one create in flight for
  a request id, one answer for every connection that waits, and replays of the right create only.
\<close>

section \<open>Runs\<close>

fun run_log :: "('m DedupeOp \<Rightarrow> 'm CreateDedupe \<Rightarrow> 'x list) \<Rightarrow> 'm DedupeOp list \<Rightarrow> 'm CreateDedupe \<Rightarrow> 'x list" where
  "run_log f [] s = []"
| "run_log f (op # ops) s = f op s @ run_log f ops (dedupe_perform op s)"

definition pending :: "string \<Rightarrow> 'm CreateDedupe \<Rightarrow> sink list" where
  "pending rid s = map wt_sink (waiters_of (fmlookup (cd_entries s) rid))"

definition origin_of :: "string \<Rightarrow> 'm CreateDedupe \<Rightarrow> sink option" where
  "origin_of rid s =
     (case fmlookup (cd_entries s) rid of Some (InFlight origin waiters started) \<Rightarrow> Some origin | _ \<Rightarrow> None)"

text \<open>The connection that a step makes wait for a request.\<close>

definition joins :: "string \<Rightarrow> 'm DedupeOp \<Rightarrow> 'm CreateDedupe \<Rightarrow> sink list" where
  "joins rid op s =
     (case dedupe_decision op s of
        Some (i, k, DuplicateInFlight) \<Rightarrow>
          if i = rid \<and> origin_of rid s \<noteq> Some k \<and> k \<notin> set (pending rid s) then [k] else []
      | _ \<Rightarrow> [])"

lemma run_log_append: "run_log f (ops @ ops') s = run_log f ops s @ run_log f ops' (fold dedupe_perform ops s)"
  by (induction ops arbitrary: s) simp_all

text \<open>A begin changes the state as its decision says.\<close>

fun decided :: "'m DedupeDecision \<Rightarrow> string \<Rightarrow> sink \<Rightarrow> nat \<Rightarrow> 'm CreateDedupe \<Rightarrow> 'm CreateDedupe" where
  "decided Proceed i k c s = insert_sentinel i k s"
| "decided DuplicateInFlight i k c s = add_waiter i k c s"
| "decided (DuplicateSettled m) i k c s = s"

lemma decide_decided:
  "snd (begin_decide i k r tid tr run c s) = decided (fst (begin_decide i k r tid tr run c s)) i k c s"
  by (simp add: begin_decide_def Let_def split: option.split DedupeEntry.split)

lemma classify_decided:
  "snd (begin_classify i k c s) = (case fst (begin_classify i k c s) of Inl d \<Rightarrow> decided d i k c s | Inr probe \<Rightarrow> s)"
  by (simp add: begin_classify_def split: option.split DedupeEntry.split)

lemma perform_begin:
  "dedupe_decision op s = Some (i, k, d) \<Longrightarrow> \<exists>c. dedupe_perform op s = decided d i k c s"
  by (cases op) (auto simp: decide_decided classify_decided split: sum.splits)

lemma decision_in_flight:
  "dedupe_decision op s = Some (i, k, d) \<Longrightarrow> d = DuplicateInFlight \<longleftrightarrow> is_in_flight i s"
  by (cases op) (auto simp: begin_decide_def begin_classify_def is_in_flight_def Let_def
      split: option.splits DedupeEntry.splits if_splits)

text \<open>The steps, seen from outside.\<close>

lemma step_cases:
  obtains (Begin) i k c d where "dedupe_decision op s = Some (i, k, d)" "dedupe_perform op s = decided d i k c s"
      "d = DuplicateInFlight \<longleftrightarrow> is_in_flight i s" "\<And>rid. dedupe_replies rid op s = []"
      "\<And>i t m r. op \<noteq> Op_Install i t m r" "\<And>i g. op \<noteq> Op_Clear i g"
  | (Probe) "dedupe_decision op s = None" "dedupe_perform op s = s" "\<And>rid. dedupe_replies rid op s = []"
      "\<And>i t m r. op \<noteq> Op_Install i t m r" "\<And>i g. op \<noteq> Op_Clear i g"
  | (Install) i t m r where "op = Op_Install i t m r"
  | (Prune) dead where "op = Op_Prune dead"
  | (Clear) i g where "op = Op_Clear i g"
proof (cases op)
  case (Op_Classify i k c)
  show thesis
  proof (cases "fst (begin_classify i k c s)")
    case (Inl d)
    then have "dedupe_decision op s = Some (i, k, d)" using Op_Classify by simp
    with Inl Op_Classify show thesis
      by (intro Begin [of i k d c]) (simp_all add: classify_decided decision_in_flight [of op s i k d])
  next
    case (Inr probe)
    with Op_Classify show thesis by (intro Probe) (simp_all add: classify_decided)
  qed
next
  case (Op_Decide i k r tid tr run c)
  then have "dedupe_decision op s = Some (i, k, fst (begin_decide i k r tid tr run c s))" by simp
  with Op_Decide show thesis
    by (intro Begin [of i k "fst (begin_decide i k r tid tr run c s)" c])
      (simp_all add: decide_decided decision_in_flight [of op s i k])
qed (use Install Prune Clear in blast)+

lemma prune_entry:
  "fmlookup (cd_entries (settle_prune dead s)) rid = fmlookup (cd_entries s) rid
   \<or> (\<exists>t m r. fmlookup (cd_entries s) rid = Some (Settled t m r)) \<and> fmlookup (cd_entries (settle_prune dead s)) rid = None"
proof (induction dead arbitrary: s)
  case (Cons d dead)
  have one: "fmlookup (cd_entries (prune_one d s)) rid = fmlookup (cd_entries s) rid
      \<or> (\<exists>t m r. fmlookup (cd_entries s) rid = Some (Settled t m r)) \<and> fmlookup (cd_entries (prune_one d s)) rid = None"
    by (auto simp: prune_one_def split: option.splits DedupeEntry.splits)
  have "settle_prune (d # dead) s = settle_prune dead (prune_one d s)" by (simp add: settle_prune_def)
  then show ?case using one Cons.IH [of "prune_one d s"] by metis
qed (simp add: settle_prune_def)

lemma prune_fresh [simp]: "cd_fresh (settle_prune dead s) = cd_fresh s"
proof (induction dead arbitrary: s)
  case (Cons d dead)
  have "cd_fresh (prune_one d s) = cd_fresh s"
    by (simp add: prune_one_def split: option.split DedupeEntry.split)
  then show ?case using Cons.IH [of "prune_one d s"] by (simp add: settle_prune_def)
qed (simp add: settle_prune_def)

lemma prune_pending [simp]: "pending rid (settle_prune dead s) = pending rid s"
  using prune_entry [of dead s rid] by (auto simp: pending_def waiters_of_def)

text \<open>What an entry shows, after each change.\<close>

definition settled_as :: "string \<Rightarrow> 'm CreateDedupe \<Rightarrow> (string \<times> 'm \<times> bool) option" where
  "settled_as rid s = (case fmlookup (cd_entries s) rid of Some (Settled t m r) \<Rightarrow> Some (t, m, r) | _ \<Rightarrow> None)"

lemmas entry_views = pending_def origin_of_def in_flight_generation_def settled_as_def is_in_flight_def waiters_of_def

lemma sentinel_views [simp]:
  "pending rid (insert_sentinel i k s) = (if rid = i then [] else pending rid s)"
  "origin_of rid (insert_sentinel i k s) = (if rid = i then Some k else origin_of rid s)"
  "in_flight_generation rid (insert_sentinel i k s) = (if rid = i then Some (cd_fresh s) else in_flight_generation rid s)"
  "settled_as rid (insert_sentinel i k s) = (if rid = i then None else settled_as rid s)"
  "cd_fresh (insert_sentinel i k s) = Suc (cd_fresh s)"
  by (simp_all add: entry_views insert_sentinel_def)

lemma waiter_views [simp]:
  "pending rid (add_waiter i k c s) = pending rid s
     @ (if rid = i \<and> is_in_flight i s \<and> origin_of i s \<noteq> Some k \<and> k \<notin> set (pending i s) then [k] else [])"
  "origin_of rid (add_waiter i k c s) = origin_of rid s"
  "in_flight_generation rid (add_waiter i k c s) = in_flight_generation rid s"
  "settled_as rid (add_waiter i k c s) = settled_as rid s"
  "cd_fresh (add_waiter i k c s) = cd_fresh s"
  by (auto simp: entry_views add_waiter_def note_duplicate_in_flight_def list_ex_iff Let_def
      split: option.splits DedupeEntry.splits)

lemma install_views [simp]:
  "pending rid (snd (settle_install i t m r s)) = (if rid = i then [] else pending rid s)"
  "origin_of rid (snd (settle_install i t m r s)) = (if rid = i then None else origin_of rid s)"
  "in_flight_generation rid (snd (settle_install i t m r s)) = (if rid = i then None else in_flight_generation rid s)"
  "settled_as rid (snd (settle_install i t m r s)) = (if rid = i then Some (t, m, canonical_restore r) else settled_as rid s)"
  "cd_fresh (snd (settle_install i t m r s)) = cd_fresh s"
  "map wt_sink (fst (fst (settle_install i t m r s))) = pending i s"
  by (simp_all add: entry_views settle_install_def Let_def)

lemma clear_views [simp]:
  "map fst (fst (clear_in_flight_generation i g s)) @ pending i (snd (clear_in_flight_generation i g s)) = pending i s"
  "settled_as rid (snd (clear_in_flight_generation i g s)) = settled_as rid s"
  "cd_fresh (snd (clear_in_flight_generation i g s)) = cd_fresh s"
  by (auto simp: entry_views clear_in_flight_generation_def waiter_error_def Let_def split: option.splits DedupeEntry.splits)

lemma clear_other [simp]:
  "rid \<noteq> i \<Longrightarrow> pending rid (snd (clear_in_flight_generation i g s)) = pending rid s"
  by (simp add: pending_def clear_in_flight_generation_def Let_def)

lemma clear_generation [simp]:
  "in_flight_generation rid (snd (clear_in_flight_generation i g s)) =
     (if rid = i \<and> (g = None \<or> g = in_flight_generation i s) then None else in_flight_generation rid s)"
  by (cases g) (auto simp: entry_views clear_in_flight_generation_def Let_def split: option.splits DedupeEntry.splits)

lemma in_flight_iff: "is_in_flight rid s \<longleftrightarrow> in_flight_generation rid s \<noteq> None"
  by (simp add: entry_views split: option.split DedupeEntry.split)

lemma not_in_flight [simp]: "\<not> is_in_flight rid s \<Longrightarrow> pending rid s = []" "\<not> is_in_flight rid s \<Longrightarrow> origin_of rid s = None"
  by (auto simp: entry_views split: option.splits DedupeEntry.splits)

lemma prune_views [simp]:
  "pending rid (settle_prune dead s) = pending rid s"
  "in_flight_generation rid (settle_prune dead s) = in_flight_generation rid s"
  using prune_entry [of dead s rid] by (auto simp: entry_views)

lemma prune_settled: "settled_as rid (settle_prune dead s) = Some x \<Longrightarrow> settled_as rid s = Some x"
  using prune_entry [of dead s rid] by (auto simp: settled_as_def)

section \<open>Every waiter is answered\<close>

lemma step_answers:
  "map fst (dedupe_replies rid op s) @ pending rid (dedupe_perform op s) = pending rid s @ joins rid op s"
proof (cases rule: step_cases [of op s])
  case (Begin i k c d)
  then show ?thesis by (cases d) (auto simp: joins_def)
next
  case (Install i t m r)
  have "map fst (map (\<lambda>w. (wt_sink w, Created m)) ws) = map wt_sink ws" for ws by simp
  then show ?thesis using Install by (simp add: joins_def comp_def)
next
  case (Clear i g)
  then show ?thesis by (cases "i = rid") (simp_all add: joins_def)
qed (simp_all add: joins_def)

lemma run_answers:
  "map fst (run_log (dedupe_replies rid) ops s) @ pending rid (fold dedupe_perform ops s) =
     pending rid s @ run_log (joins rid) ops s"
proof (induction ops arbitrary: s)
  case (Cons op ops)
  have "map fst (run_log (dedupe_replies rid) (op # ops) s) @ pending rid (fold dedupe_perform (op # ops) s) =
      (map fst (dedupe_replies rid op s) @ pending rid (dedupe_perform op s)) @ run_log (joins rid) ops (dedupe_perform op s)"
    by (simp add: Cons.IH)
  then show ?case by (simp add: step_answers)
qed simp

lemma reply_content:
  "(k, reply) \<in> set (run_log (dedupe_replies rid) ops s) \<Longrightarrow>
     reply = waiter_error rid \<or> (\<exists>t m r. Op_Install rid t m r \<in> set ops \<and> reply = Created m)"
proof (induction ops arbitrary: s)
  case (Cons op ops)
  then consider "(k, reply) \<in> set (dedupe_replies rid op s)"
    | "(k, reply) \<in> set (run_log (dedupe_replies rid) ops (dedupe_perform op s))"
    by auto
  then show ?case
  proof cases
    case 1
    then show ?thesis by (cases op) (auto simp: clear_in_flight_generation_def Let_def split: if_splits)
  next
    case 2
    from Cons.IH [OF this] show ?thesis by auto
  qed
qed simp

lemma duplicate_waits:
  assumes "dedupe_decision op s = Some (rid, k, DuplicateInFlight)"
  shows "origin_of rid (dedupe_perform op s) = Some k \<or> k \<in> set (pending rid (dedupe_perform op s))"
proof -
  have "is_in_flight rid s" using decision_in_flight [OF assms] by simp
  moreover obtain c where "dedupe_perform op s = add_waiter rid k c s" using perform_begin [OF assms] by auto
  ultimately show ?thesis by auto
qed

text \<open>C10: no connection that re-sends a create is left in silence, and none is answered twice. Whatever the
  interleaving of begins, settles, clean-ups and prunes, the connections that were made to wait for a
  request id are, in order, those that have been answered followed by those that still wait behind the
  create in flight; a connection told that its create is in flight is that create's own or waits behind
  it; and every answer is the frame of a settled create of this request or its failure.\<close>

theorem every_waiter_answered_once:
  "map fst (run_log (dedupe_replies rid) ops dedupe_new) @ pending rid (fold dedupe_perform ops dedupe_new)
     = run_log (joins rid) ops dedupe_new
   \<and> (\<not> is_in_flight rid (fold dedupe_perform ops dedupe_new) \<longrightarrow>
        map fst (run_log (dedupe_replies rid) ops dedupe_new) = run_log (joins rid) ops dedupe_new)
   \<and> (\<forall>op k. dedupe_decision op (fold dedupe_perform ops dedupe_new) = Some (rid, k, DuplicateInFlight) \<longrightarrow>
        origin_of rid (fold dedupe_perform (ops @ [op]) dedupe_new) = Some k
        \<or> k \<in> set (pending rid (fold dedupe_perform (ops @ [op]) dedupe_new)))
   \<and> (\<forall>k reply. (k, reply) \<in> set (run_log (dedupe_replies rid) ops dedupe_new) \<longrightarrow>
        reply = waiter_error rid \<or> (\<exists>t m r. Op_Install rid t m r \<in> set ops \<and> reply = Created m))"
proof -
  have all: "map fst (run_log (dedupe_replies rid) ops dedupe_new) @ pending rid (fold dedupe_perform ops dedupe_new)
      = run_log (joins rid) ops dedupe_new"
    using run_answers [of rid ops dedupe_new] by (simp add: pending_def dedupe_new_def waiters_of_def)
  then show ?thesis
    using reply_content [of _ _ rid ops dedupe_new] duplicate_waits [of _ "fold dedupe_perform ops dedupe_new" rid] by auto
qed

section \<open>One create in flight\<close>

definition generations_old :: "'m CreateDedupe \<Rightarrow> bool" where
  "generations_old s = (\<forall>rid g. in_flight_generation rid s = Some g \<longrightarrow> g < cd_fresh s)"

lemma fresh_mono: "cd_fresh s \<le> cd_fresh (dedupe_perform op s)"
proof (cases rule: step_cases [of op s])
  case (Begin i k c d)
  then show ?thesis by (cases d) simp_all
qed simp_all

lemma fresh_mono_run: "cd_fresh s \<le> cd_fresh (fold dedupe_perform ops s)"
  by (induction ops arbitrary: s) (auto intro: order_trans fresh_mono)

lemma step_generation:
  "in_flight_generation rid (dedupe_perform op s) = Some g \<Longrightarrow>
     in_flight_generation rid s = Some g \<or> g = cd_fresh s \<and> cd_fresh (dedupe_perform op s) = Suc (cd_fresh s)"
proof (cases rule: step_cases [of op s])
  case (Begin i k c d)
  then show "in_flight_generation rid (dedupe_perform op s) = Some g \<Longrightarrow> ?thesis" by (cases d) (auto split: if_splits)
qed (auto split: if_splits)

lemma generations_step: "generations_old s \<Longrightarrow> generations_old (dedupe_perform op s)"
  unfolding generations_old_def using step_generation fresh_mono [of s op] by (metis lessI less_le_trans)

lemma generations_run: "generations_old s \<Longrightarrow> generations_old (fold dedupe_perform ops s)"
  by (induction ops arbitrary: s) (auto intro: generations_step)

text \<open>The steps that end the create of a request id that runs under a generation.\<close>

fun ends_create :: "string \<Rightarrow> nat \<Rightarrow> 'm DedupeOp \<Rightarrow> bool" where
  "ends_create rid g (Op_Install i t m r) = (i = rid)"
| "ends_create rid g (Op_Clear i g') = (i = rid \<and> (g' = None \<or> g' = Some g))"
| "ends_create rid g op = False"

lemma create_continues:
  assumes "in_flight_generation rid s = Some g" and "\<not> ends_create rid g op"
  shows "in_flight_generation rid (dedupe_perform op s) = Some g"
proof (cases rule: step_cases [of op s])
  case (Begin i k c d)
  then have "d = DuplicateInFlight \<or> i \<noteq> rid" using assms(1) by (auto simp: in_flight_iff)
  then show ?thesis using Begin assms(1) by (cases d) auto
qed (use assms in auto)

lemma create_continues_run:
  "in_flight_generation rid s = Some g \<Longrightarrow> \<forall>op \<in> set ops. \<not> ends_create rid g op \<Longrightarrow>
     in_flight_generation rid (fold dedupe_perform ops s) = Some g"
  by (induction ops arbitrary: s) (auto intro: create_continues)

lemma in_flight_decision:
  "in_flight_generation rid s = Some g \<Longrightarrow> dedupe_decision op s = Some (rid, k, d) \<Longrightarrow> d = DuplicateInFlight"
  using decision_in_flight [of op s rid k d] by (simp add: in_flight_iff)

lemma proceed_generation:
  "dedupe_decision op s = Some (rid, k, Proceed) \<Longrightarrow> in_flight_generation rid (dedupe_perform op s) = Some (cd_fresh s)"
  using perform_begin [of op s rid k Proceed] by auto

text \<open>C25: a request id has one create in flight. When a begin is told to proceed, a sentinel stands for it, with
  a generation that no attempt before had, for any id; and until that create settles or is cleaned up, the
  sentinel stays and every other begin of the id, in whatever phase, is told that it is a duplicate. A worker
  that cleans up late, with the generation of an earlier attempt, does not end it.\<close>

theorem one_create_in_flight:
  assumes "s = fold dedupe_perform before dedupe_new" and "dedupe_decision op s = Some (rid, k, Proceed)"
  shows "\<exists>g. in_flight_generation rid (dedupe_perform op s) = Some g
    \<and> (\<forall>old rest i. before = old @ rest \<longrightarrow> in_flight_generation i (fold dedupe_perform old dedupe_new) \<noteq> Some g)
    \<and> (\<forall>between. (\<forall>op \<in> set between. \<not> ends_create rid g op) \<longrightarrow>
         in_flight_generation rid (fold dedupe_perform between (dedupe_perform op s)) = Some g
         \<and> (\<forall>op' k' d. dedupe_decision op' (fold dedupe_perform between (dedupe_perform op s)) = Some (rid, k', d)
              \<longrightarrow> d = DuplicateInFlight))"
proof -
  let ?g = "cd_fresh s"
  have g: "in_flight_generation rid (dedupe_perform op s) = Some ?g" using proceed_generation [OF assms(2)] by simp
  have "in_flight_generation i (fold dedupe_perform old dedupe_new) \<noteq> Some ?g" if "before = old @ rest" for old rest i
  proof -
    have "generations_old (fold dedupe_perform old dedupe_new)"
      by (rule generations_run) (simp add: generations_old_def in_flight_generation_def dedupe_new_def)
    moreover have "cd_fresh (fold dedupe_perform old dedupe_new) \<le> ?g"
      using fresh_mono_run [of "fold dedupe_perform old dedupe_new" rest] by (simp add: assms(1) that)
    ultimately show ?thesis unfolding generations_old_def by (metis leD)
  qed
  moreover have "in_flight_generation rid (fold dedupe_perform between (dedupe_perform op s)) = Some ?g"
    if "\<forall>op \<in> set between. \<not> ends_create rid ?g op" for between
    using create_continues_run [OF g that] .
  ultimately show ?thesis using g in_flight_decision by blast
qed

section \<open>Replays\<close>

lemma step_settled:
  assumes "settled_as rid (dedupe_perform op s) = Some (t, m, r)"
  shows "(\<exists>restore. op = Op_Install rid t m restore \<and> r = canonical_restore restore)
    \<or> settled_as rid s = Some (t, m, r) \<and> (\<forall>t' m' r'. op \<noteq> Op_Install rid t' m' r')"
proof (cases rule: step_cases [of op s])
  case (Begin i k c d)
  then show ?thesis using assms by (cases d) (auto split: if_splits)
next
  case (Prune dead)
  then show ?thesis using assms by (auto dest: prune_settled)
qed (use assms in \<open>auto split: if_splits\<close>)

lemma run_settled:
  "settled_as rid (fold dedupe_perform ops dedupe_new) = Some (t, m, r) \<Longrightarrow>
     \<exists>before restore after. ops = before @ Op_Install rid t m restore # after \<and> r = canonical_restore restore
       \<and> (\<forall>t' m' r'. Op_Install rid t' m' r' \<notin> set after)"
proof (induction ops rule: rev_induct)
  case Nil
  then show ?case by (simp add: settled_as_def dedupe_new_def)
next
  case (snoc op ops)
  from step_settled [of rid op "fold dedupe_perform ops dedupe_new" t m r] snoc.prems
  consider restore where "op = Op_Install rid t m restore" "r = canonical_restore restore"
    | "settled_as rid (fold dedupe_perform ops dedupe_new) = Some (t, m, r)" "\<forall>t' m' r'. op \<noteq> Op_Install rid t' m' r'"
    by auto
  then show ?case
  proof cases
    case 1
    then show ?thesis by fastforce
  next
    case 2
    from snoc.IH [OF 2(1)] obtain before restore after where
      "ops = before @ Op_Install rid t m restore # after" "r = canonical_restore restore"
      "\<forall>t' m' r'. Op_Install rid t' m' r' \<notin> set after"
      by blast
    then have "ops @ [op] = before @ Op_Install rid t m restore # (after @ [op])"
      "\<forall>t' m' r'. Op_Install rid t' m' r' \<notin> set (after @ [op])"
      using 2(2) by auto
    then show ?thesis using \<open>r = canonical_restore restore\<close> by blast
  qed
qed

text \<open>A replay is the right create's. When a begin is answered with a stored frame, the frame is the
  one that the last settle of this request id stored, the re-sent request asks for the same restore as
  the settled one did (an absent flag and an explicit false count as the same), and the terminal was found
  running by the probe, unless the id was settled anew, with another terminal or flag, while the probe ran.\<close>

theorem replay_is_last_settled:
  assumes "s = fold dedupe_perform ops dedupe_new"
    and "fst (begin_decide rid k restore settled_tid settled_restore running conn s) = DuplicateSettled m"
  shows "\<exists>before t flag after. ops = before @ Op_Install rid t m flag # after
    \<and> (\<forall>t' m' r'. Op_Install rid t' m' r' \<notin> set after)
    \<and> (flag = Some True \<longleftrightarrow> restore = Some True)
    \<and> (t = settled_tid \<and> (flag = Some True \<longleftrightarrow> settled_restore) \<longrightarrow> running)"
proof -
  obtain t r where "settled_as rid s = Some (t, m, r)" and r: "r = canonical_restore restore"
    and run: "t = settled_tid \<and> r = settled_restore \<longrightarrow> running"
    using assms(2) by (auto simp: settled_as_def begin_decide_def Let_def split: option.splits DedupeEntry.splits if_splits)
  then have "settled_as rid (fold dedupe_perform ops dedupe_new) = Some (t, m, r)" using assms(1) by simp
  from run_settled [OF this] obtain before flag after where
    split: "ops = before @ Op_Install rid t m flag # after" "r = canonical_restore flag"
      "\<forall>t' m' r'. Op_Install rid t' m' r' \<notin> set after"
    by blast
  moreover have "flag = Some True \<longleftrightarrow> restore = Some True" using r split(2) by (simp add: canonical_restore_def)
  moreover have "t = settled_tid \<and> (flag = Some True \<longleftrightarrow> settled_restore) \<longrightarrow> running"
    using run split(2) by (simp add: canonical_restore_def)
  ultimately show ?thesis by (intro exI conjI) assumption+
qed

section \<open>Witnesses\<close>

definition sample_run :: "bool DedupeOp list" where
  "sample_run = [Op_Classify ''r'' 1 10, Op_Classify ''r'' 2 20, Op_Install ''r'' ''t'' True None]"

theorem every_waiter_answered_once_witness:
  "map fst (run_log (dedupe_replies ''r'') sample_run dedupe_new) = [2]"
proof -
  have "\<not> is_in_flight ''r'' (fold dedupe_perform sample_run dedupe_new)"
    by (simp add: sample_run_def in_flight_iff)
  moreover have "run_log (joins ''r'') sample_run dedupe_new = [2]"
    by (simp add: sample_run_def joins_def begin_classify_def insert_sentinel_def dedupe_new_def origin_of_def pending_def
        waiters_of_def)
  ultimately show ?thesis using every_waiter_answered_once [of "''r''" sample_run] by simp
qed

definition sample_dedupe :: "bool CreateDedupe" where
  "sample_dedupe = fold dedupe_perform [Op_Classify ''r'' 2 20, Op_Clear ''r'' (Some 7)]
     (dedupe_perform (Op_Classify ''r'' 1 10) dedupe_new)"

theorem one_create_in_flight_witness:
  "fst (begin_decide ''r'' 3 None ''t'' False True 30 sample_dedupe) = DuplicateInFlight
   \<and> in_flight_generation ''r'' sample_dedupe = Some 0"
proof -
  have first: "dedupe_decision (Op_Classify ''r'' 1 10) dedupe_new = Some (''r'', 1, Proceed :: bool DedupeDecision)"
    by (simp add: begin_classify_def dedupe_new_def)
  have start: "dedupe_new = fold dedupe_perform [] (dedupe_new :: bool CreateDedupe)" by simp
  obtain g where g: "in_flight_generation ''r'' (dedupe_perform (Op_Classify ''r'' 1 10) (dedupe_new :: bool CreateDedupe)) = Some g"
    and stays: "\<And>between. \<forall>op \<in> set between. \<not> ends_create ''r'' g (op :: bool DedupeOp) \<Longrightarrow>
      in_flight_generation ''r'' (fold dedupe_perform between (dedupe_perform (Op_Classify ''r'' 1 10) dedupe_new)) = Some g
      \<and> (\<forall>op' k' d. dedupe_decision op' (fold dedupe_perform between (dedupe_perform (Op_Classify ''r'' 1 10) dedupe_new))
            = Some (''r'', k', d) \<longrightarrow> d = DuplicateInFlight)"
    using one_create_in_flight [OF start first] by blast
  have "g = 0" using g proceed_generation [OF first] by (simp add: dedupe_new_def)
  then have calm: "\<forall>op \<in> set [Op_Classify ''r'' 2 20, Op_Clear ''r'' (Some 7)]. \<not> ends_create ''r'' g (op :: bool DedupeOp)"
    by simp
  have "dedupe_decision (Op_Decide ''r'' 3 None ''t'' False True 30) sample_dedupe
      = Some (''r'', 3, fst (begin_decide ''r'' 3 None ''t'' False True 30 sample_dedupe))"
    by simp
  then show ?thesis
    using stays [OF calm, folded sample_dedupe_def] \<open>g = 0\<close> by blast
qed

theorem replay_is_last_settled_witness:
  "\<exists>before t flag after. [Op_Classify ''r'' 1 10, Op_Install ''r'' ''t'' True None] = before @ Op_Install ''r'' t True flag # after"
proof -
  have "fst (begin_decide ''r'' 2 (Some False) ''t'' False True 20
      (fold dedupe_perform [Op_Classify ''r'' 1 10, Op_Install ''r'' ''t'' True None] dedupe_new)) = DuplicateSettled True"
    by (simp add: begin_classify_def insert_sentinel_def settle_install_def begin_decide_def dedupe_new_def
        canonical_restore_def Let_def)
  from replay_is_last_settled [OF refl this] show ?thesis by blast
qed

end
