(* ===== verification/Alarm_Clock.thy ===== *)
theory Alarm_Clock
  imports Prelude
begin

text \<open>
  The contract of a timer-free state machine: it keeps one state per key, says when it next has something
  to do, and is swept at that instant. A caller that sleeps until the reported instant misses nothing, and
  one that sweeps again while the instant has passed does not spin. Both are proved here once, from what
  the machine promises of a single state. The order in which a sweep visits the keys is an argument.
\<close>

section \<open>Sweeping a map\<close>

fun sweep_states :: "('k \<Rightarrow> 'v \<Rightarrow> 'v \<times> 'e list) \<Rightarrow> 'k list \<Rightarrow> ('k, 'v) fmap \<Rightarrow> ('k, 'v) fmap \<times> 'e list" where
  "sweep_states f [] m = (m, [])"
| "sweep_states f (k # ks) m =
     (case fmlookup m k of
        None \<Rightarrow> sweep_states f ks m
      | Some v \<Rightarrow>
          (let (v', out) = f k v; (m', outs) = sweep_states f ks (fmupd k v' m)
           in (m', out @ outs)))"

definition enumerates :: "'k list \<Rightarrow> ('k, 'v) fmap \<Rightarrow> bool" where
  "enumerates order m = (distinct order \<and> set order = fset (fmdom m))"

lemma enumerates_lookup: "enumerates order m \<Longrightarrow> k \<in> set order \<longleftrightarrow> fmlookup m k \<noteq> None"
  by (simp add: enumerates_def fmlookup_dom_iff)

lemma sweep_states_dom: "fmdom (fst (sweep_states f ks m)) = fmdom m"
proof (induction ks arbitrary: m)
  case (Cons k ks)
  show ?case
  proof (cases "fmlookup m k")
    case (Some v)
    then have "fmdom (fmupd k v' m) = fmdom m" for v'
      by (auto intro: fmdomI)
    then show ?thesis using Some Cons.IH by (simp add: case_prod_beta Let_def)
  qed (simp add: Cons.IH)
qed simp

lemma sweep_states_lookup:
  assumes "distinct ks"
  shows "fmlookup (fst (sweep_states f ks m)) k =
    (if k \<in> set ks then map_option (\<lambda>v. fst (f k v)) (fmlookup m k) else fmlookup m k)"
  using assms
proof (induction ks arbitrary: m)
  case (Cons j ks)
  then show ?case
    by (cases "fmlookup m j") (auto simp: case_prod_beta Let_def)
qed simp

lemma sweep_states_out:
  assumes "distinct ks"
  shows "snd (sweep_states f ks m) =
    concat (map (\<lambda>k. case fmlookup m k of None \<Rightarrow> [] | Some v \<Rightarrow> snd (f k v)) ks)"
  using assms
proof (induction ks arbitrary: m)
  case (Cons j ks)
  have same: "map (\<lambda>k. case fmlookup (fmupd j v m) k of None \<Rightarrow> [] | Some v \<Rightarrow> snd (f k v)) ks
      = map (\<lambda>k. case fmlookup m k of None \<Rightarrow> [] | Some v \<Rightarrow> snd (f k v)) ks" for v
    using Cons.prems by (auto intro!: map_cong)
  show ?case
    using Cons by (cases "fmlookup m j") (simp_all add: case_prod_beta Let_def same del: fmupd_lookup)
qed simp

lemma sweep_all_lookup:
  "enumerates order m \<Longrightarrow>
    fmlookup (fst (sweep_states f order m)) k = map_option (\<lambda>v. fst (f k v)) (fmlookup m k)"
  using enumerates_lookup [of order m k] by (auto simp: enumerates_def sweep_states_lookup)

section \<open>The earliest instant\<close>

definition earlier :: "int option \<Rightarrow> int option \<Rightarrow> int option" where
  "earlier a b =
     (case (a, b) of (None, _) \<Rightarrow> b | (_, None) \<Rightarrow> a | (Some x, Some y) \<Rightarrow> Some (min x y))"

definition earliest :: "int option list \<Rightarrow> int option" where
  "earliest ds = foldr earlier ds None"

definition awake_by :: "int \<Rightarrow> int option \<Rightarrow> bool" where
  "awake_by at d = (case d of None \<Rightarrow> False | Some x \<Rightarrow> x \<le> at)"

lemma awake_by_simps [simp]: "awake_by at None = False" "awake_by at (Some x) = (x \<le> at)"
  by (simp_all add: awake_by_def)

lemma awake_by_earlier: "awake_by at (earlier a b) \<longleftrightarrow> awake_by at a \<or> awake_by at b"
  by (auto simp: earlier_def split: option.splits)

lemma awake_by_earliest: "awake_by at (earliest ds) \<longleftrightarrow> (\<exists>d \<in> set ds. awake_by at d)"
  by (induction ds) (auto simp: earliest_def awake_by_earlier)

lemma earliest_None: "earliest ds = None \<longleftrightarrow> (\<forall>d \<in> set ds. d = None)"
  by (induction ds) (auto simp: earliest_def earlier_def split: option.splits)

text \<open>\<open>values().filter_map(alarm).min()\<close> over the keys in some order.\<close>

definition next_alarm :: "('v \<Rightarrow> int option) \<Rightarrow> 'k list \<Rightarrow> ('k, 'v) fmap \<Rightarrow> int option" where
  "next_alarm alarm order m = earliest (map (\<lambda>k. Option.bind (fmlookup m k) alarm) order)"

lemma awake_next_alarm:
  "awake_by at (next_alarm alarm order m) \<longleftrightarrow>
    (\<exists>k \<in> set order. \<exists>v. fmlookup m k = Some v \<and> awake_by at (alarm v))"
  by (auto simp: next_alarm_def awake_by_earliest bind_eq_Some_conv split: bind_splits)

section \<open>The contract\<close>

locale alarm_clock =
  fixes wf :: "'v \<Rightarrow> bool"
    and visible :: "'v \<Rightarrow> 'w"
    and alarm :: "'v \<Rightarrow> int option"
    and lapse :: "int \<Rightarrow> 'k \<Rightarrow> 'v \<Rightarrow> 'v \<times> 'e list"
  assumes asleep: "wf v \<Longrightarrow> \<not> awake_by at (alarm v) \<Longrightarrow>
      snd (lapse at k v) = [] \<and> visible (fst (lapse at k v)) = visible v"
    and lapse_wf: "wf v \<Longrightarrow> wf (fst (lapse at k v))"
    and calm: "wf v \<Longrightarrow> \<not> awake_by at (alarm (fst (lapse at k (fst (lapse at k v)))))"
begin

lemma sweep_asleep:
  assumes "enumerates order m" "enumerates order' m"
    and "\<And>k v. fmlookup m k = Some v \<Longrightarrow> wf v"
    and "\<not> awake_by at (next_alarm alarm order' m)"
  shows "snd (sweep_states (lapse at) order m) = []"
    and "map_option visible (fmlookup (fst (sweep_states (lapse at) order m)) k) = map_option visible (fmlookup m k)"
proof -
  have quiet: "snd (lapse at k v) = [] \<and> visible (fst (lapse at k v)) = visible v"
    if "fmlookup m k = Some v" for k v
    using asleep [OF assms(3) [OF that]] that assms(4) enumerates_lookup [OF assms(2), of k]
    by (auto simp: awake_next_alarm)
  show "snd (sweep_states (lapse at) order m) = []"
    using assms(1) quiet
    by (auto simp: enumerates_def sweep_states_out split: option.splits)
  show "map_option visible (fmlookup (fst (sweep_states (lapse at) order m)) k) = map_option visible (fmlookup m k)"
    using quiet [of k] by (cases "fmlookup m k") (simp_all add: sweep_all_lookup [OF assms(1)])
qed

lemma sweep_enumerates: "enumerates order m \<Longrightarrow> enumerates order (fst (sweep_states (lapse at) order' m))"
  by (simp add: enumerates_def sweep_states_dom)

lemma sweep_twice_calm:
  assumes "enumerates order m" and "enumerates order' m"
    and "\<And>k v. fmlookup m k = Some v \<Longrightarrow> wf v"
  shows "\<not> awake_by at (next_alarm alarm order' (fst (sweep_states (lapse at) order (fst (sweep_states (lapse at) order m)))))"
proof -
  have "enumerates order (fst (sweep_states (lapse at) order m))" by (rule sweep_enumerates [OF assms(1)])
  then show ?thesis
    using calm assms(3)
    by (auto simp: awake_next_alarm sweep_all_lookup [OF assms(1)] sweep_all_lookup)
qed

end

end
