(* ===== verification/Turn_Signal.thy ===== *)
theory Turn_Signal
  imports Mode_Tracker
begin

text \<open>
  The turn-complete signal (crates/freshell-activity/src/signal.rs): a bare BEL in the output of a coding
  agent. \<open>extract_turn_complete_signals\<close> strips and counts the bells that no control string owns, across
  the chunks of the stream; \<open>count_tracker_turn_complete_signals\<close> counts those of a chunk that are not
  sandwiched in visible output. A \<open>char\<close> is a Unicode scalar value.
\<close>

section \<open>Characters and state\<close>

definition TURN_COMPLETE_SIGNAL :: nat where "TURN_COMPLETE_SIGNAL = 0x07"
definition SIG_ESC :: nat where "SIG_ESC = 0x1b"
definition C1_ST :: nat where "C1_ST = 0x9c"
definition C1_CSI :: nat where "C1_CSI = 0x9b"
definition C1_DCS :: nat where "C1_DCS = 0x90"
definition C1_OSC :: nat where "C1_OSC = 0x9d"

lemmas signal_chars = TURN_COMPLETE_SIGNAL_def SIG_ESC_def C1_ST_def C1_CSI_def C1_DCS_def C1_OSC_def

record ParserState =
  ps_in_osc :: bool
  ps_in_csi :: bool
  ps_in_dcs :: bool
  ps_pending_esc :: bool

definition parser_new :: ParserState where
  "parser_new = \<lparr>ps_in_osc = False, ps_in_csi = False, ps_in_dcs = False, ps_pending_esc = False\<rparr>"

definition is_submit_input :: "utext \<Rightarrow> bool" where
  "is_submit_input data = (data \<noteq> [] \<and> list_all (\<lambda>c. c = 0x0d \<or> c = 0x0a) data)"

definition is_control :: "nat \<Rightarrow> bool" where
  "is_control ch = (ch \<le> 0x1f \<or> 0x7f \<le> ch \<and> ch \<le> 0x9f)"

definition is_ignorable_leading_char :: "nat \<Rightarrow> bool" where
  "is_ignorable_leading_char ch =
     (ch \<noteq> TURN_COMPLETE_SIGNAL \<and> (is_whitespace ch \<or> ch = 0xfeff \<or> is_control ch))"

section \<open>The bells a tracker counts\<close>

record Candidate =
  cand_leading_eligible :: bool
  cand_has_visible_after :: bool

record CountState =
  cs_parser :: ParserState
  cs_saw_visible_output :: bool
  cs_candidates :: "Candidate list"

text \<open>The chain of tests after a pending ESC, the same in both scanners.\<close>

definition after_esc :: "nat \<Rightarrow> ParserState \<Rightarrow> ParserState" where
  "after_esc ch p =
     (let p1 = (if ps_in_osc p \<and> ch = 0x5c then p\<lparr>ps_in_osc := False\<rparr>
                else if ps_in_dcs p \<and> ch = 0x5c then p\<lparr>ps_in_dcs := False\<rparr>
                else if \<not> ps_in_osc p \<and> \<not> ps_in_dcs p \<and> ch = 0x5d then p\<lparr>ps_in_osc := True\<rparr>
                else if \<not> ps_in_osc p \<and> \<not> ps_in_dcs p \<and> ch = 0x5b then p\<lparr>ps_in_csi := True\<rparr>
                else if \<not> ps_in_osc p \<and> \<not> ps_in_dcs p \<and> ch = 0x50 then p\<lparr>ps_in_dcs := True\<rparr>
                else p)
      in p1\<lparr>ps_pending_esc := False\<rparr>)"

definition count_step :: "nat \<Rightarrow> CountState \<Rightarrow> CountState" where
  "count_step ch s =
     (let p = cs_parser s in
      if ps_pending_esc p then s\<lparr>cs_parser := after_esc ch p\<rparr>
      else if ch = SIG_ESC then s\<lparr>cs_parser := p\<lparr>ps_pending_esc := True\<rparr>\<rparr>
      else if ps_in_osc p then
        (if ch = TURN_COMPLETE_SIGNAL \<or> ch = C1_ST then s\<lparr>cs_parser := p\<lparr>ps_in_osc := False\<rparr>\<rparr> else s)
      else if ps_in_dcs p then
        (if ch = C1_ST then s\<lparr>cs_parser := p\<lparr>ps_in_dcs := False\<rparr>\<rparr> else s)
      else if ps_in_csi p then
        (if is_csi_final ch then s\<lparr>cs_parser := p\<lparr>ps_in_csi := False\<rparr>\<rparr> else s)
      else if ch = C1_CSI then s\<lparr>cs_parser := p\<lparr>ps_in_csi := True\<rparr>\<rparr>
      else if ch = C1_DCS then s\<lparr>cs_parser := p\<lparr>ps_in_dcs := True\<rparr>\<rparr>
      else if ch = C1_OSC then s\<lparr>cs_parser := p\<lparr>ps_in_osc := True\<rparr>\<rparr>
      else if ch = TURN_COMPLETE_SIGNAL then
        s\<lparr>cs_candidates := cs_candidates s @
            [\<lparr>cand_leading_eligible = \<not> cs_saw_visible_output s, cand_has_visible_after = False\<rparr>]\<rparr>
      else if is_ignorable_leading_char ch then s
      else s\<lparr>cs_saw_visible_output := True,
             cs_candidates := map (\<lambda>c. c\<lparr>cand_has_visible_after := True\<rparr>) (cs_candidates s)\<rparr>)"

definition count_tracker_turn_complete_signals :: "utext \<Rightarrow> ParserState \<Rightarrow> nat" where
  "count_tracker_turn_complete_signals data state =
     (let s = fold count_step data
                \<lparr>cs_parser = state, cs_saw_visible_output = False, cs_candidates = []\<rparr>
      in length (filter (\<lambda>c. cand_leading_eligible c \<or> \<not> cand_has_visible_after c) (cs_candidates s)))"

section \<open>The bells the stream loses\<close>

definition supports_turn_signal :: "string \<Rightarrow> bool" where
  "supports_turn_signal mode = (mode = ''claude'' \<or> mode = ''codex'')"

text \<open>One turn of the loop: what is pushed to \<open>cleaned\<close>, whether \<open>count\<close> grows, the state after.\<close>

definition extract_step :: "nat \<Rightarrow> ParserState \<Rightarrow> (utext \<times> nat) \<times> ParserState" where
  "extract_step ch p =
     (if ps_pending_esc p then (([SIG_ESC, ch], 0), after_esc ch p)
      else if ch = SIG_ESC then (([], 0), p\<lparr>ps_pending_esc := True\<rparr>)
      else if ch = C1_CSI then (([ch], 0), p\<lparr>ps_in_csi := True\<rparr>)
      else if ch = C1_DCS then (([ch], 0), p\<lparr>ps_in_dcs := True\<rparr>)
      else if ch = C1_OSC then (([ch], 0), p\<lparr>ps_in_osc := True\<rparr>)
      else if ps_in_csi p then (([ch], 0), if is_csi_final ch then p\<lparr>ps_in_csi := False\<rparr> else p)
      else if ch = TURN_COMPLETE_SIGNAL then
        (if ps_in_osc p then (([ch], 0), p\<lparr>ps_in_osc := False\<rparr>)
         else if ps_in_dcs p then (([ch], 0), p)
         else (([], 1), p))
      else if ch = C1_ST then
        (if ps_in_osc p then (([ch], 0), p\<lparr>ps_in_osc := False\<rparr>)
         else if ps_in_dcs p then (([ch], 0), p\<lparr>ps_in_dcs := False\<rparr>)
         else (([ch], 0), p))
      else if ps_in_dcs p then (([ch], 0), p)
      else (([ch], 0), p))"

fun extract_from :: "utext \<Rightarrow> ParserState \<Rightarrow> (utext \<times> nat) \<times> ParserState" where
  "extract_from [] p = (([], 0), p)"
| "extract_from (ch # data) p =
     (let ((out, n), p') = extract_step ch p; ((cleaned, count), p'') = extract_from data p'
      in ((out @ cleaned, n + count), p''))"

definition extract_turn_complete_signals :: "utext \<Rightarrow> string \<Rightarrow> ParserState \<Rightarrow> (utext \<times> nat) \<times> ParserState" where
  "extract_turn_complete_signals data mode state =
     (if \<not> supports_turn_signal mode then
        (if ps_pending_esc state then ((SIG_ESC # data, 0), parser_new) else ((data, 0), state))
      else extract_from data state)"

section \<open>What extraction does to a stream\<close>

lemma extract_from_append:
  "extract_from (a @ b) p =
     (let ((out, n), p') = extract_from a p; ((out', n'), p'') = extract_from b p'
      in ((out @ out', n + n'), p''))"
  by (induction a arbitrary: p) (simp_all add: case_prod_beta Let_def)

text \<open>The ESC that a scanner holds back until it has seen the character after it.\<close>

definition held :: "ParserState \<Rightarrow> utext" where
  "held p = (if ps_pending_esc p then [SIG_ESC] else [])"

definition bells :: "utext \<Rightarrow> nat" where
  "bells t = count_list t TURN_COMPLETE_SIGNAL"

definition silent :: "utext \<Rightarrow> utext" where
  "silent t = filter (\<lambda>c. c \<noteq> TURN_COMPLETE_SIGNAL) t"

lemma after_esc_pending [simp]: "\<not> ps_pending_esc (after_esc ch p)"
  by (simp add: after_esc_def Let_def)

lemma extract_step_account:
  assumes "extract_step ch p = ((out, n), p')"
  shows "silent (out @ held p') = silent (held p @ [ch])"
    and "bells (out @ held p') + n = bells (held p @ [ch])"
    and "subseq (out @ held p') (held p @ [ch])"
  using assms by (auto simp: extract_step_def held_def silent_def bells_def signal_chars split: if_splits)

lemma account_simps [simp]:
  "silent (a @ b) = silent a @ silent b" "bells (a @ b) = bells a + bells b"
  by (simp_all add: silent_def bells_def)

lemma extract_from_account:
  assumes "extract_from data p = ((cleaned, n), p')"
  shows "silent (cleaned @ held p') = silent (held p @ data)
    \<and> bells (cleaned @ held p') + n = bells (held p @ data)
    \<and> subseq (cleaned @ held p') (held p @ data)"
  using assms
proof (induction data arbitrary: p cleaned n p')
  case (Cons ch data)
  obtain out m q where step: "extract_step ch p = ((out, m), q)" by (metis surj_pair)
  obtain rest k r where more: "extract_from data q = ((rest, k), r)" by (metis surj_pair)
  have eqs: "cleaned = out @ rest" "n = m + k" "p' = r" using Cons.prems step more by simp_all
  note one = extract_step_account [OF step] and tail = Cons.IH [OF more]
  have "subseq (out @ rest @ held r) (out @ held q @ data)"
    by (rule list_emb_append_mono) (use tail in simp_all)
  moreover have "subseq ((out @ held q) @ data) ((held p @ [ch]) @ data)"
    using one(3) by (rule list_emb_append_mono) simp
  ultimately have "subseq (cleaned @ held p') (held p @ ch # data)"
    unfolding eqs by (metis append.assoc append_Cons append_Nil subseq_order.order_trans)
  moreover have "silent (ch # data) = silent [ch] @ silent data" "bells (ch # data) = bells [ch] + bells data"
    by (simp_all add: silent_def bells_def)
  ultimately show ?case using one(1,2) tail unfolding eqs by simp
qed simp

fun extract_chunks :: "string \<Rightarrow> utext list \<Rightarrow> ParserState \<Rightarrow> (utext \<times> nat) \<times> ParserState" where
  "extract_chunks mode [] p = (([], 0), p)"
| "extract_chunks mode (d # ds) p =
     (let ((out, n), p') = extract_turn_complete_signals d mode p;
          ((outs, k), p'') = extract_chunks mode ds p'
      in ((out @ outs, n + k), p''))"

lemma extract_chunks_concat:
  "supports_turn_signal mode \<Longrightarrow> extract_chunks mode chunks p = extract_from (concat chunks) p"
  by (induction chunks arbitrary: p)
     (simp_all add: extract_turn_complete_signals_def extract_from_append case_prod_beta Let_def)

section \<open>Which bells a tracker counts in a chunk without control strings\<close>

definition opens_control :: "nat \<Rightarrow> bool" where
  "opens_control c = (c = SIG_ESC \<or> c = C1_CSI \<or> c = C1_DCS \<or> c = C1_OSC)"

definition is_visible :: "nat \<Rightarrow> bool" where
  "is_visible c = (c \<noteq> TURN_COMPLETE_SIGNAL \<and> \<not> is_ignorable_leading_char c)"

text \<open>The bells of a chunk, each with what the scan remembers of it.\<close>

fun sandwich :: "bool \<Rightarrow> utext \<Rightarrow> Candidate list" where
  "sandwich v [] = []"
| "sandwich v (c # data) =
     (if c = TURN_COMPLETE_SIGNAL
      then [\<lparr>cand_leading_eligible = \<not> v, cand_has_visible_after = list_ex is_visible data\<rparr>] else [])
     @ sandwich (v \<or> is_visible c) data"

definition touched :: "bool \<Rightarrow> Candidate \<Rightarrow> Candidate" where
  "touched v c = c\<lparr>cand_has_visible_after := cand_has_visible_after c \<or> v\<rparr>"

lemma touched_simps:
  "touched False c = c" "touched b (touched a c) = touched (a \<or> b) c"
  "touched v \<lparr>cand_leading_eligible = l, cand_has_visible_after = w\<rparr>
     = \<lparr>cand_leading_eligible = l, cand_has_visible_after = w \<or> v\<rparr>"
  by (simp_all add: touched_def disj_assoc)

lemma count_step_plain:
  assumes "\<not> opens_control c"
  shows "count_step c \<lparr>cs_parser = parser_new, cs_saw_visible_output = v, cs_candidates = cs\<rparr>
    = \<lparr>cs_parser = parser_new, cs_saw_visible_output = v \<or> is_visible c,
       cs_candidates = map (touched (is_visible c)) cs @
         (if c = TURN_COMPLETE_SIGNAL
          then [\<lparr>cand_leading_eligible = \<not> v, cand_has_visible_after = False\<rparr>] else [])\<rparr>"
  using assms
  by (auto simp: count_step_def parser_new_def opens_control_def is_visible_def touched_def
      Let_def is_ignorable_leading_char_def cong: map_cong)

lemma count_plain:
  assumes "list_all (\<lambda>c. \<not> opens_control c) data"
  shows "fold count_step data \<lparr>cs_parser = parser_new, cs_saw_visible_output = v, cs_candidates = cs\<rparr>
    = \<lparr>cs_parser = parser_new, cs_saw_visible_output = v \<or> list_ex is_visible data,
       cs_candidates = map (touched (list_ex is_visible data)) cs @ sandwich v data\<rparr>"
  using assms
proof (induction data arbitrary: v cs)
  case (Cons c data)
  then show ?case
    by (simp add: count_step_plain touched_simps o_def cong: map_cong)
qed (simp add: touched_simps map_idI)

definition unsandwiched :: "utext \<Rightarrow> nat \<Rightarrow> bool" where
  "unsandwiched data i =
     (data ! i = TURN_COMPLETE_SIGNAL \<and>
      (\<not> list_ex is_visible (take i data) \<or> \<not> list_ex is_visible (drop (Suc i) data)))"

lemma sandwich_count:
  "length (filter (\<lambda>c. cand_leading_eligible c \<or> \<not> cand_has_visible_after c) (sandwich v data))
    = length (filter (\<lambda>i. data ! i = TURN_COMPLETE_SIGNAL \<and>
        (\<not> (v \<or> list_ex is_visible (take i data)) \<or> \<not> list_ex is_visible (drop (Suc i) data)))
        [0 ..< length data])"
proof (induction data arbitrary: v)
  case (Cons c data)
  have "[0 ..< length (c # data)] = 0 # map Suc [0 ..< length data]"
    by (simp add: upt_conv_Cons map_Suc_upt del: upt_Suc)
  then show ?case
    by (simp add: Cons.IH filter_map o_def del: upt_Suc)
qed simp

lemma tracker_count_plain:
  assumes "list_all (\<lambda>c. \<not> opens_control c) data"
  shows "count_tracker_turn_complete_signals data parser_new
    = length (filter (unsandwiched data) [0 ..< length data])"
proof -
  have "unsandwiched data = (\<lambda>i. data ! i = TURN_COMPLETE_SIGNAL \<and>
      (\<not> (False \<or> list_ex is_visible (take i data)) \<or> \<not> list_ex is_visible (drop (Suc i) data)))"
    by (rule ext) (simp add: unsandwiched_def)
  then show ?thesis
    by (simp only: count_tracker_turn_complete_signals_def count_plain [OF assms] sandwich_count
        Let_def CountState.select_convs list.map append_Nil)
qed

end
