(* ===== verification/Claude_Activity.thy ===== *)
theory Claude_Activity
  imports Alarm_Clock Turn_Signal
begin

text \<open>
  The turn lifecycle of claude terminals (crates/freshell-activity/src/claude.rs) and the ledger that
  numbers its completions (ledger.rs). A submit starts a turn, a Stop bell ends one, and a busy terminal
  that has been silent too long asks the hub to verify it. Instants are \<open>i64\<close> milliseconds, integers here;
  \<open>in_flight\<close> is an \<open>u32\<close> that grows by one per Enter key, a natural here.
\<close>

section \<open>The completion ledger\<close>

record TurnCompletionSnapshot =
  sn_terminal_id :: string
  sn_at :: int
  sn_completion_seq :: int

record TurnCompletionLedger =
  tl_completion_seq :: "(string, int) fmap"
  tl_latest_order :: "string list"
  tl_latest :: "(string, TurnCompletionSnapshot) fmap"

definition ledger_new :: TurnCompletionLedger where
  "ledger_new = \<lparr>tl_completion_seq = fmempty, tl_latest_order = [], tl_latest = fmempty\<rparr>"

definition seq_of :: "string \<Rightarrow> TurnCompletionLedger \<Rightarrow> int" where
  "seq_of t l = (case fmlookup (tl_completion_seq l) t of None \<Rightarrow> 0 | Some n \<Rightarrow> n)"

definition record_turn_completion :: "string \<Rightarrow> int \<Rightarrow> TurnCompletionLedger \<Rightarrow> int \<times> TurnCompletionLedger" where
  "record_turn_completion t at l =
     (let seq = seq_of t l + 1
      in (seq, \<lparr>tl_completion_seq = fmupd t seq (tl_completion_seq l),
                tl_latest_order =
                  (if fmlookup (tl_latest l) t = None then tl_latest_order l @ [t] else tl_latest_order l),
                tl_latest = fmupd t \<lparr>sn_terminal_id = t, sn_at = at, sn_completion_seq = seq\<rparr> (tl_latest l)\<rparr>))"

definition list_latest_completions :: "TurnCompletionLedger \<Rightarrow> TurnCompletionSnapshot list" where
  "list_latest_completions l = List.map_filter (fmlookup (tl_latest l)) (tl_latest_order l)"

section \<open>State\<close>

datatype 'r TrackerEffect =
    Changed "'r list" "string list"
  | TurnComplete string "string option" int int
  | ForceRead string int
  | AttentionBoundary string int

datatype ClaudePhase = ClaudeIdle | ClaudeBusy

record ClaudeActivityRecord =
  car_terminal_id :: string
  car_phase :: ClaudePhase
  car_updated_at :: int
  car_session_id :: "string option"

definition CLAUDE_BUSY_DEADMAN_MS :: int where "CLAUDE_BUSY_DEADMAN_MS = 120000"
definition CLAUDE_SUBMIT_GRACE_MS :: int where "CLAUDE_SUBMIT_GRACE_MS = 2000"

type_synonym ClaudeEffect = "ClaudeActivityRecord TrackerEffect"

record TerminalActivity =
  ta_terminal_id :: string
  ta_session_id :: "string option"
  ta_phase :: ClaudePhase
  ta_updated_at :: int
  ta_in_flight :: nat
  ta_last_observed_at :: int
  ta_parser_state :: ParserState
  ta_busy_confirmed :: bool
  ta_submit_grace_deadline :: "int option"
  ta_submit_grace_retried :: bool

record ClaudeTracker =
  ct_states :: "(string, TerminalActivity) fmap"
  ct_ledger :: TurnCompletionLedger
  ct_busy_deadman_ms :: int

definition claude_tracker_new :: ClaudeTracker where
  "claude_tracker_new = \<lparr>ct_states = fmempty, ct_ledger = ledger_new, ct_busy_deadman_ms = CLAUDE_BUSY_DEADMAN_MS\<rparr>"

definition set_busy_deadman_ms :: "int \<Rightarrow> ClaudeTracker \<Rightarrow> ClaudeTracker" where
  "set_busy_deadman_ms ms t = t\<lparr>ct_busy_deadman_ms := ms\<rparr>"

definition to_record :: "TerminalActivity \<Rightarrow> ClaudeActivityRecord" where
  "to_record s = \<lparr>car_terminal_id = ta_terminal_id s, car_phase = ta_phase s,
     car_updated_at = ta_updated_at s, car_session_id = ta_session_id s\<rparr>"

definition has_public_change :: "ClaudeActivityRecord option \<Rightarrow> ClaudeActivityRecord \<Rightarrow> bool" where
  "has_public_change previous next_rec =
     (case previous of
        None \<Rightarrow> True
      | Some p \<Rightarrow> car_phase p \<noteq> car_phase next_rec \<or> car_session_id p \<noteq> car_session_id next_rec)"

definition commit_change :: "ClaudeActivityRecord option \<Rightarrow> ClaudeActivityRecord \<Rightarrow> ClaudeEffect list" where
  "commit_change previous next_rec =
     (if has_public_change previous next_rec then [Changed [next_rec] []] else [])"

definition session_id_of :: "string \<Rightarrow> ClaudeTracker \<Rightarrow> string option" where
  "session_id_of t c = Option.bind (fmlookup (ct_states c) t) ta_session_id"

text \<open>The state of a terminal that is tracked, rewritten through \<open>get_mut\<close>.\<close>

definition put_activity :: "string \<Rightarrow> TerminalActivity \<Rightarrow> ClaudeTracker \<Rightarrow> ClaudeTracker" where
  "put_activity t s c = c\<lparr>ct_states := fmupd t s (ct_states c)\<rparr>"

definition with_activity ::
  "string \<Rightarrow> (TerminalActivity \<Rightarrow> TerminalActivity \<times> ClaudeEffect list) \<Rightarrow> ClaudeTracker
    \<Rightarrow> ClaudeTracker \<times> ClaudeEffect list" where
  "with_activity t f c =
     (case fmlookup (ct_states c) t of
        None \<Rightarrow> (c, [])
      | Some s \<Rightarrow> (let (s', effects) = f s in (put_activity t s' c, effects)))"

section \<open>Tracking\<close>

definition rebind :: "string \<Rightarrow> TerminalActivity \<Rightarrow> TerminalActivity \<times> ClaudeEffect list" where
  "rebind session_id s =
     (if ta_session_id s = Some session_id then (s, [])
      else let s' = s\<lparr>ta_session_id := Some session_id\<rparr>
           in (s', commit_change (Some (to_record s)) (to_record s')))"

definition fresh_activity :: "string \<Rightarrow> string option \<Rightarrow> int \<Rightarrow> TerminalActivity" where
  "fresh_activity t session_id at =
     \<lparr>ta_terminal_id = t, ta_session_id = session_id, ta_phase = ClaudeIdle, ta_updated_at = at,
      ta_in_flight = 0, ta_last_observed_at = at, ta_parser_state = parser_new,
      ta_busy_confirmed = False, ta_submit_grace_deadline = None, ta_submit_grace_retried = False\<rparr>"

definition track_terminal ::
  "string \<Rightarrow> string option \<Rightarrow> int \<Rightarrow> ClaudeTracker \<Rightarrow> ClaudeTracker \<times> ClaudeEffect list" where
  "track_terminal t session_id at c =
     (case fmlookup (ct_states c) t of
        Some existing \<Rightarrow>
          (case session_id of
             Some session \<Rightarrow> with_activity t (rebind session) c
           | None \<Rightarrow> (c, []))
      | None \<Rightarrow>
          (let s = fresh_activity t session_id at
           in (put_activity t s c, commit_change None (to_record s))))"

definition bind_session :: "string \<Rightarrow> string \<Rightarrow> ClaudeTracker \<Rightarrow> ClaudeTracker \<times> ClaudeEffect list" where
  "bind_session t session_id = with_activity t (rebind session_id)"

definition note_exit :: "string \<Rightarrow> ClaudeTracker \<Rightarrow> ClaudeTracker \<times> ClaudeEffect list" where
  "note_exit t c =
     (case fmlookup (ct_states c) t of
        None \<Rightarrow> (c, [])
      | Some _ \<Rightarrow> (c\<lparr>ct_states := fmdrop t (ct_states c)\<rparr>, [Changed [] [t]]))"

section \<open>Input\<close>

definition input_activity ::
  "utext \<Rightarrow> int \<Rightarrow> bool \<Rightarrow> TerminalActivity \<Rightarrow> TerminalActivity \<times> ClaudeEffect list" where
  "input_activity data at confirmable s0 =
     (if \<not> is_submit_input data then (s0, [])
      else let s = s0\<lparr>ta_last_observed_at := at\<rparr> in
        if \<not> confirmable then
          let s1 = s\<lparr>ta_in_flight := ta_in_flight s + 1, ta_busy_confirmed := True\<rparr>;
              s2 = (if ta_phase s1 \<noteq> ClaudeBusy then s1\<lparr>ta_phase := ClaudeBusy, ta_updated_at := at\<rparr> else s1)
          in (s2, commit_change (Some (to_record s)) (to_record s2))
        else if ta_phase s = ClaudeBusy then
          (if ta_busy_confirmed s then (s\<lparr>ta_in_flight := ta_in_flight s + 1\<rparr>, [])
           else (s\<lparr>ta_submit_grace_deadline := Some (at + CLAUDE_SUBMIT_GRACE_MS),
                   ta_submit_grace_retried := False\<rparr>, []))
        else
          let s1 = s\<lparr>ta_phase := ClaudeBusy, ta_updated_at := at, ta_busy_confirmed := False,
                     ta_submit_grace_deadline := Some (at + CLAUDE_SUBMIT_GRACE_MS),
                     ta_submit_grace_retried := False\<rparr>
          in (s1, commit_change (Some (to_record s)) (to_record s1)))"

definition note_input ::
  "string \<Rightarrow> utext \<Rightarrow> int \<Rightarrow> bool \<Rightarrow> ClaudeTracker \<Rightarrow> ClaudeTracker \<times> ClaudeEffect list" where
  "note_input t data at confirmable = with_activity t (input_activity data at confirmable)"

section \<open>Output\<close>

text \<open>The loop that ends one turn per bell, as long as a turn is in flight.\<close>

fun complete_turns ::
  "nat \<Rightarrow> string \<Rightarrow> string option \<Rightarrow> int \<Rightarrow> nat \<Rightarrow> TurnCompletionLedger
    \<Rightarrow> nat \<times> TurnCompletionLedger \<times> ClaudeEffect list" where
  "complete_turns 0 t session at in_flight l = (in_flight, l, [])"
| "complete_turns (Suc n) t session at in_flight l =
     (if in_flight = 0 then (in_flight, l, [])
      else let (seq, l') = record_turn_completion t at l;
               (left, l'', completions) = complete_turns n t session at (in_flight - 1) l'
           in (left, l'', TurnComplete t session at seq # completions))"

definition observed_if_busy :: "int \<Rightarrow> TerminalActivity \<Rightarrow> TerminalActivity" where
  "observed_if_busy at s = (if ta_phase s = ClaudeBusy then s\<lparr>ta_last_observed_at := at\<rparr> else s)"

definition confirm_by_bell :: "TerminalActivity \<Rightarrow> TerminalActivity" where
  "confirm_by_bell s =
     (if ta_phase s = ClaudeBusy \<and> \<not> ta_busy_confirmed s
      then s\<lparr>ta_busy_confirmed := True, ta_submit_grace_deadline := None, ta_in_flight := 1\<rparr> else s)"

definition note_output :: "string \<Rightarrow> utext \<Rightarrow> int \<Rightarrow> ClaudeTracker \<Rightarrow> ClaudeTracker \<times> ClaudeEffect list" where
  "note_output t data at c =
     (case fmlookup (ct_states c) t of
        None \<Rightarrow> (c, [])
      | Some s0 \<Rightarrow>
          (let parser_state_at_start = ta_parser_state s0;
               ((_, count), parser) = extract_turn_complete_signals data ''claude'' (ta_parser_state s0);
               s1 = s0\<lparr>ta_parser_state := parser\<rparr>;
               clear_count = min count (count_tracker_turn_complete_signals data parser_state_at_start)
           in if count = 0 \<or> clear_count = 0 then (put_activity t (observed_if_busy at s1) c, [])
              else
                let s = confirm_by_bell s1;
                    (left, ledger, completions) =
                      complete_turns clear_count t (ta_session_id s) at (ta_in_flight s) (ct_ledger c);
                    s2 = s\<lparr>ta_in_flight := left, ta_last_observed_at := at\<rparr>;
                    s3 = (if completions = [] then s2
                          else s2\<lparr>ta_phase := (if 0 < left then ClaudeBusy else ClaudeIdle),
                                  ta_updated_at := at\<rparr>)
                in (put_activity t s3 (c\<lparr>ct_ledger := ledger\<rparr>),
                    commit_change (Some (to_record s)) (to_record s3) @ completions)))"

section \<open>Expiry\<close>

text \<open>One turn of the loop of \<open>expire\<close>: the submit grace, then the busy deadman.\<close>

definition deadman_lapse :: "int \<Rightarrow> int \<Rightarrow> TerminalActivity \<Rightarrow> TerminalActivity \<times> ClaudeEffect list" where
  "deadman_lapse busy_deadman_ms at s =
     (if ta_phase s \<noteq> ClaudeBusy then (s, [])
      else if at - ta_last_observed_at s \<le> busy_deadman_ms then (s, [])
      else (s\<lparr>ta_last_observed_at := at\<rparr>, [ForceRead (ta_terminal_id s) at]))"

definition claude_lapse :: "int \<Rightarrow> int \<Rightarrow> TerminalActivity \<Rightarrow> TerminalActivity \<times> ClaudeEffect list" where
  "claude_lapse busy_deadman_ms at s =
     (case ta_submit_grace_deadline s of
        None \<Rightarrow> deadman_lapse busy_deadman_ms at s
      | Some deadline \<Rightarrow>
          if deadline \<le> at \<and> ta_phase s = ClaudeBusy \<and> \<not> ta_busy_confirmed s then
            (if \<not> ta_submit_grace_retried s then
               (s\<lparr>ta_submit_grace_retried := True,
                  ta_submit_grace_deadline := Some (at + CLAUDE_SUBMIT_GRACE_MS)\<rparr>,
                [ForceRead (ta_terminal_id s) at])
             else
               let s1 = s\<lparr>ta_submit_grace_deadline := None\<rparr>;
                   s2 = s1\<lparr>ta_phase := ClaudeIdle, ta_updated_at := at, ta_last_observed_at := at\<rparr>
               in (s2, commit_change (Some (to_record s1)) (to_record s2)))
          else if deadline \<le> at then deadman_lapse busy_deadman_ms at (s\<lparr>ta_submit_grace_deadline := None\<rparr>)
          else deadman_lapse busy_deadman_ms at s)"

definition claude_expire :: "string list \<Rightarrow> int \<Rightarrow> ClaudeTracker \<Rightarrow> ClaudeTracker \<times> ClaudeEffect list" where
  "claude_expire order at c =
     (let (states, effects) = sweep_states (\<lambda>_. claude_lapse (ct_busy_deadman_ms c) at) order (ct_states c)
      in (c\<lparr>ct_states := states\<rparr>, effects))"

definition claude_alarm :: "int \<Rightarrow> TerminalActivity \<Rightarrow> int option" where
  "claude_alarm busy_deadman_ms s =
     (if ta_phase s \<noteq> ClaudeBusy then None
      else let deadman = ta_last_observed_at s + busy_deadman_ms + 1;
               grace = (if ta_busy_confirmed s then None else ta_submit_grace_deadline s)
           in earlier (Some deadman) grace)"

definition claude_next_deadline :: "string list \<Rightarrow> ClaudeTracker \<Rightarrow> int option" where
  "claude_next_deadline order c = next_alarm (claude_alarm (ct_busy_deadman_ms c)) order (ct_states c)"

section \<open>Answers of the truth source\<close>

definition note_verified_busy :: "string \<Rightarrow> int \<Rightarrow> ClaudeTracker \<Rightarrow> ClaudeTracker \<times> ClaudeEffect list" where
  "note_verified_busy t at = with_activity t (\<lambda>s. (observed_if_busy at s, []))"

definition settled_idle :: "int \<Rightarrow> TerminalActivity \<Rightarrow> TerminalActivity" where
  "settled_idle at s =
     s\<lparr>ta_phase := ClaudeIdle, ta_in_flight := 0, ta_busy_confirmed := False,
       ta_submit_grace_deadline := None, ta_updated_at := at, ta_last_observed_at := at\<rparr>"

definition note_verified_ended :: "string \<Rightarrow> int \<Rightarrow> ClaudeTracker \<Rightarrow> ClaudeTracker \<times> ClaudeEffect list" where
  "note_verified_ended t at c =
     (case fmlookup (ct_states c) t of
        None \<Rightarrow> (c, [])
      | Some s \<Rightarrow>
          if ta_phase s \<noteq> ClaudeBusy then (c, [])
          else let s' = settled_idle at s;
                   (seq, ledger) = record_turn_completion t at (ct_ledger c)
               in (put_activity t s' (c\<lparr>ct_ledger := ledger\<rparr>),
                   commit_change (Some (to_record s)) (to_record s') @
                     [TurnComplete t (ta_session_id s') at seq]))"

definition note_verify_failed :: "string \<Rightarrow> int \<Rightarrow> ClaudeTracker \<Rightarrow> ClaudeTracker \<times> ClaudeEffect list" where
  "note_verify_failed t at = with_activity t
     (\<lambda>s. if ta_phase s \<noteq> ClaudeBusy then (s, [])
          else let s' = settled_idle at s
               in (s', commit_change (Some (to_record s)) (to_record s') @ [AttentionBoundary t at]))"

definition note_submit_confirmed :: "string \<Rightarrow> int \<Rightarrow> ClaudeTracker \<Rightarrow> ClaudeTracker \<times> ClaudeEffect list" where
  "note_submit_confirmed t at = with_activity t
     (\<lambda>s. if ta_phase s = ClaudeBusy \<and> \<not> ta_busy_confirmed s
          then (s\<lparr>ta_busy_confirmed := True, ta_in_flight := 1, ta_submit_grace_deadline := None,
                  ta_last_observed_at := at\<rparr>, [])
          else (s, []))"

definition note_submit_unconfirmed :: "string \<Rightarrow> int \<Rightarrow> ClaudeTracker \<Rightarrow> ClaudeTracker \<times> ClaudeEffect list" where
  "note_submit_unconfirmed t at = with_activity t
     (\<lambda>s. if ta_phase s \<noteq> ClaudeBusy \<or> ta_busy_confirmed s then (s, [])
          else let s1 = s\<lparr>ta_submit_grace_deadline := None\<rparr>;
                   s2 = s1\<lparr>ta_phase := ClaudeIdle, ta_updated_at := at, ta_last_observed_at := at\<rparr>
               in (s2, commit_change (Some (to_record s1)) (to_record s2)))"

definition note_submit_probe_unavailable :: "string \<Rightarrow> ClaudeTracker \<Rightarrow> ClaudeTracker \<times> ClaudeEffect list" where
  "note_submit_probe_unavailable t = with_activity t (\<lambda>s. (s\<lparr>ta_submit_grace_deadline := None\<rparr>, []))"

definition is_awaiting_submit_confirm :: "string \<Rightarrow> ClaudeTracker \<Rightarrow> bool" where
  "is_awaiting_submit_confirm t c =
     (case fmlookup (ct_states c) t of
        None \<Rightarrow> False
      | Some s \<Rightarrow> ta_phase s = ClaudeBusy \<and> \<not> ta_busy_confirmed s \<and> ta_submit_grace_deadline s \<noteq> None)"

end
