(* ===== verification/Claude_Turns.thy ===== *)
theory Claude_Turns
  imports Claude_Activity
begin

text \<open>
  The account of claude's turns: what every operation of the tracker does to the turns a terminal owes,
  to the completions it announces, and to their numbers; and the tracker as an alarm clock.
\<close>

section \<open>Operations\<close>

datatype ClaudeOp =
    Track string "string option" int
  | Bind string string
  | Input string utext int bool
  | Output string utext int
  | ClaudeExit string
  | ClaudeExpire "string list" int
  | VerifiedBusy string int
  | VerifiedEnded string int
  | VerifyFailed string int
  | SubmitConfirmed string int
  | SubmitUnconfirmed string int
  | ProbeUnavailable string

fun claude_perform :: "ClaudeOp \<Rightarrow> ClaudeTracker \<Rightarrow> ClaudeTracker \<times> ClaudeEffect list" where
  "claude_perform (Track t s at) c = track_terminal t s at c"
| "claude_perform (Bind t s) c = bind_session t s c"
| "claude_perform (Input t data at confirmable) c = note_input t data at confirmable c"
| "claude_perform (Output t data at) c = note_output t data at c"
| "claude_perform (ClaudeExit t) c = note_exit t c"
| "claude_perform (ClaudeExpire order at) c = claude_expire order at c"
| "claude_perform (VerifiedBusy t at) c = note_verified_busy t at c"
| "claude_perform (VerifiedEnded t at) c = note_verified_ended t at c"
| "claude_perform (VerifyFailed t at) c = note_verify_failed t at c"
| "claude_perform (SubmitConfirmed t at) c = note_submit_confirmed t at c"
| "claude_perform (SubmitUnconfirmed t at) c = note_submit_unconfirmed t at c"
| "claude_perform (ProbeUnavailable t) c = note_submit_probe_unavailable t c"

fun claude_run :: "ClaudeOp list \<Rightarrow> ClaudeTracker \<Rightarrow> ClaudeTracker \<times> ClaudeEffect list" where
  "claude_run [] c = (c, [])"
| "claude_run (op # ops) c =
     (let (c', effects) = claude_perform op c; (c'', more) = claude_run ops c' in (c'', effects @ more))"

section \<open>The account of one terminal\<close>

definition turn_ok :: "TerminalActivity \<Rightarrow> bool" where
  "turn_ok s =
     ((ta_phase s = ClaudeIdle \<longrightarrow> ta_in_flight s = 0) \<and>
      (ta_phase s = ClaudeBusy \<longrightarrow> ta_busy_confirmed s = (0 < ta_in_flight s)))"

lemma not_busy: "p \<noteq> ClaudeBusy \<longleftrightarrow> p = ClaudeIdle"
  by (cases p) simp_all

text \<open>The turns that may still end: those in flight, and the one a provisional submit may have begun.\<close>

definition owes :: "TerminalActivity \<Rightarrow> nat" where
  "owes s = (if ta_phase s = ClaudeBusy then max 1 (ta_in_flight s) else 0)"

definition claude_wf :: "ClaudeTracker \<Rightarrow> bool" where
  "claude_wf c = (\<forall>k s. fmlookup (ct_states c) k = Some s \<longrightarrow> turn_ok s \<and> ta_terminal_id s = k)"

definition turns_owed :: "string \<Rightarrow> ClaudeTracker \<Rightarrow> nat" where
  "turns_owed t c = (case fmlookup (ct_states c) t of None \<Rightarrow> 0 | Some s \<Rightarrow> owes s)"

fun completion_seqs :: "string \<Rightarrow> 'r TrackerEffect list \<Rightarrow> int list" where
  "completion_seqs t [] = []"
| "completion_seqs t (TurnComplete u _ _ seq # es) =
     (if u = t then seq # completion_seqs t es else completion_seqs t es)"
| "completion_seqs t (_ # es) = completion_seqs t es"

lemma completion_seqs_append [simp]:
  "completion_seqs t (es @ es') = completion_seqs t es @ completion_seqs t es'"
  by (induction t es rule: completion_seqs.induct) auto

lemma completion_seqs_commit [simp]: "completion_seqs t (commit_change p r) = []"
  by (simp add: commit_change_def)

definition accounted ::
  "string \<Rightarrow> nat \<Rightarrow> ClaudeTracker \<Rightarrow> ClaudeTracker \<times> ClaudeEffect list \<Rightarrow> bool" where
  "accounted t n c r =
     (claude_wf (fst r) \<and>
      length (completion_seqs t (snd r)) + turns_owed t (fst r) \<le> turns_owed t c + n \<and>
      seq_of t (ct_ledger c) \<le> seq_of t (ct_ledger (fst r)) \<and>
      completion_seqs t (snd r) = [seq_of t (ct_ledger c) + 1 .. seq_of t (ct_ledger (fst r))])"

lemma put_activity_simps [simp]:
  "fmlookup (ct_states (put_activity t s c)) k = (if t = k then Some s else fmlookup (ct_states c) k)"
  "ct_ledger (put_activity t s c) = ct_ledger c"
  "ct_busy_deadman_ms (put_activity t s c) = ct_busy_deadman_ms c"
  by (simp_all add: put_activity_def)

lemma accounted_same: "claude_wf c \<Longrightarrow> accounted t n c (c, [])"
  by (simp add: accounted_def)

text \<open>An operation on one terminal that ends no turn.\<close>

lemma accounted_with_activity:
  assumes "claude_wf c"
    and "\<And>s. turn_ok s \<Longrightarrow> turn_ok (fst (f s)) \<and> ta_terminal_id (fst (f s)) = ta_terminal_id s
        \<and> owes (fst (f s)) \<le> owes s + m \<and> completion_seqs t (snd (f s)) = []"
  shows "accounted t (if u = t then m else 0) c (with_activity u f c)"
proof (cases "fmlookup (ct_states c) u")
  case None
  then show ?thesis using assms(1) by (simp add: with_activity_def accounted_same)
next
  case (Some s)
  then have ok: "turn_ok s" "ta_terminal_id s = u" using assms(1) by (auto simp: claude_wf_def)
  have "accounted t (if u = t then m else 0) c (put_activity u (fst (f s)) c, snd (f s))"
    using assms Some ok assms(2) [OF ok(1)] by (auto simp: accounted_def claude_wf_def turns_owed_def)
  then show ?thesis using Some by (simp add: with_activity_def case_prod_beta Let_def)
qed

section \<open>Every operation keeps the account\<close>

lemmas local_ops = turn_ok_def owes_def Let_def

lemma rebind_local:
  "turn_ok s \<Longrightarrow> turn_ok (fst (rebind session s)) \<and> ta_terminal_id (fst (rebind session s)) = ta_terminal_id s
    \<and> owes (fst (rebind session s)) \<le> owes s + 0 \<and> completion_seqs t (snd (rebind session s)) = []"
  by (auto simp: rebind_def local_ops)

lemma rebind_accounted: "claude_wf c \<Longrightarrow> accounted t 0 c (with_activity u (rebind session) c)"
  using accounted_with_activity [of c "rebind session" 0 t u] rebind_local by simp

lemma track_accounted:
  assumes "claude_wf c"
  shows "accounted t 0 c (track_terminal u session at c)"
proof (cases "fmlookup (ct_states c) u")
  case None
  have "turn_ok (fresh_activity u session at)" "ta_terminal_id (fresh_activity u session at) = u"
    "owes (fresh_activity u session at) = 0"
    by (simp_all add: fresh_activity_def local_ops)
  then show ?thesis using assms None
    by (auto simp: track_terminal_def Let_def accounted_def claude_wf_def turns_owed_def)
next
  case (Some s)
  then show ?thesis
    using assms rebind_accounted by (cases session) (simp_all add: track_terminal_def accounted_same)
qed

lemma bind_accounted: "claude_wf c \<Longrightarrow> accounted t 0 c (bind_session u session c)"
  by (simp add: bind_session_def rebind_accounted)

lemma exit_accounted: "claude_wf c \<Longrightarrow> accounted t 0 c (note_exit u c)"
  by (auto simp: note_exit_def accounted_def claude_wf_def turns_owed_def split: option.splits)

lemma input_local:
  "turn_ok s \<Longrightarrow> turn_ok (fst (input_activity data at confirmable s))
    \<and> ta_terminal_id (fst (input_activity data at confirmable s)) = ta_terminal_id s
    \<and> owes (fst (input_activity data at confirmable s)) \<le> owes s + (if is_submit_input data then 1 else 0)
    \<and> completion_seqs t (snd (input_activity data at confirmable s)) = []"
  by (auto simp: input_activity_def local_ops not_busy)

lemma input_accounted:
  "claude_wf c \<Longrightarrow>
    accounted t (if u = t then if is_submit_input data then 1 else 0 else 0) c (note_input u data at confirmable c)"
  unfolding note_input_def by (rule accounted_with_activity) (simp_all add: input_local)

lemma record_seq:
  "fst (record_turn_completion u at l) = seq_of u l + 1"
  "seq_of t (snd (record_turn_completion u at l)) = (if u = t then seq_of u l + 1 else seq_of t l)"
  by (simp_all add: record_turn_completion_def seq_of_def Let_def)

lemma complete_turns_account:
  "complete_turns n u session at k l = (left, l', es) \<Longrightarrow>
    left = k - n \<and> length es = min n k
    \<and> seq_of t l' = seq_of t l + int (if t = u then min n k else 0)
    \<and> completion_seqs t es = [seq_of t l + 1 .. seq_of t l']"
proof (induction n arbitrary: k l left l' es)
  case (Suc n)
  show ?case
  proof (cases "k = 0")
    case False
    obtain seq l1 where one: "record_turn_completion u at l = (seq, l1)" by fastforce
    obtain left' l2 es' where more: "complete_turns n u session at (k - 1) l1 = (left', l2, es')"
      by (metis surj_pair)
    have eqs: "left = left'" "l' = l2" "es = TurnComplete u session at seq # es'"
      using Suc.prems False one more by simp_all
    have seqs: "seq = seq_of u l + 1" "seq_of t l1 = (if u = t then seq_of u l + 1 else seq_of t l)"
      using record_seq(1) [of u at l] record_seq(2) [of t u at l] one by simp_all
    note IH = Suc.IH [OF more]
    show ?thesis
    proof (cases "u = t")
      case True
      then have "seq_of t l + 1 \<le> seq_of t l2" using IH seqs(2) by simp
      then have "[seq_of t l + 1 .. seq_of t l2] = (seq_of t l + 1) # [seq_of t l1 + 1 .. seq_of t l2]"
        using True seqs upto_rec1 by simp
      moreover have "Suc (min n (k - 1)) = min (Suc n) k" using False by simp
      ultimately show ?thesis using IH seqs False True unfolding eqs by (simp del: min_Suc_Suc)
    next
      case other: False
      then show ?thesis using IH seqs False unfolding eqs by simp
    qed
  qed (use Suc.prems in simp)
qed simp

lemma output_accounted:
  assumes "claude_wf c"
  shows "accounted t 0 c (note_output u data at c)"
proof (cases "fmlookup (ct_states c) u")
  case None
  then show ?thesis using assms by (simp add: note_output_def accounted_same)
next
  case (Some s0)
  then have ok0: "turn_ok s0" "ta_terminal_id s0 = u" using assms by (auto simp: claude_wf_def)
  obtain cleaned count parser where ext:
    "extract_turn_complete_signals data ''claude'' (ta_parser_state s0) = ((cleaned, count), parser)"
    by (metis surj_pair)
  define s1 where "s1 = s0\<lparr>ta_parser_state := parser\<rparr>"
  define n where "n = min count (count_tracker_turn_complete_signals data (ta_parser_state s0))"
  show ?thesis
  proof (cases "count = 0 \<or> n = 0")
    case True
    then have "note_output u data at c = (put_activity u (observed_if_busy at s1) c, [])"
      using Some ext by (simp add: note_output_def Let_def s1_def n_def)
    then show ?thesis using assms Some ok0
      by (auto simp: accounted_def claude_wf_def turns_owed_def s1_def observed_if_busy_def local_ops)
  next
    case False
    define s where "s = confirm_by_bell s1"
    obtain left l' es where turns:
      "complete_turns n u (ta_session_id s) at (ta_in_flight s) (ct_ledger c) = (left, l', es)"
      by (metis surj_pair)
    define s3 where "s3 = (let s2 = s\<lparr>ta_in_flight := left, ta_last_observed_at := at\<rparr> in
      if es = [] then s2
      else s2\<lparr>ta_phase := (if 0 < left then ClaudeBusy else ClaudeIdle), ta_updated_at := at\<rparr>)"
    have out: "note_output u data at c =
        (put_activity u s3 (c\<lparr>ct_ledger := l'\<rparr>), commit_change (Some (to_record s)) (to_record s3) @ es)"
      using Some ext False turns
      by (simp add: note_output_def Let_def s1_def [symmetric] n_def [symmetric] s_def [symmetric] s3_def)
    note tot = complete_turns_account [OF turns, of t]
    have conf: "turn_ok s" "ta_terminal_id s = u" "owes s = owes s0"
      "ta_in_flight s = owes s" "ta_phase s = ta_phase s0"
      using ok0 by (auto simp: s_def confirm_by_bell_def s1_def local_ops not_busy)
    have left: "left = ta_in_flight s - n" "0 < n" "es = [] \<longleftrightarrow> ta_in_flight s = 0"
      using tot False by auto
    have s3: "turn_ok s3" "ta_terminal_id s3 = u" "owes s3 = ta_in_flight s - n"
    proof -
      have idle: "ta_phase s = ClaudeIdle \<Longrightarrow> ta_in_flight s = 0"
        and busy: "ta_phase s = ClaudeBusy \<Longrightarrow> 0 < ta_in_flight s \<and> ta_busy_confirmed s"
        using ok0 by (auto simp: s_def confirm_by_bell_def s1_def turn_ok_def)
      show "turn_ok s3" "owes s3 = ta_in_flight s - n"
        using idle busy left by (cases "ta_phase s"; auto simp: s3_def local_ops)+
      show "ta_terminal_id s3 = u" using conf(2) by (simp add: s3_def Let_def)
    qed
    let ?c = "put_activity u s3 (c\<lparr>ct_ledger := l'\<rparr>)"
    have wf: "claude_wf ?c" using assms s3 by (auto simp: claude_wf_def)
    have owed: "turns_owed t ?c = (if u = t then owes s0 - n else turns_owed t c)"
      "u = t \<Longrightarrow> turns_owed t c = owes s0"
      using s3 conf Some by (simp_all add: turns_owed_def)
    have es: "completion_seqs t es = [seq_of t (ct_ledger c) + 1 .. seq_of t l']"
      "seq_of t (ct_ledger c) \<le> seq_of t l'"
      "length (completion_seqs t es) = (if t = u then min n (owes s0) else 0)"
      using tot conf(3,4) by simp_all
    have "length (completion_seqs t es) + turns_owed t ?c \<le> turns_owed t c"
      using es(3) owed by (cases "u = t") simp_all
    then show ?thesis using wf es(1,2) unfolding out accounted_def by simp
  qed
qed

lemma ended_accounted: "claude_wf c \<Longrightarrow> accounted t 0 c (note_verified_ended u at c)"
  by (auto simp: note_verified_ended_def accounted_def claude_wf_def turns_owed_def settled_idle_def
      local_ops case_prod_beta record_seq put_activity_def split: option.splits)

lemma lapse_local:
  "turn_ok s \<Longrightarrow> turn_ok (fst (claude_lapse dm at s)) \<and> ta_terminal_id (fst (claude_lapse dm at s)) = ta_terminal_id s
    \<and> owes (fst (claude_lapse dm at s)) \<le> owes s \<and> completion_seqs t (snd (claude_lapse dm at s)) = []"
  by (auto simp: claude_lapse_def deadman_lapse_def local_ops not_busy split: option.splits)

lemma completion_seqs_concat: "(\<And>es. es \<in> set ess \<Longrightarrow> completion_seqs t es = []) \<Longrightarrow> completion_seqs t (concat ess) = []"
  by (induction ess) auto

lemma expire_accounted:
  assumes "claude_wf c" and "enumerates order (ct_states c)"
  shows "accounted t 0 c (claude_expire order at c)"
proof -
  let ?f = "\<lambda>_. claude_lapse (ct_busy_deadman_ms c) at"
  let ?m = "fst (sweep_states ?f order (ct_states c))"
  have after: "fmlookup ?m k = map_option (\<lambda>s. fst (claude_lapse (ct_busy_deadman_ms c) at s)) (fmlookup (ct_states c) k)"
    for k using sweep_all_lookup [OF assms(2), of ?f k] .
  have out: "completion_seqs t (snd (sweep_states ?f order (ct_states c))) = []"
    using assms lapse_local
    by (subst sweep_states_out)
       (auto simp: enumerates_def claude_wf_def split: option.splits intro!: completion_seqs_concat)
  have wf: "claude_wf (c\<lparr>ct_states := ?m\<rparr>)"
    using assms(1) lapse_local by (auto simp: claude_wf_def after)
  have "turns_owed t (c\<lparr>ct_states := ?m\<rparr>) \<le> turns_owed t c"
    using assms(1) lapse_local by (auto simp: claude_wf_def turns_owed_def after split: option.splits)
  then show ?thesis
    using out wf by (simp add: claude_expire_def accounted_def case_prod_beta Let_def)
qed

lemma verify_accounted:
  assumes "claude_wf c"
  shows "accounted t 0 c (note_verified_busy u at c)"
    and "accounted t 0 c (note_verify_failed u at c)"
    and "accounted t 0 c (note_submit_confirmed u at c)"
    and "accounted t 0 c (note_submit_unconfirmed u at c)"
    and "accounted t 0 c (note_submit_probe_unavailable u c)"
proof -
  note rule = accounted_with_activity [OF assms, where m = 0 and u = u and t = t, simplified]
  show "accounted t 0 c (note_verified_busy u at c)"
    unfolding note_verified_busy_def by (rule rule) (auto simp: observed_if_busy_def local_ops)
  show "accounted t 0 c (note_verify_failed u at c)"
    unfolding note_verify_failed_def by (rule rule) (auto simp: settled_idle_def local_ops)
  show "accounted t 0 c (note_submit_confirmed u at c)"
    unfolding note_submit_confirmed_def by (rule rule) (auto simp: local_ops)
  show "accounted t 0 c (note_submit_unconfirmed u at c)"
    unfolding note_submit_unconfirmed_def by (rule rule) (auto simp: local_ops)
  show "accounted t 0 c (note_submit_probe_unavailable u c)"
    unfolding note_submit_probe_unavailable_def by (rule rule) (auto simp: local_ops)
qed

section \<open>Runs\<close>

text \<open>A sweep visits every state once; nothing else is asked of an operation.\<close>

fun claude_op_ok :: "ClaudeOp \<Rightarrow> ClaudeTracker \<Rightarrow> bool" where
  "claude_op_ok (ClaudeExpire order _) c = enumerates order (ct_states c)"
| "claude_op_ok _ c = True"

fun claude_run_ok :: "ClaudeOp list \<Rightarrow> ClaudeTracker \<Rightarrow> bool" where
  "claude_run_ok [] c = True"
| "claude_run_ok (op # ops) c = (claude_op_ok op c \<and> claude_run_ok ops (fst (claude_perform op c)))"

fun submits :: "string \<Rightarrow> ClaudeOp list \<Rightarrow> nat" where
  "submits t [] = 0"
| "submits t (Input u data _ _ # ops) = (if u = t \<and> is_submit_input data then 1 else 0) + submits t ops"
| "submits t (_ # ops) = submits t ops"

lemma submits_Cons: "submits t (op # ops) = submits t [op] + submits t ops"
  by (cases op) simp_all

lemma perform_accounted:
  assumes "claude_wf c" and "claude_op_ok op c"
  shows "accounted t (submits t [op]) c (claude_perform op c)"
proof (cases op)
  case (Input u data at confirmable)
  then show ?thesis using input_accounted [OF assms(1), of t u data at confirmable] by (simp split: if_splits)
qed (use assms in \<open>simp_all add: track_accounted bind_accounted output_accounted exit_accounted
  expire_accounted ended_accounted verify_accounted\<close>)

lemma upto_join: "a \<le> b \<Longrightarrow> b \<le> c \<Longrightarrow> [a + 1 .. b] @ [b + 1 .. c] = [a + 1 .. c]" for a b c :: int
  using upto_split2 [of "a + 1" b c] by (cases "a = b") simp_all

lemma claude_run_accounted:
  "claude_wf c \<Longrightarrow> claude_run_ok ops c \<Longrightarrow> accounted t (submits t ops) c (claude_run ops c)"
proof (induction ops arbitrary: c)
  case Nil
  then show ?case by (simp add: accounted_same)
next
  case (Cons op ops)
  define r where "r = claude_perform op c"
  have one: "accounted t (submits t [op]) c r"
    using perform_accounted Cons.prems by (simp add: r_def)
  then have "claude_wf (fst r)" by (simp add: accounted_def)
  then have more: "accounted t (submits t ops) (fst r) (claude_run ops (fst r))"
    using Cons.IH Cons.prems(2) by (simp add: r_def)
  have run: "claude_run (op # ops) c
      = (fst (claude_run ops (fst r)), snd r @ snd (claude_run ops (fst r)))"
    by (simp add: r_def case_prod_beta Let_def)
  show ?case
    using one more submits_Cons [of t op ops]
    unfolding run accounted_def by (auto simp: upto_join simp del: upto.simps)
qed

lemma claude_new_wf: "claude_wf claude_tracker_new"
  by (simp add: claude_wf_def claude_tracker_new_def)

section \<open>The tracker as an alarm clock\<close>

text \<open>A grace deadline matters only while a provisional submit waits for it.\<close>

definition normal :: "TerminalActivity \<Rightarrow> TerminalActivity" where
  "normal s = (if ta_phase s = ClaudeBusy \<and> \<not> ta_busy_confirmed s then s else s\<lparr>ta_submit_grace_deadline := None\<rparr>)"

lemma deadman_asleep:
  "ta_phase s \<noteq> ClaudeBusy \<or> at < ta_last_observed_at s + dm + 1 \<Longrightarrow> deadman_lapse dm at s = (s, [])"
  by (auto simp: deadman_lapse_def)

lemma alarm_busy:
  "ta_phase s = ClaudeBusy \<Longrightarrow> awake_by at (claude_alarm dm s) \<longleftrightarrow>
    ta_last_observed_at s + dm + 1 \<le> at \<or>
    (\<not> ta_busy_confirmed s \<and> awake_by at (ta_submit_grace_deadline s))"
  by (simp add: claude_alarm_def awake_by_earlier Let_def)

lemma alarm_idle: "ta_phase s \<noteq> ClaudeBusy \<Longrightarrow> \<not> awake_by at (claude_alarm dm s)"
  by (simp add: claude_alarm_def)

lemma lapse_asleep:
  assumes "\<not> awake_by at (claude_alarm dm s)"
  shows "snd (claude_lapse dm at s) = [] \<and> normal (fst (claude_lapse dm at s)) = normal s"
proof -
  have quiet: "ta_phase s \<noteq> ClaudeBusy \<or> at < ta_last_observed_at s + dm + 1"
    "ta_phase s = ClaudeBusy \<Longrightarrow> \<not> ta_busy_confirmed s \<Longrightarrow> \<not> awake_by at (ta_submit_grace_deadline s)"
    using assms alarm_busy [of s at dm] by auto
  have cleared: "deadman_lapse dm at (s\<lparr>ta_submit_grace_deadline := None\<rparr>) = (s\<lparr>ta_submit_grace_deadline := None\<rparr>, [])"
    using quiet(1) by (intro deadman_asleep) simp
  show ?thesis
  proof (cases "ta_submit_grace_deadline s")
    case None
    then show ?thesis by (simp add: claude_lapse_def deadman_asleep [OF quiet(1)])
  next
    case (Some d)
    then show ?thesis
      using quiet(2) by (auto simp: claude_lapse_def deadman_asleep [OF quiet(1)] cleared normal_def)
  qed
qed

text \<open>After one sweep a state that is still due waits for its deadman only, and the next one answers that.\<close>

lemma deadman_calm:
  assumes "0 \<le> dm" and "\<not> ta_busy_confirmed s \<Longrightarrow> \<not> awake_by at (ta_submit_grace_deadline s)"
  shows "\<not> awake_by at (claude_alarm dm (fst (deadman_lapse dm at s)))"
proof (cases "ta_phase s = ClaudeBusy")
  case True
  then have "ta_phase (fst (deadman_lapse dm at s)) = ClaudeBusy"
    "at < ta_last_observed_at (fst (deadman_lapse dm at s)) + dm + 1"
    "ta_busy_confirmed (fst (deadman_lapse dm at s)) = ta_busy_confirmed s"
    "ta_submit_grace_deadline (fst (deadman_lapse dm at s)) = ta_submit_grace_deadline s"
    using assms(1) by (simp_all add: deadman_lapse_def)
  then show ?thesis using assms(2) by (cases "ta_busy_confirmed s") (simp_all add: alarm_busy)
qed (simp add: deadman_lapse_def alarm_idle)

lemma lapse_not_due:
  assumes "0 \<le> dm"
    and "ta_phase s = ClaudeBusy \<Longrightarrow> \<not> ta_busy_confirmed s \<Longrightarrow> \<not> awake_by at (ta_submit_grace_deadline s)"
  shows "\<not> awake_by at (claude_alarm dm (fst (claude_lapse dm at s)))"
proof (cases "ta_phase s = ClaudeBusy")
  case True
  have "\<not> awake_by at (claude_alarm dm (fst (deadman_lapse dm at s)))"
    "\<not> awake_by at (claude_alarm dm (fst (deadman_lapse dm at (s\<lparr>ta_submit_grace_deadline := None\<rparr>))))"
    using assms True by (intro deadman_calm; simp)+
  then show ?thesis
    using assms(2) True by (cases "ta_submit_grace_deadline s") (auto simp: claude_lapse_def)
next
  case False
  then have "ta_phase (fst (claude_lapse dm at s)) \<noteq> ClaudeBusy"
    by (auto simp: claude_lapse_def deadman_lapse_def split: option.splits)
  then show ?thesis by (rule alarm_idle)
qed

lemma lapse_settles_grace:
  "ta_phase (fst (claude_lapse dm at s)) = ClaudeBusy \<Longrightarrow> \<not> ta_busy_confirmed (fst (claude_lapse dm at s)) \<Longrightarrow>
    \<not> awake_by at (ta_submit_grace_deadline (fst (claude_lapse dm at s)))"
proof (cases "ta_submit_grace_deadline s")
  case (Some d)
  assume "ta_phase (fst (claude_lapse dm at s)) = ClaudeBusy" "\<not> ta_busy_confirmed (fst (claude_lapse dm at s))"
  then show ?thesis
    using Some by (cases "d \<le> at") (auto simp: claude_lapse_def deadman_lapse_def CLAUDE_SUBMIT_GRACE_MS_def Let_def
        split: if_splits)
qed (simp add: claude_lapse_def deadman_lapse_def)

lemma lapse_calm:
  assumes "0 \<le> dm"
  shows "\<not> awake_by at (claude_alarm dm (fst (claude_lapse dm at (fst (claude_lapse dm at s)))))"
  using assms lapse_settles_grace by (rule lapse_not_due)

interpretation claude_clock: alarm_clock "\<lambda>s. 0 \<le> dm" normal "claude_alarm dm" "\<lambda>at _. claude_lapse dm at"
  for dm by unfold_locales (simp_all add: lapse_asleep lapse_calm)

end
