(* ===== verification/Idle_Gate.thy ===== *)
theory Idle_Gate
  imports Alarm_Clock
begin

text \<open>
  The truly-idle gate (crates/freshell-activity/src/idle.rs): a turn boundary arms a grace window, activity
  extends it, a busy report cancels it, and a window that lapses announces the terminal idle, once.
  Instants are \<open>i64\<close> milliseconds, integers here.
\<close>

section \<open>State\<close>

definition IDLE_GRACE_MS :: int where "IDLE_GRACE_MS = 2000"

datatype TerminalIdleReason = Grace | QueueEmpty
datatype IdleGatePhase = GateBusy | GatePending | GateIdle

record IdleEmission =
  em_terminal_id :: string
  em_at :: int
  em_reason :: TerminalIdleReason

record TerminalIdleState =
  ti_busy :: bool
  ti_pending :: bool
  ti_saw_queue_evidence :: bool
  ti_deadline :: "int option"

record IdleGate =
  ig_states :: "(string, TerminalIdleState) fmap"
  ig_grace_ms :: int

definition idle_state_default :: TerminalIdleState where
  "idle_state_default = \<lparr>ti_busy = False, ti_pending = False, ti_saw_queue_evidence = False, ti_deadline = None\<rparr>"

definition with_grace_ms :: "int \<Rightarrow> IdleGate" where
  "with_grace_ms grace_ms = \<lparr>ig_states = fmempty, ig_grace_ms = grace_ms\<rparr>"

definition idle_gate_new :: IdleGate where
  "idle_gate_new = with_grace_ms IDLE_GRACE_MS"

text \<open>\<open>states.entry(id).or_default()\<close> and the write through it; \<open>states.get_mut(id)\<close>.\<close>

definition entry_state :: "string \<Rightarrow> IdleGate \<Rightarrow> TerminalIdleState" where
  "entry_state t g = (case fmlookup (ig_states g) t of None \<Rightarrow> idle_state_default | Some s \<Rightarrow> s)"

definition put_state :: "string \<Rightarrow> TerminalIdleState \<Rightarrow> IdleGate \<Rightarrow> IdleGate" where
  "put_state t s g = g\<lparr>ig_states := fmupd t s (ig_states g)\<rparr>"

section \<open>Reports\<close>

definition note_phase :: "string \<Rightarrow> IdleGatePhase \<Rightarrow> IdleGate \<Rightarrow> IdleGate" where
  "note_phase t phase g =
     (let s = entry_state t g;
          next_busy = (phase = GateBusy \<or> phase = GatePending);
          s1 = (if next_busy
                then s\<lparr>ti_saw_queue_evidence :=
                         ti_saw_queue_evidence s \<or> ti_busy s \<and> \<not> ti_pending s \<and> phase = GatePending,
                       ti_deadline := None\<rparr>
                else s)
      in put_state t (s1\<lparr>ti_busy := next_busy, ti_pending := phase = GatePending\<rparr>) g)"

definition note_turn_boundary :: "string \<Rightarrow> int \<Rightarrow> IdleGate \<Rightarrow> IdleGate" where
  "note_turn_boundary t at g =
     (let s = entry_state t g
      in if ti_busy s then put_state t (s\<lparr>ti_saw_queue_evidence := True\<rparr>) g
         else put_state t (s\<lparr>ti_deadline := Some (at + ig_grace_ms g)\<rparr>) g)"

definition note_busy :: "string \<Rightarrow> IdleGate \<Rightarrow> IdleGate" where
  "note_busy t g =
     (case fmlookup (ig_states g) t of
        None \<Rightarrow> g
      | Some s \<Rightarrow> put_state t (s\<lparr>ti_deadline := None\<rparr>) g)"

definition note_activity :: "string \<Rightarrow> int \<Rightarrow> IdleGate \<Rightarrow> IdleGate" where
  "note_activity t at g =
     (case fmlookup (ig_states g) t of
        None \<Rightarrow> g
      | Some s \<Rightarrow>
          (case ti_deadline s of
             None \<Rightarrow> g
           | Some deadline \<Rightarrow> put_state t (s\<lparr>ti_deadline := Some (max deadline (at + ig_grace_ms g))\<rparr>) g))"

definition gate_note_exit :: "string \<Rightarrow> IdleGate \<Rightarrow> IdleGate" where
  "gate_note_exit t g = g\<lparr>ig_states := fmdrop t (ig_states g)\<rparr>"

definition is_engaged :: "string \<Rightarrow> IdleGate \<Rightarrow> bool" where
  "is_engaged t g =
     (case fmlookup (ig_states g) t of
        None \<Rightarrow> False
      | Some s \<Rightarrow> ti_busy s \<and> \<not> ti_pending s \<or> ti_deadline s \<noteq> None)"

section \<open>Expiry\<close>

text \<open>One turn of the loop of \<open>expire\<close>.\<close>

definition idle_lapse :: "int \<Rightarrow> string \<Rightarrow> TerminalIdleState \<Rightarrow> TerminalIdleState \<times> IdleEmission list" where
  "idle_lapse at t s =
     (case ti_deadline s of
        None \<Rightarrow> (s, [])
      | Some deadline \<Rightarrow>
          if at < deadline then (s, [])
          else let s1 = s\<lparr>ti_deadline := None\<rparr>
               in if ti_busy s then (s1, [])
                  else (s1\<lparr>ti_saw_queue_evidence := False\<rparr>,
                        [\<lparr>em_terminal_id = t, em_at = at,
                          em_reason = (if ti_saw_queue_evidence s then QueueEmpty else Grace)\<rparr>]))"

definition expire :: "string list \<Rightarrow> int \<Rightarrow> IdleGate \<Rightarrow> IdleGate \<times> IdleEmission list" where
  "expire order at g =
     (let (states, emissions) = sweep_states (idle_lapse at) order (ig_states g)
      in (g\<lparr>ig_states := states\<rparr>, emissions))"

definition gate_next_deadline :: "string list \<Rightarrow> IdleGate \<Rightarrow> int option" where
  "gate_next_deadline order g = next_alarm ti_deadline order (ig_states g)"

interpretation gate_clock: alarm_clock "\<lambda>_. True" "\<lambda>s. s" ti_deadline idle_lapse
  by unfold_locales (auto simp: idle_lapse_def Let_def split: option.splits if_splits)

section \<open>The gate of one terminal\<close>

datatype GateOp =
    Phase string IdleGatePhase
  | Boundary string int
  | BusyHint string
  | Activity string int
  | GateExit string
  | Expire "string list" int

fun gate_perform :: "GateOp \<Rightarrow> IdleGate \<Rightarrow> IdleGate" where
  "gate_perform (Phase t p) g = note_phase t p g"
| "gate_perform (Boundary t at) g = note_turn_boundary t at g"
| "gate_perform (BusyHint t) g = note_busy t g"
| "gate_perform (Activity t at) g = note_activity t at g"
| "gate_perform (GateExit t) g = gate_note_exit t g"
| "gate_perform (Expire order at) g = fst (expire order at g)"

text \<open>What a terminal's window and its busy flag are, read off the reports alone.\<close>

record Window =
  w_busy :: bool
  w_until :: "int option"

fun track_window :: "int \<Rightarrow> string \<Rightarrow> GateOp \<Rightarrow> Window \<Rightarrow> Window" where
  "track_window gr t (Phase u p) w =
     (if u \<noteq> t then w
      else if p = GateIdle then w\<lparr>w_busy := False\<rparr> else \<lparr>w_busy = True, w_until = None\<rparr>)"
| "track_window gr t (Boundary u at) w =
     (if u \<noteq> t \<or> w_busy w then w else w\<lparr>w_until := Some (at + gr)\<rparr>)"
| "track_window gr t (BusyHint u) w = (if u \<noteq> t then w else w\<lparr>w_until := None\<rparr>)"
| "track_window gr t (Activity u at) w =
     (if u \<noteq> t then w else w\<lparr>w_until := map_option (\<lambda>d. max d (at + gr)) (w_until w)\<rparr>)"
| "track_window gr t (GateExit u) w = (if u \<noteq> t then w else \<lparr>w_busy = False, w_until = None\<rparr>)"
| "track_window gr t (Expire _ at) w = (if awake_by at (w_until w) then w\<lparr>w_until := None\<rparr> else w)"

definition gate_window :: "string \<Rightarrow> IdleGate \<Rightarrow> Window" where
  "gate_window t g = \<lparr>w_busy = ti_busy (entry_state t g), w_until = ti_deadline (entry_state t g)\<rparr>"

end
