(* ===== verification/Quit_Intent.thy ===== *)
theory Quit_Intent
  imports Turn_Signal
begin

text \<open>
  The detection of a human quit on the input stream (\<open>match_esc\<close> and \<open>classify_input\<close> of
  crates/freshell-activity/src/signal.rs): Ctrl+C, Ctrl+D, or a line \<open>/quit\<close> or \<open>/exit\<close> that is
  submitted, typed or pasted. Paste markers and mode reports are consumed; any other escape sequence
  poisons the line. The cap on the line is in bytes, as \<open>String::len\<close> counts them.
\<close>

section \<open>State\<close>

definition QUIT_LINE_CAP :: nat where "QUIT_LINE_CAP = 32"

record QuitIntentState =
  qi_line :: utext
  qi_unmatchable :: bool
  qi_in_paste :: bool
  qi_pending_esc :: utext

definition quit_state_default :: QuitIntentState where
  "quit_state_default = \<lparr>qi_line = [], qi_unmatchable = False, qi_in_paste = False, qi_pending_esc = []\<rparr>"

datatype InputClass = QuitIntent | NonQuitSubmit | Other
datatype EscMatch = EscPrefix | EscPasteBegin | EscPasteEnd | EscDecrqm | EscFail

section \<open>Escape sequences\<close>

definition PASTE_BEGIN :: utext where "PASTE_BEGIN = [0x1b, 0x5b, 0x32, 0x30, 0x30, 0x7e]"
definition PASTE_END :: utext where "PASTE_END = [0x1b, 0x5b, 0x32, 0x30, 0x31, 0x7e]"

text \<open>The states of the \<open>DECRQM\<close> machine; None is \<open>decrqm = false\<close>.\<close>

definition decrqm_step :: "nat \<Rightarrow> nat \<Rightarrow> nat option" where
  "decrqm_step st c =
     (if st = 0 \<and> c = 0x1b then Some 1
      else if st = 1 \<and> c = 0x5b then Some 2
      else if st = 2 \<and> c = 0x3f then Some 3
      else if st = 3 \<and> is_digit c then Some 4
      else if st = 4 \<and> is_digit c then Some 4
      else if st = 4 \<and> c = 0x3b then Some 5
      else if st = 5 \<and> is_digit c then Some 6
      else if st = 6 \<and> c = 0x24 then Some 7
      else if st = 7 \<and> c = 0x79 then Some 8
      else None)"

fun decrqm_scan :: "utext \<Rightarrow> nat \<Rightarrow> nat option" where
  "decrqm_scan [] st = Some st"
| "decrqm_scan (c # cs) st = (case decrqm_step st c of None \<Rightarrow> None | Some st' \<Rightarrow> decrqm_scan cs st')"

definition match_esc :: "utext \<Rightarrow> EscMatch" where
  "match_esc sq =
     (if sq = PASTE_BEGIN then EscPasteBegin
      else if sq = PASTE_END then EscPasteEnd
      else let paste_prefix = (prefix sq PASTE_BEGIN \<or> prefix sq PASTE_END);
               scan = decrqm_scan sq 0
           in if scan = Some 8 then EscDecrqm
              else if paste_prefix \<or> (case scan of None \<Rightarrow> False | Some st \<Rightarrow> st < 8) then EscPrefix
              else EscFail)"

section \<open>Lines\<close>

definition trim_start :: "utext \<Rightarrow> utext" where
  "trim_start t = dropWhile is_whitespace t"

definition trim :: "utext \<Rightarrow> utext" where
  "trim t = rev (trim_start (rev (trim_start t)))"

definition SLASH_QUIT :: utext where "SLASH_QUIT = [0x2f, 0x71, 0x75, 0x69, 0x74]"
definition SLASH_EXIT :: utext where "SLASH_EXIT = [0x2f, 0x65, 0x78, 0x69, 0x74]"

definition is_quit_line :: "utext \<Rightarrow> bool" where
  "is_quit_line line = (trim line = SLASH_QUIT \<or> trim line = SLASH_EXIT)"

text \<open>Typed and pasted characters join the line the same way, up to the cap.\<close>

definition push_char :: "nat \<Rightarrow> QuitIntentState \<Rightarrow> QuitIntentState" where
  "push_char c s =
     (if QUIT_LINE_CAP \<le> byte_len (qi_line s) then s\<lparr>qi_unmatchable := True\<rparr>
      else if \<not> qi_unmatchable s then s\<lparr>qi_line := qi_line s @ [c]\<rparr> else s)"

definition pop_char :: "QuitIntentState \<Rightarrow> QuitIntentState" where
  "pop_char s = s\<lparr>qi_line := butlast (qi_line s)\<rparr>"

definition clean_line :: "QuitIntentState \<Rightarrow> QuitIntentState" where
  "clean_line s = s\<lparr>qi_line := [], qi_unmatchable := False\<rparr>"

definition poison :: "QuitIntentState \<Rightarrow> QuitIntentState" where
  "poison s = s\<lparr>qi_line := [], qi_unmatchable := True\<rparr>"

section \<open>Classification\<close>

text \<open>The part of the loop's body behind the escape accumulator.\<close>

definition classify_plain :: "nat \<Rightarrow> InputClass \<Rightarrow> QuitIntentState \<Rightarrow> InputClass \<times> QuitIntentState" where
  "classify_plain c cl s =
     (if c = 0x1b then (cl, s\<lparr>qi_pending_esc := qi_pending_esc s @ [c]\<rparr>)
      else if qi_in_paste s then
        (if c = 0x0d \<or> c = 0x0a then (cl, clean_line s)
         else if 0x20 \<le> c \<and> c \<noteq> 0x7f then (cl, push_char c s)
         else (cl, poison s))
      else if c = 0x03 \<or> c = 0x04 then (QuitIntent, clean_line s)
      else if c = 0x0d \<or> c = 0x0a then
        (let line = trim (qi_line s);
             is_quit = (\<not> qi_unmatchable s \<and> (line = SLASH_QUIT \<or> line = SLASH_EXIT))
         in ((if is_quit then QuitIntent
              else if cl \<noteq> QuitIntent \<and> (line \<noteq> [] \<or> qi_unmatchable s) then NonQuitSubmit
              else cl),
             clean_line s))
      else if c = 0x7f \<or> c = 0x08 then (cl, pop_char s)
      else if 0x20 \<le> c then (cl, push_char c s)
      else (cl, poison s))"

definition classify_step :: "nat \<Rightarrow> InputClass \<Rightarrow> QuitIntentState \<Rightarrow> InputClass \<times> QuitIntentState" where
  "classify_step c cl s =
     (if qi_pending_esc s = [] then classify_plain c cl s
      else let s1 = s\<lparr>qi_pending_esc := qi_pending_esc s @ [c]\<rparr> in
        (case match_esc (qi_pending_esc s1) of
           EscPrefix \<Rightarrow> (cl, s1)
         | EscPasteBegin \<Rightarrow> (cl, s1\<lparr>qi_pending_esc := [], qi_in_paste := True\<rparr>)
         | EscPasteEnd \<Rightarrow> (cl, s1\<lparr>qi_pending_esc := [], qi_in_paste := False\<rparr>)
         | EscDecrqm \<Rightarrow> (cl, s1\<lparr>qi_pending_esc := []\<rparr>)
         | EscFail \<Rightarrow> classify_plain c cl (poison (s1\<lparr>qi_pending_esc := []\<rparr>))))"

fun classify_from :: "utext \<Rightarrow> InputClass \<Rightarrow> QuitIntentState \<Rightarrow> InputClass \<times> QuitIntentState" where
  "classify_from [] cl s = (cl, s)"
| "classify_from (c # data) cl s =
     (let (cl', s') = classify_step c cl s in classify_from data cl' s')"

definition classify_input :: "utext \<Rightarrow> QuitIntentState \<Rightarrow> InputClass \<times> QuitIntentState" where
  "classify_input data s = classify_from data Other s"

section \<open>Chunks\<close>

lemma classify_from_append:
  "classify_from (a @ b) cl s = (let (cl', s') = classify_from a cl s in classify_from b cl' s')"
  by (induction a arbitrary: cl s) (simp_all add: case_prod_beta Let_def)

text \<open>The class of a chunk is the strongest thing in it: a quit wins, then a later submit.\<close>

fun stronger :: "InputClass \<Rightarrow> InputClass \<Rightarrow> InputClass" where
  "stronger QuitIntent _ = QuitIntent"
| "stronger _ QuitIntent = QuitIntent"
| "stronger NonQuitSubmit _ = NonQuitSubmit"
| "stronger Other b = b"

lemma stronger_simps [simp]:
  "stronger a QuitIntent = QuitIntent" "stronger a Other = a" "stronger Other b = b" "stronger a a = a"
  by (cases a; cases b; simp)+

lemma stronger_assoc: "stronger (stronger a b) c = stronger a (stronger b c)"
  by (cases a; cases b; cases c) simp_all

lemma classify_step_class:
  "fst (classify_step c cl s) = stronger cl (fst (classify_step c Other s))"
  "snd (classify_step c cl s) = snd (classify_step c Other s)"
proof -
  have plain: "fst (classify_plain c cl s) = stronger cl (fst (classify_plain c Other s))"
    "snd (classify_plain c cl s) = snd (classify_plain c Other s)" for s
    by (cases cl; simp add: classify_plain_def Let_def)+
  show "fst (classify_step c cl s) = stronger cl (fst (classify_step c Other s))"
    "snd (classify_step c cl s) = snd (classify_step c Other s)"
    by (simp_all add: classify_step_def Let_def plain [symmetric] split: EscMatch.splits)
qed

lemma classify_from_class:
  "fst (classify_from data cl s) = stronger cl (fst (classify_from data Other s))
    \<and> snd (classify_from data cl s) = snd (classify_from data Other s)"
proof (induction data arbitrary: cl s)
  case (Cons c data)
  obtain k s' where one: "classify_step c Other s = (k, s')" by fastforce
  then have "classify_step c cl s = (stronger cl k, s')"
    using classify_step_class [of c cl s] by (simp add: prod_eq_iff)
  then show ?case
    using one Cons.IH [of "stronger cl k" s'] Cons.IH [of k s'] by (simp add: stronger_assoc)
qed simp

lemma classify_input_append:
  "classify_input (a @ b) s =
     (let (x, s') = classify_input a s; (y, s'') = classify_input b s' in (stronger x y, s''))"
  using classify_from_class [of b "fst (classify_from a Other s)" "snd (classify_from a Other s)"]
  by (simp add: classify_input_def classify_from_append case_prod_beta Let_def prod_eq_iff)

section \<open>Typing a line\<close>

definition printable :: "nat \<Rightarrow> bool" where
  "printable c = (0x20 \<le> c \<and> c \<noteq> 0x7f)"

lemma type_line:
  assumes "list_all printable cs" and "qi_pending_esc s = []" and "\<not> qi_in_paste s" and "\<not> qi_unmatchable s"
    and "byte_len (qi_line s @ butlast cs) < QUIT_LINE_CAP"
  shows "classify_from cs cl s = (cl, s\<lparr>qi_line := qi_line s @ cs\<rparr>)"
  using assms
proof (induction cs arbitrary: s)
  case (Cons c cs)
  have c: "0x20 \<le> c" "c \<noteq> 0x7f" using Cons.prems(1) by (simp_all add: printable_def)
  have room: "byte_len (qi_line s) < QUIT_LINE_CAP" using Cons.prems(5) by simp
  then have one: "classify_step c cl s = (cl, s\<lparr>qi_line := qi_line s @ [c]\<rparr>)"
    using c Cons.prems(2-4) by (simp add: classify_step_def classify_plain_def push_char_def Let_def)
  show ?case
  proof (cases "cs = []")
    case False
    then show ?thesis using Cons.IH [of "s\<lparr>qi_line := qi_line s @ [c]\<rparr>"] Cons.prems one by simp
  qed (simp add: one)
qed simp

lemma paste_line:
  assumes "list_all printable cs" and "qi_pending_esc s = []" and "qi_in_paste s" and "\<not> qi_unmatchable s"
    and "byte_len (qi_line s @ butlast cs) < QUIT_LINE_CAP"
  shows "classify_from cs cl s = (cl, s\<lparr>qi_line := qi_line s @ cs\<rparr>)"
  using assms
proof (induction cs arbitrary: s)
  case (Cons c cs)
  have c: "0x20 \<le> c" "c \<noteq> 0x7f" using Cons.prems(1) by (simp_all add: printable_def)
  have room: "byte_len (qi_line s) < QUIT_LINE_CAP" using Cons.prems(5) by simp
  then have one: "classify_step c cl s = (cl, s\<lparr>qi_line := qi_line s @ [c]\<rparr>)"
    using c Cons.prems(2-4) by (simp add: classify_step_def classify_plain_def push_char_def Let_def)
  show ?case
  proof (cases "cs = []")
    case False
    then show ?thesis using Cons.IH [of "s\<lparr>qi_line := qi_line s @ [c]\<rparr>"] Cons.prems one by simp
  qed (simp add: one)
qed simp

lemma paste_markers:
  assumes "qi_pending_esc s = []"
  shows "classify_from PASTE_BEGIN cl s = (cl, s\<lparr>qi_pending_esc := [], qi_in_paste := True\<rparr>)"
    and "classify_from PASTE_END cl s = (cl, s\<lparr>qi_pending_esc := [], qi_in_paste := False\<rparr>)"
  using assms
  by (simp_all add: PASTE_BEGIN_def PASTE_END_def classify_step_def classify_plain_def match_esc_def
      decrqm_step_def is_digit_def Let_def)

lemma submit_line:
  assumes "qi_pending_esc s = []" and "\<not> qi_in_paste s" and "\<not> qi_unmatchable s"
  shows "classify_step 0x0d Other s =
    ((if is_quit_line (qi_line s) then QuitIntent else if trim (qi_line s) \<noteq> [] then NonQuitSubmit else Other),
     s\<lparr>qi_line := []\<rparr>)"
  using assms by (simp add: classify_step_def classify_plain_def clean_line_def is_quit_line_def Let_def)

text \<open>Classifying a stream chunk by chunk.\<close>

fun classify_chunks :: "utext list \<Rightarrow> QuitIntentState \<Rightarrow> InputClass \<times> QuitIntentState" where
  "classify_chunks [] s = (Other, s)"
| "classify_chunks (d # ds) s =
     (let (x, s') = classify_input d s; (y, s'') = classify_chunks ds s' in (stronger x y, s''))"

lemma classify_chunks_concat: "classify_chunks chunks s = classify_input (concat chunks) s"
proof (induction chunks arbitrary: s)
  case (Cons d ds)
  then show ?case by (simp add: classify_input_append)
qed (simp add: classify_input_def)

end
