(* ===== verification/Claude_Hub.thy ===== *)
theory Claude_Hub
  imports Claude_Turns Idle_Gate Quit_Intent
begin

text \<open>
  The lane of the activity hub that serves claude terminals (crates/freshell-ws/src/activity.rs): the
  registry's events drive the tracker, the tracker's effects drive the truly-idle gate and the frames,
  the clock drives both, and the exit of a terminal decides on the death bell. What the other lanes keep
  (the codex, amplifier and opencode trackers, their attach machinery) is not modelled; what the exit arm
  asks of them are arguments. The transcript probes read files with the lock released, so the two halves
  of a submit are two operations and the answer of a probe is an argument.
\<close>

section \<open>State\<close>

definition QUIT_INTENT_TTL_MS :: int where "QUIT_INTENT_TTL_MS = 15000"

record HubInner =
  hub_claude :: ClaudeTracker
  hub_idle :: IdleGate
  hub_modes :: "(string, string) fmap"
  hub_claude_submit_offsets :: "(string, string \<times> nat) fmap"
  hub_quit_intent_lines :: "(string, QuitIntentState) fmap"
  hub_quit_intents :: "(string, int) fmap"

definition hub_default :: HubInner where
  "hub_default = \<lparr>hub_claude = claude_tracker_new, hub_idle = idle_gate_new, hub_modes = fmempty,
     hub_claude_submit_offsets = fmempty, hub_quit_intent_lines = fmempty, hub_quit_intents = fmempty\<rparr>"

datatype HubFrame =
    ClaudeActivityUpdated "ClaudeActivityRecord list" "string list"
  | TerminalTurnComplete string "string option" int int
  | TerminalIdle string int TerminalIdleReason

datatype SubmitProbe = ProbeConfirmed | NoTurnStarted | SubmitUnavailable
datatype TurnProbe = InFlight | Ended | TurnUnavailable

definition quit_intent_active :: "int option \<Rightarrow> int \<Rightarrow> bool" where
  "quit_intent_active marker_at exit_at =
     (case marker_at of None \<Rightarrow> False | Some t \<Rightarrow> exit_at - t \<le> QUIT_INTENT_TTL_MS)"

section \<open>Effects\<close>

definition note_changed_to_gate :: "(string \<times> IdleGatePhase) list \<Rightarrow> string list \<Rightarrow> IdleGate \<Rightarrow> IdleGate" where
  "note_changed_to_gate upserts remove g = fold gate_note_exit remove (fold (\<lambda>(t, p). note_phase t p) upserts g)"

definition gate_phase_of :: "ClaudePhase \<Rightarrow> IdleGatePhase" where
  "gate_phase_of p = (if p = ClaudeBusy then GateBusy else GateIdle)"

fun claude_frames :: "ClaudeEffect list \<Rightarrow> IdleGate \<Rightarrow> IdleGate \<times> HubFrame list \<times> string list" where
  "claude_frames [] g = (g, [], [])"
| "claude_frames (effect # effects) g =
     (let (g1, frames1, reads1) =
        (case effect of
           Changed upsert remove \<Rightarrow>
             (note_changed_to_gate (map (\<lambda>r. (car_terminal_id r, gate_phase_of (car_phase r))) upsert) remove g,
              [ClaudeActivityUpdated upsert remove], [])
         | TurnComplete t session at seq \<Rightarrow>
             (note_turn_boundary t at g, [TerminalTurnComplete t session at seq], [])
         | ForceRead t _ \<Rightarrow> (g, [], [t])
         | AttentionBoundary t at \<Rightarrow> (note_turn_boundary t at g, [], []));
          (g2, frames2, reads2) = claude_frames effects g1
      in (g2, frames1 @ frames2, reads1 @ reads2))"

text \<open>A call of the tracker whose effects are mapped at once.\<close>

definition drive_claude ::
  "(ClaudeTracker \<Rightarrow> ClaudeTracker \<times> ClaudeEffect list) \<Rightarrow> HubInner \<Rightarrow> HubInner \<times> HubFrame list \<times> string list" where
  "drive_claude call h =
     (let (claude, effects) = call (hub_claude h);
          (idle, frames, reads) = claude_frames effects (hub_idle h)
      in (h\<lparr>hub_claude := claude, hub_idle := idle\<rparr>, frames, reads))"

definition frames_only :: "HubInner \<times> HubFrame list \<times> string list \<Rightarrow> HubInner \<times> HubFrame list" where
  "frames_only r = (fst r, fst (snd r))"

section \<open>Registry events\<close>

definition handle_created :: "string \<Rightarrow> string option \<Rightarrow> int \<Rightarrow> HubInner \<Rightarrow> HubInner \<times> HubFrame list" where
  "handle_created t resume_session_id at h =
     frames_only (drive_claude (track_terminal t resume_session_id at)
       (h\<lparr>hub_modes := fmupd t ''claude'' (hub_modes h)\<rparr>))"

definition bind_claude_session :: "string \<Rightarrow> string \<Rightarrow> HubInner \<Rightarrow> HubInner \<times> HubFrame list" where
  "bind_claude_session t session_id h = frames_only (drive_claude (bind_session t session_id) h)"

text \<open>The first half of an input, under the first lock. The last component is the session to probe; then
  the tracker's turn is deferred to the second half.\<close>

definition note_quit_intent :: "string \<Rightarrow> utext \<Rightarrow> int \<Rightarrow> HubInner \<Rightarrow> HubInner" where
  "note_quit_intent t data at h =
     (let state = (case fmlookup (hub_quit_intent_lines h) t of None \<Rightarrow> quit_state_default | Some s \<Rightarrow> s);
          (cl, state') = classify_input data state;
          h1 = h\<lparr>hub_quit_intent_lines := fmupd t state' (hub_quit_intent_lines h)\<rparr>
      in case cl of
           QuitIntent \<Rightarrow> h1\<lparr>hub_quit_intents := fmupd t at (hub_quit_intents h1)\<rparr>
         | NonQuitSubmit \<Rightarrow> h1\<lparr>hub_quit_intents := fmdrop t (hub_quit_intents h1)\<rparr>
         | Other \<Rightarrow> h1)"

definition handle_input ::
  "bool \<Rightarrow> string \<Rightarrow> utext \<Rightarrow> int \<Rightarrow> HubInner \<Rightarrow> HubInner \<times> HubFrame list \<times> string option" where
  "handle_input has_truth t data at h =
     (if fmlookup (hub_modes h) t \<noteq> Some ''claude'' then (h, [], None)
      else
        let submit = is_submit_input data;
            h1 = (if submit then h\<lparr>hub_idle := note_busy t (hub_idle h)\<rparr> else h);
            h2 = note_quit_intent t data at h1;
            probe = (if submit \<and> has_truth then session_id_of t (hub_claude h2) else None)
        in case probe of
             Some session_id \<Rightarrow> (h2, [], Some session_id)
           | None \<Rightarrow>
               (let (h3, frames) = frames_only (drive_claude (note_input t data at False) h2)
                in (h3, frames, None)))"

text \<open>The second half, with the length the probe found.\<close>

definition apply_probed_input ::
  "string \<Rightarrow> utext \<Rightarrow> int \<Rightarrow> string \<Rightarrow> nat option \<Rightarrow> HubInner \<Rightarrow> HubInner \<times> HubFrame list" where
  "apply_probed_input t data at session_id len h =
     (let (h1, confirmable) =
        (case len of
           Some n \<Rightarrow>
             ((if is_awaiting_submit_confirm t (hub_claude h) then h
               else h\<lparr>hub_claude_submit_offsets := fmupd t (session_id, n) (hub_claude_submit_offsets h)\<rparr>), True)
         | None \<Rightarrow> (h, False))
      in frames_only (drive_claude (note_input t data at confirmable) h1))"

definition handle_output :: "string \<Rightarrow> utext \<Rightarrow> int \<Rightarrow> HubInner \<Rightarrow> HubInner \<times> HubFrame list" where
  "handle_output t data at h =
     (if fmlookup (hub_modes h) t \<noteq> Some ''claude'' then (h, [])
      else frames_only (drive_claude (note_output t data at) h))"

text \<open>What the other trackers say of the terminal: \<open>blocks_death_bell\<close>, and whether an approval or a
  permission is pending.\<close>

record OtherLanes =
  ol_blocks_death_bell :: bool
  ol_pending_approvals :: bool
  ol_pending_permissions :: bool

definition ring_death_bell :: "OtherLanes \<Rightarrow> string \<Rightarrow> int \<Rightarrow> bool \<Rightarrow> HubInner \<Rightarrow> bool" where
  "ring_death_bell others t at spontaneous h =
     (spontaneous \<and> \<not> quit_intent_active (fmlookup (hub_quit_intents h) t) at \<and>
      (is_engaged t (hub_idle h) \<and> \<not> ol_blocks_death_bell others
       \<or> ol_pending_approvals others
       \<or> ol_pending_permissions others \<and> \<not> ol_blocks_death_bell others))"

definition handle_exit :: "OtherLanes \<Rightarrow> string \<Rightarrow> int \<Rightarrow> bool \<Rightarrow> HubInner \<Rightarrow> HubInner \<times> HubFrame list" where
  "handle_exit others t at spontaneous h =
     (let bell = (if ring_death_bell others t at spontaneous h then [TerminalIdle t at Grace] else [])
      in if fmlookup (hub_modes h) t \<noteq> Some ''claude'' then (h, bell)
         else
           let h1 = h\<lparr>hub_modes := fmdrop t (hub_modes h), hub_idle := gate_note_exit t (hub_idle h),
                      hub_claude_submit_offsets := fmdrop t (hub_claude_submit_offsets h),
                      hub_quit_intents := fmdrop t (hub_quit_intents h),
                      hub_quit_intent_lines := fmdrop t (hub_quit_intent_lines h)\<rparr>;
               (h2, frames) = frames_only (drive_claude (note_exit t) h1)
           in (h2, bell @ frames))"

section \<open>The clock and the probes\<close>

text \<open>The two arguments are the orders in which the tracker's and the gate's maps are iterated; the last
  result is the terminals to verify.\<close>

definition expire_due ::
  "string list \<Rightarrow> string list \<Rightarrow> int \<Rightarrow> HubInner \<Rightarrow> HubInner \<times> HubFrame list \<times> string list" where
  "expire_due corder gorder at h =
     (let (h1, frames, claude_verifies) = drive_claude (claude_expire corder at) h;
          (idle, emissions) = expire gorder at (hub_idle h1)
      in (h1\<lparr>hub_idle := idle\<rparr>,
          frames @ map (\<lambda>e. TerminalIdle (em_terminal_id e) (em_at e) (em_reason e)) emissions,
          claude_verifies))"

definition hub_next_deadline :: "string list \<Rightarrow> string list \<Rightarrow> HubInner \<Rightarrow> int option" where
  "hub_next_deadline corder gorder h =
     earlier (claude_next_deadline corder (hub_claude h)) (gate_next_deadline gorder (hub_idle h))"

text \<open>\<open>service_claude_verify\<close>: what its first lock reads decides the flavor of the probe; the answer is
  applied under the second. The stash is usable for the session it was taken for only.\<close>

definition verify_target :: "string \<Rightarrow> HubInner \<Rightarrow> (string \<times> nat) option option" where
  "verify_target t h =
     (if is_awaiting_submit_confirm t (hub_claude h) then
        Some (case (session_id_of t (hub_claude h), fmlookup (hub_claude_submit_offsets h) t) of
                (Some session_id, Some (stashed, offset)) \<Rightarrow>
                  if stashed = session_id then Some (session_id, offset) else None
              | _ \<Rightarrow> None)
      else None)"

definition apply_submit_probe :: "SubmitProbe \<Rightarrow> string \<Rightarrow> int \<Rightarrow> HubInner \<Rightarrow> HubInner \<times> HubFrame list" where
  "apply_submit_probe probe t at h =
     (case probe of
        ProbeConfirmed \<Rightarrow> frames_only (drive_claude (note_submit_confirmed t at) h)
      | NoTurnStarted \<Rightarrow> frames_only (drive_claude (note_submit_unconfirmed t at) h)
      | SubmitUnavailable \<Rightarrow>
          frames_only (drive_claude (note_submit_probe_unavailable t)
            (h\<lparr>hub_claude_submit_offsets := fmdrop t (hub_claude_submit_offsets h)\<rparr>)))"

definition apply_turn_probe :: "TurnProbe \<Rightarrow> string \<Rightarrow> int \<Rightarrow> HubInner \<Rightarrow> HubInner \<times> HubFrame list" where
  "apply_turn_probe probe t at h =
     (case probe of
        InFlight \<Rightarrow> frames_only (drive_claude (note_verified_busy t at) h)
      | Ended \<Rightarrow> frames_only (drive_claude (note_verified_ended t at) h)
      | TurnUnavailable \<Rightarrow> frames_only (drive_claude (note_verify_failed t at) h))"

end
