(* ===== verification/Hub_Link.thy ===== *)
theory Hub_Link
  imports Claude_Hub
begin

text \<open>
  How the tracker and the gate stay in step: a terminal's busy flag in the gate is what the tracker last
  reported of it, and the tracker reports every change of phase.
\<close>

section \<open>What effects report\<close>

definition busy_now :: "TerminalActivity \<Rightarrow> bool" where
  "busy_now s = (ta_phase s = ClaudeBusy)"

definition claude_busy :: "string \<Rightarrow> ClaudeTracker \<Rightarrow> bool" where
  "claude_busy t c = (case fmlookup (ct_states c) t of None \<Rightarrow> False | Some s \<Rightarrow> busy_now s)"

fun report_of :: "string \<Rightarrow> ClaudeEffect \<Rightarrow> bool \<Rightarrow> bool" where
  "report_of t (Changed upsert remove) b =
     (t \<notin> set remove \<and> fold (\<lambda>r b. if car_terminal_id r = t then car_phase r = ClaudeBusy else b) upsert b)"
| "report_of t _ b = b"

definition busy_after :: "string \<Rightarrow> ClaudeEffect list \<Rightarrow> bool \<Rightarrow> bool" where
  "busy_after t es b = fold (report_of t) es b"

lemma busy_after_simps [simp]:
  "busy_after t [] b = b" "busy_after t (e # es) b = busy_after t es (report_of t e b)"
  "busy_after t (es @ es') b = busy_after t es' (busy_after t es b)"
  by (simp_all add: busy_after_def)

lemma busy_after_commit:
  "busy_after t (commit_change (Some p) r) b =
    (if car_terminal_id r = t \<and> (car_phase p \<noteq> car_phase r \<or> car_session_id p \<noteq> car_session_id r)
     then car_phase r = ClaudeBusy else b)"
  "busy_after t (commit_change None r) b = (if car_terminal_id r = t then car_phase r = ClaudeBusy else b)"
  by (auto simp: commit_change_def has_public_change_def)

text \<open>An update of one terminal that tells its phase, and of no other.\<close>

definition told :: "string \<Rightarrow> TerminalActivity \<Rightarrow> TerminalActivity \<times> ClaudeEffect list \<Rightarrow> bool" where
  "told u s r =
     (busy_after u (snd r) (busy_now s) = busy_now (fst r) \<and> (\<forall>t b. t \<noteq> u \<longrightarrow> busy_after t (snd r) b = b))"

definition in_step :: "ClaudeTracker \<Rightarrow> ClaudeTracker \<times> ClaudeEffect list \<Rightarrow> bool" where
  "in_step c r = (\<forall>t. busy_after t (snd r) (claude_busy t c) = claude_busy t (fst r))"

lemma in_step_same: "in_step c (c, [])"
  by (simp add: in_step_def)

lemma in_step_put:
  assumes "fmlookup (ct_states c) u = Some s" and "told u s (s', es)"
  shows "in_step c (put_activity u s' (c\<lparr>ct_ledger := l\<rparr>), es)" and "in_step c (put_activity u s' c, es)"
  using assms by (auto simp: in_step_def told_def claude_busy_def split: option.splits)

lemma in_step_with_activity:
  assumes "claude_wf c" and "\<And>s. ta_terminal_id s = u \<Longrightarrow> told u s (f s)"
  shows "in_step c (with_activity u f c)"
proof (cases "fmlookup (ct_states c) u")
  case None
  then show ?thesis by (simp add: with_activity_def in_step_same)
next
  case (Some s)
  then have "told u s (fst (f s), snd (f s))" using assms by (auto simp: claude_wf_def)
  from in_step_put(2) [OF Some this] show ?thesis using Some by (simp add: with_activity_def case_prod_beta Let_def)
qed

lemmas told_ops = told_def busy_now_def busy_after_commit to_record_def Let_def

lemma rebind_told: "ta_terminal_id s = u \<Longrightarrow> told u s (rebind session s)"
  by (auto simp: rebind_def told_ops)

lemma input_told: "ta_terminal_id s = u \<Longrightarrow> told u s (input_activity data at confirmable s)"
  by (auto simp: input_activity_def told_ops)

lemma lapse_told: "ta_terminal_id s = u \<Longrightarrow> told u s (claude_lapse dm at s)"
  by (auto simp: claude_lapse_def deadman_lapse_def told_ops split: option.splits)

section \<open>Every call of the tracker tells\<close>

lemma track_in_step:
  assumes "claude_wf c" shows "in_step c (track_terminal u session at c)"
proof (cases "fmlookup (ct_states c) u")
  case None
  then show ?thesis
    by (auto simp: track_terminal_def in_step_def claude_busy_def fresh_activity_def told_ops)
next
  case (Some s)
  then show ?thesis
    using in_step_with_activity [OF assms rebind_told] by (cases session) (simp_all add: track_terminal_def in_step_same)
qed

lemma bind_in_step: "claude_wf c \<Longrightarrow> in_step c (bind_session u session c)"
  unfolding bind_session_def by (rule in_step_with_activity) (simp_all add: rebind_told)

lemma input_in_step: "claude_wf c \<Longrightarrow> in_step c (note_input u data at confirmable c)"
  unfolding note_input_def by (rule in_step_with_activity) (simp_all add: input_told)

lemma exit_in_step: "in_step c (note_exit u c)"
  by (auto simp: note_exit_def in_step_def claude_busy_def split: option.splits)

lemma verify_in_step:
  assumes "claude_wf c"
  shows "in_step c (note_verified_busy u at c)"
    and "in_step c (note_verify_failed u at c)"
    and "in_step c (note_submit_confirmed u at c)"
    and "in_step c (note_submit_unconfirmed u at c)"
    and "in_step c (note_submit_probe_unavailable u c)"
proof -
  note rule = in_step_with_activity [OF assms]
  show "in_step c (note_verified_busy u at c)"
    unfolding note_verified_busy_def by (rule rule) (auto simp: observed_if_busy_def told_ops)
  show "in_step c (note_verify_failed u at c)"
    unfolding note_verify_failed_def by (rule rule) (auto simp: settled_idle_def told_ops)
  show "in_step c (note_submit_confirmed u at c)"
    unfolding note_submit_confirmed_def by (rule rule) (auto simp: told_ops)
  show "in_step c (note_submit_unconfirmed u at c)"
    unfolding note_submit_unconfirmed_def by (rule rule) (auto simp: told_ops)
  show "in_step c (note_submit_probe_unavailable u c)"
    unfolding note_submit_probe_unavailable_def by (rule rule) (auto simp: told_ops)
qed

lemma ended_in_step:
  assumes "claude_wf c" shows "in_step c (note_verified_ended u at c)"
proof (cases "fmlookup (ct_states c) u")
  case None
  then show ?thesis by (simp add: note_verified_ended_def in_step_same)
next
  case (Some s)
  then have id: "ta_terminal_id s = u" using assms by (auto simp: claude_wf_def)
  show ?thesis
  proof (cases "ta_phase s = ClaudeBusy")
    case True
    have "told u s (settled_idle at s, commit_change (Some (to_record s)) (to_record (settled_idle at s))
        @ [TurnComplete u session at seq])" for session seq
      using id True by (auto simp: settled_idle_def told_ops)
    from in_step_put(1) [OF Some this] show ?thesis
      using Some True by (simp add: note_verified_ended_def case_prod_beta Let_def)
  qed (simp add: note_verified_ended_def in_step_same Some)
qed

lemma completions_silent:
  "complete_turns n u session at k l = (left, l', es) \<Longrightarrow> busy_after t es b = b"
  by (induction n arbitrary: k l left l' es) (auto split: if_splits prod.splits simp: Let_def)

lemma output_in_step:
  assumes "claude_wf c" shows "in_step c (note_output u data at c)"
proof (cases "fmlookup (ct_states c) u")
  case None
  then show ?thesis by (simp add: note_output_def in_step_same)
next
  case (Some s0)
  then have id: "ta_terminal_id s0 = u" using assms by (auto simp: claude_wf_def)
  obtain cleaned count parser where ext:
    "extract_turn_complete_signals data ''claude'' (ta_parser_state s0) = ((cleaned, count), parser)"
    by (metis surj_pair)
  define s1 where "s1 = s0\<lparr>ta_parser_state := parser\<rparr>"
  define n where "n = min count (count_tracker_turn_complete_signals data (ta_parser_state s0))"
  show ?thesis
  proof (cases "count = 0 \<or> n = 0")
    case True
    have "told u s0 (observed_if_busy at s1, [])" by (simp add: told_ops observed_if_busy_def s1_def)
    from in_step_put(2) [OF Some this] show ?thesis
      using True Some ext by (simp add: note_output_def Let_def s1_def n_def)
  next
    case False
    define s where "s = confirm_by_bell s1"
    obtain left l' es where turns:
      "complete_turns n u (ta_session_id s) at (ta_in_flight s) (ct_ledger c) = (left, l', es)"
      by (metis surj_pair)
    define s3 where "s3 = (let s2 = s\<lparr>ta_in_flight := left, ta_last_observed_at := at\<rparr> in
      if es = [] then s2
      else s2\<lparr>ta_phase := (if 0 < left then ClaudeBusy else ClaudeIdle), ta_updated_at := at\<rparr>)"
    have ids: "ta_terminal_id s3 = u" "ta_phase s = ta_phase s0" "ta_session_id s3 = ta_session_id s"
      using id by (simp_all add: s3_def s_def s1_def confirm_by_bell_def Let_def)
    have "told u s0 (s3, commit_change (Some (to_record s)) (to_record s3) @ es)"
      using ids by (auto simp: told_ops completions_silent [OF turns])
    from in_step_put(1) [OF Some this] show ?thesis
      using Some ext False turns
      by (simp add: note_output_def Let_def s1_def [symmetric] n_def [symmetric] s_def [symmetric] s3_def)
  qed
qed

lemma busy_after_concat:
  assumes "distinct ks" and "\<And>k b. k \<in> set ks \<Longrightarrow> k \<noteq> t \<Longrightarrow> busy_after t (F k) b = b"
  shows "busy_after t (concat (map F ks)) b = (if t \<in> set ks then busy_after t (F t) b else b)"
  using assms
proof (induction ks arbitrary: b)
  case (Cons k ks)
  show ?case
  proof (cases "k = t")
    case False
    then have "busy_after t (F k) b = b" using Cons.prems(2) [of k b] by simp
    then show ?thesis using Cons False by simp
  qed (use Cons in simp)
qed simp

lemma expire_in_step:
  assumes "claude_wf c" and "enumerates order (ct_states c)"
  shows "in_step c (claude_expire order at c)"
proof -
  let ?l = "claude_lapse (ct_busy_deadman_ms c) at"
  let ?F = "\<lambda>k. case fmlookup (ct_states c) k of None \<Rightarrow> [] | Some v \<Rightarrow> snd (?l v)"
  have told: "told k s (?l s)" if "fmlookup (ct_states c) k = Some s" for k s
    using lapse_told assms(1) that by (auto simp: claude_wf_def)
  have "busy_after t (concat (map ?F order)) (claude_busy t c)
      = (if t \<in> set order then busy_after t (?F t) (claude_busy t c) else claude_busy t c)" for t
    using assms(2) told by (intro busy_after_concat) (auto simp: enumerates_def told_def split: option.splits)
  then show ?thesis
    using assms(2) told enumerates_lookup [OF assms(2)]
    by (auto simp: in_step_def claude_expire_def case_prod_beta Let_def sweep_states_out enumerates_def
        sweep_all_lookup claude_busy_def told_def split: option.splits)
qed

lemmas calls_in_step = track_in_step bind_in_step input_in_step exit_in_step verify_in_step ended_in_step
  output_in_step expire_in_step

section \<open>The gate hears\<close>

definition gate_ok :: "IdleGate \<Rightarrow> bool" where
  "gate_ok g = (\<forall>t. \<not> ti_pending (entry_state t g) \<and>
     (ti_busy (entry_state t g) \<longrightarrow> ti_deadline (entry_state t g) = None))"

lemma entry_put [simp]: "entry_state t (put_state u s g) = (if t = u then s else entry_state t g)"
  by (simp add: entry_state_def put_state_def)

lemma entry_exit [simp]: "entry_state t (gate_note_exit u g) = (if t = u then idle_state_default else entry_state t g)"
  by (simp add: entry_state_def gate_note_exit_def)

lemma entry_busy_hint [simp]:
  "entry_state t (note_busy u g) = (if t = u then (entry_state t g)\<lparr>ti_deadline := None\<rparr> else entry_state t g)"
  by (auto simp: note_busy_def entry_state_def put_state_def idle_state_default_def split: option.splits)

lemma gate_ok_put: "gate_ok g \<Longrightarrow> \<not> ti_pending s \<Longrightarrow> (ti_busy s \<Longrightarrow> ti_deadline s = None) \<Longrightarrow> gate_ok (put_state u s g)"
  by (simp add: gate_ok_def)

lemma phase_gate:
  "gate_ok g \<Longrightarrow> gate_ok (note_phase u (gate_phase_of p) g)
    \<and> ti_busy (entry_state t (note_phase u (gate_phase_of p) g))
        = (if t = u then p = ClaudeBusy else ti_busy (entry_state t g))"
  by (auto simp: note_phase_def gate_phase_of_def Let_def intro: gate_ok_put)

lemma boundary_gate:
  "gate_ok g \<Longrightarrow> gate_ok (note_turn_boundary u at g)
    \<and> ti_busy (entry_state t (note_turn_boundary u at g)) = ti_busy (entry_state t g)"
  by (auto simp: note_turn_boundary_def Let_def gate_ok_def)

lemma exit_gate:
  "gate_ok g \<Longrightarrow> gate_ok (gate_note_exit u g)
    \<and> ti_busy (entry_state t (gate_note_exit u g)) = (t \<noteq> u \<and> ti_busy (entry_state t g))"
  by (auto simp: gate_ok_def idle_state_default_def)

lemma upserts_gate:
  "gate_ok g \<Longrightarrow>
    gate_ok (fold (\<lambda>(t, p). note_phase t p) (map (\<lambda>r. (car_terminal_id r, gate_phase_of (car_phase r))) rs) g)
    \<and> ti_busy (entry_state t (fold (\<lambda>(t, p). note_phase t p)
          (map (\<lambda>r. (car_terminal_id r, gate_phase_of (car_phase r))) rs) g))
      = fold (\<lambda>r b. if car_terminal_id r = t then car_phase r = ClaudeBusy else b) rs (ti_busy (entry_state t g))"
proof (induction rs arbitrary: g)
  case (Cons r rs)
  have "gate_ok (note_phase (car_terminal_id r) (gate_phase_of (car_phase r)) g)"
    using phase_gate [OF Cons.prems] by blast
  from Cons.IH [OF this] show ?case using phase_gate [OF Cons.prems, of "car_terminal_id r" "car_phase r" t] by auto
qed simp

lemma removes_gate:
  "gate_ok g \<Longrightarrow> gate_ok (fold gate_note_exit us g)
    \<and> ti_busy (entry_state t (fold gate_note_exit us g)) = (t \<notin> set us \<and> ti_busy (entry_state t g))"
proof (induction us arbitrary: g)
  case (Cons u us)
  then show ?case using exit_gate [of g u] by auto
qed simp

lemma effects_gate:
  "gate_ok g \<Longrightarrow> gate_ok (fst (claude_frames es g))
    \<and> ti_busy (entry_state t (fst (claude_frames es g))) = busy_after t es (ti_busy (entry_state t g))"
proof (induction es arbitrary: g)
  case (Cons e es)
  show ?case
  proof (cases e)
    case (Changed upsert remove)
    let ?g = "note_changed_to_gate (map (\<lambda>r. (car_terminal_id r, gate_phase_of (car_phase r))) upsert) remove g"
    have "gate_ok ?g \<and> ti_busy (entry_state t ?g) = report_of t e (ti_busy (entry_state t g))"
      using upserts_gate [OF Cons.prems, of upsert] removes_gate
      by (auto simp: note_changed_to_gate_def Changed)
    then show ?thesis using Cons.IH [of ?g] by (simp add: Changed case_prod_beta Let_def)
  next
    case (TurnComplete u session at seq)
    then show ?thesis using Cons.IH [of "note_turn_boundary u at g"] boundary_gate [OF Cons.prems, of u at]
      by (simp add: case_prod_beta Let_def)
  next
    case (AttentionBoundary u at)
    then show ?thesis using Cons.IH [of "note_turn_boundary u at g"] boundary_gate [OF Cons.prems, of u at]
      by (simp add: case_prod_beta Let_def)
  qed (use Cons in \<open>simp add: case_prod_beta Let_def\<close>)
qed simp

end
