(* ===== verification/Hub_Run.thy ===== *)
theory Hub_Run
  imports Hub_Link
begin

text \<open>
  Executions of the hub's claude lane: every event, clock tick and probe answer in any order, the two
  halves of a probed submit apart. The invariant that tracker and gate agree on who is busy, and what
  each operation leaves of a terminal it is not about.
\<close>

section \<open>Operations\<close>

datatype HubOp =
    CreatedEvent string "string option" int
  | SessionBound string string
  | InputEvent bool string utext int
  | ProbedInput string utext int string "nat option"
  | OutputEvent string utext int
  | ExitEvent OtherLanes string int bool
  | DeadlineFired "string list" "string list" int
  | SubmitAnswer SubmitProbe string int
  | TurnAnswer TurnProbe string int

fun hub_perform :: "HubOp \<Rightarrow> HubInner \<Rightarrow> HubInner \<times> HubFrame list" where
  "hub_perform (CreatedEvent t resume at) h = handle_created t resume at h"
| "hub_perform (SessionBound t session) h = bind_claude_session t session h"
| "hub_perform (InputEvent truth t data at) h =
     (let (h', frames, _) = handle_input truth t data at h in (h', frames))"
| "hub_perform (ProbedInput t data at session len) h = apply_probed_input t data at session len h"
| "hub_perform (OutputEvent t data at) h = handle_output t data at h"
| "hub_perform (ExitEvent others t at spontaneous) h = handle_exit others t at spontaneous h"
| "hub_perform (DeadlineFired corder gorder at) h = frames_only (expire_due corder gorder at h)"
| "hub_perform (SubmitAnswer probe t at) h = apply_submit_probe probe t at h"
| "hub_perform (TurnAnswer probe t at) h = apply_turn_probe probe t at h"

text \<open>The clock's sweeps visit every state once. The gate's map may have changed when it is swept.\<close>

fun hub_op_ok :: "HubOp \<Rightarrow> HubInner \<Rightarrow> bool" where
  "hub_op_ok (DeadlineFired corder gorder at) h =
     (enumerates corder (ct_states (hub_claude h)) \<and>
      enumerates gorder (ig_states (hub_idle (fst (drive_claude (claude_expire corder at) h)))))"
| "hub_op_ok _ h = True"

fun hub_run :: "HubOp list \<Rightarrow> HubInner \<Rightarrow> HubInner" where
  "hub_run [] h = h"
| "hub_run (op # ops) h = hub_run ops (fst (hub_perform op h))"

fun hub_run_ok :: "HubOp list \<Rightarrow> HubInner \<Rightarrow> bool" where
  "hub_run_ok [] h = True"
| "hub_run_ok (op # ops) h = (hub_op_ok op h \<and> hub_run_ok ops (fst (hub_perform op h)))"

section \<open>The invariant\<close>

definition hub_ok :: "HubInner \<Rightarrow> bool" where
  "hub_ok h = (claude_wf (hub_claude h) \<and> gate_ok (hub_idle h) \<and>
     (\<forall>t. ti_busy (entry_state t (hub_idle h)) = claude_busy t (hub_claude h)))"

lemma hub_default_ok: "hub_ok hub_default"
proof -
  have "claude_busy t claude_tracker_new = False" for t
    by (simp add: claude_busy_def claude_tracker_new_def)
  then show ?thesis
    by (simp add: hub_ok_def hub_default_def claude_new_wf gate_ok_def idle_gate_new_def with_grace_ms_def
        entry_state_def idle_state_default_def)
qed

lemma drive_parts:
  "hub_claude (fst (drive_claude call h)) = fst (call (hub_claude h))"
  "hub_idle (fst (drive_claude call h)) = fst (claude_frames (snd (call (hub_claude h))) (hub_idle h))"
  "hub_modes (fst (drive_claude call h)) = hub_modes h"
  "hub_quit_intents (fst (drive_claude call h)) = hub_quit_intents h"
  "hub_quit_intent_lines (fst (drive_claude call h)) = hub_quit_intent_lines h"
  "hub_claude_submit_offsets (fst (drive_claude call h)) = hub_claude_submit_offsets h"
  by (simp_all add: drive_claude_def case_prod_beta Let_def)

lemma frames_only_fst [simp]: "fst (frames_only r) = fst r"
  by (simp add: frames_only_def)

lemma drive_ok:
  assumes "hub_ok h" and "accounted t n (hub_claude h) (call (hub_claude h))"
    and "in_step (hub_claude h) (call (hub_claude h))"
  shows "hub_ok (fst (drive_claude call h))"
  using assms effects_gate [of "hub_idle h"]
  by (auto simp: hub_ok_def drive_parts accounted_def in_step_def)

text \<open>The calls that the hub makes all qualify.\<close>

lemma drive_calls_ok:
  assumes "hub_ok h"
  shows "hub_ok (fst (drive_claude (track_terminal u session at) h))"
    and "hub_ok (fst (drive_claude (bind_session u s) h))"
    and "hub_ok (fst (drive_claude (note_input u data at confirmable) h))"
    and "hub_ok (fst (drive_claude (note_output u data at) h))"
    and "hub_ok (fst (drive_claude (note_exit u) h))"
    and "hub_ok (fst (drive_claude (note_verified_busy u at) h))"
    and "hub_ok (fst (drive_claude (note_verified_ended u at) h))"
    and "hub_ok (fst (drive_claude (note_verify_failed u at) h))"
    and "hub_ok (fst (drive_claude (note_submit_confirmed u at) h))"
    and "hub_ok (fst (drive_claude (note_submit_unconfirmed u at) h))"
    and "hub_ok (fst (drive_claude (note_submit_probe_unavailable u) h))"
    and "enumerates order (ct_states (hub_claude h)) \<Longrightarrow> hub_ok (fst (drive_claude (claude_expire order at) h))"
proof -
  have wf: "claude_wf (hub_claude h)" using assms by (simp add: hub_ok_def)
  note d = drive_ok [OF assms]
  show "hub_ok (fst (drive_claude (track_terminal u session at) h))"
    by (rule d, rule track_accounted [OF wf], rule track_in_step [OF wf])
  show "hub_ok (fst (drive_claude (bind_session u s) h))"
    by (rule d, rule bind_accounted [OF wf], rule bind_in_step [OF wf])
  show "hub_ok (fst (drive_claude (note_input u data at confirmable) h))"
    by (rule d, rule input_accounted [OF wf], rule input_in_step [OF wf])
  show "hub_ok (fst (drive_claude (note_output u data at) h))"
    by (rule d, rule output_accounted [OF wf], rule output_in_step [OF wf])
  show "hub_ok (fst (drive_claude (note_exit u) h))"
    by (rule d, rule exit_accounted [OF wf], rule exit_in_step)
  show "hub_ok (fst (drive_claude (note_verified_busy u at) h))"
    "hub_ok (fst (drive_claude (note_verify_failed u at) h))"
    "hub_ok (fst (drive_claude (note_submit_confirmed u at) h))"
    "hub_ok (fst (drive_claude (note_submit_unconfirmed u at) h))"
    "hub_ok (fst (drive_claude (note_submit_probe_unavailable u) h))"
    by (rule d, rule verify_accounted [OF wf], rule verify_in_step [OF wf])+
  show "hub_ok (fst (drive_claude (note_verified_ended u at) h))"
    by (rule d, rule ended_accounted [OF wf], rule ended_in_step [OF wf])
  show "hub_ok (fst (drive_claude (claude_expire order at) h))" if "enumerates order (ct_states (hub_claude h))"
    by (rule d, rule expire_accounted [OF wf that], rule expire_in_step [OF wf that])
qed

text \<open>Changes of the hub that neither the tracker's phases nor the gate's busy flags see.\<close>

lemma hub_ok_cong:
  assumes "hub_ok h" and "hub_claude h' = hub_claude h" and "hub_idle h' = hub_idle h"
  shows "hub_ok h'"
  using assms by (simp add: hub_ok_def)

lemma busy_hint_ok: "hub_ok h \<Longrightarrow> hub_ok (h\<lparr>hub_idle := note_busy t (hub_idle h)\<rparr>)"
  by (simp add: hub_ok_def gate_ok_def)

lemma quit_parts:
  "hub_claude (note_quit_intent t data at h) = hub_claude h"
  "hub_idle (note_quit_intent t data at h) = hub_idle h"
  "hub_modes (note_quit_intent t data at h) = hub_modes h"
  by (auto simp: note_quit_intent_def case_prod_beta Let_def split: InputClass.splits)

text \<open>An input leaves the hub, the hub with the keys noted, or that with the tracker told.\<close>

definition after_keys :: "string \<Rightarrow> utext \<Rightarrow> int \<Rightarrow> HubInner \<Rightarrow> HubInner" where
  "after_keys t data at h = note_quit_intent t data at
     (if is_submit_input data then h\<lparr>hub_idle := note_busy t (hub_idle h)\<rparr> else h)"

lemma handle_input_state:
  "fst (handle_input truth t data at h) \<in>
    {h, after_keys t data at h, fst (drive_claude (note_input t data at False) (after_keys t data at h))}"
  unfolding handle_input_def Let_def after_keys_def [symmetric]
  by (simp add: case_prod_beta split: option.splits)

lemma entry_lookup:
  "entry_state t g = (case fmlookup (ig_states g) t of None \<Rightarrow> idle_state_default | Some s \<Rightarrow> s)"
  by (simp add: entry_state_def)

lemma expire_entry:
  assumes "enumerates order (ig_states g)"
  shows "entry_state t (fst (expire order at g)) = fst (idle_lapse at t (entry_state t g))"
  using sweep_all_lookup [OF assms, of "idle_lapse at" t]
  by (auto simp: expire_def entry_state_def case_prod_beta Let_def idle_lapse_def idle_state_default_def
      split: option.splits)

lemma expire_emissions:
  assumes "enumerates order (ig_states g)"
  shows "filter (\<lambda>e. em_terminal_id e = t) (snd (expire order at g)) = snd (idle_lapse at t (entry_state t g))"
proof -
  let ?F = "\<lambda>k. case fmlookup (ig_states g) k of None \<Rightarrow> [] | Some s \<Rightarrow> snd (idle_lapse at k s)"
  have mine: "filter (\<lambda>e. em_terminal_id e = t) (?F k) = (if k = t then ?F k else [])" for k
    by (auto simp: idle_lapse_def Let_def split: option.splits)
  have "filter (\<lambda>e. em_terminal_id e = t) (concat (map F ks)) = (if t \<in> set ks then F t else [])"
    if "distinct ks" "\<And>k. filter (\<lambda>e. em_terminal_id e = t) (F k) = (if k = t then F k else [])"
    for ks and F :: "string \<Rightarrow> IdleEmission list"
    using that by (induction ks) auto
  from this [OF _ mine] have "filter (\<lambda>e. em_terminal_id e = t) (concat (map ?F ks))
      = (if t \<in> set ks then ?F t else [])" if "distinct ks" for ks using that .
  moreover have "distinct order" using assms by (simp add: enumerates_def)
  ultimately show ?thesis
    using enumerates_lookup [OF assms, of t]
    by (auto simp: expire_def sweep_states_out entry_state_def case_prod_beta Let_def idle_lapse_def
        idle_state_default_def split: option.splits)
qed

lemma expire_gate_ok:
  assumes "gate_ok g" and "enumerates order (ig_states g)"
  shows "gate_ok (fst (expire order at g))
    \<and> ti_busy (entry_state t (fst (expire order at g))) = ti_busy (entry_state t g)"
proof -
  have "\<not> ti_pending (fst (idle_lapse at u s)) \<and> (ti_busy (fst (idle_lapse at u s)) \<longrightarrow> ti_deadline (fst (idle_lapse at u s)) = None)
      \<and> ti_busy (fst (idle_lapse at u s)) = ti_busy s"
    if "\<not> ti_pending s" "ti_busy s \<longrightarrow> ti_deadline s = None" for u s
    using that by (auto simp: idle_lapse_def Let_def split: option.splits)
  then show ?thesis using assms(1) by (simp add: gate_ok_def expire_entry [OF assms(2)])
qed

lemma hub_step_ok:
  assumes "hub_ok h" and "hub_op_ok op h"
  shows "hub_ok (fst (hub_perform op h))"
proof (cases op)
  case (InputEvent truth t data at)
  have "hub_ok (if is_submit_input data then h\<lparr>hub_idle := note_busy t (hub_idle h)\<rparr> else h)"
    using assms(1) busy_hint_ok [OF assms(1), of t] by simp
  then have "hub_ok (after_keys t data at h)"
    unfolding after_keys_def by (rule hub_ok_cong) (simp_all add: quit_parts)
  then show ?thesis
    using assms(1) drive_calls_ok(3) [of "after_keys t data at h" t data at False]
      handle_input_state [of truth t data at h] by (auto simp: InputEvent case_prod_beta)
next
  case (ExitEvent others t at spontaneous)
  let ?h = "h\<lparr>hub_modes := fmdrop t (hub_modes h), hub_idle := gate_note_exit t (hub_idle h),
    hub_claude_submit_offsets := fmdrop t (hub_claude_submit_offsets h),
    hub_quit_intents := fmdrop t (hub_quit_intents h), hub_quit_intent_lines := fmdrop t (hub_quit_intent_lines h)\<rparr>"
  let ?g = "gate_note_exit t (hub_idle h)"
  have wf: "claude_wf (hub_claude h)" and gate: "gate_ok (hub_idle h)"
    and link: "\<And>u. ti_busy (entry_state u (hub_idle h)) = claude_busy u (hub_claude h)"
    using assms(1) by (simp_all add: hub_ok_def)
  have gone: "gate_ok ?g" "\<And>u. ti_busy (entry_state u ?g) = (u \<noteq> t \<and> claude_busy u (hub_claude h))"
    using exit_gate [OF gate] link by auto
  have heard: "busy_after u (snd (note_exit t (hub_claude h))) (u \<noteq> t \<and> claude_busy u (hub_claude h))
      = claude_busy u (fst (note_exit t (hub_claude h)))" for u
    by (auto simp: note_exit_def claude_busy_def split: option.splits)
  have "hub_ok (fst (drive_claude (note_exit t) ?h))"
    using effects_gate [OF gone(1)] gone(2) heard exit_accounted [OF wf, of t t]
    by (simp add: hub_ok_def drive_parts accounted_def)
  then show ?thesis using assms(1)
    by (simp add: ExitEvent handle_exit_def Let_def case_prod_beta)
next
  case (DeadlineFired corder gorder at)
  let ?h = "fst (drive_claude (claude_expire corder at) h)"
  have ok: "hub_ok ?h" and enum: "enumerates gorder (ig_states (hub_idle ?h))"
    using assms drive_calls_ok(12) by (simp_all add: DeadlineFired)
  have "gate_ok (hub_idle ?h)" using ok by (simp add: hub_ok_def)
  note swept = expire_gate_ok [OF this enum]
  have "hub_ok (?h\<lparr>hub_idle := fst (expire gorder at (hub_idle ?h))\<rparr>)"
    using ok swept by (simp add: hub_ok_def)
  then show ?thesis by (simp add: DeadlineFired expire_due_def case_prod_beta Let_def)
next
  case (ProbedInput t data at session len)
  have "hub_ok (case len of None \<Rightarrow> h | Some n \<Rightarrow>
      if is_awaiting_submit_confirm t (hub_claude h) then h
      else h\<lparr>hub_claude_submit_offsets := fmupd t (session, n) (hub_claude_submit_offsets h)\<rparr>)"
    using assms(1) by (auto intro: hub_ok_cong split: option.splits)
  then show ?thesis using drive_calls_ok(3)
    by (auto simp: ProbedInput apply_probed_input_def case_prod_beta Let_def split: option.splits)
next
  case (CreatedEvent t resume at)
  have "hub_ok (h\<lparr>hub_modes := fmupd t ''claude'' (hub_modes h)\<rparr>)"
    using assms(1) by (rule hub_ok_cong) simp_all
  then show ?thesis by (simp add: CreatedEvent handle_created_def drive_calls_ok)
next
  case (SubmitAnswer probe t at)
  have "hub_ok (h\<lparr>hub_claude_submit_offsets := fmdrop t (hub_claude_submit_offsets h)\<rparr>)"
    using assms(1) by (rule hub_ok_cong) simp_all
  then show ?thesis
    using assms(1) by (simp add: SubmitAnswer apply_submit_probe_def drive_calls_ok split: SubmitProbe.splits)
qed (use assms(1) in \<open>simp_all add: bind_claude_session_def handle_output_def apply_turn_probe_def
  drive_calls_ok split: TurnProbe.splits\<close>)

lemma hub_run_keeps_ok: "hub_ok h \<Longrightarrow> hub_run_ok ops h \<Longrightarrow> hub_ok (hub_run ops h)"
  by (induction ops arbitrary: h) (simp_all add: hub_step_ok)

lemma hub_run_append: "hub_run (xs @ ys) h = hub_run ys (hub_run xs h)"
  by (induction xs arbitrary: h) simp_all

section \<open>Frames\<close>

definition idle_frames :: "string \<Rightarrow> HubFrame list \<Rightarrow> HubFrame list" where
  "idle_frames t frames = filter (\<lambda>f. case f of TerminalIdle u _ _ \<Rightarrow> u = t | _ \<Rightarrow> False) frames"

lemma idle_frames_simps [simp]:
  "idle_frames t [] = []" "idle_frames t (xs @ ys) = idle_frames t xs @ idle_frames t ys"
  "idle_frames t (TerminalIdle u at r # fs) = (if u = t then [TerminalIdle u at r] else []) @ idle_frames t fs"
  by (simp_all add: idle_frames_def)

lemma claude_frames_no_idle: "idle_frames t (fst (snd (claude_frames es g))) = []"
proof (induction es arbitrary: g)
  case (Cons e es)
  then show ?case by (cases e) (auto simp: case_prod_beta Let_def idle_frames_def)
qed simp

lemma drive_no_idle: "idle_frames t (fst (snd (drive_claude call h))) = []"
  by (simp add: drive_claude_def case_prod_beta Let_def claude_frames_no_idle)

definition emission_frame :: "IdleEmission \<Rightarrow> HubFrame" where
  "emission_frame e = TerminalIdle (em_terminal_id e) (em_at e) (em_reason e)"

lemma idle_frames_emissions:
  "idle_frames t (map emission_frame es) = map emission_frame (filter (\<lambda>e. em_terminal_id e = t) es)"
  by (induction es) (simp_all add: emission_frame_def)

lemma due_idle_frames:
  assumes "hub_op_ok (DeadlineFired corder gorder at) h"
  shows "idle_frames t (fst (snd (expire_due corder gorder at h)))
    = map emission_frame
        (snd (idle_lapse at t (entry_state t (hub_idle (fst (drive_claude (claude_expire corder at) h))))))"
  using assms expire_emissions [of gorder "hub_idle (fst (drive_claude (claude_expire corder at) h))" t at]
  by (simp add: expire_due_def case_prod_beta Let_def drive_no_idle idle_frames_emissions
      emission_frame_def [abs_def, symmetric])

end
