(* ===== verification/Hub_Quiet.thy ===== *)
theory Hub_Quiet
  imports Hub_Run
begin

text \<open>
  Terminals do not disturb each other: an operation of the hub that is about one terminal leaves what
  tracker and gate keep of every other terminal, and an early clock tick leaves an armed window.
\<close>

section \<open>Effects about one terminal\<close>

definition about :: "string \<Rightarrow> ClaudeEffect \<Rightarrow> bool" where
  "about u e =
     (case e of
        Changed upsert remove \<Rightarrow> list_all (\<lambda>r. car_terminal_id r = u) upsert \<and> list_all (\<lambda>t. t = u) remove
      | TurnComplete t _ _ _ \<Rightarrow> t = u
      | ForceRead t _ \<Rightarrow> t = u
      | AttentionBoundary t _ \<Rightarrow> t = u)"

lemma about_commit: "car_terminal_id r = u \<Longrightarrow> list_all (about u) (commit_change p r)"
  by (simp add: commit_change_def about_def)

lemma phase_elsewhere: "t \<noteq> u \<Longrightarrow> entry_state t (note_phase u p g) = entry_state t g"
  by (simp add: note_phase_def Let_def)

lemma boundary_elsewhere: "t \<noteq> u \<Longrightarrow> entry_state t (note_turn_boundary u at g) = entry_state t g"
  by (simp add: note_turn_boundary_def Let_def)

lemma upserts_elsewhere:
  "list_all (\<lambda>r. car_terminal_id r = u) rs \<Longrightarrow> t \<noteq> u \<Longrightarrow>
    entry_state t (fold (\<lambda>(t, p). note_phase t p) (map (\<lambda>r. (car_terminal_id r, gate_phase_of (car_phase r))) rs) g)
      = entry_state t g"
  by (induction rs arbitrary: g) (simp_all add: phase_elsewhere)

lemma removes_elsewhere:
  "list_all (\<lambda>v. v = u) us \<Longrightarrow> t \<noteq> u \<Longrightarrow> entry_state t (fold gate_note_exit us g) = entry_state t g"
  by (induction us arbitrary: g) simp_all

lemma effects_elsewhere:
  "(\<And>e. e \<in> set es \<Longrightarrow> \<exists>u. u \<noteq> t \<and> about u e) \<Longrightarrow> entry_state t (fst (claude_frames es g)) = entry_state t g"
proof (induction es arbitrary: g)
  case (Cons e es)
  obtain u where u: "t \<noteq> u" "about u e" using Cons.prems [of e] by force
  have IH: "entry_state t (fst (claude_frames es g)) = entry_state t g" for g
    using Cons.IH Cons.prems by (meson list.set_intros(2))
  show ?case
  proof (cases e)
    case (Changed upsert remove)
    then show ?thesis using u IH
      by (simp add: case_prod_beta Let_def about_def note_changed_to_gate_def
          upserts_elsewhere [of u] removes_elsewhere [of u])
  next
    case (TurnComplete v session at seq)
    then show ?thesis using u IH by (simp add: case_prod_beta Let_def about_def boundary_elsewhere)
  next
    case (ForceRead v at)
    then show ?thesis using IH by (simp add: case_prod_beta Let_def)
  next
    case (AttentionBoundary v at)
    then show ?thesis using u IH by (simp add: case_prod_beta Let_def about_def boundary_elsewhere)
  qed
qed simp

section \<open>Calls about one terminal\<close>

definition confined :: "string \<Rightarrow> ClaudeTracker \<Rightarrow> ClaudeTracker \<times> ClaudeEffect list \<Rightarrow> bool" where
  "confined u c r =
     (list_all (about u) (snd r) \<and> (\<forall>k. k \<noteq> u \<longrightarrow> fmlookup (ct_states (fst r)) k = fmlookup (ct_states c) k))"

lemma confined_same: "confined u c (c, [])"
  by (simp add: confined_def)

lemma confined_with_activity:
  assumes "claude_wf c" and "\<And>s. ta_terminal_id s = u \<Longrightarrow> list_all (about u) (snd (f s))"
  shows "confined u c (with_activity u f c)"
  using assms
  by (auto simp: with_activity_def confined_def claude_wf_def case_prod_beta Let_def split: option.splits)

lemmas about_ops = about_commit to_record_def Let_def about_def

lemma rebind_confined: "claude_wf c \<Longrightarrow> confined u c (with_activity u (rebind session) c)"
  by (rule confined_with_activity) (simp_all add: rebind_def about_ops)

lemma track_confined: "claude_wf c \<Longrightarrow> confined u c (track_terminal u session at c)"
  using rebind_confined [of c u]
  by (cases session)
     (auto simp: track_terminal_def confined_same confined_def fresh_activity_def about_ops split: option.splits)

lemma bind_confined: "claude_wf c \<Longrightarrow> confined u c (bind_session u session c)"
  by (simp add: bind_session_def rebind_confined)

lemma input_confined: "claude_wf c \<Longrightarrow> confined u c (note_input u data at confirmable c)"
  unfolding note_input_def by (rule confined_with_activity) (auto simp: input_activity_def about_ops)

lemma exit_confined: "confined u c (note_exit u c)"
  by (simp add: note_exit_def confined_def about_def split: option.splits)

lemma verify_confined:
  assumes "claude_wf c"
  shows "confined u c (note_verified_busy u at c)"
    and "confined u c (note_verify_failed u at c)"
    and "confined u c (note_submit_confirmed u at c)"
    and "confined u c (note_submit_unconfirmed u at c)"
    and "confined u c (note_submit_probe_unavailable u c)"
proof -
  note rule = confined_with_activity [OF assms]
  show "confined u c (note_verified_busy u at c)"
    unfolding note_verified_busy_def by (rule rule) simp
  show "confined u c (note_verify_failed u at c)"
    unfolding note_verify_failed_def by (rule rule) (simp add: settled_idle_def about_ops)
  show "confined u c (note_submit_confirmed u at c)"
    unfolding note_submit_confirmed_def by (rule rule) simp
  show "confined u c (note_submit_unconfirmed u at c)"
    unfolding note_submit_unconfirmed_def by (rule rule) (simp add: about_ops)
  show "confined u c (note_submit_probe_unavailable u c)"
    unfolding note_submit_probe_unavailable_def by (rule rule) simp
qed

lemma ended_confined: "claude_wf c \<Longrightarrow> confined u c (note_verified_ended u at c)"
  by (auto simp: note_verified_ended_def confined_def claude_wf_def settled_idle_def about_ops case_prod_beta
      split: option.splits)

lemma completions_about: "complete_turns n u session at k l = (left, l', es) \<Longrightarrow>
    list_all (about u) es \<and> list_all (\<lambda>e. \<exists>session seq. e = TurnComplete u session at seq) es"
  by (induction n arbitrary: k l left l' es) (auto split: if_splits prod.splits simp: Let_def about_def)

text \<open>What an output does to its own terminal: nothing to its phase, or the report of it and the ends of turns.\<close>

lemma output_shape:
  assumes "claude_wf c" and "fmlookup (ct_states c) u = Some s0"
  obtains (quiet) s1 where "note_output u data at c = (put_activity u s1 c, [])" and "ta_phase s1 = ta_phase s0"
      and "ta_terminal_id s1 = u"
  | (ended) s s3 l es where "note_output u data at c =
        (put_activity u s3 (c\<lparr>ct_ledger := l\<rparr>), commit_change (Some (to_record s)) (to_record s3) @ es)"
      and "ta_phase s = ta_phase s0" and "ta_terminal_id s3 = u" and "es = [] \<Longrightarrow> ta_phase s3 = ta_phase s0"
      and "list_all (\<lambda>e. \<exists>session seq. e = TurnComplete u session at seq) es" and "list_all (about u) es"
proof -
  have id: "ta_terminal_id s0 = u" using assms by (auto simp: claude_wf_def)
  obtain cleaned count parser where ext:
    "extract_turn_complete_signals data ''claude'' (ta_parser_state s0) = ((cleaned, count), parser)"
    by (metis surj_pair)
  define s1 where "s1 = s0\<lparr>ta_parser_state := parser\<rparr>"
  define n where "n = min count (count_tracker_turn_complete_signals data (ta_parser_state s0))"
  show thesis
  proof (cases "count = 0 \<or> n = 0")
    case True
    then have "note_output u data at c = (put_activity u (observed_if_busy at s1) c, [])"
      using assms(2) ext by (simp add: note_output_def Let_def s1_def n_def)
    then show thesis using quiet id by (simp add: observed_if_busy_def s1_def)
  next
    case False
    define s where "s = confirm_by_bell s1"
    obtain left l' es where turns:
      "complete_turns n u (ta_session_id s) at (ta_in_flight s) (ct_ledger c) = (left, l', es)"
      by (metis surj_pair)
    define s3 where "s3 = (let s2 = s\<lparr>ta_in_flight := left, ta_last_observed_at := at\<rparr> in
      if es = [] then s2
      else s2\<lparr>ta_phase := (if 0 < left then ClaudeBusy else ClaudeIdle), ta_updated_at := at\<rparr>)"
    have out: "note_output u data at c =
        (put_activity u s3 (c\<lparr>ct_ledger := l'\<rparr>), commit_change (Some (to_record s)) (to_record s3) @ es)"
      using assms(2) ext False turns
      by (simp add: note_output_def Let_def s1_def [symmetric] n_def [symmetric] s_def [symmetric] s3_def)
    have "ta_phase s = ta_phase s0" "ta_terminal_id s3 = u" "es = [] \<Longrightarrow> ta_phase s3 = ta_phase s0"
      using id by (simp_all add: s3_def s_def s1_def confirm_by_bell_def Let_def)
    then show thesis using ended [OF out] completions_about [OF turns] by blast
  qed
qed

lemma output_confined:
  assumes "claude_wf c" shows "confined u c (note_output u data at c)"
proof (cases "fmlookup (ct_states c) u")
  case None
  then show ?thesis by (simp add: note_output_def confined_same)
next
  case (Some s0)
  from assms Some show ?thesis
  proof (cases rule: output_shape [of c u s0 data at])
    case (quiet s1)
    then show ?thesis by (simp add: confined_def)
  next
    case (ended s s3 l es)
    have "list_all (about u) (commit_change (Some (to_record s)) (to_record s3))"
      using ended(3) by (intro about_commit) (simp add: to_record_def)
    then show ?thesis using ended(1,6) by (simp add: confined_def)
  qed
qed

section \<open>Operations about other terminals\<close>

fun op_terminal :: "HubOp \<Rightarrow> string option" where
  "op_terminal (CreatedEvent t _ _) = Some t"
| "op_terminal (SessionBound t _) = Some t"
| "op_terminal (InputEvent _ t _ _) = Some t"
| "op_terminal (ProbedInput t _ _ _ _) = Some t"
| "op_terminal (OutputEvent t _ _) = Some t"
| "op_terminal (ExitEvent _ t _ _) = Some t"
| "op_terminal (DeadlineFired _ _ _) = None"
| "op_terminal (SubmitAnswer _ t _) = Some t"
| "op_terminal (TurnAnswer _ t _) = Some t"

text \<open>A terminal whose turn has ended, with its window armed until the given instant.\<close>

definition waiting :: "string \<Rightarrow> int \<Rightarrow> HubInner \<Rightarrow> bool" where
  "waiting t d h = (\<not> claude_busy t (hub_claude h) \<and> \<not> ti_busy (entry_state t (hub_idle h)) \<and>
     ti_deadline (entry_state t (hub_idle h)) = Some d)"

lemma waiting_drive:
  assumes "confined u (hub_claude h) (call (hub_claude h))" and "u \<noteq> t" and "waiting t d h"
  shows "waiting t d (fst (drive_claude call h))"
proof -
  have "entry_state t (fst (claude_frames (snd (call (hub_claude h))) (hub_idle h))) = entry_state t (hub_idle h)"
    using assms(1,2) by (intro effects_elsewhere) (auto simp: confined_def list_all_iff)
  moreover have "claude_busy t (fst (call (hub_claude h))) = claude_busy t (hub_claude h)"
    using assms(1,2) by (simp add: confined_def claude_busy_def)
  ultimately show ?thesis using assms(3) by (simp add: waiting_def drive_parts)
qed

lemma waiting_cong:
  "waiting t d h \<Longrightarrow> hub_claude h' = hub_claude h \<Longrightarrow> entry_state t (hub_idle h') = entry_state t (hub_idle h)
    \<Longrightarrow> waiting t d h'"
  by (simp add: waiting_def)

lemma idle_lapse_nothing:
  assumes "ta_phase s \<noteq> ClaudeBusy"
  shows "snd (claude_lapse dm at s) = []" and "ta_phase (fst (claude_lapse dm at s)) \<noteq> ClaudeBusy"
  using assms by (auto simp: claude_lapse_def deadman_lapse_def split: option.splits)

lemma lapse_about: "ta_terminal_id s = u \<Longrightarrow> list_all (about u) (snd (claude_lapse dm at s))"
  by (auto simp: claude_lapse_def deadman_lapse_def about_ops split: option.splits)

lemma expire_elsewhere:
  assumes "claude_wf c" and "enumerates order (ct_states c)" and "\<not> claude_busy t c"
  shows "entry_state t (fst (claude_frames (snd (claude_expire order at c)) g)) = entry_state t g"
    and "\<not> claude_busy t (fst (claude_expire order at c))"
proof -
  let ?l = "claude_lapse (ct_busy_deadman_ms c) at"
  have "\<exists>u. u \<noteq> t \<and> about u e" if e: "e \<in> set (snd (claude_expire order at c))" for e
  proof -
    have "e \<in> set (concat (map (\<lambda>k. case fmlookup (ct_states c) k of None \<Rightarrow> [] | Some s \<Rightarrow> snd (?l s)) order))"
      using e assms(2) by (simp add: claude_expire_def case_prod_beta Let_def sweep_states_out enumerates_def)
    then obtain k where "e \<in> set (case fmlookup (ct_states c) k of None \<Rightarrow> [] | Some s \<Rightarrow> snd (?l s))"
      by auto
    then obtain s where k: "fmlookup (ct_states c) k = Some s" "e \<in> set (snd (?l s))"
      by (cases "fmlookup (ct_states c) k") auto
    have "about k e" using lapse_about [of s k] k assms(1) by (auto simp: claude_wf_def list_all_iff)
    moreover have "k \<noteq> t"
      using k assms(3) idle_lapse_nothing(1) [of s] by (auto simp: claude_busy_def busy_now_def)
    ultimately show ?thesis by blast
  qed
  then show "entry_state t (fst (claude_frames (snd (claude_expire order at c)) g)) = entry_state t g"
    by (rule effects_elsewhere)
  show "\<not> claude_busy t (fst (claude_expire order at c))"
    using assms(3) idle_lapse_nothing(2) sweep_all_lookup [OF assms(2), of "\<lambda>_. ?l" t]
    by (auto simp: claude_expire_def claude_busy_def busy_now_def case_prod_beta Let_def split: option.splits)
qed

lemma waiting_tick:
  assumes "hub_ok h" and "hub_op_ok (DeadlineFired co go e) h" and "waiting t d h"
  shows "entry_state t (hub_idle (fst (drive_claude (claude_expire co e) h))) = entry_state t (hub_idle h)"
    and "entry_state t (hub_idle (fst (expire_due co go e h))) = fst (idle_lapse e t (entry_state t (hub_idle h)))"
    and "\<not> claude_busy t (hub_claude (fst (expire_due co go e h)))"
proof -
  have wf: "claude_wf (hub_claude h)" using assms(1) by (simp add: hub_ok_def)
  have idle: "\<not> claude_busy t (hub_claude h)" using assms(3) by (simp add: waiting_def)
  have enum: "enumerates co (ct_states (hub_claude h))"
    "enumerates go (ig_states (hub_idle (fst (drive_claude (claude_expire co e) h))))"
    using assms(2) by simp_all
  show same: "entry_state t (hub_idle (fst (drive_claude (claude_expire co e) h))) = entry_state t (hub_idle h)"
    using expire_elsewhere(1) [OF wf enum(1) idle] by (simp add: drive_parts)
  show "entry_state t (hub_idle (fst (expire_due co go e h))) = fst (idle_lapse e t (entry_state t (hub_idle h)))"
    by (simp add: expire_due_def case_prod_beta Let_def expire_entry [OF enum(2)] same)
  show "\<not> claude_busy t (hub_claude (fst (expire_due co go e h)))"
    using expire_elsewhere(2) [OF wf enum(1) idle] by (simp add: expire_due_def case_prod_beta Let_def drive_parts)
qed

text \<open>What may happen while a terminal waits: operations on others, and ticks before its deadline.\<close>

fun leaves_waiting :: "string \<Rightarrow> int \<Rightarrow> HubOp \<Rightarrow> bool" where
  "leaves_waiting t d (DeadlineFired _ _ e) = (e < d)"
| "leaves_waiting t d op = (op_terminal op \<noteq> Some t)"

lemma waiting_step:
  assumes "hub_ok h" and "hub_op_ok op h" and "waiting t d h" and "leaves_waiting t d op"
  shows "waiting t d (fst (hub_perform op h))"
proof (cases op)
  case (DeadlineFired co go e)
  have early: "fst (idle_lapse e t (entry_state t (hub_idle h))) = entry_state t (hub_idle h)"
    using assms(3,4) by (simp add: DeadlineFired waiting_def idle_lapse_def)
  show ?thesis
    using waiting_tick [OF assms(1) assms(2) [unfolded DeadlineFired] assms(3)] assms(3) early
    by (simp add: DeadlineFired waiting_def)
next
  case (InputEvent truth u data at)
  have wf: "claude_wf (hub_claude h)" and u: "u \<noteq> t" using assms(1,4) by (simp_all add: hub_ok_def InputEvent)
  have keys: "waiting t d (after_keys u data at h)" "hub_claude (after_keys u data at h) = hub_claude h"
    using u by (auto simp: after_keys_def quit_parts intro!: waiting_cong [OF assms(3)])
  then have "waiting t d (fst (drive_claude (note_input u data at False) (after_keys u data at h)))"
    using wf u by (intro waiting_drive [of u]) (simp_all add: input_confined)
  then show ?thesis
    using assms(3) keys(1) handle_input_state [of truth u data at h] by (auto simp: InputEvent case_prod_beta)
next
  case (ExitEvent others u at spontaneous)
  let ?h = "h\<lparr>hub_modes := fmdrop u (hub_modes h), hub_idle := gate_note_exit u (hub_idle h),
    hub_claude_submit_offsets := fmdrop u (hub_claude_submit_offsets h),
    hub_quit_intents := fmdrop u (hub_quit_intents h), hub_quit_intent_lines := fmdrop u (hub_quit_intent_lines h)\<rparr>"
  have u: "u \<noteq> t" using assms(4) by (simp add: ExitEvent)
  then have "waiting t d ?h" by (intro waiting_cong [OF assms(3)]) simp_all
  then have "waiting t d (fst (drive_claude (note_exit u) ?h))"
    using u by (intro waiting_drive [of u]) (simp_all add: exit_confined)
  then show ?thesis using assms(3) by (simp add: ExitEvent handle_exit_def Let_def case_prod_beta)
next
  case (ProbedInput u data at session len)
  let ?h = "case len of None \<Rightarrow> h | Some n \<Rightarrow>
      if is_awaiting_submit_confirm u (hub_claude h) then h
      else h\<lparr>hub_claude_submit_offsets := fmupd u (session, n) (hub_claude_submit_offsets h)\<rparr>"
  have wf: "claude_wf (hub_claude h)" and u: "u \<noteq> t" using assms(1,4) by (simp_all add: hub_ok_def ProbedInput)
  have "waiting t d ?h" "hub_claude ?h = hub_claude h"
    by (auto intro: waiting_cong [OF assms(3)] split: option.splits)
  then have "waiting t d (fst (drive_claude (note_input u data at confirmable) ?h))" for confirmable
    using wf u by (intro waiting_drive [of u]) (simp_all add: input_confined)
  then show ?thesis
    by (cases len) (auto simp: ProbedInput apply_probed_input_def case_prod_beta Let_def)
next
  case (CreatedEvent u resume at)
  have wf: "claude_wf (hub_claude h)" and u: "u \<noteq> t" using assms(1,4) by (simp_all add: hub_ok_def CreatedEvent)
  have "waiting t d (h\<lparr>hub_modes := fmupd u ''claude'' (hub_modes h)\<rparr>)"
    by (rule waiting_cong [OF assms(3)]) simp_all
  from waiting_drive [OF _ u this] show ?thesis
    using track_confined [OF wf] by (simp add: CreatedEvent handle_created_def)
next
  case (SubmitAnswer probe u at)
  have wf: "claude_wf (hub_claude h)" and u: "u \<noteq> t" using assms(1,4) by (simp_all add: hub_ok_def SubmitAnswer)
  have "waiting t d (h\<lparr>hub_claude_submit_offsets := fmdrop u (hub_claude_submit_offsets h)\<rparr>)"
    by (rule waiting_cong [OF assms(3)]) simp_all
  from waiting_drive [OF _ u this] waiting_drive [OF _ u assms(3)] show ?thesis
    using verify_confined [OF wf, of u]
    by (simp add: SubmitAnswer apply_submit_probe_def split: SubmitProbe.splits)
next
  case (SessionBound u session)
  have wf: "claude_wf (hub_claude h)" and u: "u \<noteq> t" using assms(1,4) by (simp_all add: hub_ok_def SessionBound)
  show ?thesis using waiting_drive [OF _ u assms(3)] bind_confined [OF wf]
    by (simp add: SessionBound bind_claude_session_def)
next
  case (OutputEvent u data at)
  have wf: "claude_wf (hub_claude h)" and u: "u \<noteq> t" using assms(1,4) by (simp_all add: hub_ok_def OutputEvent)
  show ?thesis using waiting_drive [OF _ u assms(3)] output_confined [OF wf] assms(3)
    by (simp add: OutputEvent handle_output_def)
next
  case (TurnAnswer probe u at)
  have wf: "claude_wf (hub_claude h)" and u: "u \<noteq> t" using assms(1,4) by (simp_all add: hub_ok_def TurnAnswer)
  show ?thesis using waiting_drive [OF _ u assms(3)] verify_confined [OF wf, of u] ended_confined [OF wf, of u]
    by (simp add: TurnAnswer apply_turn_probe_def split: TurnProbe.splits)
qed

lemma waiting_run:
  "hub_ok h \<Longrightarrow> hub_run_ok ops h \<Longrightarrow> waiting t d h \<Longrightarrow> list_all (leaves_waiting t d) ops \<Longrightarrow> waiting t d (hub_run ops h)"
  by (induction ops arbitrary: h) (simp_all add: waiting_step hub_step_ok)

end
