(* ===== verification/Quit_History.thy ===== *)
theory Quit_History
  imports Hub_Run
begin

text \<open>
  What a human typed at a terminal, read off the hub's history instead of its state: the input chunks since
  the terminal was created, and whether the last of them that decided anything was a quit. The marker and
  the line that the hub keeps per terminal (\<open>quit_intents\<close> and \<open>quit_intent_lines\<close> of
  crates/freshell-ws/src/activity.rs) say exactly this after any run, whatever else happened in between.
\<close>

section \<open>The history\<close>

fun typed_step :: "string \<Rightarrow> HubOp \<Rightarrow> (utext \<times> int) list option \<Rightarrow> (utext \<times> int) list option" where
  "typed_step t (CreatedEvent u _ _) keys = (if u = t \<and> keys = None then Some [] else keys)"
| "typed_step t (InputEvent _ u data at) keys = (if u = t then map_option (\<lambda>ks. ks @ [(data, at)]) keys else keys)"
| "typed_step t (ExitEvent _ u _ _) keys = (if u = t then None else keys)"
| "typed_step t _ keys = keys"

definition typed :: "string \<Rightarrow> HubOp list \<Rightarrow> (utext \<times> int) list option" where
  "typed t ops = fold (typed_step t) ops None"

text \<open>The line discipline after some chunks, and the class of each chunk at its place.\<close>

definition line_after :: "(utext \<times> int) list \<Rightarrow> QuitIntentState" where
  "line_after keys = snd (classify_input (concat (map fst keys)) quit_state_default)"

definition key_class :: "(utext \<times> int) list \<Rightarrow> nat \<Rightarrow> InputClass" where
  "key_class keys i = fst (classify_input (fst (keys ! i)) (line_after (take i keys)))"

definition last_decisive :: "(utext \<times> int) list \<Rightarrow> nat option" where
  "last_decisive keys = find (\<lambda>i. key_class keys i \<noteq> Other) (rev [0..<length keys])"

definition last_quit :: "(utext \<times> int) list \<Rightarrow> int option" where
  "last_quit keys = (case last_decisive keys of
     None \<Rightarrow> None
   | Some i \<Rightarrow> if key_class keys i = QuitIntent then Some (snd (keys ! i)) else None)"

text \<open>A human quit: the last decisive input was a quit, no more than 15 seconds ago.\<close>

definition human_quit :: "(utext \<times> int) list option \<Rightarrow> int \<Rightarrow> bool" where
  "human_quit keys now = (case Option.bind keys last_quit of None \<Rightarrow> False | Some at \<Rightarrow> now \<le> at + 15000)"

section \<open>The hub keeps it\<close>

lemma line_after_snoc: "line_after (keys @ [(data, at)]) = snd (classify_input data (line_after keys))"
  by (simp add: line_after_def classify_input_append case_prod_beta Let_def)

lemma key_class_snoc:
  "i < length keys \<Longrightarrow> key_class (keys @ [k]) i = key_class keys i"
  "key_class (keys @ [(data, at)]) (length keys) = fst (classify_input data (line_after keys))"
  by (simp_all add: key_class_def nth_append)

lemma find_below: "(\<And>i. i < n \<Longrightarrow> p i = q i) \<Longrightarrow> find p (rev [0..<n]) = find q (rev [0..<n])"
  by (rule find_cong) simp_all

lemma find_below_less: "find p (rev [0..<n]) = Some i \<Longrightarrow> i < n"
  by (auto simp: find_Some_iff rev_nth)

lemma last_quit_snoc:
  "last_quit (keys @ [(data, at)]) =
     (case fst (classify_input data (line_after keys)) of
        QuitIntent \<Rightarrow> Some at | NonQuitSubmit \<Rightarrow> None | Other \<Rightarrow> last_quit keys)"
proof -
  let ?p = "\<lambda>ks i. key_class ks i \<noteq> Other"
  have same: "find (?p (keys @ [(data, at)])) (rev [0..<length keys]) = last_decisive keys"
    unfolding last_decisive_def by (rule find_below) (simp add: key_class_snoc(1))
  then have found: "last_decisive (keys @ [(data, at)]) =
      (if fst (classify_input data (line_after keys)) \<noteq> Other then Some (length keys) else last_decisive keys)"
    by (simp add: last_decisive_def key_class_snoc(2))
  have "i < length keys" if "last_decisive keys = Some i" for i
    using that find_below_less by (simp add: last_decisive_def)
  then show ?thesis
    by (auto simp: last_quit_def found key_class_snoc nth_append split: InputClass.splits option.splits)
qed

definition knows_keys :: "string \<Rightarrow> (utext \<times> int) list option \<Rightarrow> HubInner \<Rightarrow> bool" where
  "knows_keys t keys h =
     (fmlookup (hub_quit_intents h) t = Option.bind keys last_quit
      \<and> (case keys of
           None \<Rightarrow> fmlookup (hub_modes h) t \<noteq> Some ''claude'' \<and> fmlookup (hub_quit_intent_lines h) t = None
         | Some ks \<Rightarrow> fmlookup (hub_modes h) t = Some ''claude''
             \<and> (case fmlookup (hub_quit_intent_lines h) t of None \<Rightarrow> quit_state_default | Some s \<Rightarrow> s) = line_after ks))"

lemma knows_keys_cong:
  assumes "knows_keys t keys h"
    and "fmlookup (hub_modes h') t = fmlookup (hub_modes h) t"
    and "fmlookup (hub_quit_intents h') t = fmlookup (hub_quit_intents h) t"
    and "fmlookup (hub_quit_intent_lines h') t = fmlookup (hub_quit_intent_lines h) t"
  shows "knows_keys t keys h'"
  using assms by (cases keys) (simp_all add: knows_keys_def)

lemma note_quit_intent_keys:
  assumes "knows_keys t (Some ks) h"
  shows "knows_keys t (Some (ks @ [(data, at)])) (note_quit_intent t data at h)"
  using assms
  by (auto simp: knows_keys_def note_quit_intent_def last_quit_snoc line_after_snoc case_prod_beta Let_def
      split: InputClass.splits)

lemma note_quit_intent_others:
  assumes "u \<noteq> t"
  shows "fmlookup (hub_quit_intents (note_quit_intent u data at h)) t = fmlookup (hub_quit_intents h) t"
    and "fmlookup (hub_quit_intent_lines (note_quit_intent u data at h)) t = fmlookup (hub_quit_intent_lines h) t"
  using assms by (auto simp: note_quit_intent_def case_prod_beta Let_def split: InputClass.splits)

lemma drive_knows: "knows_keys t keys (fst (drive_claude call h)) = knows_keys t keys h"
  by (cases keys) (simp_all add: knows_keys_def drive_parts)

lemma submit_hint_knows:
  "knows_keys t keys (if submit then h\<lparr>hub_idle := g\<rparr> else h) = knows_keys t keys h"
  by (cases keys) (simp_all add: knows_keys_def)

lemma input_knows:
  assumes "knows_keys t keys h"
  shows "knows_keys t (typed_step t (InputEvent truth u data at) keys) (fst (hub_perform (InputEvent truth u data at) h))"
proof -
  define k where "k = after_keys u data at h"
  define k' where "k' = fst (drive_claude (note_input u data at False) k)"
  let ?h' = "fst (hub_perform (InputEvent truth u data at) h)"
  have states: "?h' \<in> {k, k'}" if "fmlookup (hub_modes h) u = Some ''claude''"
    using that unfolding k_def k'_def after_keys_def by (simp add: handle_input_def Let_def case_prod_beta split: option.splits)
  have untracked: "?h' = h" if "fmlookup (hub_modes h) u \<noteq> Some ''claude''"
    using that by (simp add: handle_input_def)
  show ?thesis
  proof (cases "u = t")
    case True
    show ?thesis
    proof (cases keys)
      case None
      then show ?thesis using assms untracked True by (simp add: knows_keys_def)
    next
      case (Some ks)
      have "knows_keys t (Some (ks @ [(data, at)])) k"
        unfolding k_def after_keys_def True
        by (rule note_quit_intent_keys) (use assms Some in \<open>simp add: submit_hint_knows\<close>)
      moreover have "fmlookup (hub_modes h) u = Some ''claude''" using assms Some True by (simp add: knows_keys_def)
      ultimately show ?thesis using states True Some by (auto simp: k'_def drive_knows)
    qed
  next
    case False
    have "knows_keys t keys k"
      unfolding k_def after_keys_def
      by (rule knows_keys_cong [OF assms]) (simp_all add: note_quit_intent_others [OF False] quit_parts)
    then have "knows_keys t keys ?h'" using states untracked assms
      by (cases "fmlookup (hub_modes h) u = Some ''claude''") (auto simp: k'_def drive_knows)
    then show ?thesis using False by simp
  qed
qed

lemma exit_knows:
  assumes "knows_keys t keys h"
  shows "knows_keys t (typed_step t (ExitEvent others u at spontaneous) keys)
    (fst (hub_perform (ExitEvent others u at spontaneous) h))"
proof (cases "fmlookup (hub_modes h) u = Some ''claude''")
  case True
  let ?h = "h\<lparr>hub_modes := fmdrop u (hub_modes h), hub_idle := gate_note_exit u (hub_idle h),
    hub_claude_submit_offsets := fmdrop u (hub_claude_submit_offsets h),
    hub_quit_intents := fmdrop u (hub_quit_intents h), hub_quit_intent_lines := fmdrop u (hub_quit_intent_lines h)\<rparr>"
  have "fst (hub_perform (ExitEvent others u at spontaneous) h) = fst (drive_claude (note_exit u) ?h)"
    using True by (simp add: handle_exit_def Let_def case_prod_beta)
  moreover have "knows_keys t (if u = t then None else keys) ?h"
    using assms by (cases keys) (auto simp: knows_keys_def)
  ultimately show ?thesis by (simp add: drive_knows)
next
  case False
  have "fst (hub_perform (ExitEvent others u at spontaneous) h) = h"
    using False by (simp add: handle_exit_def Let_def)
  moreover have "u = t \<Longrightarrow> keys = None" using assms False by (cases keys) (auto simp: knows_keys_def)
  ultimately show ?thesis using assms by auto
qed

lemma step_knows:
  assumes "knows_keys t keys h"
  shows "knows_keys t (typed_step t op keys) (fst (hub_perform op h))"
proof (cases op)
  case (CreatedEvent u resume at)
  have "knows_keys t (if u = t \<and> keys = None then Some [] else keys) (h\<lparr>hub_modes := fmupd u ''claude'' (hub_modes h)\<rparr>)"
    using assms by (cases keys) (auto simp: knows_keys_def last_quit_def last_decisive_def line_after_def classify_input_def)
  then show ?thesis by (simp add: CreatedEvent handle_created_def drive_knows)
next
  case (ProbedInput u data at session len)
  have "knows_keys t keys (h\<lparr>hub_claude_submit_offsets := offsets\<rparr>)" for offsets
    using assms by (rule knows_keys_cong) simp_all
  then show ?thesis
    using assms by (auto simp: ProbedInput apply_probed_input_def case_prod_beta Let_def drive_knows split: option.splits)
next
  case (DeadlineFired corder gorder at)
  have "knows_keys t keys (k\<lparr>hub_idle := g\<rparr>)" if "knows_keys t keys k" for k g
    using that by (rule knows_keys_cong) simp_all
  then show ?thesis
    using assms by (simp add: DeadlineFired expire_due_def case_prod_beta Let_def drive_knows)
next
  case (SubmitAnswer probe u at)
  have "knows_keys t keys (h\<lparr>hub_claude_submit_offsets := offsets\<rparr>)" for offsets
    using assms by (rule knows_keys_cong) simp_all
  then show ?thesis
    using assms by (simp add: SubmitAnswer apply_submit_probe_def drive_knows split: SubmitProbe.splits)
next
  case (InputEvent truth u data at)
  show ?thesis unfolding InputEvent by (rule input_knows [OF assms])
next
  case (ExitEvent others u at spontaneous)
  show ?thesis unfolding ExitEvent by (rule exit_knows [OF assms])
qed (use assms in \<open>simp_all add: bind_claude_session_def handle_output_def apply_turn_probe_def drive_knows
  split: TurnProbe.splits\<close>)

lemma run_knows: "knows_keys t keys h \<Longrightarrow> knows_keys t (fold (typed_step t) ops keys) (hub_run ops h)"
  by (induction ops arbitrary: keys h) (simp_all add: step_knows)

text \<open>After any run from the start, the marker is the time of the last decisive input if that was a quit.\<close>

lemma hub_knows_typed: "knows_keys t (typed t ops) (hub_run ops hub_default)"
  unfolding typed_def by (rule run_knows) (simp add: knows_keys_def hub_default_def)

lemma marker_is_human_quit:
  "quit_intent_active (fmlookup (hub_quit_intents (hub_run ops hub_default)) t) now = human_quit (typed t ops) now"
  using hub_knows_typed [of t ops]
  by (auto simp: knows_keys_def human_quit_def quit_intent_active_def QUIT_INTENT_TTL_MS_def split: option.splits)

end
