(* ===== verification/Hub_Sleep.thy ===== *)
theory Hub_Sleep
  imports Hub_Run
begin

text \<open>
  Two hubs that nothing can tell apart: they differ at most in the submit grace deadline of terminals that
  wait for no submit (\<open>normal\<close>). No operation of tracker or hub distinguishes them: each answers the same to
  both and leaves them alike.
\<close>

section \<open>Terminals\<close>

definition provisional :: "TerminalActivity \<Rightarrow> bool" where
  "provisional s = (ta_phase s = ClaudeBusy \<and> \<not> ta_busy_confirmed s)"

lemma normal_eq:
  "normal s = normal s' \<longleftrightarrow>
     ta_terminal_id s = ta_terminal_id s' \<and> ta_session_id s = ta_session_id s' \<and> ta_phase s = ta_phase s'
     \<and> ta_updated_at s = ta_updated_at s' \<and> ta_in_flight s = ta_in_flight s'
     \<and> ta_last_observed_at s = ta_last_observed_at s' \<and> ta_parser_state s = ta_parser_state s'
     \<and> ta_busy_confirmed s = ta_busy_confirmed s' \<and> ta_submit_grace_retried s = ta_submit_grace_retried s'
     \<and> (provisional s \<longrightarrow> ta_submit_grace_deadline s = ta_submit_grace_deadline s')"
  by (cases s, cases s') (auto simp: normal_def provisional_def)

definition state_blind :: "(TerminalActivity \<Rightarrow> TerminalActivity \<times> ClaudeEffect list) \<Rightarrow> bool" where
  "state_blind f = (\<forall>s s'. normal s = normal s' \<longrightarrow> normal (fst (f s)) = normal (fst (f s')) \<and> snd (f s) = snd (f s'))"

lemma normal_record: "normal s = normal s' \<Longrightarrow> to_record s = to_record s'"
  by (simp add: normal_eq to_record_def)

lemma rebind_blind: "state_blind (rebind session)"
  by (auto simp: state_blind_def rebind_def normal_eq provisional_def to_record_def Let_def)

lemma input_blind: "state_blind (input_activity data at confirmable)"
  by (auto simp: state_blind_def input_activity_def normal_eq provisional_def to_record_def Let_def)

lemma deadman_blind: "state_blind (deadman_lapse dm at)"
  by (auto simp: state_blind_def deadman_lapse_def normal_eq provisional_def)

lemma lapse_blind: "state_blind (claude_lapse dm at)"
  unfolding state_blind_def
proof (intro allI impI)
  fix s s' assume alike: "normal s = normal s'"
  have due: "claude_lapse dm at r = deadman_lapse dm at
      (if \<exists>d. ta_submit_grace_deadline r = Some d \<and> d \<le> at then r\<lparr>ta_submit_grace_deadline := None\<rparr> else r)"
    if "\<not> provisional r" for r
    using that by (auto simp: claude_lapse_def provisional_def split: option.splits)
  have quiet: "normal (if P then r\<lparr>ta_submit_grace_deadline := None\<rparr> else r) = normal r" if "\<not> provisional r" for P r
    using that by (auto simp: normal_def provisional_def)
  show "normal (fst (claude_lapse dm at s)) = normal (fst (claude_lapse dm at s')) \<and>
      snd (claude_lapse dm at s) = snd (claude_lapse dm at s')"
  proof (cases "provisional s")
    case True
    then have "s = s'" using alike by (cases s, cases s') (simp add: normal_eq)
    then show ?thesis by simp
  next
    case False
    then have "\<not> provisional s'" using alike by (simp add: normal_eq provisional_def)
    let ?u = "\<lambda>r. if \<exists>d. ta_submit_grace_deadline r = Some d \<and> d \<le> at then r\<lparr>ta_submit_grace_deadline := None\<rparr> else r"
    have "normal (?u s) = normal (?u s')"
      using alike quiet [OF False] quiet [OF \<open>\<not> provisional s'\<close>] by simp
    then show ?thesis
      using deadman_blind [of dm at] unfolding due [OF False] due [OF \<open>\<not> provisional s'\<close>] state_blind_def by blast
  qed
qed

lemma answers_blind:
  "state_blind (\<lambda>s. (observed_if_busy at s, []))"
  "state_blind (\<lambda>s. if ta_phase s \<noteq> ClaudeBusy then (s, [])
      else let s' = settled_idle at s
           in (s', commit_change (Some (to_record s)) (to_record s') @ [AttentionBoundary t at]))"
  "state_blind (\<lambda>s. if ta_phase s = ClaudeBusy \<and> \<not> ta_busy_confirmed s
      then (s\<lparr>ta_busy_confirmed := True, ta_in_flight := 1, ta_submit_grace_deadline := None,
              ta_last_observed_at := at\<rparr>, [])
      else (s, []))"
  "state_blind (\<lambda>s. if ta_phase s \<noteq> ClaudeBusy \<or> ta_busy_confirmed s then (s, [])
      else let s1 = s\<lparr>ta_submit_grace_deadline := None\<rparr>;
               s2 = s1\<lparr>ta_phase := ClaudeIdle, ta_updated_at := at, ta_last_observed_at := at\<rparr>
           in (s2, commit_change (Some (to_record s1)) (to_record s2)))"
  "state_blind (\<lambda>s. (s\<lparr>ta_submit_grace_deadline := None\<rparr>, []))"
  by (auto simp: state_blind_def normal_eq provisional_def observed_if_busy_def settled_idle_def to_record_def Let_def)

section \<open>Trackers\<close>

definition tracker_alike :: "ClaudeTracker \<Rightarrow> ClaudeTracker \<Rightarrow> bool" where
  "tracker_alike c c' =
     (ct_ledger c = ct_ledger c' \<and> ct_busy_deadman_ms c = ct_busy_deadman_ms c' \<and>
      (\<forall>t. map_option normal (fmlookup (ct_states c) t) = map_option normal (fmlookup (ct_states c') t)))"

definition blind :: "(ClaudeTracker \<Rightarrow> ClaudeTracker \<times> ClaudeEffect list) \<Rightarrow> bool" where
  "blind call = (\<forall>c c'. claude_wf c \<longrightarrow> tracker_alike c c' \<longrightarrow>
     tracker_alike (fst (call c)) (fst (call c')) \<and> snd (call c) = snd (call c'))"

lemma alike_cases:
  assumes "tracker_alike c c'"
  obtains "fmlookup (ct_states c) t = None" "fmlookup (ct_states c') t = None"
  | s s' where "fmlookup (ct_states c) t = Some s" "fmlookup (ct_states c') t = Some s'" "normal s = normal s'"
  using assms unfolding tracker_alike_def
  by (cases "fmlookup (ct_states c) t"; cases "fmlookup (ct_states c') t") (metis option.simps(8,9) option.inject option.distinct(1))+

lemma put_alike:
  "tracker_alike c c' \<Longrightarrow> normal s = normal s' \<Longrightarrow> tracker_alike (put_activity t s c) (put_activity t s' c')"
  by (simp add: tracker_alike_def put_activity_def)

lemma ledger_alike: "tracker_alike c c' \<Longrightarrow> tracker_alike (c\<lparr>ct_ledger := l\<rparr>) (c'\<lparr>ct_ledger := l\<rparr>)"
  by (simp add: tracker_alike_def)

lemma with_activity_blind:
  assumes "state_blind f" shows "blind (with_activity t f)"
  unfolding blind_def
proof (intro allI impI)
  fix c c' assume wf: "claude_wf c" and alike: "tracker_alike c c'"
  show "tracker_alike (fst (with_activity t f c)) (fst (with_activity t f c'))
      \<and> snd (with_activity t f c) = snd (with_activity t f c')"
  proof (cases rule: alike_cases [OF alike, of t])
    case 1
    then show ?thesis using alike by (simp add: with_activity_def)
  next
    case (2 s s')
    have f: "normal (fst (f s)) = normal (fst (f s'))" "snd (f s) = snd (f s')"
      using assms 2(3) unfolding state_blind_def by blast+
    show ?thesis using put_alike [OF alike f(1)] f(2) by (simp add: with_activity_def 2 case_prod_beta Let_def)
  qed
qed

lemmas tracker_calls_blind [simp] =
  with_activity_blind [OF input_blind, folded note_input_def]
  with_activity_blind [OF answers_blind(1), folded note_verified_busy_def]
  with_activity_blind [OF answers_blind(3), folded note_submit_confirmed_def]
  with_activity_blind [OF answers_blind(4), folded note_submit_unconfirmed_def]
  with_activity_blind [OF answers_blind(5), folded note_submit_probe_unavailable_def]
  with_activity_blind [OF rebind_blind, folded bind_session_def]

lemma verify_failed_blind [simp]: "blind (note_verify_failed t at)"
  unfolding note_verify_failed_def by (rule with_activity_blind [OF answers_blind(2)])

lemma blindD: "blind call \<Longrightarrow> claude_wf c \<Longrightarrow> tracker_alike c c' \<Longrightarrow>
    tracker_alike (fst (call c)) (fst (call c')) \<and> snd (call c) = snd (call c')"
  by (simp add: blind_def)

lemma track_blind [simp]: "blind (track_terminal t session at)"
  unfolding blind_def
proof (intro allI impI)
  fix c c' assume wf: "claude_wf c" and alike: "tracker_alike c c'"
  show "tracker_alike (fst (track_terminal t session at c)) (fst (track_terminal t session at c'))
      \<and> snd (track_terminal t session at c) = snd (track_terminal t session at c')"
  proof (cases rule: alike_cases [OF alike, of t])
    case 1
    then show ?thesis using put_alike [OF alike] by (simp add: track_terminal_def Let_def)
  next
    case (2 s s')
    then show ?thesis
      using alike blindD [OF with_activity_blind [OF rebind_blind] wf alike]
      by (cases session) (simp_all add: track_terminal_def)
  qed
qed

lemma exit_blind [simp]: "blind (note_exit t)"
  unfolding blind_def
proof (intro allI impI)
  fix c c' assume wf: "claude_wf c" and alike: "tracker_alike c c'"
  then have "tracker_alike (c\<lparr>ct_states := fmdrop t (ct_states c)\<rparr>) (c'\<lparr>ct_states := fmdrop t (ct_states c')\<rparr>)"
    by (simp add: tracker_alike_def)
  then show "tracker_alike (fst (note_exit t c)) (fst (note_exit t c')) \<and> snd (note_exit t c) = snd (note_exit t c')"
    using alike by (cases rule: alike_cases [OF alike, of t]) (simp_all add: note_exit_def)
qed

lemma ended_blind [simp]: "blind (note_verified_ended t at)"
  unfolding blind_def
proof (intro allI impI)
  fix c c' assume wf: "claude_wf c" and alike: "tracker_alike c c'"
  have ledger: "ct_ledger c = ct_ledger c'" using alike by (simp add: tracker_alike_def)
  show "tracker_alike (fst (note_verified_ended t at c)) (fst (note_verified_ended t at c'))
      \<and> snd (note_verified_ended t at c) = snd (note_verified_ended t at c')"
  proof (cases rule: alike_cases [OF alike, of t])
    case 1
    then show ?thesis using alike by (simp add: note_verified_ended_def)
  next
    case (2 s s')
    have settled: "normal (settled_idle at s) = normal (settled_idle at s')"
      using 2(3) by (simp add: normal_eq provisional_def settled_idle_def)
    have phase: "ta_phase s = ta_phase s'" using 2(3) by (simp add: normal_eq)
    have sessions: "ta_session_id (settled_idle at s) = ta_session_id (settled_idle at s')"
      using settled by (simp add: normal_eq)
    show ?thesis
      using alike put_alike [OF ledger_alike [OF alike] settled] normal_record [OF 2(3)]
        normal_record [OF settled]
      by (simp add: note_verified_ended_def 2(1,2) phase ledger sessions case_prod_beta Let_def)
  qed
qed

lemma observed_alike: "normal s = normal s' \<Longrightarrow> normal (observed_if_busy at s) = normal (observed_if_busy at s')"
  by (simp add: normal_eq provisional_def observed_if_busy_def)

lemma parser_alike: "normal s = normal s' \<Longrightarrow>
    normal (s\<lparr>ta_parser_state := p\<rparr>) = normal (s'\<lparr>ta_parser_state := p\<rparr>)"
  by (simp add: normal_eq provisional_def)

lemma bell_alike: "normal s = normal s' \<Longrightarrow> normal (confirm_by_bell s) = normal (confirm_by_bell s')"
  by (auto simp: normal_eq provisional_def confirm_by_bell_def)

lemma confirmed_by_bell: "\<not> provisional (confirm_by_bell s)"
  by (simp add: provisional_def confirm_by_bell_def)

lemma no_turn_no_completion: "complete_turns n u session at 0 l = (0, l, [])"
  by (cases n) simp_all

lemma min_nat_zero: "min a b = 0 \<longleftrightarrow> a = 0 \<or> b = (0::nat)"
  by auto

lemma output_blind [simp]: "blind (note_output t data at)"
  unfolding blind_def
proof (intro allI impI)
  fix c c' assume wf: "claude_wf c" and alike: "tracker_alike c c'"
  show "tracker_alike (fst (note_output t data at c)) (fst (note_output t data at c'))
      \<and> snd (note_output t data at c) = snd (note_output t data at c')"
  proof (cases rule: alike_cases [OF alike, of t])
    case 1
    then show ?thesis using alike by (simp add: note_output_def)
  next
    case (2 s0 s0')
    obtain shown count parser where extracted:
      "extract_turn_complete_signals data ''claude'' (ta_parser_state s0) = ((shown, count), parser)"
      by (metis surj_pair)
    let ?s1 = "s0\<lparr>ta_parser_state := parser\<rparr>" and ?s1' = "s0'\<lparr>ta_parser_state := parser\<rparr>"
    let ?clear = "min count (count_tracker_turn_complete_signals data (ta_parser_state s0))"
    let ?s = "confirm_by_bell ?s1" and ?s' = "confirm_by_bell ?s1'"
    obtain left ledger completions where turns:
      "complete_turns ?clear t (ta_session_id ?s) at (ta_in_flight ?s) (ct_ledger c) = (left, ledger, completions)"
      by (metis surj_pair)
    have parser: "ta_parser_state s0' = ta_parser_state s0" using 2(3) by (simp add: normal_eq)
    have one: "normal ?s1 = normal ?s1'" using 2(3) by (rule parser_alike)
    have two: "normal ?s = normal ?s'" using one by (rule bell_alike)
    have same: "ct_ledger c' = ct_ledger c" "ta_session_id ?s' = ta_session_id ?s" "ta_in_flight ?s' = ta_in_flight ?s"
      using alike two by (simp_all add: tracker_alike_def normal_eq)
    have "turn_ok s0" using wf 2(1) by (auto simp: claude_wf_def)
    then have idle: "completions = []" if "ta_phase ?s \<noteq> ClaudeBusy"
      using turns that no_turn_no_completion
      by (auto simp: turn_ok_def confirm_by_bell_def not_busy split: if_splits)
    define close where "close = (\<lambda>s::TerminalActivity. if completions = [] then s\<lparr>ta_in_flight := left, ta_last_observed_at := at\<rparr>
      else s\<lparr>ta_in_flight := left, ta_last_observed_at := at,
             ta_phase := (if 0 < left then ClaudeBusy else ClaudeIdle), ta_updated_at := at\<rparr>)"
    have three: "normal (close ?s) = normal (close ?s')"
      using two idle confirmed_by_bell [of ?s1] by (auto simp: close_def normal_eq provisional_def)
    have run: "note_output t data at c =
        (if count = 0 \<or> ?clear = 0 then (put_activity t (observed_if_busy at ?s1) c, [])
         else (put_activity t (close ?s) (c\<lparr>ct_ledger := ledger\<rparr>),
               commit_change (Some (to_record ?s)) (to_record (close ?s)) @ completions))"
      using turns by (simp add: note_output_def 2(1) extracted close_def min_nat_zero Let_def)
    have run': "note_output t data at c' =
        (if count = 0 \<or> ?clear = 0 then (put_activity t (observed_if_busy at ?s1') c', [])
         else (put_activity t (close ?s') (c'\<lparr>ct_ledger := ledger\<rparr>),
               commit_change (Some (to_record ?s')) (to_record (close ?s')) @ completions))"
      using turns by (simp add: note_output_def 2(2) parser extracted close_def same min_nat_zero Let_def)
    show ?thesis
      unfolding run run'
      using put_alike [OF alike observed_alike [OF one]] put_alike [OF ledger_alike [OF alike] three]
        normal_record [OF two] normal_record [OF three]
      by (simp add: min_nat_zero)
  qed
qed

lemma sweep_alike:
  assumes "\<And>t. map_option normal (fmlookup m t) = map_option normal (fmlookup m' t)" and "state_blind f"
  shows "(\<forall>t. map_option normal (fmlookup (fst (sweep_states (\<lambda>_. f) order m)) t)
        = map_option normal (fmlookup (fst (sweep_states (\<lambda>_. f) order m')) t))
    \<and> snd (sweep_states (\<lambda>_. f) order m) = snd (sweep_states (\<lambda>_. f) order m')"
  using assms(1)
proof (induction order arbitrary: m m')
  case (Cons k order)
  show ?case
  proof (cases "fmlookup m k")
    case None
    then have "fmlookup m' k = None" using Cons.prems [of k] by simp
    then show ?thesis using None Cons.IH [OF Cons.prems] by simp
  next
    case (Some s)
    then obtain s' where s': "fmlookup m' k = Some s'" "normal s = normal s'" using Cons.prems [of k]
      by (cases "fmlookup m' k") auto
    then have f: "normal (fst (f s)) = normal (fst (f s'))" "snd (f s) = snd (f s')"
      using assms(2) unfolding state_blind_def by blast+
    have "map_option normal (fmlookup (fmupd k (fst (f s)) m) t) = map_option normal (fmlookup (fmupd k (fst (f s')) m') t)" for t
      using f(1) Cons.prems [of t] by simp
    from Cons.IH [OF this] show ?thesis using Some s'(1) f(2) by (simp add: case_prod_beta Let_def)
  qed
qed simp

lemma expire_blind [simp]: "blind (claude_expire order at)"
  unfolding blind_def
proof (intro allI impI)
  fix c c' assume "tracker_alike c c'"
  then show "tracker_alike (fst (claude_expire order at c)) (fst (claude_expire order at c'))
      \<and> snd (claude_expire order at c) = snd (claude_expire order at c')"
    using sweep_alike [OF _ lapse_blind, of "ct_states c" "ct_states c'" "ct_busy_deadman_ms c" at order]
    by (simp add: tracker_alike_def claude_expire_def case_prod_beta Let_def)
qed

section \<open>Hubs\<close>

definition hub_alike :: "HubInner \<Rightarrow> HubInner \<Rightarrow> bool" where
  "hub_alike h h' =
     (tracker_alike (hub_claude h) (hub_claude h') \<and> hub_idle h = hub_idle h' \<and> hub_modes h = hub_modes h' \<and>
      hub_claude_submit_offsets h = hub_claude_submit_offsets h' \<and>
      hub_quit_intent_lines h = hub_quit_intent_lines h' \<and> hub_quit_intents h = hub_quit_intents h')"

text \<open>All that an operation answers: its frames, the terminals to verify, the session to probe.\<close>

fun hub_answer :: "HubOp \<Rightarrow> HubInner \<Rightarrow> HubFrame list \<times> string list \<times> string option" where
  "hub_answer (InputEvent truth t data at) h =
     (let (_, frames, probe) = handle_input truth t data at h in (frames, [], probe))"
| "hub_answer (DeadlineFired corder gorder at) h =
     (let (_, frames, verifies) = expire_due corder gorder at h in (frames, verifies, None))"
| "hub_answer op h = (snd (hub_perform op h), [], None)"

lemma drive_alike:
  assumes "blind call" and "claude_wf (hub_claude h)" and "hub_alike h h'"
  shows "hub_alike (fst (drive_claude call h)) (fst (drive_claude call h'))"
    and "snd (drive_claude call h) = snd (drive_claude call h')"
  using blindD [OF assms(1,2), of "hub_claude h'"] assms(3)
  by (simp_all add: hub_alike_def drive_claude_def case_prod_beta Let_def)

lemma frames_only_alike:
  assumes "blind call" and "claude_wf (hub_claude h)" and "hub_alike h h'"
  shows "hub_alike (fst (frames_only (drive_claude call h))) (fst (frames_only (drive_claude call h')))
    \<and> snd (frames_only (drive_claude call h)) = snd (frames_only (drive_claude call h'))"
  using drive_alike [OF assms] by (simp add: frames_only_def)

lemma alike_session: "tracker_alike c c' \<Longrightarrow> session_id_of t c = session_id_of t c'"
  by (cases rule: alike_cases [of c c' t]) (simp_all add: session_id_of_def normal_eq)

lemma alike_awaiting: "tracker_alike c c' \<Longrightarrow> is_awaiting_submit_confirm t c = is_awaiting_submit_confirm t c'"
  by (cases rule: alike_cases [of c c' t])
    (auto simp: is_awaiting_submit_confirm_def normal_eq provisional_def dest: sym)

lemma keys_alike:
  assumes "hub_alike h h'"
  shows "hub_alike (note_quit_intent t data at h) (note_quit_intent t data at h')"
  using assms by (auto simp: hub_alike_def note_quit_intent_def case_prod_beta Let_def split: InputClass.splits)

lemma input_alike:
  assumes "hub_ok h" and "hub_alike h h'"
  shows "hub_alike (fst (handle_input truth t data at h)) (fst (handle_input truth t data at h'))
    \<and> snd (handle_input truth t data at h) = snd (handle_input truth t data at h')"
proof (cases "fmlookup (hub_modes h) t = Some ''claude''")
  case False
  then show ?thesis using assms(2) by (simp add: handle_input_def hub_alike_def)
next
  case True
  let ?k = "after_keys t data at h" and ?k' = "after_keys t data at h'"
  have "hub_alike (if is_submit_input data then h\<lparr>hub_idle := note_busy t (hub_idle h)\<rparr> else h)
      (if is_submit_input data then h'\<lparr>hub_idle := note_busy t (hub_idle h')\<rparr> else h')"
    using assms(2) by (simp add: hub_alike_def)
  then have keys: "hub_alike ?k ?k'" unfolding after_keys_def by (rule keys_alike)
  then have session: "session_id_of t (hub_claude ?k) = session_id_of t (hub_claude ?k')"
    by (intro alike_session) (simp add: hub_alike_def)
  have wf: "claude_wf (hub_claude ?k)" using assms(1) by (simp add: after_keys_def quit_parts hub_ok_def)
  have mode: "fmlookup (hub_modes h') t = Some ''claude''" using True assms(2) by (simp add: hub_alike_def)
  have run: "handle_input truth t data at g =
      (case (if is_submit_input data \<and> truth then session_id_of t (hub_claude (after_keys t data at g)) else None) of
         Some session_id \<Rightarrow> (after_keys t data at g, [], Some session_id)
       | None \<Rightarrow> (let (h3, frames) = frames_only (drive_claude (note_input t data at False) (after_keys t data at g))
                 in (h3, frames, None)))" if "fmlookup (hub_modes g) t = Some ''claude''" for g
    using that unfolding handle_input_def Let_def after_keys_def [symmetric]
    by (simp split: option.splits)
  show ?thesis
    unfolding run [OF True] run [OF mode] session
    using keys frames_only_alike [OF _ wf keys, of "note_input t data at False"]
    by (simp add: case_prod_beta Let_def split: option.splits)
qed

lemma exit_alike:
  assumes "hub_ok h" and "hub_alike h h'"
  shows "hub_alike (fst (handle_exit others t at spontaneous h)) (fst (handle_exit others t at spontaneous h'))
    \<and> snd (handle_exit others t at spontaneous h) = snd (handle_exit others t at spontaneous h')"
proof -
  let ?g = "\<lambda>h. h\<lparr>hub_modes := fmdrop t (hub_modes h), hub_idle := gate_note_exit t (hub_idle h),
    hub_claude_submit_offsets := fmdrop t (hub_claude_submit_offsets h),
    hub_quit_intents := fmdrop t (hub_quit_intents h), hub_quit_intent_lines := fmdrop t (hub_quit_intent_lines h)\<rparr>"
  have gone: "hub_alike (?g h) (?g h')" using assms(2) by (simp add: hub_alike_def)
  have wf: "claude_wf (hub_claude (?g h))" using assms(1) by (simp add: hub_ok_def)
  have bell: "ring_death_bell others t at spontaneous h' = ring_death_bell others t at spontaneous h"
    using assms(2) by (simp add: ring_death_bell_def hub_alike_def)
  show ?thesis
    using assms(2) frames_only_alike [OF exit_blind wf gone]
    by (simp add: handle_exit_def Let_def case_prod_beta bell hub_alike_def)
qed

lemma step_alike:
  assumes "hub_ok h" and "hub_alike h h'"
  shows "hub_alike (fst (hub_perform op h)) (fst (hub_perform op h')) \<and> hub_answer op h = hub_answer op h'"
proof -
  have wf: "claude_wf (hub_claude h)" using assms(1) by (simp add: hub_ok_def)
  note only = frames_only_alike [OF _ wf assms(2)]
  show ?thesis
  proof (cases op)
    case (CreatedEvent t resume at)
    have "claude_wf (hub_claude (h\<lparr>hub_modes := fmupd t ''claude'' (hub_modes h)\<rparr>))" using wf by simp
    moreover have "hub_alike (h\<lparr>hub_modes := fmupd t ''claude'' (hub_modes h)\<rparr>)
        (h'\<lparr>hub_modes := fmupd t ''claude'' (hub_modes h')\<rparr>)" using assms(2) by (simp add: hub_alike_def)
    ultimately show ?thesis using frames_only_alike [OF track_blind]
      by (simp add: CreatedEvent handle_created_def)
  next
    case (InputEvent truth t data at)
    then show ?thesis using input_alike [OF assms, of truth t data at] by (simp add: case_prod_beta Let_def)
  next
    case (ExitEvent others t at spontaneous)
    then show ?thesis using exit_alike [OF assms, of others t at spontaneous] by simp
  next
    case (OutputEvent t data at)
    then show ?thesis using assms(2) only [OF output_blind] by (auto simp: handle_output_def hub_alike_def)
  next
    case (DeadlineFired corder gorder at)
    note due = drive_alike [OF expire_blind wf assms(2), of corder at]
    then show ?thesis by (simp add: DeadlineFired expire_due_def hub_alike_def frames_only_def case_prod_beta Let_def)
  next
    case (ProbedInput t data at session len)
    let ?g = "\<lambda>h. h\<lparr>hub_claude_submit_offsets := fmupd t (session, the len) (hub_claude_submit_offsets h)\<rparr>"
    have "hub_alike (?g h) (?g h')" "claude_wf (hub_claude (?g h))" using assms(2) wf by (simp_all add: hub_alike_def)
    note stashed = frames_only_alike [OF _ this(2,1)]
    have "is_awaiting_submit_confirm t (hub_claude h') = is_awaiting_submit_confirm t (hub_claude h)"
      by (rule sym, rule alike_awaiting) (use assms(2) in \<open>simp add: hub_alike_def\<close>)
    then show ?thesis
      using stashed only by (cases len) (auto simp: ProbedInput apply_probed_input_def)
  next
    case (SubmitAnswer probe t at)
    let ?g = "\<lambda>h. h\<lparr>hub_claude_submit_offsets := fmdrop t (hub_claude_submit_offsets h)\<rparr>"
    have "hub_alike (?g h) (?g h')" "claude_wf (hub_claude (?g h))" using assms(2) wf by (simp_all add: hub_alike_def)
    note dropped = frames_only_alike [OF _ this(2,1)]
    show ?thesis using only dropped by (cases probe) (auto simp: SubmitAnswer apply_submit_probe_def)
  next
    case (TurnAnswer probe t at)
    then show ?thesis using only by (cases probe) (auto simp: apply_turn_probe_def)
  next
    case (SessionBound t session)
    then show ?thesis using only by (simp add: bind_claude_session_def)
  qed
qed

lemma run_alike:
  "hub_ok h \<Longrightarrow> hub_run_ok ops h \<Longrightarrow> hub_alike h h' \<Longrightarrow> hub_alike (hub_run ops h) (hub_run ops h')"
  by (induction ops arbitrary: h h') (simp_all add: step_alike hub_step_ok)

text \<open>Nor do the deadline the hub reports and the flavor of a probe tell alike hubs apart.\<close>

lemma alarm_alike: "normal s = normal s' \<Longrightarrow> claude_alarm dm s = claude_alarm dm s'"
  by (auto simp: claude_alarm_def normal_eq provisional_def)

lemma deadline_alike:
  assumes "hub_alike h h'"
  shows "hub_next_deadline corder gorder h = hub_next_deadline corder gorder h'"
proof -
  have alike: "tracker_alike (hub_claude h) (hub_claude h')" using assms by (simp add: hub_alike_def)
  have "Option.bind (fmlookup (ct_states (hub_claude h)) t) (claude_alarm dm)
      = Option.bind (fmlookup (ct_states (hub_claude h')) t) (claude_alarm dm)" for t dm
  proof (cases rule: alike_cases [OF alike, of t])
    case (2 s s')
    show ?thesis by (simp add: 2(1,2) alarm_alike [OF 2(3)])
  qed simp
  then show ?thesis
    using assms by (simp add: hub_next_deadline_def claude_next_deadline_def next_alarm_def hub_alike_def tracker_alike_def)
qed

lemma verify_alike: "hub_alike h h' \<Longrightarrow> verify_target t h = verify_target t h'"
  using alike_awaiting [of "hub_claude h" "hub_claude h'" t] alike_session [of "hub_claude h" "hub_claude h'" t]
  by (simp add: verify_target_def hub_alike_def)

section \<open>The deadman setting\<close>

lemma deadman_kept: "ct_busy_deadman_ms (hub_claude (fst (hub_perform op h))) = ct_busy_deadman_ms (hub_claude h)"
proof -
  have one: "ct_busy_deadman_ms (fst (with_activity t f c)) = ct_busy_deadman_ms c" for t f c
    by (simp add: with_activity_def case_prod_beta Let_def split: option.splits)
  note calls = one track_terminal_def bind_session_def note_exit_def note_input_def note_verified_busy_def
    note_verify_failed_def note_submit_confirmed_def note_submit_unconfirmed_def note_submit_probe_unavailable_def
    note_verified_ended_def claude_expire_def
  have shown: "ct_busy_deadman_ms (fst (note_output t data at c)) = ct_busy_deadman_ms c" for t data at c
    by (simp add: note_output_def case_prod_beta Let_def split: option.splits)
  show ?thesis
  proof (cases op)
    case (InputEvent truth t data at)
    have "hub_claude (after_keys t data at h) = hub_claude h" by (simp add: after_keys_def quit_parts)
    then show ?thesis using handle_input_state [of truth t data at h]
      by (auto simp: InputEvent case_prod_beta drive_parts calls)
  qed (auto simp: handle_created_def bind_claude_session_def handle_output_def handle_exit_def expire_due_def
      apply_probed_input_def apply_submit_probe_def apply_turn_probe_def drive_parts calls shown case_prod_beta Let_def
      split: option.splits SubmitProbe.splits TurnProbe.splits)
qed

lemma deadman_run: "ct_busy_deadman_ms (hub_claude (hub_run ops h)) = ct_busy_deadman_ms (hub_claude h)"
  by (induction ops arbitrary: h) (simp_all add: deadman_kept)

end
