(* ===== verification/Activity_Props.thy ===== *)
theory Activity_Props
  imports Hub_Quiet Quit_History Hub_Sleep
begin

text \<open>
  What the activity tracking promises: the account of claude's turns, the bells it reads off the output,
  the quits it reads off the input, and the hub that puts tracker and gate together.
\<close>

section \<open>Signals\<close>

text \<open>C39: for a terminal that carries the bell contract, however its output is cut into chunks, extraction
  drops exactly the bells it counts: what it lets through, with the ESC it still holds back, is the output
  with that many bells missing and everything else in place; and the result depends on the output alone.\<close>

theorem extraction_loses_only_bells:
  assumes "supports_turn_signal mode"
    and "extract_chunks mode chunks parser_new = ((cleaned, n), p)"
  shows "subseq (cleaned @ held p) (concat chunks)
    \<and> silent (cleaned @ held p) = silent (concat chunks)
    \<and> bells (cleaned @ held p) + n = bells (concat chunks)
    \<and> (\<forall>chunks'. concat chunks' = concat chunks \<longrightarrow> extract_chunks mode chunks' parser_new = ((cleaned, n), p))"
proof -
  have "extract_from (concat chunks) parser_new = ((cleaned, n), p)"
    using assms by (simp add: extract_chunks_concat)
  from extract_from_account [OF this] show ?thesis
    using assms by (auto simp: extract_chunks_concat held_def parser_new_def)
qed

theorem extraction_loses_only_bells_witness:
  "subseq ([0x61, 0x1b, 0x5d, 0x07, 0x62] @ held parser_new) (concat [[0x61, 0x07, 0x1b], [0x5d, 0x07, 0x62]])"
proof -
  have run: "extract_chunks ''claude'' [[0x61, 0x07, 0x1b], [0x5d, 0x07, 0x62]] parser_new
      = (([0x61, 0x1b, 0x5d, 0x07, 0x62], 1), parser_new)"
    by (simp add: extract_turn_complete_signals_def supports_turn_signal_def extract_step_def after_esc_def
        parser_new_def signal_chars Let_def)
  have "supports_turn_signal ''claude''" by (simp add: supports_turn_signal_def)
  from extraction_loses_only_bells [OF this run] show ?thesis by blast
qed

text \<open>In a chunk without control strings the tracker counts the bells that are not sandwiched: those with no
  visible output in front of them in the chunk, and those with none behind them.\<close>

theorem tracker_counts_unsandwiched:
  assumes "list_all (\<lambda>c. \<not> opens_control c) data"
  shows "count_tracker_turn_complete_signals data parser_new
    = length (filter (unsandwiched data) [0 ..< length data])"
  using assms by (rule tracker_count_plain)

theorem tracker_counts_unsandwiched_witness:
  "count_tracker_turn_complete_signals [0x07, 0x61, 0x07, 0x62, 0x07] parser_new = 2"
proof -
  have plain: "list_all (\<lambda>c. \<not> opens_control c) [0x07, 0x61, 0x07, 0x62, 0x07]"
    by (simp add: opens_control_def signal_chars)
  have "length [0x07, 0x61, 0x07, 0x62, 0x07 :: nat] = 5" by simp
  moreover have "length (filter (unsandwiched [0x07, 0x61, 0x07, 0x62, 0x07]) [0 ..< 5]) = 2"
    by (simp add: unsandwiched_def upt_rec is_visible_def is_ignorable_leading_char_def is_whitespace_def
        is_control_def signal_chars)
  ultimately show ?thesis using tracker_counts_unsandwiched [OF plain] by (simp only:)
qed

section \<open>Quits\<close>

text \<open>A line that is typed, or pasted in one bracketed paste, and then submitted with Enter is classified by
  its text: a quit when it is \<open>/quit\<close> or \<open>/exit\<close> up to white space, else a submit unless it is blank. How
  the keystrokes are cut into inputs does not matter, and the line is clean again afterwards. The line fits
  the cap when the part in front of its last character is shorter than 32 bytes.\<close>

theorem submitted_line_classified:
  assumes "list_all printable line" and "byte_len (butlast line) < QUIT_LINE_CAP"
    and "qi_pending_esc s = []" "\<not> qi_in_paste s" "\<not> qi_unmatchable s" "qi_line s = []"
    and "concat chunks = line @ [0x0d] \<or> concat chunks = PASTE_BEGIN @ line @ PASTE_END @ [0x0d]"
  shows "classify_chunks chunks s =
    ((if is_quit_line line then QuitIntent else if trim line \<noteq> [] then NonQuitSubmit else Other), s)"
proof -
  let ?cls = "if is_quit_line line then QuitIntent else if trim line \<noteq> [] then NonQuitSubmit else Other"
  have typed: "classify_from (line @ [0x0d]) Other s = (?cls, s)"
    using type_line [of line s Other] assms(1-6) submit_line [of "s\<lparr>qi_line := line\<rparr>"]
    by (simp add: classify_from_append)
  have inside: "classify_from line Other (s\<lparr>qi_pending_esc := [], qi_in_paste := True\<rparr>)
      = (Other, s\<lparr>qi_pending_esc := [], qi_in_paste := True, qi_line := line\<rparr>)"
    using paste_line [of line "s\<lparr>qi_pending_esc := [], qi_in_paste := True\<rparr>" Other] assms(1-6) by simp
  have submit: "classify_step 0x0d Other (s\<lparr>qi_line := line, qi_pending_esc := [], qi_in_paste := False\<rparr>) = (?cls, s)"
    using submit_line [of "s\<lparr>qi_line := line, qi_pending_esc := [], qi_in_paste := False\<rparr>"] assms(3-6) by simp
  have "classify_from (PASTE_BEGIN @ line @ PASTE_END @ [0x0d]) Other s = (?cls, s)"
    using paste_markers(1) [OF assms(3), of Other] inside submit
      paste_markers(2) [of "s\<lparr>qi_pending_esc := [], qi_in_paste := True, qi_line := line\<rparr>" Other]
    by (simp add: classify_from_append)
  then show ?thesis using assms(7) typed by (auto simp: classify_chunks_concat classify_input_def)
qed

theorem submitted_line_classified_witness:
  "classify_chunks [[0x2f, 0x71], [0x75, 0x69, 0x74, 0x0d]] quit_state_default = (QuitIntent, quit_state_default)"
  using submitted_line_classified [of SLASH_QUIT quit_state_default "[[0x2f, 0x71], [0x75, 0x69, 0x74, 0x0d]]"]
  by (simp add: SLASH_QUIT_def printable_def quit_state_default_def QUIT_LINE_CAP_def len_utf8_def
      is_quit_line_def trim_def trim_start_def is_whitespace_def)

section \<open>Turns\<close>

text \<open>C21: over any run of the tracker, the completions announced for a terminal are numbered 1, 2, 3 and so on
  without a gap, and together with the turns still open there are never more of them than submits the
  terminal received: no bell, probe or verification invents a turn.\<close>

theorem turns_numbered_and_paid:
  assumes "claude_run_ok ops claude_tracker_new"
    and "claude_run ops claude_tracker_new = (c, effects)"
  shows "completion_seqs t effects = [1 .. seq_of t (ct_ledger c)]
    \<and> length (completion_seqs t effects) + turns_owed t c \<le> submits t ops"
proof -
  have "turns_owed t claude_tracker_new = 0" "seq_of t (ct_ledger claude_tracker_new) = 0"
    by (simp_all add: claude_tracker_new_def turns_owed_def ledger_new_def seq_of_def)
  then show ?thesis
    using claude_run_accounted [OF claude_new_wf assms(1), of t] assms(2) unfolding accounted_def by auto
qed

definition claude_demo :: "ClaudeOp list" where
  "claude_demo = [Track ''t'' None 0, Input ''t'' [0x0d] 10 False, Output ''t'' [0x07] 20]"

lemmas claude_eval = track_terminal_def note_input_def input_activity_def note_output_def with_activity_def
  put_activity_def fresh_activity_def is_submit_input_def commit_change_def has_public_change_def to_record_def
  extract_turn_complete_signals_def supports_turn_signal_def extract_step_def parser_new_def
  count_tracker_turn_complete_signals_def count_step_def signal_chars record_turn_completion_def
  confirm_by_bell_def Let_def

theorem turns_numbered_and_paid_witness:
  "claude_run_ok claude_demo claude_tracker_new
    \<and> completion_seqs ''t'' (snd (claude_run claude_demo claude_tracker_new)) = [1]"
proof -
  have ok: "claude_run_ok claude_demo claude_tracker_new" by (simp add: claude_demo_def)
  have "seq_of ''t'' (ct_ledger (fst (claude_run claude_demo claude_tracker_new))) = 1"
    by (simp add: claude_demo_def claude_tracker_new_def claude_eval ledger_new_def seq_of_def)
  then show ?thesis
    using ok turns_numbered_and_paid [OF ok, of "fst (claude_run claude_demo claude_tracker_new)"
        "snd (claude_run claude_demo claude_tracker_new)" "''t''"] by simp
qed

text \<open>C37: the tracker keeps its states well formed: an idle terminal has no turn in flight, a busy one is confirmed
  exactly when it has, and each state stands under its own terminal's id.\<close>

theorem claude_states_well_formed:
  assumes "claude_run_ok ops claude_tracker_new"
    and "fmlookup (ct_states (fst (claude_run ops claude_tracker_new))) t = Some s"
  shows "ta_terminal_id s = t \<and>
    (case ta_phase s of
       ClaudeIdle \<Rightarrow> ta_in_flight s = 0
     | ClaudeBusy \<Rightarrow> ta_busy_confirmed s = (0 < ta_in_flight s))"
proof -
  have "claude_wf (fst (claude_run ops claude_tracker_new))"
    using claude_run_accounted [OF claude_new_wf assms(1), of t] by (simp add: accounted_def)
  then have "turn_ok s" "ta_terminal_id s = t" using assms(2) by (auto simp: claude_wf_def)
  then show ?thesis by (cases "ta_phase s") (simp_all add: turn_ok_def)
qed

theorem claude_states_well_formed_witness:
  "ta_terminal_id (fresh_activity ''t'' None 0) = ''t''"
  using claude_states_well_formed [of "[Track ''t'' None 0]" "''t''" "fresh_activity ''t'' None 0"]
  by (simp add: track_terminal_def claude_tracker_new_def put_activity_def Let_def)

section \<open>The gate\<close>

fun gate_run_ok :: "GateOp list \<Rightarrow> IdleGate \<Rightarrow> bool" where
  "gate_run_ok [] g = True"
| "gate_run_ok (op # ops) g =
     ((case op of Expire order _ \<Rightarrow> enumerates order (ig_states g) | _ \<Rightarrow> True) \<and> gate_run_ok ops (gate_perform op g))"

lemma activity_entry:
  "entry_state t (note_activity u at g) = (if t = u then (entry_state t g)\<lparr>ti_deadline :=
      map_option (\<lambda>d. max d (at + ig_grace_ms g)) (ti_deadline (entry_state t g))\<rparr> else entry_state t g)"
  by (auto simp: note_activity_def entry_state_def put_state_def idle_state_default_def split: option.splits)

lemma window_step:
  assumes "case op of Expire order _ \<Rightarrow> enumerates order (ig_states g) | _ \<Rightarrow> True"
  shows "gate_window t (gate_perform op g) = track_window (ig_grace_ms g) t op (gate_window t g)
    \<and> ig_grace_ms (gate_perform op g) = ig_grace_ms g"
proof (cases op)
  case (Phase u p)
  then show ?thesis by (cases p) (auto simp: gate_window_def note_phase_def put_state_def entry_state_def Let_def)
next
  case (Boundary u at)
  then show ?thesis
    by (auto simp: gate_window_def note_turn_boundary_def Let_def) (simp_all add: put_state_def)
next
  case (BusyHint u)
  then show ?thesis by (auto simp: gate_window_def) (simp add: note_busy_def put_state_def split: option.splits)
next
  case (Activity u at)
  then show ?thesis
    by (auto simp: gate_window_def activity_entry) (simp add: note_activity_def put_state_def split: option.splits)
next
  case (GateExit u)
  then show ?thesis by (auto simp: gate_window_def idle_state_default_def) (simp add: gate_note_exit_def)
next
  case (Expire order at)
  then show ?thesis
    using assms
    by (cases "ti_deadline (entry_state t g)")
       (simp_all add: gate_window_def expire_entry idle_lapse_def Let_def, simp_all add: expire_def case_prod_beta Let_def)
qed

lemma window_run:
  "gate_run_ok ops g \<Longrightarrow>
    gate_window t (fold gate_perform ops g) = fold (track_window (ig_grace_ms g) t) ops (gate_window t g)"
proof (induction ops arbitrary: g)
  case (Cons op ops)
  then show ?case using window_step [of g op t] by auto
qed simp

text \<open>C22: the gate is one window per terminal: after any reports, what it keeps of a terminal is what the reports
  about that terminal alone make of a window, and an expiry announces the terminal, once, exactly when its
  window is open to that instant and it is not busy.\<close>

theorem gate_is_window_per_terminal:
  assumes "gate_run_ok ops (with_grace_ms gr)" and "g = fold gate_perform ops (with_grace_ms gr)"
    and "enumerates order (ig_states g)"
    and "w = fold (track_window gr t) ops \<lparr>w_busy = False, w_until = None\<rparr>"
  shows "gate_window t g = w
    \<and> length (filter (\<lambda>e. em_terminal_id e = t) (snd (expire order at g)))
        = (if \<not> w_busy w \<and> awake_by at (w_until w) then 1 else 0)"
proof -
  have "gate_window t (with_grace_ms gr) = \<lparr>w_busy = False, w_until = None\<rparr>"
    by (simp add: gate_window_def with_grace_ms_def entry_state_def idle_state_default_def)
  then have w: "gate_window t g = w"
    using window_run [OF assms(1), of t] by (simp add: assms(2,4) with_grace_ms_def)
  then show ?thesis
    using expire_emissions [OF assms(3), of t at]
    by (cases "ti_deadline (entry_state t g)") (auto simp: gate_window_def idle_lapse_def Let_def)
qed

theorem gate_is_window_per_terminal_witness:
  "length (filter (\<lambda>e. em_terminal_id e = ''t'')
      (snd (expire [''t''] 2100 (fold gate_perform [Boundary ''t'' 100] (with_grace_ms 2000))))) = 1"
  using gate_is_window_per_terminal [of "[Boundary ''t'' 100]" 2000
      "fold gate_perform [Boundary ''t'' 100] (with_grace_ms 2000)" "[''t'']" _ "''t''" 2100, OF _ refl _ refl]
  by (simp add: enumerates_def note_turn_boundary_def put_state_def with_grace_ms_def entry_state_def
      idle_state_default_def Let_def)

section \<open>The hub\<close>

lemma demo_hub_ok: "hub_run_ok [] hub_default" by simp

text \<open>C9: whatever has happened, a clock tick never announces a terminal idle while claude works in it, and says
  so at most once per terminal.\<close>

theorem no_idle_bell_mid_turn:
  assumes "hub_run_ok ops hub_default" and "h = hub_run ops hub_default"
    and "hub_op_ok (DeadlineFired co go at) h"
    and "expire_due co go at h = (h', frames, verifies)"
    and "idle_frames t frames \<noteq> []"
  shows "\<not> claude_busy t (hub_claude h') \<and> length (idle_frames t frames) = 1"
proof -
  let ?h = "fst (drive_claude (claude_expire co at) h)"
  have ok: "hub_ok h" using hub_run_keeps_ok [OF hub_default_ok assms(1)] assms(2) by simp
  have "hub_ok ?h" using drive_calls_ok(12) [OF ok] assms(3) by simp
  then have link: "ti_busy (entry_state t (hub_idle ?h)) = claude_busy t (hub_claude ?h)" by (simp add: hub_ok_def)
  have frames: "idle_frames t frames = map emission_frame (snd (idle_lapse at t (entry_state t (hub_idle ?h))))"
    using due_idle_frames [OF assms(3), of t] assms(4) by simp
  have "\<not> ti_busy (entry_state t (hub_idle ?h)) \<and> length (snd (idle_lapse at t (entry_state t (hub_idle ?h)))) = 1"
    using assms(5) unfolding frames by (auto simp: idle_lapse_def Let_def split: option.splits if_splits)
  moreover have "hub_claude h' = hub_claude ?h"
    using assms(4) by (auto simp: expire_due_def case_prod_beta Let_def)
  ultimately show ?thesis using link by (simp add: frames)
qed

definition ends_last_turn :: "string \<Rightarrow> utext \<Rightarrow> int \<Rightarrow> HubInner \<Rightarrow> bool" where
  "ends_last_turn t data at h =
     (claude_busy t (hub_claude h) \<and> \<not> claude_busy t (hub_claude (fst (handle_output t data at h))))"

lemma boundaries_arm:
  assumes "list_all (\<lambda>e. \<exists>session seq. e = TurnComplete u session at seq) es" and "es \<noteq> []"
    and "\<not> ti_busy (entry_state u g)"
  shows "\<not> ti_busy (entry_state u (fst (claude_frames es g)))
    \<and> ti_deadline (entry_state u (fst (claude_frames es g))) = Some (at + ig_grace_ms g)"
  using assms
proof (induction es arbitrary: g)
  case (Cons e es)
  obtain session seq where e: "e = TurnComplete u session at seq" using Cons.prems(1) by auto
  have g: "ig_grace_ms (note_turn_boundary u at g) = ig_grace_ms g"
    by (simp add: note_turn_boundary_def put_state_def Let_def)
  have armed: "\<not> ti_busy (entry_state u (note_turn_boundary u at g))"
    "ti_deadline (entry_state u (note_turn_boundary u at g)) = Some (at + ig_grace_ms g)"
    using Cons.prems(3) by (simp_all add: note_turn_boundary_def Let_def)
  show ?case
  proof (cases "es = []")
    case False
    then show ?thesis using Cons.IH [of "note_turn_boundary u at g"] Cons.prems(1) armed
      by (simp add: e g case_prod_beta Let_def)
  qed (simp add: e armed case_prod_beta Let_def)
qed simp

lemma output_arms:
  assumes "hub_ok h" and "ends_last_turn t data at h"
  shows "waiting t (at + ig_grace_ms (hub_idle h)) (fst (handle_output t data at h))"
proof -
  let ?c = "hub_claude h"
  have wf: "claude_wf ?c" using assms(1) by (simp add: hub_ok_def)
  obtain s0 where s0: "fmlookup (ct_states ?c) t = Some s0" "ta_phase s0 = ClaudeBusy"
    using assms(2) by (auto simp: ends_last_turn_def claude_busy_def busy_now_def split: option.splits)
  have mode: "fst (handle_output t data at h) = fst (drive_claude (note_output t data at) h)"
    using assms(2) by (auto simp: ends_last_turn_def handle_output_def split: if_splits)
  have idle: "\<not> claude_busy t (fst (note_output t data at ?c))"
    using assms(2) unfolding ends_last_turn_def mode by (simp add: drive_parts)
  from wf s0(1) show ?thesis
  proof (cases rule: output_shape [of ?c t s0 data at])
    case (quiet s1)
    then show ?thesis using idle s0 by (simp add: claude_busy_def busy_now_def)
  next
    case (ended s s3 l es)
    have idle3: "ta_phase s3 = ClaudeIdle"
      using idle ended(1) by (simp add: claude_busy_def busy_now_def not_busy)
    then have es: "es \<noteq> []" using ended(4) s0(2) by auto
    have told: "commit_change (Some (to_record s)) (to_record s3) = [Changed [to_record s3] []]"
      using ended(2) s0(2) idle3 by (simp add: commit_change_def has_public_change_def to_record_def)
    let ?g = "note_phase t GateIdle (hub_idle h)"
    have g: "ig_grace_ms ?g = ig_grace_ms (hub_idle h)" "\<not> ti_busy (entry_state t ?g)"
      by (simp_all add: note_phase_def put_state_def Let_def entry_state_def)
    have "fst (claude_frames (snd (note_output t data at ?c)) (hub_idle h)) = fst (claude_frames es ?g)"
      unfolding ended(1) snd_conv told
      using ended(3) idle3 by (simp add: note_changed_to_gate_def gate_phase_of_def to_record_def case_prod_beta Let_def)
    then show ?thesis
      using boundaries_arm [OF ended(5) es g(2)] idle by (simp add: mode waiting_def drive_parts g(1))
  qed
qed

lemma grace_kept: "ig_grace_ms (hub_idle (fst (hub_perform op h))) = ig_grace_ms (hub_idle h)"
proof -
  have gates: "ig_grace_ms (note_phase u p g) = ig_grace_ms g"
    "ig_grace_ms (note_turn_boundary u at g) = ig_grace_ms g"
    "ig_grace_ms (gate_note_exit u g) = ig_grace_ms g" "ig_grace_ms (note_busy u g) = ig_grace_ms g"
    "ig_grace_ms (fst (expire order at g)) = ig_grace_ms g" for u p at order g
    by (simp_all add: note_phase_def note_turn_boundary_def gate_note_exit_def note_busy_def expire_def
        put_state_def Let_def case_prod_beta split: option.splits)
  have ups: "ig_grace_ms (fold (\<lambda>(t, p). note_phase t p) ups g) = ig_grace_ms g" for ups g
    by (induction ups arbitrary: g) (auto simp: gates)
  have rems: "ig_grace_ms (fold gate_note_exit us g) = ig_grace_ms g" for us g
    by (induction us arbitrary: g) (auto simp: gates)
  have frames: "ig_grace_ms (fst (claude_frames es g)) = ig_grace_ms g" for es g
  proof (induction es arbitrary: g)
    case (Cons e es)
    then show ?case
      by (cases e) (simp_all add: case_prod_beta Let_def note_changed_to_gate_def gates ups rems)
  qed simp
  have drive: "ig_grace_ms (hub_idle (fst (drive_claude call h))) = ig_grace_ms (hub_idle h)" for call h
    by (simp add: drive_parts frames)
  show ?thesis
  proof (cases op)
    case (InputEvent truth t data at)
    have "ig_grace_ms (hub_idle (after_keys t data at h)) = ig_grace_ms (hub_idle h)"
      by (simp add: after_keys_def quit_parts gates)
    then show ?thesis using handle_input_state [of truth t data at h]
      by (auto simp: InputEvent case_prod_beta drive)
  next
    case (ExitEvent others t at spontaneous)
    then show ?thesis by (simp add: handle_exit_def Let_def case_prod_beta drive gates)
  next
    case (DeadlineFired co go at)
    then show ?thesis by (simp add: expire_due_def case_prod_beta Let_def gates drive)
  next
    case (ProbedInput t data at session len)
    then show ?thesis by (cases len) (simp_all add: apply_probed_input_def drive Let_def)
  qed (simp_all add: handle_created_def bind_claude_session_def handle_output_def apply_submit_probe_def
      apply_turn_probe_def drive split: SubmitProbe.splits TurnProbe.splits)
qed

lemma grace_run: "ig_grace_ms (hub_idle (hub_run ops h)) = ig_grace_ms (hub_idle h)"
  by (induction ops arbitrary: h) (simp_all add: grace_kept)

text \<open>C8: when an output ends the last turn of a terminal, the terminal is announced idle once, after the grace
  window: whatever the other terminals do and however often the clock ticks before the window is over, the
  first tick from then on announces it, and the tick after that does not.\<close>

theorem finished_turn_rings_once:
  assumes "hub_run_ok ops hub_default" and "h = hub_run ops hub_default"
    and "ends_last_turn t data at h" and "h1 = fst (handle_output t data at h)"
    and "hub_run_ok meanwhile h1" and "h2 = hub_run meanwhile h1"
    and "list_all (leaves_waiting t (at + IDLE_GRACE_MS)) meanwhile"
    and "at + IDLE_GRACE_MS \<le> e" and "hub_op_ok (DeadlineFired co go e) h2"
    and "expire_due co go e h2 = (h3, frames, verifies)"
    and "hub_op_ok (DeadlineFired co' go' e') h3"
  shows "\<exists>reason. idle_frames t frames = [TerminalIdle t e reason]
    \<and> idle_frames t (fst (snd (expire_due co' go' e' h3))) = []"
proof -
  have ok: "hub_ok h" using hub_run_keeps_ok [OF hub_default_ok assms(1)] assms(2) by simp
  have ok1: "hub_ok h1" using hub_step_ok [OF ok, of "OutputEvent t data at"] assms(4) by simp
  have ok2: "hub_ok h2" using hub_run_keeps_ok [OF ok1 assms(5)] assms(6) by simp
  have grace: "ig_grace_ms (hub_idle h) = IDLE_GRACE_MS"
    by (simp add: assms(2) grace_run) (simp add: hub_default_def idle_gate_new_def with_grace_ms_def)
  have "waiting t (at + IDLE_GRACE_MS) h1" using output_arms [OF ok assms(3)] by (simp add: assms(4) grace)
  then have wait: "waiting t (at + IDLE_GRACE_MS) h2"
    using waiting_run [OF ok1 assms(5)] assms(6,7) by simp
  note tick = waiting_tick [OF ok2 assms(9) wait]
  let ?s = "entry_state t (hub_idle h2)"
  have s: "\<not> ti_busy ?s" "ti_deadline ?s = Some (at + IDLE_GRACE_MS)" using wait by (simp_all add: waiting_def)
  have one: "idle_frames t frames
      = [TerminalIdle t e (if ti_saw_queue_evidence ?s then QueueEmpty else Grace)]"
    using due_idle_frames [OF assms(9), of t] assms(8,10) s
    by (simp add: tick(1) idle_lapse_def emission_frame_def)
  have h3: "h3 = fst (expire_due co go e h2)" using assms(10) by simp
  have ok3: "hub_ok h3" using hub_step_ok [OF ok2 assms(9)] by (simp add: h3)
  have s3: "ti_deadline (entry_state t (hub_idle h3)) = None" "\<not> claude_busy t (hub_claude h3)"
    using tick(2,3) s assms(8) by (simp_all add: h3 idle_lapse_def)
  have "claude_wf (hub_claude h3)" using ok3 by (simp add: hub_ok_def)
  from expire_elsewhere(1) [OF this _ s3(2)] assms(11)
  have "entry_state t (hub_idle (fst (drive_claude (claude_expire co' e') h3))) = entry_state t (hub_idle h3)"
    by (simp add: drive_parts)
  then have "idle_frames t (fst (snd (expire_due co' go' e' h3))) = []"
    using due_idle_frames [OF assms(11), of t] s3(1) by (simp add: idle_lapse_def)
  with one show ?thesis by blast
qed

definition hub_demo :: "HubOp list" where
  "hub_demo = [CreatedEvent ''t'' None 0, InputEvent False ''t'' [0x0d] 10]"

text \<open>The demonstration run, evaluated step by step.\<close>

definition demo_hub :: HubInner where "demo_hub = hub_run hub_demo hub_default"
definition demo_after :: HubInner where "demo_after = fst (handle_output ''t'' [0x07] 20 demo_hub)"

lemmas hub_eval = handle_created_def frames_only_def drive_claude_def handle_input_def note_quit_intent_def
  handle_output_def classify_input_def classify_step_def classify_plain_def quit_state_default_def clean_line_def
  trim_def trim_start_def SLASH_QUIT_def SLASH_EXIT_def session_id_of_def note_busy_def note_phase_def
  put_state_def entry_state_def idle_state_default_def note_changed_to_gate_def gate_phase_of_def
  note_turn_boundary_def hub_default_def claude_tracker_new_def idle_gate_new_def with_grace_ms_def

definition demo_activity :: TerminalActivity where
  "demo_activity = (fresh_activity ''t'' None 0)\<lparr>ta_phase := ClaudeBusy, ta_updated_at := 10, ta_in_flight := 1,
     ta_last_observed_at := 10, ta_busy_confirmed := True\<rparr>"

lemma demo_hub_state:
  "ct_states (hub_claude demo_hub) = fmupd ''t'' demo_activity fmempty"
  "ct_busy_deadman_ms (hub_claude demo_hub) = CLAUDE_BUSY_DEADMAN_MS"
  "hub_modes demo_hub = fmupd ''t'' ''claude'' fmempty"
  "ig_states (hub_idle demo_hub) = fmupd ''t'' (idle_state_default\<lparr>ti_busy := True\<rparr>) fmempty"
  "ig_grace_ms (hub_idle demo_hub) = IDLE_GRACE_MS"
  by (simp_all add: demo_hub_def hub_demo_def hub_eval claude_eval demo_activity_def)

lemma demo_enumerates:
  "enumerates [''t''] (ct_states (hub_claude demo_hub))" "enumerates [''t''] (ig_states (hub_idle demo_hub))"
  by (simp_all add: enumerates_def demo_hub_state)

lemma demo_after_state:
  "ct_states (hub_claude demo_after) = fmupd ''t'' (demo_activity\<lparr>ta_phase := ClaudeIdle, ta_updated_at := 20,
     ta_in_flight := 0, ta_last_observed_at := 20\<rparr>) fmempty"
  "ct_busy_deadman_ms (hub_claude demo_after) = CLAUDE_BUSY_DEADMAN_MS"
  "ig_states (hub_idle demo_after) = fmupd ''t'' (idle_state_default\<lparr>ti_deadline := Some 2020\<rparr>) fmempty"
  by (simp_all add: demo_after_def handle_output_def frames_only_def drive_claude_def note_output_def
      demo_hub_state demo_activity_def claude_eval hub_eval IDLE_GRACE_MS_def)

lemmas tick_eval = expire_due_def drive_claude_def claude_expire_def claude_lapse_def deadman_lapse_def
  Idle_Gate.expire_def idle_lapse_def enumerates_def demo_activity_def fresh_activity_def idle_state_default_def

theorem finished_turn_rings_once_witness:
  "\<exists>reason. idle_frames ''t'' (fst (snd (expire_due [''t''] [''t''] 2020 demo_after))) = [TerminalIdle ''t'' 2020 reason]"
proof -
  let ?d = "DeadlineFired [''t''] [''t'']"
  obtain h3 frames verifies where due: "expire_due [''t''] [''t''] 2020 demo_after = (h3, frames, verifies)"
    by (metis surj_pair)
  have ends: "ends_last_turn ''t'' [0x07] 20 demo_hub"
    by (simp add: ends_last_turn_def claude_busy_def busy_now_def demo_hub_state demo_after_state
        demo_activity_def demo_after_def [symmetric])
  have tick: "hub_op_ok (?d 2020) demo_after"
    by (simp add: tick_eval demo_after_state)
  have "ct_states (hub_claude h3) = ct_states (hub_claude demo_after)"
    "ig_states (hub_idle h3) = fmupd ''t'' idle_state_default fmempty"
    using due by (auto simp: tick_eval demo_after_state)
  then have "hub_op_ok (?d 2020) h3" by (simp add: tick_eval demo_after_state)
  from finished_turn_rings_once [of hub_demo demo_hub "''t''" "[0x07]" 20 demo_after "[]", OF _ demo_hub_def ends
      demo_after_def _ _ _ _ tick due this]
  show ?thesis by (simp add: hub_demo_def IDLE_GRACE_MS_def due)
qed

section \<open>The death bell\<close>

lemma exit_idle_frames:
  assumes "handle_exit others t at spontaneous h = (h', frames)"
  shows "idle_frames t frames = (if ring_death_bell others t at spontaneous h then [TerminalIdle t at Grace] else [])"
  using assms by (auto simp: handle_exit_def Let_def case_prod_beta frames_only_def drive_no_idle split: if_splits)

lemma engaged_entry:
  "is_engaged t g \<longleftrightarrow> ti_busy (entry_state t g) \<and> \<not> ti_pending (entry_state t g) \<or> ti_deadline (entry_state t g) \<noteq> None"
  by (auto simp: is_engaged_def entry_state_def idle_state_default_def split: option.splits)

text \<open>C23: when a terminal exits that no other lane speaks for, the death bell rings exactly when the process died on
  its own, the last decisive input typed at it was not a quit of the last 15 seconds (a quit that a later
  submit overrode does not count), and claude was working in it or its finished turn had not been announced
  yet; and a claude terminal is not engaged any more afterwards.\<close>

theorem death_bell_exactly:
  assumes "hub_run_ok ops hub_default" and "h = hub_run ops hub_default"
    and "\<not> ol_blocks_death_bell others" "\<not> ol_pending_approvals others" "\<not> ol_pending_permissions others"
    and "handle_exit others t at spontaneous h = (h', frames)"
  shows "idle_frames t frames =
      (if spontaneous \<and> \<not> human_quit (typed t ops) at \<and>
          (claude_busy t (hub_claude h) \<or> ti_deadline (entry_state t (hub_idle h)) \<noteq> None)
       then [TerminalIdle t at Grace] else [])
    \<and> (fmlookup (hub_modes h) t = Some ''claude'' \<longrightarrow> \<not> is_engaged t (hub_idle h'))"
proof -
  have ok: "hub_ok h" using hub_run_keeps_ok [OF hub_default_ok assms(1)] assms(2) by simp
  have "is_engaged t (hub_idle h) \<longleftrightarrow>
      claude_busy t (hub_claude h) \<or> ti_deadline (entry_state t (hub_idle h)) \<noteq> None"
    using ok by (auto simp: engaged_entry hub_ok_def gate_ok_def)
  then have bell: "ring_death_bell others t at spontaneous h \<longleftrightarrow> spontaneous \<and> \<not> human_quit (typed t ops) at
      \<and> (claude_busy t (hub_claude h) \<or> ti_deadline (entry_state t (hub_idle h)) \<noteq> None)"
    using assms(3-5) by (simp add: ring_death_bell_def assms(2) marker_is_human_quit)
  note frames = exit_idle_frames [OF assms(6)]
  have gone: "entry_state t (fst (claude_frames (snd (note_exit t c)) (gate_note_exit t g))) = idle_state_default" for c g
    by (simp add: note_exit_def note_changed_to_gate_def split: option.splits)
  have "\<not> is_engaged t (hub_idle h')" if "fmlookup (hub_modes h) t = Some ''claude''"
    using assms(6) that gone
    by (auto simp: handle_exit_def Let_def case_prod_beta engaged_entry drive_parts idle_state_default_def)
  then show ?thesis using frames bell by simp
qed

theorem death_bell_exactly_witness:
  "idle_frames ''t'' (snd (handle_exit
      \<lparr>ol_blocks_death_bell = False, ol_pending_approvals = False, ol_pending_permissions = False\<rparr>
      ''t'' 100 True demo_hub)) = [TerminalIdle ''t'' 100 Grace]"
proof -
  let ?o = "\<lparr>ol_blocks_death_bell = False, ol_pending_approvals = False, ol_pending_permissions = False\<rparr>"
  obtain h' frames where exit: "handle_exit ?o ''t'' 100 True demo_hub = (h', frames)" by fastforce
  have "claude_busy ''t'' (hub_claude demo_hub)"
    by (simp add: claude_busy_def busy_now_def demo_hub_state demo_activity_def)
  moreover have "\<not> human_quit (typed ''t'' hub_demo) 100"
    by (simp add: typed_def hub_demo_def human_quit_def last_quit_def last_decisive_def key_class_def line_after_def
        hub_eval)
  ultimately show ?thesis
    using death_bell_exactly [of hub_demo demo_hub ?o, OF _ demo_hub_def _ _ _ exit]
    by (simp add: hub_demo_def exit)
qed

lemma byte_len_butlast: "byte_len (butlast t) \<le> byte_len t"
  by (cases t rule: rev_cases) simp_all

lemma byte_len_butlast_less: "t \<noteq> [] \<Longrightarrow> byte_len (butlast t) < byte_len t"
  by (cases t rule: rev_cases) (simp_all add: not_less_eq_eq)

lemma typed_prefix:
  assumes "list_all printable cs" and "byte_len (butlast (cs @ ds)) < QUIT_LINE_CAP"
    and "qi_pending_esc s = []" "\<not> qi_in_paste s" "\<not> qi_unmatchable s" "qi_line s = []"
  shows "fst (classify_from cs Other s) = Other"
proof -
  have "byte_len (butlast cs) \<le> byte_len (butlast (cs @ ds))"
    using byte_len_butlast [of cs] by (cases ds) (simp_all add: butlast_append)
  then show ?thesis using type_line [of cs s Other] assms by simp
qed

definition at_prompt :: "QuitIntentState \<Rightarrow> bool" where
  "at_prompt s = (qi_pending_esc s = [] \<and> \<not> qi_in_paste s \<and> \<not> qi_unmatchable s \<and> qi_line s = [])"

lemma quit_line_decides:
  assumes "at_prompt s" and "list_all printable line" and "byte_len line \<le> QUIT_LINE_CAP" and "is_quit_line line"
    and "typed_keys @ last_keys = line @ [0x0d]" and "last_keys \<noteq> []"
  shows "fst (classify_input last_keys (snd (classify_input typed_keys s))) = QuitIntent"
proof -
  have clean: "qi_pending_esc s = []" "\<not> qi_in_paste s" "\<not> qi_unmatchable s" "qi_line s = []"
    using assms(1) by (simp_all add: at_prompt_def)
  have short: "byte_len (butlast line) < QUIT_LINE_CAP"
    using assms(3,4) byte_len_butlast_less [of line]
    by (cases "line = []") (auto simp: is_quit_line_def trim_def trim_start_def SLASH_QUIT_def SLASH_EXIT_def)
  have line: "line = typed_keys @ butlast last_keys"
    using assms(5,6) by (metis butlast_append butlast_snoc)
  have "fst (classify_input (typed_keys @ last_keys) s) = QuitIntent"
    using submitted_line_classified [OF assms(2) short clean, of "[typed_keys @ last_keys]"] assms(4,5)
    by (simp add: case_prod_beta Let_def)
  moreover have "fst (classify_input typed_keys s) = Other"
    unfolding classify_input_def
    by (rule typed_prefix [of _ "butlast last_keys"]) (use assms(2) short clean line in simp_all)
  ultimately show ?thesis by (simp add: classify_input_append case_prod_beta Let_def)
qed

text \<open>C24: a human who, at a clean prompt line, types \<open>/quit\<close> or \<open>/exit\<close> and Enter, in any chunks, and nothing more,
  hears no bell when the process dies within 15 seconds of the last keys, whatever the terminal was doing,
  whatever happened between the chunks and afterwards, and whatever the other lanes say.\<close>

theorem typed_quit_silences_death_bell:
  assumes "typed t ops = Some (old_keys @ keys @ [(last_keys, at)])" and "at_prompt (line_after old_keys)"
    and "list_all printable line" and "byte_len line \<le> QUIT_LINE_CAP" and "is_quit_line line"
    and "concat (map fst keys) @ last_keys = line @ [0x0d]" and "last_keys \<noteq> []"
    and "exit_at \<le> at + 15000"
    and "handle_exit others t exit_at spontaneous (hub_run ops hub_default) = (h', frames)"
  shows "idle_frames t frames = []"
proof -
  have "line_after (old_keys @ keys) = snd (classify_input (concat (map fst keys)) (line_after old_keys))"
    by (simp add: line_after_def classify_input_append case_prod_beta Let_def)
  then have "last_quit ((old_keys @ keys) @ [(last_keys, at)]) = Some at"
    unfolding last_quit_snoc using quit_line_decides [OF assms(2-7)] by simp
  then have "human_quit (typed t ops) exit_at" using assms(1,8) by (simp add: human_quit_def)
  then show ?thesis
    using exit_idle_frames [OF assms(9)] by (simp add: ring_death_bell_def marker_is_human_quit)
qed

theorem typed_quit_silences_death_bell_witness:
  "idle_frames ''t'' (snd (handle_exit \<lparr>ol_blocks_death_bell = False, ol_pending_approvals = True,
      ol_pending_permissions = False\<rparr> ''t'' 9000 True
      (hub_run (hub_demo @ [InputEvent False ''t'' [0x2f, 0x71, 0x75] 500, OutputEvent ''t'' [0x07] 510,
         DeadlineFired [''t''] [''t''] 520, InputEvent False ''u'' [0x61] 530,
         InputEvent False ''t'' [0x69, 0x74, 0x0d] 600, DeadlineFired [''t''] [''t''] 3000]) hub_default))) = []"
proof -
  let ?o = "\<lparr>ol_blocks_death_bell = False, ol_pending_approvals = True, ol_pending_permissions = False\<rparr>"
  let ?ops = "hub_demo @ [InputEvent False ''t'' [0x2f, 0x71, 0x75] 500, OutputEvent ''t'' [0x07] 510,
    DeadlineFired [''t''] [''t''] 520, InputEvent False ''u'' [0x61] 530,
    InputEvent False ''t'' [0x69, 0x74, 0x0d] 600, DeadlineFired [''t''] [''t''] 3000]"
  obtain old_keys where old_keys: "typed ''t'' hub_demo = Some old_keys" "at_prompt (line_after old_keys)"
    by (simp add: typed_def hub_demo_def line_after_def at_prompt_def hub_eval)
  then have typed: "typed ''t'' ?ops = Some (old_keys @ [([0x2f, 0x71, 0x75], 500)] @ [([0x69, 0x74, 0x0d], 600)])"
    by (simp add: typed_def)
  obtain h' frames where exit: "handle_exit ?o ''t'' 9000 True (hub_run ?ops hub_default) = (h', frames)" by fastforce
  have "idle_frames ''t'' frames = []"
    using typed_quit_silences_death_bell [OF typed old_keys(2) _ _ _ _ _ _ exit, of SLASH_QUIT]
    by (simp add: SLASH_QUIT_def printable_def QUIT_LINE_CAP_def len_utf8_def is_quit_line_def
        trim_def trim_start_def is_whitespace_def)
  then show ?thesis using exit by simp
qed

section \<open>The clock\<close>

lemma early_tick_alike:
  assumes "0 \<le> ct_busy_deadman_ms (hub_claude h)"
    and "hub_op_ok (DeadlineFired co go at) h"
    and "enumerates co' (ct_states (hub_claude h))" and "enumerates go' (ig_states (hub_idle h))"
    and "\<not> awake_by at (hub_next_deadline co' go' h)"
    and "expire_due co go at h = (h', frames, verifies)"
  shows "hub_alike h h'" and "frames = []" and "verifies = []"
proof -
  let ?dm = "ct_busy_deadman_ms (hub_claude h)"
  have quiet: "\<not> awake_by at (next_alarm (claude_alarm ?dm) co' (ct_states (hub_claude h)))"
    "\<not> awake_by at (next_alarm ti_deadline go' (ig_states (hub_idle h)))"
    using assms(5) by (simp_all add: hub_next_deadline_def awake_by_earlier claude_next_deadline_def gate_next_deadline_def)
  have enum: "enumerates co (ct_states (hub_claude h))" using assms(2) by simp
  note claude = claude_clock.sweep_asleep [where dm = ?dm, OF enum assms(3) assms(1) quiet(1)]
  have effects: "snd (claude_expire co at (hub_claude h)) = []"
    using claude(1) by (simp add: claude_expire_def case_prod_beta Let_def)
  then have same: "hub_idle (fst (drive_claude (claude_expire co at) h)) = hub_idle h"
    "fst (snd (drive_claude (claude_expire co at) h)) = []" "snd (snd (drive_claude (claude_expire co at) h)) = []"
    by (simp_all add: drive_claude_def case_prod_beta Let_def)
  then have "enumerates go (ig_states (hub_idle h))" using assms(2) by simp
  note gate = gate_clock.sweep_asleep [OF this assms(4) TrueI quiet(2)]
  have "fst (sweep_states (idle_lapse at) go (ig_states (hub_idle h))) = ig_states (hub_idle h)"
    using gate(2) by (intro fmap_ext) (simp add: option.map_ident)
  then have idle: "expire go at (hub_idle h) = (hub_idle h, [])"
    using gate(1) by (simp add: expire_def case_prod_beta Let_def)
  have "hub_claude h' = fst (claude_expire co at (hub_claude h))"
    using assms(6) by (auto simp: expire_due_def case_prod_beta Let_def drive_parts)
  then show "hub_alike h h'"
    using assms(6) idle same(1) claude(2)
    by (auto simp: expire_due_def case_prod_beta Let_def drive_parts hub_alike_def tracker_alike_def claude_expire_def)
  show "frames = []" "verifies = []"
    using assms(6) same idle by (auto simp: expire_due_def case_prod_beta Let_def)
qed

text \<open>C38: the hub needs no polling: a tick before the deadline it reports emits nothing and asks for no
  verification, and nothing that happens later, nor any later deadline or probe, tells the hub that was
  ticked from the hub that was not.\<close>

theorem hub_sleeps_until_deadline:
  assumes "hub_run_ok ops hub_default" and "h = hub_run ops hub_default"
    and "hub_op_ok (DeadlineFired co go at) h"
    and "enumerates co' (ct_states (hub_claude h))" and "enumerates go' (ig_states (hub_idle h))"
    and "\<not> awake_by at (hub_next_deadline co' go' h)"
    and "expire_due co go at h = (h', frames, verifies)"
  shows "frames = [] \<and> verifies = []
    \<and> (\<forall>later. hub_run_ok later h \<longrightarrow>
         (\<forall>op. hub_answer op (hub_run later h') = hub_answer op (hub_run later h))
       \<and> (\<forall>co go. hub_next_deadline co go (hub_run later h') = hub_next_deadline co go (hub_run later h))
       \<and> (\<forall>t. verify_target t (hub_run later h') = verify_target t (hub_run later h)))"
proof -
  have ok: "hub_ok h" using hub_run_keeps_ok [OF hub_default_ok assms(1)] assms(2) by simp
  have "hub_alike h h'" and quiet: "frames = []" "verifies = []"
    using early_tick_alike [OF _ assms(3-7)]
    by (simp_all add: assms(2) deadman_run hub_default_def claude_tracker_new_def CLAUDE_BUSY_DEADMAN_MS_def)
  note alike = run_alike [OF ok _ this(1)]
  have later: "hub_ok (hub_run later h)" if "hub_run_ok later h" for later
    using hub_run_keeps_ok [OF ok that] .
  show ?thesis
    using quiet step_alike [OF later alike] deadline_alike [OF alike] verify_alike [OF alike] by simp
qed

theorem hub_sleeps_until_deadline_witness:
  "fst (snd (expire_due [''t''] [''t''] 100 demo_after)) = []"
proof -
  obtain h' frames verifies where due: "expire_due [''t''] [''t''] 100 demo_after = (h', frames, verifies)"
    by (metis surj_pair)
  have enum: "enumerates [''t''] (ct_states (hub_claude demo_after))" "enumerates [''t''] (ig_states (hub_idle demo_after))"
    by (simp_all add: enumerates_def demo_after_state)
  have tick: "hub_op_ok (DeadlineFired [''t''] [''t''] 100) demo_after"
    by (simp add: tick_eval demo_after_state)
  have asleep: "\<not> awake_by 100 (hub_next_deadline [''t''] [''t''] demo_after)"
    by (simp add: hub_next_deadline_def claude_next_deadline_def gate_next_deadline_def awake_by_earlier
        awake_next_alarm demo_after_state demo_activity_def claude_alarm_def idle_state_default_def)
  have run: "hub_run_ok (hub_demo @ [OutputEvent ''t'' [0x07] 20]) hub_default"
    "demo_after = hub_run (hub_demo @ [OutputEvent ''t'' [0x07] 20]) hub_default"
    by (simp_all add: demo_after_def demo_hub_def hub_run_append hub_demo_def)
  show ?thesis using hub_sleeps_until_deadline [OF run tick enum asleep due] by (simp add: due)
qed

text \<open>Nor does it spin: after two ticks at one instant the deadline it reports lies in the future.\<close>

lemma idle_lapse_calm: "\<not> awake_by at (ti_deadline (fst (idle_lapse at k s)))"
  by (cases "ti_deadline s") (simp_all add: idle_lapse_def Let_def)

theorem hub_does_not_spin:
  assumes "0 \<le> ct_busy_deadman_ms (hub_claude h)"
    and "hub_op_ok (DeadlineFired co go at) h" and "h1 = fst (expire_due co go at h)"
    and "hub_op_ok (DeadlineFired co go' at) h1" and "h2 = fst (expire_due co go' at h1)"
    and "enumerates co' (ct_states (hub_claude h2))" and "enumerates go'' (ig_states (hub_idle h2))"
  shows "\<not> awake_by at (hub_next_deadline co' go'' h2)"
proof -
  let ?dm = "ct_busy_deadman_ms (hub_claude h)"
  let ?sweep = "\<lambda>m. fst (sweep_states (\<lambda>_. claude_lapse ?dm at) co m)"
  have claude: "hub_claude (fst (expire_due co g at k)) = fst (claude_expire co at (hub_claude k))" for g k
    by (simp add: expire_due_def case_prod_beta Let_def drive_parts)
  have states: "ct_states (hub_claude h2) = ?sweep (?sweep (ct_states (hub_claude h)))"
    "ct_busy_deadman_ms (hub_claude h2) = ?dm"
    by (simp_all add: assms(3,5) claude claude_expire_def case_prod_beta Let_def)
  have enum: "enumerates co (ct_states (hub_claude h))" "enumerates co' (ct_states (hub_claude h))"
    using assms(2,6) by (simp_all add: states enumerates_def sweep_states_dom)
  have "\<not> awake_by at (claude_next_deadline co' (hub_claude h2))"
    using claude_clock.sweep_twice_calm [where dm = ?dm, OF enum assms(1)]
    by (simp add: claude_next_deadline_def states)
  moreover have "\<not> awake_by at (gate_next_deadline go'' (hub_idle h2))"
  proof -
    let ?g = "hub_idle (fst (drive_claude (claude_expire co at) h1))"
    have "enumerates go' (ig_states ?g)" using assms(4) by simp
    note swept = sweep_all_lookup [OF this, of "idle_lapse at"]
    have h2: "ig_states (hub_idle h2) = fst (sweep_states (idle_lapse at) go' (ig_states ?g))"
      by (simp add: assms(5) expire_due_def expire_def case_prod_beta Let_def)
    have "\<not> awake_by at (ti_deadline s)" if "fmlookup (ig_states (hub_idle h2)) k = Some s" for k s
      using that idle_lapse_calm unfolding h2 swept by auto
    then show ?thesis by (auto simp: gate_next_deadline_def awake_next_alarm)
  qed
  ultimately show ?thesis by (simp add: hub_next_deadline_def awake_by_earlier)
qed

theorem hub_does_not_spin_witness:
  "\<not> awake_by 3000 (hub_next_deadline [''t''] [''t'']
      (fst (expire_due [''t''] [''t''] 3000 (fst (expire_due [''t''] [''t''] 3000 demo_after)))))"
proof -
  let ?h1 = "fst (expire_due [''t''] [''t''] 3000 demo_after)"
  let ?h2 = "fst (expire_due [''t''] [''t''] 3000 ?h1)"
  have h1: "ct_states (hub_claude ?h1) = ct_states (hub_claude demo_after)"
    "ig_states (hub_idle ?h1) = fmupd ''t'' idle_state_default fmempty"
    by (simp_all add: tick_eval demo_after_state)
  then have h2: "ct_states (hub_claude ?h2) = ct_states (hub_claude demo_after)"
    "ig_states (hub_idle ?h2) = fmupd ''t'' idle_state_default fmempty"
    by (simp_all add: tick_eval demo_after_state)
  have "hub_op_ok (DeadlineFired [''t''] [''t''] 3000) demo_after"
    "hub_op_ok (DeadlineFired [''t''] [''t''] 3000) ?h1"
    using h1 by (simp_all add: tick_eval demo_after_state)
  moreover have "enumerates [''t''] (ct_states (hub_claude ?h2))" "enumerates [''t''] (ig_states (hub_idle ?h2))"
    using h2 by (simp_all add: enumerates_def demo_after_state)
  ultimately show ?thesis
    using hub_does_not_spin [of demo_after "[''t'']" "[''t'']" 3000 ?h1 "[''t'']" ?h2 "[''t'']" "[''t'']"]
    by (simp add: demo_after_state(2) CLAUDE_BUSY_DEADMAN_MS_def)
qed

theorem no_idle_bell_mid_turn_witness:
  "\<not> claude_busy ''t'' (hub_claude (fst (expire_due [''t''] [''t''] 2020 demo_after)))"
proof -
  obtain h' frames verifies where due: "expire_due [''t''] [''t''] 2020 demo_after = (h', frames, verifies)"
    by (metis surj_pair)
  have run: "demo_after = hub_run (hub_demo @ [OutputEvent ''t'' [0x07] 20]) hub_default"
    by (simp add: demo_after_def demo_hub_def hub_run_append)
  have ok: "hub_run_ok (hub_demo @ [OutputEvent ''t'' [0x07] 20]) hub_default"
    by (simp add: hub_demo_def)
  have tick: "hub_op_ok (DeadlineFired [''t''] [''t''] 2020) demo_after"
    by (simp add: tick_eval demo_after_state)
  have "idle_frames ''t'' frames \<noteq> []"
    using due_idle_frames [OF tick, of "''t''"] due
    by (auto simp: tick_eval demo_after_state entry_state_def emission_frame_def)
  then show ?thesis using no_idle_bell_mid_turn [OF ok run tick due] by (simp add: due)
qed

end
