(* ===== verification/Layout_Tree.thy ===== *)
theory Layout_Tree
  imports Prelude
begin

text \<open>
  The pane layout tree (crates/freshell-freshagent/src/layout_tree.rs): a binary tree of splits over pane
  leaves, read from and written to JSON, searched and edited by id, and built as a grid. A JSON object is
  its list of members. The sizes are floating-point numbers, which HOL does not have: they are a type parameter,
  and the two conversions between sizes and JSON numbers (\<open>as_f64\<close> of the JSON library, and \<open>number_value\<close>, which
  spells an integral size without a point) are parameters with the hypothesis \<open>number_codec\<close>. Fresh split ids are drawn from a
  supply, a function of a counter that is threaded through.
\<close>

section \<open>JSON\<close>

datatype 'n json =
    Null
  | Bool bool
  | Number 'n
  | String string
  | Array "'n json list"
  | Object "(string \<times> 'n json) list"

fun as_str :: "'n json \<Rightarrow> string option" where
  "as_str (String s) = Some s"
| "as_str _ = None"

fun as_array :: "'n json \<Rightarrow> 'n json list option" where
  "as_array (Array vs) = Some vs"
| "as_array _ = None"

fun as_number :: "'n json \<Rightarrow> 'n option" where
  "as_number (Number n) = Some n"
| "as_number _ = None"

definition str_member :: "(string \<times> 'n json) list \<Rightarrow> string \<Rightarrow> string option" where
  "str_member obj k = Option.bind (map_of obj k) as_str"

section \<open>Nodes\<close>

datatype ('n, 'f) PaneNode =
    Leaf string "'n json"
  | Split string string "'f \<times> 'f" "('n, 'f) PaneNode" "('n, 'f) PaneNode"

text \<open>\<open>as_f64\<close> filtered by \<open>is_finite\<close>, and \<open>number_value\<close>: what is written is read back as it was.\<close>

definition number_codec :: "('f \<Rightarrow> bool) \<Rightarrow> ('n \<Rightarrow> 'f option) \<Rightarrow> ('f \<Rightarrow> 'n) \<Rightarrow> bool" where
  "number_codec finite_size read write = (\<forall>s. finite_size s \<longrightarrow> read (write s) = Some s)"

definition size_at :: "('n \<Rightarrow> 'f option) \<Rightarrow> 'n json \<Rightarrow> 'f option" where
  "size_at read v = Option.bind (as_number v) read"

text \<open>The parser recurses into the two children of a split that is otherwise well formed so far. A member of an
  object is smaller than the object, which is what makes the recursion end.\<close>

lemma member_smaller:
  assumes "map_of obj k = Some v"
  shows "size v < size (Object obj)"
proof -
  have "(k, v) \<in> set obj" using assms by (rule map_of_SomeD)
  then have "size_prod (\<lambda>_. 0) size (k, v) \<le> size_list (size_prod (\<lambda>_. 0) size) obj"
    by (rule size_list_estimation') simp
  then show ?thesis by simp
qed

lemma element_smaller: "v \<in> set vs \<Longrightarrow> size v < size (Array vs)"
  by (induction vs) auto

function parse :: "('n \<Rightarrow> 'f option) \<Rightarrow> 'n json \<Rightarrow> ('n, 'f) PaneNode option" where
  "parse read (Object obj) =
     (case str_member obj ''type'' of
        None \<Rightarrow> None
      | Some ty \<Rightarrow>
          if ty = ''leaf'' then
            (case str_member obj ''id'' of
               None \<Rightarrow> None
             | Some i \<Rightarrow> Some (Leaf i (case map_of obj ''content'' of None \<Rightarrow> Null | Some c \<Rightarrow> c)))
          else if ty = ''split'' then
            (case map_of obj ''sizes'' of
               Some (Array [a, b]) \<Rightarrow>
                 (case (size_at read a, size_at read b) of
                    (Some first, Some second) \<Rightarrow>
                      (case map_of obj ''children'' of
                         Some (Array [l, r]) \<Rightarrow>
                           (case (parse read l, parse read r) of
                              (Some left, Some right) \<Rightarrow>
                                (case (str_member obj ''id'', str_member obj ''direction'') of
                                   (Some i, Some d) \<Rightarrow> Some (Split i d (first, second) left right)
                                 | _ \<Rightarrow> None)
                            | _ \<Rightarrow> None)
                       | _ \<Rightarrow> None)
                  | _ \<Rightarrow> None)
             | _ \<Rightarrow> None)
          else None)"
| "parse read Null = None"
| "parse read (Bool b) = None"
| "parse read (Number n) = None"
| "parse read (String s) = None"
| "parse read (Array vs) = None"
  by pat_completeness auto
termination
proof (relation "measure (\<lambda>(read, v). size v)")
qed (auto dest!: member_smaller)

fun to_value :: "('f \<Rightarrow> 'n) \<Rightarrow> ('n, 'f) PaneNode \<Rightarrow> 'n json" where
  "to_value write (Leaf i content) =
     Object [(''type'', String ''leaf''), (''id'', String i), (''content'', content)]"
| "to_value write (Split i direction (a, b) l r) =
     Object [(''type'', String ''split''), (''id'', String i), (''direction'', String direction),
             (''sizes'', Array [Number (write a), Number (write b)]),
             (''children'', Array [to_value write l, to_value write r])]"

section \<open>Search\<close>

fun node_id :: "('n, 'f) PaneNode \<Rightarrow> string" where
  "node_id (Leaf i _) = i"
| "node_id (Split i _ _ _ _) = i"

text \<open>\<open>collect_leaves\<close> pushes onto its argument.\<close>

fun collect_leaves :: "('n, 'f) PaneNode \<Rightarrow> ('n, 'f) PaneNode list \<Rightarrow> ('n, 'f) PaneNode list" where
  "collect_leaves (Leaf i c) out = out @ [Leaf i c]"
| "collect_leaves (Split i d s l r) out = collect_leaves r (collect_leaves l out)"

definition or_else :: "'a option \<Rightarrow> 'a option \<Rightarrow> 'a option" where
  "or_else a b = (case a of None \<Rightarrow> b | Some _ \<Rightarrow> a)"

fun find_leaf :: "string \<Rightarrow> ('n, 'f) PaneNode \<Rightarrow> ('n, 'f) PaneNode option" where
  "find_leaf pane (Leaf i c) = (if i = pane then Some (Leaf i c) else None)"
| "find_leaf pane (Split i d s l r) = or_else (find_leaf pane l) (find_leaf pane r)"

fun find_split :: "string \<Rightarrow> ('n, 'f) PaneNode \<Rightarrow> ('n, 'f) PaneNode option" where
  "find_split split_id (Leaf i c) = None"
| "find_split split_id (Split i d s l r) =
     (if i = split_id then Some (Split i d s l r)
      else or_else (find_split split_id l) (find_split split_id r))"

definition is_leaf_with :: "string \<Rightarrow> ('n, 'f) PaneNode \<Rightarrow> bool" where
  "is_leaf_with pane n = (case n of Leaf i _ \<Rightarrow> i = pane | Split _ _ _ _ _ \<Rightarrow> False)"

fun find_parent_split_id :: "string \<Rightarrow> ('n, 'f) PaneNode \<Rightarrow> string option" where
  "find_parent_split_id pane (Leaf i c) = None"
| "find_parent_split_id pane (Split i d s l r) =
     (if is_leaf_with pane l \<or> is_leaf_with pane r then Some i
      else or_else (find_parent_split_id pane l) (find_parent_split_id pane r))"

section \<open>Edits\<close>

text \<open>The Boolean is the code's: whether something was replaced.\<close>

fun replace_leaf_content :: "string \<Rightarrow> 'n json \<Rightarrow> ('n, 'f) PaneNode \<Rightarrow> bool \<times> ('n, 'f) PaneNode" where
  "replace_leaf_content pane content (Leaf i c) =
     (if i = pane then (True, Leaf i content) else (False, Leaf i c))"
| "replace_leaf_content pane content (Split i d s l r) =
     (let (done_left, l') = replace_leaf_content pane content l
      in if done_left then (True, Split i d s l' r)
         else let (done_right, r') = replace_leaf_content pane content r
              in (done_right, Split i d s l' r'))"

fun set_split_sizes :: "string \<Rightarrow> 'f \<times> 'f \<Rightarrow> ('n, 'f) PaneNode \<Rightarrow> bool \<times> ('n, 'f) PaneNode" where
  "set_split_sizes split_id sizes (Leaf i c) = (False, Leaf i c)"
| "set_split_sizes split_id sizes (Split i d s l r) =
     (if i = split_id then (True, Split i d sizes l r)
      else let (done_left, l') = set_split_sizes split_id sizes l
           in if done_left then (True, Split i d s l' r)
              else let (done_right, r') = set_split_sizes split_id sizes r
                   in (done_right, Split i d s l' r'))"

fun replace_node :: "string \<Rightarrow> ('n, 'f) PaneNode \<Rightarrow> ('n, 'f) PaneNode \<Rightarrow> bool \<times> ('n, 'f) PaneNode" where
  "replace_node target replacement (Leaf i c) =
     (if i = target then (True, replacement) else (False, Leaf i c))"
| "replace_node target replacement (Split i d s l r) =
     (if i = target then (True, replacement)
      else let (done_left, l') = replace_node target replacement l
           in if done_left then (True, Split i d s l' r)
              else let (done_right, r') = replace_node target replacement r
                   in (done_right, Split i d s l' r'))"

section \<open>Building a grid\<close>

text \<open>\<open>div_ceil(2)\<close>; the ids of the new splits are \<open>uuid k\<close>, \<open>uuid (k + 1)\<close> and so on. On no leaves the code
  recurses for ever, which is None here.\<close>

definition half_up :: "nat \<Rightarrow> nat" where
  "half_up n = (n + 1) div 2"

definition split50 ::
  "(nat \<Rightarrow> string) \<Rightarrow> 'f \<Rightarrow> string \<Rightarrow> nat \<Rightarrow> ('n, 'f) PaneNode \<Rightarrow> ('n, 'f) PaneNode \<Rightarrow> ('n, 'f) PaneNode \<times> nat" where
  "split50 uuid fifty direction k l r = (Split (uuid k) direction (fifty, fifty) l r, k + 1)"

partial_function (option) build_horizontal_row ::
  "(nat \<Rightarrow> string) \<Rightarrow> 'f \<Rightarrow> nat \<Rightarrow> ('n, 'f) PaneNode list \<Rightarrow> (('n, 'f) PaneNode \<times> nat) option" where
  "build_horizontal_row uuid fifty k leaves =
     (if length leaves = 1 then Some (leaves ! 0, k)
      else if length leaves = 2 then Some (split50 uuid fifty ''horizontal'' k (leaves ! 0) (leaves ! 1))
      else Option.bind (build_horizontal_row uuid fifty k (take (half_up (length leaves)) leaves))
             (\<lambda>(l, k1). Option.bind (build_horizontal_row uuid fifty k1 (drop (half_up (length leaves)) leaves))
               (\<lambda>(r, k2). Some (split50 uuid fifty ''horizontal'' k2 l r))))"

definition build_grid_layout ::
  "(nat \<Rightarrow> string) \<Rightarrow> 'f \<Rightarrow> nat \<Rightarrow> ('n, 'f) PaneNode list \<Rightarrow> (('n, 'f) PaneNode \<times> nat) option" where
  "build_grid_layout uuid fifty k leaves =
     (if length leaves = 1 then Some (leaves ! 0, k)
      else if length leaves = 2 then Some (split50 uuid fifty ''horizontal'' k (leaves ! 0) (leaves ! 1))
      else Option.bind (build_horizontal_row uuid fifty k (take (half_up (length leaves)) leaves))
             (\<lambda>(l, k1). Option.bind (build_horizontal_row uuid fifty k1 (drop (half_up (length leaves)) leaves))
               (\<lambda>(r, k2). Some (split50 uuid fifty ''vertical'' k2 l r))))"

end
