(* ===== verification/Layout_Props.thy ===== *)
theory Layout_Props
  imports Layout_Tree
begin

text \<open>
  The layout tree keeps its panes: it is read back as it was written, searches and edits see the leaves in
  the order in which they are collected, and a grid is a balanced tree of the given panes in their order.
\<close>

section \<open>Reading back\<close>

fun sizes_ok :: "('f \<Rightarrow> bool) \<Rightarrow> ('n, 'f) PaneNode \<Rightarrow> bool" where
  "sizes_ok ok (Leaf _ _) = True"
| "sizes_ok ok (Split _ _ (a, b) l r) = (ok a \<and> ok b \<and> sizes_ok ok l \<and> sizes_ok ok r)"

text \<open>A layout whose sizes are finite is read back from its JSON exactly as it was written, pane contents
  included, when reading a written number gives the number.\<close>

theorem layout_round_trips:
  assumes "number_codec finite_size read write" and "sizes_ok finite_size t"
  shows "parse read (to_value write t) = Some t"
  using assms(2)
proof (induction t)
  case (Split i d s l r)
  then show ?case
    using assms(1) by (cases s) (simp add: str_member_def size_at_def number_codec_def)
qed (simp add: str_member_def)

definition demo_layout :: "(int, int) PaneNode" where
  "demo_layout = Split ''s1'' ''horizontal'' (50, 50) (Leaf ''p1'' Null)
     (Split ''s2'' ''vertical'' (30, 70) (Leaf ''p2'' (Bool True)) (Leaf ''p3'' Null))"

theorem layout_round_trips_witness:
  "parse Some (to_value (\<lambda>n. n) demo_layout) = Some demo_layout"
  using layout_round_trips [of "\<lambda>_. True" Some "\<lambda>n. n" demo_layout]
  by (simp add: number_codec_def demo_layout_def)

section \<open>Searches and edits\<close>

definition leaves :: "('n, 'f) PaneNode \<Rightarrow> ('n, 'f) PaneNode list" where
  "leaves t = collect_leaves t []"

lemma collect_leaves_onto: "collect_leaves t out = out @ collect_leaves t []"
proof (induction t arbitrary: out)
  case (Split i d s l r)
  have "collect_leaves r (collect_leaves l out) = collect_leaves l out @ leaves r"
    using Split.IH(2) [of "collect_leaves l out"] by (simp add: leaves_def)
  also have "\<dots> = out @ leaves l @ leaves r" using Split.IH(1) [of out] by (simp add: leaves_def)
  also have "\<dots> = out @ collect_leaves r (collect_leaves l [])"
    using Split.IH(2) [of "collect_leaves l []"] by (simp add: leaves_def)
  finally show ?case by simp
qed simp

lemma leaves_simps [simp]:
  "leaves (Leaf i c) = [Leaf i c]" "leaves (Split i d s l r) = leaves l @ leaves r"
  using collect_leaves_onto [of r "collect_leaves l []"] by (simp_all add: leaves_def)

fun update_first :: "('a \<Rightarrow> bool) \<Rightarrow> 'a \<Rightarrow> 'a list \<Rightarrow> 'a list" where
  "update_first P y [] = []"
| "update_first P y (x # xs) = (if P x then y # xs else x # update_first P y xs)"

lemma find_append: "find P (xs @ ys) = or_else (find P xs) (find P ys)"
  by (induction xs) (simp_all add: or_else_def)

lemma update_first_absent: "\<not> list_ex P xs \<Longrightarrow> update_first P y xs = xs"
  by (induction xs) auto

lemma update_first_append:
  "update_first P y (xs @ ys) =
    (if list_ex P xs then update_first P y xs @ ys else xs @ update_first P y ys)"
  by (induction xs) auto

lemma find_leaf_first: "find_leaf pane t = find (\<lambda>n. node_id n = pane) (leaves t)"
  by (induction t) (simp_all add: find_append)

lemma find_some_ex: "find P xs \<noteq> None \<longleftrightarrow> list_ex P xs"
  by (induction xs) auto

lemma replace_leaf_first:
  "fst (replace_leaf_content pane content t) = list_ex (\<lambda>n. node_id n = pane) (leaves t)
    \<and> leaves (snd (replace_leaf_content pane content t))
        = update_first (\<lambda>n. node_id n = pane) (Leaf pane content) (leaves t)"
proof (induction t)
  case (Split i d s l r)
  then show ?case
    by (cases "fst (replace_leaf_content pane content l)")
       (auto simp: case_prod_beta Let_def update_first_append update_first_absent)
qed simp

lemma update_first_found:
  "list_ex P xs \<Longrightarrow> P y \<Longrightarrow> find P (update_first P y xs) = Some y"
  by (induction xs) auto

lemma update_first_other:
  "\<not> Q y \<Longrightarrow> (\<And>x. P x \<Longrightarrow> \<not> Q x) \<Longrightarrow> find Q (update_first P y xs) = find Q xs"
  by (induction xs) auto

lemma find_leaf_absent: "find_leaf pane t = None \<longleftrightarrow> \<not> list_ex (\<lambda>n. node_id n = pane) (leaves t)"
  using find_some_ex [of "\<lambda>n. node_id n = pane" "leaves t"] by (auto simp: find_leaf_first)

text \<open>Replacing the content of a pane answers whether the tree has the pane and changes its first leaf of that
  id, in the order in which leaves are collected, and no other; afterwards the pane is found with the new
  content and every other pane as before.\<close>

theorem replaced_content_is_found:
  "fst (replace_leaf_content pane content t) = (find_leaf pane t \<noteq> None)
    \<and> leaves (snd (replace_leaf_content pane content t))
        = update_first (\<lambda>n. node_id n = pane) (Leaf pane content) (leaves t)
    \<and> find_leaf other (snd (replace_leaf_content pane content t))
        = (if other = pane \<and> find_leaf pane t \<noteq> None then Some (Leaf pane content) else find_leaf other t)"
proof -
  let ?t = "snd (replace_leaf_content pane content t)"
  note r = replace_leaf_first [of pane content t]
  have "find_leaf other ?t
      = (if other = pane \<and> find_leaf pane t \<noteq> None then Some (Leaf pane content) else find_leaf other t)"
  proof (cases "other = pane")
    case True
    then show ?thesis
      using r update_first_found [of "\<lambda>n. node_id n = pane" "leaves t" "Leaf pane content"]
        update_first_absent [of "\<lambda>n. node_id n = pane" "leaves t" "Leaf pane content"]
      by (cases "find_leaf pane t = None") (simp_all add: find_leaf_absent, simp_all add: find_leaf_first)
  next
    case False
    then show ?thesis
      using r update_first_other [of "\<lambda>n. node_id n = other" "Leaf pane content" "\<lambda>n. node_id n = pane" "leaves t"]
      by (simp add: find_leaf_first)
  qed
  then show ?thesis using r by (simp add: find_leaf_absent)
qed

section \<open>Grids\<close>

text \<open>The depth counts the splits above a leaf.\<close>

fun depth :: "('n, 'f) PaneNode \<Rightarrow> nat" where
  "depth (Leaf i c) = 0"
| "depth (Split i d s l r) = Suc (max (depth l) (depth r))"

fun is_pane :: "('n, 'f) PaneNode \<Rightarrow> bool" where
  "is_pane (Leaf i c) = True"
| "is_pane (Split i d s l r) = False"

lemma pane_simps [simp]:
  assumes "is_pane t"
  shows "leaves t = [t]" and "depth t = 0"
  using assms by (cases t; simp)+

lemma row_unfold:
  "2 < length ps \<Longrightarrow> build_horizontal_row uuid fifty k ps
    = Option.bind (build_horizontal_row uuid fifty k (take (half_up (length ps)) ps))
        (\<lambda>(l, k1). Option.bind (build_horizontal_row uuid fifty k1 (drop (half_up (length ps)) ps))
          (\<lambda>(r, k2). Some (split50 uuid fifty ''horizontal'' k2 l r)))"
  by (subst build_horizontal_row.simps) simp

text \<open>The shape that a tree over given panes has: their order, one id per split, and as shallow as can be.\<close>

definition balanced_over :: "('n, 'f) PaneNode list \<Rightarrow> ('n, 'f) PaneNode \<Rightarrow> bool" where
  "balanced_over ps t = (leaves t = ps \<and> length ps \<le> 2 ^ depth t \<and> 2 ^ depth t < 2 * length ps)"

text \<open>Every split is cut in the middle, the left half taking the odd pane, lies in the given direction with its rows
  below it horizontal, and has even sizes. The ids of the splits, children before their parent.\<close>

fun halved :: "string \<Rightarrow> 'f \<Rightarrow> ('n, 'f) PaneNode \<Rightarrow> bool" where
  "halved dir fifty (Leaf i c) = True"
| "halved dir fifty (Split i d s l r) =
     (d = dir \<and> s = (fifty, fifty) \<and> length (leaves l) = (length (leaves l) + length (leaves r) + 1) div 2
      \<and> halved ''horizontal'' fifty l \<and> halved ''horizontal'' fifty r)"

fun split_ids :: "('n, 'f) PaneNode \<Rightarrow> string list" where
  "split_ids (Leaf i c) = []"
| "split_ids (Split i d s l r) = split_ids l @ split_ids r @ [i]"

definition grid_over ::
  "string \<Rightarrow> (nat \<Rightarrow> string) \<Rightarrow> 'f \<Rightarrow> nat \<Rightarrow> ('n, 'f) PaneNode list \<Rightarrow> ('n, 'f) PaneNode \<Rightarrow> bool" where
  "grid_over dir uuid fifty k ps t =
     (balanced_over ps t \<and> halved dir fifty t \<and> split_ids t = map uuid [k..<k + (length ps - 1)])"

lemma halves_bound:
  assumes "2 < n" "2 ^ dl < 2 * half_up n" "half_up n \<le> 2 ^ dl"
    "2 ^ dr < 2 * (n - half_up n)"
  shows "n \<le> 2 ^ Suc (max dl dr)" and "2 ^ Suc (max dl dr) < 2 * n"
proof -
  define e where "e = max dl dr"
  have h: "n \<le> 2 * half_up n" "2 * half_up n \<le> n + 1" "2 \<le> half_up n" using assms(1) by (simp_all add: half_up_def)
  have big: "(2::nat) ^ dl \<le> 2 ^ e" by (simp add: e_def)
  show "n \<le> 2 ^ Suc (max dl dr)" using order_trans [OF h(1) mult_le_mono2 [OF order_trans [OF assms(3) big]]] by (simp add: e_def)
  have small: "(2::nat) ^ e < 2 * half_up n"
    using assms(2,4) h by (cases "dl \<le> dr") (simp_all add: e_def max_def)
  have "1 \<le> e" using h(3) assms(3) big by (cases e) simp_all
  then obtain f where "e = Suc f" by (cases e) simp_all
  then have "2 * 2 ^ e < 2 * n" using small h(2) by simp
  then show "2 ^ Suc (max dl dr) < 2 * n" by (simp add: e_def)
qed

lemma balanced_split:
  assumes "2 < length ps" "balanced_over (take (half_up (length ps)) ps) l"
    "balanced_over (drop (half_up (length ps)) ps) r"
  shows "balanced_over ps (Split i d s l r)"
proof -
  have "half_up (length ps) < length ps" using assms(1) by (simp add: half_up_def)
  then have "length ps \<le> 2 ^ Suc (max (depth l) (depth r))" "2 ^ Suc (max (depth l) (depth r)) < 2 * length ps"
    using assms halves_bound [of "length ps" "depth l" "depth r"] by (simp_all add: balanced_over_def)
  then show ?thesis using assms(2,3) by (simp add: balanced_over_def)
qed

lemma pane_parts [simp]: "is_pane a \<Longrightarrow> halved dir fifty a" "is_pane a \<Longrightarrow> split_ids a = []"
  by (cases a; simp)+

lemma grid_single: "is_pane a \<Longrightarrow> grid_over dir uuid fifty k [a] a"
  by (simp add: grid_over_def balanced_over_def)

lemma grid_pair:
  "is_pane a \<Longrightarrow> is_pane b \<Longrightarrow>
    grid_over ''horizontal'' uuid fifty k [a, b] (Split (uuid k) ''horizontal'' (fifty, fifty) a b)"
  by (simp add: grid_over_def balanced_over_def)

lemma grid_split:
  assumes "2 < length ps" and "h = half_up (length ps)"
    and "grid_over ''horizontal'' uuid fifty k (take h ps) l"
    and "grid_over ''horizontal'' uuid fifty (k + (h - 1)) (drop h ps) r"
  shows "grid_over dir uuid fifty k ps
    (Split (uuid (k + (h - 1) + (length ps - h - 1))) dir (fifty, fifty) l r)"
proof -
  have h: "1 < h" "h < length ps" using assms(1,2) by (simp_all add: half_up_def)
  have sizes: "length (leaves l) = h" "length (leaves r) = length ps - h"
    using assms(3,4) h by (simp_all add: grid_over_def balanced_over_def)
  have ends: "k + (h - 1) + (length ps - h - 1) = k + (length ps - 2)" "k + (length ps - 1) = Suc (k + (length ps - 2))"
    "k + (h - 1) \<le> k + (length ps - 2)"
    using h by simp_all
  have between: "[i..<n] = [i..<j] @ [j..<n]" if "i \<le> j" "j \<le> n" for i j n
    using upt_add_eq_append [of i j "n - j"] that by simp
  have "[k..<k + (length ps - 1)] = [k..<k + (h - 1)] @ [k + (h - 1)..<k + (length ps - 2)] @ [k + (length ps - 2)]"
    unfolding ends(2) using between [OF _ ends(3), of k] by simp
  then show ?thesis
    using assms sizes h balanced_split [OF assms(1), of l r] ends(1)
    by (simp add: grid_over_def half_up_def)
qed

lemma list_of_1_or_2:
  "length ps = 1 \<Longrightarrow> \<exists>a. ps = [a]" "length ps = 2 \<Longrightarrow> \<exists>a b. ps = [a, b]"
  by (auto simp: length_Suc_conv numeral_2_eq_2)

lemma row_of_panes:
  assumes "ps \<noteq> []" "list_all is_pane ps"
  shows "\<exists>t. build_horizontal_row uuid fifty k ps = Some (t, k + (length ps - 1))
    \<and> grid_over ''horizontal'' uuid fifty k ps t"
  using assms
proof (induction "length ps" arbitrary: ps k rule: less_induct)
  case less
  consider "length ps = 1" | "length ps = 2" | "2 < length ps" using less.prems(1) by (cases ps; cases "tl ps"; force)
  then show ?case
  proof cases
    case 1
    then obtain a where "ps = [a]" using list_of_1_or_2(1) by blast
    then show ?thesis using less.prems by (simp add: build_horizontal_row.simps grid_single)
  next
    case 2
    then obtain a b where "ps = [a, b]" using list_of_1_or_2(2) by blast
    then show ?thesis
      using less.prems by (simp add: build_horizontal_row.simps split50_def grid_pair)
  next
    case 3
    define h where "h = half_up (length ps)"
    have h: "1 < h" "h < length ps" using 3 by (simp_all add: h_def half_up_def)
    have panes: "take h ps \<noteq> []" "drop h ps \<noteq> []" "list_all is_pane (take h ps)" "list_all is_pane (drop h ps)"
      using less.prems h by (auto simp: list_all_iff dest: in_set_takeD in_set_dropD)
    obtain l where l: "build_horizontal_row uuid fifty k (take h ps) = Some (l, k + (h - 1))"
        "grid_over ''horizontal'' uuid fifty k (take h ps) l"
      using less.hyps [of "take h ps" k] panes h by auto
    obtain r where r: "build_horizontal_row uuid fifty (k + (h - 1)) (drop h ps)
          = Some (r, k + (h - 1) + (length ps - h - 1))" "grid_over ''horizontal'' uuid fifty (k + (h - 1)) (drop h ps) r"
      using less.hyps [of "drop h ps" "k + (h - 1)"] panes h by auto
    show ?thesis
      using l r(1) h row_unfold [OF 3, of uuid fifty k] grid_split [OF 3 h_def l(2) r(2)]
      by (simp add: h_def [symmetric] split50_def)
  qed
qed

lemma row_of_nothing: "build_horizontal_row uuid fifty k ([] :: ('n, 'f) PaneNode list) = None"
proof -
  have "ps \<noteq> []" if "build_horizontal_row uuid fifty k ps = Some r"
    for ps :: "('n, 'f) PaneNode list" and r
  proof (rule build_horizontal_row.raw_induct [where P = "\<lambda>_ _ _ ps _. ps \<noteq> []", OF _ that])
    fix f :: "(nat \<Rightarrow> string) \<Rightarrow> 'f \<Rightarrow> nat \<Rightarrow> ('n, 'f) PaneNode list \<Rightarrow> (('n, 'f) PaneNode \<times> nat) option"
      and uuid fifty k ps r
    assume f: "\<And>uuid fifty k ps r. f uuid fifty k ps = Some r \<Longrightarrow> ps \<noteq> []"
    then have "f uuid fifty k [] = None" for uuid fifty k by (cases "f uuid fifty k []") blast+
    moreover assume "(if length ps = 1 then Some (ps ! 0, k)
      else if length ps = 2 then Some (split50 uuid fifty ''horizontal'' k (ps ! 0) (ps ! 1))
      else Option.bind (f uuid fifty k (take (half_up (length ps)) ps))
             (\<lambda>(l, k1). Option.bind (f uuid fifty k1 (drop (half_up (length ps)) ps))
               (\<lambda>(r, k2). Some (split50 uuid fifty ''horizontal'' k2 l r)))) = Some r"
    ultimately show "ps \<noteq> []" by (cases ps) simp_all
  qed
  then show ?thesis by (cases "build_horizontal_row uuid fifty k ([] :: ('n, 'f) PaneNode list)") auto
qed

text \<open>C40: a grid over some panes exists, holds exactly these panes in their order, and gives every split a new id of its
  own. It is cut in the middle everywhere, the left or upper part taking the odd pane, so it is as shallow as
  a binary tree over that many panes can be; more than two panes stand in two rows, one above the other.
  Over no panes it is never built, which is why the callers must not ask for it.\<close>

theorem grid_is_balanced:
  assumes "list_all is_pane ps"
  shows "if ps = [] then build_grid_layout uuid fifty k ps = None
    else \<exists>t. build_grid_layout uuid fifty k ps = Some (t, k + (length ps - 1))
      \<and> grid_over (if 2 < length ps then ''vertical'' else ''horizontal'') uuid fifty k ps t"
proof -
  consider "ps = []" | "length ps = 1" | "length ps = 2" | "2 < length ps" by (cases ps; cases "tl ps"; force)
  then show ?thesis
  proof cases
    case 1
    then show ?thesis by (simp add: build_grid_layout_def half_up_def row_of_nothing)
  next
    case 2
    then obtain a where "ps = [a]" using list_of_1_or_2(1) by blast
    then show ?thesis using assms by (simp add: build_grid_layout_def grid_single)
  next
    case 3
    then obtain a b where "ps = [a, b]" using list_of_1_or_2(2) by blast
    then show ?thesis using assms by (simp add: build_grid_layout_def split50_def grid_pair)
  next
    case 4
    define h where "h = half_up (length ps)"
    have h: "1 < h" "h < length ps" using 4 by (simp_all add: h_def half_up_def)
    have panes: "take h ps \<noteq> []" "drop h ps \<noteq> []" "list_all is_pane (take h ps)" "list_all is_pane (drop h ps)"
      using assms h by (auto simp: list_all_iff dest: in_set_takeD in_set_dropD)
    obtain l where l: "build_horizontal_row uuid fifty k (take h ps) = Some (l, k + (h - 1))"
        "grid_over ''horizontal'' uuid fifty k (take h ps) l"
      using row_of_panes [of "take h ps" uuid fifty k] panes h by auto
    obtain r where r: "build_horizontal_row uuid fifty (k + (h - 1)) (drop h ps)
          = Some (r, k + (h - 1) + (length ps - h - 1))" "grid_over ''horizontal'' uuid fifty (k + (h - 1)) (drop h ps) r"
      using row_of_panes [of "drop h ps" uuid fifty "k + (h - 1)"] panes h by auto
    show ?thesis
      using l r(1) h 4 grid_split [OF 4 h_def l(2) r(2)]
      by (auto simp: h_def [symmetric] split50_def build_grid_layout_def)
  qed
qed

theorem grid_is_balanced_witness:
  "let ps = map (\<lambda>i. Leaf i (Null :: int json)) [''a'', ''b'', ''c'', ''d'', ''e''] in
    \<exists>t. build_grid_layout (\<lambda>n. replicate n CHR ''x'') (50::int) 1 ps = Some (t, 5)
      \<and> grid_over ''vertical'' (\<lambda>n. replicate n CHR ''x'') 50 1 ps t"
  using grid_is_balanced [of "map (\<lambda>i. Leaf i (Null :: int json)) [''a'', ''b'', ''c'', ''d'', ''e'']"
      "\<lambda>n. replicate n CHR ''x''" "50::int" 1]
  by (simp add: Let_def eval_nat_numeral)

end
