(* ===== verification/Json_Scan.thy ===== *)
theory Json_Scan
  imports Text_Units
begin

text \<open>
  The byte scanner under the codex remote proxy (crates/freshell-codex/src/json_scan.rs). It reads single
  fields out of large JSON frames without parsing them: strings and numbers are delimited, whole values are
  skipped with a stack of container frames instead of recursion, and an object is recorded as the spans of
  its values. Bytes are naturals below 256, an index is a natural, and an error is the left of a sum.
\<close>

section \<open>Bytes\<close>

abbreviation BYTE_SPACE :: nat where "BYTE_SPACE \<equiv> 0x20"
abbreviation BYTE_QUOTE :: nat where "BYTE_QUOTE \<equiv> 0x22"
abbreviation BYTE_PLUS :: nat where "BYTE_PLUS \<equiv> 0x2B"
abbreviation BYTE_MINUS :: nat where "BYTE_MINUS \<equiv> 0x2D"
abbreviation BYTE_COMMA :: nat where "BYTE_COMMA \<equiv> 0x2C"
abbreviation BYTE_DOT :: nat where "BYTE_DOT \<equiv> 0x2E"
abbreviation BYTE_COLON :: nat where "BYTE_COLON \<equiv> 0x3A"
abbreviation BYTE_BACKSLASH :: nat where "BYTE_BACKSLASH \<equiv> 0x5C"
abbreviation BYTE_OPEN_BRACKET :: nat where "BYTE_OPEN_BRACKET \<equiv> 0x5B"
abbreviation BYTE_CLOSE_BRACKET :: nat where "BYTE_CLOSE_BRACKET \<equiv> 0x5D"
abbreviation BYTE_OPEN_BRACE :: nat where "BYTE_OPEN_BRACE \<equiv> 0x7B"
abbreviation BYTE_CLOSE_BRACE :: nat where "BYTE_CLOSE_BRACE \<equiv> 0x7D"

datatype ScanError = MalformedJson | TokenTooLarge

definition is_json_blank :: "nat \<Rightarrow> bool" where
  "is_json_blank b = (b = BYTE_SPACE \<or> b = 0x09 \<or> b = 0x0A \<or> b = 0x0D)"

definition is_json_digit :: "nat \<Rightarrow> bool" where
  "is_json_digit b = (0x30 \<le> b \<and> b \<le> 0x39)"

definition is_digit_one_to_nine :: "nat \<Rightarrow> bool" where
  "is_digit_one_to_nine b = (0x31 \<le> b \<and> b \<le> 0x39)"

definition is_exponent_marker :: "nat \<Rightarrow> bool" where
  "is_exponent_marker b = (b = 0x45 \<or> b = 0x65)"

definition is_sign :: "nat \<Rightarrow> bool" where
  "is_sign b = (b = BYTE_PLUS \<or> b = BYTE_MINUS)"

definition hex_value :: "nat \<Rightarrow> nat option" where
  "hex_value b =
     (if 0x30 \<le> b \<and> b \<le> 0x39 then Some (b - 0x30)
      else if 0x41 \<le> b \<and> b \<le> 0x46 then Some (b - 0x41 + 10)
      else if 0x61 \<le> b \<and> b \<le> 0x66 then Some (b - 0x61 + 10)
      else None)"

definition is_hex_digit :: "nat \<Rightarrow> bool" where
  "is_hex_digit b = (hex_value b \<noteq> None)"

definition is_simple_escape :: "nat \<Rightarrow> bool" where
  "is_simple_escape b = (b \<in> {0x22, 0x5C, 0x2F, 0x62, 0x66, 0x6E, 0x72, 0x74})"

function skip_whitespace :: "bytes \<Rightarrow> nat \<Rightarrow> nat" where
  "skip_whitespace raw index =
     (if index < length raw \<and> is_json_blank (raw ! index) then skip_whitespace raw (index + 1) else index)"
  by pat_completeness auto
termination by (relation "measure (\<lambda>(raw, index). length raw - index)") auto

declare skip_whitespace.simps [simp del]

definition matches_literal :: "bytes \<Rightarrow> nat \<Rightarrow> bytes \<Rightarrow> bool" where
  "matches_literal raw start literal =
     (if length raw < start + length literal then False
      else take (length literal) (drop start raw) = literal)"

section \<open>Strings\<close>

record StringBounds =
  content_start :: nat
  content_end :: nat
  has_escape :: bool
  bounds_next :: nat

text \<open>The check of the token bound, which \<open>None\<close> switches off.\<close>

definition exceeds :: "nat option \<Rightarrow> nat \<Rightarrow> bool" where
  "exceeds bound n = (case bound of None \<Rightarrow> False | Some most \<Rightarrow> most < n)"

definition four_hex_digits :: "bytes \<Rightarrow> nat \<Rightarrow> bool" where
  "four_hex_digits raw index =
     list_all (\<lambda>offset. index + offset < length raw \<and> is_hex_digit (raw ! (index + offset))) [1, 2, 3, 4]"

function string_loop :: "bytes \<Rightarrow> nat \<Rightarrow> nat option \<Rightarrow> bool \<Rightarrow> nat \<Rightarrow> ScanError + StringBounds" where
  "string_loop raw start max_token escape index =
     (if index < length raw then
        if exceeds max_token (index - start + 1) then Inl TokenTooLarge
        else if raw ! index = BYTE_QUOTE then
          Inr \<lparr>content_start = start + 1, content_end = index, has_escape = escape, bounds_next = index + 1\<rparr>
        else if raw ! index < BYTE_SPACE then Inl MalformedJson
        else if raw ! index = BYTE_BACKSLASH then
          if length raw \<le> index + 1 then Inl MalformedJson
          else if raw ! (index + 1) = 0x75 then
            if four_hex_digits raw (index + 1) then string_loop raw start max_token True (index + 1 + 5)
            else Inl MalformedJson
          else if \<not> is_simple_escape (raw ! (index + 1)) then Inl MalformedJson
          else string_loop raw start max_token True (index + 1 + 1)
        else string_loop raw start max_token escape (index + 1)
      else Inl MalformedJson)"
  by pat_completeness auto
termination by (relation "measure (\<lambda>(raw, start, bound, escape, index). length raw - index)") auto

declare string_loop.simps [simp del]

definition scan_string_bounds :: "bytes \<Rightarrow> nat \<Rightarrow> nat option \<Rightarrow> ScanError + StringBounds" where
  "scan_string_bounds raw start max_token =
     (if length raw \<le> start \<or> raw ! start \<noteq> BYTE_QUOTE then Inl MalformedJson
      else string_loop raw start max_token False (start + 1))"

text \<open>\<open>utf8_char_width\<close>: the masks of the lead byte, as ranges of a byte.\<close>

definition utf8_char_width :: "nat \<Rightarrow> nat" where
  "utf8_char_width b =
     (if b < 0x80 then 1 else if 0xC0 \<le> b \<and> b < 0xE0 then 2 else if 0xE0 \<le> b \<and> b < 0xF0 then 3
      else if 0xF0 \<le> b \<and> b < 0xF8 then 4 else 1)"

lemma utf8_char_width_pos [simp]: "0 < utf8_char_width b"
  by (simp add: utf8_char_width_def)

definition simple_escape_char :: "nat \<Rightarrow> nat option" where
  "simple_escape_char b =
     (if b = 0x22 then Some 0x22 else if b = 0x5C then Some 0x5C else if b = 0x2F then Some 0x2F
      else if b = 0x62 then Some 0x08 else if b = 0x66 then Some 0x0C else if b = 0x6E then Some 0x0A
      else if b = 0x72 then Some 0x0D else if b = 0x74 then Some 0x09 else None)"

text \<open>The code unit of a \<open>\\u\<close> escape whose marker is at \<open>index\<close>.\<close>

definition hex_unit :: "bytes \<Rightarrow> nat option" where
  "hex_unit bs = fold (\<lambda>b acc. case (acc, hex_value b) of (Some u, Some v) \<Rightarrow> Some (u * 16 + v) | _ \<Rightarrow> None)
     bs (Some 0)"

definition char_or_replacement :: "nat \<Rightarrow> nat" where
  "char_or_replacement u = (if is_scalar u then u else 0xFFFD)"

function decode_content :: "bytes \<Rightarrow> nat \<Rightarrow> utext \<Rightarrow> utext option" where
  "decode_content raw index decoded =
     (if index < length raw then
        if raw ! index < BYTE_SPACE then None
        else if raw ! index \<noteq> BYTE_BACKSLASH then
          (let stop = min (index + utf8_char_width (raw ! index)) (length raw) in
           case from_utf8 (take (stop - index) (drop index raw)) of
             None \<Rightarrow> None
           | Some s \<Rightarrow> decode_content raw stop (decoded @ s))
        else if length raw \<le> index + 1 then None
        else if raw ! (index + 1) = 0x75 then
          if length raw \<le> index + 1 + 4 then None
          else (case hex_unit (take 4 (drop (index + 1 + 1) raw)) of
                  None \<Rightarrow> None
                | Some u \<Rightarrow> decode_content raw (index + 1 + 4 + 1) (decoded @ [char_or_replacement u]))
        else (case simple_escape_char (raw ! (index + 1)) of
                None \<Rightarrow> None
              | Some c \<Rightarrow> decode_content raw (index + 1 + 1) (decoded @ [c]))
      else Some decoded)"
  by pat_completeness auto
termination
  by (relation "measure (\<lambda>(raw, index, decoded). length raw - index)")
     (auto simp: min_def intro!: diff_less_mono2)

declare decode_content.simps [simp del]

definition decode_json_string_content :: "bytes \<Rightarrow> utext option" where
  "decode_json_string_content raw = decode_content raw 0 []"

definition decode_string_bounds :: "bytes \<Rightarrow> StringBounds \<Rightarrow> ScanError + utext" where
  "decode_string_bounds raw bounds =
     (let content = take (content_end bounds - content_start bounds) (drop (content_start bounds) raw) in
      case (if has_escape bounds then decode_json_string_content content else from_utf8 content) of
        None \<Rightarrow> Inl MalformedJson
      | Some s \<Rightarrow> Inr s)"

definition parse_bounded_string :: "bytes \<Rightarrow> nat \<Rightarrow> nat \<Rightarrow> ScanError + (utext \<times> nat)" where
  "parse_bounded_string raw start max_token =
     (case scan_string_bounds raw start (Some max_token) of
        Inl e \<Rightarrow> Inl e
      | Inr bounds \<Rightarrow>
          (case decode_string_bounds raw bounds of
             Inl e \<Rightarrow> Inl e
           | Inr value \<Rightarrow> Inr (value, bounds_next bounds)))"

section \<open>Numbers\<close>

text \<open>One more byte of the number token that started at \<open>start\<close>, with the check of its bound.\<close>

definition over_limit :: "nat option \<Rightarrow> nat \<Rightarrow> nat \<Rightarrow> bool" where
  "over_limit max_token from to = exceeds max_token (to - from)"

definition bump :: "nat option \<Rightarrow> nat \<Rightarrow> nat \<Rightarrow> ScanError + nat" where
  "bump max_token start index =
     (if over_limit max_token start (index + 1) then Inl TokenTooLarge else Inr (index + 1))"

text \<open>The \<open>?\<close> of the code.\<close>

definition propagate :: "'e + 'a \<Rightarrow> ('a \<Rightarrow> 'e + 'b) \<Rightarrow> 'e + 'b" where
  "propagate r f = (case r of Inl e \<Rightarrow> Inl e | Inr a \<Rightarrow> f a)"

lemma propagate_simps [simp]: "propagate (Inl e) f = Inl e" "propagate (Inr a) f = f a"
  by (simp_all add: propagate_def)

lemma propagate_eq_Inr [simp]: "(propagate r f = Inr b) = (\<exists>a. r = Inr a \<and> f a = Inr b)"
  by (cases r) simp_all

function digits_loop :: "bytes \<Rightarrow> nat option \<Rightarrow> nat \<Rightarrow> nat \<Rightarrow> ScanError + nat" where
  "digits_loop raw max_token start index =
     (if index < length raw \<and> is_json_digit (raw ! index)
      then if over_limit max_token start (index + 1) then Inl TokenTooLarge
           else digits_loop raw max_token start (index + 1)
      else Inr index)"
  by pat_completeness auto
termination by (relation "measure (\<lambda>(raw, bound, start, index). length raw - index)") auto

declare digits_loop.simps [simp del]

definition scan_sign :: "bytes \<Rightarrow> nat option \<Rightarrow> nat \<Rightarrow> nat \<Rightarrow> ScanError + nat" where
  "scan_sign raw max_token start index =
     (if index < length raw \<and> raw ! index = BYTE_MINUS then bump max_token start index else Inr index)"

definition scan_integer :: "bytes \<Rightarrow> nat option \<Rightarrow> nat \<Rightarrow> nat \<Rightarrow> ScanError + nat" where
  "scan_integer raw max_token start index =
     (if length raw \<le> index then Inl MalformedJson
      else if raw ! index = 0x30 then bump max_token start index
      else if is_digit_one_to_nine (raw ! index) then digits_loop raw max_token start (index + 1)
      else Inl MalformedJson)"

text \<open>A digit and the digits that follow it, or an error.\<close>

definition some_digits :: "bytes \<Rightarrow> nat option \<Rightarrow> nat \<Rightarrow> nat \<Rightarrow> ScanError + nat" where
  "some_digits raw max_token start index =
     (if length raw \<le> index \<or> \<not> is_json_digit (raw ! index) then Inl MalformedJson
      else digits_loop raw max_token start index)"

definition scan_fraction :: "bytes \<Rightarrow> nat option \<Rightarrow> nat \<Rightarrow> nat \<Rightarrow> ScanError + nat" where
  "scan_fraction raw max_token start index =
     (if index < length raw \<and> raw ! index = BYTE_DOT
      then propagate (bump max_token start index) (some_digits raw max_token start)
      else Inr index)"

definition scan_exponent :: "bytes \<Rightarrow> nat option \<Rightarrow> nat \<Rightarrow> nat \<Rightarrow> ScanError + nat" where
  "scan_exponent raw max_token start index =
     (if index < length raw \<and> is_exponent_marker (raw ! index)
      then propagate (bump max_token start index) (\<lambda>index.
             propagate (if index < length raw \<and> is_sign (raw ! index) then bump max_token start index else Inr index)
               (some_digits raw max_token start))
      else Inr index)"

record NumberToken =
  token_start :: nat
  token_end :: nat
  token_next :: nat

definition scan_number :: "bytes \<Rightarrow> nat \<Rightarrow> nat option \<Rightarrow> ScanError + NumberToken" where
  "scan_number raw start max_token =
     propagate (scan_sign raw max_token start start) (\<lambda>index.
     propagate (scan_integer raw max_token start index) (\<lambda>index.
     propagate (scan_fraction raw max_token start index) (\<lambda>index.
     propagate (scan_exponent raw max_token start index) (\<lambda>index.
       Inr \<lparr>token_start = start, token_end = index, token_next = index\<rparr>))))"

definition number_token_has_fraction_or_exponent :: "bytes \<Rightarrow> nat \<Rightarrow> nat \<Rightarrow> bool" where
  "number_token_has_fraction_or_exponent raw start stop =
     list_ex (\<lambda>b. b = BYTE_DOT \<or> is_exponent_marker b) (take (stop - start) (drop start raw))"

section \<open>Values\<close>

datatype ValueKind = Kind_object | Kind_array | Kind_string | Kind_number | Kind_literal

definition classify_value :: "nat \<Rightarrow> ValueKind" where
  "classify_value b =
     (if b = BYTE_OPEN_BRACE then Kind_object
      else if b = BYTE_OPEN_BRACKET then Kind_array
      else if b = BYTE_QUOTE then Kind_string
      else if b = BYTE_MINUS \<or> is_json_digit b then Kind_number
      else Kind_literal)"

datatype ArrayState = ExpectValueOrEnd | ExpectValue | ExpectCommaOrEnd

datatype ObjectState = ExpectKeyOrEnd | ExpectKey | ExpectColon | ExpectMember | ExpectCommaOrBrace

text \<open>\<open>ExpectMember\<close> and \<open>ExpectCommaOrBrace\<close> are the \<open>ExpectValue\<close> and \<open>ExpectCommaOrEnd\<close> of an object.\<close>

datatype ContainerFrame = Array_frame ArrayState | Object_frame ObjectState

text \<open>The literals, as bytes.\<close>

definition lit_true :: bytes where "lit_true = [0x74, 0x72, 0x75, 0x65]"
definition lit_false :: bytes where "lit_false = [0x66, 0x61, 0x6C, 0x73, 0x65]"
definition lit_null :: bytes where "lit_null = [0x6E, 0x75, 0x6C, 0x6C]"

text \<open>The stack is a list with its top first.\<close>

definition begin_skipped_value ::
  "bytes \<Rightarrow> nat \<Rightarrow> ContainerFrame list \<Rightarrow> nat option \<Rightarrow> ScanError + (nat \<times> ContainerFrame list)" where
  "begin_skipped_value raw start stack max_number =
     (if length raw \<le> start then Inl MalformedJson
      else if raw ! start = BYTE_QUOTE then
        propagate (scan_string_bounds raw start None) (\<lambda>b. Inr (bounds_next b, stack))
      else if raw ! start = BYTE_OPEN_BRACE then Inr (start + 1, Object_frame ExpectKeyOrEnd # stack)
      else if raw ! start = BYTE_OPEN_BRACKET then Inr (start + 1, Array_frame ExpectValueOrEnd # stack)
      else if raw ! start = BYTE_MINUS \<or> is_json_digit (raw ! start) then
        propagate (scan_number raw start max_number) (\<lambda>t. Inr (token_next t, stack))
      else if matches_literal raw start lit_true then Inr (start + 4, stack)
      else if matches_literal raw start lit_false then Inr (start + 5, stack)
      else if matches_literal raw start lit_null then Inr (start + 4, stack)
      else Inl MalformedJson)"

text \<open>Every scan moves forward, which is what ends the loop over the stack.\<close>

lemma skip_whitespace_ge: "index \<le> skip_whitespace raw index"
  by (induction raw index rule: skip_whitespace.induct) (subst skip_whitespace.simps, auto)

lemma string_loop_forward: "string_loop raw start bound escape index = Inr b \<Longrightarrow> index < bounds_next b"
proof (induction raw start bound escape index rule: string_loop.induct)
  case (1 raw start bound escape index)
  show ?case
    using 1 by (auto simp: string_loop.simps [of raw start bound escape index] split: if_splits)
qed

lemma scan_string_forward: "scan_string_bounds raw start bound = Inr b \<Longrightarrow> start < bounds_next b"
  by (auto simp: scan_string_bounds_def split: if_splits dest!: string_loop_forward)

lemma digits_loop_forward: "digits_loop raw bound start index = Inr j \<Longrightarrow> index \<le> j"
proof (induction raw bound start index rule: digits_loop.induct)
  case (1 raw bound start index)
  show ?case
    using 1 by (auto simp: digits_loop.simps [of raw bound start index] split: if_splits)
qed

lemma bump_forward: "bump bound start index = Inr j \<Longrightarrow> j = index + 1"
  by (simp add: bump_def split: if_splits)

lemma some_digits_forward: "some_digits raw bound start index = Inr j \<Longrightarrow> index \<le> j"
  by (auto simp: some_digits_def split: if_splits dest: digits_loop_forward)

lemma scan_number_forward: "scan_number raw start bound = Inr t \<Longrightarrow> start < token_next t"
proof -
  assume "scan_number raw start bound = Inr t"
  then obtain a b c d where "scan_sign raw bound start start = Inr a" "scan_integer raw bound start a = Inr b"
    "scan_fraction raw bound start b = Inr c" "scan_exponent raw bound start c = Inr d" "token_next t = d"
    by (auto simp: scan_number_def)
  moreover from this have "start \<le> a" by (auto simp: scan_sign_def split: if_splits dest: bump_forward)
  moreover from calculation have "a < b"
    by (auto simp: scan_integer_def split: if_splits dest: bump_forward digits_loop_forward)
  moreover from calculation have "b \<le> c"
    by (auto simp: scan_fraction_def split: if_splits dest!: bump_forward some_digits_forward)
  moreover from calculation have "c \<le> d"
    by (auto simp: scan_exponent_def split: if_splits dest!: bump_forward some_digits_forward)
  ultimately show ?thesis by simp
qed

lemma begin_forward: "begin_skipped_value raw start stack bound = Inr (j, stack') \<Longrightarrow> start < j"
  by (auto simp: begin_skipped_value_def split: if_splits dest: scan_string_forward scan_number_forward)

text \<open>One round of the loop: \<open>at\<close> is the next byte that is not blank, \<open>rest\<close> the stack under the top frame.\<close>

definition skip_round ::
  "bytes \<Rightarrow> nat option \<Rightarrow> ContainerFrame \<Rightarrow> ContainerFrame list \<Rightarrow> nat \<Rightarrow> ScanError + (nat \<times> ContainerFrame list)" where
  "skip_round raw max_number frame rest at =
     (if length raw \<le> at then Inl MalformedJson
      else case frame of
        Array_frame ExpectValueOrEnd \<Rightarrow>
          if raw ! at = BYTE_CLOSE_BRACKET then Inr (at + 1, rest)
          else begin_skipped_value raw at (Array_frame ExpectCommaOrEnd # rest) max_number
      | Array_frame ExpectValue \<Rightarrow>
          begin_skipped_value raw at (Array_frame ExpectCommaOrEnd # rest) max_number
      | Array_frame ExpectCommaOrEnd \<Rightarrow>
          if raw ! at = BYTE_COMMA then Inr (at + 1, Array_frame ExpectValue # rest)
          else if raw ! at = BYTE_CLOSE_BRACKET then Inr (at + 1, rest)
          else Inl MalformedJson
      | Object_frame ExpectKeyOrEnd \<Rightarrow>
          if raw ! at = BYTE_CLOSE_BRACE then Inr (at + 1, rest)
          else propagate (scan_string_bounds raw at None)
                 (\<lambda>b. Inr (bounds_next b, Object_frame ExpectColon # rest))
      | Object_frame ExpectKey \<Rightarrow>
          propagate (scan_string_bounds raw at None)
            (\<lambda>b. Inr (bounds_next b, Object_frame ExpectColon # rest))
      | Object_frame ExpectColon \<Rightarrow>
          if raw ! at \<noteq> BYTE_COLON then Inl MalformedJson
          else Inr (at + 1, Object_frame ExpectMember # rest)
      | Object_frame ExpectMember \<Rightarrow>
          begin_skipped_value raw at (Object_frame ExpectCommaOrBrace # rest) max_number
      | Object_frame ExpectCommaOrBrace \<Rightarrow>
          if raw ! at = BYTE_COMMA then Inr (at + 1, Object_frame ExpectKey # rest)
          else if raw ! at = BYTE_CLOSE_BRACE then Inr (at + 1, rest)
          else Inl MalformedJson)"

lemma skip_round_forward:
  assumes "skip_round raw bound frame rest at = Inr (j, stack)"
  shows "at < j" and "at < length raw"
  using assms
  by (auto simp: skip_round_def split: if_splits ContainerFrame.splits ArrayState.splits ObjectState.splits
      dest: begin_forward scan_string_forward)

function skip_loop :: "bytes \<Rightarrow> nat option \<Rightarrow> ContainerFrame list \<Rightarrow> nat \<Rightarrow> ScanError + nat" where
  "skip_loop raw max_number [] index = Inr index"
| "skip_loop raw max_number (frame # rest) index =
     (case skip_round raw max_number frame rest (skip_whitespace raw index) of
        Inl e \<Rightarrow> Inl e
      | Inr (j, stack) \<Rightarrow> skip_loop raw max_number stack j)"
  by pat_completeness auto
termination
proof (relation "measure (\<lambda>(raw, bound, stack, index). length raw - index)", goal_cases)
  case (2 raw bound frame rest index r j stack)
  then show ?case
    using skip_round_forward [of raw bound frame rest "skip_whitespace raw index" j stack]
      skip_whitespace_ge [of index raw] by auto
qed simp

definition skip_value :: "bytes \<Rightarrow> nat \<Rightarrow> nat option \<Rightarrow> ScanError + nat" where
  "skip_value raw start max_number =
     (let value_start = skip_whitespace raw start in
      if length raw \<le> value_start then Inl MalformedJson
      else case begin_skipped_value raw value_start [] max_number of
             Inl e \<Rightarrow> Inl e
           | Inr (j, stack) \<Rightarrow> if stack = [] then Inr j else skip_loop raw max_number stack j)"

lemma skip_loop_forward: "skip_loop raw bound stack index = Inr j \<Longrightarrow> index \<le> j"
proof (induction raw bound stack index rule: skip_loop.induct)
  case (2 raw bound frame rest index)
  show ?case
    using 2 skip_whitespace_ge [of index raw]
    by (fastforce split: sum.splits prod.splits dest: skip_round_forward)
qed simp

lemma skip_value_forward: "skip_value raw start bound = Inr j \<Longrightarrow> start < j"
  using skip_whitespace_ge [of start raw]
  by (auto simp: skip_value_def Let_def split: if_splits sum.splits dest!: begin_forward skip_loop_forward)

section \<open>Objects\<close>

record ObjectEntry =
  entry_key :: utext
  value_start :: nat
  value_end :: nat
  value_kind :: ValueKind

record ScannedObject =
  entries :: "ObjectEntry list"
  close_index :: nat
  scanned_end :: nat

text \<open>One round of the loop reads a member; \<open>Inr (Inl index)\<close> goes round again, \<open>Inr (Inr close)\<close> has met the
  closing brace.\<close>

definition scan_member :: "bytes \<Rightarrow> nat \<Rightarrow> nat \<Rightarrow> ScanError + (ObjectEntry \<times> (nat + nat))" where
  "scan_member raw max_key index =
     (if length raw \<le> index then Inl MalformedJson
      else propagate (parse_bounded_string raw index max_key) (\<lambda>(k, j).
        let colon = skip_whitespace raw j in
        if length raw \<le> colon \<or> raw ! colon \<noteq> BYTE_COLON then Inl MalformedJson
        else let vs = skip_whitespace raw (colon + 1) in
        if length raw \<le> vs then Inl MalformedJson
        else propagate (skip_value raw vs (Some max_key)) (\<lambda>ve.
          let entry = \<lparr>entry_key = k, value_start = vs, value_end = ve, value_kind = classify_value (raw ! vs)\<rparr>;
              at = skip_whitespace raw ve in
          if length raw \<le> at then Inl MalformedJson
          else if raw ! at = BYTE_COMMA then Inr (entry, Inl (skip_whitespace raw (at + 1)))
          else if raw ! at = BYTE_CLOSE_BRACE then Inr (entry, Inr at)
          else Inl MalformedJson)))"

lemma parse_bounded_forward: "parse_bounded_string raw start bound = Inr (k, j) \<Longrightarrow> start < j"
  by (auto simp: parse_bounded_string_def split: sum.splits dest: scan_string_forward)

lemma scan_member_forward:
  assumes "scan_member raw bound index = Inr (entry, Inl j)"
  shows "index < j" and "index < length raw"
proof -
  obtain k a vs ve where m: "index < length raw" "parse_bounded_string raw index bound = Inr (k, a)"
    "vs = skip_whitespace raw (skip_whitespace raw a + 1)" "skip_value raw vs (Some bound) = Inr ve"
    "j = skip_whitespace raw (skip_whitespace raw ve + 1)"
    using assms by (auto simp: scan_member_def Let_def split: if_splits)
  note w = skip_whitespace_ge
  show "index < length raw" by (rule m(1))
  show "index < j"
    using m(5) parse_bounded_forward [OF m(2)] skip_value_forward [OF m(4)] m(3)
      w [of a raw] w [of "skip_whitespace raw a + 1" raw] w [of ve raw] w [of "skip_whitespace raw ve + 1" raw]
    by linarith
qed

function members_loop :: "bytes \<Rightarrow> nat \<Rightarrow> ObjectEntry list \<Rightarrow> nat \<Rightarrow> ScanError + ScannedObject" where
  "members_loop raw max_key found index =
     (case scan_member raw max_key index of
        Inl e \<Rightarrow> Inl e
      | Inr (entry, Inl j) \<Rightarrow> members_loop raw max_key (found @ [entry]) j
      | Inr (entry, Inr close) \<Rightarrow>
          Inr \<lparr>entries = found @ [entry], close_index = close, scanned_end = close + 1\<rparr>)"
  by pat_completeness auto
termination
  by (relation "measure (\<lambda>(raw, bound, found, index). length raw - index)")
     (auto intro!: diff_less_mono2 dest: scan_member_forward)

declare members_loop.simps [simp del]

definition scan_object :: "bytes \<Rightarrow> nat \<Rightarrow> nat \<Rightarrow> ScanError + ScannedObject" where
  "scan_object raw start max_key =
     (if length raw \<le> start \<or> raw ! start \<noteq> BYTE_OPEN_BRACE then Inl MalformedJson
      else let index = skip_whitespace raw (start + 1) in
      if length raw \<le> index then Inl MalformedJson
      else if raw ! index = BYTE_CLOSE_BRACE then
        Inr \<lparr>entries = [], close_index = index, scanned_end = index + 1\<rparr>
      else members_loop raw max_key [] index)"

definition find_entry :: "ObjectEntry list \<Rightarrow> utext \<Rightarrow> ObjectEntry option" where
  "find_entry es k = List.find (\<lambda>e. entry_key e = k) es"

fun duplicate_loop :: "utext \<Rightarrow> bool \<Rightarrow> ObjectEntry list \<Rightarrow> bool" where
  "duplicate_loop k seen [] = False"
| "duplicate_loop k seen (e # es) =
     (if entry_key e \<noteq> k then duplicate_loop k seen es
      else if seen then True
      else duplicate_loop k True es)"

definition has_duplicate_key :: "ObjectEntry list \<Rightarrow> utext \<Rightarrow> bool" where
  "has_duplicate_key es k = duplicate_loop k False es"

definition has_any_duplicate_key :: "ObjectEntry list \<Rightarrow> utext list \<Rightarrow> bool" where
  "has_any_duplicate_key es ks = list_ex (has_duplicate_key es) ks"

text \<open>The slice of an entry; its start is not past its end, and its end is in range.\<close>

definition literal_equals :: "bytes \<Rightarrow> ObjectEntry \<Rightarrow> bytes \<Rightarrow> bool" where
  "literal_equals raw entry literal =
     (value_end entry - value_start entry = length literal
      \<and> take (value_end entry - value_start entry) (drop (value_start entry) raw) = literal)"

definition decode_string_entry :: "bytes \<Rightarrow> ObjectEntry \<Rightarrow> ScanError + utext" where
  "decode_string_entry raw entry =
     (if value_kind entry \<noteq> Kind_string then Inl MalformedJson
      else propagate (scan_string_bounds raw (value_start entry) None) (\<lambda>b.
        if bounds_next b \<noteq> value_end entry then Inl MalformedJson
        else case decode_json_string_content
               (take (content_end b - content_start b) (drop (content_start b) raw)) of
               None \<Rightarrow> Inl MalformedJson
             | Some s \<Rightarrow> Inr s))"

end
