(* ===== verification/Json_Grammar.thy ===== *)
theory Json_Grammar
  imports Json_Scan
begin

text \<open>
  JSON text as RFC 8259 defines it, over bytes and without any scanner: blanks, strings, numbers and values.
  Under it, what completes a text inside of open containers, by the stack of the scanner's frames.
\<close>

section \<open>Tokens\<close>

definition blank :: "bytes \<Rightarrow> bool" where
  "blank w = list_all is_json_blank w"

inductive string_chars :: "bytes \<Rightarrow> bool" where
  no_chars: "string_chars []"
| plain_char: "BYTE_SPACE \<le> b \<Longrightarrow> b \<noteq> BYTE_QUOTE \<Longrightarrow> b \<noteq> BYTE_BACKSLASH \<Longrightarrow> string_chars bs \<Longrightarrow> string_chars (b # bs)"
| simple_escape: "is_simple_escape e \<Longrightarrow> string_chars bs \<Longrightarrow> string_chars (BYTE_BACKSLASH # e # bs)"
| unicode_escape: "list_all is_hex_digit [a, b, c, d] \<Longrightarrow> string_chars bs
    \<Longrightarrow> string_chars (BYTE_BACKSLASH # 0x75 # a # b # c # d # bs)"

definition json_string :: "bytes \<Rightarrow> bool" where
  "json_string s = (\<exists>body. string_chars body \<and> s = BYTE_QUOTE # body @ [BYTE_QUOTE])"

definition json_digits :: "bytes \<Rightarrow> bool" where
  "json_digits ds = (ds \<noteq> [] \<and> list_all is_json_digit ds)"

definition json_integer :: "bytes \<Rightarrow> bool" where
  "json_integer t = (t = [0x30] \<or> (\<exists>d ds. t = d # ds \<and> is_digit_one_to_nine d \<and> list_all is_json_digit ds))"

definition json_fraction :: "bytes \<Rightarrow> bool" where
  "json_fraction t = (t = [] \<or> (\<exists>ds. t = BYTE_DOT # ds \<and> json_digits ds))"

definition json_exponent :: "bytes \<Rightarrow> bool" where
  "json_exponent t = (t = [] \<or> (\<exists>e sg ds. t = e # sg @ ds \<and> is_exponent_marker e
     \<and> (sg = [] \<or> (\<exists>s. sg = [s] \<and> is_sign s)) \<and> json_digits ds))"

definition json_number :: "bytes \<Rightarrow> bool" where
  "json_number t = (\<exists>sg i f e. t = sg @ i @ f @ e \<and> (sg = [] \<or> sg = [BYTE_MINUS])
     \<and> json_integer i \<and> json_fraction f \<and> json_exponent e)"

section \<open>Values\<close>

inductive json_value :: "bytes \<Rightarrow> bool"
  and json_elements :: "bytes \<Rightarrow> bool"
  and json_members :: "bytes \<Rightarrow> bool" where
  string_value: "json_string s \<Longrightarrow> json_value s"
| number_value: "json_number n \<Longrightarrow> json_value n"
| true_value: "json_value lit_true"
| false_value: "json_value lit_false"
| null_value: "json_value lit_null"
| empty_array: "blank w \<Longrightarrow> json_value (BYTE_OPEN_BRACKET # w @ [BYTE_CLOSE_BRACKET])"
| array_value: "json_elements es \<Longrightarrow> json_value (BYTE_OPEN_BRACKET # es @ [BYTE_CLOSE_BRACKET])"
| empty_object: "blank w \<Longrightarrow> json_value (BYTE_OPEN_BRACE # w @ [BYTE_CLOSE_BRACE])"
| object_value: "json_members ms \<Longrightarrow> json_value (BYTE_OPEN_BRACE # ms @ [BYTE_CLOSE_BRACE])"
| last_element: "blank u \<Longrightarrow> json_value v \<Longrightarrow> blank w \<Longrightarrow> json_elements (u @ v @ w)"
| more_elements: "blank u \<Longrightarrow> json_value v \<Longrightarrow> blank w \<Longrightarrow> json_elements es
    \<Longrightarrow> json_elements (u @ v @ w @ BYTE_COMMA # es)"
| last_member: "blank u \<Longrightarrow> json_string k \<Longrightarrow> blank w \<Longrightarrow> blank x \<Longrightarrow> json_value v \<Longrightarrow> blank y
    \<Longrightarrow> json_members (u @ k @ w @ BYTE_COLON # x @ v @ y)"
| more_members: "blank u \<Longrightarrow> json_string k \<Longrightarrow> blank w \<Longrightarrow> blank x \<Longrightarrow> json_value v \<Longrightarrow> blank y \<Longrightarrow> json_members ms
    \<Longrightarrow> json_members (u @ k @ w @ BYTE_COLON # x @ v @ y @ BYTE_COMMA # ms)"

lemma blank_simps [simp]:
  "blank []" "blank (b # w) = (is_json_blank b \<and> blank w)" "blank (v @ w) = (blank v \<and> blank w)"
  by (simp_all add: blank_def)

section \<open>What completes a stack\<close>

definition array_rest :: "bytes \<Rightarrow> bool" where
  "array_rest t = (\<exists>w. blank w \<and> (t = w @ [BYTE_CLOSE_BRACKET]
     \<or> (\<exists>es. json_elements es \<and> t = w @ BYTE_COMMA # es @ [BYTE_CLOSE_BRACKET])))"

definition elements_rest :: "bytes \<Rightarrow> bool" where
  "elements_rest t = (\<exists>es. json_elements es \<and> t = es @ [BYTE_CLOSE_BRACKET])"

definition object_rest :: "bytes \<Rightarrow> bool" where
  "object_rest t = (\<exists>w. blank w \<and> (t = w @ [BYTE_CLOSE_BRACE]
     \<or> (\<exists>ms. json_members ms \<and> t = w @ BYTE_COMMA # ms @ [BYTE_CLOSE_BRACE])))"

definition value_rest :: "bytes \<Rightarrow> bool" where
  "value_rest t = (\<exists>x v t'. blank x \<and> json_value v \<and> object_rest t' \<and> t = x @ v @ t')"

definition colon_rest :: "bytes \<Rightarrow> bool" where
  "colon_rest t = (\<exists>w t'. blank w \<and> value_rest t' \<and> t = w @ BYTE_COLON # t')"

definition members_rest :: "bytes \<Rightarrow> bool" where
  "members_rest t = (\<exists>ms. json_members ms \<and> t = ms @ [BYTE_CLOSE_BRACE])"

fun frame_text :: "ContainerFrame \<Rightarrow> bytes \<Rightarrow> bool" where
  "frame_text (Array_frame ExpectCommaOrEnd) t = array_rest t"
| "frame_text (Array_frame ExpectValue) t = elements_rest t"
| "frame_text (Array_frame ExpectValueOrEnd) t =
     ((\<exists>w. blank w \<and> t = w @ [BYTE_CLOSE_BRACKET]) \<or> elements_rest t)"
| "frame_text (Object_frame ExpectCommaOrBrace) t = object_rest t"
| "frame_text (Object_frame ExpectMember) t = value_rest t"
| "frame_text (Object_frame ExpectColon) t = colon_rest t"
| "frame_text (Object_frame ExpectKey) t = members_rest t"
| "frame_text (Object_frame ExpectKeyOrEnd) t =
     ((\<exists>w. blank w \<and> t = w @ [BYTE_CLOSE_BRACE]) \<or> members_rest t)"

fun stack_text :: "ContainerFrame list \<Rightarrow> bytes \<Rightarrow> bool" where
  "stack_text [] t = (t = [])"
| "stack_text (frame # rest) t = (\<exists>t1 t2. frame_text frame t1 \<and> stack_text rest t2 \<and> t = t1 @ t2)"

text \<open>The frames by one token each, in both directions.\<close>

lemma element_step:
  "elements_rest t \<longleftrightarrow> (\<exists>u v t'. blank u \<and> json_value v \<and> array_rest t' \<and> t = u @ v @ t')"
proof
  assume "elements_rest t"
  then obtain es where "json_elements es" and t: "t = es @ [BYTE_CLOSE_BRACKET]"
    by (auto simp: elements_rest_def)
  then show "\<exists>u v t'. blank u \<and> json_value v \<and> array_rest t' \<and> t = u @ v @ t'"
  proof (cases rule: json_elements.cases)
    case (last_element u v w)
    then have "array_rest (w @ [BYTE_CLOSE_BRACKET])" by (auto simp: array_rest_def)
    then show ?thesis using last_element t by (metis append.assoc)
  next
    case (more_elements u v w es')
    then have "array_rest (w @ BYTE_COMMA # es' @ [BYTE_CLOSE_BRACKET])" by (auto simp: array_rest_def)
    then show ?thesis using more_elements t by (metis append.assoc append_Cons)
  qed
next
  assume "\<exists>u v t'. blank u \<and> json_value v \<and> array_rest t' \<and> t = u @ v @ t'"
  then obtain u v t' where *: "blank u" "json_value v" "array_rest t'" "t = u @ v @ t'" by blast
  from *(3) obtain w where w: "blank w" "t' = w @ [BYTE_CLOSE_BRACKET]
      \<or> (\<exists>es. json_elements es \<and> t' = w @ BYTE_COMMA # es @ [BYTE_CLOSE_BRACKET])" by (auto simp: array_rest_def)
  from w(2) show "elements_rest t"
  proof
    assume "t' = w @ [BYTE_CLOSE_BRACKET]"
    then show ?thesis using last_element [OF *(1,2) w(1)] *(4) by (auto simp: elements_rest_def)
  next
    assume "\<exists>es. json_elements es \<and> t' = w @ BYTE_COMMA # es @ [BYTE_CLOSE_BRACKET]"
    then obtain es where "json_elements es" "t' = w @ BYTE_COMMA # es @ [BYTE_CLOSE_BRACKET]" by blast
    then show ?thesis using more_elements [OF *(1,2) w(1), of es] *(4) by (auto simp: elements_rest_def)
  qed
qed

lemma member_step:
  "members_rest t \<longleftrightarrow> (\<exists>u k t'. blank u \<and> json_string k \<and> colon_rest t' \<and> t = u @ k @ t')"
proof
  assume "members_rest t"
  then obtain ms where "json_members ms" and t: "t = ms @ [BYTE_CLOSE_BRACE]"
    by (auto simp: members_rest_def)
  then show "\<exists>u k t'. blank u \<and> json_string k \<and> colon_rest t' \<and> t = u @ k @ t'"
  proof (cases rule: json_members.cases)
    case (last_member u k w x v y)
    then have "object_rest (y @ [BYTE_CLOSE_BRACE])" by (auto simp: object_rest_def)
    then have "colon_rest (w @ BYTE_COLON # x @ v @ y @ [BYTE_CLOSE_BRACE])"
      using last_member unfolding colon_rest_def value_rest_def by blast
    then show ?thesis using last_member t by (metis append.assoc append_Cons)
  next
    case (more_members u k w x v y ms')
    then have "object_rest (y @ BYTE_COMMA # ms' @ [BYTE_CLOSE_BRACE])" by (auto simp: object_rest_def)
    then have "colon_rest (w @ BYTE_COLON # x @ v @ y @ BYTE_COMMA # ms' @ [BYTE_CLOSE_BRACE])"
      using more_members unfolding colon_rest_def value_rest_def by blast
    then show ?thesis using more_members t by (metis append.assoc append_Cons)
  qed
next
  assume "\<exists>u k t'. blank u \<and> json_string k \<and> colon_rest t' \<and> t = u @ k @ t'"
  then obtain u k w x v t' where *: "blank u" "json_string k" "blank w" "blank x" "json_value v"
    "object_rest t'" "t = u @ k @ w @ BYTE_COLON # x @ v @ t'" unfolding colon_rest_def value_rest_def by blast
  from *(6) obtain y where y: "blank y" "t' = y @ [BYTE_CLOSE_BRACE]
      \<or> (\<exists>ms. json_members ms \<and> t' = y @ BYTE_COMMA # ms @ [BYTE_CLOSE_BRACE])" by (auto simp: object_rest_def)
  from y(2) show "members_rest t"
  proof
    assume "t' = y @ [BYTE_CLOSE_BRACE]"
    then show ?thesis using last_member [OF *(1-5) y(1)] *(7) by (auto simp: members_rest_def)
  next
    assume "\<exists>ms. json_members ms \<and> t' = y @ BYTE_COMMA # ms @ [BYTE_CLOSE_BRACE]"
    then obtain ms where "json_members ms" "t' = y @ BYTE_COMMA # ms @ [BYTE_CLOSE_BRACE]" by blast
    then show ?thesis using more_members [OF *(1-5) y(1), of ms] *(7) by (auto simp: members_rest_def)
  qed
qed

lemma array_is_value:
  "json_value (BYTE_OPEN_BRACKET # t)" if "frame_text (Array_frame ExpectValueOrEnd) t"
  using that by (auto simp: elements_rest_def intro: empty_array array_value)

lemma object_is_value:
  "json_value (BYTE_OPEN_BRACE # t)" if "frame_text (Object_frame ExpectKeyOrEnd) t"
  using that by (auto simp: members_rest_def intro: empty_object object_value)

text \<open>A blank in front changes nothing.\<close>

lemma frame_text_blank: "blank u \<Longrightarrow> frame_text f t \<Longrightarrow> frame_text f (u @ t)"
proof (induction f t rule: frame_text.induct)
  case (1 t)
  then obtain w where "blank (u @ w)" "t = w @ [BYTE_CLOSE_BRACKET]
      \<or> (\<exists>es. json_elements es \<and> t = w @ BYTE_COMMA # es @ [BYTE_CLOSE_BRACKET])" by (auto simp: array_rest_def)
  then show ?case unfolding frame_text.simps array_rest_def by (metis append.assoc)
next
  case (2 t)
  then show ?case unfolding frame_text.simps element_step by (metis append.assoc blank_simps(3))
next
  case (3 t)
  then show ?case unfolding frame_text.simps element_step by (metis append.assoc blank_simps(3))
next
  case (4 t)
  then obtain w where "blank (u @ w)" "t = w @ [BYTE_CLOSE_BRACE]
      \<or> (\<exists>ms. json_members ms \<and> t = w @ BYTE_COMMA # ms @ [BYTE_CLOSE_BRACE])" by (auto simp: object_rest_def)
  then show ?case unfolding frame_text.simps object_rest_def by (metis append.assoc)
next
  case (5 t)
  then show ?case unfolding frame_text.simps value_rest_def by (metis append.assoc blank_simps(3))
next
  case (6 t)
  then show ?case unfolding frame_text.simps colon_rest_def by (metis append.assoc blank_simps(3))
next
  case (7 t)
  then show ?case unfolding frame_text.simps member_step by (metis append.assoc blank_simps(3))
next
  case (8 t)
  then show ?case unfolding frame_text.simps member_step by (metis append.assoc blank_simps(3))
qed

lemma stack_text_blank: "blank u \<Longrightarrow> stack_text (f # fs) t \<Longrightarrow> stack_text (f # fs) (u @ t)"
  by (metis append.assoc frame_text_blank stack_text.simps(2))

text \<open>The frames by one token in front of what completes the frame behind it.\<close>

lemma text_ends: "array_rest [BYTE_CLOSE_BRACKET]" "object_rest [BYTE_CLOSE_BRACE]"
  by (auto simp: array_rest_def object_rest_def)

lemma text_commas:
  "elements_rest t \<Longrightarrow> array_rest (BYTE_COMMA # t)" "members_rest t \<Longrightarrow> object_rest (BYTE_COMMA # t)"
  unfolding array_rest_def object_rest_def elements_rest_def members_rest_def
  by (metis append_Nil blank_simps(1) append_Cons)+

lemma text_fronts:
  "json_value v \<Longrightarrow> array_rest t \<Longrightarrow> elements_rest (v @ t)"
  "json_value v \<Longrightarrow> object_rest t \<Longrightarrow> value_rest (v @ t)"
  "json_string k \<Longrightarrow> colon_rest t \<Longrightarrow> members_rest (k @ t)"
  "value_rest t \<Longrightarrow> colon_rest (BYTE_COLON # t)"
  unfolding element_step member_step value_rest_def colon_rest_def
  by (metis append_Nil blank_simps(1))+

end
