(* ===== verification/Json_Tokens.thy ===== *)
theory Json_Tokens
  imports Json_Grammar
begin

text \<open>
  The token scanners against the grammar. Each comes in two directions: what a scan accepts is a token, and a
  token that nothing continues is scanned to its end. Positions are compared by the bytes that are left.
\<close>

lemma drop_further: "drop i raw = t @ r \<Longrightarrow> drop (i + length t) raw = r"
  using drop_drop [of "length t" i raw] by (simp add: add.commute [of i])

lemma drop_Cons: "drop i raw = b # r \<longleftrightarrow> i < length raw \<and> raw ! i = b \<and> drop (i + 1) raw = r"
proof (cases "i < length raw")
  case True
  then show ?thesis using Cons_nth_drop_Suc [OF True] by auto
qed simp

lemma drop_here: "i < length raw \<Longrightarrow> drop i raw = raw ! i # drop (i + 1) raw"
  by (simp add: Cons_nth_drop_Suc)

definition no_more :: "(nat \<Rightarrow> bool) \<Rightarrow> bytes \<Rightarrow> bool" where
  "no_more P r = (case r of [] \<Rightarrow> True | b # _ \<Rightarrow> \<not> P b)"

lemma no_more_simps [simp]: "no_more P []" "no_more P (b # r) = (\<not> P b)"
  by (simp_all add: no_more_def)

lemma no_more_drop: "no_more P (drop i raw) \<longleftrightarrow> length raw \<le> i \<or> \<not> P (raw ! i)"
  by (cases "i < length raw") (simp_all add: drop_here)

section \<open>Blanks\<close>

lemma skip_whitespace_sound:
  "\<exists>w. blank w \<and> drop i raw = w @ drop (skip_whitespace raw i) raw \<and> skip_whitespace raw i = i + length w"
proof (induction raw i rule: skip_whitespace.induct)
  case (1 raw i)
  show ?case
  proof (cases "i < length raw \<and> is_json_blank (raw ! i)")
    case True
    then obtain w where "blank w" "drop (i + 1) raw = w @ drop (skip_whitespace raw (i + 1)) raw"
      "skip_whitespace raw (i + 1) = i + 1 + length w" using 1 by blast
    then have "blank (raw ! i # w)" "drop i raw = (raw ! i # w) @ drop (skip_whitespace raw i) raw"
      "skip_whitespace raw i = i + length (raw ! i # w)"
      using True by (simp_all add: drop_here skip_whitespace.simps [of raw i])
    then show ?thesis by blast
  qed (auto simp: skip_whitespace.simps [of raw i] intro: exI [of _ "[]"])
qed

lemma skip_whitespace_complete:
  "blank w \<Longrightarrow> drop i raw = w @ r \<Longrightarrow> no_more is_json_blank r \<Longrightarrow> skip_whitespace raw i = i + length w"
proof (induction w arbitrary: i)
  case Nil
  then show ?case
    using no_more_drop [of is_json_blank i raw] by (auto simp: skip_whitespace.simps [of raw i])
next
  case (Cons b w)
  then have "i < length raw" "raw ! i = b" "drop (i + 1) raw = w @ r" by (simp_all add: drop_Cons)
  then show ?case using Cons.IH [of "i + 1"] Cons.prems by (simp add: skip_whitespace.simps [of raw i])
qed

section \<open>Strings\<close>

lemma four_hex_digits_iff:
  "four_hex_digits raw i \<longleftrightarrow>
    (\<exists>a b c d. list_all is_hex_digit [a, b, c, d] \<and> drop (i + 1) raw = a # b # c # d # drop (i + 5) raw)"
  by (auto simp: four_hex_digits_def drop_Cons eval_nat_numeral)

lemma string_loop_sound:
  "string_loop raw start bound esc i = Inr b \<Longrightarrow>
    \<exists>body. string_chars body \<and> drop i raw = body @ BYTE_QUOTE # drop (bounds_next b) raw
      \<and> content_start b = start + 1 \<and> content_end b = i + length body \<and> bounds_next b = content_end b + 1
      \<and> has_escape b = (esc \<or> BYTE_BACKSLASH \<in> set body)"
proof (induction raw start bound esc i rule: string_loop.induct)
  case (1 raw start bound esc i)
  have "i < length raw" using "1.prems" by (simp add: string_loop.simps [of raw start bound esc i] split: if_splits)
  then have here: "drop i raw = raw ! i # drop (i + 1) raw" by (rule drop_here)
  consider (quote) "raw ! i = BYTE_QUOTE"
    | (unicode) "raw ! i = BYTE_BACKSLASH" "i + 1 < length raw" "raw ! (i + 1) = 0x75" "four_hex_digits raw (i + 1)"
        "string_loop raw start bound True (i + 1 + 5) = Inr b"
    | (simple) "raw ! i = BYTE_BACKSLASH" "i + 1 < length raw" "is_simple_escape (raw ! (i + 1))"
        "string_loop raw start bound True (i + 1 + 1) = Inr b"
    | (plain) "BYTE_SPACE \<le> raw ! i" "raw ! i \<noteq> BYTE_QUOTE" "raw ! i \<noteq> BYTE_BACKSLASH"
        "string_loop raw start bound esc (i + 1) = Inr b"
    using "1.prems" by (auto simp: string_loop.simps [of raw start bound esc i] split: if_splits)
  then show ?case
  proof cases
    case quote
    then have "b = \<lparr>content_start = start + 1, content_end = i, has_escape = esc, bounds_next = i + 1\<rparr>"
      using "1.prems" by (simp add: string_loop.simps [of raw start bound esc i] split: if_splits)
    then show ?thesis using quote here by (intro exI [of _ "[]"]) (simp add: no_chars)
  next
    case unicode
    obtain p q r s where h: "list_all is_hex_digit [p, q, r, s]"
      "drop (i + 2) raw = p # q # r # s # drop (i + 6) raw"
      using unicode(4) unfolding four_hex_digits_iff by (auto simp: eval_nat_numeral)
    obtain body where "string_chars body" "drop (i + 1 + 5) raw = body @ BYTE_QUOTE # drop (bounds_next b) raw"
      "content_start b = start + 1" "content_end b = i + 1 + 5 + length body" "bounds_next b = content_end b + 1"
      "has_escape b"
      using "1.IH"(1) unicode "1.prems" \<open>i < length raw\<close>
      by (fastforce simp: string_loop.simps [of raw start bound esc i] split: if_splits)
    moreover from this have "drop i raw = (BYTE_BACKSLASH # 0x75 # p # q # r # s # body) @ BYTE_QUOTE # drop (bounds_next b) raw"
      using here unicode h drop_here [of "i + 1" raw] by (simp add: eval_nat_numeral)
    ultimately show ?thesis
      using unicode_escape [OF h(1)] by (intro exI [of _ "BYTE_BACKSLASH # 0x75 # p # q # r # s # body"]) simp
  next
    case simple
    then have "raw ! (i + 1) \<noteq> 0x75" by (auto simp: is_simple_escape_def)
    then obtain body where "string_chars body" "drop (i + 1 + 1) raw = body @ BYTE_QUOTE # drop (bounds_next b) raw"
      "content_start b = start + 1" "content_end b = i + 1 + 1 + length body" "bounds_next b = content_end b + 1"
      "has_escape b"
      using "1.IH"(2) simple "1.prems" \<open>i < length raw\<close>
      by (fastforce simp: string_loop.simps [of raw start bound esc i] split: if_splits)
    moreover from this have "drop i raw = (BYTE_BACKSLASH # raw ! (i + 1) # body) @ BYTE_QUOTE # drop (bounds_next b) raw"
      using here simple drop_here [of "i + 1" raw] by (simp add: eval_nat_numeral)
    ultimately show ?thesis
      using simple_escape [OF simple(3)] by (intro exI [of _ "BYTE_BACKSLASH # raw ! (i + 1) # body"]) simp
  next
    case plain
    obtain body where "string_chars body" "drop (i + 1) raw = body @ BYTE_QUOTE # drop (bounds_next b) raw"
      "content_start b = start + 1" "content_end b = i + 1 + length body" "bounds_next b = content_end b + 1"
      "has_escape b = (esc \<or> BYTE_BACKSLASH \<in> set body)"
      using "1.IH"(3) plain "1.prems" \<open>i < length raw\<close>
      by (fastforce simp: string_loop.simps [of raw start bound esc i] split: if_splits)
    then show ?thesis
      using plain here plain_char [OF plain(1-3)] by (intro exI [of _ "raw ! i # body"]) simp
  qed
qed

lemma string_loop_complete:
  assumes "string_chars body"
  shows "drop i raw = body @ BYTE_QUOTE # r \<Longrightarrow> string_loop raw start None esc i
    = Inr \<lparr>content_start = start + 1, content_end = i + length body,
           has_escape = (esc \<or> BYTE_BACKSLASH \<in> set body), bounds_next = i + length body + 1\<rparr>"
  using assms
proof (induction body arbitrary: i esc rule: string_chars.induct)
  case no_chars
  then show ?case by (simp add: drop_Cons string_loop.simps [of raw start None esc i] exceeds_def)
next
  case (plain_char b bs)
  then show ?case
    using plain_char.IH [of "i + 1" esc] by (simp add: drop_Cons string_loop.simps [of raw start None esc i] exceeds_def)
next
  case (simple_escape e bs)
  then have "e \<noteq> 0x75" by (auto simp: is_simple_escape_def)
  then show ?case
    using simple_escape simple_escape.IH [of "i + 2" True]
    by (simp add: drop_Cons string_loop.simps [of raw start None esc i] exceeds_def)
next
  case (unicode_escape p q s t bs)
  then have "drop (i + 2) raw = p # q # s # t # drop (i + 6) raw" "drop (i + 6) raw = bs @ BYTE_QUOTE # r"
    by (simp_all add: drop_Cons eval_nat_numeral)
  then have "four_hex_digits raw (i + 1)" "string_loop raw start None True (i + 6)
      = Inr \<lparr>content_start = start + 1, content_end = i + 6 + length bs, has_escape = True, bounds_next = i + 6 + length bs + 1\<rparr>"
    using unicode_escape.hyps unicode_escape.IH [of "i + 6" True]
    unfolding four_hex_digits_iff by (simp_all add: eval_nat_numeral)
  then show ?case
    using unicode_escape.prems by (simp add: drop_Cons string_loop.simps [of raw start None esc i] exceeds_def eval_nat_numeral)
qed

lemma scan_string_sound:
  assumes "scan_string_bounds raw i bound = Inr b"
  shows "\<exists>body. string_chars body \<and> drop i raw = (BYTE_QUOTE # body @ [BYTE_QUOTE]) @ drop (bounds_next b) raw
    \<and> content_start b = i + 1 \<and> content_end b = i + 1 + length body \<and> bounds_next b = content_end b + 1
    \<and> has_escape b = (BYTE_BACKSLASH \<in> set body)"
proof -
  have "i < length raw" "raw ! i = BYTE_QUOTE" "string_loop raw i bound False (i + 1) = Inr b"
    using assms by (simp_all add: scan_string_bounds_def split: if_splits)
  then show ?thesis using string_loop_sound [of raw i bound False "i + 1" b] by (auto simp: drop_here)
qed

lemma scan_string_complete:
  assumes "drop i raw = s @ r" and "json_string s"
  shows "\<exists>b. scan_string_bounds raw i None = Inr b \<and> bounds_next b = i + length s"
proof -
  obtain body where body: "string_chars body" "s = BYTE_QUOTE # body @ [BYTE_QUOTE]"
    using assms(2) by (auto simp: json_string_def)
  then have "i < length raw" "raw ! i = BYTE_QUOTE" "drop (i + 1) raw = body @ BYTE_QUOTE # r"
    using assms(1) by (simp_all add: drop_Cons)
  then show ?thesis
    using string_loop_complete [OF body(1), of "i + 1" raw r i False] body(2) by (simp add: scan_string_bounds_def)
qed

end
