(* ===== verification/Json_Numbers.thy ===== *)
theory Json_Numbers
  imports Json_Tokens
begin

text \<open>
  The number scanner against the grammar, one lemma per part and direction. A number is scanned to its end when
  the byte after it cannot continue a number.
\<close>

definition number_stops :: "bytes \<Rightarrow> bool" where
  "number_stops r = no_more (\<lambda>b. is_json_digit b \<or> b = BYTE_DOT \<or> is_exponent_marker b) r"

lemma bytes_apart:
  "is_json_digit b \<Longrightarrow> b \<noteq> BYTE_DOT" "is_json_digit b \<Longrightarrow> \<not> is_exponent_marker b" "is_json_digit b \<Longrightarrow> \<not> is_sign b"
  "is_json_digit b \<Longrightarrow> b \<noteq> BYTE_MINUS" "is_exponent_marker b \<Longrightarrow> \<not> is_json_digit b" "is_exponent_marker b \<Longrightarrow> b \<noteq> BYTE_DOT"
  "is_digit_one_to_nine b \<Longrightarrow> is_json_digit b" "is_digit_one_to_nine b \<Longrightarrow> b \<noteq> 0x30"
  by (auto simp: is_json_digit_def is_exponent_marker_def is_sign_def is_digit_one_to_nine_def)

lemma is_json_digit_consts [simp]: "is_json_digit 0x30" "\<not> is_json_digit BYTE_DOT" "\<not> is_json_digit BYTE_MINUS"
  by (simp_all add: is_json_digit_def)

section \<open>Soundness\<close>

lemma bump_sound: "bump bound start i = Inr j \<Longrightarrow> i < length raw \<Longrightarrow> drop i raw = raw ! i # drop j raw"
  by (auto simp: bump_def drop_here split: if_splits)

lemma digits_loop_sound:
  "digits_loop raw bound start i = Inr j \<Longrightarrow> \<exists>ds. list_all is_json_digit ds \<and> drop i raw = ds @ drop j raw"
proof (induction raw bound start i rule: digits_loop.induct)
  case (1 raw bound start i)
  show ?case
  proof (cases "i < length raw \<and> is_json_digit (raw ! i)")
    case True
    then have "\<not> over_limit bound start (i + 1)" "digits_loop raw bound start (i + 1) = Inr j"
      using "1.prems" by (simp_all add: digits_loop.simps [of raw bound start i] split: if_splits)
    then obtain ds where "list_all is_json_digit ds" "drop (i + 1) raw = ds @ drop j raw" using "1.IH" True by blast
    then have "list_all is_json_digit (raw ! i # ds)" "drop i raw = (raw ! i # ds) @ drop j raw"
      using True by (simp_all add: drop_here)
    then show ?thesis by blast
  next
    case False
    then show ?thesis
      using "1.prems" by (intro exI [of _ "[]"]) (auto simp: digits_loop.simps [of raw bound start i] split: if_splits)
  qed
qed

lemma some_digits_sound:
  assumes "some_digits raw bound start i = Inr j"
  shows "\<exists>ds. json_digits ds \<and> drop i raw = ds @ drop j raw"
proof -
  have d: "i < length raw" "is_json_digit (raw ! i)" "digits_loop raw bound start i = Inr j"
    using assms by (simp_all add: some_digits_def split: if_splits)
  then have "digits_loop raw bound start (i + 1) = Inr j"
    by (simp add: digits_loop.simps [of raw bound start i] split: if_splits)
  then obtain ds where "list_all is_json_digit ds" "drop (i + 1) raw = ds @ drop j raw"
    using digits_loop_sound by blast
  then have "json_digits (raw ! i # ds)" "drop i raw = (raw ! i # ds) @ drop j raw"
    using d by (simp_all add: json_digits_def drop_here)
  then show ?thesis by blast
qed

lemma scan_integer_sound:
  assumes "scan_integer raw bound start i = Inr j"
  shows "\<exists>t. json_integer t \<and> drop i raw = t @ drop j raw"
proof -
  have i: "i < length raw" using assms by (simp add: scan_integer_def split: if_splits)
  consider "raw ! i = 0x30" "bump bound start i = Inr j"
    | "is_digit_one_to_nine (raw ! i)" "digits_loop raw bound start (i + 1) = Inr j"
    using assms by (auto simp: scan_integer_def split: if_splits)
  then show ?thesis
  proof cases
    case 1
    then show ?thesis using bump_sound [OF 1(2) i] by (intro exI [of _ "[0x30]"]) (simp add: json_integer_def)
  next
    case 2
    then obtain ds where "list_all is_json_digit ds" "drop (i + 1) raw = ds @ drop j raw"
      using digits_loop_sound by blast
    then show ?thesis
      using 2 i by (intro exI [of _ "raw ! i # ds"]) (simp add: json_integer_def drop_here)
  qed
qed

lemma scan_fraction_sound:
  assumes "scan_fraction raw bound start i = Inr j"
  shows "\<exists>t. json_fraction t \<and> drop i raw = t @ drop j raw"
proof (cases "i < length raw \<and> raw ! i = BYTE_DOT")
  case True
  then obtain a where a: "bump bound start i = Inr a" "some_digits raw bound start a = Inr j"
    using assms by (auto simp: scan_fraction_def)
  then obtain ds where "json_digits ds" "drop a raw = ds @ drop j raw" using some_digits_sound by blast
  then show ?thesis
    using True bump_sound [OF a(1), of raw] by (intro exI [of _ "BYTE_DOT # ds"]) (simp add: json_fraction_def)
next
  case False
  then have "j = i" using assms by (simp add: scan_fraction_def split: if_splits)
  then show ?thesis by (intro exI [of _ "[]"]) (simp add: json_fraction_def)
qed

lemma scan_exponent_sound:
  assumes "scan_exponent raw bound start i = Inr j"
  shows "\<exists>t. json_exponent t \<and> drop i raw = t @ drop j raw"
proof (cases "i < length raw \<and> is_exponent_marker (raw ! i)")
  case True
  then obtain a c where a: "bump bound start i = Inr a"
    "(if a < length raw \<and> is_sign (raw ! a) then bump bound start a else Inr a) = Inr c"
    "some_digits raw bound start c = Inr j"
    using assms by (auto simp: scan_exponent_def)
  obtain ds where ds: "json_digits ds" "drop c raw = ds @ drop j raw" using a(3) some_digits_sound by blast
  obtain sg where sg: "sg = [] \<or> (\<exists>s. sg = [s] \<and> is_sign s)" "drop a raw = sg @ drop c raw"
    using a(2) bump_sound [of bound start a c raw] by (fastforce split: if_splits)
  have "drop i raw = (raw ! i # sg @ ds) @ drop j raw"
    using True bump_sound [OF a(1), of raw] sg ds by simp
  then show ?thesis using True sg(1) ds(1) by (intro exI [of _ "raw ! i # sg @ ds"]) (auto simp: json_exponent_def)
next
  case False
  then have "j = i" using assms by (simp add: scan_exponent_def split: if_splits)
  then show ?thesis by (intro exI [of _ "[]"]) (simp add: json_exponent_def)
qed

lemma scan_number_sound:
  assumes "scan_number raw i bound = Inr t"
  shows "\<exists>n. json_number n \<and> drop i raw = n @ drop (token_next t) raw"
proof -
  obtain a b c d where s: "scan_sign raw bound i i = Inr a" "scan_integer raw bound i a = Inr b"
    "scan_fraction raw bound i b = Inr c" "scan_exponent raw bound i c = Inr d" "token_next t = d"
    using assms by (auto simp: scan_number_def)
  have "\<exists>sg. (sg = [] \<or> sg = [BYTE_MINUS]) \<and> drop i raw = sg @ drop a raw"
    using s(1) bump_sound [of bound i i a raw] by (auto simp: scan_sign_def split: if_splits)
  moreover note scan_integer_sound [OF s(2)] scan_fraction_sound [OF s(3)] scan_exponent_sound [OF s(4)]
  ultimately obtain sg n f e where "sg = [] \<or> sg = [BYTE_MINUS]" "drop i raw = sg @ drop a raw"
    "json_integer n" "drop a raw = n @ drop b raw" "json_fraction f" "drop b raw = f @ drop c raw"
    "json_exponent e" "drop c raw = e @ drop d raw" by blast
  then have "json_number (sg @ n @ f @ e)" "drop i raw = (sg @ n @ f @ e) @ drop d raw"
    unfolding json_number_def by (blast, simp)
  then show ?thesis using s(5) by blast
qed

section \<open>Completeness\<close>

lemma no_bound [simp]: "exceeds None n = False" "over_limit None i j = False" "bump None start i = Inr (i + 1)"
  by (simp_all add: exceeds_def over_limit_def bump_def)

lemma digits_loop_complete:
  "list_all is_json_digit ds \<Longrightarrow> drop i raw = ds @ r \<Longrightarrow> no_more is_json_digit r \<Longrightarrow> digits_loop raw None start i = Inr (i + length ds)"
proof (induction ds arbitrary: i)
  case Nil
  then show ?case
    using no_more_drop [of is_json_digit i raw] by (auto simp: digits_loop.simps [of raw None start i])
next
  case (Cons b ds)
  then have "i < length raw" "raw ! i = b" "drop (i + 1) raw = ds @ r" by (simp_all add: drop_Cons)
  then show ?case using Cons.IH [of "i + 1"] Cons.prems by (simp add: digits_loop.simps [of raw None start i])
qed

lemma some_digits_complete:
  assumes "json_digits ds" "drop i raw = ds @ r" "no_more is_json_digit r"
  shows "some_digits raw None start i = Inr (i + length ds)"
proof -
  obtain b bs where "ds = b # bs" using assms(1) by (cases ds) (auto simp: json_digits_def)
  then show ?thesis
    using assms digits_loop_complete [of ds i raw r start] by (auto simp: some_digits_def json_digits_def drop_Cons)
qed

lemma scan_integer_complete:
  assumes "json_integer t" "drop i raw = t @ r" "no_more is_json_digit r"
  shows "scan_integer raw None start i = Inr (i + length t)"
proof -
  consider "t = [0x30]" | d ds where "t = d # ds" "is_digit_one_to_nine d" "list_all is_json_digit ds"
    using assms(1) by (auto simp: json_integer_def)
  then show ?thesis
  proof cases
    case 1
    then show ?thesis using assms(2) by (simp add: scan_integer_def drop_Cons)
  next
    case 2
    then show ?thesis
      using assms digits_loop_complete [of ds "i + 1" raw r start] bytes_apart(8) [of d]
      by (auto simp: scan_integer_def drop_Cons)
  qed
qed

lemma scan_fraction_complete:
  assumes "json_fraction t" "drop i raw = t @ r" "no_more (\<lambda>b. is_json_digit b \<or> b = BYTE_DOT) r"
  shows "scan_fraction raw None start i = Inr (i + length t)"
proof (cases "t = []")
  case True
  then show ?thesis using assms no_more_drop [of "\<lambda>b. is_json_digit b \<or> b = BYTE_DOT" i raw] by (auto simp: scan_fraction_def)
next
  case False
  then obtain ds where "t = BYTE_DOT # ds" "json_digits ds" using assms(1) by (auto simp: json_fraction_def)
  moreover have "no_more is_json_digit r" using assms(3) by (cases r) auto
  ultimately show ?thesis
    using assms(2) some_digits_complete [of ds "i + 1" raw r start] by (simp add: scan_fraction_def drop_Cons)
qed

lemma scan_exponent_complete:
  assumes "json_exponent t" "drop i raw = t @ r" "number_stops r"
  shows "scan_exponent raw None start i = Inr (i + length t)"
proof (cases "t = []")
  case True
  then show ?thesis using assms(2,3) no_more_drop [of _ i raw] by (auto simp: scan_exponent_def number_stops_def)
next
  case False
  then obtain e sg ds where t: "t = e # sg @ ds" "is_exponent_marker e" "sg = [] \<or> (\<exists>s. sg = [s] \<and> is_sign s)"
    "json_digits ds" using assms(1) by (auto simp: json_exponent_def)
  have stop: "no_more is_json_digit r" using assms(3) by (cases r) (auto simp: number_stops_def)
  have e: "i < length raw" "raw ! i = e" "drop (i + 1) raw = sg @ ds @ r" using assms(2) t(1) by (simp_all add: drop_Cons)
  obtain d ds' where d: "ds = d # ds'" "is_json_digit d" using t(4) by (cases ds) (auto simp: json_digits_def)
  have "drop (i + 1 + length sg) raw = ds @ r" using drop_further [OF e(3)] .
  then have "some_digits raw None start (i + 1 + length sg) = Inr (i + 1 + length sg + length ds)"
    using some_digits_complete [OF t(4) _ stop] by blast
  moreover have "(if i + 1 < length raw \<and> is_sign (raw ! (i + 1)) then bump None start (i + 1) else Inr (i + 1))
      = (Inr (i + 1 + length sg) :: ScanError + nat)"
    using t(3) e(3) d bytes_apart(3) by (auto simp: drop_Cons)
  moreover have "scan_exponent raw None start i = propagate
      (if i + 1 < length raw \<and> is_sign (raw ! (i + 1)) then bump None start (i + 1) else Inr (i + 1))
      (some_digits raw None start)"
    using e(1,2) t(2) unfolding scan_exponent_def by (simp only: no_bound propagate_simps simp_thms if_True)
  ultimately have "scan_exponent raw None start i = Inr (i + 1 + length sg + length ds)"
    by (simp only: propagate_simps)
  then show ?thesis using t(1) by simp
qed

lemma json_fraction_digit: "json_fraction f \<Longrightarrow> no_more is_json_digit r \<Longrightarrow> no_more is_json_digit (f @ r)"
  by (auto simp: json_fraction_def)

lemma json_exponent_front:
  "json_exponent e \<Longrightarrow> no_more (\<lambda>b. is_json_digit b \<or> b = BYTE_DOT) r \<Longrightarrow> no_more (\<lambda>b. is_json_digit b \<or> b = BYTE_DOT) (e @ r)"
  by (auto simp: json_exponent_def bytes_apart)

lemma number_stops_weaker:
  assumes "number_stops r"
  shows "no_more is_json_digit r" "no_more (\<lambda>b. is_json_digit b \<or> b = BYTE_DOT) r"
  using assms by (cases r; auto simp: number_stops_def)+

lemma scan_number_complete:
  assumes "json_number n" "drop i raw = n @ r" "number_stops r"
  shows "\<exists>t. scan_number raw i None = Inr t \<and> token_next t = i + length n"
proof -
  obtain sg m f e where n: "n = sg @ m @ f @ e" "sg = [] \<or> sg = [BYTE_MINUS]" "json_integer m" "json_fraction f"
    "json_exponent e" using assms(1) by (auto simp: json_number_def)
  obtain d ds where m: "m = d # ds" "is_json_digit d" using n(3) by (auto simp: json_integer_def intro: bytes_apart)
  have 1: "drop i raw = sg @ m @ f @ e @ r" using assms(2) n(1) by simp
  have 2: "drop (i + length sg) raw = m @ f @ e @ r" using drop_further [OF 1] .
  have 3: "drop (i + length sg + length m) raw = f @ e @ r" using drop_further [OF 2] .
  have 4: "drop (i + length sg + length m + length f) raw = e @ r" using drop_further [OF 3] .
  note stops = number_stops_weaker [OF assms(3)]
  have e: "no_more (\<lambda>b. is_json_digit b \<or> b = BYTE_DOT) (e @ r)" using json_exponent_front [OF n(5) stops(2)] .
  then have "no_more is_json_digit (e @ r)" by (cases "e @ r") auto
  then have f: "no_more is_json_digit (f @ e @ r)" using json_fraction_digit [OF n(4)] by blast
  have "scan_sign raw None i i = Inr (i + length sg)"
    using n(2) 1 m bytes_apart(4) by (auto simp: scan_sign_def drop_Cons)
  moreover note scan_integer_complete [OF n(3) 2 f, of i] scan_fraction_complete [OF n(4) 3 e, of i]
    scan_exponent_complete [OF n(5) 4 assms(3), of i]
  ultimately show ?thesis using n(1) by (simp add: scan_number_def add.assoc)
qed

end
