(* ===== verification/Json_Skip.thy ===== *)
theory Json_Skip
  imports Json_Numbers
begin

text \<open>
  The loop over the stack of frames against the grammar: what it skips is what completes the stack, and the
  value skipper accepts exactly the values of the grammar.
\<close>

section \<open>What a round can see\<close>

lemma literal_sound: "matches_literal raw i l \<Longrightarrow> drop i raw = l @ drop (i + length l) raw"
  using append_take_drop_id [of "length l" "drop i raw"]
  by (auto simp: matches_literal_def add.commute [of i] split: if_splits)

lemma literal_complete:
  assumes "drop i raw = l @ r" and "l \<noteq> []"
  shows "matches_literal raw i l"
proof -
  have "length raw - i = length l + length r" by (metis assms(1) length_append length_drop)
  moreover have "0 < length l" using assms(2) by simp
  ultimately have "\<not> length raw < i + length l" by linarith
  then show ?thesis using assms(1) by (simp add: matches_literal_def)
qed

lemma literal_first: "matches_literal raw i l \<Longrightarrow> l \<noteq> [] \<Longrightarrow> raw ! i = hd l"
  using literal_sound [of raw i l] by (cases l) (auto simp: drop_Cons)

lemma scan_string_token:
  "scan_string_bounds raw i bound = Inr b \<Longrightarrow> \<exists>s. json_string s \<and> drop i raw = s @ drop (bounds_next b) raw"
  using scan_string_sound [of raw i bound b] unfolding json_string_def by blast

lemmas literal_defs = lit_true_def lit_false_def lit_null_def

lemma begin_sound:
  assumes "begin_skipped_value raw at stack bound = Inr (n, stack')"
    and "drop n raw = t' @ r" and "stack_text stack' t'"
  shows "\<exists>v t. drop at raw = v @ t @ r \<and> json_value v \<and> stack_text stack t"
proof -
  have at: "at < length raw" using assms(1) by (simp add: begin_skipped_value_def split: if_splits)
  consider (string) b where "scan_string_bounds raw at None = Inr b" "n = bounds_next b" "stack' = stack"
    | (object) "raw ! at = BYTE_OPEN_BRACE" "n = at + 1" "stack' = Object_frame ExpectKeyOrEnd # stack"
    | (array) "raw ! at = BYTE_OPEN_BRACKET" "n = at + 1" "stack' = Array_frame ExpectValueOrEnd # stack"
    | (number) t where "scan_number raw at bound = Inr t" "n = token_next t" "stack' = stack"
    | (literal) l where "matches_literal raw at l" "l \<in> {lit_true, lit_false, lit_null}" "n = at + length l" "stack' = stack"
    using assms(1) by (auto simp: begin_skipped_value_def literal_defs split: if_splits)
  then show ?thesis
  proof cases
    case string
    then show ?thesis using scan_string_token [OF string(1)] string_value assms(2,3) by metis
  next
    case object
    then obtain t1 t2 where t: "frame_text (Object_frame ExpectKeyOrEnd) t1" "stack_text stack t2" "t' = t1 @ t2"
      using assms(3) by auto
    have "drop at raw = (BYTE_OPEN_BRACE # t1) @ t2 @ r" using at object assms(2) t(3) by (simp add: drop_here)
    then show ?thesis using object_is_value [OF t(1)] t(2) by blast
  next
    case array
    then obtain t1 t2 where t: "frame_text (Array_frame ExpectValueOrEnd) t1" "stack_text stack t2" "t' = t1 @ t2"
      using assms(3) by auto
    have "drop at raw = (BYTE_OPEN_BRACKET # t1) @ t2 @ r" using at array assms(2) t(3) by (simp add: drop_here)
    then show ?thesis using array_is_value [OF t(1)] t(2) by blast
  next
    case number
    then show ?thesis using scan_number_sound [OF number(1)] assms(2,3) number_value by metis
  next
    case literal
    then have "json_value l" using true_value false_value null_value by auto
    then show ?thesis using literal_sound [OF literal(1)] literal(3,4) assms(2,3) by metis
  qed
qed

lemma round_sound:
  assumes "skip_round raw bound frame rest at = Inr (n, stack')"
    and "drop n raw = t' @ r" and "stack_text stack' t'"
  shows "\<exists>t. drop at raw = t @ r \<and> stack_text (frame # rest) t"
proof -
  have at: "at < length raw" using assms(1) by (simp add: skip_round_def split: if_splits)
  note here = drop_here [OF at]
  have close: "\<exists>t. drop at raw = t @ r \<and> stack_text (frame # rest) t"
    if "frame_text frame [raw ! at]" "n = at + 1" "stack' = rest"
    using that here assms(2,3) by (intro exI [of _ "raw ! at # t'"]) (auto intro: exI [of _ "[raw ! at]"])
  have advance: "\<exists>t. drop at raw = t @ r \<and> stack_text (frame # rest) t"
    if "n = at + 1" "stack' = f # rest" "\<And>t. frame_text f t \<Longrightarrow> frame_text frame (raw ! at # t)" for f
    using that here assms(2,3) by (intro exI [of _ "raw ! at # t'"]) (force intro: exI [of _ "raw ! at # _"])
  have string: "\<exists>t. drop at raw = t @ r \<and> stack_text (frame # rest) t"
    if b: "scan_string_bounds raw at None = Inr b" "n = bounds_next b" "stack' = Object_frame ExpectColon # rest"
      and front: "\<And>k t. json_string k \<Longrightarrow> colon_rest t \<Longrightarrow> frame_text frame (k @ t)" for b
  proof -
    obtain k where k: "json_string k" "drop at raw = k @ drop n raw"
      using scan_string_token [OF b(1)] b(2) by blast
    obtain t1 t2 where t: "colon_rest t1" "stack_text rest t2" "t' = t1 @ t2" using assms(3) b(3) by auto
    then have "stack_text (frame # rest) ((k @ t1) @ t2)" using front [OF k(1) t(1)] by fastforce
    then show ?thesis using k(2) assms(2) t(3) by auto
  qed
  have "value": "\<exists>t. drop at raw = t @ r \<and> stack_text (frame # rest) t"
    if b: "begin_skipped_value raw at (f # rest) bound = Inr (n, stack')"
      and front: "\<And>v t. json_value v \<Longrightarrow> frame_text f t \<Longrightarrow> frame_text frame (v @ t)" for f
  proof -
    obtain v t where v: "drop at raw = v @ t @ r" "json_value v" "stack_text (f # rest) t"
      using begin_sound [OF b assms(2,3)] by blast
    then obtain t1 t2 where "frame_text f t1" "stack_text rest t2" "t = t1 @ t2" by auto
    then have "stack_text (frame # rest) ((v @ t1) @ t2)" using front [OF v(2)] by fastforce
    then show ?thesis using v(1) \<open>t = t1 @ t2\<close> by auto
  qed
  show ?thesis
    using assms(1) at text_ends text_commas text_fronts close advance string
      "value" [of "Array_frame ExpectCommaOrEnd"] "value" [of "Object_frame ExpectCommaOrBrace"]
    by (auto simp: skip_round_def split: ContainerFrame.splits ArrayState.splits ObjectState.splits if_splits)
qed

lemma skip_loop_sound:
  "skip_loop raw bound stack i = Inr j \<Longrightarrow> \<exists>t. drop i raw = t @ drop j raw \<and> stack_text stack t"
proof (induction raw bound stack i rule: skip_loop.induct)
  case (2 raw bound frame rest i)
  then obtain n stack where step: "skip_round raw bound frame rest (skip_whitespace raw i) = Inr (n, stack)"
      and go: "skip_loop raw bound stack n = Inr j"
    by (auto split: sum.splits)
  obtain t' where "drop n raw = t' @ drop j raw" "stack_text stack t'"
    using "2.IH" [OF step refl go] by blast
  then obtain t where t: "drop (skip_whitespace raw i) raw = t @ drop j raw" "stack_text (frame # rest) t"
    using round_sound [OF step] by blast
  obtain w where "blank w" "drop i raw = w @ drop (skip_whitespace raw i) raw"
    using skip_whitespace_sound by blast
  then show ?case using t stack_text_blank by (metis append.assoc)
qed simp

section \<open>What completes a stack is skipped\<close>

lemma string_front: "json_string s \<Longrightarrow> \<exists>s'. s = BYTE_QUOTE # s'"
  by (auto simp: json_string_def)

lemma number_front: "json_number n \<Longrightarrow> \<exists>b n'. n = b # n' \<and> (b = BYTE_MINUS \<or> is_json_digit b)"
  by (auto simp: json_number_def json_integer_def bytes_apart)

lemma value_front:
  assumes "json_value v"
  shows "\<exists>b v'. v = b # v' \<and> \<not> is_json_blank b \<and> b \<noteq> BYTE_CLOSE_BRACKET \<and> b \<noteq> BYTE_CLOSE_BRACE"
  using assms
proof (cases rule: json_value.cases)
  case string_value
  then show ?thesis using string_front by (fastforce simp: is_json_blank_def)
next
  case number_value
  then show ?thesis using number_front by (fastforce simp: is_json_blank_def is_json_digit_def)
qed (simp_all add: literal_defs is_json_blank_def)

lemma skip_to:
  assumes "blank w" "drop i raw = w @ b # r" "\<not> is_json_blank b"
  shows "skip_whitespace raw i = i + length w" "i + length w < length raw" "raw ! (i + length w) = b"
    "drop (i + length w) raw = b # r" "drop (i + length w + 1) raw = r"
proof -
  have *: "drop (i + length w) raw = b # r" by (rule drop_further [OF assms(2)])
  show "skip_whitespace raw i = i + length w" using skip_whitespace_complete [OF assms(1,2)] assms(3) by simp
  show "drop (i + length w) raw = b # r" by (rule *)
  show "i + length w < length raw" "raw ! (i + length w) = b" "drop (i + length w + 1) raw = r"
    using * by (simp_all add: drop_Cons)
qed

lemma stack_push: "frame_text f t1 \<Longrightarrow> stack_text fs t2 \<Longrightarrow> stack_text (f # fs) (t1 @ t2)"
  by auto

lemma begin_container:
  assumes "begin_skipped_value raw at stack None = Inr (at + 1, f # stack)" "frame_text f t1"
    and "drop at raw = (b # t1) @ t @ r" "stack_text stack t"
  shows "\<exists>n stack' t'. begin_skipped_value raw at stack None = Inr (n, stack') \<and> drop n raw = t' @ r
    \<and> stack_text stack' t' \<and> n + length t' = at + length (b # t1) + length t"
  using assms stack_push [OF assms(2,4)]
  by (intro exI [of _ "at + 1"] exI [of _ "f # stack"] exI [of _ "t1 @ t"]) (simp add: drop_Cons)

lemma begin_complete:
  assumes "drop at raw = v @ t @ r" "json_value v" "stack_text stack t"
    and "json_number v \<Longrightarrow> number_stops (t @ r)"
  shows "\<exists>n stack' t'. begin_skipped_value raw at stack None = Inr (n, stack') \<and> drop n raw = t' @ r
    \<and> stack_text stack' t' \<and> n + length t' = at + length v + length t"
  using assms(2)
proof (cases rule: json_value.cases)
  case string_value
  then obtain b where "scan_string_bounds raw at None = Inr b" "bounds_next b = at + length v"
    using scan_string_complete [OF assms(1)] by blast
  moreover have "at < length raw" "raw ! at = BYTE_QUOTE"
    using string_front [OF string_value] assms(1) by (auto simp: drop_Cons)
  ultimately show ?thesis
    using drop_further [OF assms(1)] assms(3) by (auto simp: begin_skipped_value_def)
next
  case number_value
  then obtain k where k: "scan_number raw at None = Inr k" "token_next k = at + length v"
    using scan_number_complete [OF _ assms(1)] assms(4) by blast
  obtain b v' where "v = b # v'" "b = BYTE_MINUS \<or> is_json_digit b" using number_front [OF number_value] by blast
  moreover from this have "at < length raw" "raw ! at = b" using assms(1) by (simp_all add: drop_Cons)
  moreover have "b \<noteq> BYTE_QUOTE" "b \<noteq> BYTE_OPEN_BRACE" "b \<noteq> BYTE_OPEN_BRACKET"
    using calculation(2) by (auto simp: is_json_digit_def)
  ultimately show ?thesis
    using k drop_further [OF assms(1)] assms(3) by (auto simp: begin_skipped_value_def)
next
  case true_value
  then have "begin_skipped_value raw at stack None = Inr (at + length v, stack)"
    using assms(1) literal_complete [of at raw lit_true]
    by (auto simp: begin_skipped_value_def literal_defs drop_Cons is_json_digit_def)
  then show ?thesis using drop_further [OF assms(1)] assms(3) by auto
next
  case false_value
  then have "matches_literal raw at lit_false"
    using assms(1) literal_complete [of at raw lit_false] by (simp add: literal_defs)
  then have "begin_skipped_value raw at stack None = Inr (at + length v, stack)"
    using false_value assms(1) literal_first [of raw at lit_true]
    by (auto simp: begin_skipped_value_def literal_defs drop_Cons is_json_digit_def)
  then show ?thesis using drop_further [OF assms(1)] assms(3) by auto
next
  case null_value
  then have "matches_literal raw at lit_null"
    using assms(1) literal_complete [of at raw lit_null] by (simp add: literal_defs)
  then have "begin_skipped_value raw at stack None = Inr (at + length v, stack)"
    using null_value assms(1) literal_first [of raw at lit_true] literal_first [of raw at lit_false]
    by (auto simp: begin_skipped_value_def literal_defs drop_Cons is_json_digit_def)
  then show ?thesis using drop_further [OF assms(1)] assms(3) by auto
next
  case (empty_array w)
  then have "frame_text (Array_frame ExpectValueOrEnd) (w @ [BYTE_CLOSE_BRACKET])" by auto
  moreover have "begin_skipped_value raw at stack None = Inr (at + 1, Array_frame ExpectValueOrEnd # stack)"
    using empty_array(1) assms(1) by (simp add: begin_skipped_value_def drop_Cons)
  ultimately show ?thesis
    using begin_container [of raw at stack "Array_frame ExpectValueOrEnd" "w @ [BYTE_CLOSE_BRACKET]" BYTE_OPEN_BRACKET t r] empty_array(1) assms(1,3) by simp
next
  case (array_value es)
  then have "frame_text (Array_frame ExpectValueOrEnd) (es @ [BYTE_CLOSE_BRACKET])" by (auto simp: elements_rest_def)
  moreover have "begin_skipped_value raw at stack None = Inr (at + 1, Array_frame ExpectValueOrEnd # stack)"
    using array_value(1) assms(1) by (simp add: begin_skipped_value_def drop_Cons)
  ultimately show ?thesis
    using begin_container [of raw at stack "Array_frame ExpectValueOrEnd" "es @ [BYTE_CLOSE_BRACKET]" BYTE_OPEN_BRACKET t r] array_value(1) assms(1,3) by simp
next
  case (empty_object w)
  then have "frame_text (Object_frame ExpectKeyOrEnd) (w @ [BYTE_CLOSE_BRACE])" by auto
  moreover have "begin_skipped_value raw at stack None = Inr (at + 1, Object_frame ExpectKeyOrEnd # stack)"
    using empty_object(1) assms(1) by (simp add: begin_skipped_value_def drop_Cons)
  ultimately show ?thesis
    using begin_container [of raw at stack "Object_frame ExpectKeyOrEnd" "w @ [BYTE_CLOSE_BRACE]" BYTE_OPEN_BRACE t r] empty_object(1) assms(1,3) by simp
next
  case (object_value ms)
  then have "frame_text (Object_frame ExpectKeyOrEnd) (ms @ [BYTE_CLOSE_BRACE])" by (auto simp: members_rest_def)
  moreover have "begin_skipped_value raw at stack None = Inr (at + 1, Object_frame ExpectKeyOrEnd # stack)"
    using object_value(1) assms(1) by (simp add: begin_skipped_value_def drop_Cons)
  ultimately show ?thesis
    using begin_container [of raw at stack "Object_frame ExpectKeyOrEnd" "ms @ [BYTE_CLOSE_BRACE]" BYTE_OPEN_BRACE t r] object_value(1) assms(1,3) by simp
qed

lemma array_rest_stops: "array_rest t \<Longrightarrow> number_stops (t @ r)"
  by (auto simp: array_rest_def number_stops_def is_json_blank_def is_json_digit_def is_exponent_marker_def no_more_def
      blank_def split: list.splits) (auto simp: is_json_blank_def append_eq_Cons_conv Cons_eq_append_conv)

lemma object_rest_stops: "object_rest t \<Longrightarrow> number_stops (t @ r)"
  by (auto simp: object_rest_def number_stops_def is_json_blank_def is_json_digit_def is_exponent_marker_def no_more_def
      blank_def split: list.splits) (auto simp: is_json_blank_def append_eq_Cons_conv Cons_eq_append_conv)

text \<open>A round over the front of what completes the stack leaves what completes the stack after it.\<close>

definition advances :: "bytes \<Rightarrow> ContainerFrame \<Rightarrow> ContainerFrame list \<Rightarrow> nat \<Rightarrow> nat \<Rightarrow> bytes \<Rightarrow> bool" where
  "advances raw frame rest i m r = (\<exists>n stack' t'. skip_round raw None frame rest (skip_whitespace raw i) = Inr (n, stack')
     \<and> drop n raw = t' @ r \<and> stack_text stack' t' \<and> n + length t' = i + m)"

lemma advance_token:
  assumes "blank w" "\<not> is_json_blank b" "drop i raw = (w @ b # t') @ r"
    and "\<And>at. at < length raw \<Longrightarrow> raw ! at = b \<Longrightarrow> skip_round raw None frame rest at = Inr (at + 1, stack')"
    and "stack_text stack' t'"
  shows "advances raw frame rest i (length w + 1 + length t') r"
proof -
  have "drop i raw = w @ b # t' @ r" using assms(3) by simp
  note at = skip_to [OF assms(1) this assms(2)]
  then show ?thesis
    using assms(4) [OF at(2,3)] assms(5) unfolding advances_def
    by (intro exI [of _ "i + length w + 1"] exI [of _ stack'] exI [of _ t']) simp
qed

lemma advance_value:
  assumes "blank u" "json_value v" "frame_text f t1" "stack_text rest t2" "drop i raw = (u @ v @ t1 @ t2) @ r"
    and "\<And>at. at < length raw \<Longrightarrow> raw ! at \<noteq> BYTE_CLOSE_BRACKET
      \<Longrightarrow> skip_round raw None frame rest at = begin_skipped_value raw at (f # rest) None"
    and "number_stops (t1 @ t2 @ r)"
  shows "advances raw frame rest i (length u + length v + length t1 + length t2) r"
proof -
  obtain b v' where v: "v = b # v'" "\<not> is_json_blank b" "b \<noteq> BYTE_CLOSE_BRACKET"
    using value_front [OF assms(2)] by blast
  have "drop i raw = u @ b # v' @ t1 @ t2 @ r" using assms(5) v(1) by simp
  note at = skip_to [OF assms(1) this v(2)]
  have "drop (i + length u) raw = v @ (t1 @ t2) @ r" using at(4) v(1) by simp
  from begin_complete [OF this assms(2) stack_push [OF assms(3,4)]] assms(7)
  show ?thesis
    using assms(6) [OF at(2)] at(1,3) v(3) unfolding advances_def by (auto simp: add.assoc)
qed

lemma advance_key:
  assumes "blank u" "json_string k" "colon_rest t1" "stack_text rest t2" "drop i raw = (u @ k @ t1 @ t2) @ r"
    and "\<And>at. at < length raw \<Longrightarrow> raw ! at = BYTE_QUOTE \<Longrightarrow> skip_round raw None frame rest at =
      propagate (scan_string_bounds raw at None) (\<lambda>b. Inr (bounds_next b, Object_frame ExpectColon # rest))"
  shows "advances raw frame rest i (length u + length k + length t1 + length t2) r"
proof -
  obtain k' where k: "k = BYTE_QUOTE # k'" using string_front [OF assms(2)] by blast
  have "drop i raw = u @ BYTE_QUOTE # k' @ t1 @ t2 @ r" using assms(5) k by simp
  note at = skip_to [OF assms(1) this]
  have w: "\<not> is_json_blank BYTE_QUOTE" by (simp add: is_json_blank_def)
  have *: "drop (i + length u) raw = k @ t1 @ t2 @ r" using at(4) [OF w] k by simp
  obtain b where b: "scan_string_bounds raw (i + length u) None = Inr b" "bounds_next b = i + length u + length k"
    using scan_string_complete [OF * assms(2)] by blast
  have "drop (i + length u + length k) raw = (t1 @ t2) @ r" using drop_further [OF *] by simp
  moreover have "stack_text (Object_frame ExpectColon # rest) (t1 @ t2)"
    using stack_push [of "Object_frame ExpectColon"] assms(3,4) by simp
  ultimately show ?thesis
    using assms(6) [OF at(2) [OF w] at(3) [OF w]] at(1) [OF w] b unfolding advances_def
    by (intro exI [of _ "i + length u + length k"] exI [of _ "Object_frame ExpectColon # rest"] exI [of _ "t1 @ t2"]) simp
qed

lemma not_blank [simp]:
  "\<not> is_json_blank BYTE_COMMA" "\<not> is_json_blank BYTE_COLON" "\<not> is_json_blank BYTE_CLOSE_BRACKET"
  "\<not> is_json_blank BYTE_CLOSE_BRACE"
  by (simp_all add: is_json_blank_def)

lemma advance_array_rest:
  assumes "array_rest t1" "stack_text rest t2" "drop i raw = (t1 @ t2) @ r"
  shows "advances raw (Array_frame ExpectCommaOrEnd) rest i (length t1 + length t2) r"
proof -
  obtain w where w: "blank w" "t1 = w @ [BYTE_CLOSE_BRACKET]
      \<or> (\<exists>es. json_elements es \<and> t1 = w @ BYTE_COMMA # es @ [BYTE_CLOSE_BRACKET])"
    using assms(1) by (auto simp: array_rest_def)
  from w(2) show ?thesis
  proof
    assume "t1 = w @ [BYTE_CLOSE_BRACKET]"
    then show ?thesis
      using advance_token [OF w(1), of BYTE_CLOSE_BRACKET i raw t2 r "Array_frame ExpectCommaOrEnd" rest rest] assms(2,3) by (simp add: skip_round_def)
  next
    assume "\<exists>es. json_elements es \<and> t1 = w @ BYTE_COMMA # es @ [BYTE_CLOSE_BRACKET]"
    then obtain es where es: "json_elements es" "t1 = w @ BYTE_COMMA # es @ [BYTE_CLOSE_BRACKET]" by blast
    then have "frame_text (Array_frame ExpectValue) (es @ [BYTE_CLOSE_BRACKET])" by (auto simp: elements_rest_def)
    from stack_push [OF this assms(2)] show ?thesis
      using advance_token [OF w(1), of BYTE_COMMA i raw "(es @ [BYTE_CLOSE_BRACKET]) @ t2" r "Array_frame ExpectCommaOrEnd" rest "Array_frame ExpectValue # rest"]
        assms(3) es(2) by (simp add: skip_round_def add.assoc)
  qed
qed

lemma advance_object_rest:
  assumes "object_rest t1" "stack_text rest t2" "drop i raw = (t1 @ t2) @ r"
  shows "advances raw (Object_frame ExpectCommaOrBrace) rest i (length t1 + length t2) r"
proof -
  obtain w where w: "blank w" "t1 = w @ [BYTE_CLOSE_BRACE]
      \<or> (\<exists>ms. json_members ms \<and> t1 = w @ BYTE_COMMA # ms @ [BYTE_CLOSE_BRACE])"
    using assms(1) by (auto simp: object_rest_def)
  from w(2) show ?thesis
  proof
    assume "t1 = w @ [BYTE_CLOSE_BRACE]"
    then show ?thesis
      using advance_token [OF w(1), of BYTE_CLOSE_BRACE i raw t2 r "Object_frame ExpectCommaOrBrace" rest rest] assms(2,3) by (simp add: skip_round_def)
  next
    assume "\<exists>ms. json_members ms \<and> t1 = w @ BYTE_COMMA # ms @ [BYTE_CLOSE_BRACE]"
    then obtain ms where ms: "json_members ms" "t1 = w @ BYTE_COMMA # ms @ [BYTE_CLOSE_BRACE]" by blast
    then have "frame_text (Object_frame ExpectKey) (ms @ [BYTE_CLOSE_BRACE])" by (auto simp: members_rest_def)
    from stack_push [OF this assms(2)] show ?thesis
      using advance_token [OF w(1), of BYTE_COMMA i raw "(ms @ [BYTE_CLOSE_BRACE]) @ t2" r "Object_frame ExpectCommaOrBrace" rest "Object_frame ExpectKey # rest"]
        assms(3) ms(2) by (simp add: skip_round_def add.assoc)
  qed
qed

lemma advance_elements:
  assumes "elements_rest t1" "stack_text rest t2" "drop i raw = (t1 @ t2) @ r"
    and "\<And>at. at < length raw \<Longrightarrow> raw ! at \<noteq> BYTE_CLOSE_BRACKET \<Longrightarrow> skip_round raw None frame rest at
      = begin_skipped_value raw at (Array_frame ExpectCommaOrEnd # rest) None"
  shows "advances raw frame rest i (length t1 + length t2) r"
proof -
  obtain u v t where t: "blank u" "json_value v" "array_rest t" "t1 = u @ v @ t"
    using assms(1) unfolding element_step by blast
  show ?thesis
    using advance_value [OF t(1,2), of "Array_frame ExpectCommaOrEnd" t rest t2 i raw r frame]
      array_rest_stops [OF t(3)] assms(2-4) t(3,4) by (simp add: add.assoc)
qed

lemma advance_member_value:
  assumes "value_rest t1" "stack_text rest t2" "drop i raw = (t1 @ t2) @ r"
  shows "advances raw (Object_frame ExpectMember) rest i (length t1 + length t2) r"
proof -
  obtain u v t where t: "blank u" "json_value v" "object_rest t" "t1 = u @ v @ t"
    using assms(1) unfolding value_rest_def by blast
  show ?thesis
    using advance_value [OF t(1,2), of "Object_frame ExpectCommaOrBrace" t rest t2 i raw r "Object_frame ExpectMember"]
      object_rest_stops [OF t(3)] assms(2,3) t(3,4) by (simp add: add.assoc skip_round_def)
qed

lemma advance_members:
  assumes "members_rest t1" "stack_text rest t2" "drop i raw = (t1 @ t2) @ r"
    and "\<And>at. at < length raw \<Longrightarrow> raw ! at = BYTE_QUOTE \<Longrightarrow> skip_round raw None frame rest at =
      propagate (scan_string_bounds raw at None) (\<lambda>b. Inr (bounds_next b, Object_frame ExpectColon # rest))"
  shows "advances raw frame rest i (length t1 + length t2) r"
proof -
  obtain u k t where t: "blank u" "json_string k" "colon_rest t" "t1 = u @ k @ t"
    using assms(1) unfolding member_step by blast
  show ?thesis
    using advance_key [OF t(1-3) assms(2), of i raw r frame] assms(3,4) t(4) by (simp add: add.assoc)
qed

lemma round_complete:
  assumes "drop i raw = t @ r" "stack_text (frame # rest) t"
  shows "advances raw frame rest i (length t) r"
proof -
  obtain t1 t2 where t: "frame_text frame t1" "stack_text rest t2" "t = t1 @ t2" using assms(2) by auto
  have d: "drop i raw = (t1 @ t2) @ r" using assms(1) t(3) by simp
  note token = advance_token [where raw = raw and i = i and r = r and frame = frame and rest = rest]
  show ?thesis
  proof (cases "(frame, t1)" rule: frame_text.cases)
    case (1 t')
    then show ?thesis using advance_array_rest [OF _ t(2) d] t by simp
  next
    case (2 t')
    then show ?thesis using advance_elements [OF _ t(2) d, of frame] t by (simp add: skip_round_def)
  next
    case (3 t')
    then consider w where "blank w" "t1 = w @ [BYTE_CLOSE_BRACKET]" | "elements_rest t1" using t(1) by auto
    then show ?thesis
    proof cases
      case 1
      then show ?thesis
        using token [OF 1(1), of BYTE_CLOSE_BRACKET t2 rest] d t 3 by (simp add: skip_round_def)
    next
      case 2
      then show ?thesis using advance_elements [OF _ t(2) d, of frame] t 3 by (simp add: skip_round_def)
    qed
  next
    case (4 t')
    then show ?thesis using advance_object_rest [OF _ t(2) d] t by simp
  next
    case (5 t')
    then show ?thesis using advance_member_value [OF _ t(2) d] t by simp
  next
    case (6 t')
    then obtain w m where w: "blank w" "value_rest m" "t1 = w @ BYTE_COLON # m" using t(1) by (auto simp: colon_rest_def)
    show ?thesis
      using token [OF w(1), of BYTE_COLON "m @ t2" "Object_frame ExpectMember # rest"] d w t(2,3) 6
        stack_push [of "Object_frame ExpectMember" m rest t2]
      by (simp add: skip_round_def del: stack_text.simps)
  next
    case (7 t')
    then show ?thesis using advance_members [OF _ t(2) d, of frame] t by (simp add: skip_round_def)
  next
    case (8 t')
    then consider w where "blank w" "t1 = w @ [BYTE_CLOSE_BRACE]" | "members_rest t1" using t(1) by auto
    then show ?thesis
    proof cases
      case 1
      then show ?thesis
        using token [OF 1(1), of BYTE_CLOSE_BRACE t2 rest] d t 8 by (simp add: skip_round_def)
    next
      case 2
      then show ?thesis using advance_members [OF _ t(2) d, of frame] t 8 by (simp add: skip_round_def)
    qed
  qed
qed

lemma skip_loop_complete:
  "drop i raw = t @ r \<Longrightarrow> stack_text stack t \<Longrightarrow> skip_loop raw None stack i = Inr (i + length t)"
proof (induction "length raw - i" arbitrary: i stack t rule: less_induct)
  case less
  show ?case
  proof (cases stack)
    case Nil
    then show ?thesis using less.prems by simp
  next
    case (Cons frame rest)
    then obtain n stack' t' where step: "skip_round raw None frame rest (skip_whitespace raw i) = Inr (n, stack')"
      and t': "drop n raw = t' @ r" "stack_text stack' t'" "n + length t' = i + length t"
      using round_complete [of i raw t r frame rest] less.prems unfolding advances_def by blast
    have "length raw - n < length raw - i"
      using skip_round_forward [OF step] skip_whitespace_ge [of i raw] by auto
    then have "skip_loop raw None stack' n = Inr (n + length t')" using less.hyps t' by blast
    then show ?thesis using Cons step t'(3) by simp
  qed
qed

section \<open>Positions\<close>

text \<open>No scan runs past the end, so a position is told by what is left.\<close>

lemma string_loop_within: "string_loop raw start bound esc i = Inr b \<Longrightarrow> bounds_next b \<le> length raw"
proof (induction raw start bound esc i rule: string_loop.induct)
  case (1 raw start bound esc i)
  then show ?case by (auto simp: string_loop.simps [of raw start bound esc i] split: if_splits)
qed

lemma scan_string_within: "scan_string_bounds raw i bound = Inr b \<Longrightarrow> bounds_next b \<le> length raw"
  by (auto simp: scan_string_bounds_def split: if_splits dest: string_loop_within)

lemma digits_loop_within: "digits_loop raw bound start i = Inr j \<Longrightarrow> i \<le> length raw \<Longrightarrow> j \<le> length raw"
proof (induction raw bound start i rule: digits_loop.induct)
  case (1 raw bound start i)
  then show ?case by (auto simp: digits_loop.simps [of raw bound start i] split: if_splits)
qed

lemma bump_within: "bump bound start i = Inr j \<Longrightarrow> i < length raw \<Longrightarrow> j \<le> length raw"
  by (auto dest: bump_forward)

lemma some_digits_within: "some_digits raw bound start i = Inr j \<Longrightarrow> j \<le> length raw"
  by (auto simp: some_digits_def split: if_splits dest: digits_loop_within)

lemma scan_number_within:
  assumes "scan_number raw i bound = Inr t"
  shows "token_next t \<le> length raw"
proof -
  obtain a b c d where s: "scan_integer raw bound i a = Inr b"
    "scan_fraction raw bound i b = Inr c" "scan_exponent raw bound i c = Inr d" "token_next t = d"
    using assms by (auto simp: scan_number_def)
  have "b \<le> length raw"
    using s(1) by (auto simp: scan_integer_def split: if_splits dest: bump_forward digits_loop_within)
  then have "c \<le> length raw"
    using s(2) by (auto simp: scan_fraction_def split: if_splits dest: some_digits_within)
  then show ?thesis
    using s(3,4) by (auto simp: scan_exponent_def split: if_splits dest: some_digits_within)
qed

lemma literal_within: "matches_literal raw i l \<Longrightarrow> i + length l \<le> length raw"
  by (simp add: matches_literal_def split: if_splits)

lemma begin_within: "begin_skipped_value raw at stack bound = Inr (j, stack') \<Longrightarrow> j \<le> length raw"
  by (auto simp: begin_skipped_value_def literal_defs split: if_splits
      dest: scan_string_within scan_number_within literal_within)

lemma round_within: "skip_round raw bound frame rest at = Inr (j, stack) \<Longrightarrow> j \<le> length raw"
  by (auto simp: skip_round_def split: if_splits ContainerFrame.splits ArrayState.splits ObjectState.splits
      dest: begin_within scan_string_within)

lemma skip_loop_within: "skip_loop raw bound stack i = Inr j \<Longrightarrow> i \<le> length raw \<Longrightarrow> j \<le> length raw"
proof (induction raw bound stack i rule: skip_loop.induct)
  case (2 raw bound frame rest i)
  then show ?case by (auto split: sum.splits dest: round_within)
qed simp

lemma skip_value_within:
  assumes "skip_value raw i bound = Inr j"
  shows "j \<le> length raw"
proof -
  obtain n stack where "begin_skipped_value raw (skip_whitespace raw i) [] bound = Inr (n, stack)"
    and go: "skip_loop raw bound stack n = Inr j"
    using assms by (auto simp: skip_value_def Let_def split: if_splits sum.splits)
  then show ?thesis using skip_loop_within [OF go] begin_within by blast
qed

lemma span_length: "drop i raw = t @ drop j raw \<Longrightarrow> i \<le> j \<Longrightarrow> j \<le> length raw \<Longrightarrow> j = i + length t"
proof -
  assume d: "drop i raw = t @ drop j raw" "i \<le> j" "j \<le> length raw"
  have "length raw - i = length t + (length raw - j)" by (metis d(1) length_append length_drop)
  then show ?thesis using d(2,3) by linarith
qed

section \<open>The value skipper\<close>

lemma skip_value_sound:
  assumes "skip_value raw start bound = Inr j"
  shows "\<exists>w v. blank w \<and> json_value v \<and> drop start raw = w @ v @ drop j raw \<and> j = start + length w + length v"
proof -
  let ?at = "skip_whitespace raw start"
  obtain n stack where step: "begin_skipped_value raw ?at [] bound = Inr (n, stack)"
    and go: "skip_loop raw bound stack n = Inr j"
    using assms by (auto simp: skip_value_def Let_def split: if_splits sum.splits)
  obtain t' where "drop n raw = t' @ drop j raw" "stack_text stack t'" using skip_loop_sound [OF go] by blast
  then obtain v where v: "drop ?at raw = v @ drop j raw" "json_value v" using begin_sound [OF step] by auto
  obtain w where w: "blank w" "drop start raw = w @ drop ?at raw" using skip_whitespace_sound by blast
  have "drop start raw = (w @ v) @ drop j raw" using v w by simp
  moreover from this have "j = start + length (w @ v)"
    using span_length skip_value_forward [OF assms] skip_value_within [OF assms] less_imp_le by blast
  ultimately show ?thesis using v(2) w(1) by auto
qed

lemma skip_value_complete:
  assumes "drop start raw = w @ v @ r" "blank w" "json_value v" "json_number v \<Longrightarrow> number_stops r"
  shows "skip_value raw start None = Inr (start + length w + length v)"
proof -
  obtain b v' where v: "v = b # v'" "\<not> is_json_blank b" using value_front [OF assms(3)] by blast
  have "drop start raw = w @ b # v' @ r" using assms(1) v(1) by simp
  note at = skip_to [OF assms(2) this v(2)]
  have "drop (start + length w) raw = v @ [] @ r" using at(4) v(1) by simp
  then obtain n stack t where step: "begin_skipped_value raw (start + length w) [] None = Inr (n, stack)"
    "drop n raw = t @ r" "stack_text stack t" "n + length t = start + length w + length v"
    using begin_complete [of "start + length w" raw v "[]" r "[]"] assms(3,4) by auto
  then have "skip_loop raw None stack n = Inr (start + length w + length v)"
    using skip_loop_complete by metis
  then show ?thesis using step(1) at(1,2) by (cases "stack = []") (auto simp: skip_value_def Let_def)
qed

end
