(* ===== verification/Json_Object.thy ===== *)
theory Json_Object
  imports Json_Skip
begin

text \<open>
  What the decoded strings and the recorded members of an object are: the content of a string denotes a text,
  and the members of an object are its keys with the spans of their values.
\<close>

section \<open>What a string denotes\<close>

text \<open>An escape of a surrogate, paired or not, stands for the replacement character, as in the code.\<close>

inductive string_denotes :: "bytes \<Rightarrow> utext \<Rightarrow> bool" where
  denotes_nothing: "string_denotes [] []"
| denotes_plain: "decode_char bs = Some (c, rest) \<Longrightarrow> BYTE_SPACE \<le> c \<Longrightarrow> c \<noteq> BYTE_BACKSLASH \<Longrightarrow> string_denotes rest t
    \<Longrightarrow> string_denotes bs (c # t)"
| denotes_simple: "simple_escape_char e = Some c \<Longrightarrow> string_denotes bs t
    \<Longrightarrow> string_denotes (BYTE_BACKSLASH # e # bs) (c # t)"
| denotes_unicode: "hex_unit [p, q, r, s] = Some u \<Longrightarrow> string_denotes bs t
    \<Longrightarrow> string_denotes (BYTE_BACKSLASH # 0x75 # p # q # r # s # bs) (char_or_replacement u # t)"

lemma decode_char_front:
  assumes "decode_char (b # bs) = Some (c, rest)"
  shows "b < 0x80 \<Longrightarrow> c = b" and "0x80 \<le> b \<Longrightarrow> 0x80 \<le> c"
    and "rest = drop (utf8_char_width b) (b # bs)" and "utf8_char_width b \<le> length (b # bs)"
    and "decode_char (take (utf8_char_width b) (b # bs)) = Some (c, [])"
  using assms by (auto simp: utf8_char_width_def is_continuation_def Let_def split: if_splits list.splits)

declare decode_char.simps [simp del]

lemma slice_is_char:
  assumes "from_utf8 (take (utf8_char_width b) (b # bs)) = Some s"
  shows "\<exists>c. s = [c] \<and> decode_char (b # bs) = Some (c, drop (utf8_char_width b) (b # bs))"
proof -
  obtain w where w: "utf8_char_width b = Suc w" using utf8_char_width_pos [of b] by (cases "utf8_char_width b") auto
  obtain c rest where c: "decode_char (take (utf8_char_width b) (b # bs)) = Some (c, rest)"
    "map_option ((#) c) (from_utf8 rest) = Some s"
    using assms w by (auto simp: from_utf8.simps [of "b # take w bs"] split: option.splits)
  from c(1) have "rest = [] \<and> decode_char (b # bs) = Some (c, drop (utf8_char_width b) (b # bs))"
    by (auto simp: utf8_char_width_def decode_char.simps is_continuation_def Let_def take_Cons' drop_Cons' split: if_splits list.splits)
  then show ?thesis using c(2) by auto
qed

lemma decode_char_Nil [simp]: "decode_char [] = None"
  by (simp add: decode_char.simps)

lemma char_is_slice:
  assumes "decode_char (b # bs) = Some (c, rest)"
  shows "from_utf8 (take (utf8_char_width b) (b # bs)) = Some [c]"
  using decode_char_front(5) [OF assms] utf8_char_width_pos [of b]
  by (simp add: from_utf8.simps [of "take (utf8_char_width b) (b # bs)"])

inductive_cases denotes_elims: "string_denotes [] t" "string_denotes (b # bs) t"

text \<open>One step from the front, as an equivalence for each kind of byte.\<close>

lemma denotes_control: "b < BYTE_SPACE \<Longrightarrow> \<not> string_denotes (b # bs) s"
  by (auto elim!: denotes_elims dest: decode_char_front(1))

lemma denotes_byte:
  assumes "BYTE_SPACE \<le> b" "b \<noteq> BYTE_BACKSLASH"
  shows "string_denotes (b # bs) s \<longleftrightarrow> (\<exists>c s'. s = c # s'
    \<and> decode_char (b # bs) = Some (c, drop (utf8_char_width b) (b # bs))
    \<and> string_denotes (drop (utf8_char_width b) (b # bs)) s')" (is "_ \<longleftrightarrow> ?step")
proof
  assume "string_denotes (b # bs) s"
  then show ?step using assms by (cases rule: string_denotes.cases) (auto dest: decode_char_front(3))
next
  assume ?step
  then obtain c s' where c: "s = c # s'" "decode_char (b # bs) = Some (c, drop (utf8_char_width b) (b # bs))"
    "string_denotes (drop (utf8_char_width b) (b # bs)) s'" by blast
  have "BYTE_SPACE \<le> c" "c \<noteq> BYTE_BACKSLASH"
    using decode_char_front(1,2) [OF c(2)] assms by (cases "b < 0x80"; simp)+
  then show "string_denotes (b # bs) s" using denotes_plain [OF c(2)] c(1,3) by blast
qed

lemma no_backslash_char: "decode_char (BYTE_BACKSLASH # bs) = Some (c, rest) \<Longrightarrow> c = BYTE_BACKSLASH"
  by (drule decode_char_front(1)) simp_all

lemma denotes_lone_backslash: "\<not> string_denotes [BYTE_BACKSLASH] s"
  by (auto elim!: denotes_elims dest: no_backslash_char)

lemma denotes_escape: "e \<noteq> 0x75 \<Longrightarrow> string_denotes (BYTE_BACKSLASH # e # bs) s
    \<longleftrightarrow> (\<exists>c s'. s = c # s' \<and> simple_escape_char e = Some c \<and> string_denotes bs s')"
  by (auto elim!: denotes_elims dest: no_backslash_char intro: denotes_simple)

lemma denotes_hex: "string_denotes (BYTE_BACKSLASH # 0x75 # bs) s \<longleftrightarrow> 4 \<le> length bs
    \<and> (\<exists>u s'. hex_unit (take 4 bs) = Some u \<and> s = char_or_replacement u # s' \<and> string_denotes (drop 4 bs) s')"
    (is "_ \<longleftrightarrow> ?step")
proof
  assume "string_denotes (BYTE_BACKSLASH # 0x75 # bs) s"
  then show ?step
    by (auto elim!: denotes_elims dest: no_backslash_char simp: simple_escape_char_def)
next
  assume step: ?step
  then obtain p q r t rest where "bs = p # q # r # t # rest"
    by (auto simp: numeral_eq_Suc Suc_le_length_iff)
  then show "string_denotes (BYTE_BACKSLASH # 0x75 # bs) s"
    using step by (auto intro: denotes_unicode)
qed

section \<open>The decoder decodes what the content denotes\<close>

lemma slice_to_stop:
  assumes "index < length raw"
  shows "take (min (index + w) (length raw) - index) (raw ! index # drop (index + 1) raw)
    = take w (raw ! index # drop (index + 1) raw)"
  unfolding drop_here [OF assms, symmetric] by (simp add: min_def)

lemma drop_to_stop:
  assumes "index < length raw" "w \<le> length (raw ! index # drop (index + 1) raw)"
  shows "drop (min (index + w) (length raw)) raw = drop w (raw ! index # drop (index + 1) raw)"
proof -
  have "index + w \<le> length raw" using assms by simp
  then show ?thesis unfolding drop_here [OF assms(1), symmetric] by (simp add: add.commute)
qed

definition decodes_to :: "utext option \<Rightarrow> utext \<Rightarrow> bytes \<Rightarrow> bool" where
  "decodes_to r decoded bs = (\<forall>t. r = Some t \<longleftrightarrow> (\<exists>s. t = decoded @ s \<and> string_denotes bs s))"

lemma decodes_plain:
  assumes "index < length raw" "BYTE_SPACE \<le> raw ! index" "raw ! index \<noteq> BYTE_BACKSLASH"
    and "\<And>stop s. stop = min (index + utf8_char_width (raw ! index)) (length raw)
      \<Longrightarrow> from_utf8 (take (stop - index) (drop index raw)) = Some s
      \<Longrightarrow> decodes_to (decode_content raw stop (decoded @ s)) (decoded @ s) (drop stop raw)"
  shows "decodes_to (decode_content raw index decoded) decoded (drop index raw)"
proof -
  let ?b = "raw ! index" and ?bs = "drop (index + 1) raw"
  let ?w = "utf8_char_width ?b" let ?stop = "min (index + ?w) (length raw)"
  note here = drop_here [OF assms(1)] and step = denotes_byte [OF assms(2,3)]
  have slice: "take (?stop - index) (drop index raw) = take ?w (?b # ?bs)"
    unfolding here by (rule slice_to_stop [OF assms(1)])
  show ?thesis
  proof (cases "from_utf8 (take ?w (?b # ?bs))")
    case None
    then have "\<not> string_denotes (?b # ?bs) s" for s using step char_is_slice by fastforce
    then show ?thesis
      using assms(1-3) None slice by (simp add: decode_content.simps [of raw index] here Let_def decodes_to_def)
  next
    case (Some s)
    then obtain c where c: "s = [c]" "decode_char (?b # ?bs) = Some (c, drop ?w (?b # ?bs))"
      using slice_is_char by blast
    have "decode_content raw index decoded = decode_content raw ?stop (decoded @ s)"
      using assms(1-3) Some slice by (simp add: decode_content.simps [of raw index decoded] Let_def)
    moreover have "drop ?stop raw = drop ?w (?b # ?bs)"
      using drop_to_stop [OF assms(1) decode_char_front(4) [OF c(2)]] .
    ultimately show ?thesis
      using assms(4) [OF refl] Some slice step c unfolding here decodes_to_def by auto
  qed
qed

lemma decode_content_denotes: "decodes_to (decode_content raw index decoded) decoded (drop index raw)"
proof (induction raw index decoded rule: decode_content.induct)
  case (1 raw index decoded)
  note unfolded = decode_content.simps [of raw index decoded]
  consider "length raw \<le> index" | "index < length raw" "raw ! index < BYTE_SPACE"
    | "index < length raw" "BYTE_SPACE \<le> raw ! index" "raw ! index \<noteq> BYTE_BACKSLASH"
    | "index < length raw" "raw ! index = BYTE_BACKSLASH" "length raw \<le> index + 1"
    | "raw ! index = BYTE_BACKSLASH" "index + 1 < length raw" "raw ! (index + 1) = 0x75"
    | "raw ! index = BYTE_BACKSLASH" "index + 1 < length raw" "raw ! (index + 1) \<noteq> 0x75"
    by linarith
  then show ?case
  proof cases
    case 1
    then show ?thesis by (auto simp: unfolded decodes_to_def intro: denotes_nothing elim: denotes_elims)
  next
    case 2
    then show ?thesis by (simp add: unfolded drop_here [OF 2(1)] denotes_control decodes_to_def)
  next
    case 3
    then show ?thesis using decodes_plain [OF 3] "1.IH"(1) [OF 3(1)] by simp
  next
    case 4
    then show ?thesis by (simp add: unfolded drop_here [OF 4(1)] denotes_lone_backslash decodes_to_def)
  next
    case 5
    then have here: "drop index raw = BYTE_BACKSLASH # 0x75 # drop (index + 2) raw"
      using drop_here [of index raw] drop_here [of "index + 1" raw] by simp
    show ?thesis
      using 5 "1.IH"(2) unfolding decodes_to_def here denotes_hex
      by (auto simp: unfolded split: option.splits if_splits)
  next
    case 6
    then have here: "drop index raw = BYTE_BACKSLASH # raw ! (index + 1) # drop (index + 2) raw"
      using drop_here [of index raw] drop_here [of "index + 1" raw] by simp
    show ?thesis
      using 6 "1.IH"(3) unfolding decodes_to_def here denotes_escape [OF 6(3)]
      by (auto simp: unfolded split: option.splits)
  qed
qed

lemma decode_json_denotes: "decode_json_string_content bs = Some t \<longleftrightarrow> string_denotes bs t"
  using decode_content_denotes [of bs 0 "[]"] by (simp add: decode_json_string_content_def decodes_to_def)

section \<open>The fast path\<close>

lemma decode_char_shrinks: "decode_char bs = Some (c, rest) \<Longrightarrow> set rest \<subseteq> set bs"
proof (cases bs)
  case (Cons b bs')
  assume "decode_char bs = Some (c, rest)"
  then have "rest = drop (utf8_char_width b) bs" using decode_char_front(3) Cons by blast
  then show ?thesis by (simp add: set_drop_subset)
qed simp

lemma from_utf8_denotes:
  "from_utf8 bs = Some t \<Longrightarrow> \<forall>b\<in>set bs. BYTE_SPACE \<le> b \<and> b \<noteq> BYTE_BACKSLASH \<Longrightarrow> string_denotes bs t"
proof (induction bs arbitrary: t rule: from_utf8.induct)
  case (1 bs)
  show ?case
  proof (cases bs)
    case Nil
    then show ?thesis using 1 denotes_nothing by simp
  next
    case (Cons b bs')
    then obtain c rest s where c: "decode_char (b # bs') = Some (c, rest)" "from_utf8 rest = Some s" "t = c # s"
      using "1.prems"(1) by (auto simp: from_utf8.simps [of "b # bs'"] split: option.splits)
    have plain: "BYTE_SPACE \<le> b" "b \<noteq> BYTE_BACKSLASH" using "1.prems"(2) Cons by auto
    have "string_denotes rest s"
      using "1.IH" [OF _ _ refl c(2)] c(1) decode_char_shrinks [OF c(1)] "1.prems"(2) Cons by auto
    then show ?thesis
      using c Cons denotes_byte [OF plain] decode_char_front(3) [OF c(1)] by simp
  qed
qed

lemma string_chars_plain:
  "string_chars body \<Longrightarrow> BYTE_BACKSLASH \<notin> set body \<Longrightarrow> \<forall>b\<in>set body. BYTE_SPACE \<le> b \<and> b \<noteq> BYTE_BACKSLASH"
  by (induction body rule: string_chars.induct) auto

lemma parse_bounded_sound:
  assumes "parse_bounded_string raw i bound = Inr (k, j)"
  shows "\<exists>body. string_chars body \<and> string_denotes body k \<and> drop i raw = (BYTE_QUOTE # body @ [BYTE_QUOTE]) @ drop j raw
    \<and> j = i + length (BYTE_QUOTE # body @ [BYTE_QUOTE])"
proof -
  obtain b where b: "scan_string_bounds raw i (Some bound) = Inr b" "decode_string_bounds raw b = Inr k" "bounds_next b = j"
    using assms by (auto simp: parse_bounded_string_def split: sum.splits)
  obtain body where body: "string_chars body" "drop i raw = (BYTE_QUOTE # body @ [BYTE_QUOTE]) @ drop j raw"
    "content_start b = i + 1" "content_end b = i + 1 + length body" "j = content_end b + 1"
    "has_escape b = (BYTE_BACKSLASH \<in> set body)"
    using scan_string_sound [OF b(1)] b(3) by auto
  have "drop (i + 1) raw = body @ BYTE_QUOTE # drop j raw" using body(2) by (simp add: drop_Cons)
  then have slice: "take (content_end b - content_start b) (drop (content_start b) raw) = body"
    using body(3,4) by simp
  have "string_denotes body k"
  proof (cases "has_escape b")
    case True
    then show ?thesis
      using b(2) slice decode_json_denotes by (simp add: decode_string_bounds_def split: option.splits)
  next
    case False
    then show ?thesis
      using b(2) slice from_utf8_denotes string_chars_plain [OF body(1)] body(6)
      by (simp add: decode_string_bounds_def split: option.splits)
  qed
  then show ?thesis using body by auto
qed

section \<open>Members\<close>

text \<open>A member is its key with the span of its value; from \<open>i\<close>, where the key starts, to \<open>j\<close>, where the next
  token is.\<close>

type_synonym member = "utext \<times> nat \<times> nat"

definition member_at :: "bytes \<Rightarrow> member \<Rightarrow> nat \<Rightarrow> nat \<Rightarrow> bool" where
  "member_at raw m i j = (case m of (k, vs, ve) \<Rightarrow>
     \<exists>body w x v y. string_chars body \<and> string_denotes body k \<and> blank w \<and> blank x \<and> json_value v \<and> blank y
       \<and> drop i raw = (BYTE_QUOTE # body @ [BYTE_QUOTE]) @ w @ BYTE_COLON # x @ v @ y @ drop j raw
       \<and> vs = i + length body + 2 + length w + 1 + length x \<and> ve = vs + length v \<and> j = ve + length y)"

inductive members_at :: "bytes \<Rightarrow> member list \<Rightarrow> nat \<Rightarrow> nat \<Rightarrow> bool" for raw where
  last_at: "member_at raw m i j \<Longrightarrow> drop j raw = BYTE_CLOSE_BRACE # r \<Longrightarrow> members_at raw [m] i j"
| more_at: "member_at raw m i j \<Longrightarrow> drop j raw = BYTE_COMMA # z @ drop n raw \<Longrightarrow> blank z \<Longrightarrow> n = j + 1 + length z
    \<Longrightarrow> members_at raw ms n close \<Longrightarrow> members_at raw (m # ms) i close"

text \<open>An object from its opening brace to the byte after its closing brace.\<close>

definition object_at :: "bytes \<Rightarrow> member list \<Rightarrow> nat \<Rightarrow> nat \<Rightarrow> bool" where
  "object_at raw ms start stop = (\<exists>w. blank w \<and>
     (if ms = [] then drop start raw = BYTE_OPEN_BRACE # w @ BYTE_CLOSE_BRACE # drop stop raw \<and> stop = start + 2 + length w
      else drop start raw = BYTE_OPEN_BRACE # w @ drop (start + 1 + length w) raw
        \<and> (\<exists>close. members_at raw ms (start + 1 + length w) close \<and> stop = close + 1)))"

lemma members_blank:
  assumes "blank z" "json_members t"
  shows "json_members (z @ t)"
  using assms(2)
proof (cases rule: json_members.cases)
  case (last_member u k w x v y)
  then show ?thesis using Json_Grammar.last_member [of "z @ u" k w x v y] assms(1) by simp
next
  case (more_members u k w x v y ms)
  then show ?thesis using Json_Grammar.more_members [of "z @ u" k w x v y ms] assms(1) by simp
qed

lemma members_json:
  assumes "members_at raw ms i close"
  shows "\<exists>t. json_members t \<and> drop i raw = t @ BYTE_CLOSE_BRACE # drop (close + 1) raw \<and> close = i + length t"
  using assms
proof (induction rule: members_at.induct)
  case (last_at m i j r)
  then obtain body w x v y where m: "string_chars body" "blank w" "blank x" "json_value v" "blank y"
    "drop i raw = (BYTE_QUOTE # body @ [BYTE_QUOTE]) @ w @ BYTE_COLON # x @ v @ y @ drop j raw"
    "j = i + length body + 2 + length w + 1 + length x + length v + length y"
    unfolding member_at_def by (cases m) auto
  have "json_string (BYTE_QUOTE # body @ [BYTE_QUOTE])" using m(1) by (auto simp: json_string_def)
  from last_member [OF blank_simps(1) this m(2-5)] show ?case
    using m(6,7) last_at(2) by (intro exI [of _ "(BYTE_QUOTE # body @ [BYTE_QUOTE]) @ w @ BYTE_COLON # x @ v @ y"]) (simp add: drop_Cons)
next
  case (more_at m i j z n ms close)
  then obtain body w x v y where m: "string_chars body" "blank w" "blank x" "json_value v" "blank y"
    "drop i raw = (BYTE_QUOTE # body @ [BYTE_QUOTE]) @ w @ BYTE_COLON # x @ v @ y @ drop j raw"
    "j = i + length body + 2 + length w + 1 + length x + length v + length y"
    unfolding member_at_def by (cases m) auto
  have s: "json_string (BYTE_QUOTE # body @ [BYTE_QUOTE])" using m(1) by (auto simp: json_string_def)
  obtain t where t: "json_members t" "drop n raw = t @ BYTE_CLOSE_BRACE # drop (close + 1) raw" "close = n + length t"
    using more_at.IH by blast
  note zt = members_blank [OF more_at(3) t(1)]
  from more_members [OF blank_simps(1) s m(2-5) zt] show ?case
    using m(6,7) more_at(2,4) t(2,3)
    by (intro exI [of _ "(BYTE_QUOTE # body @ [BYTE_QUOTE]) @ w @ BYTE_COLON # x @ v @ y @ BYTE_COMMA # z @ t"]) simp
qed

lemma object_json:
  assumes "object_at raw ms start stop"
  shows "\<exists>t. json_value (BYTE_OPEN_BRACE # t) \<and> drop start raw = (BYTE_OPEN_BRACE # t) @ drop stop raw
    \<and> stop = start + length (BYTE_OPEN_BRACE # t)"
proof (cases "ms = []")
  case True
  then obtain w where "blank w" "drop start raw = BYTE_OPEN_BRACE # w @ BYTE_CLOSE_BRACE # drop stop raw"
    "stop = start + 2 + length w" using assms by (auto simp: object_at_def)
  then show ?thesis using empty_object by (intro exI [of _ "w @ [BYTE_CLOSE_BRACE]"]) simp
next
  case False
  then obtain w close where w: "blank w" "drop start raw = BYTE_OPEN_BRACE # w @ drop (start + 1 + length w) raw"
    "members_at raw ms (start + 1 + length w) close" "stop = close + 1" using assms by (auto simp: object_at_def)
  obtain t where t: "json_members t" "drop (start + 1 + length w) raw = t @ BYTE_CLOSE_BRACE # drop (close + 1) raw"
    "close = start + 1 + length w + length t" using members_json [OF w(3)] by blast
  have "frame_text (Object_frame ExpectKeyOrEnd) (w @ t @ [BYTE_CLOSE_BRACE])"
    using frame_text_blank [OF w(1), of "Object_frame ExpectKeyOrEnd" "t @ [BYTE_CLOSE_BRACE]"] t(1)
    by (auto simp: members_rest_def)
  from object_is_value [OF this] show ?thesis
    using w t by (intro exI [of _ "w @ t @ [BYTE_CLOSE_BRACE]"]) simp
qed

lemma member_read:
  assumes key: "parse_bounded_string raw i bound = Inr (k, a)"
    and colon: "skip_whitespace raw a < length raw" "raw ! skip_whitespace raw a = BYTE_COLON"
    and vs: "vs = skip_whitespace raw (skip_whitespace raw a + 1)"
    and v: "json_value v" "drop vs raw = v @ drop ve raw" "ve = vs + length v"
  shows "member_at raw (k, vs, ve) i (skip_whitespace raw ve)"
proof -
  obtain body where body: "string_chars body" "string_denotes body k"
    "drop i raw = (BYTE_QUOTE # body @ [BYTE_QUOTE]) @ drop a raw" "a = i + length (BYTE_QUOTE # body @ [BYTE_QUOTE])"
    using parse_bounded_sound [OF key] by blast
  let ?c = "skip_whitespace raw a"
  obtain w where w: "blank w" "drop a raw = w @ drop ?c raw" "?c = a + length w" using skip_whitespace_sound by blast
  have c: "drop ?c raw = BYTE_COLON # drop (?c + 1) raw" using drop_here [OF colon(1)] colon(2) by simp
  obtain x where x: "blank x" "drop (?c + 1) raw = x @ drop vs raw" "vs = ?c + 1 + length x"
    using skip_whitespace_sound [of "?c + 1" raw] vs by blast
  obtain y where y: "blank y" "drop ve raw = y @ drop (skip_whitespace raw ve) raw" "skip_whitespace raw ve = ve + length y"
    using skip_whitespace_sound by blast
  have "drop i raw = (BYTE_QUOTE # body @ [BYTE_QUOTE]) @ w @ BYTE_COLON # x @ v @ y @ drop (skip_whitespace raw ve) raw"
    using body(3) w(2) c x(2) v(2) y(2) by simp
  moreover have "vs = i + length body + 2 + length w + 1 + length x" using body(4) w(3) x(3) by simp
  ultimately show ?thesis
    using body(1,2) w(1) x(1) v(1,3) y(1,3) unfolding member_at_def by blast
qed

lemma member_next:
  assumes "skip_whitespace raw ve < length raw" "raw ! skip_whitespace raw ve = BYTE_COMMA"
    and "n = skip_whitespace raw (skip_whitespace raw ve + 1)"
  shows "\<exists>z. blank z \<and> drop (skip_whitespace raw ve) raw = BYTE_COMMA # z @ drop n raw
    \<and> n = skip_whitespace raw ve + 1 + length z"
  using skip_whitespace_sound [of "skip_whitespace raw ve + 1" raw] drop_here [OF assms(1)] assms(2,3) by auto

definition span_of :: "ObjectEntry \<Rightarrow> member" where
  "span_of e = (entry_key e, value_start e, value_end e)"

lemma skip_value_at:
  assumes "skip_value raw (skip_whitespace raw i) bound = Inr j" "skip_whitespace raw i < length raw"
  shows "\<exists>v. json_value v \<and> drop (skip_whitespace raw i) raw = v @ drop j raw \<and> j = skip_whitespace raw i + length v"
proof -
  let ?at = "skip_whitespace raw i"
  obtain w v where wv: "blank w" "json_value v" "drop ?at raw = w @ v @ drop j raw" "j = ?at + length w + length v"
    using skip_value_sound [OF assms(1)] by blast
  obtain u where u: "blank u" "drop i raw = u @ drop ?at raw" "?at = i + length u"
    using skip_whitespace_sound by blast
  obtain b v' where v: "v = b # v'" "\<not> is_json_blank b" using value_front [OF wv(2)] by blast
  have "drop i raw = (u @ w) @ b # v' @ drop j raw" using u(2) wv(3) v(1) by simp
  then have "?at = i + length (u @ w)" using skip_to(1) [of "u @ w"] u(1) wv(1) v(2) by auto
  then have "w = []" using u(3) by simp
  then show ?thesis using wv by auto
qed

lemma scan_member_sound:
  assumes "scan_member raw bound i = Inr (e, out)"
  shows "\<exists>j. member_at raw (span_of e) i j \<and> value_kind e = classify_value (raw ! value_start e)
    \<and> (case out of
         Inl n \<Rightarrow> \<exists>z. blank z \<and> drop j raw = BYTE_COMMA # z @ drop n raw \<and> n = j + 1 + length z
       | Inr close \<Rightarrow> close = j \<and> drop j raw = BYTE_CLOSE_BRACE # drop (j + 1) raw)"
proof -
  obtain k a vs ve where m: "parse_bounded_string raw i bound = Inr (k, a)"
    "skip_whitespace raw a < length raw" "raw ! skip_whitespace raw a = BYTE_COLON"
    "vs = skip_whitespace raw (skip_whitespace raw a + 1)" "vs < length raw"
    "skip_value raw vs (Some bound) = Inr ve"
    "e = \<lparr>entry_key = k, value_start = vs, value_end = ve, value_kind = classify_value (raw ! vs)\<rparr>"
    "skip_whitespace raw ve < length raw"
    "(raw ! skip_whitespace raw ve = BYTE_COMMA \<and> out = Inl (skip_whitespace raw (skip_whitespace raw ve + 1)))
      \<or> (raw ! skip_whitespace raw ve = BYTE_CLOSE_BRACE \<and> out = Inr (skip_whitespace raw ve))"
    using assms by (auto simp: scan_member_def Let_def not_le split: if_splits)
  obtain v where v: "json_value v" "drop vs raw = v @ drop ve raw" "ve = vs + length v"
    using skip_value_at [of raw "skip_whitespace raw a + 1"] m(4-6) by blast
  have at: "member_at raw (span_of e) i (skip_whitespace raw ve)"
    using member_read [OF m(1-4) v] m(7) by (simp add: span_of_def)
  from m(9) show ?thesis
    using at m(7) member_next [OF m(8)] drop_here [OF m(8)]
    by (intro exI [of _ "skip_whitespace raw ve"]) auto
qed

lemma members_loop_sound:
  "members_loop raw bound found i = Inr so \<Longrightarrow> \<exists>es. entries so = found @ es \<and> es \<noteq> []
    \<and> members_at raw (map span_of es) i (close_index so) \<and> scanned_end so = close_index so + 1
    \<and> list_all (\<lambda>e. value_kind e = classify_value (raw ! value_start e)) es"
proof (induction raw bound found i rule: members_loop.induct)
  case (1 raw bound found i)
  obtain e out where step: "scan_member raw bound i = Inr (e, out)"
    using "1.prems" by (auto simp: members_loop.simps [of raw bound found i] split: sum.splits)
  obtain j where j: "member_at raw (span_of e) i j" "value_kind e = classify_value (raw ! value_start e)"
    "case out of Inl n \<Rightarrow> \<exists>z. blank z \<and> drop j raw = BYTE_COMMA # z @ drop n raw \<and> n = j + 1 + length z
       | Inr close \<Rightarrow> close = j \<and> drop j raw = BYTE_CLOSE_BRACE # drop (j + 1) raw"
    using scan_member_sound [OF step] by blast
  show ?case
  proof (cases out)
    case (Inl n)
    then have "members_loop raw bound (found @ [e]) n = Inr so"
      using "1.prems" step by (simp add: members_loop.simps [of raw bound found i])
    then obtain es where es: "entries so = (found @ [e]) @ es" "members_at raw (map span_of es) n (close_index so)"
      "scanned_end so = close_index so + 1" "list_all (\<lambda>e. value_kind e = classify_value (raw ! value_start e)) es"
      using "1.IH" [OF step refl Inl] by blast
    obtain z where "blank z" "drop j raw = BYTE_COMMA # z @ drop n raw" "n = j + 1 + length z" using j(3) Inl by auto
    from more_at [OF j(1) this(2,1,3) es(2)] show ?thesis
      using es j(2) by (intro exI [of _ "e # es"]) simp
  next
    case (Inr close)
    then have "so = \<lparr>entries = found @ [e], close_index = close, scanned_end = close + 1\<rparr>"
      using "1.prems" step by (simp add: members_loop.simps [of raw bound found i])
    then show ?thesis
      using last_at [OF j(1)] j(2,3) Inr by (intro exI [of _ "[e]"]) auto
  qed
qed

lemma scan_object_sound:
  assumes "scan_object raw start bound = Inr so"
  shows "object_at raw (map span_of (entries so)) start (scanned_end so)"
    and "list_all (\<lambda>e. value_kind e = classify_value (raw ! value_start e)) (entries so)"
proof -
  let ?i = "skip_whitespace raw (start + 1)"
  have s: "start < length raw" "raw ! start = BYTE_OPEN_BRACE" "?i < length raw"
    "raw ! ?i = BYTE_CLOSE_BRACE \<and> so = \<lparr>entries = [], close_index = ?i, scanned_end = ?i + 1\<rparr>
      \<or> members_loop raw bound [] ?i = Inr so"
    using assms by (auto simp: scan_object_def Let_def not_le split: if_splits)
  obtain w where w: "blank w" "drop (start + 1) raw = w @ drop ?i raw" "?i = start + 1 + length w"
    using skip_whitespace_sound by blast
  have "object_at raw (map span_of (entries so)) start (scanned_end so)
      \<and> list_all (\<lambda>e. value_kind e = classify_value (raw ! value_start e)) (entries so)"
    using s(4)
  proof
    assume c: "raw ! ?i = BYTE_CLOSE_BRACE \<and> so = \<lparr>entries = [], close_index = ?i, scanned_end = ?i + 1\<rparr>"
    then have "drop start raw = BYTE_OPEN_BRACE # w @ BYTE_CLOSE_BRACE # drop (?i + 1) raw"
      using drop_here [OF s(1)] drop_here [OF s(3)] s(2) w(2) by simp
    then show ?thesis using c w(1,3) by (auto simp: object_at_def)
  next
    assume "members_loop raw bound [] ?i = Inr so"
    from members_loop_sound [OF this] show ?thesis
      using drop_here [OF s(1)] s(2) w by (auto simp: object_at_def)
  qed
  then show "object_at raw (map span_of (entries so)) start (scanned_end so)"
    "list_all (\<lambda>e. value_kind e = classify_value (raw ! value_start e)) (entries so)" by blast+
qed

end
