(* ===== verification/Json_Envelope.thy ===== *)
theory Json_Envelope
  imports Json_Object
begin

text \<open>
  The envelope scan of a relayed frame (crates/freshell-codex/src/remote_proxy_envelope.rs): the top-level id
  and method of a JSON-RPC object and its repeated keys, without a parse of the frame. A number is read as a
  floating-point value by \<open>str::parse\<close>, which is the parameter \<open>to_f64\<close>, None for a value that is not finite.
\<close>

definition MAX_SCANNED_TOKEN_BYTES :: nat where
  "MAX_SCANNED_TOKEN_BYTES = 8 * 1024"

datatype 'f JsonRpcEnvelopeId = Str utext | Num 'f

record 'f JsonRpcEnvelope =
  envelope_id :: "'f JsonRpcEnvelopeId option"
  envelope_method :: "utext option"
  duplicate_top_level_keys :: "utext list"

datatype JsonRpcEnvelopeScanError =
    BatchUnsupported | EnvelopeMalformedJson | NonObjectRoot | EnvelopeTokenTooLarge

fun from_scan_error :: "ScanError \<Rightarrow> JsonRpcEnvelopeScanError" where
  "from_scan_error MalformedJson = EnvelopeMalformedJson"
| "from_scan_error TokenTooLarge = EnvelopeTokenTooLarge"

text \<open>The \<open>?\<close> with the conversion of the error.\<close>

definition lift_scan :: "ScanError + 'a \<Rightarrow> JsonRpcEnvelopeScanError + 'a" where
  "lift_scan r = (case r of Inl e \<Rightarrow> Inl (from_scan_error e) | Inr a \<Rightarrow> Inr a)"

lemma lift_scan_eq_Inr [simp]: "(lift_scan r = Inr a) = (r = Inr a)"
  by (cases r) (simp_all add: lift_scan_def)

definition key_id :: utext where "key_id = [0x69, 0x64]"
definition key_method :: utext where "key_method = [0x6D, 0x65, 0x74, 0x68, 0x6F, 0x64]"

section \<open>The scan\<close>

text \<open>The seen and the repeated keys are sets; the report lists each repeated key once.\<close>

definition record_duplicate_key ::
  "utext \<Rightarrow> utext set \<times> utext set \<times> utext list \<Rightarrow> utext set \<times> utext set \<times> utext list" where
  "record_duplicate_key k keys = (case keys of (seen, dups, report) \<Rightarrow>
     if k \<in> seen then
       if k \<notin> dups then (seen, insert k dups, report @ [k]) else (seen, dups, report)
     else (insert k seen, dups, report))"

definition scan_top_level_id ::
  "(bytes \<Rightarrow> 'f option) \<Rightarrow> bytes \<Rightarrow> nat \<Rightarrow> JsonRpcEnvelopeScanError + ('f JsonRpcEnvelopeId option \<times> nat)" where
  "scan_top_level_id to_f64 raw index =
     (let vs = skip_whitespace raw index in
      if length raw \<le> vs then Inl EnvelopeMalformedJson
      else if raw ! vs = BYTE_QUOTE then
        propagate (lift_scan (parse_bounded_string raw vs MAX_SCANNED_TOKEN_BYTES))
          (\<lambda>(value, j). Inr (Some (Str value), j))
      else if raw ! vs = BYTE_MINUS \<or> is_json_digit (raw ! vs) then
        propagate (lift_scan (scan_number raw vs (Some MAX_SCANNED_TOKEN_BYTES)))
          (\<lambda>token.
            if number_token_has_fraction_or_exponent raw (token_start token) (token_end token)
            then Inr (None, token_next token)
            else Inr (map_option Num (to_f64 (take (token_end token - token_start token) (drop (token_start token) raw))),
                      token_next token))
      else propagate (lift_scan (skip_value raw vs None)) (\<lambda>j. Inr (None, j)))"

definition scan_top_level_method :: "bytes \<Rightarrow> nat \<Rightarrow> JsonRpcEnvelopeScanError + (utext option \<times> nat)" where
  "scan_top_level_method raw index =
     (let vs = skip_whitespace raw index in
      if length raw \<le> vs then Inl EnvelopeMalformedJson
      else if raw ! vs = BYTE_QUOTE then
        propagate (lift_scan (parse_bounded_string raw vs MAX_SCANNED_TOKEN_BYTES))
          (\<lambda>(value, j). Inr (Some value, j))
      else propagate (lift_scan (skip_value raw vs None)) (\<lambda>j. Inr (None, j)))"

text \<open>What the loop carries: the keys seen, the id and the method.\<close>

record 'f RootScan =
  keys :: "utext set \<times> utext set \<times> utext list"
  scanned_id :: "'f JsonRpcEnvelopeId option"
  scanned_method :: "utext option"

definition root_start :: "'f RootScan" where
  "root_start = \<lparr>keys = ({}, {}, []), scanned_id = None, scanned_method = None\<rparr>"

definition finish_root_object :: "bytes \<Rightarrow> nat \<Rightarrow> 'f RootScan \<Rightarrow> JsonRpcEnvelopeScanError + 'f JsonRpcEnvelope" where
  "finish_root_object raw at s =
     (if skip_whitespace raw at \<noteq> length raw then Inl EnvelopeMalformedJson
      else Inr \<lparr>envelope_id = scanned_id s, envelope_method = scanned_method s,
                duplicate_top_level_keys = snd (snd (keys s))\<rparr>)"

text \<open>The value of a member, by its key.\<close>

definition scan_field ::
  "(bytes \<Rightarrow> 'f option) \<Rightarrow> bytes \<Rightarrow> utext \<Rightarrow> nat \<Rightarrow> 'f RootScan \<Rightarrow> JsonRpcEnvelopeScanError + ('f RootScan \<times> nat)" where
  "scan_field to_f64 raw k index s =
     (if k = key_id then
        propagate (scan_top_level_id to_f64 raw index) (\<lambda>(value, j). Inr (s\<lparr>scanned_id := value\<rparr>, j))
      else if k = key_method then
        propagate (scan_top_level_method raw index) (\<lambda>(value, j). Inr (s\<lparr>scanned_method := value\<rparr>, j))
      else propagate (lift_scan (skip_value raw index None)) (\<lambda>j. Inr (s, j)))"

definition root_round ::
  "(bytes \<Rightarrow> 'f option) \<Rightarrow> bytes \<Rightarrow> nat \<Rightarrow> 'f RootScan \<Rightarrow> JsonRpcEnvelopeScanError + ('f RootScan \<times> (nat + nat))" where
  "root_round to_f64 raw index s =
     (if length raw \<le> index then Inl EnvelopeMalformedJson
      else propagate (lift_scan (parse_bounded_string raw index MAX_SCANNED_TOKEN_BYTES)) (\<lambda>(k, j).
        let s = s\<lparr>keys := record_duplicate_key k (keys s)\<rparr>;
            colon = skip_whitespace raw j in
        if length raw \<le> colon \<or> raw ! colon \<noteq> BYTE_COLON then Inl EnvelopeMalformedJson
        else let vs = skip_whitespace raw (colon + 1) in
        if length raw \<le> vs then Inl EnvelopeMalformedJson
        else propagate (scan_field to_f64 raw k vs s) (\<lambda>(s, ve).
          let at = skip_whitespace raw ve in
          if length raw \<le> at then Inl EnvelopeMalformedJson
          else if raw ! at = BYTE_COMMA then Inr (s, Inl (skip_whitespace raw (at + 1)))
          else if raw ! at = BYTE_CLOSE_BRACE then Inr (s, Inr (at + 1))
          else Inl EnvelopeMalformedJson)))"

lemma scan_field_forward:
  assumes "scan_field to_f64 raw k vs s = Inr (s', ve)"
  shows "vs < ve"
  using assms skip_whitespace_ge [of vs raw]
  by (auto simp: scan_field_def scan_top_level_id_def scan_top_level_method_def Let_def split: if_splits
      dest: parse_bounded_forward scan_number_forward skip_value_forward)

lemma root_round_forward:
  assumes "root_round to_f64 raw index s = Inr (s', Inl j)"
  shows "index < j" and "index < length raw"
proof -
  obtain k a t vs ve where m: "index < length raw" "parse_bounded_string raw index MAX_SCANNED_TOKEN_BYTES = Inr (k, a)"
    "vs = skip_whitespace raw (skip_whitespace raw a + 1)" "scan_field to_f64 raw k vs t = Inr (s', ve)"
    "j = skip_whitespace raw (skip_whitespace raw ve + 1)"
    using assms by (auto simp: root_round_def Let_def split: if_splits)
  note w = skip_whitespace_ge
  show "index < length raw" by (rule m(1))
  show "index < j"
    using m(5) parse_bounded_forward [OF m(2)] scan_field_forward [OF m(4)] m(3)
      w [of a raw] w [of "skip_whitespace raw a + 1" raw] w [of ve raw] w [of "skip_whitespace raw ve + 1" raw]
    by linarith
qed

function root_loop ::
  "(bytes \<Rightarrow> 'f option) \<Rightarrow> bytes \<Rightarrow> nat \<Rightarrow> 'f RootScan \<Rightarrow> JsonRpcEnvelopeScanError + 'f JsonRpcEnvelope" where
  "root_loop to_f64 raw index s =
     (case root_round to_f64 raw index s of
        Inl e \<Rightarrow> Inl e
      | Inr (s', Inl j) \<Rightarrow> root_loop to_f64 raw j s'
      | Inr (s', Inr at) \<Rightarrow> finish_root_object raw at s')"
  by pat_completeness auto
termination
  by (relation "measure (\<lambda>(f, raw, index, s). length raw - index)")
     (auto intro!: diff_less_mono2 dest: root_round_forward)

declare root_loop.simps [simp del]

definition scan_root_object :: "(bytes \<Rightarrow> 'f option) \<Rightarrow> bytes \<Rightarrow> nat \<Rightarrow> JsonRpcEnvelopeScanError + 'f JsonRpcEnvelope" where
  "scan_root_object to_f64 raw start =
     (let index = skip_whitespace raw (start + 1) in
      if length raw \<le> index then Inl EnvelopeMalformedJson
      else if raw ! index = BYTE_CLOSE_BRACE then finish_root_object raw (index + 1) root_start
      else root_loop to_f64 raw index root_start)"

definition scan_json_rpc_envelope :: "(bytes \<Rightarrow> 'f option) \<Rightarrow> bytes \<Rightarrow> JsonRpcEnvelopeScanError + 'f JsonRpcEnvelope" where
  "scan_json_rpc_envelope to_f64 raw =
     (let index = skip_whitespace raw 0 in
      if length raw \<le> index then Inl EnvelopeMalformedJson
      else if raw ! index = BYTE_OPEN_BRACKET then Inl BatchUnsupported
      else if raw ! index \<noteq> BYTE_OPEN_BRACE then Inl NonObjectRoot
      else scan_root_object to_f64 raw index)"

section \<open>What an envelope says\<close>

definition slice :: "bytes \<Rightarrow> nat \<Rightarrow> nat \<Rightarrow> bytes" where
  "slice raw vs ve = take (ve - vs) (drop vs raw)"

definition string_reads :: "bytes \<Rightarrow> utext \<Rightarrow> bool" where
  "string_reads v t = (\<exists>body. string_chars body \<and> string_denotes body t \<and> v = BYTE_QUOTE # body @ [BYTE_QUOTE])"

definition integer_token :: "bytes \<Rightarrow> bool" where
  "integer_token v = (json_number v \<and> \<not> list_ex (\<lambda>b. b = BYTE_DOT \<or> is_exponent_marker b) v)"

text \<open>The id and the method that a value stands for.\<close>

definition id_reads :: "(bytes \<Rightarrow> 'f option) \<Rightarrow> bytes \<Rightarrow> 'f JsonRpcEnvelopeId option \<Rightarrow> bool" where
  "id_reads to_f64 v r =
     (if json_string v then \<exists>t. r = Some (Str t) \<and> string_reads v t
      else if integer_token v then r = map_option Num (to_f64 v)
      else r = None)"

definition method_reads :: "bytes \<Rightarrow> utext option \<Rightarrow> bool" where
  "method_reads v r = (if json_string v then \<exists>t. r = Some t \<and> string_reads v t else r = None)"

text \<open>The last member of a key, and what the members say.\<close>

definition last_value :: "bytes \<Rightarrow> member list \<Rightarrow> utext \<Rightarrow> bytes option" where
  "last_value raw ms k = map_option (\<lambda>(vs, ve). slice raw vs ve) (map_of (rev ms) k)"

definition report_ok :: "utext list \<Rightarrow> utext list \<Rightarrow> bool" where
  "report_ok ks report = (distinct report \<and> set report = {k. 2 \<le> count_list ks k})"

definition says ::
  "(bytes \<Rightarrow> 'f option) \<Rightarrow> bytes \<Rightarrow> member list \<Rightarrow> 'f JsonRpcEnvelopeId option \<Rightarrow> utext option \<Rightarrow> utext list \<Rightarrow> bool" where
  "says to_f64 raw ms i m report =
     ((case last_value raw ms key_id of None \<Rightarrow> i = None | Some v \<Rightarrow> id_reads to_f64 v i)
      \<and> (case last_value raw ms key_method of None \<Rightarrow> m = None | Some v \<Rightarrow> method_reads v m)
      \<and> report_ok (map fst ms) report)"

lemma skip_whitespace_again: "skip_whitespace raw (skip_whitespace raw i) = skip_whitespace raw i"
proof -
  have "\<not> (skip_whitespace raw i < length raw \<and> is_json_blank (raw ! skip_whitespace raw i))"
    by (induction raw i rule: skip_whitespace.induct) (subst (1 2) skip_whitespace.simps, simp)
  then show ?thesis by (auto simp: skip_whitespace.simps [of raw "skip_whitespace raw i"])
qed

lemma string_not_number: "json_string v \<Longrightarrow> \<not> json_number v"
  by (auto dest!: string_front number_front simp: is_json_digit_def)

lemma slice_span: "drop vs raw = v @ drop ve raw \<Longrightarrow> ve = vs + length v \<Longrightarrow> slice raw vs ve = v"
  by (simp add: slice_def)

lemma string_value_at:
  assumes "parse_bounded_string raw vs bound = Inr (t, ve)"
  shows "\<exists>v. json_string v \<and> string_reads v t \<and> drop vs raw = v @ drop ve raw \<and> ve = vs + length v"
  using parse_bounded_sound [OF assms] unfolding string_reads_def json_string_def by blast

lemma number_value_at:
  assumes "scan_number raw vs bound = Inr token"
  shows "\<exists>v. json_number v \<and> drop vs raw = v @ drop (token_next token) raw \<and> token_next token = vs + length v
    \<and> token_start token = vs \<and> token_end token = token_next token"
proof -
  obtain n where n: "json_number n" "drop vs raw = n @ drop (token_next token) raw"
    using scan_number_sound [OF assms] by blast
  have "token_start token = vs \<and> token_end token = token_next token" using assms by (auto simp: scan_number_def)
  then show ?thesis
    using n span_length [OF n(2)] scan_number_forward [OF assms] scan_number_within [OF assms] by auto
qed

lemma other_value_at:
  assumes "skip_value raw vs bound = Inr ve" "vs = skip_whitespace raw i" "vs < length raw"
    and "raw ! vs \<noteq> BYTE_QUOTE" "\<not> (raw ! vs = BYTE_MINUS \<or> is_json_digit (raw ! vs))"
  shows "\<exists>v. json_value v \<and> \<not> json_string v \<and> \<not> json_number v \<and> drop vs raw = v @ drop ve raw \<and> ve = vs + length v"
proof -
  obtain v where v: "json_value v" "drop vs raw = v @ drop ve raw" "ve = vs + length v"
    using skip_value_at [of raw i bound ve] assms(1-3) by blast
  have "\<not> json_string v" "\<not> json_number v"
    using v(2) assms(4,5) drop_here [OF assms(3)] string_front [of v] number_front [of v] by auto
  then show ?thesis using v by blast
qed

lemma scan_id_sound:
  assumes "scan_top_level_id to_f64 raw vs = Inr (r, ve)" "vs = skip_whitespace raw i" "vs < length raw"
  shows "\<exists>v. json_value v \<and> drop vs raw = v @ drop ve raw \<and> ve = vs + length v \<and> id_reads to_f64 v r"
proof -
  have again: "skip_whitespace raw vs = vs" using assms(2) skip_whitespace_again by simp
  consider (string) t where "parse_bounded_string raw vs MAX_SCANNED_TOKEN_BYTES = Inr (t, ve)" "r = Some (Str t)"
    | (number) token where "scan_number raw vs (Some MAX_SCANNED_TOKEN_BYTES) = Inr token" "ve = token_next token"
        "r = (if number_token_has_fraction_or_exponent raw (token_start token) (token_end token) then None
              else map_option Num (to_f64 (slice raw (token_start token) (token_end token))))"
    | (other) "raw ! vs \<noteq> BYTE_QUOTE" "\<not> (raw ! vs = BYTE_MINUS \<or> is_json_digit (raw ! vs))" "r = None"
        "skip_value raw vs None = Inr ve"
    using assms(1,3) again by (auto simp: scan_top_level_id_def Let_def slice_def split: if_splits)
  then show ?thesis
  proof cases
    case string
    then show ?thesis using string_value_at [OF string(1)] string_value by (fastforce simp: id_reads_def)
  next
    case number
    obtain v where v: "json_number v" "drop vs raw = v @ drop ve raw" "ve = vs + length v"
      "token_start token = vs" "token_end token = ve" using number_value_at [OF number(1)] number(2) by auto
    have "r = (if list_ex (\<lambda>b. b = BYTE_DOT \<or> is_exponent_marker b) v then None else map_option Num (to_f64 v))"
      using number(3) v slice_span [OF v(2,3)]
      by (simp add: number_token_has_fraction_or_exponent_def slice_def [symmetric])
    then have "id_reads to_f64 v r" using v(1) string_not_number by (auto simp: id_reads_def integer_token_def)
    then show ?thesis using v number_value by blast
  next
    case other
    obtain v where "json_value v" "\<not> json_string v" "\<not> json_number v" "drop vs raw = v @ drop ve raw" "ve = vs + length v"
      using other_value_at [OF other(4) assms(2,3) other(1,2)] by blast
    then show ?thesis using other(3) by (auto simp: id_reads_def integer_token_def)
  qed
qed

lemma scan_method_sound:
  assumes "scan_top_level_method raw vs = Inr (r, ve)" "vs = skip_whitespace raw i" "vs < length raw"
  shows "\<exists>v. json_value v \<and> drop vs raw = v @ drop ve raw \<and> ve = vs + length v \<and> method_reads v r"
proof -
  have again: "skip_whitespace raw vs = vs" using assms(2) skip_whitespace_again by simp
  show ?thesis
  proof (cases "raw ! vs = BYTE_QUOTE")
    case True
    then obtain t where "parse_bounded_string raw vs MAX_SCANNED_TOKEN_BYTES = Inr (t, ve)" "r = Some t"
      using assms(1,3) again by (auto simp: scan_top_level_method_def Let_def split: if_splits)
    then show ?thesis using string_value_at string_value by (fastforce simp: method_reads_def)
  next
    case False
    then have r: "r = None" "skip_value raw vs None = Inr ve"
      using assms(1,3) again by (auto simp: scan_top_level_method_def Let_def split: if_splits)
    obtain v where v: "json_value v" "drop vs raw = v @ drop ve raw" "ve = vs + length v"
      using skip_value_at [of raw i None ve] r(2) assms(2,3) by blast
    have "\<not> json_string v" using v(2) False drop_here [OF assms(3)] string_front [of v] by auto
    then show ?thesis using v r(1) by (auto simp: method_reads_def)
  qed
qed

lemma scan_field_sound:
  assumes "scan_field to_f64 raw k vs s = Inr (s', ve)" "vs = skip_whitespace raw i" "vs < length raw"
  shows "\<exists>v. json_value v \<and> drop vs raw = v @ drop ve raw \<and> ve = vs + length v \<and> keys s' = keys s
    \<and> (if k = key_id then id_reads to_f64 v (scanned_id s') else scanned_id s' = scanned_id s)
    \<and> (if k = key_method then method_reads v (scanned_method s') else scanned_method s' = scanned_method s)"
proof -
  have apart: "key_id \<noteq> key_method" by (simp add: key_id_def key_method_def)
  consider (id) r where "k = key_id" "scan_top_level_id to_f64 raw vs = Inr (r, ve)" "s' = s\<lparr>scanned_id := r\<rparr>"
    | (meth) r where "k = key_method" "scan_top_level_method raw vs = Inr (r, ve)" "s' = s\<lparr>scanned_method := r\<rparr>"
    | (other) "k \<noteq> key_id" "k \<noteq> key_method" "skip_value raw vs None = Inr ve" "s' = s"
    using assms(1) by (auto simp: scan_field_def split: if_splits)
  then show ?thesis
  proof cases
    case id
    then show ?thesis using scan_id_sound [OF id(2) assms(2,3)] apart by auto
  next
    case meth
    then show ?thesis using scan_method_sound [OF meth(2) assms(2,3)] apart by auto
  next
    case other
    then show ?thesis using skip_value_at [of raw i None ve] assms(2,3) by auto
  qed
qed

text \<open>What the loop carries, over the members read so far.\<close>

definition root_inv :: "(bytes \<Rightarrow> 'f option) \<Rightarrow> bytes \<Rightarrow> member list \<Rightarrow> 'f RootScan \<Rightarrow> bool" where
  "root_inv to_f64 raw ms s = (case keys s of (seen, dups, report) \<Rightarrow>
     seen = set (map fst ms) \<and> dups = set report \<and> says to_f64 raw ms (scanned_id s) (scanned_method s) report)"

lemma report_step:
  assumes "report_ok ks report"
  shows "report_ok (ks @ [k]) (if k \<in> set ks \<and> k \<notin> set report then report @ [k] else report)"
proof -
  have c: "count_list (ks @ [k]) x = count_list ks x + (if x = k then 1 else 0)" for x by simp
  have k: "k \<in> set ks \<longleftrightarrow> 1 \<le> count_list ks k" using count_list_0_iff [of ks k] by auto
  show ?thesis using assms k unfolding report_ok_def c by auto
qed

lemma last_value_snoc: "last_value raw (ms @ [(k, vs, ve)]) x = (if x = k then Some (slice raw vs ve) else last_value raw ms x)"
  by (simp add: last_value_def)

lemma record_step:
  "record_duplicate_key k (set ks, set report, report)
    = (let report' = if k \<in> set ks \<and> k \<notin> set report then report @ [k] else report
       in (set (ks @ [k]), set report', report'))"
  by (auto simp: record_duplicate_key_def Let_def)

lemma field_step:
  assumes "root_inv to_f64 raw ms s" "keys s' = record_duplicate_key k (keys s)"
    and "if k = key_id then id_reads to_f64 (slice raw vs ve) (scanned_id s') else scanned_id s' = scanned_id s"
    and "if k = key_method then method_reads (slice raw vs ve) (scanned_method s') else scanned_method s' = scanned_method s"
  shows "root_inv to_f64 raw (ms @ [(k, vs, ve)]) s'"
proof -
  obtain report where s: "keys s = (set (map fst ms), set report, report)"
    "says to_f64 raw ms (scanned_id s) (scanned_method s) report"
    using assms(1) by (auto simp: root_inv_def)
  define report' where "report' = (if k \<in> set (map fst ms) \<and> k \<notin> set report then report @ [k] else report)"
  have "keys s' = (set (map fst (ms @ [(k, vs, ve)])), set report', report')"
    using assms(2) s(1) record_step [of k "map fst ms" report] by (simp add: report'_def Let_def)
  moreover have "report_ok (map fst (ms @ [(k, vs, ve)])) report'"
    using report_step [of "map fst ms" report k] s(2) by (simp add: says_def report'_def)
  moreover have "case last_value raw (ms @ [(k, vs, ve)]) key_id of None \<Rightarrow> scanned_id s' = None
      | Some v \<Rightarrow> id_reads to_f64 v (scanned_id s')"
    using s(2) assms(3) by (cases "k = key_id") (auto simp: says_def last_value_snoc split: option.splits)
  moreover have "case last_value raw (ms @ [(k, vs, ve)]) key_method of None \<Rightarrow> scanned_method s' = None
      | Some v \<Rightarrow> method_reads v (scanned_method s')"
    using s(2) assms(4) by (cases "k = key_method") (auto simp: says_def last_value_snoc split: option.splits)
  ultimately show ?thesis by (simp add: root_inv_def says_def)
qed

lemma root_start_inv: "root_inv to_f64 raw [] root_start"
  by (simp add: root_inv_def root_start_def says_def last_value_def report_ok_def)

lemma root_round_sound:
  assumes "root_round to_f64 raw i s = Inr (s', out)" "root_inv to_f64 raw ms s"
  shows "\<exists>m j. member_at raw m i j \<and> root_inv to_f64 raw (ms @ [m]) s' \<and> (case out of
      Inl n \<Rightarrow> \<exists>z. blank z \<and> drop j raw = BYTE_COMMA # z @ drop n raw \<and> n = j + 1 + length z
    | Inr at \<Rightarrow> at = j + 1 \<and> drop j raw = BYTE_CLOSE_BRACE # drop at raw)"
proof -
  obtain k a vs ve where r: "parse_bounded_string raw i MAX_SCANNED_TOKEN_BYTES = Inr (k, a)"
    "skip_whitespace raw a < length raw" "raw ! skip_whitespace raw a = BYTE_COLON"
    "vs = skip_whitespace raw (skip_whitespace raw a + 1)" "vs < length raw"
    "scan_field to_f64 raw k vs (s\<lparr>keys := record_duplicate_key k (keys s)\<rparr>) = Inr (s', ve)"
    "skip_whitespace raw ve < length raw"
    "(raw ! skip_whitespace raw ve = BYTE_COMMA \<and> out = Inl (skip_whitespace raw (skip_whitespace raw ve + 1)))
      \<or> (raw ! skip_whitespace raw ve = BYTE_CLOSE_BRACE \<and> out = Inr (skip_whitespace raw ve + 1))"
    using assms(1) by (auto simp: root_round_def Let_def not_le split: if_splits)
  obtain v where v: "json_value v" "drop vs raw = v @ drop ve raw" "ve = vs + length v"
    "keys s' = record_duplicate_key k (keys s)"
    "if k = key_id then id_reads to_f64 v (scanned_id s') else scanned_id s' = scanned_id s"
    "if k = key_method then method_reads v (scanned_method s') else scanned_method s' = scanned_method s"
    using scan_field_sound [OF r(6,4,5)] by auto
  have "root_inv to_f64 raw (ms @ [(k, vs, ve)]) s'"
    using field_step [OF assms(2) v(4)] v(5,6) slice_span [OF v(2,3)] by simp
  then show ?thesis
    using member_read [OF r(1-4) v(1-3)] r(8) member_next [OF r(7)] drop_here [OF r(7)]
    by (intro exI [of _ "(k, vs, ve)"] exI [of _ "skip_whitespace raw ve"]) auto
qed

lemma finish_sound:
  assumes "finish_root_object raw at s = Inr env" "root_inv to_f64 raw ms s"
  shows "blank (drop at raw)"
    and "says to_f64 raw ms (envelope_id env) (envelope_method env) (duplicate_top_level_keys env)"
proof -
  have "skip_whitespace raw at = length raw" using assms(1) by (simp add: finish_root_object_def split: if_splits)
  then show "blank (drop at raw)" using skip_whitespace_sound [of at raw] by auto
  show "says to_f64 raw ms (envelope_id env) (envelope_method env) (duplicate_top_level_keys env)"
    using assms by (auto simp: finish_root_object_def root_inv_def split: if_splits prod.splits)
qed

lemma root_loop_sound:
  "root_loop to_f64 raw i s = Inr env \<Longrightarrow> root_inv to_f64 raw before s \<Longrightarrow> \<exists>ms close. ms \<noteq> [] \<and> members_at raw ms i close
    \<and> blank (drop (close + 1) raw)
    \<and> says to_f64 raw (before @ ms) (envelope_id env) (envelope_method env) (duplicate_top_level_keys env)"
proof (induction to_f64 raw i s arbitrary: before rule: root_loop.induct)
  case (1 to_f64 raw i s)
  obtain s' out where step: "root_round to_f64 raw i s = Inr (s', out)"
    using "1.prems"(1) by (auto simp: root_loop.simps [of to_f64 raw i s] split: sum.splits)
  obtain m j where m: "member_at raw m i j" "root_inv to_f64 raw (before @ [m]) s'"
    "case out of Inl n \<Rightarrow> \<exists>z. blank z \<and> drop j raw = BYTE_COMMA # z @ drop n raw \<and> n = j + 1 + length z
      | Inr at \<Rightarrow> at = j + 1 \<and> drop j raw = BYTE_CLOSE_BRACE # drop at raw"
    using root_round_sound [OF step "1.prems"(2)] by blast
  show ?case
  proof (cases out)
    case (Inl n)
    then have "root_loop to_f64 raw n s' = Inr env"
      using "1.prems"(1) step by (simp add: root_loop.simps [of to_f64 raw i s])
    then obtain ms close where ms: "members_at raw ms n close" "blank (drop (close + 1) raw)"
      "says to_f64 raw ((before @ [m]) @ ms) (envelope_id env) (envelope_method env) (duplicate_top_level_keys env)"
      using "1.IH" [OF step refl Inl _ m(2)] by blast
    obtain z where "blank z" "drop j raw = BYTE_COMMA # z @ drop n raw" "n = j + 1 + length z" using m(3) Inl by auto
    from more_at [OF m(1) this(2,1,3) ms(1)] show ?thesis using ms(2,3) by (intro exI [of _ "m # ms"]) auto
  next
    case (Inr at)
    then have "finish_root_object raw at s' = Inr env"
      using "1.prems"(1) step by (simp add: root_loop.simps [of to_f64 raw i s])
    from finish_sound [OF this m(2)] show ?thesis
      using last_at [OF m(1)] m(3) Inr by (intro exI [of _ "[m]"]) auto
  qed
qed

lemma envelope_sound:
  assumes "scan_json_rpc_envelope to_f64 raw = Inr env"
  shows "\<exists>w ms stop. blank w \<and> raw = w @ drop (length w) raw \<and> object_at raw ms (length w) stop \<and> blank (drop stop raw)
    \<and> says to_f64 raw ms (envelope_id env) (envelope_method env) (duplicate_top_level_keys env)"
proof -
  let ?at = "skip_whitespace raw 0"
  let ?i = "skip_whitespace raw (?at + 1)"
  have at: "?at < length raw" "raw ! ?at = BYTE_OPEN_BRACE" "?i < length raw"
    and cases: "raw ! ?i = BYTE_CLOSE_BRACE \<and> finish_root_object raw (?i + 1) root_start = Inr env
      \<or> root_loop to_f64 raw ?i root_start = Inr env"
    using assms by (auto simp: scan_json_rpc_envelope_def scan_root_object_def Let_def not_le split: if_splits)
  obtain w where w: "blank w" "raw = w @ drop (length w) raw" "?at = length w"
    using skip_whitespace_sound [of 0 raw] by auto
  obtain x where x: "blank x" "drop (length w + 1) raw = x @ drop ?i raw" "?i = length w + 1 + length x"
    using skip_whitespace_sound [of "?at + 1" raw] w(3) by auto
  have opened: "drop (length w) raw = BYTE_OPEN_BRACE # x @ drop ?i raw" using drop_here [OF at(1)] at(2) w(3) x(2) by simp
  from cases have "\<exists>ms stop. object_at raw ms (length w) stop \<and> blank (drop stop raw)
    \<and> says to_f64 raw ms (envelope_id env) (envelope_method env) (duplicate_top_level_keys env)"
  proof
    assume c: "raw ! ?i = BYTE_CLOSE_BRACE \<and> finish_root_object raw (?i + 1) root_start = Inr env"
    then have "drop (length w) raw = BYTE_OPEN_BRACE # x @ BYTE_CLOSE_BRACE # drop (?i + 1) raw"
      using opened drop_here [OF at(3)] by simp
    then have "object_at raw [] (length w) (?i + 1)" using x(1,3) by (auto simp: object_at_def)
    then show ?thesis using finish_sound [OF _ root_start_inv] c by blast
  next
    assume "root_loop to_f64 raw ?i root_start = Inr env"
    from root_loop_sound [OF this root_start_inv] obtain ms close where ms: "ms \<noteq> []" "members_at raw ms ?i close"
      "blank (drop (close + 1) raw)"
      "says to_f64 raw ms (envelope_id env) (envelope_method env) (duplicate_top_level_keys env)" by auto
    then have "object_at raw ms (length w) (close + 1)"
      using x opened unfolding object_at_def by (metis add.assoc)
    then show ?thesis using ms(3,4) by blast
  qed
  then show ?thesis using w by blast
qed

end
