(* ===== verification/Json_Props.thy ===== *)
theory Json_Props
  imports Json_Envelope
begin

text \<open>
  The scanner of relayed frames keeps to the grammar: values are skipped exactly, objects are read as they are
  written, and the envelope says what the last id and the last method of the frame say.
\<close>

section \<open>Values\<close>




section \<open>The bound on number tokens\<close>

lemma bump_bounded: "bump (Some m) start i = bump None start i \<or> bump (Some m) start i = Inl TokenTooLarge"
  by (simp add: bump_def)

lemma digits_loop_bounded:
  "digits_loop raw (Some m) start i = digits_loop raw None start i \<or> digits_loop raw (Some m) start i = Inl TokenTooLarge"
proof (induction raw "None :: nat option" start i rule: digits_loop.induct)
  case (1 raw start i)
  then show ?case
    by (auto simp: digits_loop.simps [of raw "Some m" start i] digits_loop.simps [of raw None start i])
qed

text \<open>Two scans agree up to a token that is too large.\<close>

definition agrees :: "ScanError + 'a \<Rightarrow> ScanError + 'a \<Rightarrow> bool" where
  "agrees bounded unbounded = (bounded = unbounded \<or> bounded = Inl TokenTooLarge)"

lemma agrees_refl [simp]: "agrees r r" "agrees (Inl TokenTooLarge) r"
  by (simp_all add: agrees_def)

lemma agrees_propagate: "agrees r r' \<Longrightarrow> (\<And>a. agrees (f a) (f' a)) \<Longrightarrow> agrees (propagate r f) (propagate r' f')"
  by (cases r'; cases r) (auto simp: agrees_def)

lemma scan_number_bounded: "agrees (scan_number raw i (Some m)) (scan_number raw i None)"
proof -
  have d: "agrees (digits_loop raw (Some m) s j) (digits_loop raw None s j)" for s j
    using digits_loop_bounded by (auto simp: agrees_def)
  have b: "agrees (bump (Some m) s j) (bump None s j)" for s j using bump_bounded by (auto simp: agrees_def)
  have s: "agrees (some_digits raw (Some m) s j) (some_digits raw None s j)" for s j
    using d by (simp add: some_digits_def)
  show ?thesis
    unfolding scan_number_def
    by (intro agrees_propagate agrees_refl)
       (simp_all add: scan_sign_def scan_integer_def scan_fraction_def scan_exponent_def b d s agrees_propagate
         del: no_bound)
qed

lemma begin_bounded:
  "agrees (begin_skipped_value raw i stack (Some m)) (begin_skipped_value raw i stack None)"
  using scan_number_bounded by (simp add: begin_skipped_value_def agrees_propagate)

lemma round_bounded:
  "agrees (skip_round raw (Some m) frame rest i) (skip_round raw None frame rest i)"
  using begin_bounded by (auto simp: skip_round_def split: ContainerFrame.splits ArrayState.splits ObjectState.splits)

lemma skip_loop_bounded: "agrees (skip_loop raw (Some m) stack i) (skip_loop raw None stack i)"
proof (induction raw "None :: nat option" stack i rule: skip_loop.induct)
  case (2 raw frame rest i)
  note step = round_bounded [of raw m frame rest "skip_whitespace raw i"]
  show ?case
  proof (cases "skip_round raw None frame rest (skip_whitespace raw i)")
    case (Inr r)
    obtain n stack where "r = (n, stack)" by (cases r)
    then show ?thesis using Inr step "2.hyps" [OF Inr] by (auto simp: agrees_def)
  qed (use step in \<open>auto simp: agrees_def\<close>)
qed simp

lemma skip_value_bounded: "agrees (skip_value raw i (Some m)) (skip_value raw i None)"
proof -
  note step = begin_bounded [of raw "skip_whitespace raw i" "[]" m]
  show ?thesis
  proof (cases "begin_skipped_value raw (skip_whitespace raw i) [] None")
    case (Inr r)
    obtain n stack where "r = (n, stack)" by (cases r)
    then show ?thesis
      using Inr step skip_loop_bounded [of raw m stack n] by (auto simp: skip_value_def Let_def agrees_def)
  qed (use step in \<open>auto simp: skip_value_def Let_def agrees_def\<close>)
qed

definition never_large :: "ScanError + 'a \<Rightarrow> bool" where
  "never_large r = (r \<noteq> Inl TokenTooLarge)"

lemma never_large_simps [simp]: "never_large (Inr a)" "never_large (Inl MalformedJson)" "\<not> never_large (Inl TokenTooLarge)"
  by (simp_all add: never_large_def)

lemma never_large_propagate: "never_large r \<Longrightarrow> (\<And>a. never_large (f a)) \<Longrightarrow> never_large (propagate r f)"
  by (cases r) (auto simp: never_large_def)

lemma unbounded_string: "never_large (string_loop raw start None esc i)"
proof (induction raw start "None :: nat option" esc i rule: string_loop.induct)
  case (1 raw start esc i)
  then show ?case by (simp add: string_loop.simps [of raw start None esc i])
qed

lemma unbounded_digits: "never_large (digits_loop raw None start i)"
proof (induction raw "None :: nat option" start i rule: digits_loop.induct)
  case (1 raw start i)
  then show ?case by (simp add: digits_loop.simps [of raw None start i])
qed

lemma unbounded_number: "never_large (scan_number raw i None)"
proof -
  have s: "never_large (some_digits raw None s j)" for s j by (simp add: some_digits_def unbounded_digits)
  show ?thesis
    unfolding scan_number_def
    by (intro never_large_propagate never_large_simps)
       (simp_all add: scan_sign_def scan_integer_def scan_fraction_def scan_exponent_def unbounded_digits s)
qed

lemma unbounded_begin: "never_large (begin_skipped_value raw i stack None)"
  by (simp add: begin_skipped_value_def scan_string_bounds_def never_large_propagate unbounded_number unbounded_string)

lemma unbounded_round: "never_large (skip_round raw None frame rest i)"
  by (auto simp: skip_round_def scan_string_bounds_def never_large_propagate unbounded_begin unbounded_string
      split: ContainerFrame.splits ArrayState.splits ObjectState.splits)

lemma unbounded_loop: "never_large (skip_loop raw None stack i)"
proof (induction raw "None :: nat option" stack i rule: skip_loop.induct)
  case (2 raw frame rest i)
  note step = unbounded_round [of raw frame rest "skip_whitespace raw i"]
  show ?case
  proof (cases "skip_round raw None frame rest (skip_whitespace raw i)")
    case (Inr r)
    then show ?thesis using "2.hyps" [OF Inr] by (cases r) simp
  qed (use step in \<open>auto simp: never_large_def\<close>)
qed simp

text \<open>The bound on numbers only ever refuses: the unbounded skip never says that a token is too large, and a
  bounded skip gives what the unbounded one gives or says so.\<close>

theorem number_bound_only_refuses:
  "skip_value raw start None \<noteq> Inl TokenTooLarge
    \<and> skip_value raw start (Some m) \<in> {skip_value raw start None, Inl TokenTooLarge}"
proof -
  have "never_large (skip_value raw start None)"
    using unbounded_begin [of raw "skip_whitespace raw start" "[]"] unbounded_loop
    by (cases "begin_skipped_value raw (skip_whitespace raw start) [] None")
       (auto simp: skip_value_def Let_def never_large_def split: if_splits)
  then show ?thesis using skip_value_bounded [of raw start m] by (auto simp: agrees_def never_large_def)
qed

section \<open>Objects\<close>

text \<open>An object that is scanned is one of the grammar, read as it is written. The entries are its members in
  their order, each with the text that its key denotes and the exact span of its value, a value of the grammar
  whose kind is told by its first byte; and the scan ends where the value skipper ends.\<close>

theorem scanned_object_is_json:
  assumes "scan_object raw start bound = Inr so"
  shows "object_at raw (map span_of (entries so)) start (scanned_end so)
    \<and> list_all (\<lambda>e. value_kind e = classify_value (raw ! value_start e)) (entries so)
    \<and> skip_value raw start None = Inr (scanned_end so)"
proof -
  note so = scan_object_sound [OF assms]
  obtain t where t: "json_value (BYTE_OPEN_BRACE # t)" "drop start raw = (BYTE_OPEN_BRACE # t) @ drop (scanned_end so) raw"
    "scanned_end so = start + length (BYTE_OPEN_BRACE # t)" using object_json [OF so(1)] by blast
  have "\<not> json_number (BYTE_OPEN_BRACE # t)" by (auto dest!: number_front simp: is_json_digit_def)
  then have "skip_value raw start None = Inr (scanned_end so)"
    using skip_value_complete [of start raw "[]" "BYTE_OPEN_BRACE # t"] t by simp
  then show ?thesis using so by blast
qed

definition demo_object :: bytes where
  "demo_object = [0x7B, 0x22, 0x61, 0x5C, 0x6E, 0x22, 0x3A, 0x20, 0x31, 0x2C, 0x22, 0x62, 0x22, 0x3A, 0x5B, 0x5D, 0x7D]"

theorem scanned_object_is_json_witness:
  "object_at demo_object [([0x61, 0x0A], 8, 9), ([0x62], 14, 16)] 0 17"
proof -
  have "scan_object demo_object 0 64 = Inr \<lparr>entries =
      [\<lparr>entry_key = [0x61, 0x0A], value_start = 8, value_end = 9, value_kind = Kind_number\<rparr>,
       \<lparr>entry_key = [0x62], value_start = 14, value_end = 16, value_kind = Kind_array\<rparr>],
      close_index = 16, scanned_end = 17\<rparr>" by code_simp
  from scanned_object_is_json [OF this] show ?thesis by (simp add: span_of_def)
qed

section \<open>Envelopes\<close>




section \<open>Surrogates\<close>

text \<open>A character outside the first plane that is escaped as a surrogate pair, as a JSON encoder with ASCII output
  writes it, is decoded to two replacement characters: here the escapes of a smiling face.\<close>

lemma surrogate_pair_is_lost:
  "decode_json_string_content [0x5C, 0x75, 0x64, 0x38, 0x33, 0x64, 0x5C, 0x75, 0x64, 0x65, 0x30, 0x30]
    = Some [0xFFFD, 0xFFFD]"
proof -
  have "hex_unit [0x64, 0x38, 0x33, 0x64] = Some 0xD83D" "hex_unit [0x64, 0x65, 0x30, 0x30] = Some 0xDE00"
    by (simp_all add: hex_unit_def hex_value_def)
  from denotes_unicode [OF this(1) denotes_unicode [OF this(2) denotes_nothing]] show ?thesis
    unfolding decode_json_denotes by (simp add: char_or_replacement_def is_scalar_def)
qed

end
