(* ===== verification/Command_Journal.thy ===== *)
theory Command_Journal
  imports Text_Units
begin

text \<open>
  The command journal of a session host (crates/freshell-session-host/src/command_journal.rs) and the input
  handler over it (pty.rs, \<open>write_input\<close>). The journal maps the id of a request to the digest of its payload
  and its state, and is written to disk as a whole: a temporary file, a rename, a sync of the directory.
  The digest of a payload is the parameter \<open>sha\<close>; how an access to the disk ends is an argument.
\<close>

section \<open>Records\<close>

datatype CommandState = Queued | Dispatching | ProviderAcked | Completed | Ambiguous | Cancelled

record 'd CommandRecord =
  payload_digest :: 'd
  command_state :: CommandState

type_synonym ('r, 'd) journal_file = "('r, 'd CommandRecord) fmap"

datatype BeginDisposition = Dispatch | Already_completed | Is_ambiguous

text \<open>The codes of \<open>RuntimeErrorCode\<close> that are raised here.\<close>

datatype RuntimeErrorCode =
    RequestIdConflict | InvalidRequest | RegistryFailure | CommandAmbiguous | HostUnreachable

section \<open>The disk\<close>

text \<open>\<open>current\<close> is the file under the journal's name; \<open>unsynced\<close> are the contents that a crash can bring back,
  because the directory was not synced after the rename.\<close>

record ('r, 'd) Disk =
  current :: "('r, 'd) journal_file option"
  unsynced :: "('r, 'd) journal_file option list"

datatype Io = Io_ok | Failed_before_rename | Failed_after_rename

definition persist :: "Io \<Rightarrow> ('r, 'd) journal_file \<Rightarrow> ('r, 'd) Disk \<Rightarrow> bool \<times> ('r, 'd) Disk" where
  "persist io file disk = (case io of
     Io_ok \<Rightarrow> (True, \<lparr>current = Some file, unsynced = []\<rparr>)
   | Failed_before_rename \<Rightarrow> (False, disk)
   | Failed_after_rename \<Rightarrow> (False, \<lparr>current = Some file, unsynced = unsynced disk @ [current disk]\<rparr>))"

section \<open>Operations\<close>

definition interrupted :: "CommandState \<Rightarrow> bool" where
  "interrupted s = (s = Dispatching \<or> s = ProviderAcked)"

definition recover :: "'d CommandRecord \<Rightarrow> 'd CommandRecord" where
  "recover r = (if interrupted (command_state r) then r\<lparr>command_state := Ambiguous\<rparr> else r)"

definition open_journal :: "Io \<Rightarrow> ('r, 'd) Disk \<Rightarrow> ('r, 'd) journal_file option \<times> ('r, 'd) Disk" where
  "open_journal io disk =
     (let file = (case current disk of None \<Rightarrow> fmempty | Some f \<Rightarrow> f);
          recovered = fmmap recover file;
          changed = (\<not> fmpred (\<lambda>_ r. \<not> interrupted (command_state r)) file) in
      if changed then
        (case persist io recovered disk of
           (True, disk') \<Rightarrow> (Some recovered, disk')
         | (False, disk') \<Rightarrow> (None, disk'))
      else (Some recovered, disk))"

fun disposition :: "CommandState \<Rightarrow> BeginDisposition" where
  "disposition Completed = Already_completed"
| "disposition Cancelled = Already_completed"
| "disposition Ambiguous = Is_ambiguous"
| "disposition Dispatching = Is_ambiguous"
| "disposition ProviderAcked = Is_ambiguous"
| "disposition Queued = Dispatch"

type_synonym ('r, 'd, 'a) outcome =
  "(RuntimeErrorCode + 'a) \<times> ('r, 'd) journal_file \<times> ('r, 'd) Disk"

definition begin_command ::
  "(bytes \<Rightarrow> 'd) \<Rightarrow> Io \<Rightarrow> 'r \<Rightarrow> bytes \<Rightarrow> ('r, 'd) journal_file \<Rightarrow> ('r, 'd) Disk
    \<Rightarrow> ('r, 'd, BeginDisposition) outcome" where
  "begin_command sha io req payload file disk =
     (case fmlookup file req of
        Some record \<Rightarrow>
          if payload_digest record \<noteq> sha payload then (Inl RequestIdConflict, file, disk)
          else (Inr (disposition (command_state record)), file, disk)
      | None \<Rightarrow>
          let file' = fmupd req \<lparr>payload_digest = sha payload, command_state = Queued\<rparr> file in
          (case persist io file' disk of
             (True, disk') \<Rightarrow> (Inr Dispatch, file', disk')
           | (False, disk') \<Rightarrow> (Inl RegistryFailure, file', disk')))"

definition set_state ::
  "Io \<Rightarrow> 'r \<Rightarrow> CommandState \<Rightarrow> ('r, 'd) journal_file \<Rightarrow> ('r, 'd) Disk \<Rightarrow> ('r, 'd, unit) outcome" where
  "set_state io req s file disk =
     (case fmlookup file req of
        None \<Rightarrow> (Inl InvalidRequest, file, disk)
      | Some record \<Rightarrow>
          let file' = fmupd req (record\<lparr>command_state := s\<rparr>) file in
          (case persist io file' disk of
             (True, disk') \<Rightarrow> (Inr (), file', disk')
           | (False, disk') \<Rightarrow> (Inl RegistryFailure, file', disk')))"

definition mark_dispatching :: "Io \<Rightarrow> 'r \<Rightarrow> ('r, 'd) journal_file \<Rightarrow> ('r, 'd) Disk \<Rightarrow> ('r, 'd, unit) outcome" where
  "mark_dispatching io req = set_state io req Dispatching"

definition mark_completed :: "Io \<Rightarrow> 'r \<Rightarrow> ('r, 'd) journal_file \<Rightarrow> ('r, 'd) Disk \<Rightarrow> ('r, 'd, unit) outcome" where
  "mark_completed io req = set_state io req Completed"

section \<open>The input handler, call by call\<close>

text \<open>The handler has the host to itself, but a crash can come between any two of its calls. So it is run call by
  call: \<open>busy\<close> is the request being handled and the call that is next. \<open>tty\<close> lists the writes to the terminal
  that were attempted, \<open>acked\<close> those that it reported as done, and \<open>reply\<close> is the answer to the last request.\<close>

datatype Phase = Marking | Writing | Completing

record ('r, 'd) Host =
  journal :: "('r, 'd) journal_file option"
  disk :: "('r, 'd) Disk"
  busy :: "('r \<times> bytes \<times> Phase) option"
  tty :: "('r \<times> bytes) list"
  acked :: "('r \<times> bytes) list"
  reply :: "(RuntimeErrorCode + CommandState) option"

datatype 'r HostEvent =
    Open Io
  | Begin 'r bytes Io
  | Mark Io
  | Write bool
  | Complete Io
  | Crash nat

definition first_boot :: "('r, 'd) Host" where
  "first_boot = \<lparr>journal = None, disk = \<lparr>current = None, unsynced = []\<rparr>, busy = None, tty = [], acked = [], reply = None\<rparr>"

definition finish :: "RuntimeErrorCode + CommandState \<Rightarrow> ('r, 'd) Host \<Rightarrow> ('r, 'd) Host" where
  "finish r h = h\<lparr>busy := None, reply := Some r\<rparr>"

text \<open>A crash loses the memory; the disk keeps the current file, or one of the unsynced ones comes back.\<close>

definition crash_disk :: "nat \<Rightarrow> ('r, 'd) Disk \<Rightarrow> ('r, 'd) Disk" where
  "crash_disk n d = \<lparr>current = (if n < length (unsynced d) then unsynced d ! n else current d), unsynced = []\<rparr>"

fun host_step :: "(bytes \<Rightarrow> 'd) \<Rightarrow> 'r HostEvent \<Rightarrow> ('r, 'd) Host \<Rightarrow> ('r, 'd) Host" where
  "host_step sha (Open io) h =
     (if journal h \<noteq> None then h
      else let (file, d) = open_journal io (disk h) in h\<lparr>journal := file, disk := d\<rparr>)"
| "host_step sha (Begin req payload io) h =
     (case (journal h, busy h) of
        (Some file, None) \<Rightarrow>
          let (r, file', d) = begin_command sha io req payload file (disk h);
              h' = h\<lparr>journal := Some file', disk := d\<rparr> in
          (case r of
             Inl e \<Rightarrow> finish (Inl e) h'
           | Inr Already_completed \<Rightarrow> finish (Inr Completed) h'
           | Inr Is_ambiguous \<Rightarrow> finish (Inl CommandAmbiguous) h'
           | Inr Dispatch \<Rightarrow> h'\<lparr>busy := Some (req, payload, Marking)\<rparr>)
      | _ \<Rightarrow> h)"
| "host_step sha (Mark io) h =
     (case (journal h, busy h) of
        (Some file, Some (req, payload, Marking)) \<Rightarrow>
          let (r, file', d) = mark_dispatching io req file (disk h);
              h' = h\<lparr>journal := Some file', disk := d\<rparr> in
          (case r of
             Inl e \<Rightarrow> finish (Inl e) h'
           | Inr _ \<Rightarrow> h'\<lparr>busy := Some (req, payload, Writing)\<rparr>)
      | _ \<Rightarrow> h)"
| "host_step sha (Write written) h =
     (case busy h of
        Some (req, payload, Writing) \<Rightarrow>
          let h' = h\<lparr>tty := tty h @ [(req, payload)]\<rparr> in
          if written then h'\<lparr>acked := acked h @ [(req, payload)], busy := Some (req, payload, Completing)\<rparr>
          else finish (Inl HostUnreachable) h'
      | _ \<Rightarrow> h)"
| "host_step sha (Complete io) h =
     (case (journal h, busy h) of
        (Some file, Some (req, payload, Completing)) \<Rightarrow>
          let (r, file', d) = mark_completed io req file (disk h);
              h' = h\<lparr>journal := Some file', disk := d\<rparr> in
          (case r of
             Inl e \<Rightarrow> finish (Inl e) h'
           | Inr _ \<Rightarrow> finish (Inr Completed) h')
      | _ \<Rightarrow> h)"
| "host_step sha (Crash n) h = h\<lparr>journal := None, disk := crash_disk n (disk h), busy := None\<rparr>"

definition host_run :: "(bytes \<Rightarrow> 'd) \<Rightarrow> 'r HostEvent list \<Rightarrow> ('r, 'd) Host" where
  "host_run sha evs = fold (host_step sha) evs first_boot"

text \<open>The handler in one piece, as it is written.\<close>

definition write_input ::
  "(bytes \<Rightarrow> 'd) \<Rightarrow> 'r \<Rightarrow> bytes \<Rightarrow> Io \<Rightarrow> Io \<Rightarrow> bool \<Rightarrow> Io \<Rightarrow> ('r, 'd) Host
    \<Rightarrow> ('r, 'd) journal_file \<Rightarrow> (RuntimeErrorCode + CommandState) \<times> ('r, 'd) Host" where
  "write_input sha req payload io1 io2 written io3 h file =
     (let (r, file, d) = begin_command sha io1 req payload file (disk h);
          h = h\<lparr>journal := Some file, disk := d\<rparr> in
      case r of
        Inl e \<Rightarrow> (Inl e, h)
      | Inr Already_completed \<Rightarrow> (Inr Completed, h)
      | Inr Is_ambiguous \<Rightarrow> (Inl CommandAmbiguous, h)
      | Inr Dispatch \<Rightarrow>
          let (r, file, d) = mark_dispatching io2 req file d;
              h = h\<lparr>journal := Some file, disk := d\<rparr> in
          case r of
            Inl e \<Rightarrow> (Inl e, h)
          | Inr _ \<Rightarrow>
              let h = h\<lparr>tty := tty h @ [(req, payload)]\<rparr> in
              if \<not> written then (Inl HostUnreachable, h)
              else
                let h = h\<lparr>acked := acked h @ [(req, payload)]\<rparr>;
                    (r, file, d) = mark_completed io3 req file d;
                    h = h\<lparr>journal := Some file, disk := d\<rparr> in
                case r of
                  Inl e \<Rightarrow> (Inl e, h)
                | Inr _ \<Rightarrow> (Inr Completed, h))"

end
