(* ===== verification/Command_Props.thy ===== *)
theory Command_Props
  imports Command_Journal
begin

text \<open>
  What the journal promises the client that repeats a request: its input reaches the terminal at most once,
  whatever fails or crashes, and it is called completed only when the terminal has taken it.
\<close>

section \<open>The handler and its calls\<close>

fun run_calls :: "(bytes \<Rightarrow> 'd) \<Rightarrow> 'r HostEvent list \<Rightarrow> ('r, 'd) Host \<Rightarrow> ('r, 'd) Host" where
  "run_calls sha [] h = h"
| "run_calls sha (e # es) h = run_calls sha es (host_step sha e h)"

text \<open>Run call by call without a crash, the handler is \<open>write_input\<close>: the same reply, the same journal and disk,
  the same writes.\<close>

theorem handler_is_its_calls:
  assumes "journal h = Some file" and "busy h = None"
  shows "run_calls sha [Begin req payload io1, Mark io2, Write written, Complete io3] h
    = (case write_input sha req payload io1 io2 written io3 h file of (r, h') \<Rightarrow> finish r h')"
proof -
  obtain r1 f1 d1 where one: "begin_command sha io1 req payload file (disk h) = (r1, f1, d1)"
    by (cases "begin_command sha io1 req payload file (disk h)")
  obtain r2 f2 d2 where two: "mark_dispatching io2 req f1 d1 = (r2, f2, d2)"
    by (cases "mark_dispatching io2 req f1 d1")
  obtain r3 f3 d3 where three: "mark_completed io3 req f2 d2 = (r3, f3, d3)"
    by (cases "mark_completed io3 req f2 d2")
  show ?thesis
    using assms one two three
    by (cases r1; cases r2; cases r3; cases written)
       (auto simp: write_input_def finish_def Let_def split: BeginDisposition.splits)
qed

section \<open>What every copy of the journal says\<close>

text \<open>The copies are the one in memory, the one on disk and those that a crash can bring back.\<close>

definition file_of :: "('r, 'd) journal_file option \<Rightarrow> ('r, 'd) journal_file" where
  "file_of c = (case c of None \<Rightarrow> fmempty | Some f \<Rightarrow> f)"

definition on_disk :: "('r, 'd) Disk \<Rightarrow> ('r, 'd) journal_file set" where
  "on_disk d = insert (file_of (current d)) (file_of ` set (unsynced d))"

definition copies :: "('r, 'd) Host \<Rightarrow> ('r, 'd) journal_file set" where
  "copies h = on_disk (disk h) \<union> (case journal h of None \<Rightarrow> {} | Some f \<Rightarrow> {f})"

definition knows :: "(bytes \<Rightarrow> 'd) \<Rightarrow> 'r \<times> bytes \<Rightarrow> ('r, 'd) journal_file \<Rightarrow> bool" where
  "knows sha w f = (case fmlookup f (fst w) of
     None \<Rightarrow> False | Some r \<Rightarrow> payload_digest r = sha (snd w) \<and> command_state r \<noteq> Queued)"

definition honest :: "(bytes \<Rightarrow> 'd) \<Rightarrow> ('r \<times> bytes) set \<Rightarrow> ('r, 'd) journal_file \<Rightarrow> bool" where
  "honest sha done_writes f = (\<forall>req r. fmlookup f req = Some r \<longrightarrow> disposition (command_state r) = Already_completed \<longrightarrow>
     (\<exists>payload. (req, payload) \<in> done_writes \<and> payload_digest r = sha payload))"

fun busy_ok :: "(bytes \<Rightarrow> 'd) \<Rightarrow> ('r, 'd) Host \<Rightarrow> bool" where
  "busy_ok sha h = (case busy h of
     None \<Rightarrow> True
   | Some (req, payload, Marking) \<Rightarrow> req \<notin> fst ` set (tty h)
       \<and> (\<exists>f r. journal h = Some f \<and> fmlookup f req = Some r \<and> payload_digest r = sha payload)
   | Some (req, payload, Writing) \<Rightarrow> req \<notin> fst ` set (tty h)
       \<and> (\<forall>f\<in>copies h. knows sha (req, payload) f)
   | Some (req, payload, Completing) \<Rightarrow> (req, payload) \<in> set (acked h))"

definition host_inv :: "(bytes \<Rightarrow> 'd) \<Rightarrow> ('r, 'd) Host \<Rightarrow> bool" where
  "host_inv sha h = (distinct (map fst (tty h)) \<and> set (acked h) \<subseteq> set (tty h)
     \<and> (\<forall>f\<in>copies h. honest sha (set (acked h)) f \<and> (\<forall>w\<in>set (tty h). knows sha w f))
     \<and> busy_ok sha h)"

lemma first_boot_inv: "host_inv sha first_boot"
  by (simp add: host_inv_def first_boot_def copies_def on_disk_def file_of_def honest_def)

text \<open>A write of the journal leaves copies that it had before or that it wrote.\<close>

lemma persist_copies:
  assumes "persist io f d = (ok, d')"
  shows "on_disk d' \<subseteq> insert f (on_disk d)" and "ok \<Longrightarrow> on_disk d' = {f}"
  using assms by (auto simp: persist_def on_disk_def file_of_def split: Io.splits)

lemma set_state_copies:
  assumes "set_state io req s f d = (r, f', d')" "fmlookup f req = Some c"
  shows "f' = fmupd req (c\<lparr>command_state := s\<rparr>) f" and "on_disk d' \<subseteq> insert f' (on_disk d)"
    and "r = Inr () \<Longrightarrow> on_disk d' = {f'}"
proof -
  obtain ok dd where p: "persist io (fmupd req (c\<lparr>command_state := s\<rparr>) f) d = (ok, dd)"
    by (cases "persist io (fmupd req (c\<lparr>command_state := s\<rparr>) f) d")
  show "f' = fmupd req (c\<lparr>command_state := s\<rparr>) f" "on_disk d' \<subseteq> insert f' (on_disk d)"
    "r = Inr () \<Longrightarrow> on_disk d' = {f'}"
    using assms p persist_copies [OF p] by (auto simp: set_state_def Let_def split: bool.splits)
qed

lemma begin_copies:
  assumes "begin_command sha io req payload f d = (r, f', d')"
  shows "on_disk d' \<subseteq> insert f' (on_disk d)"
    and "f' = f \<or> (fmlookup f req = None \<and> f' = fmupd req \<lparr>payload_digest = sha payload, command_state = Queued\<rparr> f)"
    and "r = Inr Dispatch \<Longrightarrow> \<exists>c. fmlookup f' req = Some c \<and> payload_digest c = sha payload \<and> command_state c = Queued"
    and "r = Inr Already_completed \<Longrightarrow> \<exists>c. fmlookup f req = Some c \<and> payload_digest c = sha payload
      \<and> disposition (command_state c) = Already_completed"
proof -
  have q: "disposition s = Dispatch \<longleftrightarrow> s = Queued" for s by (cases s) simp_all
  let ?new = "fmupd req \<lparr>payload_digest = sha payload, command_state = Queued\<rparr> f"
  obtain ok dd where p: "persist io ?new d = (ok, dd)" by (cases "persist io ?new d")
  show "on_disk d' \<subseteq> insert f' (on_disk d)" "f' = f \<or> (fmlookup f req = None \<and> f' = ?new)"
    "r = Inr Dispatch \<Longrightarrow> \<exists>c. fmlookup f' req = Some c \<and> payload_digest c = sha payload \<and> command_state c = Queued"
    "r = Inr Already_completed \<Longrightarrow> \<exists>c. fmlookup f req = Some c \<and> payload_digest c = sha payload
      \<and> disposition (command_state c) = Already_completed"
    using assms q p persist_copies [OF p]
    by (auto simp: begin_command_def Let_def split: option.splits if_splits bool.splits)
qed

lemma open_copies:
  assumes "open_journal io d = (j, d')"
  shows "on_disk d' \<subseteq> insert (fmmap recover (file_of (current d))) (on_disk d)"
    and "j = None \<or> j = Some (fmmap recover (file_of (current d)))"
proof -
  obtain ok dd where p: "persist io (fmmap recover (file_of (current d))) d = (ok, dd)"
    by (cases "persist io (fmmap recover (file_of (current d))) d")
  show "on_disk d' \<subseteq> insert (fmmap recover (file_of (current d))) (on_disk d)"
    "j = None \<or> j = Some (fmmap recover (file_of (current d)))"
    using assms p persist_copies [OF p] unfolding open_journal_def file_of_def [symmetric]
    by (auto simp: Let_def split: if_splits bool.splits)
qed

section \<open>Every call keeps it\<close>

text \<open>A change of one record keeps what is known when that record is not of a write, or is not queued.\<close>

lemma knows_upd: "knows sha w f \<Longrightarrow> fst w = req \<longrightarrow> payload_digest c = sha (snd w) \<and> command_state c \<noteq> Queued
    \<Longrightarrow> knows sha w (fmupd req c f)"
  by (auto simp: knows_def)

lemma honest_upd: "honest sha ws f \<Longrightarrow> (disposition (command_state c) = Already_completed \<Longrightarrow>
    \<exists>payload. (req, payload) \<in> ws \<and> payload_digest c = sha payload) \<Longrightarrow> honest sha ws (fmupd req c f)"
  by (auto simp: honest_def)

lemma honest_mono: "honest sha ws f \<Longrightarrow> ws \<subseteq> ws' \<Longrightarrow> honest sha ws' f"
  unfolding honest_def by (meson subsetD)

lemma recover_state: "payload_digest (recover r) = payload_digest r"
  "command_state (recover r) \<noteq> Queued \<longleftrightarrow> command_state r \<noteq> Queued"
  "disposition (command_state (recover r)) = Already_completed \<longleftrightarrow> disposition (command_state r) = Already_completed"
  by (cases "command_state r"; simp add: recover_def interrupted_def)+

lemma knows_recover: "knows sha w (fmmap recover f) = knows sha w f"
  by (auto simp: knows_def recover_state split: option.splits)

lemma honest_recover: "honest sha ws f \<Longrightarrow> honest sha ws (fmmap recover f)"
  by (auto simp: honest_def recover_state)

definition copies_ok :: "(bytes \<Rightarrow> 'd) \<Rightarrow> ('r, 'd) Host \<Rightarrow> ('r, 'd) journal_file \<Rightarrow> bool" where
  "copies_ok sha h f = (honest sha (set (acked h)) f \<and> (\<forall>w\<in>set (tty h). knows sha w f))"

lemma host_inv_iff: "host_inv sha h = (distinct (map fst (tty h)) \<and> set (acked h) \<subseteq> set (tty h)
    \<and> (\<forall>f\<in>copies h. copies_ok sha h f) \<and> busy_ok sha h)"
  by (simp add: host_inv_def copies_ok_def)

lemma open_keeps: "host_inv sha h \<Longrightarrow> journal h = None \<Longrightarrow> busy h = None \<Longrightarrow> host_inv sha (host_step sha (Open io) h)"
proof -
  assume h: "host_inv sha h" "journal h = None" "busy h = None"
  obtain j d where o: "open_journal io (disk h) = (j, d)" by (cases "open_journal io (disk h)")
  let ?h = "h\<lparr>journal := j, disk := d\<rparr>"
  have "copies ?h \<subseteq> insert (fmmap recover (file_of (current (disk h)))) (copies h)"
    using open_copies [OF o] by (auto simp: copies_def)
  moreover have "copies_ok sha h (file_of (current (disk h)))"
    using h(1) by (auto simp: host_inv_iff copies_def on_disk_def)
  then have "copies_ok sha h (fmmap recover (file_of (current (disk h))))"
    by (simp add: copies_ok_def knows_recover honest_recover)
  ultimately have "host_inv sha ?h" using h by (auto simp: host_inv_iff copies_ok_def)
  then show ?thesis using h(2) o by simp
qed

lemma begin_keeps:
  assumes "host_inv sha h" "journal h = Some f" "busy h = None"
  shows "host_inv sha (host_step sha (Begin req payload io) h)"
proof -
  obtain r f' d where b: "begin_command sha io req payload f (disk h) = (r, f', d)"
    by (cases "begin_command sha io req payload f (disk h)")
  note c = begin_copies [OF b]
  let ?h = "h\<lparr>journal := Some f', disk := d\<rparr>"
  have f: "copies_ok sha h f" using assms(1,2) by (simp add: host_inv_iff copies_def)
  have new: "copies_ok sha h f'" using c(2)
  proof
    assume n: "fmlookup f req = None \<and> f' = fmupd req \<lparr>payload_digest = sha payload, command_state = Queued\<rparr> f"
    then have "\<forall>w\<in>set (tty h). fst w \<noteq> req" using f by (auto simp: copies_ok_def knows_def)
    then show ?thesis using n f by (auto simp: copies_ok_def intro!: knows_upd honest_upd)
  qed (use f in simp)
  have "copies ?h \<subseteq> insert f' (copies h)" using c(1) by (auto simp: copies_def)
  then have inv: "host_inv sha ?h" using assms new by (auto simp: host_inv_iff copies_ok_def)
  have fresh: "req \<notin> fst ` set (tty h)" if "r = Inr Dispatch"
    using c(3) [OF that] new by (auto simp: copies_ok_def knows_def)
  show ?thesis
  proof (cases "r = Inr Dispatch")
    case True
    then show ?thesis using inv fresh c(3) assms(2,3) b by (auto simp: host_inv_iff copies_def copies_ok_def)
  next
    case False
    then have "host_step sha (Begin req payload io) h = finish (case r of Inl e \<Rightarrow> Inl e
        | Inr d \<Rightarrow> if d = Already_completed then Inr Completed else Inl CommandAmbiguous) ?h"
      using assms(2,3) b by (auto simp: Let_def split: sum.splits BeginDisposition.splits)
    then show ?thesis using inv by (simp add: host_inv_iff finish_def copies_def copies_ok_def)
  qed
qed

lemma mark_keeps:
  assumes "host_inv sha h" "journal h = Some f" "busy h = Some (req, payload, Marking)"
  shows "host_inv sha (host_step sha (Mark io) h)"
proof -
  obtain r f' d where m: "set_state io req Dispatching f (disk h) = (r, f', d)"
    by (cases "set_state io req Dispatching f (disk h)")
  obtain c where c: "fmlookup f req = Some c" "payload_digest c = sha payload" "req \<notin> fst ` set (tty h)"
    using assms by (auto simp: host_inv_iff)
  note s = set_state_copies [OF m c(1)]
  let ?h = "h\<lparr>journal := Some f', disk := d\<rparr>"
  have "copies_ok sha h f" using assms(1,2) by (simp add: host_inv_iff copies_def)
  then have new: "copies_ok sha h f'"
    using c unfolding s(1) copies_ok_def by (force intro!: knows_upd honest_upd)
  have "copies ?h \<subseteq> insert f' (copies h)" using s(2) by (auto simp: copies_def)
  then have all: "\<forall>g\<in>copies ?h. copies_ok sha h g" using assms(1) new by (auto simp: host_inv_iff)
  have "knows sha (req, payload) f'" using c s(1) by (simp add: knows_def)
  then have "\<forall>g\<in>copies ?h. knows sha (req, payload) g" if "r = Inr ()"
    using s(3) [OF that] by (auto simp: copies_def)
  then show ?thesis
    using all c assms m
    by (cases r) (auto simp: mark_dispatching_def finish_def host_inv_iff copies_ok_def copies_def)
qed

lemma write_keeps:
  assumes "host_inv sha h" "busy h = Some (req, payload, Writing)"
  shows "host_inv sha (host_step sha (Write written) h)"
proof -
  have w: "req \<notin> fst ` set (tty h)" "\<forall>f\<in>copies h. knows sha (req, payload) f"
    using assms by (simp_all add: host_inv_iff)
  have "honest sha (set (acked h)) f \<Longrightarrow> honest sha (insert (req, payload) (set (acked h))) f" for f
    by (erule honest_mono) blast
  then show ?thesis
    using assms w by (auto simp: host_inv_iff copies_ok_def copies_def finish_def Let_def)
qed

lemma complete_keeps:
  assumes "host_inv sha h" "journal h = Some f" "busy h = Some (req, payload, Completing)"
  shows "host_inv sha (host_step sha (Complete io) h)"
proof -
  obtain r f' d where m: "set_state io req Completed f (disk h) = (r, f', d)"
    by (cases "set_state io req Completed f (disk h)")
  have f: "copies_ok sha h f" using assms(1,2) by (simp add: host_inv_iff copies_def)
  have a: "(req, payload) \<in> set (acked h)" "(req, payload) \<in> set (tty h)" using assms by (auto simp: host_inv_iff)
  obtain c where c: "fmlookup f req = Some c" "payload_digest c = sha payload"
    using f a(2) by (auto simp: copies_ok_def knows_def split: option.splits)
  note s = set_state_copies [OF m c(1)]
  have same: "sha (snd w) = sha payload" if "w \<in> set (tty h)" "fst w = req" for w
    using f c that by (auto simp: copies_ok_def knows_def split: option.splits)
  let ?h = "h\<lparr>journal := Some f', disk := d\<rparr>"
  have new: "copies_ok sha h f'"
    using f c a(1) same unfolding s(1) copies_ok_def by (force intro!: knows_upd honest_upd)
  have "copies ?h \<subseteq> insert f' (copies h)" using s(2) by (auto simp: copies_def)
  then have "\<forall>g\<in>copies ?h. copies_ok sha h g" using assms(1) new by (auto simp: host_inv_iff)
  then show ?thesis
    using assms m by (cases r) (auto simp: mark_completed_def finish_def host_inv_iff copies_ok_def copies_def)
qed

lemma crash_keeps: "host_inv sha h \<Longrightarrow> host_inv sha (host_step sha (Crash n) h)"
  by (auto simp: host_inv_iff copies_ok_def copies_def on_disk_def crash_disk_def)

definition running :: "('r, 'd) Host \<Rightarrow> bool" where
  "running h = (busy h \<noteq> None \<longrightarrow> journal h \<noteq> None)"

text \<open>A call that is not the next one does nothing.\<close>

lemma host_step_idle:
  "journal h \<noteq> None \<Longrightarrow> host_step sha (Open io) h = h"
  "journal h = None \<or> busy h \<noteq> None \<Longrightarrow> host_step sha (Begin req payload io) h = h"
  "\<nexists>f r p. journal h = Some f \<and> busy h = Some (r, p, Marking) \<Longrightarrow> host_step sha (Mark io) h = h"
  "\<nexists>r p. busy h = Some (r, p, Writing) \<Longrightarrow> host_step sha (Write written) h = h"
  "\<nexists>f r p. journal h = Some f \<and> busy h = Some (r, p, Completing) \<Longrightarrow> host_step sha (Complete io) h = h"
  by (auto split: option.splits Phase.splits)

lemma host_step_inv: "host_inv sha h \<Longrightarrow> running h \<Longrightarrow> host_inv sha (host_step sha e h)"
proof (cases e)
  case (Open io)
  assume "host_inv sha h" "running h"
  then show ?thesis
    using Open open_keeps [of sha h io] host_step_idle(1) [of h sha io]
    by (cases "journal h"; cases "busy h") (auto simp: running_def simp del: host_step.simps)
next
  case (Begin req payload io)
  then show "host_inv sha h \<Longrightarrow> ?thesis"
    by (cases "journal h"; cases "busy h = None") (use begin_keeps host_step_idle(2) [of h sha req payload io] in \<open>auto simp del: host_step.simps\<close>)
next
  case (Mark io)
  then show "host_inv sha h \<Longrightarrow> ?thesis"
    by (cases "\<exists>f r p. journal h = Some f \<and> busy h = Some (r, p, Marking)") (use mark_keeps host_step_idle(3) in metis)+
next
  case (Write written)
  then show "host_inv sha h \<Longrightarrow> ?thesis"
    by (cases "\<exists>r p. busy h = Some (r, p, Writing)") (use write_keeps host_step_idle(4) in metis)+
next
  case (Complete io)
  then show "host_inv sha h \<Longrightarrow> ?thesis"
    by (cases "\<exists>f r p. journal h = Some f \<and> busy h = Some (r, p, Completing)") (use complete_keeps host_step_idle(5) in metis)+
next
  case (Crash n)
  then show "host_inv sha h \<Longrightarrow> ?thesis" using crash_keeps by metis
qed

lemma host_step_running: "running h \<Longrightarrow> running (host_step sha e h)"
  by (cases e) (auto simp: running_def finish_def Let_def
      split: option.splits Phase.splits prod.splits sum.splits BeginDisposition.splits)

lemma host_run_inv: "host_inv sha (host_run sha evs)"
proof -
  have "host_inv sha h \<and> running h \<Longrightarrow> host_inv sha (fold (host_step sha) evs h) \<and> running (fold (host_step sha) evs h)" for h
    by (induction evs arbitrary: h) (simp_all add: host_step_inv host_step_running)
  moreover have "running first_boot" by (simp add: running_def first_boot_def)
  ultimately show ?thesis using first_boot_inv unfolding host_run_def by blast
qed

section \<open>The promises\<close>


text \<open>Completed is the truth. When a request is answered as completed from the journal, the terminal had taken the
  input of that id, and it was a payload of the same digest; and a request with another digest than the one
  recorded for its id is never let through.\<close>

theorem completed_input_was_taken:
  assumes "journal (host_run sha evs) = Some f"
  shows "case begin_command sha io req payload f (disk (host_run sha evs)) of (r, f', d) \<Rightarrow>
    (r = Inr Already_completed \<longrightarrow>
      (\<exists>taken. (req, taken) \<in> set (acked (host_run sha evs)) \<and> sha taken = sha payload))
    \<and> (r = Inr Dispatch \<longrightarrow> req \<notin> fst ` set (tty (host_run sha evs)))
    \<and> (\<forall>c. fmlookup f req = Some c \<longrightarrow> payload_digest c \<noteq> sha payload \<longrightarrow> r = Inl RequestIdConflict)"
proof -
  obtain r f' d where b: "begin_command sha io req payload f (disk (host_run sha evs)) = (r, f', d)"
    by (cases "begin_command sha io req payload f (disk (host_run sha evs))")
  note c = begin_copies [OF b]
  have f: "copies_ok sha (host_run sha evs) f"
    using host_run_inv [of sha evs] assms by (simp add: host_inv_iff copies_def)
  have 1: "\<exists>taken. (req, taken) \<in> set (acked (host_run sha evs)) \<and> sha taken = sha payload" if "r = Inr Already_completed"
    using c(4) [OF that] f by (force simp: copies_ok_def honest_def)
  have 2: "req \<notin> fst ` set (tty (host_run sha evs))" if "r = Inr Dispatch"
    using c(2,3) that f by (force simp: copies_ok_def knows_def split: option.splits)
  have 3: "r = Inl RequestIdConflict" if "fmlookup f req = Some c" "payload_digest c \<noteq> sha payload" for c
    using b that by (simp add: begin_command_def)
  show ?thesis using b 1 2 3 by simp
qed

definition demo_events :: "nat HostEvent list" where
  "demo_events = [Open Io_ok, Begin 1 [65] Io_ok, Mark Io_ok, Write True, Complete Io_ok, Begin 2 [66] Io_ok, Mark Io_ok,
     Write True, Complete Failed_after_rename, Crash 0, Open Io_ok]"

lemma demo_host:
  "\<exists>f. journal (host_run hd demo_events) = Some f
    \<and> fst (begin_command hd io 1 [65] f (disk (host_run hd demo_events))) = Inr Already_completed"
  by (simp add: demo_events_def host_run_def first_boot_def open_journal_def begin_command_def mark_dispatching_def
      mark_completed_def set_state_def persist_def finish_def crash_disk_def recover_def interrupted_def Let_def)

theorem completed_input_was_taken_witness:
  "\<exists>taken. (1, taken) \<in> set (acked (host_run hd demo_events)) \<and> hd taken = 65"
proof -
  obtain f where f: "journal (host_run hd demo_events) = Some f"
    "fst (begin_command hd Io_ok 1 [65] f (disk (host_run hd demo_events))) = Inr Already_completed"
    using demo_host by blast
  from completed_input_was_taken [OF f(1), where io = Io_ok and req = 1 and payload = "[65]"] f(2) show ?thesis
    by (simp split: prod.splits)
qed

end
