(* ===== verification/Output_Journal.thy ===== *)
theory Output_Journal
  imports Text_Units
begin

text \<open>
  The output journal of a session host (crates/freshell-session-host/src/output_journal.rs). Output is cut into
  frames, numbered, appended to a spool of two files that rotate, and kept in a bounded ring; a reader pages
  through both. A spool file is its lines, of which a line that does not parse is None, and what follows the
  last newline. The length of a serialized row is the parameter \<open>row_len\<close>, and how a write ends an argument.
  Sequence numbers and sizes are naturals.
\<close>

definition MAX_TRANSPORT_CHUNK_BYTES :: nat where
  "MAX_TRANSPORT_CHUNK_BYTES = 64 * 1024"

record RuntimeOutputFrame =
  frame_terminal :: string
  frame_epoch :: string
  seq_start :: nat
  seq_end :: nat
  frame_data :: utext

section \<open>The spool\<close>

text \<open>What follows the last newline is nothing, a whole row whose newline was not written, or a fragment.\<close>

datatype Tail = No_tail | Whole_row RuntimeOutputFrame | Fragment

record SpoolFile =
  rows :: "RuntimeOutputFrame option list"
  tail :: Tail
  file_len :: nat

record SpoolDir =
  previous :: "SpoolFile option"
  current :: "SpoolFile option"

datatype SpoolIo =
    Spool_ok | Rotate_failed | Rotate_unsynced | Open_failed | Torn nat | No_newline | Row_unsynced

definition empty_file :: SpoolFile where
  "empty_file = \<lparr>rows = [], tail = No_tail, file_len = 0\<rparr>"

text \<open>A row appended behind a tail completes a line that does not parse.\<close>

definition push_row :: "RuntimeOutputFrame \<Rightarrow> nat \<Rightarrow> SpoolFile \<Rightarrow> SpoolFile" where
  "push_row frame len file =
     file\<lparr>rows := rows file @ [if tail file = No_tail then Some frame else None], tail := No_tail,
          file_len := file_len file + len + 1\<rparr>"

definition push_part :: "Tail \<Rightarrow> nat \<Rightarrow> SpoolFile \<Rightarrow> SpoolFile" where
  "push_part part len file =
     file\<lparr>tail := (if tail file = No_tail then part else Fragment), file_len := file_len file + len\<rparr>"

definition length_on_disk :: "SpoolFile option \<Rightarrow> nat" where
  "length_on_disk file = (case file of None \<Rightarrow> 0 | Some f \<Rightarrow> file_len f)"

definition segment_limit :: "nat \<Rightarrow> nat" where
  "segment_limit spool_limit = max (spool_limit div 2) (MAX_TRANSPORT_CHUNK_BYTES * 2)"

text \<open>The answer is whether the row is in place and synced.\<close>

definition append_spool ::
  "(RuntimeOutputFrame \<Rightarrow> nat) \<Rightarrow> nat \<Rightarrow> SpoolIo \<Rightarrow> RuntimeOutputFrame \<Rightarrow> SpoolDir \<Rightarrow> bool \<times> SpoolDir" where
  "append_spool row_len spool_limit io frame dir =
     (let current_len = length_on_disk (current dir);
          rotate = (0 < current_len \<and> segment_limit spool_limit < current_len + row_len frame + 1);
          dir' = (if rotate then \<lparr>previous = current dir, current = None\<rparr> else dir);
          file = (case current dir' of None \<Rightarrow> empty_file | Some f \<Rightarrow> f) in
      if rotate \<and> io = Rotate_failed then (False, dir\<lparr>previous := None\<rparr>)
      else if rotate \<and> io = Rotate_unsynced then (False, dir')
      else (case io of
          Open_failed \<Rightarrow> (False, dir')
        | Torn n \<Rightarrow> (False, dir'\<lparr>current := Some (if n = 0 then file else push_part Fragment (min n (row_len frame)) file)\<rparr>)
        | No_newline \<Rightarrow> (False, dir'\<lparr>current := Some (push_part (Whole_row frame) (row_len frame) file)\<rparr>)
        | Row_unsynced \<Rightarrow> (False, dir'\<lparr>current := Some (push_row frame (row_len frame) file)\<rparr>)
        | _ \<Rightarrow> (True, dir'\<lparr>current := Some (push_row frame (row_len frame) file)\<rparr>)))"

text \<open>The lines that a reader sees: a tail is a line too.\<close>

definition lines_of :: "SpoolFile option \<Rightarrow> RuntimeOutputFrame option list" where
  "lines_of file = (case file of
     None \<Rightarrow> []
   | Some f \<Rightarrow> rows f @ (case tail f of No_tail \<Rightarrow> [] | Whole_row r \<Rightarrow> [Some r] | Fragment \<Rightarrow> [None]))"

section \<open>The journal\<close>

record OutputJournal =
  terminal_id :: string
  stream_epoch :: string
  dir :: SpoolDir
  ring :: "RuntimeOutputFrame list"
  ring_bytes :: nat
  ring_limit :: nat
  spool_limit :: nat
  next_seq :: nat

text \<open>The highest number of the epoch among the lines that parse.\<close>

definition seed_sequence :: "string \<Rightarrow> SpoolDir \<Rightarrow> nat" where
  "seed_sequence epoch d =
     (let seen = fold (\<lambda>line most. case line of
              None \<Rightarrow> most
            | Some r \<Rightarrow> if frame_epoch r = epoch then max most (seq_end r) else most)
          (lines_of (previous d) @ lines_of (current d)) 0
      in max (seen + 1) 1)"

definition with_limits :: "SpoolDir \<Rightarrow> string \<Rightarrow> string \<Rightarrow> nat \<Rightarrow> nat \<Rightarrow> OutputJournal" where
  "with_limits d terminal epoch ring_max spool_max =
     \<lparr>terminal_id = terminal, stream_epoch = epoch, dir = d, ring = [], ring_bytes = 0,
      ring_limit = max ring_max MAX_TRANSPORT_CHUNK_BYTES, spool_limit = max spool_max (MAX_TRANSPORT_CHUNK_BYTES * 4),
      next_seq = seed_sequence epoch d\<rparr>"

text \<open>\<open>configured_bytes\<close>: the value of an environment variable, as \<open>parse\<close> reads it, or the default.\<close>

definition configured_bytes :: "nat option \<Rightarrow> nat \<Rightarrow> nat" where
  "configured_bytes parsed fallback =
     (case parsed of Some v \<Rightarrow> if 0 < v \<and> v \<le> 1024 * 1024 * 1024 then v else fallback | None \<Rightarrow> fallback)"

text \<open>The longest front of a text that has at most \<open>n\<close> bytes: the byte position moved back to a boundary.\<close>

fun fitting :: "nat \<Rightarrow> utext \<Rightarrow> utext" where
  "fitting n [] = []"
| "fitting n (c # t) = (if len_utf8 c \<le> n then c # fitting (n - len_utf8 c) t else [])"

text \<open>One chunk: what fits, or a single character that does not.\<close>

definition next_chunk :: "nat \<Rightarrow> utext \<Rightarrow> utext" where
  "next_chunk max_bytes t = (let front = fitting (max max_bytes 1) t in if front = [] then take 1 t else front)"

lemma next_chunk_pos: "t \<noteq> [] \<Longrightarrow> 0 < length (next_chunk n t)"
  by (simp add: next_chunk_def Let_def)

function split_utf8 :: "utext \<Rightarrow> nat \<Rightarrow> utext list" where
  "split_utf8 data max_bytes =
     (if data = [] then []
      else next_chunk max_bytes data # split_utf8 (drop (length (next_chunk max_bytes data)) data) max_bytes)"
  by pat_completeness auto
termination by (relation "measure (\<lambda>(data, n). length data)") (auto intro!: diff_less dest: next_chunk_pos)

declare split_utf8.simps [simp del]

text \<open>The ring drops from its front while it is over its limit.\<close>

fun evict :: "nat \<Rightarrow> RuntimeOutputFrame list \<Rightarrow> nat \<Rightarrow> RuntimeOutputFrame list \<times> nat" where
  "evict limit [] bytes = ([], bytes)"
| "evict limit (f # fs) bytes =
     (if limit < bytes then evict limit fs (bytes - byte_len (frame_data f)) else (f # fs, bytes))"

text \<open>One chunk of \<open>append\<close>; the sequence number is used up whether or not the row could be written.\<close>

definition append_chunk ::
  "(RuntimeOutputFrame \<Rightarrow> nat) \<Rightarrow> SpoolIo \<Rightarrow> utext \<Rightarrow> OutputJournal \<Rightarrow> RuntimeOutputFrame option \<times> OutputJournal" where
  "append_chunk row_len io chunk j =
     (let frame = \<lparr>frame_terminal = terminal_id j, frame_epoch = stream_epoch j, seq_start = next_seq j,
                   seq_end = next_seq j, frame_data = chunk\<rparr>;
          j = j\<lparr>next_seq := next_seq j + 1\<rparr>;
          (ok, d) = append_spool row_len (spool_limit j) io frame (dir j);
          j = j\<lparr>dir := d\<rparr> in
      if \<not> ok then (None, j)
      else let (kept, bytes) = evict (ring_limit j) (ring j @ [frame]) (ring_bytes j + byte_len chunk)
           in (Some frame, j\<lparr>ring := kept, ring_bytes := bytes\<rparr>))"

text \<open>\<open>append\<close> stops at the first row that fails; None is its error. The outcomes of the writes are a list.\<close>

fun append_chunks ::
  "(RuntimeOutputFrame \<Rightarrow> nat) \<Rightarrow> SpoolIo list \<Rightarrow> utext list \<Rightarrow> RuntimeOutputFrame list \<Rightarrow> OutputJournal
    \<Rightarrow> RuntimeOutputFrame list option \<times> OutputJournal" where
  "append_chunks row_len ios [] written j = (Some written, j)"
| "append_chunks row_len ios (chunk # chunks) written j =
     (case append_chunk row_len (case ios of [] \<Rightarrow> Spool_ok | io # _ \<Rightarrow> io) chunk j of
        (None, j') \<Rightarrow> (None, j')
      | (Some frame, j') \<Rightarrow> append_chunks row_len (drop 1 ios) chunks (written @ [frame]) j')"

definition append_output ::
  "(RuntimeOutputFrame \<Rightarrow> nat) \<Rightarrow> SpoolIo list \<Rightarrow> utext \<Rightarrow> OutputJournal
    \<Rightarrow> RuntimeOutputFrame list option \<times> OutputJournal" where
  "append_output row_len ios data j = append_chunks row_len ios (split_utf8 data MAX_TRANSPORT_CHUNK_BYTES) [] j"

definition head_seq :: "OutputJournal \<Rightarrow> nat" where
  "head_seq j = next_seq j - 1"

definition spool_bytes :: "OutputJournal \<Rightarrow> nat" where
  "spool_bytes j = length_on_disk (previous (dir j)) + length_on_disk (current (dir j))"

section \<open>Reading\<close>

text \<open>The frames by number: a sorted list of the numbers with their frames, the last insertion of a number wins.\<close>

fun insert_seq :: "RuntimeOutputFrame \<Rightarrow> RuntimeOutputFrame list \<Rightarrow> RuntimeOutputFrame list" where
  "insert_seq f [] = [f]"
| "insert_seq f (g # gs) =
     (if seq_start f < seq_start g then f # g # gs
      else if seq_start f = seq_start g then f # gs
      else g # insert_seq f gs)"

text \<open>A line that does not parse fails the read.\<close>

fun collect_lines :: "string \<Rightarrow> RuntimeOutputFrame option list \<Rightarrow> RuntimeOutputFrame list \<Rightarrow> RuntimeOutputFrame list option" where
  "collect_lines epoch [] by_seq = Some by_seq"
| "collect_lines epoch (None # ls) by_seq = None"
| "collect_lines epoch (Some r # ls) by_seq =
     collect_lines epoch ls (if frame_epoch r = epoch then insert_seq r by_seq else by_seq)"

fun fill_page :: "nat \<Rightarrow> RuntimeOutputFrame list \<Rightarrow> nat \<Rightarrow> RuntimeOutputFrame list \<Rightarrow> RuntimeOutputFrame list \<times> bool" where
  "fill_page budget [] used frames = (frames, False)"
| "fill_page budget (f # fs) used frames =
     (let cost = max (byte_len (frame_data f)) 1 in
      if frames \<noteq> [] \<and> budget < used + cost then (frames, True)
      else if budget < cost \<and> frames = [] then
        (case split_utf8 (frame_data f) budget of
           [] \<Rightarrow> fill_page budget fs used frames
         | first # _ \<Rightarrow> (frames @ [f\<lparr>frame_data := first\<rparr>], True))
      else fill_page budget fs (used + cost) (frames @ [f]))"

record RuntimeOutputBatch =
  retained_from_seq :: nat
  batch_head_seq :: nat
  reset_required :: bool
  truncated :: bool
  frames :: "RuntimeOutputFrame list"

definition read_output :: "OutputJournal \<Rightarrow> nat \<Rightarrow> nat \<Rightarrow> RuntimeOutputBatch option" where
  "read_output j after_seq max_bytes =
     (let budget = min (max max_bytes 1) MAX_TRANSPORT_CHUNK_BYTES in
      case collect_lines (stream_epoch j) (lines_of (previous (dir j)) @ lines_of (current (dir j))) [] of
        None \<Rightarrow> None
      | Some spooled \<Rightarrow>
          let by_seq = fold insert_seq (ring j) spooled;
              retained = (case by_seq of [] \<Rightarrow> next_seq j | f # _ \<Rightarrow> seq_start f);
              head = head_seq j;
              reset = (head < after_seq \<or> after_seq + 1 < retained);
              effective = (if reset then retained - 1 else after_seq);
              (page, more) = fill_page budget (filter (\<lambda>f. effective + 1 \<le> seq_start f) by_seq) 0 [] in
          Some \<lparr>retained_from_seq = retained, batch_head_seq = head, reset_required = reset,
                truncated = (reset \<or> more), frames = page\<rparr>)"

end
