(* ===== verification/Journal_Props.thy ===== *)
theory Journal_Props
  imports Output_Journal
begin

text \<open>
  What a reader of the output journal sees. While the writes succeed, the spool and the ring together hold an
  unbroken run of the newest frames, and a reader pages through it without a gap.
\<close>

section \<open>Chunks\<close>

lemma fitting_prefix: "\<exists>r. t = fitting n t @ r"
  by (induction n t rule: fitting.induct) auto

lemma fitting_bytes: "byte_len (fitting n t) \<le> n"
  by (induction n t rule: fitting.induct) auto

lemma next_chunk_prefix: "t = next_chunk n t @ drop (length (next_chunk n t)) t"
proof (cases "fitting (max n 1) t = []")
  case True
  then show ?thesis by (cases t) (simp_all add: next_chunk_def Let_def)
next
  case False
  define f where "f = fitting (max n 1) t"
  obtain r where r: "t = f @ r" using fitting_prefix unfolding f_def by blast
  then have "drop (length f) t = r" by (metis append_eq_conv_conj)
  moreover have "next_chunk n t = f" using False by (simp add: next_chunk_def f_def Let_def)
  ultimately show ?thesis using r by simp
qed

lemma next_chunk_bytes: "byte_len (next_chunk n t) \<le> max n 4"
proof -
  have "byte_len (take 1 t) \<le> 4" by (cases t) (simp_all add: len_utf8_def)
  then show ?thesis using fitting_bytes [of "max n 1" t] by (auto simp: next_chunk_def Let_def)
qed

text \<open>The chunks of a text are the text, none of them is empty, and none is longer than the bound, or than the
  four bytes of one character.\<close>

lemma split_utf8_chunks:
  "concat (split_utf8 data n) = data \<and> list_all (\<lambda>c. c \<noteq> [] \<and> byte_len c \<le> max n 4) (split_utf8 data n)"
proof (induction data n rule: split_utf8.induct)
  case (1 data n)
  show ?case
  proof (cases "data = []")
    case False
    then show ?thesis
      using 1 next_chunk_prefix [of data n] next_chunk_bytes [of n data] next_chunk_pos [of data n]
      by (auto simp: split_utf8.simps [of data n])
  qed (simp add: split_utf8.simps [of "[]"])
qed

section \<open>Unbroken runs\<close>

text \<open>A log of the texts appended so far; the frame of number \<open>s\<close> carries the text \<open>s - 1\<close>.\<close>

definition log_frame :: "OutputJournal \<Rightarrow> utext list \<Rightarrow> nat \<Rightarrow> RuntimeOutputFrame" where
  "log_frame j log s = \<lparr>frame_terminal = terminal_id j, frame_epoch = stream_epoch j, seq_start = s, seq_end = s,
     frame_data = log ! (s - 1)\<rparr>"

definition run_frames :: "OutputJournal \<Rightarrow> utext list \<Rightarrow> nat \<Rightarrow> RuntimeOutputFrame list" where
  "run_frames j log m = map (log_frame j log) [Suc m ..< Suc (length log)]"

lemma run_frames_snoc:
  "m \<le> length log \<Longrightarrow> run_frames j (log @ [t]) m = run_frames j log m @ [log_frame j (log @ [t]) (Suc (length log))]"
  by (auto simp: run_frames_def log_frame_def nth_append)

lemma run_frames_tl: "m < length log \<Longrightarrow> run_frames j log m = log_frame j log (Suc m) # run_frames j log (Suc m)"
  by (simp add: run_frames_def upt_conv_Cons del: upt_Suc)

lemma run_frames_end [simp]: "run_frames j log (length log) = []"
  by (simp add: run_frames_def)

lemma run_frames_seq [simp]: "map seq_start (run_frames j log m) = [Suc m ..< Suc (length log)]"
  by (simp add: run_frames_def log_frame_def comp_def del: upt_Suc)

text \<open>Insertion by number keeps the list sorted and adds the frame, when equal numbers mean equal frames.\<close>

definition by_number :: "RuntimeOutputFrame list \<Rightarrow> bool" where
  "by_number fs = sorted_wrt (<) (map seq_start fs)"

definition agree :: "RuntimeOutputFrame set \<Rightarrow> bool" where
  "agree fs = inj_on seq_start fs"

lemma insert_seq_set:
  "by_number fs \<Longrightarrow> agree (insert f (set fs)) \<Longrightarrow> set (insert_seq f fs) = insert f (set fs)"
proof (induction fs)
  case (Cons g gs)
  have "agree (insert f (set gs))"
    using Cons.prems(2) unfolding agree_def by (rule inj_on_subset) auto
  moreover have "seq_start f = seq_start g \<Longrightarrow> f = g" using Cons.prems(2) by (auto simp: agree_def dest: inj_onD)
  ultimately show ?case using Cons by (auto simp: by_number_def)
qed simp

lemma insert_seq_starts: "set (map seq_start (insert_seq f fs)) = insert (seq_start f) (set (map seq_start fs))"
  by (induction fs) auto

lemma insert_seq_sorted: "by_number fs \<Longrightarrow> by_number (insert_seq f fs)"
proof (induction fs)
  case (Cons g gs)
  then have ih: "by_number (insert_seq f gs)" by (simp add: by_number_def)
  have starts: "seq_start ` set (insert_seq f gs) = insert (seq_start f) (seq_start ` set gs)"
    using insert_seq_starts [of f gs] by simp
  show ?case
  proof (cases "seq_start g < seq_start f")
    case True
    then have "\<forall>s\<in>seq_start ` set (insert_seq f gs). seq_start g < s"
      using Cons.prems unfolding starts by (auto simp: by_number_def)
    then show ?thesis using ih True by (auto simp: by_number_def)
  qed (use Cons.prems in \<open>auto simp: by_number_def\<close>)
qed (simp add: by_number_def)

lemma fold_insert:
  "by_number fs \<Longrightarrow> agree (set fs \<union> set gs) \<Longrightarrow>
    by_number (fold insert_seq gs fs) \<and> set (fold insert_seq gs fs) = set fs \<union> set gs"
proof (induction gs arbitrary: fs)
  case (Cons g gs)
  have "agree (insert g (set fs))" using Cons.prems(2) unfolding agree_def by (rule inj_on_subset) auto
  then have "set (insert_seq g fs) = insert g (set fs)" using insert_seq_set Cons.prems(1) by blast
  then show ?case
    using Cons.IH [of "insert_seq g fs"] Cons.prems insert_seq_sorted [of fs g] by simp
qed simp

lemma by_number_unique:
  assumes "by_number xs" "by_number ys" "set xs = set ys" "agree (set xs)"
  shows "xs = ys"
proof -
  have "map seq_start xs = map seq_start ys"
    using assms(1-3) by (intro strict_sorted_equal) (simp_all add: by_number_def)
  moreover have "inj_on seq_start (set xs \<union> set ys)" using assms(3,4) by (simp add: agree_def)
  ultimately show ?thesis by (rule map_inj_on)
qed

lemma run_frames_by_number: "by_number (run_frames j log m)"
  by (simp add: by_number_def del: upt_Suc)

lemma run_frames_set: "set (run_frames j log m) = log_frame j log ` {Suc m .. length log}"
  by (simp add: run_frames_def atLeastLessThanSuc_atLeastAtMost del: upt_Suc)

lemma run_frames_agree: "agree (log_frame j log ` S)"
  by (auto simp: agree_def inj_on_def log_frame_def)

lemma runs_join:
  "fold insert_seq (run_frames j log r) (run_frames j log m) = run_frames j log (min m r)"
proof -
  have sets: "set (run_frames j log m) \<union> set (run_frames j log r) = set (run_frames j log (min m r))"
    unfolding run_frames_set image_Un [symmetric] by (intro arg_cong [where f = "image _"]) auto
  have agr: "agree (set (run_frames j log (min m r)))" unfolding run_frames_set by (rule run_frames_agree)
  note j = fold_insert [OF run_frames_by_number, of j log m "run_frames j log r"]
  show ?thesis
    using by_number_unique j agr sets run_frames_by_number by metis
qed

lemma run_from_nothing: "fold insert_seq (run_frames j log m) [] = run_frames j log m"
proof -
  have agr: "agree (set (run_frames j log m))" unfolding run_frames_set by (rule run_frames_agree)
  have "by_number []" by (simp add: by_number_def)
  from fold_insert [OF this, of "run_frames j log m"] show ?thesis
    using by_number_unique agr run_frames_by_number by (metis sup_bot.left_neutral list.set(1))
qed

section \<open>The spool and the ring over the log\<close>

definition clean_lines :: "SpoolFile option \<Rightarrow> RuntimeOutputFrame list \<Rightarrow> bool" where
  "clean_lines file rs = (case file of None \<Rightarrow> rs = [] | Some f \<Rightarrow> rows f = map Some rs \<and> tail f = No_tail)"

lemma clean_lines_of: "clean_lines file rs \<Longrightarrow> lines_of file = map Some rs"
  by (auto simp: clean_lines_def lines_of_def split: option.splits)

definition of_epoch :: "OutputJournal \<Rightarrow> RuntimeOutputFrame list \<Rightarrow> RuntimeOutputFrame list" where
  "of_epoch j rs = filter (\<lambda>r. frame_epoch r = stream_epoch j) rs"

definition ring_size :: "RuntimeOutputFrame list \<Rightarrow> nat" where
  "ring_size fs = sum_list (map (\<lambda>f. byte_len (frame_data f)) fs)"

lemma evict_keeps:
  assumes "evict limit fs b = (gs, c)" "b = ring_size fs"
  shows "c = ring_size gs \<and> c \<le> limit \<and> (\<exists>k\<le>length fs. gs = drop k fs \<and> (\<forall>i<k. limit < ring_size (drop i fs)))"
  using assms
proof (induction limit fs b arbitrary: gs c rule: evict.induct)
  case (2 limit f fs b)
  show ?case
  proof (cases "limit < b")
    case True
    then have "evict limit fs (b - byte_len (frame_data f)) = (gs, c)" "b - byte_len (frame_data f) = ring_size fs"
      using "2.prems" by (simp_all add: ring_size_def)
    from "2.IH" [OF True this] obtain k where "c = ring_size gs" "c \<le> limit" "k \<le> length fs" "gs = drop k fs"
      "\<forall>i<k. limit < ring_size (drop i fs)" by blast
    then show ?thesis using True "2.prems"(2) by (intro conjI exI [of _ "Suc k"]) (auto simp: less_Suc_eq_0_disj)
  next
    case False
    then show ?thesis using "2.prems" by (intro conjI exI [of _ 0]) auto
  qed
qed (simp add: ring_size_def)

lemma run_frames_drop: "k \<le> length log - m \<Longrightarrow> drop k (run_frames j log m) = run_frames j log (m + k)"
  by (simp add: run_frames_def drop_map drop_upt del: upt_Suc)

lemma byte_len_concat: "byte_len (concat ts) = sum_list (map byte_len ts)"
  by (induction ts) simp_all

lemma run_frames_texts: "map frame_data (run_frames j log i) = drop i log"
  by (rule nth_equalityI) (auto simp: run_frames_def log_frame_def simp del: upt_Suc)

lemma run_frames_size: "ring_size (run_frames j log i) = byte_len (concat (drop i log))"
  unfolding ring_size_def byte_len_concat run_frames_texts [of j log i, symmetric] by (simp add: comp_def)

lemma run_frames_same: "terminal_id j' = terminal_id j \<Longrightarrow> stream_epoch j' = stream_epoch j \<Longrightarrow> run_frames j' log m = run_frames j log m"
  by (simp add: run_frames_def log_frame_def)

lemma append_spool_clean:
  assumes "append_spool row_len limit Spool_ok f d = (ok, d')"
    and "clean_lines (previous d) old" "clean_lines (current d) new"
  shows "ok \<and> (clean_lines (previous d') old \<and> clean_lines (current d') (new @ [f])
    \<or> clean_lines (previous d') new \<and> clean_lines (current d') [f])"
  using assms
  by (auto simp: append_spool_def clean_lines_def empty_file_def push_row_def length_on_disk_def Let_def
      split: if_splits option.splits)

definition ring_over :: "OutputJournal \<Rightarrow> utext list \<Rightarrow> RuntimeOutputFrame list \<Rightarrow> nat \<Rightarrow> bool" where
  "ring_over j log fs limit = (\<exists>r\<le>length log. fs = run_frames j log r
     \<and> (\<forall>i. byte_len (concat (drop i log)) \<le> limit \<longrightarrow> r \<le> i))"

lemma ring_grows:
  assumes "ring_over j log fs limit" "f = log_frame j (log @ [t]) (Suc (length log))"
    and "evict limit (fs @ [f]) (ring_size fs + byte_len t) = (gs, c)"
  shows "ring_over j (log @ [t]) gs limit \<and> c = ring_size gs \<and> c \<le> limit"
proof -
  let ?log = "log @ [t]"
  obtain q where q: "q \<le> length log" "fs = run_frames j log q" "\<And>i. byte_len (concat (drop i log)) \<le> limit \<Longrightarrow> q \<le> i"
    using assms(1) by (auto simp: ring_over_def)
  have whole: "fs @ [f] = run_frames j ?log q" using run_frames_snoc [OF q(1)] q(2) assms(2) by simp
  have "ring_size fs + byte_len t = ring_size (fs @ [f])" using assms(2) by (simp add: ring_size_def log_frame_def)
  from evict_keeps [OF assms(3) this] obtain k where k: "c = ring_size gs" "c \<le> limit" "k \<le> length (fs @ [f])"
    "gs = drop k (fs @ [f])" "\<forall>i<k. limit < ring_size (drop i (fs @ [f]))" by blast
  have "length (fs @ [f]) = Suc (length log) - q" unfolding whole by (simp add: run_frames_def del: upt_Suc)
  then have le: "q + k \<le> length ?log" using k(3) q(1) by simp
  have part: "drop i (fs @ [f]) = run_frames j ?log (q + i)" if "i \<le> k" for i
    using run_frames_drop [of i ?log q j] whole le that by simp
  have "q + k \<le> i" if i: "byte_len (concat (drop i ?log)) \<le> limit" for i
  proof (rule ccontr)
    assume less: "\<not> q + k \<le> i"
    have "byte_len (concat (drop i log)) \<le> byte_len (concat (drop i ?log))" by simp
    then have "q \<le> i" using q(3) i by simp
    then have "i - q < k" "q + (i - q) = i" using less by simp_all
    then have "limit < ring_size (run_frames j ?log i)" using k(5) part [of "i - q"] by (metis less_imp_le)
    then show False using run_frames_size [of j ?log i] i by simp
  qed
  then show ?thesis using k part [of k] le unfolding ring_over_def by blast
qed

definition spool_over :: "OutputJournal \<Rightarrow> utext list \<Rightarrow> SpoolDir \<Rightarrow> bool" where
  "spool_over j log d = (\<exists>old new m n. clean_lines (previous d) old \<and> clean_lines (current d) new
     \<and> m \<le> n \<and> n \<le> length log \<and> of_epoch j (old @ new) = run_frames j log m \<and> of_epoch j new = run_frames j log n)"

lemma spool_grows:
  assumes "spool_over j log d" "f = log_frame j (log @ [t]) (Suc (length log))"
    and "append_spool row_len limit Spool_ok f d = (ok, d')"
  shows "ok \<and> spool_over j (log @ [t]) d'"
proof -
  let ?log = "log @ [t]"
  obtain old new m n where s: "clean_lines (previous d) old" "clean_lines (current d) new" "m \<le> n"
    "n \<le> length log" "of_epoch j (old @ new) = run_frames j log m" "of_epoch j new = run_frames j log n"
    using assms(1) by (auto simp: spool_over_def)
  note clean = append_spool_clean [OF assms(3) s(1,2)]
  note grow = run_frames_snoc [of _ log j t]
  have "of_epoch j [f] = run_frames j ?log (length log)"
    using grow [of "length log"] assms(2) by (simp add: of_epoch_def log_frame_def)
  moreover have "of_epoch j (new @ [f]) = run_frames j ?log n"
    using grow [OF s(4)] s(6) assms(2) by (simp add: of_epoch_def log_frame_def)
  moreover have "of_epoch j (old @ new @ [f]) = run_frames j ?log m"
    using grow [of m] s(3-5) assms(2) by (simp add: of_epoch_def log_frame_def)
  ultimately show ?thesis
    unfolding spool_over_def using clean s(3,4) by (metis le_SucI length_append_singleton append.assoc le_refl)
qed

definition journal_inv :: "OutputJournal \<Rightarrow> utext list \<Rightarrow> bool" where
  "journal_inv j log = (next_seq j = Suc (length log) \<and> ring_bytes j = ring_size (ring j)
     \<and> ring_over j log (ring j) (ring_limit j) \<and> spool_over j log (dir j))"

lemma append_chunk_ok:
  assumes "journal_inv j log" "append_chunk row_len Spool_ok t j = (r, j')"
  shows "r = Some (log_frame j (log @ [t]) (Suc (length log))) \<and> journal_inv j' (log @ [t]) \<and> ring_limit j' = ring_limit j"
proof -
  let ?f = "log_frame j (log @ [t]) (Suc (length log))"
  have f: "?f = \<lparr>frame_terminal = terminal_id j, frame_epoch = stream_epoch j, seq_start = next_seq j,
      seq_end = next_seq j, frame_data = t\<rparr>" using assms(1) by (simp add: log_frame_def journal_inv_def)
  obtain ok d where d: "append_spool row_len (spool_limit j) Spool_ok ?f (dir j) = (ok, d)"
    by (cases "append_spool row_len (spool_limit j) Spool_ok ?f (dir j)")
  obtain kept bytes where e: "evict (ring_limit j) (ring j @ [?f]) (ring_size (ring j) + byte_len t) = (kept, bytes)"
    by (cases "evict (ring_limit j) (ring j @ [?f]) (ring_size (ring j) + byte_len t)")
  have spool: "ok \<and> spool_over j (log @ [t]) d"
    using spool_grows [OF _ refl d] assms(1) by (simp add: journal_inv_def)
  have memory: "ring_over j (log @ [t]) kept (ring_limit j) \<and> bytes = ring_size kept"
    using ring_grows [OF _ refl e] assms(1) by (simp add: journal_inv_def)
  have r: "r = Some ?f" "j' = j\<lparr>next_seq := next_seq j + 1, dir := d, ring := kept, ring_bytes := bytes\<rparr>"
    using assms spool d e f by (auto simp: append_chunk_def Let_def journal_inv_def)
  have "run_frames j' = run_frames j" "of_epoch j' = of_epoch j"
    unfolding r(2) by (simp_all add: fun_eq_iff run_frames_def log_frame_def of_epoch_def)
  then have "ring_over j' = ring_over j" "spool_over j' = spool_over j"
    by (simp_all add: fun_eq_iff ring_over_def spool_over_def)
  then show ?thesis using spool memory assms(1) r by (simp add: journal_inv_def)
qed

lemma append_chunks_ok:
  "journal_inv j log \<Longrightarrow> \<exists>fs j'. append_chunks row_len [] chunks w j = (Some (w @ fs), j') \<and> journal_inv j' (log @ chunks)
    \<and> ring_limit j' = ring_limit j"
proof (induction chunks arbitrary: j log w)
  case (Cons t chunks)
  obtain r j1 where a: "append_chunk row_len Spool_ok t j = (r, j1)" by (cases "append_chunk row_len Spool_ok t j")
  note ok = append_chunk_ok [OF Cons.prems a]
  then obtain f where f: "r = Some f" "journal_inv j1 (log @ [t])" by blast
  from Cons.IH [OF f(2), of "w @ [f]"] obtain fs j' where
    "append_chunks row_len [] chunks (w @ [f]) j1 = (Some ((w @ [f]) @ fs), j')" "journal_inv j' ((log @ [t]) @ chunks)"
    "ring_limit j' = ring_limit j1" by blast
  then show ?case using a f(1) ok by (intro exI [of _ "f # fs"] exI [of _ j']) simp
qed simp

text \<open>The host's output, one call after the other, with every write done; and the frames' texts.\<close>

definition record_all :: "(RuntimeOutputFrame \<Rightarrow> nat) \<Rightarrow> utext list \<Rightarrow> OutputJournal \<Rightarrow> OutputJournal" where
  "record_all row_len outputs j = fold (\<lambda>data j. snd (append_output row_len [] data j)) outputs j"

definition frame_texts :: "utext list \<Rightarrow> utext list" where
  "frame_texts outputs = concat (map (\<lambda>data. split_utf8 data MAX_TRANSPORT_CHUNK_BYTES) outputs)"

lemma frame_texts_whole: "concat (frame_texts outputs) = concat outputs"
  using split_utf8_chunks by (induction outputs) (simp_all add: frame_texts_def)

lemma record_all_inv:
  "journal_inv j log \<Longrightarrow> journal_inv (record_all row_len outputs j) (log @ frame_texts outputs)
    \<and> ring_limit (record_all row_len outputs j) = ring_limit j"
proof (induction outputs arbitrary: j log)
  case (Cons data outputs)
  obtain fs j1 where a: "append_output row_len [] data j = (Some fs, j1)"
    "journal_inv j1 (log @ split_utf8 data MAX_TRANSPORT_CHUNK_BYTES)" "ring_limit j1 = ring_limit j"
    using append_chunks_ok [OF Cons.prems, of row_len "split_utf8 data MAX_TRANSPORT_CHUNK_BYTES" "[]"]
    by (auto simp: append_output_def)
  from Cons.IH [OF a(2)] show ?case using a(1,3) by (simp add: record_all_def frame_texts_def)
qed (simp add: record_all_def frame_texts_def)

section \<open>Reading\<close>

lemma collect_lines_clean:
  "collect_lines epoch (map Some rs) acc = Some (fold insert_seq (filter (\<lambda>r. frame_epoch r = epoch) rs) acc)"
  by (induction rs arbitrary: acc) simp_all

lemma run_frames_after:
  "m \<le> k \<Longrightarrow> filter (\<lambda>f. k + 1 \<le> seq_start f) (run_frames j log m) = run_frames j log k"
proof -
  assume "m \<le> k"
  then have "filter (\<lambda>s. k + 1 \<le> s) [Suc m ..< Suc n] = [Suc k ..< Suc n]" for n
    by (induction n) auto
  then show ?thesis by (simp add: run_frames_def filter_map log_frame_def comp_def del: upt_Suc)
qed

text \<open>A page of frames that all fit is a front of them, not empty when there are frames, and the rest is
  announced.\<close>

lemma fill_page_more:
  "acc \<noteq> [] \<Longrightarrow> \<exists>c. fill_page b fs used acc = (acc @ take c fs, c < length fs) \<and> c \<le> length fs"
proof (induction fs arbitrary: used acc)
  case (Cons f fs)
  show ?case
  proof (cases "b < used + max (byte_len (frame_data f)) 1")
    case True
    then show ?thesis using Cons.prems by (intro exI [of _ 0]) (simp add: Let_def)
  next
    case False
    obtain c where "fill_page b fs (used + max (byte_len (frame_data f)) 1) (acc @ [f])
        = ((acc @ [f]) @ take c fs, c < length fs)" "c \<le> length fs"
      using Cons.IH [of "acc @ [f]"] by blast
    then show ?thesis using Cons.prems False by (intro exI [of _ "Suc c"]) (simp add: Let_def)
  qed
qed simp

lemma fill_page_front:
  assumes "1 \<le> b" "list_all (\<lambda>f. byte_len (frame_data f) \<le> b) fs"
  shows "\<exists>c. fill_page b fs 0 [] = (take c fs, c < length fs) \<and> c \<le> length fs \<and> (fs \<noteq> [] \<longrightarrow> 0 < c)"
proof (cases fs)
  case (Cons f gs)
  obtain c where "fill_page b gs (max (byte_len (frame_data f)) 1) [f] = ([f] @ take c gs, c < length gs)" "c \<le> length gs"
    using fill_page_more [of "[f]"] by blast
  moreover have "\<not> b < max (byte_len (frame_data f)) 1" using assms Cons by (simp add: not_less)
  ultimately show ?thesis using Cons by (intro exI [of _ "Suc c"]) (simp add: Let_def del: max.bounded_iff)
qed simp

definition page_of :: "OutputJournal \<Rightarrow> utext list \<Rightarrow> nat \<Rightarrow> nat \<Rightarrow> nat \<Rightarrow> RuntimeOutputFrame list \<times> bool" where
  "page_of j log b k after = fill_page (min (max b 1) MAX_TRANSPORT_CHUNK_BYTES)
     (run_frames j log (if length log < after \<or> after < k then k else after)) 0 []"

definition reads_as_log :: "OutputJournal \<Rightarrow> utext list \<Rightarrow> nat \<Rightarrow> bool" where
  "reads_as_log j log k = (\<forall>after b. read_output j after b = Some \<lparr>retained_from_seq = Suc k, batch_head_seq = length log,
      reset_required = (length log < after \<or> after < k),
      truncated = (length log < after \<or> after < k) \<or> snd (page_of j log b k after), frames = fst (page_of j log b k after)\<rparr>)"

lemma read_over_log:
  assumes "journal_inv j log"
  shows "\<exists>k\<le>length log. reads_as_log j log k \<and> (\<forall>i. byte_len (concat (drop i log)) \<le> ring_limit j \<longrightarrow> k \<le> i)"
proof -
  obtain old new m n where s: "clean_lines (previous (dir j)) old" "clean_lines (current (dir j)) new" "m \<le> n"
    "n \<le> length log" "of_epoch j (old @ new) = run_frames j log m"
    using assms by (auto simp: journal_inv_def spool_over_def)
  obtain q where q: "q \<le> length log" "ring j = run_frames j log q"
    "\<forall>i. byte_len (concat (drop i log)) \<le> ring_limit j \<longrightarrow> q \<le> i"
    using assms unfolding journal_inv_def ring_over_def by blast
  have "collect_lines (stream_epoch j) (lines_of (previous (dir j)) @ lines_of (current (dir j))) []
      = Some (fold insert_seq (of_epoch j (old @ new)) [])"
    using s(1,2) collect_lines_clean [of "stream_epoch j" "old @ new"] by (simp add: clean_lines_of of_epoch_def)
  then have spooled: "collect_lines (stream_epoch j) (lines_of (previous (dir j)) @ lines_of (current (dir j))) []
      = Some (run_frames j log m)" using s(5) run_from_nothing by simp
  obtain k where k: "k = min m q" by blast
  have nxt: "next_seq j = Suc (length log)" using assms by (simp add: journal_inv_def)
  have le: "k \<le> length log" using s(3,4) k by simp
  have retained: "(case run_frames j log k of [] \<Rightarrow> next_seq j | f # _ \<Rightarrow> seq_start f) = Suc k"
    using nxt le run_frames_tl [of k log j] by (cases "k = length log") (simp_all add: log_frame_def)
  have joined: "fold insert_seq (ring j) (run_frames j log m) = run_frames j log k"
    using runs_join q(2) k by simp
  have "reads_as_log j log k"
    unfolding reads_as_log_def
    using spooled joined retained nxt run_frames_after [of k k j log] run_frames_after [of k _ j log]
    by (auto simp: read_output_def page_of_def head_seq_def Let_def case_prod_beta)
  moreover have "\<forall>i. byte_len (concat (drop i log)) \<le> ring_limit j \<longrightarrow> k \<le> i"
    using q(3) k by (auto intro: min.coboundedI2)
  ultimately show ?thesis using le by blast
qed

section \<open>A whole reading\<close>

lemma page_of_run:
  assumes "list_all (\<lambda>t. byte_len t \<le> MAX_TRANSPORT_CHUNK_BYTES) log" "MAX_TRANSPORT_CHUNK_BYTES \<le> b" "k \<le> length log"
    and from_def: "from = (if length log < after \<or> after < k then k else after)"
  shows "\<exists>c. page_of j log b k after = (map (log_frame j log) [Suc from ..< Suc (from + c)], from + c < length log)
    \<and> from + c \<le> length log \<and> (from < length log \<longrightarrow> 0 < c)"
proof -
  have from_le: "from \<le> length log" using assms(3,4) by auto
  have b: "min (max b 1) MAX_TRANSPORT_CHUNK_BYTES = MAX_TRANSPORT_CHUNK_BYTES"
    using assms(2) by (simp add: MAX_TRANSPORT_CHUNK_BYTES_def)
  have "list_all (\<lambda>f. byte_len (frame_data f) \<le> MAX_TRANSPORT_CHUNK_BYTES) (run_frames j log from)"
    using assms(1) by (auto simp: list_all_iff run_frames_def log_frame_def)
  from fill_page_front [OF _ this] obtain c where c: "page_of j log b k after
      = (take c (run_frames j log from), c < length (run_frames j log from))" "c \<le> length (run_frames j log from)"
    "run_frames j log from \<noteq> [] \<longrightarrow> 0 < c"
    using assms(4) b by (auto simp: page_of_def MAX_TRANSPORT_CHUNK_BYTES_def)
  moreover have "length (run_frames j log from) = length log - from" by (simp add: run_frames_def del: upt_Suc)
  moreover have "take c (run_frames j log from) = map (log_frame j log) [Suc from ..< Suc (from + c)]"
    using c(2) from_le by (simp add: run_frames_def take_map take_upt del: upt_Suc)
  ultimately show ?thesis using from_le by (intro exI [of _ c]) (auto simp del: upt_Suc)
qed

lemma fresh_journal_inv:
  assumes "clean_lines (previous d) old" "clean_lines (current d) new" "\<forall>r\<in>set (old @ new). frame_epoch r \<noteq> epoch"
  shows "journal_inv (with_limits d term epoch r s) []"
proof -
  have "fold (\<lambda>line most. case line of None \<Rightarrow> most | Some r \<Rightarrow> if frame_epoch r = epoch then max most (seq_end r) else most)
      (map Some rs) a = a" if "\<forall>r\<in>set rs. frame_epoch r \<noteq> epoch" for rs and a :: nat
    using that by (induction rs arbitrary: a) auto
  from this [OF assms(3), of 0] have "next_seq (with_limits d term epoch r s) = Suc 0"
    using assms(1,2) by (simp add: with_limits_def seed_sequence_def clean_lines_of)
  moreover have "of_epoch (with_limits d term epoch r s) rs = []" if "set rs \<subseteq> set (old @ new)" for rs
    using that assms(3) by (auto simp: of_epoch_def with_limits_def filter_empty_conv)
  ultimately have "spool_over (with_limits d term epoch r s) [] (dir (with_limits d term epoch r s))"
    using assms(1,2) unfolding spool_over_def
    by (intro exI [of _ old] exI [of _ new] exI [of _ 0]) (simp add: run_frames_def, simp add: with_limits_def)
  then show ?thesis
    using \<open>next_seq (with_limits d term epoch r s) = Suc 0\<close>
    by (simp add: journal_inv_def ring_over_def run_frames_def) (auto simp: with_limits_def ring_size_def)
qed

lemma frame_texts_bounded: "list_all (\<lambda>t. byte_len t \<le> MAX_TRANSPORT_CHUNK_BYTES) (frame_texts outputs)"
proof -
  have "list_all (\<lambda>t. byte_len t \<le> MAX_TRANSPORT_CHUNK_BYTES) (split_utf8 data MAX_TRANSPORT_CHUNK_BYTES)" for data
    using split_utf8_chunks [of data MAX_TRANSPORT_CHUNK_BYTES]
    by (auto simp: list_all_iff MAX_TRANSPORT_CHUNK_BYTES_def)
  then show ?thesis by (induction outputs) (auto simp: frame_texts_def list_all_iff)
qed

text \<open>A reader that asks again from the last number it got, as long as the answer says there is more.\<close>

fun read_through :: "nat \<Rightarrow> OutputJournal \<Rightarrow> nat \<Rightarrow> nat \<Rightarrow> utext" where
  "read_through 0 j b after = []"
| "read_through (Suc n) j b after =
     (case read_output j after b of
        None \<Rightarrow> []
      | Some batch \<Rightarrow> concat (map frame_data (frames batch))
          @ (if truncated batch \<and> frames batch \<noteq> [] then read_through n j b (seq_end (last (frames batch))) else []))"

lemma log_frame_texts:
  "from + c \<le> length log \<Longrightarrow> map frame_data (map (log_frame j log) [Suc from ..< Suc (from + c)]) = take c (drop from log)"
  by (rule nth_equalityI) (auto simp: log_frame_def simp del: upt_Suc)

lemma read_through_log:
  assumes "reads_as_log j log k" "k \<le> length log"
    and "list_all (\<lambda>t. byte_len t \<le> MAX_TRANSPORT_CHUNK_BYTES) log" "MAX_TRANSPORT_CHUNK_BYTES \<le> b"
  shows "length log < n + (if length log < after \<or> after < k then k else after) \<Longrightarrow>
    read_through n j b after = concat (drop (if length log < after \<or> after < k then k else after) log)"
proof (induction n arbitrary: after)
  case 0
  then show ?case using assms(2) by (auto split: if_splits)
next
  case (Suc n)
  define p where "p = (if length log < after \<or> after < k then k else after)"
  obtain c where c: "page_of j log b k after = (map (log_frame j log) [Suc p ..< Suc (p + c)], p + c < length log)"
    "p + c \<le> length log" "p < length log \<longrightarrow> 0 < c"
    using page_of_run [OF assms(3,4,2) p_def] by blast
  have "concat (drop p log) = concat (take c (drop p log)) @ concat (drop (p + c) log)"
    by (metis append_take_drop_id concat_append drop_drop add.commute)
  moreover have "read_through n j b (p + c) = concat (drop (p + c) log)" if "0 < c"
  proof -
    have "(if length log < p + c \<or> p + c < k then k else p + c) = p + c"
      using c(2) assms(2) by (auto simp: p_def)
    then show ?thesis using Suc.IH [of "p + c"] Suc.prems that by (simp add: p_def)
  qed
  moreover have "seq_end (last (fst (page_of j log b k after))) = p + c" if "0 < c"
    using c(1) that by (simp add: last_map log_frame_def)
  moreover note texts = log_frame_texts [OF c(2), of j]
  ultimately show ?case
    using assms(1) c by (auto simp: reads_as_log_def p_def [symmetric] simp del: upt_Suc)
qed

end
