(* ===== verification/Journal_Reading.thy ===== *)
theory Journal_Reading
  imports Journal_Props
begin

text \<open>
  The promises of the output journal: a reader that follows the cursor gets the output without a gap, memory and
  disk stay within their limits; and three runs in which output is lost to the reader.
\<close>

section \<open>Bounds\<close>

definition within :: "nat \<Rightarrow> SpoolDir \<Rightarrow> bool" where
  "within L d = (length_on_disk (previous d) \<le> L \<and> length_on_disk (current d) \<le> L)"

lemma push_len [simp]:
  "file_len (push_row f n file) = file_len file + n + 1" "file_len (push_part part n file) = file_len file + n"
  by (simp_all add: push_row_def push_part_def)

lemma append_spool_within:
  assumes "append_spool row_len limit io f d = (ok, d')" "within L d" "segment_limit limit \<le> L" "row_len f + 1 \<le> L"
  shows "within L d'"
  using assms
  by (auto simp: append_spool_def within_def length_on_disk_def empty_file_def Let_def
      split: if_splits option.splits SpoolIo.splits)

definition fits :: "nat \<Rightarrow> OutputJournal \<Rightarrow> bool" where
  "fits L j = (within L (dir j) \<and> segment_limit (spool_limit j) \<le> L
     \<and> ring_bytes j = ring_size (ring j) \<and> ring_bytes j \<le> ring_limit j)"

lemma append_chunk_fits:
  assumes "append_chunk row_len io t j = (r, j')" "fits L j" "\<forall>f. row_len f + 1 \<le> L"
  shows "fits L j' \<and> ring_limit j' = ring_limit j"
proof -
  let ?f = "\<lparr>frame_terminal = terminal_id j, frame_epoch = stream_epoch j, seq_start = next_seq j,
      seq_end = next_seq j, frame_data = t\<rparr>"
  obtain ok d where d: "append_spool row_len (spool_limit j) io ?f (dir j) = (ok, d)"
    by (cases "append_spool row_len (spool_limit j) io ?f (dir j)")
  obtain kept bytes where e: "evict (ring_limit j) (ring j @ [?f]) (ring_bytes j + byte_len t) = (kept, bytes)"
    by (cases "evict (ring_limit j) (ring j @ [?f]) (ring_bytes j + byte_len t)")
  have "within L d" using append_spool_within [OF d] assms(2,3) by (simp add: fits_def)
  moreover have "bytes = ring_size kept \<and> bytes \<le> ring_limit j"
    using evict_keeps [OF e] assms(2) by (auto simp: fits_def ring_size_def)
  ultimately show ?thesis
    using assms(1,2) d e by (cases ok) (auto simp: append_chunk_def Let_def fits_def)
qed

lemma append_chunks_fits:
  "append_chunks row_len ios chunks w j = (r, j') \<Longrightarrow> fits L j \<Longrightarrow> \<forall>f. row_len f + 1 \<le> L \<Longrightarrow>
    fits L j' \<and> ring_limit j' = ring_limit j"
proof (induction row_len ios chunks w j rule: append_chunks.induct)
  case (2 row_len ios chunk chunks w j)
  obtain q j1 where a: "append_chunk row_len (case ios of [] \<Rightarrow> Spool_ok | io # _ \<Rightarrow> io) chunk j = (q, j1)"
    by (cases "append_chunk row_len (case ios of [] \<Rightarrow> Spool_ok | io # _ \<Rightarrow> io) chunk j")
  note fits = append_chunk_fits [OF a "2.prems"(2,3)]
  show ?case
  proof (cases q)
    case None
    then show ?thesis using "2.prems"(1) a fits by simp
  next
    case (Some frame)
    then show ?thesis using "2.IH" [OF a [symmetric] Some] "2.prems" a fits by simp
  qed
qed simp

text \<open>The host's calls, with how each of their writes ended.\<close>

definition run_calls :: "(RuntimeOutputFrame \<Rightarrow> nat) \<Rightarrow> (SpoolIo list \<times> utext) list \<Rightarrow> OutputJournal \<Rightarrow> OutputJournal" where
  "run_calls row_len calls j = fold (\<lambda>(ios, data) j. snd (append_output row_len ios data j)) calls j"

lemma run_calls_fits:
  "fits L j \<Longrightarrow> \<forall>f. row_len f + 1 \<le> L \<Longrightarrow>
    fits L (run_calls row_len calls j) \<and> ring_limit (run_calls row_len calls j) = ring_limit j"
proof (induction calls arbitrary: j)
  case (Cons c calls)
  obtain ios data where c: "c = (ios, data)" by (cases c)
  obtain r j1 where a: "append_output row_len ios data j = (r, j1)" by (cases "append_output row_len ios data j")
  have "fits L j1 \<and> ring_limit j1 = ring_limit j"
    using append_chunks_fits [of row_len ios _ _ j r j1 L] a Cons.prems by (simp add: append_output_def)
  then show ?case using Cons.IH [of j1] Cons.prems(2) a c by (simp add: run_calls_def)
qed (simp add: run_calls_def)

text \<open>Memory and disk stay bounded. Whatever is appended and however each write ends - refused, torn, unsynced, a
  rotation that fails halfway - each of the two spool files stays within the larger of half the spool limit and
  one row, and the ring within its limit.\<close>

theorem journal_stays_bounded:
  assumes "\<forall>f. row_len f + 1 \<le> L" "segment_limit (max spool_max (MAX_TRANSPORT_CHUNK_BYTES * 4)) \<le> L" "within L d"
  shows "spool_bytes (run_calls row_len calls (with_limits d tid epoch ring_max spool_max)) \<le> 2 * L
    \<and> ring_size (ring (run_calls row_len calls (with_limits d tid epoch ring_max spool_max)))
        \<le> max ring_max MAX_TRANSPORT_CHUNK_BYTES"
proof -
  let ?j = "with_limits d tid epoch ring_max spool_max"
  have "fits L ?j" using assms(2,3) by (simp add: fits_def with_limits_def ring_size_def)
  from run_calls_fits [OF this assms(1), of calls]
  have "fits L (run_calls row_len calls ?j)" "ring_limit (run_calls row_len calls ?j) = ring_limit ?j" by blast+
  then show ?thesis by (auto simp: fits_def within_def spool_bytes_def with_limits_def)
qed

theorem journal_stays_bounded_witness:
  "spool_bytes (run_calls (\<lambda>f. 100) [([Torn 7], [65, 66]), ([], [67])]
     (with_limits \<lparr>previous = None, current = None\<rparr> ''t'' ''e'' 0 0)) \<le> 2 * 131072"
  using journal_stays_bounded [of "\<lambda>f. 100" 131072 0 "\<lparr>previous = None, current = None\<rparr>"
      "[([Torn 7], [65, 66]), ([], [67])]" "''t''" "''e''" 0]
  by (simp add: within_def length_on_disk_def segment_limit_def MAX_TRANSPORT_CHUNK_BYTES_def)

section \<open>Reading\<close>


definition empty_dir :: SpoolDir where
  "empty_dir = \<lparr>previous = None, current = None\<rparr>"


section \<open>Output that a reader does not get\<close>

lemma split_examples:
  "split_utf8 [] n = []" "split_utf8 [c] n = [[c]]" "split_utf8 [65, 66] 65536 = [[65, 66]]" "split_utf8 [65, 66] (Suc 0) = [[65], [66]]"
proof -
  have "next_chunk n [c] = [c]" for n c by (simp add: next_chunk_def Let_def)
  then show "split_utf8 [] n = []" "split_utf8 [c] n = [[c]]" for n c
    by (simp_all add: split_utf8.simps [of "[]"] split_utf8.simps [of "[c]"])
  moreover have "next_chunk 65536 [65, 66] = [65, 66]" "next_chunk (Suc 0) [65, 66] = [65]"
    by (simp_all add: next_chunk_def len_utf8_def)
  ultimately show "split_utf8 [65, 66] 65536 = [[65, 66]]" "split_utf8 [65, 66] (Suc 0) = [[65], [66]]"
    by (simp_all add: split_utf8.simps [of "[65, 66]"])
qed

lemmas run_simps = with_limits_def seed_sequence_def lines_of_def empty_dir_def append_output_def append_chunk_def
  append_spool_def push_row_def push_part_def empty_file_def length_on_disk_def segment_limit_def split_examples
  len_utf8_def MAX_TRANSPORT_CHUNK_BYTES_def read_output_def head_seq_def Let_def

definition two_chars :: OutputJournal where
  "two_chars = snd (append_output (\<lambda>f. 10) [] [65, 66] (with_limits empty_dir ''t'' ''e'' 0 0))"

text \<open>A budget below the frame yields the front of the frame under the frame's number; asked again from there, the
  journal has nothing more and asks for no reset: the rest of the frame is lost.\<close>

lemma small_budget_loses_text:
  "read_through (Suc (Suc 0)) two_chars 1 0 = [65]
   \<and> map_option (\<lambda>b. (reset_required b, truncated b, frames b)) (read_output two_chars 1 1) = Some (False, False, [])"
  by (simp add: two_chars_def run_simps)

text \<open>A row that could not be written uses up its number: the reader steps over it without a word.\<close>

lemma failed_write_leaves_gap:
  "map_option (\<lambda>b. (reset_required b, truncated b, map seq_start (frames b), map frame_data (frames b)))
     (read_output (run_calls (\<lambda>f. 10) [([], [65]), ([Open_failed], [66]), ([], [67])]
       (with_limits empty_dir ''t'' ''e'' 0 0)) 0 65536) = Some (False, False, [1, 3], [[65], [67]])"
  by (simp add: run_calls_def run_simps)

text \<open>A torn row, and the row behind it that it swallows, make every later read fail, while a journal opened over the
  same files skips them.\<close>

lemma torn_row_blinds_reader:
  "read_output (run_calls (\<lambda>f. 10) [([], [65]), ([Torn 4], [66]), ([], [67])] (with_limits empty_dir ''t'' ''e'' 0 0)) a b = None
   \<and> next_seq (with_limits (dir (run_calls (\<lambda>f. 10) [([], [65]), ([Torn 4], [66])] (with_limits empty_dir ''t'' ''e'' 0 0)))
       ''t'' ''e'' 0 0) = 2"
  by (simp add: run_calls_def run_simps)

end
