(* ===== verification/Spec2Isabelle.thy ===== *)
theory Spec2Isabelle
  imports Own_Recovery Chunk_Ring Output_Framer Create_Limit Delivery_Fair Utf8_Decoder Mode_Props Idle_Noise Batch_Props
    Lease_Props Session_Ref_Props Dedupe_Props Activity_Props
    Layout_Props Json_Props Command_Props Journal_Reading
begin

text \<open>
  A verification development for freshell, a server that hosts terminals and coding-agent sessions for
  browser clients. It models the parts of the Rust workspace under src/crates that carry its own logic: who
  may drive a session, how a terminal's output is kept, cut, scanned and delivered, how a claude terminal's
  turns are tracked, and what a session host writes down. Paths below are relative to src/crates.

  \<^bold>\<open>The ownership coordinator\<close> (freshell-ownership/src/lib.rs). One session of a provider may be driven by a
  terminal or by an agent pane, never by both: two writers would corrupt its transcript. The coordinator
  keeps one record per session key, and every lane of the server begins and ends its work through it. A key
  is vacant, starting, live, in a handoff, stopping, fenced or an alias of another key, with a generation
  that grows at every claim.

  \<^item> \<open>Own_Types\<close>: the types of the crate, field for field, and the mint of the boot epoch. \<open>Own_Begin\<close>:
    starts, handoffs, attach and adopt guards. \<open>Own_Commit\<close>: commits, re-keys, aliases. \<open>Own_Stop\<close>: failures,
    fences, stops and releases. \<open>Own_Sweep\<close>: the watchdog and the reconnect replay. \<open>Own_Ticket\<close>: the RAII
    ticket of a create.
  \<^item> \<open>Machine\<close>: the locale \<open>keyed_machine\<close>, between a component's transitions and claims about its runs.
    \<open>Own_Lifecycle\<close>: the abstract lifecycle of one key. \<open>Own_System\<close>: the coordinator as a step relation over
    all its operations, and the interpretation \<open>own\<close>.
  \<^item> \<open>Own_Safety\<close>: what holds of every run, proved through \<open>own\<close>. \<open>Own_Alias\<close>: the alias graph is acyclic.
    \<open>Own_Claims\<close>: what each operation grants, refuses and leaves. \<open>Own_Recovery\<close>: sweeps, moves of claims,
    replay, and corners where code and documentation part.

  \<^bold>\<open>Leases and the reaper.\<close> Before a lane asks the coordinator, it takes a lease for the session, and a lease
  whose holder is stuck may be taken over once the holder is dead.

  \<^item> \<open>Lease_Contract\<close>: what such a table promises, as slots with events, and the locale \<open>lease_table\<close>. A slot's
    entry may go because its holder was identified as dead (\<open>Reap\<close>) or without any evidence (\<open>Forced\<close>).
  \<^item> \<open>Fresh_Leases\<close> (freshell-freshagent/src/session_lease.rs, the two claim rounds of codex.rs): the table,
    interpreted as \<open>fresh\<close>. \<open>Lease_Props\<close>: one writer, holders that cannot be killed, late teardowns, takeover.
  \<^item> \<open>Process_Evidence\<close>, \<open>Reaper\<close>, \<open>Reaper_Props\<close> (session_lease.rs, Linux): reading /proc, the scan for
    tagged processes, pinned signals, the kill rounds; a confirmed tree is dead, and no signal strays.
  \<^item> \<open>Session_Refs\<close>, \<open>Session_Ref_Props\<close> (freshell-terminal/src/registry.rs): the leases and bindings of
    terminals, interpreted as \<open>refs\<close>, and the coordinator's claims that terminals retain.
  \<^item> \<open>Create_Dedupe\<close>, \<open>Dedupe_Props\<close> (freshell-ws/src/create_dedupe.rs): one create per request id, in every
    interleaving of its locked phases. \<open>Create_Limit\<close> (create_limit.rs): the sliding window per connection.

  \<^bold>\<open>Terminal output\<close> (freshell-terminal/src, freshell-ws/src/terminal_delivery_queue.rs).

  \<^item> \<open>Text_Units\<close>: text as Unicode scalar values, its UTF-8 bytes and UTF-16 length. \<open>Stream_Scanner\<close>: the
    locale \<open>stream_scanner\<close>, for scanners whose answers do not depend on how a stream is cut, interpreted on
    \<open>Utf8_Decoder\<close> (decode.rs), \<open>Barrier_Scanner\<close> (barrier_scanner.rs) and \<open>Mode_Tracker\<close> (mode_tracker.rs,
    with \<open>Mode_Props\<close>). \<open>Idle_Noise\<close> (idle_noise.rs): repaint fingerprints.
  \<^item> \<open>Replay_Ring\<close> and \<open>Chunk_Ring\<close> (replay_ring.rs, chunk_ring.rs): the sequenced replay and the scrollback,
    both instances of the locale \<open>log_buffer\<close> of \<open>Log_Buffer\<close>; \<open>Replay_Window\<close> and \<open>Replay_Props\<close>: the abstract
    window, the refinement, the gap detector.
  \<^item> \<open>Fragment\<close>, \<open>Output_Framer\<close> (fragment.rs, framing.rs): cutting output to a message budget, with the
    budget measure computed on the JSON text, and the round trip to the client's text.
  \<^item> \<open>Output_Batch\<close>, \<open>Batch_Props\<close> (batch.rs): merging plain frames into one message and paging.
  \<^item> \<open>Delivery_Queue\<close>: the per-connection queue; \<open>Delivery_Spec\<close>: the mailbox it refines; \<open>Delivery_Props\<close>:
    order and gaps; \<open>Delivery_Fair\<close>: the scheduler.

  \<^bold>\<open>Activity\<close> (freshell-activity/src, freshell-ws/src/activity.rs). A terminal that runs claude is busy from
  a submit to the bell that ends the turn; one frame tells the client when it has become idle.

  \<^item> \<open>Turn_Signal\<close>, \<open>Quit_Intent\<close> (signal.rs): bells in the output, quits in the input. \<open>Claude_Activity\<close>,
    \<open>Claude_Turns\<close> (claude.rs, ledger.rs): the turn tracker and its account. \<open>Idle_Gate\<close> (idle.rs): the grace
    window. \<open>Alarm_Clock\<close>: the locale of a machine that names its own deadline, interpreted on the gate
    (\<open>gate_clock\<close>) and the tracker (\<open>claude_clock\<close>).
  \<^item> \<open>Claude_Hub\<close>: the claude lane of the hub. \<open>Hub_Link\<close>, \<open>Hub_Run\<close>, \<open>Hub_Quiet\<close>: its runs, the invariant that
    tracker and gate agree, and that terminals do not disturb each other. \<open>Quit_History\<close>: what was typed,
    read off the history. \<open>Hub_Sleep\<close>: hubs that nothing can tell apart. \<open>Activity_Props\<close>: the promises.

  \<^bold>\<open>Panes, relayed frames, session host.\<close>

  \<^item> \<open>Layout_Tree\<close>, \<open>Layout_Props\<close> (freshell-freshagent/src/layout_tree.rs): the pane tree, its searches, edits
    and grids.
  \<^item> \<open>Json_Scan\<close>, \<open>Json_Envelope\<close> (freshell-codex/src/json_scan.rs, remote_proxy_envelope.rs): the scanner that
    reads single fields out of large frames. \<open>Json_Grammar\<close>: JSON text as RFC 8259 has it, without a scanner;
    \<open>Json_Tokens\<close>, \<open>Json_Numbers\<close>, \<open>Json_Skip\<close>, \<open>Json_Object\<close>: each part against the grammar; \<open>Json_Props\<close>.
  \<^item> \<open>Command_Journal\<close>, \<open>Command_Props\<close> (freshell-session-host/src/command_journal.rs, \<open>write_input\<close> of pty.rs):
    input that is retried over crashes. \<open>Output_Journal\<close>, \<open>Journal_Props\<close>, \<open>Journal_Reading\<close>
    (output_journal.rs): the spooled output, its reader and its bounds.

  \<^bold>\<open>Conventions.\<close> A method under a mutex is one function of the state that returns its typed outcome and the
  state after it; where the code releases a lock between two looks, it is two operations, and an execution is
  any sequence of operations with any arguments. A panic is None, an error the left of a sum. What a run
  reads from outside is an argument: clocks, the environment, the order in which a hash map is iterated,
  the answers of /proc and of the transcript probes, the outcome of each access to a disk.

  \<^bold>\<open>Parameters and hypotheses.\<close> Code that is not in the repository is a parameter, with what the code relies on
  as a named hypothesis: the host of the reaper with \<open>faithful\<close> (what proc(5) and pidfd_open(2) say) and
  \<open>one_life\<close> (a start time names one incarnation), and \<open>owned\<close>, that the tag of a sidecar is on its processes
  only; the order of iteration with \<open>enumerates\<close>, each key once; the size of a JSON value in the batch
  builder (\<open>weigh\<close>), arbitrary; SHA-256 in the command journal and the length of a spooled row in the output
  journal, arbitrary; the conversion of a number token to f64, arbitrary; and, because HOL has no f64, the
  sizes of panes with their JSON spelling (\<open>number_codec\<close>).

  \<^bold>\<open>Bounds.\<close> Counters that the code keeps in 64 bits are natural numbers or integers where they grow by one per
  operation and cannot wrap in any run of the server; \<open>Own_Safety\<close> bounds the generations by the length of the
  run, and \<open>stream_reassembles\<close> carries the bound it needs. Where wrapping, saturation or a cast can change a
  value it is written out: the boot epoch and the fingerprints on 64-bit words, the lease clock modulo
  \<open>2 ^ 64\<close>, \<open>usize_as_i64\<close>, the saturating counters of the delivery queue. Loops are functions with proved
  termination, or carry the code's own bound: 24 sweep rounds and 20 waits of the reaper, 128 ancestors of a
  process, 4 passes over a message's size, the visited ids of the alias walk. The recursion that builds a
  row of no panes does not end; it is a \<open>partial_function\<close> whose value is None there.

  \<^bold>\<open>Not modelled.\<close> Logging and metrics; serde; async tasks, sockets, HTTP routes and process management around
  these components; the trackers of the other providers; the rows, subscribers and PTY handling of the
  terminal registry; the non-Linux variants of the reaper; the TypeScript client. A line of the output
  spool is assumed to be UTF-8; one that is not would also fail the opening of the journal.
\<close>

end
